(* ===== verification/Prelude.thy ===== *)
theory Prelude
  imports Main "HOL-Library.Word" "HOL-Library.Multiset"
begin

text \<open>
  Shared vocabulary of the development.  A C++ function that can fail is a function into
  \<open>'a res\<close>: \<open>Inl e\<close> is the abnormal exit, \<open>Inr x\<close> the returned value.  The abnormal exits
  are those of the code: \<open>Abort\<close> for a failed \<open>DDebugAssert\<close>, \<open>DAlwaysAssert\<close> or \<open>DApiAssert\<close>,
  \<open>DUnimplemented\<close> and \<open>DUnsupportedImpl\<close> (all of them end in \<open>std::abort\<close>, see
  src/dtorch/common/debug.cc; the default build has \<open>DTORCH_DEBUG\<close> on), \<open>InvalidArgument\<close> for
  \<open>throw std::invalid_argument\<close>, \<open>RuntimeError\<close> for \<open>throw std::runtime_error\<close>, \<open>LengthError\<close> for the
  \<open>std::length_error\<close> of a container, \<open>OutOfRange\<close> for the \<open>std::out_of_range\<close> of \<open>at\<close>, \<open>BadOptionalAccess\<close> for that
  exception of \<open>value\<close>, and \<open>Undefined\<close> for C++ undefined behaviour (an access outside
  a vector, an integer division by zero).  Texts of messages are not modelled.
\<close>

datatype err = Abort | InvalidArgument | RuntimeError | LengthError | OutOfRange | BadOptionalAccess | StdException | Undefined

type_synonym 'a res = "err + 'a"

named_theorems res_simps "evaluation of the result combinators"

definition bindR :: "'a res \<Rightarrow> ('a \<Rightarrow> 'b res) \<Rightarrow> 'b res" where
  "bindR m f = (case m of Inl e \<Rightarrow> Inl e | Inr x \<Rightarrow> f x)"

definition guardR :: "err \<Rightarrow> bool \<Rightarrow> 'a res \<Rightarrow> 'a res" where
  "guardR e b k = (if b then k else Inl e)"

abbreviation (input) assertR :: "bool \<Rightarrow> 'a res \<Rightarrow> 'a res" where
  "assertR \<equiv> guardR Abort"

abbreviation (input) requireR :: "bool \<Rightarrow> 'a res \<Rightarrow> 'a res" where
  "requireR \<equiv> guardR InvalidArgument"

text \<open>A \<open>for\<close> loop whose body may exit abnormally, and the loop that pushes its results.\<close>

fun foldR :: "('a \<Rightarrow> 's \<Rightarrow> 's res) \<Rightarrow> 'a list \<Rightarrow> 's \<Rightarrow> 's res" where
  "foldR f [] s = Inr s"
| "foldR f (x # xs) s = bindR (f x s) (foldR f xs)"

definition valueR :: "'a option \<Rightarrow> 'a res" where
  "valueR v = (case v of None \<Rightarrow> Inl BadOptionalAccess | Some x \<Rightarrow> Inr x)"

lemma valueR_simps [simp]: "valueR None = Inl BadOptionalAccess" "valueR (Some x) = Inr x"
  by (simp_all add: valueR_def)

fun mapR :: "('a \<Rightarrow> 'b res) \<Rightarrow> 'a list \<Rightarrow> 'b list res" where
  "mapR f [] = Inr []"
| "mapR f (x # xs) = bindR (f x) (\<lambda>y. bindR (mapR f xs) (\<lambda>ys. Inr (y # ys)))"

lemma bindR_Inl [simp, res_simps]: "bindR (Inl e) f = Inl e"
  by (simp add: bindR_def)

lemma bindR_Inr [simp, res_simps]: "bindR (Inr x) f = f x"
  by (simp add: bindR_def)

lemma bindR_eq_Inr: "bindR m f = Inr y \<longleftrightarrow> (\<exists>x. m = Inr x \<and> f x = Inr y)"
  by (cases m) auto

lemma bindR_eq_Inl: "bindR m f = Inl e \<longleftrightarrow> m = Inl e \<or> (\<exists>x. m = Inr x \<and> f x = Inl e)"
  by (cases m) auto

lemma bindR_assoc: "bindR (bindR m f) g = bindR m (\<lambda>x. bindR (f x) g)"
  by (cases m) auto

lemma guardR_True [simp, res_simps]: "guardR e True k = k"
  by (simp add: guardR_def)

lemma guardR_False [simp, res_simps]: "guardR e False k = Inl e"
  by (simp add: guardR_def)

lemma bindR_guardR: "bindR (guardR e b k) f = guardR e b (bindR k f)"
  by (simp add: guardR_def)

lemma guardR_eq_Inr: "guardR e b k = Inr y \<longleftrightarrow> b \<and> k = Inr y"
  by (simp add: guardR_def)

lemma guardR_eq_Inl: "guardR e b k = Inl e' \<longleftrightarrow> (\<not> b \<and> e = e') \<or> (b \<and> k = Inl e')"
  by (auto simp: guardR_def)

lemmas res_eqs = bindR_eq_Inr bindR_eq_Inl guardR_eq_Inr guardR_eq_Inl

lemma foldR_append: "foldR f (xs @ ys) s = bindR (foldR f xs s) (foldR f ys)"
proof (induction xs arbitrary: s)
  case Nil
  then show ?case by simp
next
  case (Cons x xs)
  then show ?case by (cases "f x s") auto
qed

lemma foldR_invariant:
  assumes "foldR f xs s = Inr t" and "P s"
    and "\<And>x s t. x \<in> set xs \<Longrightarrow> P s \<Longrightarrow> f x s = Inr t \<Longrightarrow> P t"
  shows "P t"
  using assms
proof (induction xs arbitrary: s)
  case Nil
  then show ?case by simp
next
  case (Cons x xs)
  then show ?case by (auto simp: bindR_eq_Inr)
qed

lemma mapR_eq_Inr: "mapR f xs = Inr ys \<longleftrightarrow> length ys = length xs \<and> (\<forall>i < length xs. f (xs ! i) = Inr (ys ! i))"
proof (induction xs arbitrary: ys)
  case Nil
  then show ?case by auto
next
  case (Cons x xs)
  show ?case
    by (cases ys) (auto simp: bindR_eq_Inr Cons.IH nth_Cons split: nat.splits)
qed

lemma mapR_Inr [simp]: "mapR (\<lambda>x. Inr (f x)) xs = Inr (map f xs)"
  by (induction xs) auto

lemma mapR_total: "(\<And>x. x \<in> set xs \<Longrightarrow> f x = Inr (g x)) \<Longrightarrow> mapR f xs = Inr (map g xs)"
  by (induction xs) auto

lemma mapR_guard: "mapR (\<lambda>i. guardR e (P i) (Inr (g i))) xs =
    (if \<forall>i \<in> set xs. P i then Inr (map g xs) else Inl e)"
  by (induction xs) (auto simp: guardR_def)

text \<open>A loop that returns \<open>false\<close> at the first failing element and \<open>true\<close> at its end.\<close>

fun allR :: "('a \<Rightarrow> bool res) \<Rightarrow> 'a list \<Rightarrow> bool res" where
  "allR f [] = Inr True"
| "allR f (x # xs) = bindR (f x) (\<lambda>b. if b then allR f xs else Inr False)"

lemma allR_total: "(\<And>x. x \<in> set xs \<Longrightarrow> f x = Inr (g x)) \<Longrightarrow> allR f xs = Inr (list_all g xs)"
  by (induction xs) auto

lemma allR_True: "allR f xs = Inr True \<longleftrightarrow> (\<forall>x \<in> set xs. f x = Inr True)"
  by (induction xs) (auto simp: bindR_eq_Inr split: if_splits)

text \<open>
  \<open>mShape[index]\<close> of the container classes: the debug assertions, then the element.  A negative
  index counts from the end.
\<close>

definition at_int :: "'a list \<Rightarrow> int \<Rightarrow> 'a res" where
  "at_int xs i = assertR (i < int (length xs))
     (let j = (if i < 0 then i + int (length xs) else i) in
      assertR (j \<ge> 0) (Inr (xs ! nat j)))"

definition at_nat :: "'a list \<Rightarrow> nat \<Rightarrow> 'a res" where
  "at_nat xs i = assertR (i < length xs) (Inr (xs ! i))"

definition put_nat :: "'a list \<Rightarrow> nat \<Rightarrow> 'a \<Rightarrow> 'a list res" where
  "put_nat xs i v = assertR (i < length xs) (Inr (xs[i := v]))"

lemma at_nat_Inr [simp]: "i < length xs \<Longrightarrow> at_nat xs i = Inr (xs ! i)"
  by (simp add: at_nat_def)

lemma at_nat_eq_Inr: "at_nat xs i = Inr x \<longleftrightarrow> i < length xs \<and> x = xs ! i"
  by (auto simp: at_nat_def guardR_eq_Inr)

lemma at_nat_Abort: "\<not> i < length xs \<Longrightarrow> at_nat xs i = Inl Abort"
  by (simp add: at_nat_def)

lemma put_nat_Inr [simp]: "i < length xs \<Longrightarrow> put_nat xs i v = Inr (xs[i := v])"
  by (simp add: put_nat_def)

lemma put_nat_eq_Inr: "put_nat xs i v = Inr ys \<longleftrightarrow> i < length xs \<and> ys = xs[i := v]"
  by (auto simp: put_nat_def guardR_eq_Inr)

lemma at_int_nonneg: "0 \<le> i \<Longrightarrow> i < int (length xs) \<Longrightarrow> at_int xs i = Inr (xs ! nat i)"
  by (simp add: at_int_def)

lemma at_int_neg: "i < 0 \<Longrightarrow> - int (length xs) \<le> i \<Longrightarrow>
    at_int xs i = Inr (xs ! nat (i + int (length xs)))"
  by (simp add: at_int_def)

lemma at_int_eq_Inr:
  "at_int xs i = Inr x \<longleftrightarrow> - int (length xs) \<le> i \<and> i < int (length xs) \<and>
     x = xs ! nat (if i < 0 then i + int (length xs) else i)"
  by (auto simp: at_int_def Let_def guardR_eq_Inr)

text \<open>C++ integer division truncates towards zero; a zero divisor is undefined behaviour.\<close>

definition quot :: "int \<Rightarrow> int \<Rightarrow> int" where
  "quot a b = sgn a * sgn b * (\<bar>a\<bar> div \<bar>b\<bar>)"

definition quotR :: "int \<Rightarrow> int \<Rightarrow> int res" where
  "quotR a b = guardR Undefined (b \<noteq> 0) (Inr (quot a b))"

definition remR :: "int \<Rightarrow> int \<Rightarrow> int res" where
  "remR a b = guardR Undefined (b \<noteq> 0) (Inr (a - b * quot a b))"

lemma quot_nonneg [simp]: "0 \<le> a \<Longrightarrow> 0 < b \<Longrightarrow> quot a b = a div b"
  by (cases "a = 0") (auto simp: quot_def sgn_if)

lemma quotR_pos [simp]: "0 \<le> a \<Longrightarrow> 0 < b \<Longrightarrow> quotR a b = Inr (a div b)"
  by (simp add: quotR_def)

lemma remR_pos [simp]: "0 \<le> a \<Longrightarrow> 0 < b \<Longrightarrow> remR a b = Inr (a mod b)"
  by (simp add: remR_def minus_mult_div_eq_mod)

lemma remR_zero [simp]: "remR a 0 = Inl Undefined"
  by (simp add: remR_def)

lemma quotR_zero [simp]: "quotR a 0 = Inl Undefined"
  by (simp add: quotR_def)

text \<open>Generic facts on lists and products.\<close>

lemma prod_list_nonneg: "(\<forall>x \<in> set xs. 0 \<le> (x::int)) \<Longrightarrow> 0 \<le> prod_list xs"
  by (induction xs) auto

lemma prod_list_pos: "(\<forall>x \<in> set xs. 0 < (x::int)) \<Longrightarrow> 0 < prod_list xs"
  by (induction xs) auto

lemma prod_list_update:
  fixes xs :: "'a::comm_monoid_mult list"
  shows "i < length xs \<Longrightarrow> prod_list (xs[i := v]) * (xs ! i) = prod_list xs * v"
proof (induction xs arbitrary: i)
  case Nil
  then show ?case by simp
next
  case (Cons x xs)
  show ?case
  proof (cases i)
    case 0
    then show ?thesis by (simp add: ac_simps)
  next
    case (Suc j)
    with Cons.prems have "prod_list (xs[j := v]) * (xs ! j) = prod_list xs * v"
      by (intro Cons.IH) simp
    with Suc show ?thesis by (simp add: mult.assoc)
  qed
qed

lemma int_div_less:
  fixes k m p :: int
  assumes "0 < p" and "k < m * p"
  shows "k div p < m"
proof (rule ccontr)
  assume "\<not> k div p < m"
  with assms(1) have "m * p \<le> k div p * p" by (intro mult_right_mono) auto
  also have "\<dots> \<le> k" using assms(1) by (simp add: minus_mod_eq_div_mult [symmetric])
  finally show False using assms(2) by simp
qed

lemma upt_split3: "i < n \<Longrightarrow> [0..<n] = [0..<i] @ i # [Suc i..<n]"
  by (metis le0 le_add_same_cancel1 less_imp_add_positive upt_add_eq_append upt_conv_Cons)

end
