(* ===== verification/Texts.thy ===== *)
theory Texts
  imports Prelude
begin

text \<open>
  Text handling of src/dtorch/common: string.cc (\<open>String\<close>), argument_parser.{h,cc},
  environment_variable.cc and the address checks of ip_address.cc.  A \<open>std::string\<close> is a list of
  characters.  From the C++ library the model spells out \<open>std::tolower\<close> and \<open>std::toupper\<close> (C
  locale), \<open>std::to_string\<close> and \<open>std::stoi\<close>; the operating system (\<open>getenv\<close>, \<open>inet_pton\<close>, the
  probing of a port) enters as a function argument.
\<close>

section \<open>The C++ library functions used\<close>

definition char_tolower :: "char \<Rightarrow> char" where
  "char_tolower c = (let n = (of_char c :: nat) in if 65 \<le> n \<and> n \<le> 90 then char_of (n + 32) else c)"

definition char_toupper :: "char \<Rightarrow> char" where
  "char_toupper c = (let n = (of_char c :: nat) in if 97 \<le> n \<and> n \<le> 122 then char_of (n - 32) else c)"

definition digit_char :: "nat \<Rightarrow> char" where
  "digit_char d = char_of (48 + d)"

definition is_digit_char :: "char \<Rightarrow> bool" where
  "is_digit_char c \<longleftrightarrow> (let n = (of_char c :: nat) in 48 \<le> n \<and> n \<le> 57)"

definition char_digit :: "char \<Rightarrow> nat" where
  "char_digit c = (of_char c :: nat) - 48"

definition is_space_char :: "char \<Rightarrow> bool" where
  "is_space_char c \<longleftrightarrow> (let n = (of_char c :: nat) in n = 32 \<or> (9 \<le> n \<and> n \<le> 13))"

fun show_nat :: "nat \<Rightarrow> string" where
  "show_nat n = (if n < 10 then [digit_char n] else show_nat (n div 10) @ [digit_char (n mod 10)])"

declare show_nat.simps [simp del]

definition show_int :: "int \<Rightarrow> string" where
  "show_int i = (if i < 0 then CHR ''-'' # show_nat (nat (- i)) else show_nat (nat i))"

definition digits_value :: "string \<Rightarrow> nat" where
  "digits_value ds = foldl (\<lambda>n c. 10 * n + char_digit c) 0 ds"

text \<open>
  \<open>std::stoi\<close>: white space, a sign, the longest run of digits; the rest is ignored.  No digit or a
  value outside \<open>int\<close> is an exception (\<open>None\<close>).
\<close>

definition stoi :: "string \<Rightarrow> int option" where
  "stoi str =
     (let s = dropWhile is_space_char str;
          neg = (case s of c # _ \<Rightarrow> c = CHR ''-'' | [] \<Rightarrow> False);
          t = (case s of c # r \<Rightarrow> if c = CHR ''-'' \<or> c = CHR ''+'' then r else s | [] \<Rightarrow> s);
          ds = takeWhile is_digit_char t;
          v = (if neg then - int (digits_value ds) else int (digits_value ds))
      in if ds = [] \<or> v < - 2147483648 \<or> v > 2147483647 then None else Some v)"

lemma digit_char_props:
  assumes "d < 10"
  shows "is_digit_char (digit_char d)" "char_digit (digit_char d) = d"
    "\<not> is_space_char (digit_char d)" "digit_char d \<noteq> CHR ''-''" "digit_char d \<noteq> CHR ''+''"
    "digit_char d \<noteq> CHR '':''"
proof -
  have o: "(of_char (digit_char d) :: nat) = 48 + d" using assms by (simp add: digit_char_def)
  then show "is_digit_char (digit_char d)" "char_digit (digit_char d) = d"
    "\<not> is_space_char (digit_char d)"
    using assms by (auto simp: is_digit_char_def char_digit_def is_space_char_def Let_def)
  show "digit_char d \<noteq> CHR ''-''" "digit_char d \<noteq> CHR ''+''"
    using o by auto
  show "digit_char d \<noteq> CHR '':''"
    using o assms by auto
qed

lemma show_nat_props: "show_nat n \<noteq> [] \<and> list_all is_digit_char (show_nat n) \<and> digits_value (show_nat n) = n"
proof (induction n rule: show_nat.induct)
  case (1 n)
  show ?case
  proof (cases "n < 10")
    case True
    then show ?thesis by (simp add: show_nat.simps [of n] digits_value_def digit_char_props)
  next
    case False
    moreover have "n mod 10 < 10" by simp
    ultimately show ?thesis using 1
      by (simp add: show_nat.simps [of n] digits_value_def digit_char_props)
  qed
qed

lemma digit_not_special:
  "is_digit_char c \<Longrightarrow> \<not> is_space_char c" "is_digit_char c \<Longrightarrow> c \<noteq> CHR ''-''"
  "is_digit_char c \<Longrightarrow> c \<noteq> CHR ''+''" "is_digit_char c \<Longrightarrow> c \<noteq> CHR '':''"
  by (auto simp: is_digit_char_def is_space_char_def Let_def)

lemma takeWhile_digits: "list_all is_digit_char ds \<Longrightarrow> takeWhile is_digit_char ds = ds"
  by (induction ds) auto

lemma show_nat_no_colon: "CHR '':'' \<notin> set (show_nat n)"
  using show_nat_props [of n] digit_not_special(4) by (auto simp: list_all_iff)

lemma stoi_show_int:
  assumes "- 2147483648 \<le> i" and "i \<le> 2147483647"
  shows "stoi (show_int i) = Some i"
proof (cases "i < 0")
  case True
  have "\<not> is_space_char (CHR ''-'')" by (simp add: is_space_char_def)
  with True assms show_nat_props [of "nat (- i)"] show ?thesis
    by (simp add: stoi_def show_int_def Let_def takeWhile_digits)
next
  case False
  obtain c cs where c: "show_nat (nat i) = c # cs" using show_nat_props [of "nat i"] by (cases "show_nat (nat i)") auto
  with show_nat_props [of "nat i"] have d: "is_digit_char c" "list_all is_digit_char cs"
    "digits_value (c # cs) = nat i" by auto
  from False c d digit_not_special [OF d(1)] assms show ?thesis
    by (simp add: stoi_def show_int_def Let_def takeWhile_digits)
qed

section \<open>String\<close>

function String_Split :: "string \<Rightarrow> string \<Rightarrow> string list" where
  "String_Split str delimiters =
     (case dropWhile (\<lambda>c. c \<notin> set delimiters) str of
        [] \<Rightarrow> [str]
      | _ # rest \<Rightarrow> takeWhile (\<lambda>c. c \<notin> set delimiters) str # String_Split rest delimiters)"
  by pat_completeness auto
termination
proof (relation "measure (\<lambda>(str, _). length str)")
  fix str delimiters :: string and c rest
  assume "dropWhile (\<lambda>c. c \<notin> set delimiters) str = c # rest"
  then have "length (c # rest) \<le> length str" by (metis length_dropWhile_le)
  then show "((rest, delimiters), (str, delimiters)) \<in> measure (\<lambda>(str, _). length str)" by simp
qed simp

declare String_Split.simps [simp del]

definition String_ToUpper :: "string \<Rightarrow> string" where
  "String_ToUpper str = map char_toupper str"

definition String_ToLower :: "string \<Rightarrow> string" where
  "String_ToLower str = map char_tolower str"

text \<open>\<open>std::string::find\<close> and \<open>rfind\<close> of a substring.\<close>

definition str_find :: "string \<Rightarrow> string \<Rightarrow> nat option" where
  "str_find str sub = List.find (\<lambda>i. take (length sub) (drop i str) = sub) [0..<Suc (length str)]"

definition str_rfind :: "string \<Rightarrow> string \<Rightarrow> nat option" where
  "str_rfind str sub = List.find (\<lambda>i. take (length sub) (drop i str) = sub) (rev [0..<Suc (length str)])"

definition FindStringBetweenLeftAndRight :: "string \<Rightarrow> string \<Rightarrow> string \<Rightarrow> bool \<times> string" where
  "FindStringBetweenLeftAndRight str leftStr rightStr =
     (case str_find str leftStr of
        None \<Rightarrow> (False, str)
      | Some p \<Rightarrow>
          let leftPos = p + length leftStr in
          (case str_rfind (drop leftPos str) rightStr of
             None \<Rightarrow> (False, str)
           | Some r \<Rightarrow> let rightPos = r + leftPos in
               (True, take (rightPos - leftPos) (drop leftPos str))))"

lemma String_Split_NoDelim:
  assumes "set str \<inter> set ds = {}"
  shows "String_Split str ds = [str]"
proof -
  have "dropWhile (\<lambda>c. c \<notin> set ds) str = []" using assms by auto
  then show ?thesis by (simp only: String_Split.simps [of str] list.case)
qed

lemma String_Split_Delim:
  "set w \<inter> set ds = {} \<Longrightarrow> c \<in> set ds \<Longrightarrow> String_Split (w @ c # rest) ds = w # String_Split rest ds"
  by (subst String_Split.simps) (auto simp: dropWhile_append takeWhile_append split: list.splits)

fun String_Join :: "char \<Rightarrow> string list \<Rightarrow> string" where
  "String_Join d [] = []"
| "String_Join d [w] = w"
| "String_Join d (w # ws) = w @ d # String_Join d ws"

lemma String_Split_nonempty: "String_Split str ds \<noteq> []"
  by (subst String_Split.simps) (auto split: list.splits)

lemma String_Split_pieces: "w \<in> set (String_Split str ds) \<Longrightarrow> set w \<inter> set ds = {}"
proof (induction str ds rule: String_Split.induct)
  case (1 str ds)
  show ?case
  proof (cases "dropWhile (\<lambda>c. c \<notin> set ds) str")
    case Nil
    with 1 show ?thesis by (subst (asm) String_Split.simps) (auto simp: dropWhile_eq_Nil_conv)
  next
    case (Cons c rest)
    with 1 show ?thesis
      by (subst (asm) String_Split.simps [of str]) (auto dest: set_takeWhileD)
  qed
qed

text \<open>Splitting at a separator and joining the pieces with it gives the text back, and no piece
  holds the separator.\<close>

theorem String_Split_Join:
  "String_Join d (String_Split str [d]) = str \<and> list_all (\<lambda>w. d \<notin> set w) (String_Split str [d])"
proof -
  have "String_Join d (String_Split str [d]) = str"
  proof (induction str "[d]" rule: String_Split.induct)
    case (1 str)
    show ?case
    proof (cases "dropWhile (\<lambda>c. c \<notin> set [d]) str")
      case Nil
      then have "set str \<inter> set [d] = {}" by auto
      from String_Split_NoDelim [OF this] show ?thesis by simp
    next
      case (Cons c rest)
      then have "c = d" by (metis hd_dropWhile list.discI list.sel(1) list.set_intros(1) set_ConsD empty_iff empty_set)
      have IH: "String_Join d (String_Split rest [d]) = rest" using Cons 1 by blast
      obtain v vs where v: "String_Split rest [d] = v # vs"
        using String_Split_nonempty [of rest "[d]"] by (cases "String_Split rest [d]") auto
      have "str = takeWhile (\<lambda>c. c \<notin> set [d]) str @ c # rest"
        using Cons by (metis takeWhile_dropWhile_id)
      moreover have "String_Split str [d] = takeWhile (\<lambda>c. c \<notin> set [d]) str # v # vs"
        using Cons v by (subst String_Split.simps) simp
      ultimately show ?thesis using IH v \<open>c = d\<close> by simp
    qed
  qed
  then show ?thesis using String_Split_pieces [of _ str "[d]"] by (auto simp: list_all_iff)
qed

section \<open>ArgumentParser\<close>

text \<open>\<open>mArgv\<close> is an association list without duplicate keys, the newest binding last.\<close>

record argument_parser =
  mProgramName :: string
  mArgv :: "(string \<times> string) list"

definition NormalizeKey :: "string \<Rightarrow> string" where
  "NormalizeKey key = map (\<lambda>c. if c = CHR ''-'' then CHR ''_'' else c) key"

definition AddArgument :: "string \<Rightarrow> argument_parser \<Rightarrow> argument_parser res" where
  "AddArgument argument p =
     (let input = (if length argument > 2 \<and> argument ! 0 = CHR ''-'' \<and> argument ! 1 = CHR ''-''
                   then drop 2 argument else argument);
          splitStr = String_Split input ''='' in
      requireR (\<not> (length splitStr = 0 \<or> length splitStr > 2))
       (let key = NormalizeKey (splitStr ! 0) in
        requireR (map_of (mArgv p) key = None)
         (Inr (p\<lparr>mArgv := mArgv p @ [(key, if length splitStr \<ge> 2 then splitStr ! 1 else [])]\<rparr>))))"

definition ArgumentParser_Init :: "string list \<Rightarrow> argument_parser \<Rightarrow> argument_parser res" where
  "ArgumentParser_Init arguments p =
     assertR (arguments \<noteq> [])
      (foldR AddArgument (tl arguments) (p\<lparr>mArgv := [], mProgramName := hd arguments\<rparr>))"

definition ArgumentParser_IsInit :: "argument_parser \<Rightarrow> bool" where
  "ArgumentParser_IsInit p \<longleftrightarrow> mProgramName p \<noteq> []"

definition HasOption :: "argument_parser \<Rightarrow> string \<Rightarrow> bool" where
  "HasOption p option = (map_of (mArgv p) (NormalizeKey option) \<noteq> None)"

definition OptionValue :: "argument_parser \<Rightarrow> string \<Rightarrow> string res" where
  "OptionValue p option =
     (case map_of (mArgv p) (NormalizeKey option) of None \<Rightarrow> Inl Abort | Some v \<Rightarrow> Inr v)"

lemma NormalizeKey_idem [simp]: "NormalizeKey (NormalizeKey k) = NormalizeKey k"
  by (simp add: NormalizeKey_def)

lemma AddArgument_option:
  assumes k: "CHR ''='' \<notin> set k" "CHR ''='' \<notin> set v" and fresh: "\<not> HasOption p k"
  shows "AddArgument (''--'' @ k @ ''='' @ v) p =
    Inr (p\<lparr>mArgv := mArgv p @ [(NormalizeKey k, v)]\<rparr>)"
proof -
  have "String_Split (k @ CHR ''='' # v) ''='' = [k, v]"
    using k String_Split_Delim [of k "''=''" "CHR ''=''" v] String_Split_NoDelim [of v "''=''"] by auto
  with fresh show ?thesis by (simp add: AddArgument_def HasOption_def Let_def)
qed

lemma AddArgument_frame:
  assumes "AddArgument a p = Inr q" and "map_of (mArgv p) k = Some v"
  shows "map_of (mArgv q) k = Some v"
  using assms by (auto simp: AddArgument_def Let_def guardR_eq_Inr map_of_append map_add_Some_iff split: if_splits)

lemma AddArgument_distinct:
  assumes "AddArgument a p = Inr q" and "distinct (map fst (mArgv p))"
  shows "distinct (map fst (mArgv q)) \<and> length (mArgv q) = Suc (length (mArgv p))"
  using assms by (auto simp: AddArgument_def Let_def guardR_eq_Inr map_of_eq_None_iff)

text \<open>A \<open>--key=value\<close> argument that the parser accepts is found again under its key, whether
  the key is asked for with dashes or underscores, and later arguments cannot replace it.\<close>

theorem ArgumentParser_OptionValue:
  assumes "ArgumentParser_Init (prog # as @ (''--'' @ k @ ''='' @ v) # bs) p0 = Inr p"
    and "CHR ''='' \<notin> set k" and "CHR ''='' \<notin> set v"
  shows "OptionValue p k = Inr v \<and> OptionValue p (NormalizeKey k) = Inr v \<and>
    distinct (map fst (mArgv p)) \<and> length (mArgv p) = Suc (length as + length bs)"
proof -
  let ?p0 = "p0\<lparr>mArgv := [], mProgramName := prog\<rparr>" and ?a = "''--'' @ k @ ''='' @ v"
  from assms(1) obtain p1 p2 where p1: "foldR AddArgument as ?p0 = Inr p1"
    and p2: "AddArgument ?a p1 = Inr p2" and p: "foldR AddArgument bs p2 = Inr p"
    by (auto simp: ArgumentParser_Init_def foldR_append bindR_eq_Inr)
  have "\<not> HasOption p1 k"
  proof
    assume "HasOption p1 k"
    moreover have "String_Split (k @ CHR ''='' # v) ''='' = [k, v]"
      using assms String_Split_Delim [of k "''=''" "CHR ''=''" v] String_Split_NoDelim [of v "''=''"] by auto
    ultimately show False using p2 by (auto simp: AddArgument_def HasOption_def Let_def guardR_eq_Inr)
  qed
  with AddArgument_option [of k v p1] assms p2
  have "map_of (mArgv p2) (NormalizeKey k) = Some v"
    by (auto simp: HasOption_def map_of_append map_add_def)
  with foldR_invariant [OF p, of "\<lambda>q. map_of (mArgv q) (NormalizeKey k) = Some v"] AddArgument_frame
  have "map_of (mArgv p) (NormalizeKey k) = Some v" by blast
  moreover have "distinct (map fst (mArgv q)) \<and> length (mArgv q) = length (mArgv r) + length xs"
    if "foldR AddArgument xs r = Inr q" "distinct (map fst (mArgv r))" for xs r q
    using that
  proof (induction xs arbitrary: r)
    case (Cons x xs)
    then obtain r' where "AddArgument x r = Inr r'" "foldR AddArgument xs r' = Inr q"
      by (auto simp: bindR_eq_Inr)
    with Cons AddArgument_distinct [of x r r'] show ?case by auto
  qed simp
  note n = this
  from assms(1) have "foldR AddArgument (as @ ?a # bs) ?p0 = Inr p" by (simp add: ArgumentParser_Init_def)
  from n [OF this] have "distinct (map fst (mArgv p)) \<and> length (mArgv p) = length as + Suc (length bs)" by simp
  ultimately show ?thesis by (simp add: OptionValue_def)
qed

theorem ArgumentParser_OptionValue_witness:
  "\<exists>p. ArgumentParser_Init [''dtorch'', ''--node-type=worker'', ''verbose''] \<lparr>mProgramName = [], mArgv = []\<rparr> = Inr p \<and>
     OptionValue p ''node-type'' = Inr ''worker'' \<and> OptionValue p ''node_type'' = Inr ''worker''"
proof -
  have "isl (ArgumentParser_Init [''dtorch'', ''--node-type=worker'', ''verbose''] \<lparr>mProgramName = [], mArgv = []\<rparr>) = False"
    by code_simp
  then obtain p where p: "ArgumentParser_Init [''dtorch'', ''--node-type=worker'', ''verbose''] \<lparr>mProgramName = [], mArgv = []\<rparr> = Inr p"
    by (cases "ArgumentParser_Init [''dtorch'', ''--node-type=worker'', ''verbose''] \<lparr>mProgramName = [], mArgv = []\<rparr>") auto
  then show ?thesis
    using ArgumentParser_OptionValue [of "''dtorch''" "[]" "''node-type''" "''worker''" "[''verbose'']"]
    by (simp add: NormalizeKey_def)
qed

section \<open>Environment variables\<close>

text \<open>\<open>getenv\<close> is the environment: \<open>None\<close> for an unset variable.\<close>

definition GetEnvVarAsBool :: "(string \<Rightarrow> string option) \<Rightarrow> string \<Rightarrow> bool \<Rightarrow> bool" where
  "GetEnvVarAsBool getenv envVar defaultValue =
     (case getenv envVar of
        None \<Rightarrow> defaultValue
      | Some v \<Rightarrow>
          let varStr = String_ToLower v in
          if varStr \<noteq> [] then
            if varStr = ''1'' \<or> varStr = ''true'' then True
            else if varStr = ''0'' \<or> varStr = ''false'' then False
            else defaultValue
          else defaultValue)"

definition GetEnvVarAsInt :: "(string \<Rightarrow> string option) \<Rightarrow> string \<Rightarrow> int \<Rightarrow> int" where
  "GetEnvVarAsInt getenv envVar defaultValue =
     (case getenv envVar of
        None \<Rightarrow> defaultValue
      | Some v \<Rightarrow> (case stoi v of None \<Rightarrow> defaultValue | Some result \<Rightarrow> result))"

definition GetEnvVarAsUInt :: "(string \<Rightarrow> string option) \<Rightarrow> string \<Rightarrow> nat \<Rightarrow> nat" where
  "GetEnvVarAsUInt getenv envVar defaultValue =
     (case getenv envVar of
        None \<Rightarrow> defaultValue
      | Some v \<Rightarrow>
          (case stoi v of
             None \<Rightarrow> defaultValue
           | Some result \<Rightarrow> if result < 0 then defaultValue else nat result))"

definition GetEnvVarAsString :: "(string \<Rightarrow> string option) \<Rightarrow> string \<Rightarrow> string \<Rightarrow> string" where
  "GetEnvVarAsString getenv envVar defaultValue =
     (case getenv envVar of
        None \<Rightarrow> defaultValue
      | Some varStr \<Rightarrow> if varStr = [] then defaultValue else varStr)"

lemma GetEnvVarAsInt_show:
  "getenv x = Some (show_int i) \<Longrightarrow> - 2147483648 \<le> i \<Longrightarrow> i \<le> 2147483647 \<Longrightarrow> GetEnvVarAsInt getenv x d = i"
  by (simp add: GetEnvVarAsInt_def stoi_show_int)

section \<open>Addresses\<close>

text \<open>
  \<open>inet_pton_ok\<close> stands for the POSIX call's success on a dotted IPv4 text, \<open>bindable\<close> for the
  socket part of \<open>CheckPortStatus\<close>, \<open>nodeIp\<close> for the result of \<open>GetNodeIp\<close>.
\<close>

definition CheckStringIsValidAddress :: "(string \<Rightarrow> bool) \<Rightarrow> string \<Rightarrow> bool" where
  "CheckStringIsValidAddress inet_pton_ok str =
     (case str_rfind str '':'' of
        None \<Rightarrow> False
      | Some colonPos \<Rightarrow>
          if colonPos = 0 \<or> colonPos = length str - 1 then False
          else
            let ip = take colonPos str; portStr = drop (colonPos + 1) str in
            if \<not> inet_pton_ok ip then False
            else (case stoi portStr of
                    None \<Rightarrow> False
                  | Some port \<Rightarrow> \<not> (port < 1 \<or> port > 65535)))"

definition CheckPortStatus :: "(string \<Rightarrow> int \<Rightarrow> bool) \<Rightarrow> string \<Rightarrow> int \<Rightarrow> bool res" where
  "CheckPortStatus bindable ip port =
     requireR (\<not> (port \<le> 0 \<or> port \<ge> 65536)) (Inr (bindable ip port))"

fun GetValidNodeAddress_loop :: "(string \<Rightarrow> int \<Rightarrow> bool) \<Rightarrow> string \<Rightarrow> int list \<Rightarrow> string res" where
  "GetValidNodeAddress_loop bindable nodeIp [] = Inl RuntimeError"
| "GetValidNodeAddress_loop bindable nodeIp (port # ports) =
     bindR (CheckPortStatus bindable nodeIp port) (\<lambda>ok.
       if ok then Inr (nodeIp @ '':'' @ show_int port)
       else GetValidNodeAddress_loop bindable nodeIp ports)"

definition GetValidNodeAddress :: "(string \<Rightarrow> int \<Rightarrow> bool) \<Rightarrow> string \<Rightarrow> int \<Rightarrow> int \<Rightarrow> string res" where
  "GetValidNodeAddress bindable nodeIp startPort endPort =
     GetValidNodeAddress_loop bindable nodeIp [startPort..endPort - 1]"

lemma str_rfind_last:
  assumes "CHR '':'' \<notin> set b"
  shows "str_rfind (a @ CHR '':'' # b) '':'' = Some (length a)"
proof -
  let ?s = "a @ CHR '':'' # b" and ?P = "\<lambda>i. take (length '':'') (drop i (a @ CHR '':'' # b)) = '':''"
  have no: "\<not> ?P i" if "length a < i" for i
  proof -
    have "drop i ?s = drop (i - length a - 1) b"
      using that by (cases "i - length a") (auto simp: not_le)
    then show ?thesis using assms in_set_takeD in_set_dropD by (metis list.set_intros(1))
  qed
  have "rev [0..<Suc (length ?s)] = rev [Suc (length a)..<Suc (length ?s)] @ length a # rev [0..<length a]"
    using upt_split3 [of "length a" "Suc (length ?s)"] by simp
  moreover have "List.find ?P (rev [Suc (length a)..<Suc (length ?s)] @ ys) = List.find ?P ys" for ys
  proof -
    have f: "List.find ?P (xs @ ys) = List.find ?P ys" if "\<forall>x \<in> set xs. length a < x" for xs
      using that no by (induction xs) auto
    show ?thesis by (rule f) auto
  qed
  ultimately show ?thesis by (simp add: str_rfind_def)
qed

lemma CheckStringIsValidAddress_print:
  assumes "ip \<noteq> []" and "0 \<le> port" and "port \<le> 2147483647"
  shows "CheckStringIsValidAddress ok (ip @ '':'' @ show_int port) = (ok ip \<and> 1 \<le> port \<and> port \<le> 65535)"
proof -
  have "CHR '':'' \<notin> set (show_int port)" using assms show_nat_no_colon by (simp add: show_int_def)
  then have "str_rfind (ip @ '':'' @ show_int port) '':'' = Some (length ip)"
    using str_rfind_last [of "show_int port" ip] by simp
  moreover have "show_int port \<noteq> []" using show_nat_props assms by (simp add: show_int_def)
  ultimately show ?thesis
    using assms stoi_show_int [of port] by (auto simp: CheckStringIsValidAddress_def Let_def)
qed

lemma GetValidNodeAddress_loop_Inr:
  "GetValidNodeAddress_loop bindable ip ports = Inr addr \<Longrightarrow>
     \<exists>port \<in> set ports. 1 \<le> port \<and> port \<le> 65535 \<and> bindable ip port \<and> addr = ip @ '':'' @ show_int port"
  by (induction ports) (auto simp: CheckPortStatus_def bindR_eq_Inr guardR_eq_Inr split: if_splits)

text \<open>An address that \<open>GetValidNodeAddress\<close> returns passes \<open>CheckStringIsValidAddress\<close>, and its
  port was found free.\<close>

theorem GetValidNodeAddress_valid:
  assumes "GetValidNodeAddress bindable nodeIp startPort endPort = Inr addr"
    and "nodeIp \<noteq> []" and "inet_pton_ok nodeIp"
  shows "CheckStringIsValidAddress inet_pton_ok addr \<and>
    (\<exists>port. startPort \<le> port \<and> port < endPort \<and> bindable nodeIp port \<and> addr = nodeIp @ '':'' @ show_int port)"
proof -
  from GetValidNodeAddress_loop_Inr assms(1) obtain port
    where "port \<in> set [startPort..endPort - 1]" "1 \<le> port" "port \<le> 65535" "bindable nodeIp port"
      "addr = nodeIp @ '':'' @ show_int port"
    unfolding GetValidNodeAddress_def by blast
  with assms CheckStringIsValidAddress_print [of nodeIp port inet_pton_ok] show ?thesis by auto
qed

theorem GetValidNodeAddress_valid_witness:
  "GetValidNodeAddress (\<lambda>_ p. p = 13002) ''10.0.0.7'' 13000 13004 = Inr ''10.0.0.7:13002'' \<and>
   CheckStringIsValidAddress (\<lambda>ip. ip = ''10.0.0.7'') ''10.0.0.7:13002''"
proof -
  have "show_int 13002 = ''13002''" by (simp add: show_int_def show_nat.simps digit_char_def) code_simp
  then have r: "GetValidNodeAddress (\<lambda>_ p. p = 13002) ''10.0.0.7'' 13000 13004 = Inr ''10.0.0.7:13002''"
    by (simp add: GetValidNodeAddress_def CheckPortStatus_def)
  have "CheckStringIsValidAddress (\<lambda>ip. ip = ''10.0.0.7'') ''10.0.0.7:13002''"
    by (rule conjunct1 [OF GetValidNodeAddress_valid [OF r]]) simp_all
  with r show ?thesis by (rule conjI)
qed

text \<open>The port text is read by \<open>std::stoi\<close>, which ignores what follows the digits.\<close>

lemma CheckStringIsValidAddress_trailing:
  "CheckStringIsValidAddress (\<lambda>_. True) ''1.2.3.4:80abc''"
  by code_simp

end
