(* ===== verification/ApiTypes.thy ===== *)
theory ApiTypes
  imports Texts
begin

text \<open>
  Enumerations and small value types: src/dtorch/api/cpp/data_kind.{h,cc}, api_type.{h,cc},
  device.{h,cc}, the node type of cluster.cc, the stream types and keys of src/dtorch/core/type.{h,cc}
  and the identifier generator of core/global_id_manager.h.  The enumerations keep the constructor
  \<open>kCount\<close> of the code, which is no legal value; the printing functions return the empty text for it
  (after logging), as the code does.
\<close>

unbundle bit_operations_syntax

section \<open>DataKind\<close>

datatype DataKind = kBool | kUInt8 | kInt8 | kUInt16 | kInt16 | kUInt32 | kInt32 | kUInt64 | kInt64
  | kFloat16 | kBFloat16 | kFloat32 | kFloat64 | DataKind_kCount

fun DataKind_AsInteger :: "DataKind \<Rightarrow> nat" where
  "DataKind_AsInteger kBool = 0" | "DataKind_AsInteger kUInt8 = 1" | "DataKind_AsInteger kInt8 = 2"
| "DataKind_AsInteger kUInt16 = 3" | "DataKind_AsInteger kInt16 = 4" | "DataKind_AsInteger kUInt32 = 5"
| "DataKind_AsInteger kInt32 = 6" | "DataKind_AsInteger kUInt64 = 7" | "DataKind_AsInteger kInt64 = 8"
| "DataKind_AsInteger kFloat16 = 9" | "DataKind_AsInteger kBFloat16 = 10" | "DataKind_AsInteger kFloat32 = 11"
| "DataKind_AsInteger kFloat64 = 12" | "DataKind_AsInteger DataKind_kCount = 13"

definition all_DataKinds :: "DataKind list" where
  "all_DataKinds = [kBool, kUInt8, kInt8, kUInt16, kInt16, kUInt32, kInt32, kUInt64, kInt64,
     kFloat16, kBFloat16, kFloat32, kFloat64, DataKind_kCount]"

definition DataKindToString :: "DataKind \<Rightarrow> string" where
  "DataKindToString dataKind =
     (if dataKind = DataKind_kCount then ''''
      else [''bool'', ''uint8'', ''int8'', ''uint16'', ''int16'', ''uint32'', ''int32'',
            ''uint64'', ''int64'', ''float16'', ''bfloat16'', ''float32'', ''float64''] ! DataKind_AsInteger dataKind)"

definition DataKindFromString :: "string \<Rightarrow> DataKind" where
  "DataKindFromString str =
     (case map_of
        [(''bool'', kBool), (''uint8'', kUInt8), (''int8'', kInt8), (''uint16'', kUInt16), (''int16'', kInt16),
         (''uint32'', kUInt32), (''int32'', kInt32), (''uint64'', kUInt64), (''int64'', kInt64),
         (''float16'', kFloat16), (''bfloat16'', kBFloat16), (''float32'', kFloat32), (''float64'', kFloat64)] str of
        None \<Rightarrow> DataKind_kCount
      | Some k \<Rightarrow> k)"

definition DataKindSize :: "DataKind \<Rightarrow> nat res" where
  "DataKindSize dataKind =
     assertR (DataKind_AsInteger dataKind < DataKind_AsInteger DataKind_kCount)
       (Inr ([1, 1, 1, 2, 2, 4, 4, 8, 8, 2, 2, 4, 8] ! DataKind_AsInteger dataKind))"

definition DataKindIsInteger :: "DataKind \<Rightarrow> bool" where
  "DataKindIsInteger dataKind =
     (if dataKind = kFloat16 \<or> dataKind = kFloat32 \<or> dataKind = kFloat64 \<or> dataKind = kBFloat16
      then False else True)"

text \<open>\<open>static_cast<DataKind>(maxValue)\<close> reads the enumeration value back.\<close>

definition DataKindPromote :: "DataKind list \<Rightarrow> DataKind res" where
  "DataKindPromote inputDataKinds =
     assertR (length inputDataKinds > 0)
       (let maxValue = foldl (\<lambda>m dataKind. if DataKind_AsInteger dataKind > m then DataKind_AsInteger dataKind else m)
              0 inputDataKinds
        in Inr (all_DataKinds ! maxValue))"

lemma all_DataKinds_nth: "all_DataKinds ! DataKind_AsInteger k = k"
  by (cases k) (auto simp: all_DataKinds_def)

lemma DataKind_AsInteger_inj: "DataKind_AsInteger k = DataKind_AsInteger l \<longleftrightarrow> k = l"
  by (metis all_DataKinds_nth)

lemma DataKind_roundtrip: "k \<noteq> DataKind_kCount \<Longrightarrow> DataKindFromString (DataKindToString k) = k"
  by (cases k) (auto simp: DataKindFromString_def DataKindToString_def)

lemma foldl_max_nat: "foldl (\<lambda>m x. if f x > m then f x else m) (a::nat) xs = Max (insert a (f ` set xs))"
proof (induction xs arbitrary: a)
  case Nil
  then show ?case by simp
next
  case (Cons x xs)
  have "insert a (f ` set (x # xs)) = insert (f x) (insert a (f ` set xs))" by auto
  then show ?case
    by (cases "set xs = {}") (auto simp: Cons.IH max_def)
qed

text \<open>The promoted kind is one of the inputs and no input has a larger enumeration value; the
  order of the inputs and repetitions do not matter.\<close>

theorem DataKindPromote_spec:
  assumes "ks \<noteq> []"
  shows "\<exists>k. DataKindPromote ks = Inr k \<and> k \<in> set ks \<and>
    list_all (\<lambda>l. DataKind_AsInteger l \<le> DataKind_AsInteger k) ks \<and>
    (set ks' = set ks \<longrightarrow> DataKindPromote ks' = Inr k)"
proof -
  let ?A = "DataKind_AsInteger ` set ks"
  from assms have ne: "?A \<noteq> {}" by simp
  then have "Max ?A \<in> ?A" by (intro Max_in) auto
  then obtain k where k: "k \<in> set ks" "DataKind_AsInteger k = Max ?A" by force
  have "Max (insert 0 ?A) = Max ?A" using ne by simp
  with k have eq: "DataKindPromote xs = Inr k" if "set xs = set ks" for xs
  proof -
    from that assms have "xs \<noteq> []" by auto
    with that k \<open>Max (insert 0 ?A) = Max ?A\<close> show ?thesis
      by (simp add: DataKindPromote_def foldl_max_nat Let_def all_DataKinds_nth flip: k(2))
  qed
  moreover have "list_all (\<lambda>l. DataKind_AsInteger l \<le> DataKind_AsInteger k) ks"
    using k by (auto simp: list_all_iff)
  ultimately show ?thesis using k(1) by auto
qed

theorem DataKindPromote_spec_witness:
  "\<exists>k. DataKindPromote [kInt64, kFloat16] = Inr k \<and> k = kFloat16"
  using DataKindPromote_spec [of "[kInt64, kFloat16]" "[kInt64, kFloat16]"] by auto

section \<open>Operator enumerations\<close>

datatype OperatorFormat = kNCHW | kNHWC | OperatorFormat_kCount

definition OperatorFormatToString :: "OperatorFormat \<Rightarrow> string" where
  "OperatorFormatToString f = (case f of kNCHW \<Rightarrow> ''nchw'' | kNHWC \<Rightarrow> ''nhwc'' | OperatorFormat_kCount \<Rightarrow> '''')"

text \<open>The output parameter is written only when the text is known: \<open>None\<close> is \<open>return false\<close>.\<close>

definition StringToOperatorFormat :: "string \<Rightarrow> OperatorFormat option" where
  "StringToOperatorFormat str = map_of [(''kNCHW'', kNCHW), (''kNHWC'', kNHWC)] str"

datatype PaddingType = kNotSet | kSame | kValid | PaddingType_kCount

definition PaddingTypeToString :: "PaddingType \<Rightarrow> string" where
  "PaddingTypeToString p = (case p of kNotSet \<Rightarrow> ''not_set'' | kSame \<Rightarrow> ''same'' | kValid \<Rightarrow> ''valid''
     | PaddingType_kCount \<Rightarrow> '''')"

definition StringToPaddingType :: "string \<Rightarrow> PaddingType option" where
  "StringToPaddingType str = map_of [(''kNotSet'', kNotSet), (''kSame'', kSame), (''kValid'', kValid)] str"

datatype PoolingKind = kAvg | kMax | PoolingKind_kCount

definition PoolingKindToString :: "PoolingKind \<Rightarrow> string" where
  "PoolingKindToString p = (case p of kAvg \<Rightarrow> ''avg'' | kMax \<Rightarrow> ''max'' | PoolingKind_kCount \<Rightarrow> '''')"

definition StringToPoolingKind :: "string \<Rightarrow> PoolingKind option" where
  "StringToPoolingKind str = map_of [(''kAvg'', kAvg), (''kMax'', kMax)] str"

lemma printed_enumerations_not_read_back:
  "StringToOperatorFormat (OperatorFormatToString f) = None \<and>
   StringToPaddingType (PaddingTypeToString p) = None \<and>
   StringToPoolingKind (PoolingKindToString k) = None"
  by (cases f; cases p; cases k)
    (simp_all add: StringToOperatorFormat_def OperatorFormatToString_def StringToPaddingType_def
      PaddingTypeToString_def StringToPoolingKind_def PoolingKindToString_def)

datatype NodeType = kMain | kWorker | NodeType_kCount

definition NodeTypeToString :: "NodeType \<Rightarrow> string" where
  "NodeTypeToString t = (case t of kMain \<Rightarrow> ''main'' | kWorker \<Rightarrow> ''worker'' | NodeType_kCount \<Rightarrow> '''')"

datatype KernelStreamType = kCompute | kCommunicate | KernelStreamType_kCount

definition KernelStreamTypeToString :: "KernelStreamType \<Rightarrow> string" where
  "KernelStreamTypeToString t =
     (case t of kCompute \<Rightarrow> ''compute'' | kCommunicate \<Rightarrow> ''communicate'' | KernelStreamType_kCount \<Rightarrow> '''')"

section \<open>Devices\<close>

datatype DeviceKind = kCpu | kGpu | DeviceKind_kCount

definition DeviceKindFromString :: "string \<Rightarrow> DeviceKind res" where
  "DeviceKindFromString deviceStr =
     (let lower = String_ToLower deviceStr;
          lower' = (if lower = ''cuda'' then ''gpu'' else lower)
      in case map_of [(''cpu'', kCpu), (''gpu'', kGpu)] lower' of
           None \<Rightarrow> Inl InvalidArgument
         | Some k \<Rightarrow> Inr k)"

definition DeviceKindToString :: "DeviceKind \<Rightarrow> string" where
  "DeviceKindToString k = (case k of kCpu \<Rightarrow> ''cpu'' | kGpu \<Rightarrow> ''gpu'' | DeviceKind_kCount \<Rightarrow> '''')"

record Device =
  deviceKind :: DeviceKind
  deviceId :: int

definition mk_Device :: "DeviceKind \<Rightarrow> int \<Rightarrow> Device" where
  "mk_Device k i = \<lparr>deviceKind = k, deviceId = i\<rparr>"

definition GetDefaultCpuDevice :: Device where
  "GetDefaultCpuDevice = mk_Device kCpu 0"

definition Device_eq :: "Device \<Rightarrow> Device \<Rightarrow> bool" where
  "Device_eq a b \<longleftrightarrow> deviceKind a = deviceKind b \<and> deviceId a = deviceId b"

text \<open>The constructor from a text; every exception inside the \<open>try\<close> becomes \<open>invalid_argument\<close>.\<close>

definition Device_of_string :: "string \<Rightarrow> Device res" where
  "Device_of_string str =
     (let splitStr = String_Split str '':''; splitSize = length splitStr in
      if splitSize > 3 then Inl InvalidArgument
      else
        let parsed = (if splitSize = 1 then Inr (splitStr ! 0, 0)
                      else if splitSize = 2 then
                        (case stoi (splitStr ! 1) of None \<Rightarrow> Inl InvalidArgument | Some i \<Rightarrow> Inr (splitStr ! 0, i))
                      else Inr (''cpu'', 0))
        in bindR parsed (\<lambda>(deviceStr, i). bindR (DeviceKindFromString deviceStr) (\<lambda>k. Inr (mk_Device k i))))"

definition Device_ToString :: "Device \<Rightarrow> string" where
  "Device_ToString d = DeviceKindToString (deviceKind d) @ '':'' @ show_int (deviceId d)"

text \<open>\<open>gpuCount\<close> is the number of devices the CUDA runtime reports, 0 in a build without CUDA.\<close>

definition Device_DeviceCount :: "nat \<Rightarrow> DeviceKind \<Rightarrow> nat" where
  "Device_DeviceCount gpuCount k = (if k = kCpu then 1 else if k = kGpu then gpuCount else 0)"

definition Device_IsAvailable :: "nat \<Rightarrow> DeviceKind \<Rightarrow> bool" where
  "Device_IsAvailable gpuCount k =
     (if k = kCpu then True else if k = kGpu then Device_DeviceCount gpuCount kGpu > 0 else False)"

lemma Device_eq_iff [simp]: "Device_eq a b \<longleftrightarrow> a = b"
  by (cases a; cases b) (simp add: Device_eq_def)

lemma show_int_no_colon: "CHR '':'' \<notin> set (show_int i)"
  using show_nat_no_colon by (simp add: show_int_def)

text \<open>Printing a device and reading the text back gives the device.\<close>

theorem Device_roundtrip:
  assumes "deviceKind d \<noteq> DeviceKind_kCount"
    and "- 2147483648 \<le> deviceId d" and "deviceId d \<le> 2147483647"
  shows "Device_of_string (Device_ToString d) = Inr d"
proof -
  let ?k = "DeviceKindToString (deviceKind d)"
  have "String_Split (?k @ CHR '':'' # show_int (deviceId d)) '':'' = [?k, show_int (deviceId d)]"
    using String_Split_Delim [of ?k "'':''" "CHR '':''" "show_int (deviceId d)"] show_int_no_colon
      String_Split_NoDelim [of "show_int (deviceId d)" "'':''"]
    by (auto simp: DeviceKindToString_def split: DeviceKind.splits)
  moreover have "DeviceKindFromString ?k = Inr (deviceKind d)"
    using assms(1) by (cases "deviceKind d") (simp_all add: DeviceKindToString_def, code_simp+)
  ultimately show ?thesis using assms stoi_show_int [of "deviceId d"]
    by (simp add: Device_of_string_def Device_ToString_def mk_Device_def)
qed

theorem Device_roundtrip_witness:
  "Device_of_string (Device_ToString (mk_Device kGpu 3)) = Inr (mk_Device kGpu 3)"
  by (rule Device_roundtrip) (simp_all add: mk_Device_def)

text \<open>A text with two colons is not rejected: it denotes the default device.\<close>

lemma Device_of_string_two_colons: "Device_of_string ''gpu:1:2'' = Inr (mk_Device kCpu 0)"
  by code_simp

subsection \<open>Stream keys\<close>

record KernelStreamKey =
  key_device :: Device
  streamType :: KernelStreamType

definition KernelStreamKey_Init :: "DeviceKind \<Rightarrow> int \<Rightarrow> KernelStreamType \<Rightarrow> KernelStreamKey" where
  "KernelStreamKey_Init k i t = \<lparr>key_device = mk_Device k i, streamType = t\<rparr>"

definition KernelStreamKey_GetDevice :: "KernelStreamKey \<Rightarrow> Device" where
  "KernelStreamKey_GetDevice s = mk_Device (deviceKind (key_device s)) (deviceId (key_device s))"

section \<open>Unique identifiers\<close>

text \<open>
  \<open>GlobalIdManager::GetUniqueId\<close>: an atomic 64-bit counter that starts at \<open>kNoValue + 1\<close>; the value
  \<open>kNoValue\<close> is skipped.  \<open>GetUniqueId\<close> is the call of one thread without interference.
\<close>

definition kNoValue :: "64 word" where
  "kNoValue = 0"

definition GlobalIdManager_new :: "64 word" where
  "GlobalIdManager_new = kNoValue + 1"

definition fetch_add1 :: "64 word \<Rightarrow> 64 word \<times> 64 word" where
  "fetch_add1 acc = (acc, acc + 1)"

definition GetUniqueId :: "64 word \<Rightarrow> 64 word \<times> 64 word" where
  "GetUniqueId acc =
     (let (i, acc') = fetch_add1 acc in
      if i = kNoValue then fetch_add1 acc' else (i, acc'))"

text \<open>
  Several threads: each \<open>fetch_add\<close> is atomic, but a thread that drew \<open>kNoValue\<close> draws again later.
  \<open>retrying\<close> counts the threads between their two draws, \<open>drawn\<close> the draws so far, \<open>issued\<close> the
  identifiers returned, newest first.
\<close>

record id_state =
  accumulator :: "64 word"
  retrying :: nat
  drawn :: nat
  issued :: "64 word list"

definition id_init :: id_state where
  "id_init = \<lparr>accumulator = GlobalIdManager_new, retrying = 0, drawn = 0, issued = []\<rparr>"

inductive id_step :: "id_state \<Rightarrow> id_state \<Rightarrow> bool" where
  draw: "fetch_add1 (accumulator s) = (i, a) \<Longrightarrow> i \<noteq> kNoValue \<Longrightarrow>
    id_step s (s\<lparr>accumulator := a, drawn := Suc (drawn s), issued := i # issued s\<rparr>)"
| draw_none: "fetch_add1 (accumulator s) = (i, a) \<Longrightarrow> i = kNoValue \<Longrightarrow>
    id_step s (s\<lparr>accumulator := a, drawn := Suc (drawn s), retrying := Suc (retrying s)\<rparr>)"
| redraw: "retrying s > 0 \<Longrightarrow> fetch_add1 (accumulator s) = (i, a) \<Longrightarrow>
    id_step s (s\<lparr>accumulator := a, drawn := Suc (drawn s), retrying := retrying s - 1, issued := i # issued s\<rparr>)"

inductive id_reachable :: "id_state \<Rightarrow> bool" where
  id_start: "id_reachable id_init"
| id_next: "id_reachable s \<Longrightarrow> id_step s t \<Longrightarrow> id_reachable t"

inductive_cases id_stepE: "id_step s t"

definition draws :: "nat \<Rightarrow> 64 word set" where
  "draws n = (\<lambda>k. of_nat (Suc k)) ` {..<n}"

lemma draws_Suc: "draws (Suc n) = insert (of_nat (Suc n)) (draws n)"
  by (auto simp: draws_def lessThan_Suc)

lemma of_nat_inj_64: "(of_nat a :: 64 word) = of_nat b \<longleftrightarrow> a mod 2 ^ 64 = b mod 2 ^ 64"
  by (simp add: word_of_nat_eq_iff take_bit_eq_mod)

lemma next_draw_fresh:
  assumes "n < 2 ^ 64"
  shows "(of_nat (Suc n) :: 64 word) \<notin> draws n"
proof
  assume "(of_nat (Suc n) :: 64 word) \<in> draws n"
  then obtain k where k: "k < n" "(of_nat (Suc n) :: 64 word) = of_nat (Suc k)"
    by (auto simp: draws_def)
  then have "(of_nat n :: 64 word) = of_nat k" by simp
  with k(1) assms show False by (simp only: of_nat_inj_64) simp
qed

lemma id_step_inv:
  assumes "id_step s t"
    and "accumulator s = of_nat (Suc (drawn s))" and "set (issued s) \<subseteq> draws (drawn s)"
    and "drawn t \<le> 2 ^ 64 \<longrightarrow> distinct (issued s) \<and> kNoValue \<notin> set (issued s) \<and>
      (retrying s = 0 \<or> drawn s = 2 ^ 64)"
  shows "accumulator t = of_nat (Suc (drawn t)) \<and> set (issued t) \<subseteq> draws (drawn t) \<and>
    (drawn t \<le> 2 ^ 64 \<longrightarrow> distinct (issued t) \<and> kNoValue \<notin> set (issued t) \<and>
      (retrying t = 0 \<or> drawn t = 2 ^ 64))"
  using assms(1)
proof cases
  case (draw i a)
  then have i: "i = of_nat (Suc (drawn s))" "a = of_nat (Suc (Suc (drawn s)))"
    using assms(2) by (auto simp: fetch_add1_def)
  from draw assms i next_draw_fresh [of "drawn s"] show ?thesis
    by (auto simp: draws_Suc)
next
  case (draw_none i a)
  then have i: "i = of_nat (Suc (drawn s))" "a = of_nat (Suc (Suc (drawn s)))"
    using assms(2) by (auto simp: fetch_add1_def)
  have "Suc (drawn s) mod 2 ^ 64 = 0"
    using draw_none i of_nat_inj_64 [of "Suc (drawn s)" 0] by (simp add: kNoValue_def)
  then have "Suc (drawn s) \<le> 2 ^ 64 \<longrightarrow> Suc (drawn s) = 2 ^ 64" by (auto dest: dvd_imp_le)
  with draw_none assms i show ?thesis by (auto simp: draws_Suc)
next
  case (redraw i a)
  then have "\<not> drawn t \<le> 2 ^ 64" using assms(4) by auto
  moreover have i: "i = of_nat (Suc (drawn s))" "a = of_nat (Suc (Suc (drawn s)))"
    using redraw assms(2) by (auto simp: fetch_add1_def)
  ultimately show ?thesis using redraw assms by (auto simp: draws_Suc)
qed

lemma id_step_drawn: "id_step s t \<Longrightarrow> drawn t = Suc (drawn s)"
  by (erule id_stepE) auto

text \<open>Whatever the interleaving of the threads, as long as the counter has not been drawn from
  more than $2^{64}$ times the identifiers handed out are pairwise different and never \<open>kNoValue\<close>.\<close>

theorem unique_ids:
  assumes "id_reachable s" and "drawn s \<le> 2 ^ 64"
  shows "distinct (issued s) \<and> kNoValue \<notin> set (issued s)"
proof -
  have "accumulator s = of_nat (Suc (drawn s)) \<and> set (issued s) \<subseteq> draws (drawn s) \<and>
    (drawn s \<le> 2 ^ 64 \<longrightarrow> distinct (issued s) \<and> kNoValue \<notin> set (issued s) \<and>
      (retrying s = 0 \<or> drawn s = 2 ^ 64))"
    using assms(1)
  proof induction
    case id_start
    show ?case by (simp add: id_init_def GlobalIdManager_new_def kNoValue_def)
  next
    case (id_next s t)
    have "drawn t \<le> 2 ^ 64 \<longrightarrow> distinct (issued s) \<and> kNoValue \<notin> set (issued s) \<and>
      (retrying s = 0 \<or> drawn s = 2 ^ 64)"
      using id_next.IH id_step_drawn [OF id_next.hyps(2)] by auto
    with id_step_inv [OF id_next.hyps(2)] id_next.IH show ?case by blast
  qed
  with assms(2) show ?thesis by blast
qed

theorem unique_ids_witness:
  "\<exists>s. id_reachable s \<and> issued s = [2, 1] \<and> distinct (issued s) \<and> kNoValue \<notin> set (issued s)"
proof -
  let ?s1 = "id_init\<lparr>accumulator := 2, drawn := 1, issued := [1]\<rparr>"
  let ?s2 = "?s1\<lparr>accumulator := 3, drawn := Suc (Suc 0), issued := [2, 1]\<rparr>"
  have "id_step id_init ?s1"
    using id_step.draw [of id_init 1 2]
    by (simp add: id_init_def GlobalIdManager_new_def kNoValue_def fetch_add1_def)
  moreover have "id_step ?s1 ?s2"
    using id_step.draw [of ?s1 2 3]
    by (simp add: id_init_def kNoValue_def fetch_add1_def)
  ultimately have r: "id_reachable ?s2" by (blast intro: id_reachable.intros)
  then show ?thesis using unique_ids [OF r] by (intro exI [of _ ?s2]) simp
qed

lemma GetUniqueId_step:
  assumes "GetUniqueId (accumulator s) = (i, a)" and "retrying s = 0"
  shows "\<exists>t. id_step\<^sup>*\<^sup>* s t \<and> accumulator t = a \<and> issued t = i # issued s \<and> retrying t = 0"
proof (cases "accumulator s = kNoValue")
  case False
  with assms have ia: "i = accumulator s" "a = accumulator s + 1"
    by (auto simp: GetUniqueId_def fetch_add1_def)
  let ?t = "s\<lparr>accumulator := a, drawn := Suc (drawn s), issued := i # issued s\<rparr>"
  from ia False have "id_step s ?t"
    by (intro id_step.draw) (auto simp: fetch_add1_def)
  with assms(2) show ?thesis by (intro exI [of _ ?t]) (simp add: r_into_rtranclp)
next
  case True
  let ?u = "s\<lparr>accumulator := accumulator s + 1, drawn := Suc (drawn s), retrying := Suc 0\<rparr>"
  from True assms have u: "id_step s ?u"
    using id_step.draw_none [of s kNoValue "accumulator s + 1"] by (simp add: fetch_add1_def)
  let ?t = "?u\<lparr>accumulator := a, drawn := Suc (drawn ?u), retrying := 0, issued := i # issued s\<rparr>"
  from True assms have "id_step ?u ?t"
    using id_step.redraw [of ?u i a] by (auto simp: GetUniqueId_def fetch_add1_def)
  with u have "id_step\<^sup>*\<^sup>* s ?t" by (rule converse_rtranclp_into_rtranclp [OF _ r_into_rtranclp])
  then show ?thesis by (intro exI [of _ ?t]) simp
qed

end
