(* ===== verification/Shapes.thy ===== *)
theory Shapes
  imports Prelude
begin

text \<open>
  Shapes and strides: src/dtorch/api/cpp/shape.{h,cc} and stride.{h,cc}.  A \<open>Shape\<close> is its vector
  of 64-bit sizes, a \<open>Stride\<close> its vector of 64-bit steps.  Sizes are mathematical integers: signed
  overflow is undefined behaviour in C++, and the properties are about sizes below it.  Axis
  indices (\<open>size_t\<close>) are natural numbers; an index that may be negative is an integer.
\<close>

type_synonym shape = "int list"
type_synonym stride = "int list"

abbreviation NumAxis :: "int list \<Rightarrow> nat" where
  "NumAxis s \<equiv> length s"

section \<open>Shape\<close>

definition Shape_new :: "nat \<Rightarrow> int \<Rightarrow> shape" where
  "Shape_new dimention value = replicate dimention value"

definition GetScalarShape :: shape where
  "GetScalarShape = Shape_new 0 0"

definition IsScalar :: "shape \<Rightarrow> bool" where
  "IsScalar s \<longleftrightarrow> NumAxis s = 0"

definition GetNullShape :: shape where
  "GetNullShape = Shape_new 1 (- 100)"

definition IsNullTensorShape :: "shape \<Rightarrow> bool" where
  "IsNullTensorShape s \<longleftrightarrow> length s = 1 \<and> s ! 0 = - 100"

definition Shape_Prod :: "shape \<Rightarrow> int \<Rightarrow> int \<Rightarrow> int res" where
  "Shape_Prod s begin_dim end_dim =
     assertR (begin_dim \<le> end_dim)
      (assertR (begin_dim \<ge> 0)
        (assertR (end_dim < int (length s))
          (Inr (foldl (\<lambda>result i. result * s ! nat i) 1 [begin_dim..end_dim]))))"

definition Shape_ProdFrom :: "shape \<Rightarrow> int \<Rightarrow> int res" where
  "Shape_ProdFrom s begin_dim = Shape_Prod s begin_dim (int (NumAxis s) - 1)"

definition Shape_Count :: "shape \<Rightarrow> int res" where
  "Shape_Count s = (if NumAxis s = 0 then Inr 1 else Shape_ProdFrom s 0)"

definition IsSameShape :: "shape \<Rightarrow> shape \<Rightarrow> bool" where
  "IsSameShape s t \<longleftrightarrow> length s = length t \<and> list_all (\<lambda>i. s ! i = t ! i) [0..<length s]"

definition Shape_eq :: "shape \<Rightarrow> shape \<Rightarrow> bool" where
  "Shape_eq s t \<longleftrightarrow> length s = length t \<and> list_all (\<lambda>i. s ! i = t ! i) [0..<length s]"

definition Shape_Set :: "shape \<Rightarrow> int \<Rightarrow> int \<Rightarrow> shape res" where
  "Shape_Set s index v =
     assertR (index < int (length s))
      (let index' = (if index < 0 then index + int (length s) else index) in
       assertR (index' \<ge> 0) (assertR (v \<ge> 0) (Inr (s[nat index' := v]))))"

definition Shape_At :: "shape \<Rightarrow> int \<Rightarrow> int res" where
  "Shape_At s index =
     assertR (index < int (length s))
      (let index' = (if index < 0 then index + int (length s) else index) in
       assertR (index' \<ge> 0) (Inr (s ! nat index')))"

definition CanBroadcastWith :: "shape \<Rightarrow> shape \<Rightarrow> bool" where
  "CanBroadcastWith this other =
     (let thisSize = NumAxis this; otherSize = NumAxis other in
      if thisSize = 0 \<or> otherSize = 0 then True
      else
        let size = min thisSize otherSize;
            thisShapeBegin = thisSize - size;
            otherShapeBegin = otherSize - size
        in list_all (\<lambda>i.
             if this ! (i + thisShapeBegin) = 1 \<or> other ! (i + otherShapeBegin) = 1 then True
             else this ! (i + thisShapeBegin) = other ! (i + otherShapeBegin)) [0..<size])"

definition ExpandBefore :: "shape \<Rightarrow> nat \<Rightarrow> shape res" where
  "ExpandBefore s targetSize =
     assertR (targetSize \<ge> NumAxis s)
      (if targetSize = NumAxis s then Inr s
       else Inr (replicate (targetSize - NumAxis s) 1 @ map (\<lambda>i. s ! i) [0..<NumAxis s]))"

definition KeepSelectedDim :: "shape \<Rightarrow> nat set \<Rightarrow> shape" where
  "KeepSelectedDim s selectDims =
     foldl (\<lambda>result i. if i \<in> selectDims then result @ [s ! i] else result) [] [0..<NumAxis s]"

definition RemoveSelectedDim :: "shape \<Rightarrow> nat set \<Rightarrow> shape" where
  "RemoveSelectedDim s selectDims =
     foldl (\<lambda>result i. if i \<notin> selectDims then result @ [s ! i] else result) [] [0..<NumAxis s]"

text \<open>The code fills a vector of \<open>maxSize\<close> elements, first the unmatched axes, then the matched ones.\<close>

definition BroadcastOutputShape :: "shape \<Rightarrow> shape \<Rightarrow> shape res" where
  "BroadcastOutputShape s other =
     (let oneSize = NumAxis s; otherSize = NumAxis other;
          minSize = min oneSize otherSize; maxSize = max oneSize otherSize in
      if oneSize = 0 then Inr other
      else if otherSize = 0 then Inr s
      else
        let front = (if oneSize > otherSize then map (\<lambda>i. s ! i) [0..<oneSize - otherSize]
                     else map (\<lambda>i. other ! i) [0..<otherSize - oneSize]);
            oneBegin = maxSize - otherSize;
            otherBegin = maxSize - oneSize
        in bindR (mapR (\<lambda>i.
              assertR (s ! (i + oneBegin) = 1 \<or> other ! (i + otherBegin) = 1 \<or>
                       s ! (i + oneBegin) = other ! (i + otherBegin))
                (Inr (max (s ! (oneBegin + i)) (other ! (otherBegin + i))))) [0..<minSize])
            (\<lambda>back. Inr (front @ back)))"

subsection \<open>Counting and comparing\<close>

lemma foldl_times_map: "foldl (\<lambda>r i. r * f i) (a::int) xs = a * prod_list (map f xs)"
  by (induction xs arbitrary: a) (auto simp: mult.assoc)

lemma map_nth_upto: "xs \<noteq> [] \<Longrightarrow> map (\<lambda>i. xs ! nat i) [0..int (length xs) - 1] = xs"
  by (rule nth_equalityI) auto

lemma Shape_Count_eq [simp]: "Shape_Count s = Inr (prod_list s)"
proof (cases "s = []")
  case True
  then show ?thesis by (simp add: Shape_Count_def)
next
  case False
  then have "0 \<le> int (length s) - 1" by (cases s) auto
  with False show ?thesis
    by (simp add: Shape_Count_def Shape_ProdFrom_def Shape_Prod_def foldl_times_map map_nth_upto)
qed

lemma Shape_ProdFrom_0: "Shape_ProdFrom s 0 = (if s = [] then Inl Abort else Inr (prod_list s))"
proof (cases "s = []")
  case True
  then show ?thesis by (simp add: Shape_ProdFrom_def Shape_Prod_def)
next
  case False
  with Shape_Count_eq [of s] show ?thesis unfolding Shape_Count_def by simp
qed

lemma Shape_eq_iff [simp]: "Shape_eq s t \<longleftrightarrow> s = t"
  unfolding Shape_eq_def list_all_iff by (subst list_eq_iff_nth_eq [of s t]) auto

lemma IsSameShape_iff [simp]: "IsSameShape s t \<longleftrightarrow> s = t"
  unfolding IsSameShape_def list_all_iff by (subst list_eq_iff_nth_eq [of s t]) auto

lemma IsNullTensorShape_iff: "IsNullTensorShape s \<longleftrightarrow> s = GetNullShape"
  by (cases s) (auto simp: IsNullTensorShape_def GetNullShape_def Shape_new_def)

lemma Shape_At_eq: "Shape_At s i = at_int s i"
  by (simp add: Shape_At_def at_int_def)

lemma Shape_Set_At:
  assumes "Shape_Set s i v = Inr t"
  shows "Shape_At t i = Inr v \<and> length t = length s"
  using assms by (auto simp: Shape_Set_def Shape_At_def Let_def guardR_eq_Inr split: if_splits)

subsection \<open>Selecting axes\<close>

lemma foldl_select: "foldl (\<lambda>r i. if P i then r @ [f i] else r) a xs = a @ map f (filter P xs)"
  by (induction xs arbitrary: a) auto

lemma map_filter_nth: "map (\<lambda>i. xs ! i) (filter (\<lambda>i. i \<in> A) [0..<length xs]) = nths xs A"
proof (induction xs rule: rev_induct)
  case Nil
  then show ?case by simp
next
  case (snoc x xs)
  have "map ((!) (xs @ [x])) (filter (\<lambda>i. i \<in> A) [0..<length xs])
      = map ((!) xs) (filter (\<lambda>i. i \<in> A) [0..<length xs])"
    by (rule map_cong) (auto simp: nth_append)
  with snoc show ?case by (simp add: nths_append)
qed

lemma KeepSelectedDim_nths: "KeepSelectedDim s A = nths s A"
  by (simp add: KeepSelectedDim_def foldl_select map_filter_nth)

lemma RemoveSelectedDim_nths: "RemoveSelectedDim s A = nths s (- A)"
  using map_filter_nth [of s "- A"] by (simp add: RemoveSelectedDim_def foldl_select)

lemma prod_list_nths_split: "prod_list (nths xs A) * prod_list (nths xs (- A)) = prod_list (xs :: int list)"
proof (induction xs arbitrary: A)
  case Nil
  then show ?case by simp
next
  case (Cons x xs)
  have "prod_list (nths xs {j. Suc j \<in> A}) * prod_list (nths xs (- {j. Suc j \<in> A})) = prod_list xs"
    by (rule Cons.IH)
  moreover have "- {j. Suc j \<in> A} = {j. Suc j \<notin> A}" by auto
  ultimately show ?case by (auto simp: nths_Cons ac_simps)
qed

section \<open>Broadcasting\<close>

text \<open>
  The reference rule (NumPy): align the shapes at the right, pad the shorter one with ones; two
  sizes agree when they are equal or one of them is 1, and then the result has the other size.
\<close>

definition pad_ones :: "nat \<Rightarrow> shape \<Rightarrow> shape" where
  "pad_ones n s = replicate (n - length s) 1 @ s"

definition bcast_compat :: "int \<Rightarrow> int \<Rightarrow> bool" where
  "bcast_compat x y \<longleftrightarrow> x = y \<or> x = 1 \<or> y = 1"

definition bcast_size :: "int \<Rightarrow> int \<Rightarrow> int" where
  "bcast_size x y = (if x = 1 then y else x)"

definition broadcastable :: "shape \<Rightarrow> shape \<Rightarrow> bool" where
  "broadcastable s t \<longleftrightarrow> (let n = max (length s) (length t) in
     list_all2 bcast_compat (pad_ones n s) (pad_ones n t))"

definition broadcast_shape :: "shape \<Rightarrow> shape \<Rightarrow> shape" where
  "broadcast_shape s t = (let n = max (length s) (length t) in
     map2 bcast_size (pad_ones n s) (pad_ones n t))"

lemma length_pad_ones [simp]: "length (pad_ones n s) = max n (length s)"
  by (simp add: pad_ones_def)

lemma pad_ones_id [simp]: "n \<le> length s \<Longrightarrow> pad_ones n s = s"
  by (simp add: pad_ones_def)

lemma nth_pad_ones: "i < max n (length s) \<Longrightarrow>
    pad_ones n s ! i = (if i < n - length s then 1 else s ! (i - (n - length s)))"
  by (simp add: pad_ones_def nth_append)

lemma bcast_compat_1 [simp]: "bcast_compat 1 x" "bcast_compat x 1" "bcast_compat x x"
  by (auto simp: bcast_compat_def)

lemma broadcastable_nth:
  "broadcastable s t \<longleftrightarrow> (\<forall>i < min (length s) (length t).
     bcast_compat (s ! (i + (length s - min (length s) (length t))))
                  (t ! (i + (length t - min (length s) (length t)))))"
proof -
  let ?n = "max (length s) (length t)" and ?m = "min (length s) (length t)"
  have "broadcastable s t \<longleftrightarrow> (\<forall>j < ?n. bcast_compat (pad_ones ?n s ! j) (pad_ones ?n t ! j))"
    by (auto simp: broadcastable_def Let_def list_all2_conv_all_nth)
  also have "\<dots> \<longleftrightarrow> (\<forall>i < ?m. bcast_compat (s ! (i + (length s - ?m))) (t ! (i + (length t - ?m))))"
  proof safe
    fix i assume a: "\<forall>j < ?n. bcast_compat (pad_ones ?n s ! j) (pad_ones ?n t ! j)" and i: "i < ?m"
    then have "bcast_compat (pad_ones ?n s ! (i + (?n - ?m))) (pad_ones ?n t ! (i + (?n - ?m)))"
      by auto
    moreover have "i + (?n - ?m) - (?n - length s) = i + (length s - ?m)"
      and "i + (?n - ?m) - (?n - length t) = i + (length t - ?m)"
      using i by (auto simp: min_def max_def)
    ultimately show "bcast_compat (s ! (i + (length s - ?m))) (t ! (i + (length t - ?m)))"
      using i by (simp add: nth_pad_ones min_def max_def split: if_splits)
  next
    fix j assume a: "\<forall>i < ?m. bcast_compat (s ! (i + (length s - ?m))) (t ! (i + (length t - ?m)))"
      and j: "j < ?n"
    show "bcast_compat (pad_ones ?n s ! j) (pad_ones ?n t ! j)"
    proof (cases "j < ?n - ?m")
      case True
      with j show ?thesis by (auto simp: nth_pad_ones min_def max_def split: if_splits)
    next
      case False
      with j have "j - (?n - ?m) < ?m" by auto
      with a have "bcast_compat (s ! (j - (?n - ?m) + (length s - ?m))) (t ! (j - (?n - ?m) + (length t - ?m)))"
        by blast
      with False j show ?thesis by (auto simp: nth_pad_ones min_def max_def split: if_splits)
    qed
  qed
  finally show ?thesis .
qed

lemma CanBroadcastWith_iff: "CanBroadcastWith s t \<longleftrightarrow> broadcastable s t"
  by (auto simp: CanBroadcastWith_def Let_def broadcastable_nth list_all_iff bcast_compat_def)

lemma length_broadcast_shape: "length (broadcast_shape s t) = max (length s) (length t)"
  by (auto simp: broadcast_shape_def Let_def)

lemma nth_broadcast_shape: "i < max (length s) (length t) \<Longrightarrow> broadcast_shape s t ! i =
    bcast_size (pad_ones (max (length s) (length t)) s ! i) (pad_ones (max (length s) (length t)) t ! i)"
  by (auto simp: broadcast_shape_def Let_def)

lemma bcast_size_max: "bcast_compat x y \<Longrightarrow> 1 \<le> x \<Longrightarrow> 1 \<le> y \<Longrightarrow> bcast_size x y = max x y"
  by (auto simp: bcast_size_def bcast_compat_def)

lemma BroadcastOutputShape_fail:
  assumes "s \<noteq> []" and "t \<noteq> []" and "\<not> broadcastable s t"
  shows "BroadcastOutputShape s t = Inl Abort"
proof -
  let ?m = "min (length s) (length t)" and ?n = "max (length s) (length t)"
  from assms(3) obtain i where i: "i < ?m"
    and "\<not> bcast_compat (s ! (i + (length s - ?m))) (t ! (i + (length t - ?m)))"
    by (auto simp: broadcastable_nth)
  moreover have "length s - ?m = ?n - length t" and "length t - ?m = ?n - length s"
    by (auto simp: min_def max_def)
  ultimately have "\<not> (\<forall>i \<in> set [0..<?m]. s ! (i + (?n - length t)) = 1 \<or> t ! (i + (?n - length s)) = 1 \<or>
      s ! (i + (?n - length t)) = t ! (i + (?n - length s)))"
    by (auto simp: bcast_compat_def)
  with assms(1,2) show ?thesis
    unfolding BroadcastOutputShape_def Let_def mapR_guard by auto
qed

lemma BroadcastOutputShape_ok:
  assumes "s \<noteq> []" and "t \<noteq> []" and b: "broadcastable s t"
    and ps: "\<forall>x \<in> set s. 1 \<le> x" and pt: "\<forall>x \<in> set t. 1 \<le> x"
  shows "BroadcastOutputShape s t = Inr (broadcast_shape s t)"
proof -
  let ?m = "min (length s) (length t)" and ?n = "max (length s) (length t)"
  let ?front = "if length s > length t then map ((!) s) [0..<length s - length t]
                else map ((!) t) [0..<length t - length s]"
  let ?rear = "map (\<lambda>i. max (s ! (?n - length t + i)) (t ! (?n - length s + i))) [0..<?m]"
  have off: "length s - ?m = ?n - length t" "length t - ?m = ?n - length s"
    by (auto simp: min_def max_def)
  have "\<forall>i \<in> set [0..<?m]. s ! (i + (?n - length t)) = 1 \<or> t ! (i + (?n - length s)) = 1 \<or>
      s ! (i + (?n - length t)) = t ! (i + (?n - length s))"
    using b off by (auto simp: broadcastable_nth bcast_compat_def)
  then have "BroadcastOutputShape s t = Inr (?front @ ?rear)"
    using assms(1,2) unfolding BroadcastOutputShape_def Let_def mapR_guard by simp
  moreover have "?front @ ?rear = broadcast_shape s t"
  proof (rule nth_equalityI)
    show "length (?front @ ?rear) = length (broadcast_shape s t)"
      by (simp add: length_broadcast_shape)
  next
    fix i assume "i < length (?front @ ?rear)"
    then have i: "i < ?n" by (auto split: if_splits)
    show "(?front @ ?rear) ! i = broadcast_shape s t ! i"
    proof (cases "i < ?n - ?m")
      case True
      with i ps pt show ?thesis
        by (auto simp: nth_append nth_broadcast_shape nth_pad_ones bcast_size_def)
    next
      case False
      with i have j: "i - (?n - ?m) < ?m" by auto
      let ?x = "s ! (i - (?n - ?m) + (length s - ?m))" and ?y = "t ! (i - (?n - ?m) + (length t - ?m))"
      from b j have "bcast_compat ?x ?y" by (auto simp: broadcastable_nth)
      moreover from False i ps pt have "1 \<le> ?x" "1 \<le> ?y" by auto
      ultimately have m: "bcast_size ?x ?y = max ?x ?y" by (rule bcast_size_max)
      have "broadcast_shape s t ! i = bcast_size ?x ?y"
        using False i by (auto simp: nth_broadcast_shape nth_pad_ones min_def max_def)
      from this m have r: "broadcast_shape s t ! i = max ?x ?y" by (rule trans)
      have e1: "?n - length t + (i - (?n - ?m)) = i - (?n - ?m) + (length s - ?m)"
        unfolding off(1) by (rule add.commute)
      have e2: "?n - length s + (i - (?n - ?m)) = i - (?n - ?m) + (length t - ?m)"
        unfolding off(2) by (rule add.commute)
      have "length ?front = ?n - ?m" by auto
      with False j have "(?front @ ?rear) ! i = ?rear ! (i - (?n - ?m))"
        by (simp only: nth_append if_False)
      also have "\<dots> = max ?x ?y" using j by (simp only: nth_map_upt add_0 e1 e2 diff_zero)
      also have "\<dots> = broadcast_shape s t ! i" by (rule r [symmetric])
      finally show ?thesis .
    qed
  qed
  ultimately show ?thesis by simp
qed

lemma broadcastable_scalar [simp]: "broadcastable [] t" "broadcastable s []"
  by (auto simp: broadcastable_nth)

lemma broadcast_shape_scalar [simp]: "broadcast_shape [] t = t" "broadcast_shape s [] = s"
  by (auto intro!: nth_equalityI
      simp: length_broadcast_shape nth_broadcast_shape nth_pad_ones bcast_size_def)

lemma BroadcastOutputShape_scalar [simp]:
  "BroadcastOutputShape [] t = Inr t" "BroadcastOutputShape s [] = Inr s"
  by (auto simp: BroadcastOutputShape_def Let_def)

text \<open>C39: on shapes with sizes of at least 1, \<open>BroadcastOutputShape\<close> returns the NumPy broadcast
  of the two shapes exactly when \<open>CanBroadcastWith\<close> accepts them, and fails its debug assertion
  otherwise.\<close>

theorem BroadcastOutputShape_correct:
  assumes "\<forall>x \<in> set s. 1 \<le> x" and "\<forall>x \<in> set t. 1 \<le> x"
  shows "BroadcastOutputShape s t =
    (if CanBroadcastWith s t then Inr (broadcast_shape s t) else Inl Abort)"
proof (cases "s = [] \<or> t = []")
  case True
  then show ?thesis by (auto simp: CanBroadcastWith_iff)
next
  case False
  with assms BroadcastOutputShape_ok BroadcastOutputShape_fail show ?thesis
    by (simp add: CanBroadcastWith_iff)
qed

theorem BroadcastOutputShape_correct_witness:
  "BroadcastOutputShape [4, 1, 5] [3, 1] = Inr (broadcast_shape [4, 1, 5] [3, 1]) \<and>
   broadcast_shape [4, 1, 5] [3, 1] = [4, 3, 5]"
proof -
  have "CanBroadcastWith [4, 1, 5] [3, 1]" by code_simp
  then show ?thesis
    using BroadcastOutputShape_correct [of "[4, 1, 5]" "[3, 1]"]
    by (simp add: broadcast_shape_def pad_ones_def bcast_size_def)
qed

lemma bcast_compat_sym: "bcast_compat x y \<longleftrightarrow> bcast_compat y x"
  by (auto simp: bcast_compat_def)

lemma broadcastable_sym: "broadcastable s t \<longleftrightarrow> broadcastable t s"
  by (auto simp: broadcastable_nth min.commute bcast_compat_sym)

lemma broadcast_shape_sym: "broadcastable s t \<Longrightarrow> broadcast_shape s t = broadcast_shape t s"
  by (rule nth_equalityI)
    (auto simp: length_broadcast_shape nth_broadcast_shape broadcastable_def Let_def max.commute
      list_all2_conv_all_nth bcast_size_def bcast_compat_def)

section \<open>Stride\<close>

text \<open>\<open>Stride(const Shape&)\<close> runs from the last axis to the first with the running product.\<close>

definition Stride_of_Shape :: "shape \<Rightarrow> stride" where
  "Stride_of_Shape s = fst (foldr (\<lambda>d (mStride, count). (count # mStride, count * d)) s ([], 1))"

definition Stride_At :: "stride \<Rightarrow> int \<Rightarrow> int res" where
  "Stride_At st index =
     assertR (index < int (length st))
      (let index' = (if index < 0 then index + int (length st) else index) in
       assertR (index' \<ge> 0) (Inr (st ! nat index')))"

definition Stride_Set :: "stride \<Rightarrow> int \<Rightarrow> int \<Rightarrow> stride res" where
  "Stride_Set st index v =
     assertR (index < int (length st))
      (let index' = (if index < 0 then index + int (length st) else index) in
       assertR (index' \<ge> 0) (assertR (v \<ge> 0) (Inr (st[nat index' := v]))))"

definition Stride_eq :: "stride \<Rightarrow> stride \<Rightarrow> bool" where
  "Stride_eq s t \<longleftrightarrow> length s = length t \<and> list_all (\<lambda>i. s ! i = t ! i) [0..<length s]"

definition Stride_ExpandBefore :: "stride \<Rightarrow> nat \<Rightarrow> int \<Rightarrow> stride res" where
  "Stride_ExpandBefore st dim scaleValue =
     assertR (dim > length st)
      (guardR Undefined (st \<noteq> [])
        (Inr (replicate (dim - length st) (st ! 0 * scaleValue) @ st)))"

definition ComputeIndex :: "stride \<Rightarrow> int list \<Rightarrow> int res" where
  "ComputeIndex st coordinate =
     assertR (length coordinate = length st)
      (foldR (\<lambda>i result. assertR (coordinate ! i \<ge> 0) (Inr (result + coordinate ! i * st ! i)))
        [0..<length coordinate] 0)"

fun ComputeCoordinate :: "stride \<Rightarrow> int \<Rightarrow> int list res" where
  "ComputeCoordinate [] index = Inr []"
| "ComputeCoordinate (st # sts) index =
     bindR (quotR index st) (\<lambda>c. bindR (remR index st) (\<lambda>index'.
       bindR (ComputeCoordinate sts index') (\<lambda>cs. Inr (c # cs))))"

lemma Stride_fold_count:
  "snd (foldr (\<lambda>d (mStride, count). (count # mStride, count * d)) s ([], 1::int)) = prod_list s"
  by (induction s) (auto simp: case_prod_beta mult.commute)

lemma Stride_of_Shape_Nil [simp]: "Stride_of_Shape [] = []"
  by (simp add: Stride_of_Shape_def)

lemma Stride_of_Shape_Cons [simp]: "Stride_of_Shape (d # s) = prod_list s # Stride_of_Shape s"
  using Stride_fold_count [of s] by (simp add: Stride_of_Shape_def case_prod_beta)

lemma length_Stride_of_Shape [simp]: "length (Stride_of_Shape s) = length s"
  by (induction s) auto

lemma nth_Stride_of_Shape: "i < length s \<Longrightarrow> Stride_of_Shape s ! i = prod_list (drop (Suc i) s)"
  by (induction s arbitrary: i) (auto simp: nth_Cons split: nat.splits)

text \<open>The index as a fold over coordinates and strides.\<close>

definition in_range :: "shape \<Rightarrow> int list \<Rightarrow> bool" where
  "in_range s cs \<longleftrightarrow> list_all2 (\<lambda>c d. 0 \<le> c \<and> c < d) cs s"

fun lin_index :: "shape \<Rightarrow> int list \<Rightarrow> int" where
  "lin_index (d # s) (c # cs) = c * prod_list s + lin_index s cs"
| "lin_index _ _ = 0"

lemma in_range_Nil [simp]: "in_range [] cs \<longleftrightarrow> cs = []"
  by (simp add: in_range_def)

lemma in_range_Cons [simp]: "in_range (d # s) cs \<longleftrightarrow>
    (\<exists>c cs'. cs = c # cs' \<and> 0 \<le> c \<and> c < d \<and> in_range s cs')"
  by (cases cs) (auto simp: in_range_def)

lemma in_range_length: "in_range s cs \<Longrightarrow> length cs = length s"
  by (simp add: in_range_def list_all2_lengthD)

lemma in_range_pos: "in_range s cs \<Longrightarrow> \<forall>d \<in> set s. 0 < d"
  by (induction s arbitrary: cs) fastforce+

lemma lin_index_bounds: "in_range s cs \<Longrightarrow> 0 \<le> lin_index s cs \<and> lin_index s cs < prod_list s"
proof (induction s arbitrary: cs)
  case Nil
  then show ?case by simp
next
  case (Cons d s)
  then obtain c cs' where cs: "cs = c # cs'" "0 \<le> c" "c < d" "in_range s cs'" by auto
  then have p: "0 < prod_list s" using prod_list_pos [of s] in_range_pos [of s cs'] by auto
  from Cons.IH [OF cs(4)] have b: "0 \<le> lin_index s cs'" "lin_index s cs' < prod_list s" by auto
  have "(c + 1) * prod_list s \<le> d * prod_list s"
    using cs(3) p by (intro mult_right_mono) auto
  with b cs p show ?case by (simp add: algebra_simps)
qed

lemma foldR_index:
  assumes "\<forall>i \<in> set js. 0 \<le> cs ! i"
  shows "foldR (\<lambda>i r. assertR (cs ! i \<ge> 0) (Inr (r + cs ! i * st ! i))) js a =
    Inr (a + sum_list (map (\<lambda>i. cs ! i * st ! i) js))"
  using assms by (induction js arbitrary: a) (auto simp: add.assoc)

lemma ComputeIndex_eq:
  assumes "length cs = length st" and "\<forall>c \<in> set cs. 0 \<le> c"
  shows "ComputeIndex st cs = Inr (\<Sum>i \<leftarrow> [0..<length cs]. cs ! i * st ! i)"
proof -
  from assms(2) have "\<forall>i \<in> set [0..<length cs]. 0 \<le> cs ! i" by auto
  from foldR_index [OF this, of st 0] assms(1) show ?thesis by (simp add: ComputeIndex_def)
qed

lemma lin_index_sum: "length cs = length s \<Longrightarrow>
    (\<Sum>i \<leftarrow> [0..<length cs]. cs ! i * Stride_of_Shape s ! i) = lin_index s cs"
proof (induction s cs rule: lin_index.induct)
  case (1 d s c cs)
  then have "(\<Sum>i \<leftarrow> [0..<length cs]. cs ! i * Stride_of_Shape s ! i) = lin_index s cs" by simp
  then show ?case
    by (simp add: upt_conv_Cons del: upt_Suc) (simp add: map_Suc_upt [symmetric] comp_def del: map_Suc_upt upt_Suc)
qed auto

lemma ComputeIndex_lin:
  assumes "in_range s cs"
  shows "ComputeIndex (Stride_of_Shape s) cs = Inr (lin_index s cs)"
proof -
  have "\<forall>c \<in> set cs. 0 \<le> c"
    using assms by (auto simp: in_range_def list_all2_conv_all_nth in_set_conv_nth)
  with assms show ?thesis
    using ComputeIndex_eq [of cs "Stride_of_Shape s"] in_range_length [OF assms]
      lin_index_sum [OF in_range_length [OF assms]] by simp
qed

lemma ComputeCoordinate_lin:
  "in_range s cs \<Longrightarrow> ComputeCoordinate (Stride_of_Shape s) (lin_index s cs) = Inr cs"
proof (induction s arbitrary: cs)
  case Nil
  then show ?case by simp
next
  case (Cons d s)
  then obtain c cs' where cs: "cs = c # cs'" "0 \<le> c" "c < d" "in_range s cs'" by auto
  then have p: "0 < prod_list s" using prod_list_pos [of s] in_range_pos [of s cs'] by auto
  from lin_index_bounds [OF cs(4)] have b: "0 \<le> lin_index s cs'" "lin_index s cs' < prod_list s" by auto
  from b p have "(c * prod_list s + lin_index s cs') div prod_list s = c"
    and "(c * prod_list s + lin_index s cs') mod prod_list s = lin_index s cs'"
    by (auto simp: mult.commute [of c])
  moreover have "0 \<le> c * prod_list s + lin_index s cs'" using cs b p by simp
  ultimately show ?case using cs p Cons.IH by simp
qed

lemma ComputeCoordinate_total:
  assumes "\<forall>d \<in> set s. 0 < d" and "0 \<le> k" and "k < prod_list s"
  shows "\<exists>cs. in_range s cs \<and> ComputeCoordinate (Stride_of_Shape s) k = Inr cs \<and> lin_index s cs = k"
  using assms
proof (induction s arbitrary: k)
  case Nil
  then show ?case by simp
next
  case (Cons d s)
  let ?p = "prod_list s"
  from Cons.prems have p: "0 < ?p" using prod_list_pos [of s] by simp
  from Cons.prems p have "0 \<le> k mod ?p" "k mod ?p < ?p" by auto
  with Cons obtain cs where cs: "in_range s cs"
    "ComputeCoordinate (Stride_of_Shape s) (k mod ?p) = Inr cs" "lin_index s cs = k mod ?p" by auto
  have "k div ?p < d"
  proof (rule ccontr)
    assume "\<not> k div ?p < d"
    with p have "d * ?p \<le> k div ?p * ?p" by (intro mult_right_mono) auto
    also have "\<dots> \<le> k" using p by (simp add: minus_mod_eq_div_mult [symmetric])
    finally show False using Cons.prems by simp
  qed
  moreover have "0 \<le> k div ?p" using Cons.prems p by (simp add: pos_imp_zdiv_nonneg_iff)
  ultimately have "in_range (d # s) (k div ?p # cs)" using cs by simp
  moreover have "ComputeCoordinate (Stride_of_Shape (d # s)) k = Inr (k div ?p # cs)"
    using cs p Cons.prems by simp
  moreover have "lin_index (d # s) (k div ?p # cs) = k" using cs(3) by simp
  ultimately show ?case by blast
qed

text \<open>For the strides of a shape, \<open>ComputeIndex\<close> and \<open>ComputeCoordinate\<close> are inverse on the
  coordinates inside the shape, and the index lies below the number of elements.\<close>

theorem Stride_roundtrip:
  assumes "in_range s cs"
  shows "\<exists>k. ComputeIndex (Stride_of_Shape s) cs = Inr k \<and> 0 \<le> k \<and> k < prod_list s \<and>
    ComputeCoordinate (Stride_of_Shape s) k = Inr cs"
  using ComputeIndex_lin [OF assms] lin_index_bounds [OF assms] ComputeCoordinate_lin [OF assms] by blast

theorem Stride_roundtrip_witness:
  "\<exists>k. ComputeIndex (Stride_of_Shape [2, 3, 4]) [1, 0, 3] = Inr k \<and> 0 \<le> k \<and> k < prod_list [2, 3, 4] \<and>
    ComputeCoordinate (Stride_of_Shape [2, 3, 4]) k = Inr [1, 0, 3]"
  using Stride_roundtrip [of "[2, 3, 4]" "[1, 0, 3]"] by simp

end
