(* ===== verification/Meshes.thy ===== *)
theory Meshes
  imports Shapes ApiTypes "HOL-Library.AList"
begin

text \<open>
  Device meshes and placements: src/dtorch/api/cpp/simple_array.{h,cc} and the classes \<open>DeviceMesh\<close>,
  \<open>Placement\<close> and \<open>PlacementSeq\<close> of distributed_spec.{h,cc}.  An unordered map is an association list
  with distinct keys; nothing read from it depends on the order.  Tensors belong to libtorch: where
  \<open>Unbind\<close> goes through \<open>torch::Tensor::unbind\<close>, that function is an argument of the model.
\<close>

section \<open>SimpleArray\<close>

record SimpleArray =
  mShape :: shape
  mDimensionNamesMap :: "(string \<times> nat) list"
  mData :: "int list"
  mDataSet :: "int set"

definition SimpleArray_new :: "shape \<Rightarrow> int list \<Rightarrow> string list \<Rightarrow> SimpleArray res" where
  "SimpleArray_new shape data dimensionNames =
     (let arr = \<lparr>mShape = shape, mDimensionNamesMap = [], mData = data, mDataSet = set data\<rparr> in
      assertR (length data > 0)
       (bindR (Shape_ProdFrom shape 0) (\<lambda>p.
         assertR (p = int (length data))
          (assertR (length data = card (set data))
            (if length dimensionNames > 0 then
               let m = foldl (\<lambda>m i. AList.update (dimensionNames ! i) i m) [] [0..<length dimensionNames] in
               requireR (\<not> (NumAxis shape \<noteq> length dimensionNames \<or> length m \<noteq> length dimensionNames))
                 (Inr (arr\<lparr>mDimensionNamesMap := m\<rparr>))
             else Inr arr)))))"

definition SimpleArray_of_vec :: "int list \<Rightarrow> string list \<Rightarrow> SimpleArray res" where
  "SimpleArray_of_vec data dimensionNames = SimpleArray_new [int (length data)] data dimensionNames"

definition SimpleArray_Size :: "SimpleArray \<Rightarrow> int \<Rightarrow> int res" where
  "SimpleArray_Size a dims = at_int (mShape a) dims"

definition HasDimensionName :: "SimpleArray \<Rightarrow> string \<Rightarrow> bool" where
  "HasDimensionName a name \<longleftrightarrow> map_of (mDimensionNamesMap a) name \<noteq> None"

definition GetDimensionNameIndex :: "SimpleArray \<Rightarrow> string \<Rightarrow> nat res" where
  "GetDimensionNameIndex a name =
     (case map_of (mDimensionNamesMap a) name of None \<Rightarrow> Inl Abort | Some i \<Rightarrow> Inr i)"

definition GetDimensionNames :: "SimpleArray \<Rightarrow> string list" where
  "GetDimensionNames a =
     foldl (\<lambda>result (name, i). result[i := name]) (replicate (length (mDimensionNamesMap a)) [])
       (mDimensionNamesMap a)"

definition SimpleArray_eq :: "SimpleArray \<Rightarrow> SimpleArray \<Rightarrow> bool res" where
  "SimpleArray_eq a b =
     (if \<not> Shape_eq (mShape a) (mShape b) then Inr False
      else if map_of (mDimensionNamesMap a) \<noteq> map_of (mDimensionNamesMap b) then Inr False
      else assertR (length (mData a) = length (mData b))
        (Inr (list_all (\<lambda>i. mData a ! i = mData b ! i) [0..<length (mData a)])))"

text \<open>Two maps of names agree when they agree on the names of either.\<close>

lemma SimpleArray_eq_code [code]:
  "SimpleArray_eq a b =
     (if \<not> Shape_eq (mShape a) (mShape b) then Inr False
      else if \<not> list_all (\<lambda>(k, _). map_of (mDimensionNamesMap a) k = map_of (mDimensionNamesMap b) k)
          (mDimensionNamesMap a @ mDimensionNamesMap b) then Inr False
      else assertR (length (mData a) = length (mData b))
        (Inr (list_all (\<lambda>i. mData a ! i = mData b ! i) [0..<length (mData a)])))"
proof -
  have "map_of xs = map_of ys" if "list_all (\<lambda>(k, _). map_of xs k = map_of ys k) (xs @ ys)"
    for xs ys :: "(string \<times> nat) list"
  proof
    fix k
    show "map_of xs k = map_of ys k"
    proof (cases "k \<in> fst ` set (xs @ ys)")
      case True
      with that show ?thesis by (auto simp: list_all_iff)
    next
      case False
      then have "map_of xs k = None" "map_of ys k = None" by (simp_all add: map_of_eq_None_iff image_Un)
      then show ?thesis by simp
    qed
  qed
  then show ?thesis by (auto simp: SimpleArray_eq_def list_all_iff)
qed

text \<open>
  \<open>Unbind\<close>: the wanted axes, normalised and sorted, are removed from the last to the first; \<open>unbind\<close>
  is the tensor operation (the tensor as shape and row-major data, the axis, the slices in order).
\<close>

definition Unbind_validDim :: "nat \<Rightarrow> int \<Rightarrow> int res" where
  "Unbind_validDim numAxis dim =
     (let validDim = (if dim < 0 then dim + int numAxis else dim) in
      requireR (\<not> (validDim < 0 \<or> validDim > int numAxis)) (Inr validDim))"

definition Unbind_Imp :: "(shape \<times> int list \<Rightarrow> nat \<Rightarrow> (shape \<times> int list) list) \<Rightarrow>
    SimpleArray \<Rightarrow> int \<Rightarrow> SimpleArray list res" where
  "Unbind_Imp unbind array dim =
     assertR (dim \<ge> 0 \<and> dim < int (NumAxis (mShape array)))
      (let names = GetDimensionNames array;
           names' = (if length names > 0 then take (nat dim) names @ drop (Suc (nat dim)) names else names)
       in mapR (\<lambda>(shape, data). SimpleArray_new shape data names') (unbind (mShape array, mData array) (nat dim)))"

definition SimpleArray_Unbind :: "(shape \<times> int list \<Rightarrow> nat \<Rightarrow> (shape \<times> int list) list) \<Rightarrow>
    SimpleArray \<Rightarrow> int list \<Rightarrow> SimpleArray list res" where
  "SimpleArray_Unbind unbind a dims =
     bindR (mapR (Unbind_validDim (NumAxis (mShape a))) dims) (\<lambda>validDims.
       foldR (\<lambda>dim tmpInput. bindR (mapR (\<lambda>array. Unbind_Imp unbind array dim) tmpInput)
           (\<lambda>parts. Inr (concat parts)))
         (rev (sort validDims)) [a])"

text \<open>Construction establishes what the rest of the code relies on.\<close>

definition SimpleArray_wf :: "SimpleArray \<Rightarrow> bool" where
  "SimpleArray_wf a \<longleftrightarrow> mData a \<noteq> [] \<and> mShape a \<noteq> [] \<and> prod_list (mShape a) = int (length (mData a)) \<and>
     distinct (mData a) \<and> mDataSet a = set (mData a) \<and>
     (mDimensionNamesMap a = [] \<or>
      (\<exists>names. distinct names \<and> length names = length (mShape a) \<and>
         mDimensionNamesMap a = zip names [0..<length names]))"

lemma AList_update_new: "k \<notin> fst ` set m \<Longrightarrow> AList.update k v m = m @ [(k, v)]"
  by (induction m) auto

lemma length_AList_update: "length (AList.update k v m) = (if k \<in> fst ` set m then length m else Suc (length m))"
  by (induction m) auto

lemma names_fold_keys:
  "fst ` set (foldl (\<lambda>m i. AList.update (names ! i) i m) m is) = fst ` set m \<union> (!) names ` set is"
proof (induction "is" arbitrary: m)
  case Nil
  then show ?case by simp
next
  case (Cons i "is")
  have "fst ` set (AList.update (names ! i) i m) = insert (names ! i) (fst ` set m)"
    using dom_map_of_conv_image_fst [of "AList.update (names ! i) i m"]
    by (simp add: update_conv' dom_map_of_conv_image_fst)
  then show ?case by (simp add: Cons.IH)
qed

lemma names_fold_length:
  "length (foldl (\<lambda>m i. AList.update (names ! i) i m) m is) \<le> length m + length is"
proof (induction "is" arbitrary: m)
  case Nil
  then show ?case by simp
next
  case (Cons i "is")
  from Cons.IH [of "AList.update (names ! i) i m"] show ?case
    by (simp add: length_AList_update split: if_splits)
qed

lemma names_fold_distinct:
  assumes "distinct (take n names)" and "n \<le> length names"
  shows "foldl (\<lambda>m i. AList.update (names ! i) i m) [] [0..<n] = zip (take n names) [0..<n]"
  using assms
proof (induction n)
  case 0
  then show ?case by simp
next
  case (Suc n)
  then have n: "n < length names" by simp
  then have t: "take (Suc n) names = take n names @ [names ! n]" by (rule take_Suc_conv_app_nth)
  with Suc.prems have nin: "names ! n \<notin> set (take n names)" and d: "distinct (take n names)" by auto
  have "names ! n \<notin> fst ` set (zip (take n names) [0..<n])"
    using nin by (auto dest: set_zip_leftD)
  with Suc.IH [OF d] n t show ?case by (simp add: AList_update_new)
qed

lemma names_fold_full:
  assumes "length (foldl (\<lambda>m i. AList.update (names ! i) i m) [] [0..<n]) = n" and "n \<le> length names"
  shows "distinct (take n names)"
  using assms
proof (induction n)
  case 0
  then show ?case by simp
next
  case (Suc n)
  let ?m = "foldl (\<lambda>m i. AList.update (names ! i) i m) [] [0..<n]"
  have le: "length ?m \<le> n" using names_fold_length [of names "[]" "[0..<n]"] by simp
  from Suc.prems have "length (AList.update (names ! n) n ?m) = Suc n" by simp
  with le have "names ! n \<notin> fst ` set ?m" "length ?m = n"
    by (auto simp: length_AList_update split: if_splits)
  then have "names ! n \<notin> (!) names ` {0..<n}" "distinct (take n names)"
    using Suc by (auto simp: names_fold_keys)
  moreover have "set (take n names) = (!) names ` {0..<n}"
    using nth_image [of n names] Suc.prems by (simp add: atLeast0LessThan)
  ultimately show ?case using Suc.prems by (simp add: take_Suc_conv_app_nth)
qed

lemma SimpleArray_new_wf:
  assumes "SimpleArray_new s d names = Inr a"
  shows "SimpleArray_wf a \<and> mShape a = s \<and> mData a = d \<and>
    (names \<noteq> [] \<longrightarrow> mDimensionNamesMap a = zip names [0..<length names] \<and> distinct names)"
proof -
  from assms have base: "d \<noteq> []" "s \<noteq> []" "prod_list s = int (length d)" "distinct d"
    by (auto simp: SimpleArray_new_def Let_def guardR_eq_Inr bindR_eq_Inr Shape_ProdFrom_0 card_distinct
        split: if_splits)
  show ?thesis
  proof (cases "names = []")
    case True
    with assms base show ?thesis
      by (auto simp: SimpleArray_new_def Let_def guardR_eq_Inr bindR_eq_Inr SimpleArray_wf_def)
  next
    case False
    let ?m = "foldl (\<lambda>m i. AList.update (names ! i) i m) [] [0..<length names]"
    from False assms have m: "length s = length names" "length ?m = length names"
      "a = \<lparr>mShape = s, mDimensionNamesMap = ?m, mData = d, mDataSet = set d\<rparr>"
      by (auto simp: SimpleArray_new_def Let_def guardR_eq_Inr bindR_eq_Inr)
    from names_fold_full [OF m(2)] have "distinct names" by simp
    with names_fold_distinct [of "length names" names] have "?m = zip names [0..<length names]" by simp
    with m base \<open>distinct names\<close> show ?thesis by (auto simp: SimpleArray_wf_def)
  qed
qed

lemma SimpleArray_new_ok:
  assumes "d \<noteq> []" and "s \<noteq> []" and "prod_list s = int (length d)" and "distinct d"
    and "names = [] \<or> (distinct names \<and> length names = length s)"
  shows "SimpleArray_new s d names = Inr \<lparr>mShape = s, mDimensionNamesMap = zip names [0..<length names],
    mData = d, mDataSet = set d\<rparr>"
proof -
  have "names \<noteq> [] \<longrightarrow> foldl (\<lambda>m i. AList.update (names ! i) i m) [] [0..<length names]
      = zip names [0..<length names]"
    using assms(5) names_fold_distinct [of "length names" names] by auto
  with assms show ?thesis
    by (auto simp: SimpleArray_new_def Shape_ProdFrom_0 distinct_card Let_def)
qed

lemma fold_names: "length ys = length names \<Longrightarrow>
    foldl (\<lambda>r (name, i). r[i := name]) ys (zip names [0..<length names]) = names"
proof (induction names arbitrary: ys rule: rev_induct)
  case Nil
  then show ?case by simp
next
  case (snoc n names)
  then obtain ys' y where ys: "ys = ys' @ [y]" "length ys' = length names"
    by (cases ys rule: rev_cases) auto
  have app: "foldl (\<lambda>r (name, i). r[i := name]) (zs @ [y]) (zip ns [0..<length ns]) =
      foldl (\<lambda>r (name, i). r[i := name]) zs (zip ns [0..<length ns]) @ [y]"
    if "length ns \<le> length zs" for zs :: "'a list" and ns
    using that
  proof (induction ns rule: rev_induct)
    case Nil
    then show ?case by simp
  next
    case (snoc m ns)
    have len: "length (foldl (\<lambda>r (name, i). r[i := name]) zs ps) = length zs" for ps :: "('a \<times> nat) list"
      by (induction ps arbitrary: zs rule: rev_induct) auto
    from snoc show ?case by (simp add: list_update_append len)
  qed
  from ys snoc app [of names ys'] show ?case by (simp add: list_update_append)
qed

lemma GetDimensionNames_new:
  assumes "SimpleArray_new s d names = Inr a"
  shows "GetDimensionNames a = names"
proof (cases "names = []")
  case True
  with assms have "mDimensionNamesMap a = []"
    by (auto simp: SimpleArray_new_def Let_def guardR_eq_Inr bindR_eq_Inr)
  with True show ?thesis by (simp add: GetDimensionNames_def)
next
  case False
  with SimpleArray_new_wf [OF assms] show ?thesis by (simp add: GetDimensionNames_def fold_names)
qed

lemma GetDimensionNameIndex_new:
  assumes "SimpleArray_new s d names = Inr a" and "i < length names"
  shows "GetDimensionNameIndex a (names ! i) = Inr i"
proof -
  from SimpleArray_new_wf [OF assms(1)] assms(2)
  have "mDimensionNamesMap a = zip names [0..<length names]" "distinct names" by auto
  then have "map_of (mDimensionNamesMap a) (names ! i) = Some i"
    using assms(2) by (simp add: map_of_zip_nth)
  then show ?thesis by (simp add: GetDimensionNameIndex_def)
qed

text \<open>The bound of \<open>Unbind\<close> is one too large: the axis \<open>NumAxis\<close> passes the check and then aborts.\<close>

lemma Unbind_past_the_end:
  "SimpleArray_Unbind unbind a [int (NumAxis (mShape a))] = Inl Abort"
  by (simp add: SimpleArray_Unbind_def Unbind_validDim_def Unbind_Imp_def)

section \<open>DeviceMesh\<close>

record DeviceMesh =
  mDeviceKind :: DeviceKind
  mMesh :: SimpleArray

definition DeviceMesh_of_vec :: "DeviceKind \<Rightarrow> int list \<Rightarrow> string list \<Rightarrow> DeviceMesh res" where
  "DeviceMesh_of_vec k meshVec names =
     bindR (SimpleArray_of_vec meshVec names) (\<lambda>m. Inr \<lparr>mDeviceKind = k, mMesh = m\<rparr>)"

definition DeviceMesh_of_Device :: "Device \<Rightarrow> DeviceMesh res" where
  "DeviceMesh_of_Device d = DeviceMesh_of_vec (deviceKind d) [deviceId d] []"

definition DeviceMesh_of_SimpleArray :: "DeviceKind \<Rightarrow> SimpleArray \<Rightarrow> DeviceMesh" where
  "DeviceMesh_of_SimpleArray k a = \<lparr>mDeviceKind = k, mMesh = a\<rparr>"

abbreviation Mesh_Shape :: "DeviceMesh \<Rightarrow> shape" where
  "Mesh_Shape m \<equiv> mShape (mMesh m)"

abbreviation Mesh_NumAxis :: "DeviceMesh \<Rightarrow> nat" where
  "Mesh_NumAxis m \<equiv> NumAxis (Mesh_Shape m)"

definition Mesh_Count :: "DeviceMesh \<Rightarrow> nat" where
  "Mesh_Count m = length (mData (mMesh m))"

definition Mesh_IsDistributed :: "DeviceMesh \<Rightarrow> bool" where
  "Mesh_IsDistributed m \<longleftrightarrow> Mesh_Count m > 1"

abbreviation GetDeviceIdSet :: "DeviceMesh \<Rightarrow> int set" where
  "GetDeviceIdSet m \<equiv> mDataSet (mMesh m)"

definition DeviceMesh_eq :: "DeviceMesh \<Rightarrow> DeviceMesh \<Rightarrow> bool res" where
  "DeviceMesh_eq a b =
     (if mDeviceKind a \<noteq> mDeviceKind b then Inr False else SimpleArray_eq (mMesh a) (mMesh b))"

definition IsContainDevice :: "DeviceMesh \<Rightarrow> Device \<Rightarrow> bool" where
  "IsContainDevice m d =
     (if deviceKind d \<noteq> mDeviceKind m \<or> deviceId d \<notin> GetDeviceIdSet m then False else True)"

definition Mesh_ToDevice :: "DeviceMesh \<Rightarrow> Device" where
  "Mesh_ToDevice m = mk_Device (mDeviceKind m) (if Mesh_Count m = 1 then mData (mMesh m) ! 0 else 0)"

definition Mesh_ToDeviceVec :: "DeviceMesh \<Rightarrow> Device list" where
  "Mesh_ToDeviceVec m = map (mk_Device (mDeviceKind m)) (mData (mMesh m))"

definition Mesh_Unbind :: "(shape \<times> int list \<Rightarrow> nat \<Rightarrow> (shape \<times> int list) list) \<Rightarrow>
    DeviceMesh \<Rightarrow> int list \<Rightarrow> DeviceMesh list res" where
  "Mesh_Unbind unbind m dims =
     bindR (SimpleArray_Unbind unbind (mMesh m) dims)
       (\<lambda>arrays. Inr (map (DeviceMesh_of_SimpleArray (mDeviceKind m)) arrays))"

definition Mesh_wf :: "DeviceMesh \<Rightarrow> bool" where
  "Mesh_wf m \<longleftrightarrow> SimpleArray_wf (mMesh m)"

lemma Mesh_wf_count: "Mesh_wf m \<Longrightarrow> prod_list (Mesh_Shape m) = int (Mesh_Count m) \<and> 0 < Mesh_Count m"
  by (simp add: Mesh_wf_def SimpleArray_wf_def Mesh_Count_def)

lemma SimpleArray_eq_refl: "SimpleArray_eq a a = Inr True"
  by (simp add: SimpleArray_eq_def list_all_iff)

lemma SimpleArray_eq_wf:
  assumes "SimpleArray_wf a" and "SimpleArray_wf b"
  shows "SimpleArray_eq a b = Inr (mShape a = mShape b \<and>
    map_of (mDimensionNamesMap a) = map_of (mDimensionNamesMap b) \<and> mData a = mData b)"
proof -
  have "(list_all (\<lambda>i. mData a ! i = mData b ! i) [0..<length (mData a)]) = (mData a = mData b)"
    if "length (mData a) = length (mData b)"
    using that unfolding list_all_iff by (subst list_eq_iff_nth_eq [of "mData a"]) auto
  moreover have "mShape a = mShape b \<longrightarrow> length (mData a) = length (mData b)"
    using assms by (auto simp: SimpleArray_wf_def)
  ultimately show ?thesis by (auto simp: SimpleArray_eq_def)
qed

text \<open>A device array can be built exactly from data with distinct entries whose number is the
  product of a non-empty shape, with no axis names or one distinct name per axis; the array built
  has that shape and data, answers every name with its axis and gives the names back in order.\<close>

theorem SimpleArray_construction:
  "(\<exists>a. SimpleArray_new s d names = Inr a \<and> mShape a = s \<and> mData a = d \<and>
      GetDimensionNames a = names \<and>
      map (GetDimensionNameIndex a) names = map Inr [0..<length names])
   \<longleftrightarrow> d \<noteq> [] \<and> s \<noteq> [] \<and> prod_list s = int (length d) \<and> distinct d \<and>
      distinct names \<and> length names \<in> {0, length s}"
proof (intro iffI; (elim exE conjE)?)
  fix a assume a: "SimpleArray_new s d names = Inr a"
  from SimpleArray_new_wf [OF a] a
  show "d \<noteq> [] \<and> s \<noteq> [] \<and> prod_list s = int (length d) \<and> distinct d \<and>
      distinct names \<and> length names \<in> {0, length s}"
    by (cases "names = []")
      (auto simp: SimpleArray_wf_def SimpleArray_new_def Let_def guardR_eq_Inr bindR_eq_Inr)
next
  assume "d \<noteq> []" "s \<noteq> []" "prod_list s = int (length d)" "distinct d" "distinct names"
    "length names \<in> {0, length s}"
  then obtain a where a: "SimpleArray_new s d names = Inr a"
    using SimpleArray_new_ok [of d s names] by auto
  have "map (GetDimensionNameIndex a) names = map Inr [0..<length names]"
    by (rule nth_equalityI) (auto simp: GetDimensionNameIndex_new [OF a])
  with a SimpleArray_new_wf [OF a] GetDimensionNames_new [OF a]
  show "\<exists>a. SimpleArray_new s d names = Inr a \<and> mShape a = s \<and> mData a = d \<and>
      GetDimensionNames a = names \<and>
      map (GetDimensionNameIndex a) names = map Inr [0..<length names]" by auto
qed

text \<open>In a well formed mesh, \<open>IsContainDevice\<close> accepts exactly the devices \<open>ToDeviceVec\<close> lists,
  which are as many as \<open>Count\<close> says and pairwise different.\<close>

theorem Mesh_devices:
  assumes "Mesh_wf m"
  shows "(\<forall>d. IsContainDevice m d \<longleftrightarrow> d \<in> set (Mesh_ToDeviceVec m)) \<and>
    distinct (Mesh_ToDeviceVec m) \<and> length (Mesh_ToDeviceVec m) = Mesh_Count m"
proof -
  from assms have wf: "distinct (mData (mMesh m))" "GetDeviceIdSet m = set (mData (mMesh m))"
    by (auto simp: Mesh_wf_def SimpleArray_wf_def)
  have "IsContainDevice m d \<longleftrightarrow> d \<in> set (Mesh_ToDeviceVec m)" for d
    using wf(2) by (cases d) (auto simp: IsContainDevice_def Mesh_ToDeviceVec_def mk_Device_def)
  moreover have "inj_on (mk_Device (mDeviceKind m)) A" for A
    by (auto simp: inj_on_def mk_Device_def)
  ultimately show ?thesis using wf(1) by (simp add: Mesh_ToDeviceVec_def Mesh_Count_def distinct_map)
qed

theorem Mesh_devices_witness:
  "\<exists>m. DeviceMesh_of_vec kGpu [2, 3] [] = Inr m \<and>
    (\<forall>d. IsContainDevice m d \<longleftrightarrow> d \<in> set (Mesh_ToDeviceVec m)) \<and>
    distinct (Mesh_ToDeviceVec m) \<and> length (Mesh_ToDeviceVec m) = Mesh_Count m"
proof -
  let ?a = "\<lparr>mShape = [2], mDimensionNamesMap = [], mData = [2, 3], mDataSet = {2, 3}\<rparr>"
  let ?m = "\<lparr>mDeviceKind = kGpu, mMesh = ?a\<rparr>"
  have "DeviceMesh_of_vec kGpu [2, 3] [] = Inr ?m"
    using SimpleArray_new_ok [of "[2, 3]" "[2]" "[]"]
    by (simp add: DeviceMesh_of_vec_def SimpleArray_of_vec_def)
  moreover have "Mesh_wf ?m" by (auto simp: Mesh_wf_def SimpleArray_wf_def)
  ultimately show ?thesis using Mesh_devices [of ?m] by blast
qed

end
