(* ===== verification/Placements.thy ===== *)
theory Placements
  imports Meshes Texts
begin

text \<open>
  The classes \<open>Placement\<close> and \<open>PlacementSeq\<close> of src/dtorch/api/cpp/distributed_spec.{h,cc}: how a
  tensor lies on every axis of a device mesh.  A placement sequence is a list of placements; the
  sharing of its vector between copies is modelled by an explicit store at the end.
\<close>

section \<open>Placement\<close>

record Placement =
  mReplicate :: bool
  mPartial :: bool
  mShard :: bool
  mShardIndex :: int
  mSubSplitCoordinates :: int

definition mk_Placement :: "bool \<Rightarrow> bool \<Rightarrow> bool \<Rightarrow> int \<Rightarrow> int \<Rightarrow> Placement" where
  "mk_Placement isReplicate isPartial isShard shardIndex subSplitCoordinates =
     \<lparr>mReplicate = isReplicate, mPartial = isPartial, mShard = isShard, mShardIndex = shardIndex,
      mSubSplitCoordinates = subSplitCoordinates\<rparr>"

definition Shard :: "int \<Rightarrow> int \<Rightarrow> Placement" where
  "Shard shardIndex subSplitCoordinates = mk_Placement False False True shardIndex subSplitCoordinates"

definition Replicate :: Placement where
  "Replicate = mk_Placement True False False (- 1) (- 1)"

definition Partial :: Placement where
  "Partial = mk_Placement False True False (- 1) (- 1)"

definition Optional :: Placement where
  "Optional = mk_Placement False False False (- 1) (- 1)"

text \<open>The constructor from a text; the exception of \<open>std::stoi\<close> is caught and ends in the abort.\<close>

definition Placement_of_string :: "string \<Rightarrow> Placement res" where
  "Placement_of_string str =
     (if str = ''R'' then Inr (mk_Placement True False False (- 1) (- 1))
      else if str = ''P'' then Inr (mk_Placement False True False (- 1) (- 1))
      else if str = ''S0'' then Inr (mk_Placement False False True 0 (- 1))
      else if str = ''S1'' then Inr (mk_Placement False False True 1 (- 1))
      else if str = ''S2'' then Inr (mk_Placement False False True 2 (- 1))
      else if length str > 1 \<and> hd str = CHR ''S'' then
        (case stoi (tl str) of
           Some i \<Rightarrow> Inr (mk_Placement False False True i (- 1))
         | None \<Rightarrow> Inl Abort)
      else Inl Abort)"

abbreviation IsShard :: "Placement \<Rightarrow> bool" where
  "IsShard p \<equiv> mShard p"

definition IsShardAt :: "Placement \<Rightarrow> int \<Rightarrow> bool" where
  "IsShardAt p shardIndex \<longleftrightarrow> mShard p \<and> mShardIndex p = shardIndex"

definition GetShardIndex :: "Placement \<Rightarrow> int res" where
  "GetShardIndex p = assertR (mShard p) (Inr (mShardIndex p))"

definition GetSubSplitCoordinates :: "Placement \<Rightarrow> int res" where
  "GetSubSplitCoordinates p = assertR (mShard p) (Inr (mSubSplitCoordinates p))"

definition HasSubSplitCoordinates :: "Placement \<Rightarrow> bool" where
  "HasSubSplitCoordinates p \<longleftrightarrow> mShard p \<and> mSubSplitCoordinates p \<noteq> - 1"

definition SetSubSplitCoordinates :: "Placement \<Rightarrow> int \<Rightarrow> Placement res" where
  "SetSubSplitCoordinates p v = assertR (mShard p) (Inr (p\<lparr>mSubSplitCoordinates := v\<rparr>))"

abbreviation IsReplicate :: "Placement \<Rightarrow> bool" where
  "IsReplicate p \<equiv> mReplicate p"

abbreviation IsPartial :: "Placement \<Rightarrow> bool" where
  "IsPartial p \<equiv> mPartial p"

definition Placement_ToString :: "Placement \<Rightarrow> string" where
  "Placement_ToString p =
     (if mReplicate p then ''Replicate()''
      else if mPartial p then ''Partial(sum)''
      else if mShard p then
        (if mSubSplitCoordinates p = - 1 then ''Shard(dim='' @ show_int (mShardIndex p) @ '')''
         else ''Shard(dim='' @ show_int (mShardIndex p) @ '','' @ '' sub_split_coordinates='' @
           show_int (mSubSplitCoordinates p) @ '')'')
      else ''None'')"

unbundle bit_operations_syntax

definition Placement_ToHashKey :: "Placement \<Rightarrow> 64 word res" where
  "Placement_ToHashKey p =
     (let shardIndex = (if mShard p then mShardIndex p else 0) in
      assertR (shardIndex \<ge> 0 \<and> shardIndex \<le> 0x0F)
       (Inr (push_bit 0 (of_bool (mReplicate p)) OR push_bit 1 (of_bool (mPartial p)) OR
         push_bit 2 (of_bool (mShard p)) OR push_bit 4 (word_of_int (mShardIndex p) AND 0x0F))))"

definition Placement_eq :: "Placement \<Rightarrow> Placement \<Rightarrow> bool" where
  "Placement_eq a b \<longleftrightarrow> mReplicate a = mReplicate b \<and> mPartial a = mPartial b \<and> mShard a = mShard b \<and>
     mShardIndex a = mShardIndex b \<and> mSubSplitCoordinates a = mSubSplitCoordinates b"

text \<open>
  The sizes of the pieces of an axis: the remainder goes one by one to the first pieces.  A
  vector of negative length is \<open>std::length_error\<close>; the assertion excludes nothing there, but a zero
  divisor comes first.
\<close>

definition GetShardSizeForAllRank :: "int \<Rightarrow> int \<Rightarrow> int list res" where
  "GetShardSizeForAllRank shapeSize numShard =
     assertR (shapeSize \<ge> numShard)
      (bindR (quotR shapeSize numShard) (\<lambda>q. bindR (remR shapeSize numShard) (\<lambda>r.
        guardR LengthError (numShard \<ge> 0)
         (let result = replicate (nat numShard) q in
          if r = 0 then Inr result
          else Inr (foldl (\<lambda>result i. result[i := result ! i + 1]) result [0..<nat r])))))"

lemmas placement_defs = Shard_def Replicate_def Partial_def Optional_def mk_Placement_def

lemma Placement_eq_iff [simp]: "Placement_eq a b \<longleftrightarrow> a = b"
  by (cases a; cases b) (simp add: Placement_eq_def)

text \<open>The placements the code can build.\<close>

definition Placement_wf :: "Placement \<Rightarrow> bool" where
  "Placement_wf p \<longleftrightarrow> p = Replicate \<or> p = Partial \<or> p = Optional \<or>
     p = Shard (mShardIndex p) (mSubSplitCoordinates p)"

lemma Placement_wf_intros [simp, intro]:
  "Placement_wf Replicate" "Placement_wf Partial" "Placement_wf Optional" "Placement_wf (Shard i s)"
  by (auto simp: Placement_wf_def placement_defs)

lemma Placement_wf_cases:
  assumes "Placement_wf p"
  obtains (replicate) "p = Replicate" | (partial) "p = Partial" | (optional) "p = Optional" | (shard) i s where "p = Shard i s"
  using assms by (auto simp: Placement_wf_def)

lemma placement_flags [simp]:
  "IsReplicate Replicate" "\<not> IsPartial Replicate" "\<not> IsShard Replicate"
  "\<not> IsReplicate Partial" "IsPartial Partial" "\<not> IsShard Partial"
  "\<not> IsReplicate Optional" "\<not> IsPartial Optional" "\<not> IsShard Optional"
  "\<not> IsReplicate (Shard i s)" "\<not> IsPartial (Shard i s)" "IsShard (Shard i s)"
  "mShardIndex (Shard i s) = i" "mSubSplitCoordinates (Shard i s) = s"
  by (simp_all add: placement_defs)

lemma placement_distinct [simp]:
  "Replicate \<noteq> Partial" "Partial \<noteq> Replicate" "Replicate \<noteq> Optional" "Optional \<noteq> Replicate"
  "Partial \<noteq> Optional" "Optional \<noteq> Partial"
  "Shard i s \<noteq> Replicate" "Replicate \<noteq> Shard i s" "Shard i s \<noteq> Partial" "Partial \<noteq> Shard i s"
  "Shard i s \<noteq> Optional" "Optional \<noteq> Shard i s"
  "Shard i s = Shard i' s' \<longleftrightarrow> i = i' \<and> s = s'"
  by (auto simp: placement_defs)

lemma Placement_of_string_wf: "Placement_of_string str = Inr p \<Longrightarrow> Placement_wf p"
  by (auto simp: Placement_of_string_def Placement_wf_def placement_defs split: if_splits option.splits)

text \<open>The hash key separates the placements without sub-split coordinates.\<close>

lemma Placement_ToHashKey_Shard:
  "0 \<le> i \<Longrightarrow> i \<le> 15 \<Longrightarrow> Placement_ToHashKey (Shard i s) = Inr (word_of_int (4 + 16 * i))"
proof -
  have "list_all (\<lambda>i. Placement_ToHashKey (Shard i (- 1)) = Inr (word_of_int (4 + 16 * i))) [0..15]"
    by (simp add: Placement_ToHashKey_def upto_rec1)
  moreover assume "0 \<le> i" "i \<le> 15"
  then have "i \<in> set [0..15]" by simp
  ultimately have "Placement_ToHashKey (Shard i (- 1)) = Inr (word_of_int (4 + 16 * i))"
    unfolding list_all_iff by blast
  then show ?thesis by (simp add: Placement_ToHashKey_def)
qed

lemma Placement_ToHashKey_const [simp]:
  "Placement_ToHashKey Replicate = Inr 241" "Placement_ToHashKey Partial = Inr 242"
  "Placement_ToHashKey Optional = Inr 240"
  by (simp_all add: Placement_ToHashKey_def placement_defs)

lemma Placement_ToHashKey_domain:
  assumes "Placement_wf p"
  shows "(\<exists>k. Placement_ToHashKey p = Inr k) \<longleftrightarrow> (IsShard p \<longrightarrow> 0 \<le> mShardIndex p \<and> mShardIndex p \<le> 15)"
  using assms by (cases rule: Placement_wf_cases) (auto simp: Placement_ToHashKey_def Let_def guardR_def)

lemma small_word_neq: "\<lbrakk>0 \<le> i; i < 2 ^ 64; 0 \<le> j; j < 2 ^ 64\<rbrakk> \<Longrightarrow>
    (word_of_int i :: 64 word) = word_of_int j \<longleftrightarrow> i = j"
  by (auto dest: arg_cong [of _ _ uint] simp: uint_word_of_int)

lemma Placement_ToHashKey_code:
  assumes k: "Placement_ToHashKey (Shard i s) = Inr k"
  shows "uint k mod 16 = 4 \<and> i = uint k div 16"
proof -
  from k have r: "0 \<le> i" "i \<le> 15" by (auto simp: Placement_ToHashKey_def Let_def guardR_eq_Inr)
  with k have "k = word_of_int (4 + 16 * i)" by (simp add: Placement_ToHashKey_Shard)
  with r have "uint k = 4 + 16 * i" by (simp add: uint_word_of_int del: of_int_add)
  then show ?thesis by simp
qed

text \<open>Two placements without sub-split coordinates have the same hash key only if they are
  equal.\<close>

theorem Placement_ToHashKey_inj:
  assumes "Placement_wf p" and "Placement_wf q"
    and "\<not> HasSubSplitCoordinates p" and "\<not> HasSubSplitCoordinates q"
    and "Placement_ToHashKey p \<noteq> Inl Abort"
  shows "Placement_ToHashKey p = Placement_ToHashKey q \<longleftrightarrow> p = q"
proof
  assume eq: "Placement_ToHashKey p = Placement_ToHashKey q"
  from assms(5) obtain k where k: "Placement_ToHashKey p = Inr k"
    by (auto simp: Placement_ToHashKey_def Let_def guardR_def split: if_splits)
  from k eq have "Placement_ToHashKey q = Inr k" by simp
  with k assms(1-4) show "p = q"
    by (cases rule: Placement_wf_cases [OF assms(1)]; cases rule: Placement_wf_cases [OF assms(2)])
      (auto simp: HasSubSplitCoordinates_def dest!: Placement_ToHashKey_code)
qed simp

theorem Placement_ToHashKey_inj_witness:
  "Placement_ToHashKey (Shard 3 (- 1)) \<noteq> Placement_ToHashKey Replicate"
  using Placement_ToHashKey_inj [of "Shard 3 (- 1)" Replicate]
  by (simp add: HasSubSplitCoordinates_def Placement_ToHashKey_Shard)

text \<open>The piece \<open>j\<close> of an axis of size \<open>n\<close> cut into \<open>s\<close> pieces.\<close>

definition piece_size :: "int \<Rightarrow> int \<Rightarrow> int \<Rightarrow> int" where
  "piece_size n s j = n div s + (if j < n mod s then 1 else 0)"

lemma foldl_incr: "k \<le> length xs \<Longrightarrow>
    foldl (\<lambda>r i. r[i := r ! i + (1::int)]) xs [0..<k] = map (\<lambda>i. xs ! i + (if i < k then 1 else 0)) [0..<length xs]"
proof (induction k)
  case 0
  then show ?case by (simp add: map_nth)
next
  case (Suc k)
  then show ?case by (auto intro!: nth_equalityI simp: nth_list_update)
qed

lemma GetShardSizeForAllRank_eq:
  assumes "0 < s" and "s \<le> n"
  shows "GetShardSizeForAllRank n s = Inr (map (piece_size n s) [0..s - 1])"
proof -
  have r: "0 \<le> n mod s" "n mod s < s" using assms by auto
  have up: "[0..s - 1] = map int [0..<nat s]"
    using map_nth_upto [of "replicate (nat s) ()"] assms
    by (auto intro!: nth_equalityI simp: nth_upto)
  show ?thesis
  proof (cases "n mod s = 0")
    case True
    with assms show ?thesis
      by (simp add: GetShardSizeForAllRank_def piece_size_def up comp_def map_replicate_const mod_eq_0_iff_dvd)
  next
    case False
    then have "foldl (\<lambda>r i. r[i := r ! i + (1::int)]) (replicate (nat s) (n div s)) [0..<nat (n mod s)] =
        map (\<lambda>i. n div s + (if i < nat (n mod s) then 1 else 0)) [0..<nat s]"
      using foldl_incr [of "nat (n mod s)" "replicate (nat s) (n div s)"] r by simp
    also have "\<dots> = map (piece_size n s) [0..s - 1]"
      using r by (auto simp: up piece_size_def)
    finally show ?thesis using assms False by (simp add: GetShardSizeForAllRank_def)
  qed
qed

lemma sum_piece_size: "0 < s \<Longrightarrow> (\<Sum>j = 0..<s. piece_size n s j) = n"
proof -
  assume s: "0 < s"
  then have r: "0 \<le> n mod s" "n mod s < s" by auto
  have "(\<Sum>j = 0..<s. if j < n mod s then 1 else 0) = (\<Sum>j \<in> {0..<n mod s}. (1::int))"
    using r by (intro sum.mono_neutral_cong_right) auto
  then have "(\<Sum>j = 0..<s. piece_size n s j) = s * (n div s) + n mod s"
    using r s by (simp add: piece_size_def sum.distrib)
  then show ?thesis by simp
qed

text \<open>C36: \<open>GetShardSizeForAllRank\<close> cuts an axis completely into the wanted number of pieces, whose
  sizes decrease, differ by at most one and are all at least one; a smaller axis is refused.\<close>

theorem GetShardSizeForAllRank_correct:
  assumes "0 < numShard"
  shows "if numShard \<le> shapeSize
    then \<exists>sizes. GetShardSizeForAllRank shapeSize numShard = Inr sizes \<and> length sizes = nat numShard \<and>
      sum_list sizes = shapeSize \<and> sorted (rev sizes) \<and> (\<forall>x \<in> set sizes. 1 \<le> x) \<and>
      (\<forall>x \<in> set sizes. \<forall>y \<in> set sizes. \<bar>x - y\<bar> \<le> 1)
    else GetShardSizeForAllRank shapeSize numShard = Inl Abort"
proof (cases "numShard \<le> shapeSize")
  case True
  let ?xs = "map (piece_size shapeSize numShard) [0..numShard - 1]"
  have "1 \<le> shapeSize div numShard" using assms True by (simp add: pos_imp_zdiv_pos_iff int_one_le_iff_zero_less)
  then have "\<forall>x \<in> set ?xs. 1 \<le> x" by (auto simp: piece_size_def)
  moreover have "sum_list ?xs = shapeSize"
    using sum_piece_size [OF assms, of shapeSize]
    by (simp add: sum_list_distinct_conv_sum_set atLeastLessThanPlusOne_atLeastAtMost_int [symmetric])
  moreover have "sorted (rev ?xs)"
    by (auto simp: sorted_rev_iff_nth_mono nth_upto piece_size_def)
  moreover have "\<forall>x \<in> set ?xs. \<forall>y \<in> set ?xs. \<bar>x - y\<bar> \<le> 1" by (auto simp: piece_size_def)
  ultimately show ?thesis using True GetShardSizeForAllRank_eq [OF assms True] by simp
next
  case False
  then show ?thesis by (simp add: GetShardSizeForAllRank_def)
qed

theorem GetShardSizeForAllRank_correct_witness:
  "\<exists>sizes. GetShardSizeForAllRank 7 3 = Inr sizes \<and> length sizes = 3 \<and> sum_list sizes = 7 \<and> sorted (rev sizes)"
  using GetShardSizeForAllRank_correct [of 3 7] by auto

section \<open>PlacementSeq\<close>

type_synonym placement_seq = "Placement list"

definition PlacementSeq_of_strings :: "string list \<Rightarrow> placement_seq res" where
  "PlacementSeq_of_strings strs = mapR Placement_of_string strs"

definition IsAllReplicate :: "placement_seq \<Rightarrow> bool" where
  "IsAllReplicate ps \<longleftrightarrow> (if length ps = 0 then False else \<not> list_ex (\<lambda>p. \<not> IsReplicate p) ps)"

definition HasPartial :: "placement_seq \<Rightarrow> bool" where
  "HasPartial ps \<longleftrightarrow> (if length ps = 0 then False else list_ex IsPartial ps)"

definition PlacementSeq_eq :: "placement_seq \<Rightarrow> placement_seq \<Rightarrow> bool" where
  "PlacementSeq_eq a b \<longleftrightarrow> (if length a \<noteq> length b then False
     else \<not> list_ex (\<lambda>i. \<not> Placement_eq (a ! i) (b ! i)) [0..<length a])"

text \<open>The constant \<open>operator[]\<close> does not check its index.\<close>

definition Seq_at :: "placement_seq \<Rightarrow> nat \<Rightarrow> Placement res" where
  "Seq_at ps i = guardR Undefined (i < length ps) (Inr (ps ! i))"

definition PlacementSeq_ToString :: "placement_seq \<Rightarrow> string" where
  "PlacementSeq_ToString ps = ''['' @ concat (map (\<lambda>p. Placement_ToString p @ '', '') ps) @ '']''"

definition ToReplicateWhenDimSizeEqualOne :: "placement_seq \<Rightarrow> DeviceMesh \<Rightarrow> placement_seq res" where
  "ToReplicateWhenDimSizeEqualOne ps m =
     assertR (length ps = Mesh_NumAxis m)
      (foldR (\<lambda>i ps. bindR (at_int (Mesh_Shape m) (int i)) (\<lambda>d.
          Inr (if d = 1 then ps[i := Replicate] else ps)))
        [0..<Mesh_NumAxis m] ps)"

definition ShardDimToPositiveNumber :: "placement_seq \<Rightarrow> shape \<Rightarrow> placement_seq" where
  "ShardDimToPositiveNumber ps shape =
     map (\<lambda>p. if IsShard p \<and> mShardIndex p < 0 \<and> mShardIndex p \<ge> - 1 * int (NumAxis shape)
       then Shard (mShardIndex p + int (NumAxis shape)) (- 1) else p) ps"

definition GetDiffDims :: "placement_seq \<Rightarrow> placement_seq \<Rightarrow> nat list res" where
  "GetDiffDims ps other =
     assertR (length ps = length other)
      (foldR (\<lambda>i result. bindR (Seq_at ps i) (\<lambda>a. bindR (Seq_at other i) (\<lambda>b.
          Inr (if \<not> Placement_eq a b then result @ [i] else result)))) [0..<length ps] [])"

definition GetConvertOrder :: "placement_seq \<Rightarrow> placement_seq \<Rightarrow> nat list res" where
  "GetConvertOrder ps destPlacements =
     bindR (foldR (\<lambda>i (b2f, result). bindR (Seq_at destPlacements i) (\<lambda>placementB.
         let placementA = ps ! i in
         Inr (if IsShard placementA \<and> IsReplicate placementB then (b2f @ [i], result)
              else if \<not> Placement_eq placementA placementB then (b2f, result @ [i])
              else (b2f, result))))
       [0..<length ps] ([], []))
      (\<lambda>(b2f, result). Inr (result @ rev b2f))"

lemma PlacementSeq_eq_iff [simp]: "PlacementSeq_eq a b \<longleftrightarrow> a = b"
proof -
  have "length a = length b \<Longrightarrow> list_all (\<lambda>i. a ! i = b ! i) [0..<length a] \<longleftrightarrow> a = b"
    by (subst list_eq_iff_nth_eq [of a b]) (auto simp: list_all_iff)
  then show ?thesis by (auto simp: PlacementSeq_eq_def list_ex_iff list_all_iff)
qed

lemma IsAllReplicate_iff: "IsAllReplicate ps \<longleftrightarrow> ps \<noteq> [] \<and> (\<forall>p \<in> set ps. IsReplicate p)"
  by (auto simp: IsAllReplicate_def list_ex_iff)

lemma HasPartial_iff: "HasPartial ps \<longleftrightarrow> (\<exists>p \<in> set ps. IsPartial p)"
  by (auto simp: HasPartial_def list_ex_iff)

lemma Seq_at_Inr [simp]: "i < length ps \<Longrightarrow> Seq_at ps i = Inr (ps ! i)"
  by (simp add: Seq_at_def)

lemma PlacementSeq_of_strings_wf:
  "PlacementSeq_of_strings strs = Inr ps \<Longrightarrow> list_all Placement_wf ps"
  by (auto simp: PlacementSeq_of_strings_def mapR_eq_Inr list_all_length intro: Placement_of_string_wf)

lemma ToReplicateWhenDimSizeEqualOne_eq:
  assumes "length ps = Mesh_NumAxis m"
  shows "ToReplicateWhenDimSizeEqualOne ps m =
    Inr (map (\<lambda>i. if Mesh_Shape m ! i = 1 then Replicate else ps ! i) [0..<length ps])"
proof -
  let ?f = "\<lambda>i ps. bindR (at_int (Mesh_Shape m) (int i)) (\<lambda>d. Inr (if d = 1 then ps[i := Replicate] else ps))"
  have "foldR ?f [0..<k] ps =
      Inr (map (\<lambda>i. if i < k \<and> Mesh_Shape m ! i = 1 then Replicate else ps ! i) [0..<length ps])"
    if "k \<le> length ps" for k
    using that
  proof (induction k)
    case 0
    then show ?case by (simp add: map_nth)
  next
    case (Suc k)
    then show ?case using assms
      by (auto simp: foldR_append at_int_nonneg intro!: nth_equalityI simp: nth_list_update less_Suc_eq)
  qed
  from this [of "length ps"] assms show ?thesis
    by (auto simp: ToReplicateWhenDimSizeEqualOne_def)
qed

text \<open>The mesh axes to convert, and among them those to gather.\<close>

definition gathers :: "placement_seq \<Rightarrow> placement_seq \<Rightarrow> nat \<Rightarrow> bool" where
  "gathers ps qs i \<longleftrightarrow> IsShard (ps ! i) \<and> IsReplicate (qs ! i)"

definition differs :: "placement_seq \<Rightarrow> placement_seq \<Rightarrow> nat \<Rightarrow> bool" where
  "differs ps qs i \<longleftrightarrow> ps ! i \<noteq> qs ! i"

lemma GetDiffDims_eq:
  assumes "length ps = length qs"
  shows "GetDiffDims ps qs = Inr (filter (differs ps qs) [0..<length ps])"
proof -
  let ?f = "\<lambda>i result. bindR (Seq_at ps i) (\<lambda>a. bindR (Seq_at qs i) (\<lambda>b.
    Inr (if \<not> Placement_eq a b then result @ [i] else result)))"
  have "foldR ?f [0..<k] [] = Inr (filter (differs ps qs) [0..<k])" if "k \<le> length ps" for k
    using that assms by (induction k) (auto simp: foldR_append differs_def)
  with assms show ?thesis by (simp add: GetDiffDims_def)
qed

lemma GetConvertOrder_eq:
  assumes "length ps = length qs"
  shows "GetConvertOrder ps qs = Inr (filter (\<lambda>i. differs ps qs i \<and> \<not> gathers ps qs i) [0..<length ps] @
    rev (filter (gathers ps qs) [0..<length ps]))"
proof -
  let ?f = "\<lambda>i (b2f, result). bindR (Seq_at qs i) (\<lambda>placementB.
     let placementA = ps ! i in
     Inr (if IsShard placementA \<and> IsReplicate placementB then (b2f @ [i], result)
          else if \<not> Placement_eq placementA placementB then (b2f, result @ [i])
          else (b2f, result)))"
  have "foldR ?f [0..<k] ([], []) = Inr (filter (gathers ps qs) [0..<k],
      filter (\<lambda>i. differs ps qs i \<and> \<not> gathers ps qs i) [0..<k])" if "k \<le> length ps" for k
    using that assms by (induction k) (auto simp: foldR_append differs_def gathers_def Let_def)
  with assms show ?thesis by (simp add: GetConvertOrder_def)
qed

text \<open>Converting the mesh axes of \<open>order\<close> one after the other.\<close>

definition convert_steps :: "placement_seq \<Rightarrow> placement_seq \<Rightarrow> nat list \<Rightarrow> placement_seq" where
  "convert_steps ps qs order = foldl (\<lambda>cur i. cur[i := qs ! i]) ps order"

lemma length_convert_steps [simp]: "length (convert_steps ps qs order) = length ps"
  by (induction order rule: rev_induct) (auto simp: convert_steps_def)

lemma nth_convert_steps: "i < length ps \<Longrightarrow>
    convert_steps ps qs order ! i = (if i \<in> set order then qs ! i else ps ! i)"
proof (induction order rule: rev_induct)
  case Nil
  then show ?case by (simp add: convert_steps_def)
next
  case (snoc k order)
  have "convert_steps ps qs (order @ [k]) = (convert_steps ps qs order)[k := qs ! k]"
    by (simp add: convert_steps_def)
  with snoc show ?case by (cases "k = i") auto
qed

lemma Placement_wf_flags: "Placement_wf p \<Longrightarrow> IsShard p \<Longrightarrow> \<not> IsReplicate p"
  by (cases p rule: Placement_wf_cases) auto

lemma gathers_differs:
  "list_all Placement_wf ps \<Longrightarrow> i < length ps \<Longrightarrow> gathers ps qs i \<Longrightarrow> differs ps qs i"
  using Placement_wf_flags [of "ps ! i"] by (auto simp: gathers_def differs_def list_all_length)

lemma append_split_first:
  "xs @ ys = pre @ i # post \<Longrightarrow> i \<notin> set xs \<Longrightarrow> \<exists>zs. pre = xs @ zs \<and> ys = zs @ i # post"
proof (induction xs arbitrary: pre)
  case Nil
  then show ?case by simp
next
  case (Cons x xs)
  then show ?case by (cases pre) auto
qed

lemma filter_upt_later:
  assumes "filter P [0..<n] = xs @ i # ys" and "i < j" and "j < n" and "P j"
  shows "j \<in> set ys"
proof -
  have "sorted_wrt (<) (filter P [0..<n])" by (rule sorted_wrt_filter) (rule sorted_wrt_upt)
  with assms(1) have "\<forall>k \<in> set xs. k < i" by (auto simp: sorted_wrt_append)
  moreover have "j \<in> set (filter P [0..<n])" using assms(3,4) by simp
  then have "j \<in> set (xs @ i # ys)" unfolding assms(1) .
  ultimately show ?thesis using assms(2) by auto
qed

lemma convert_order_gather_step:
  assumes "length ps = length qs" and "i < j" and "j < length ps"
    and "filter (gathers ps qs) [0..<length ps] = ys @ i # xs"
  shows "convert_steps ps qs (filter (\<lambda>i. differs ps qs i \<and> \<not> gathers ps qs i) [0..<length ps] @ rev xs) ! j = qs ! j"
proof (cases "gathers ps qs j")
  case True
  with filter_upt_later [OF assms(4,2,3)] have "j \<in> set xs" by simp
  with assms(3) show ?thesis by (simp add: nth_convert_steps)
next
  case False
  with assms(3) show ?thesis by (simp add: nth_convert_steps differs_def)
qed

text \<open>C34: \<open>GetConvertOrder\<close> lists every mesh axis on which the two sequences differ exactly once: first the axes
  that are not gathered, from the first to the last, then the axes to gather (sharded to replicated), from the last
  to the first.  Converting the axes in that order gives the destination, and when an axis is gathered every later
  mesh axis already has its destination placement.\<close>

theorem GetConvertOrder_correct:
  assumes "length ps = length qs" and "list_all Placement_wf ps"
  shows "\<exists>order diff. GetConvertOrder ps qs = Inr order \<and> GetDiffDims ps qs = Inr diff \<and>
    distinct order \<and> set order = set diff \<and> convert_steps ps qs order = qs \<and>
    (\<exists>others gathered. order = others @ gathered \<and>
      (\<forall>i \<in> set others. \<not> gathers ps qs i) \<and> (\<forall>i \<in> set gathered. gathers ps qs i) \<and>
      sorted_wrt (<) others \<and> sorted_wrt (>) gathered) \<and>
    (\<forall>pre i post j. order = pre @ i # post \<longrightarrow> gathers ps qs i \<longrightarrow> i < j \<longrightarrow> j < length ps \<longrightarrow>
      convert_steps ps qs pre ! j = qs ! j)"
proof -
  let ?n = "length ps"
  let ?s = "filter (\<lambda>i. differs ps qs i \<and> \<not> gathers ps qs i) [0..<?n]"
  let ?g = "filter (gathers ps qs) [0..<?n]"
  let ?order = "?s @ rev ?g"
  have set_order: "set ?order = {i. i < ?n \<and> differs ps qs i}"
    using gathers_differs [OF assms(2)] by auto
  have steps: "convert_steps ps qs pre ! j = qs ! j"
    if o: "?order = pre @ i # post" and g: "gathers ps qs i" and ij: "i < j" "j < ?n" for pre i post j
  proof -
    have "i \<notin> set ?s" using g by simp
    with append_split_first [OF o] obtain xs where pre: "pre = ?s @ xs" "rev ?g = xs @ i # post"
      by blast
    from arg_cong [OF pre(2), of rev] have "?g = rev post @ i # rev xs" by simp
    from convert_order_gather_step [OF assms(1) ij this] pre(1) show ?thesis by simp
  qed
  have "convert_steps ps qs ?order = qs"
    using assms(1) set_order by (intro nth_equalityI) (auto simp: nth_convert_steps differs_def simp del: set_append)
  moreover have "distinct ?order" by auto
  moreover have "set ?order = set (filter (differs ps qs) [0..<?n])" unfolding set_order by auto
  moreover have "\<exists>others gathered. ?order = others @ gathered \<and>
      (\<forall>i \<in> set others. \<not> gathers ps qs i) \<and> (\<forall>i \<in> set gathered. gathers ps qs i) \<and>
      sorted_wrt (<) others \<and> sorted_wrt (>) gathered"
    by (intro exI [of _ ?s] exI [of _ "rev ?g"]) (auto simp: sorted_wrt_rev intro!: sorted_wrt_filter)
  ultimately show ?thesis
    using GetConvertOrder_eq [OF assms(1)] GetDiffDims_eq [OF assms(1)] steps by blast
qed

theorem GetConvertOrder_correct_witness:
  "GetConvertOrder [Shard 0 (- 1), Replicate, Shard 0 (- 1)] [Replicate, Shard 1 (- 1), Replicate] = Inr [1, 2, 0] \<and>
   convert_steps [Shard 0 (- 1), Replicate, Shard 0 (- 1)] [Replicate, Shard 1 (- 1), Replicate] [1, 2, 0] =
     [Replicate, Shard 1 (- 1), Replicate]"
proof -
  have "GetConvertOrder [Shard 0 (- 1), Replicate, Shard 0 (- 1)] [Replicate, Shard 1 (- 1), Replicate] = Inr [1, 2, 0]"
    by (simp add: GetConvertOrder_eq differs_def gathers_def upt_rec)
  with GetConvertOrder_correct [of "[Shard 0 (- 1), Replicate, Shard 0 (- 1)]" "[Replicate, Shard 1 (- 1), Replicate]"]
  show ?thesis by auto
qed

section \<open>Sharing of the vector\<close>

text \<open>
  \<open>mData\<close> is a \<open>shared_ptr\<close>: a copy of a sequence shares its vector.  The store holds the vectors, a
  sequence object is the index of its vector.  \<open>operator[]\<close> on a non-constant sequence gives the object
  a vector of its own first; \<open>ToReplicateWhenDimSizeEqualOne\<close> and \<open>ShardDimToPositiveNumber\<close> write
  into the shared one.
\<close>

type_synonym seq_store = "placement_seq list"

definition Store_new :: "seq_store \<Rightarrow> placement_seq \<Rightarrow> seq_store \<times> nat" where
  "Store_new h ps = (h @ [ps], length h)"

definition Store_copy :: "seq_store \<Rightarrow> nat \<Rightarrow> seq_store \<times> nat" where
  "Store_copy h r = (h, r)"

definition Store_assign_at :: "seq_store \<Rightarrow> nat \<Rightarrow> nat \<Rightarrow> Placement \<Rightarrow> (seq_store \<times> nat) res" where
  "Store_assign_at h r index p =
     (let (h', r') = Store_new h (h ! r) in
      guardR Undefined (index < length (h' ! r')) (Inr (h'[r' := (h' ! r')[index := p]], r')))"

definition Store_ToReplicate :: "seq_store \<Rightarrow> nat \<Rightarrow> DeviceMesh \<Rightarrow> (seq_store \<times> nat) res" where
  "Store_ToReplicate h r m = bindR (ToReplicateWhenDimSizeEqualOne (h ! r) m) (\<lambda>ps. Inr (h[r := ps], r))"

definition Store_ShardDimToPositive :: "seq_store \<Rightarrow> nat \<Rightarrow> shape \<Rightarrow> seq_store \<times> nat" where
  "Store_ShardDimToPositive h r shape = (h[r := ShardDimToPositiveNumber (h ! r) shape], r)"

text \<open>An assignment through \<open>operator[]\<close> changes the object it is applied to and is seen through
  no other object, whereas \<open>ShardDimToPositiveNumber\<close> is seen through every object that shares the
  vector, and through no other.\<close>

theorem PlacementSeq_sharing:
  assumes "r < length h"
  shows "(\<forall>i < length (h ! r). \<exists>h' r'. Store_assign_at h r i p = Inr (h', r') \<and>
      h' ! r' = (h ! r)[i := p] \<and> r' \<notin> {..<length h} \<and> (\<forall>s < length h. h' ! s = h ! s)) \<and>
    (\<forall>s < length h. fst (Store_ShardDimToPositive h r shape) ! s =
      (if snd (Store_copy h r) = s then ShardDimToPositiveNumber (h ! r) shape else h ! s))"
  using assms
  by (auto simp: Store_assign_at_def Store_new_def Store_ShardDimToPositive_def Store_copy_def
      nth_append nth_list_update)

theorem PlacementSeq_sharing_witness:
  "\<exists>h' r'. Store_assign_at [[Replicate]] 0 0 Partial = Inr (h', r') \<and> h' ! r' = [Partial] \<and> h' ! 0 = [Replicate]"
  using PlacementSeq_sharing [of 0 "[[Replicate]]" Partial] by fastforce

end
