(* ===== verification/DistributedSpecs.thy ===== *)
theory DistributedSpecs
  imports Placements "HOL-Library.FuncSet"
begin

text \<open>
  \<open>struct DistributedSpec\<close> of src/dtorch/api/cpp/distributed_spec.{h,cc}: the validity of a tensor's
  layout, the mesh axes that cut every tensor axis, and the local shape of every device.  The
  unordered maps of the code are association lists here; \<open>ComputeLocalShape\<close> takes the shard infos in
  any order, since the code iterates over an unordered map.  Sizes are unbounded integers; a
  comparison or a division that C++ does in \<open>size_t\<close> first passes through \<open>as_size_t\<close>.
\<close>

definition as_size_t :: "int \<Rightarrow> int" where
  "as_size_t x = (if x < 0 then x + 2 ^ 64 else x)"

lemma as_size_t_nonneg [simp]: "0 \<le> x \<Longrightarrow> as_size_t x = x"
  by (simp add: as_size_t_def)

section \<open>Shard infos\<close>

record ShardInfo =
  shardDim :: nat
  shardSize :: int
  meshDims :: "nat set"

definition AddShardAxis :: "shape \<Rightarrow> placement_seq \<Rightarrow> nat \<Rightarrow> (nat \<times> ShardInfo) list \<Rightarrow>
    (nat \<times> ShardInfo) list res" where
  "AddShardAxis meshShape ps i resultMap =
     bindR (Seq_at ps i) (\<lambda>p.
       if IsShard p then
         bindR (GetShardIndex p) (\<lambda>shardIndex.
           assertR (shardIndex \<ge> 0)
            (bindR (at_int meshShape (int i)) (\<lambda>d.
              (case map_of resultMap (nat shardIndex) of
                 None \<Rightarrow> Inr (AList.update (nat shardIndex)
                   \<lparr>shardDim = nat shardIndex, shardSize = d, meshDims = {i}\<rparr> resultMap)
               | Some shardInfo \<Rightarrow>
                   assertR (shardDim shardInfo = nat shardIndex)
                     (Inr (AList.update (nat shardIndex)
                       (shardInfo\<lparr>shardSize := shardSize shardInfo * d,
                         meshDims := insert i (meshDims shardInfo)\<rparr>) resultMap))))))
       else Inr resultMap)"

definition GetShardInfo :: "DeviceMesh \<Rightarrow> placement_seq \<Rightarrow> ShardInfo list res" where
  "GetShardInfo m ps =
     assertR (Mesh_NumAxis m = length ps)
      (bindR (foldR (AddShardAxis (Mesh_Shape m) ps) [0..<Mesh_NumAxis m] [])
        (\<lambda>resultMap. Inr (map snd resultMap)))"

text \<open>The mesh axes that cut the tensor axis \<open>d\<close>, and the number of pieces.\<close>

definition shard_axes :: "placement_seq \<Rightarrow> nat \<Rightarrow> nat set" where
  "shard_axes ps d = {i. i < length ps \<and> IsShardAt (ps ! i) (int d)}"

definition shard_count :: "shape \<Rightarrow> placement_seq \<Rightarrow> nat \<Rightarrow> int" where
  "shard_count ms ps d = (\<Prod>i \<in> shard_axes ps d. ms ! i)"

definition shard_info :: "shape \<Rightarrow> placement_seq \<Rightarrow> nat \<Rightarrow> ShardInfo" where
  "shard_info ms ps d = \<lparr>shardDim = d, shardSize = shard_count ms ps d, meshDims = shard_axes ps d\<rparr>"

definition sharded_dims :: "placement_seq \<Rightarrow> nat set" where
  "sharded_dims ps = {d. shard_axes ps d \<noteq> {}}"

definition shards_nonneg :: "placement_seq \<Rightarrow> bool" where
  "shards_nonneg ps \<longleftrightarrow> list_all (\<lambda>p. IsShard p \<longrightarrow> 0 \<le> mShardIndex p) ps"

lemma shard_axes_code [code]: "shard_axes ps d = set (filter (\<lambda>i. IsShardAt (ps ! i) (int d)) [0..<length ps])"
  by (auto simp: shard_axes_def)

lemma finite_shard_axes [simp]: "finite (shard_axes ps d)"
  by (simp add: shard_axes_def)

lemma shard_axes_bound: "shard_axes ps d \<subseteq> {..<length ps}"
  by (auto simp: shard_axes_def)

lemma shard_axes_disjoint: "d \<noteq> e \<Longrightarrow> shard_axes ps d \<inter> shard_axes ps e = {}"
  by (auto simp: shard_axes_def IsShardAt_def)

lemma shard_axes_snoc: "shard_axes (ps @ [p]) d =
    (if IsShardAt p (int d) then insert (length ps) (shard_axes ps d) else shard_axes ps d)"
  by (auto simp: shard_axes_def nth_append less_Suc_eq)

lemma shard_count_snoc: "shard_count ms (ps @ [p]) d =
    (if IsShardAt p (int d) then shard_count ms ps d * ms ! length ps else shard_count ms ps d)"
proof -
  have "length ps \<notin> shard_axes ps d" using shard_axes_bound [of ps d] by auto
  then show ?thesis by (simp add: shard_count_def shard_axes_snoc mult.commute)
qed

lemma map_of_keyed: "distinct ds \<Longrightarrow> map_of (map (\<lambda>d. (d, f d)) ds) k = (if k \<in> set ds then Some (f k) else None)"
  by (induction ds) auto

lemma update_keyed: "distinct ds \<Longrightarrow> AList.update k v (map (\<lambda>d. (d, f d)) ds) =
    map (\<lambda>d. (d, (f(k := v)) d)) (if k \<in> set ds then ds else ds @ [k])"
  by (induction ds) auto

lemma GetShardInfo_fold:
  assumes "shards_nonneg ps" and "length ms = length ps" and "k \<le> length ps"
  shows "\<exists>ds. distinct ds \<and> set ds = sharded_dims (take k ps) \<and>
    foldR (AddShardAxis ms ps) [0..<k] [] = Inr (map (\<lambda>d. (d, shard_info ms (take k ps) d)) ds)"
  using assms(3)
proof (induction k)
  case 0
  have "sharded_dims (take 0 ps) = {}" by (auto simp: sharded_dims_def shard_axes_def)
  then show ?case by (intro exI [of _ "[]"]) simp
next
  case (Suc k)
  then obtain ds where ds: "distinct ds" "set ds = sharded_dims (take k ps)"
    "foldR (AddShardAxis ms ps) [0..<k] [] = Inr (map (\<lambda>d. (d, shard_info ms (take k ps) d)) ds)" by auto
  from Suc.prems have k: "k < length ps" by simp
  let ?p = "ps ! k"
  let ?t = "take k ps"
  have t: "take (Suc k) ps = ?t @ [?p]" using k by (rule take_Suc_conv_app_nth)
  show ?case
  proof (cases "IsShard ?p")
    case False
    then have "shard_axes (take (Suc k) ps) d = shard_axes ?t d" for d
      by (simp add: t shard_axes_snoc IsShardAt_def)
    moreover from False k have "AddShardAxis ms ps k r = Inr r" for r by (simp add: AddShardAxis_def)
    ultimately show ?thesis using ds
      by (intro exI [of _ ds]) (simp add: foldR_append sharded_dims_def shard_info_def shard_count_def)
  next
    case True
    let ?d = "nat (mShardIndex ?p)"
    from True assms(1) k have nn: "0 \<le> mShardIndex ?p" by (simp add: shards_nonneg_def list_all_length)
    have at: "IsShardAt ?p (int e) \<longleftrightarrow> e = ?d" for e using True nn by (auto simp: IsShardAt_def)
    have ax: "shard_axes (take (Suc k) ps) e = (if e = ?d then insert k (shard_axes ?t e) else shard_axes ?t e)"
      for e using k by (simp add: t shard_axes_snoc at)
    have cnt: "shard_count ms (take (Suc k) ps) e =
        (if e = ?d then shard_count ms ?t e * ms ! k else shard_count ms ?t e)" for e
      using k by (simp add: t shard_count_snoc at)
    let ?g = "(\<lambda>e. shard_info ms ?t e)(?d := shard_info ms (take (Suc k) ps) ?d)"
    have g: "?g = shard_info ms (take (Suc k) ps)" by (rule ext) (simp add: shard_info_def ax cnt)
    let ?ds = "if ?d \<in> set ds then ds else ds @ [?d]"
    have "sharded_dims (take (Suc k) ps) = insert ?d (sharded_dims ?t)"
      by (auto simp: sharded_dims_def ax)
    then have set: "set ?ds = sharded_dims (take (Suc k) ps)" using ds(2) by auto
    have "AddShardAxis ms ps k (map (\<lambda>d. (d, shard_info ms ?t d)) ds) = Inr (map (\<lambda>d. (d, ?g d)) ?ds)"
    proof (cases "?d \<in> set ds")
      case True
      then have "AddShardAxis ms ps k (map (\<lambda>d. (d, shard_info ms ?t d)) ds) =
        Inr (AList.update ?d (shard_info ms (take (Suc k) ps) ?d) (map (\<lambda>d. (d, shard_info ms ?t d)) ds))"
        using \<open>IsShard ?p\<close> nn k assms(2) ds(1)
        by (simp add: AddShardAxis_def GetShardIndex_def at_int_nonneg map_of_keyed shard_info_def ax cnt)
      with True show ?thesis by (simp add: update_keyed [OF ds(1)] del: fun_upd_apply)
    next
      case False
      then have "shard_axes ?t ?d = {}" using ds(2) by (auto simp: sharded_dims_def)
      then have "shard_count ms ?t ?d = 1" by (simp add: shard_count_def)
      with False have "AddShardAxis ms ps k (map (\<lambda>d. (d, shard_info ms ?t d)) ds) =
        Inr (AList.update ?d (shard_info ms (take (Suc k) ps) ?d) (map (\<lambda>d. (d, shard_info ms ?t d)) ds))"
        using \<open>IsShard ?p\<close> nn k assms(2) ds(1) \<open>shard_axes ?t ?d = {}\<close>
        by (simp add: AddShardAxis_def GetShardIndex_def at_int_nonneg map_of_keyed shard_info_def ax cnt)
      with False show ?thesis by (simp add: update_keyed [OF ds(1)] del: fun_upd_apply)
    qed
    then have "foldR (AddShardAxis ms ps) [0..<Suc k] [] =
        Inr (map (\<lambda>d. (d, shard_info ms (take (Suc k) ps) d)) ?ds)"
      using ds(3) by (simp add: foldR_append g del: fun_upd_apply)
    moreover have "distinct ?ds" using ds(1) by simp
    ultimately show ?thesis using set by blast
  qed
qed

lemma GetShardInfo_eq:
  assumes "shards_nonneg ps" and "Mesh_NumAxis m = length ps"
  obtains ds where "distinct ds" and "set ds = sharded_dims ps"
    and "GetShardInfo m ps = Inr (map (shard_info (Mesh_Shape m) ps) ds)"
proof -
  from GetShardInfo_fold [OF assms(1), of "Mesh_Shape m" "length ps"] assms(2)
  obtain ds where "distinct ds" "set ds = sharded_dims ps"
    "foldR (AddShardAxis (Mesh_Shape m) ps) [0..<length ps] [] = Inr (map (\<lambda>d. (d, shard_info (Mesh_Shape m) ps d)) ds)"
    by auto
  with assms(2) show ?thesis by (intro that [of ds]) (simp_all add: GetShardInfo_def comp_def)
qed

text \<open>\<open>GetShardInfo\<close> returns one info for every tensor axis that is sharded, with all the mesh
  axes that shard it and the product of their sizes.\<close>

theorem GetShardInfo_correct:
  assumes "shards_nonneg ps" and "Mesh_NumAxis m = length ps"
  shows "\<exists>infos. GetShardInfo m ps = Inr infos \<and> distinct (map shardDim infos) \<and>
    set infos = {\<lparr>shardDim = d, shardSize = (\<Prod>i \<in> shard_axes ps d. Mesh_Shape m ! i), meshDims = shard_axes ps d\<rparr>
      | d. shard_axes ps d \<noteq> {}}"
proof -
  obtain ds where "distinct ds" "set ds = sharded_dims ps"
    "GetShardInfo m ps = Inr (map (shard_info (Mesh_Shape m) ps) ds)"
    by (rule GetShardInfo_eq [OF assms])
  then show ?thesis
    by (intro exI [of _ "map (shard_info (Mesh_Shape m) ps) ds"])
      (auto simp: shard_info_def comp_def sharded_dims_def shard_count_def)
qed

theorem GetShardInfo_correct_witness:
  "\<exists>m infos. DeviceMesh_of_SimpleArray kGpu \<lparr>mShape = [2, 3], mDimensionNamesMap = [], mData = [0, 1, 2, 3, 4, 5],
      mDataSet = {0, 1, 2, 3, 4, 5}\<rparr> = m \<and> GetShardInfo m [Shard 1 (- 1), Shard 1 (- 1)] = Inr infos \<and>
    \<lparr>shardDim = 1, shardSize = 6, meshDims = {0, 1}\<rparr> \<in> set infos"
proof -
  let ?ps = "[Shard 1 (- 1), Shard 1 (- 1)]"
  let ?m = "DeviceMesh_of_SimpleArray kGpu \<lparr>mShape = [2, 3], mDimensionNamesMap = [], mData = [0, 1, 2, 3, 4, 5],
      mDataSet = {0, 1, 2, 3, 4, 5}\<rparr>"
  have ax: "shard_axes ?ps 1 = {0, 1}"
    by (auto simp: shard_axes_def IsShardAt_def less_2_cases_iff)
  have "shards_nonneg ?ps" "Mesh_NumAxis ?m = length ?ps"
    by (simp_all add: shards_nonneg_def DeviceMesh_of_SimpleArray_def)
  from GetShardInfo_correct [OF this] obtain infos where infos: "GetShardInfo ?m ?ps = Inr infos"
    "set infos = {\<lparr>shardDim = d, shardSize = (\<Prod>i \<in> shard_axes ?ps d. Mesh_Shape ?m ! i), meshDims = shard_axes ?ps d\<rparr>
      | d. shard_axes ?ps d \<noteq> {}}" by blast
  have "\<lparr>shardDim = 1, shardSize = 6, meshDims = {0, 1}\<rparr> \<in> set infos"
    unfolding infos(2) using ax by (auto intro!: exI [of _ 1] simp: DeviceMesh_of_SimpleArray_def)
  with infos(1) show ?thesis by blast
qed

section \<open>Validity\<close>

definition CheckDeviceIdValid :: "DeviceMesh \<Rightarrow> int \<Rightarrow> bool" where
  "CheckDeviceIdValid m totalGpuCount =
     (if mDeviceKind m = kCpu then True else \<not> (\<exists>i \<in> GetDeviceIdSet m. i \<ge> totalGpuCount))"

definition CheckShapeValid :: "shape \<Rightarrow> DeviceMesh \<Rightarrow> placement_seq \<Rightarrow> bool res" where
  "CheckShapeValid shape m ps =
     bindR (GetShardInfo m ps)
      (allR (\<lambda>info. bindR (at_nat shape (shardDim info)) (\<lambda>size. Inr (\<not> size < shardSize info))))"

definition CheckValid_axis :: "shape \<Rightarrow> DeviceMesh \<Rightarrow> placement_seq \<Rightarrow> nat \<Rightarrow> bool res" where
  "CheckValid_axis shape m ps i =
     bindR (Seq_at ps i) (\<lambda>p.
       if IsShard p then
         bindR (GetShardIndex p) (\<lambda>shardIdx.
         bindR (GetSubSplitCoordinates p) (\<lambda>subSplitCoordinates.
           if shardIdx < 0 then Inr False
           else if shardIdx \<ge> int (NumAxis shape) then Inr False
           else bindR (at_nat (Mesh_Shape m) i) (\<lambda>shardSize.
             if shardSize < 2 then Inr False
             else if subSplitCoordinates \<noteq> - 1 \<and> subSplitCoordinates < 0 then Inr False
             else Inr True)))
       else Inr True)"

definition CheckValid :: "shape \<Rightarrow> DeviceMesh \<Rightarrow> placement_seq \<Rightarrow> int \<Rightarrow> bool res" where
  "CheckValid shape m ps totalGpuCount =
     (if IsNullTensorShape shape then Inr True
      else if length ps \<le> 0 then Inr False
      else if \<not> CheckDeviceIdValid m totalGpuCount then Inr False
      else if Mesh_NumAxis m \<noteq> length ps then Inr False
      else bindR (if Mesh_Count m = 1 then bindR (Seq_at ps 0) (\<lambda>p. Inr (\<not> IsReplicate p)) else Inr False)
       (\<lambda>bad. if bad then Inr False
         else if card (GetDeviceIdSet m) \<noteq> length (mData (mMesh m)) then Inr False
         else bindR (allR (CheckValid_axis shape m ps) [0..<Mesh_NumAxis m]) (\<lambda>ok.
           if \<not> ok then Inr False
           else bindR (CheckShapeValid shape m ps) (\<lambda>ok. if \<not> ok then Inr False else Inr True))))"

text \<open>What a valid layout satisfies.\<close>

definition layout_ok :: "shape \<Rightarrow> DeviceMesh \<Rightarrow> placement_seq \<Rightarrow> bool" where
  "layout_ok shape m ps \<longleftrightarrow> Mesh_wf m \<and> Mesh_NumAxis m = length ps \<and>
     (\<forall>i < length ps. IsShard (ps ! i) \<longrightarrow> 0 \<le> mShardIndex (ps ! i) \<and>
        mShardIndex (ps ! i) < int (length shape) \<and> 2 \<le> Mesh_Shape m ! i) \<and>
     (\<forall>d < length shape. shard_axes ps d \<noteq> {} \<longrightarrow> shard_count (Mesh_Shape m) ps d \<le> shape ! d)"

lemma sharded_dims_bound:
  assumes "\<forall>i < length ps. IsShard (ps ! i) \<longrightarrow> 0 \<le> mShardIndex (ps ! i) \<and> mShardIndex (ps ! i) < int (length shape)"
  shows "d \<in> sharded_dims ps \<Longrightarrow> d < length shape"
proof -
  assume "d \<in> sharded_dims ps"
  then obtain i where "i < length ps" "IsShard (ps ! i)" "mShardIndex (ps ! i) = int d"
    by (auto simp: sharded_dims_def shard_axes_def IsShardAt_def)
  with assms show ?thesis by force
qed

lemma CheckShapeValid_eq:
  assumes "shards_nonneg ps" and "Mesh_NumAxis m = length ps" and "sharded_dims ps \<subseteq> {..<length shape}"
  shows "CheckShapeValid shape m ps =
    Inr (\<forall>d \<in> sharded_dims ps. shard_count (Mesh_Shape m) ps d \<le> shape ! d)"
proof -
  obtain ds where ds: "distinct ds" "set ds = sharded_dims ps"
    "GetShardInfo m ps = Inr (map (shard_info (Mesh_Shape m) ps) ds)" by (rule GetShardInfo_eq [OF assms(1,2)])
  have "allR (\<lambda>info. bindR (at_nat shape (shardDim info)) (\<lambda>size. Inr (\<not> size < shardSize info)))
      (map (shard_info (Mesh_Shape m) ps) ds) =
    Inr (list_all (\<lambda>info. \<not> shape ! shardDim info < shardSize info) (map (shard_info (Mesh_Shape m) ps) ds))"
    using assms(3) ds(2) by (intro allR_total) (auto simp: shard_info_def)
  then show ?thesis using ds by (simp add: CheckShapeValid_def list_all_iff shard_info_def not_less)
qed

lemma CheckValid_axis_eq:
  assumes "i < length ps" and "Mesh_NumAxis m = length ps"
  shows "CheckValid_axis shape m ps i = Inr (IsShard (ps ! i) \<longrightarrow> 0 \<le> mShardIndex (ps ! i) \<and>
    mShardIndex (ps ! i) < int (length shape) \<and> 2 \<le> Mesh_Shape m ! i \<and> - 1 \<le> mSubSplitCoordinates (ps ! i))"
  using assms by (auto simp: CheckValid_axis_def GetShardIndex_def GetSubSplitCoordinates_def)

lemma CheckValid_axes:
  assumes "Mesh_NumAxis m = length ps"
  shows "allR (CheckValid_axis shape m ps) [0..<Mesh_NumAxis m] =
    Inr (\<forall>i < length ps. IsShard (ps ! i) \<longrightarrow> 0 \<le> mShardIndex (ps ! i) \<and>
      mShardIndex (ps ! i) < int (length shape) \<and> 2 \<le> Mesh_Shape m ! i \<and> - 1 \<le> mSubSplitCoordinates (ps ! i))"
proof -
  have "allR (CheckValid_axis shape m ps) [0..<length ps] = Inr (list_all (\<lambda>i. IsShard (ps ! i) \<longrightarrow> 0 \<le> mShardIndex (ps ! i) \<and>
      mShardIndex (ps ! i) < int (length shape) \<and> 2 \<le> Mesh_Shape m ! i \<and> - 1 \<le> mSubSplitCoordinates (ps ! i)) [0..<length ps])"
    by (rule allR_total) (rule CheckValid_axis_eq, use assms in auto)
  then show ?thesis using assms by (simp add: list_all_iff Ball_def)
qed

lemma CheckValid_iff:
  assumes "Mesh_wf m" and "\<not> IsNullTensorShape shape"
  shows "CheckValid shape m ps totalGpuCount = Inr (ps \<noteq> [] \<and>
    (mDeviceKind m \<noteq> kCpu \<longrightarrow> (\<forall>i \<in> set (mData (mMesh m)). i < totalGpuCount)) \<and>
    (Mesh_Count m = 1 \<longrightarrow> IsReplicate (ps ! 0)) \<and>
    (\<forall>p \<in> set ps. IsShard p \<longrightarrow> - 1 \<le> mSubSplitCoordinates p) \<and> layout_ok shape m ps)"
proof -
  from assms(1) have wf: "GetDeviceIdSet m = set (mData (mMesh m))"
    "card (set (mData (mMesh m))) = length (mData (mMesh m))"
    by (auto simp: Mesh_wf_def SimpleArray_wf_def distinct_card)
  let ?axes = "\<forall>i < length ps. IsShard (ps ! i) \<longrightarrow> 0 \<le> mShardIndex (ps ! i) \<and>
      mShardIndex (ps ! i) < int (length shape) \<and> 2 \<le> Mesh_Shape m ! i \<and> - 1 \<le> mSubSplitCoordinates (ps ! i)"
  let ?gpus = "mDeviceKind m \<noteq> kCpu \<longrightarrow> (\<forall>i \<in> set (mData (mMesh m)). i < totalGpuCount)"
  have dev: "CheckDeviceIdValid m totalGpuCount = ?gpus"
    by (auto simp: CheckDeviceIdValid_def wf(1) not_le)
  have shape: "CheckShapeValid shape m ps = Inr (\<forall>d < length shape. shard_axes ps d \<noteq> {} \<longrightarrow>
      shard_count (Mesh_Shape m) ps d \<le> shape ! d)" if n: "Mesh_NumAxis m = length ps" and a: ?axes
  proof -
    have b: "sharded_dims ps \<subseteq> {..<length shape}" using sharded_dims_bound a by fastforce
    have "shards_nonneg ps" using a by (simp add: shards_nonneg_def list_all_length)
    from CheckShapeValid_eq [OF this n b] b show ?thesis by (auto simp: sharded_dims_def)
  qed
  show ?thesis
  proof (cases "ps \<noteq> [] \<and> ?gpus \<and> Mesh_NumAxis m = length ps \<and> (Mesh_Count m = 1 \<longrightarrow> IsReplicate (ps ! 0)) \<and> ?axes")
    case True
    then have "CheckValid shape m ps totalGpuCount = CheckShapeValid shape m ps"
      using assms(2) CheckValid_axes [of m ps shape] shape
      by (auto simp: CheckValid_def dev wf Mesh_Count_def)
    moreover have "\<forall>p \<in> set ps. IsShard p \<longrightarrow> - 1 \<le> mSubSplitCoordinates p"
      using True by (auto simp: in_set_conv_nth)
    ultimately show ?thesis using True shape assms(1) by (auto simp: layout_ok_def)
  next
    case False
    then have "CheckValid shape m ps totalGpuCount = Inr False"
      using assms(2) CheckValid_axes [of m ps shape] by (auto simp: CheckValid_def dev wf Mesh_Count_def)
    with False show ?thesis by (auto simp: layout_ok_def)
  qed
qed

text \<open>C35: on a well formed mesh \<open>CheckValid\<close> never aborts; it accepts the layout of a present tensor
  exactly when the sequence has one placement per mesh axis, the GPUs of the mesh exist, a mesh of
  one device is replicated, every shard names an axis of the tensor over a mesh axis of at least two
  devices, and no tensor axis is cut into more pieces than it has entries.\<close>

theorem CheckValid_correct:
  assumes "Mesh_wf m" and "\<not> IsNullTensorShape shape"
  shows "CheckValid shape m ps totalGpuCount = Inr (ps \<noteq> [] \<and>
    (mDeviceKind m \<noteq> kCpu \<longrightarrow> (\<forall>i \<in> set (mData (mMesh m)). i < totalGpuCount)) \<and>
    (Mesh_Count m = 1 \<longrightarrow> IsReplicate (ps ! 0)) \<and>
    (\<forall>p \<in> set ps. IsShard p \<longrightarrow> - 1 \<le> mSubSplitCoordinates p) \<and> layout_ok shape m ps)"
  by (rule CheckValid_iff [OF assms])

text \<open>The mesh of the witnesses: four GPUs as two rows of two.\<close>

definition gpu_grid :: DeviceMesh where
  "gpu_grid = \<lparr>mDeviceKind = kGpu,
     mMesh = \<lparr>mShape = [2, 2], mDimensionNamesMap = [], mData = [4, 5, 6, 7], mDataSet = {4, 5, 6, 7}\<rparr>\<rparr>"

lemma gpu_grid_simps [simp]:
  "Mesh_Shape gpu_grid = [2, 2]" "mData (mMesh gpu_grid) = [4, 5, 6, 7]" "mDeviceKind gpu_grid = kGpu"
  "Mesh_Count gpu_grid = 4" "Mesh_wf gpu_grid"
  by (auto simp: gpu_grid_def Mesh_Count_def Mesh_wf_def SimpleArray_wf_def)

lemma shard_axes_2: "shard_axes [p, q] d =
    (if IsShardAt p (int d) then {0} else {}) \<union> (if IsShardAt q (int d) then {1} else {})"
  using shard_axes_snoc [of "[p]" q d] shard_axes_snoc [of "[]" p d] by (auto simp: shard_axes_def [of "[]"])

lemma layout_ok_grid: "layout_ok [7, 9] gpu_grid [Shard 0 (- 1), Shard 0 (- 1)]"
  "layout_ok [7, 9] gpu_grid [Shard 0 (- 1), Shard 1 (- 1)]"
  by (auto simp: layout_ok_def shard_count_def shard_axes_2 IsShardAt_def less_Suc_eq)

theorem CheckValid_correct_witness:
  "CheckValid [7, 9] gpu_grid [Shard 0 (- 1), Shard 0 (- 1)] 8 = Inr True \<and>
   CheckValid [7, 9] gpu_grid [Shard 0 (- 1), Shard 0 (- 1)] 6 = Inr False"
proof -
  have "\<not> IsNullTensorShape [7, 9]" by (simp add: IsNullTensorShape_def)
  from CheckValid_correct [OF _ this, of gpu_grid] layout_ok_grid(1) show ?thesis by simp
qed

section \<open>Local shapes\<close>

definition IndexInSelectedDims :: "int \<Rightarrow> stride \<Rightarrow> nat set \<Rightarrow> stride \<Rightarrow> int res" where
  "IndexInSelectedDims index stride selectedDims selectedDimStride =
     assertR (length selectedDimStride = card selectedDims)
      (bindR (ComputeCoordinate stride index) (\<lambda>coordinate.
        let selectCoordinate = foldl (\<lambda>sel i. if i \<in> selectedDims then sel @ [coordinate ! i] else sel) []
          [0..<length coordinate]
        in ComputeIndex selectedDimStride selectCoordinate))"

text \<open>The first loop: whether every shard is even, and the shape with the even axes divided.\<close>

definition EvenSplit_step :: "shape \<Rightarrow> ShardInfo \<Rightarrow> bool \<times> shape \<Rightarrow> (bool \<times> shape) res" where
  "EvenSplit_step shape info = (\<lambda>(evenSplit, evenSplitShape).
     bindR (at_int shape (int (shardDim info))) (\<lambda>size.
     bindR (remR (as_size_t size) (shardSize info)) (\<lambda>r.
       if r \<noteq> 0 then Inr (False, evenSplitShape)
       else bindR (quotR (as_size_t size) (shardSize info)) (\<lambda>q.
         bindR (put_nat evenSplitShape (shardDim info) q) (\<lambda>s. Inr (evenSplit, s))))))"

text \<open>The second loop, for one uneven shard: the sizes of its axis for all the ranks.\<close>

definition UnevenSplit_step :: "shape \<Rightarrow> shape \<Rightarrow> int list \<Rightarrow> ShardInfo \<Rightarrow> (int \<rightharpoonup> shape) \<Rightarrow> (int \<rightharpoonup> shape) res" where
  "UnevenSplit_step shape meshShape meshData info result =
     bindR (at_int shape (int (shardDim info))) (\<lambda>size.
     bindR (remR (as_size_t size) (shardSize info)) (\<lambda>r.
       if r = 0 then Inr result
       else
         let selectedStride = Stride_of_Shape (KeepSelectedDim meshShape (meshDims info)) in
         bindR (GetShardSizeForAllRank size (shardSize info)) (\<lambda>splitSize.
         assertR (int (length splitSize) = shardSize info)
          (foldR (\<lambda>dataIdx result.
             bindR (IndexInSelectedDims (int dataIdx) (Stride_of_Shape meshShape) (meshDims info) selectedStride)
              (\<lambda>indexInSelectedDims.
                assertR (indexInSelectedDims < int (length splitSize))
                 (bindR (put_nat (the (result (meshData ! dataIdx))) (shardDim info)
                     (splitSize ! nat indexInSelectedDims))
                   (\<lambda>s. Inr (result(meshData ! dataIdx \<mapsto> s))))))
            [0..<length meshData] result))))"

definition ComputeLocalShape_from :: "ShardInfo list \<Rightarrow> shape \<Rightarrow> DeviceMesh \<Rightarrow> (int \<rightharpoonup> shape) res" where
  "ComputeLocalShape_from shardInfoVec shape m =
     bindR (foldR (EvenSplit_step shape) shardInfoVec (True, shape)) (\<lambda>(evenSplit, evenSplitShape).
       if evenSplit then Inr [0 \<mapsto> evenSplitShape]
       else
         let result = foldl (\<lambda>result i. result(i \<mapsto> evenSplitShape)) Map.empty (mData (mMesh m)) in
         foldR (UnevenSplit_step shape (Mesh_Shape m) (mData (mMesh m))) shardInfoVec result)"

definition ComputeLocalShape :: "shape \<Rightarrow> DeviceMesh \<Rightarrow> placement_seq \<Rightarrow> (int \<rightharpoonup> shape) res" where
  "ComputeLocalShape shape m ps = bindR (GetShardInfo m ps) (\<lambda>infos. ComputeLocalShape_from infos shape m)"

definition GetRankId :: "int \<Rightarrow> int list \<Rightarrow> nat res" where
  "GetRankId currentId allDeviceId =
     (case List.find (\<lambda>i. currentId = allDeviceId ! i) [0..<length allDeviceId] of
        Some i \<Rightarrow> Inr i | None \<Rightarrow> Inl Abort)"

text \<open>
  The reference: on the device at coordinate \<open>cs\<close> of the mesh, a tensor axis has the size of the
  piece whose number is the row-major index of the coordinates on the mesh axes that cut it.
\<close>

definition local_size :: "shape \<Rightarrow> placement_seq \<Rightarrow> shape \<Rightarrow> int list \<Rightarrow> nat \<Rightarrow> int" where
  "local_size ms ps shape cs d = piece_size (shape ! d) (shard_count ms ps d)
     (lin_index (nths ms (shard_axes ps d)) (nths cs (shard_axes ps d)))"

definition local_shape :: "shape \<Rightarrow> placement_seq \<Rightarrow> shape \<Rightarrow> int list \<Rightarrow> shape" where
  "local_shape ms ps shape cs = map (local_size ms ps shape cs) [0..<length shape]"

definition even_dim :: "shape \<Rightarrow> placement_seq \<Rightarrow> shape \<Rightarrow> nat \<Rightarrow> bool" where
  "even_dim ms ps shape d \<longleftrightarrow> shard_count ms ps d dvd shape ! d"

lemma prod_list_nths: "prod_list (nths xs A) = (\<Prod>i \<in> A \<inter> {..<length xs}. xs ! i :: int)"
proof (induction xs arbitrary: A)
  case Nil
  then show ?case by simp
next
  case (Cons x xs)
  have "{j. Suc j \<in> A} \<inter> {..<length xs} = {j. Suc j \<in> A \<and> j < length xs}" by auto
  moreover have split: "A \<inter> {..<length (x # xs)} = (if 0 \<in> A then {0} else {}) \<union> Suc ` {j. Suc j \<in> A \<and> j < length xs}"
  proof (rule set_eqI)
    fix i show "i \<in> A \<inter> {..<length (x # xs)} \<longleftrightarrow>
        i \<in> (if 0 \<in> A then {0} else {}) \<union> Suc ` {j. Suc j \<in> A \<and> j < length xs}"
      by (cases i) auto
  qed
  moreover have "(\<Prod>i \<in> Suc ` {j. Suc j \<in> A \<and> j < length xs}. (x # xs) ! i) =
      (\<Prod>j \<in> {j. Suc j \<in> A \<and> j < length xs}. xs ! j)"
    by (subst prod.reindex) auto
  moreover have "(\<Prod>i \<in> insert 0 (Suc ` {j. Suc j \<in> A \<and> j < length xs}). (x # xs) ! i) =
      x * (\<Prod>i \<in> Suc ` {j. Suc j \<in> A \<and> j < length xs}. (x # xs) ! i)"
    by (subst prod.insert) auto
  ultimately show ?case by (simp add: nths_Cons Cons.IH)
qed

lemma prod_list_nths_axes: "length ms = length ps \<Longrightarrow> prod_list (nths ms (shard_axes ps d)) = shard_count ms ps d"
  using shard_axes_bound [of ps d] by (simp add: prod_list_nths shard_count_def Int_absorb2)

lemma list_all2_nths: "list_all2 P xs ys \<Longrightarrow> list_all2 P (nths xs A) (nths ys A)"
  by (induction xs ys arbitrary: A rule: list_all2_induct) (auto simp: nths_Cons)

lemma in_range_nths: "in_range ms cs \<Longrightarrow> in_range (nths ms A) (nths cs A)"
  by (simp add: in_range_def list_all2_nths)

lemma card_axes: "length ms = length ps \<Longrightarrow> length (nths ms (shard_axes ps d)) = card (shard_axes ps d)"
proof -
  assume "length ms = length ps"
  then have "{i. i < length ms \<and> i \<in> shard_axes ps d} = shard_axes ps d"
    by (auto simp: shard_axes_def)
  then show ?thesis by (simp add: length_nths)
qed

lemma IndexInSelectedDims_lin:
  assumes "in_range ms cs" and "length ms = length ps"
  shows "IndexInSelectedDims (lin_index ms cs) (Stride_of_Shape ms) (shard_axes ps d)
      (Stride_of_Shape (KeepSelectedDim ms (shard_axes ps d))) =
    Inr (lin_index (nths ms (shard_axes ps d)) (nths cs (shard_axes ps d)))"
proof -
  have "foldl (\<lambda>sel i. if i \<in> A then sel @ [cs ! i] else sel) [] [0..<length cs] = nths cs A" for A
    by (simp add: foldl_select map_filter_nth)
  then show ?thesis
    using assms by (simp add: IndexInSelectedDims_def ComputeCoordinate_lin KeepSelectedDim_nths
        card_axes ComputeIndex_lin in_range_nths)
qed

lemma foldr_even:
  assumes "distinct ds" and "set ds \<subseteq> {..<length shape}" and "length s = length shape"
    and "\<forall>d \<in> set ds. 0 < shard_count ms ps d \<and> 0 \<le> shape ! d"
  shows "foldR (EvenSplit_step shape) (map (shard_info ms ps) ds) (b, s) =
    Inr (b \<and> (\<forall>d \<in> set ds. even_dim ms ps shape d),
      map (\<lambda>d. if d \<in> set ds \<and> even_dim ms ps shape d then shape ! d div shard_count ms ps d else s ! d)
        [0..<length shape])"
  using assms
proof (induction ds arbitrary: b s)
  case Nil
  then show ?case using map_nth [of s] by simp
next
  case (Cons d ds)
  let ?n = "shard_count ms ps d"
  let ?s = "if even_dim ms ps shape d then s[d := shape ! d div ?n] else s"
  have step: "EvenSplit_step shape (shard_info ms ps d) (b, s) = Inr (b \<and> even_dim ms ps shape d, ?s)"
    using Cons.prems by (simp add: EvenSplit_step_def shard_info_def at_int_nonneg even_dim_def
        dvd_eq_mod_eq_0)
  have IH: "foldR (EvenSplit_step shape) (map (shard_info ms ps) ds) (b \<and> even_dim ms ps shape d, ?s) =
    Inr ((b \<and> even_dim ms ps shape d) \<and> (\<forall>d \<in> set ds. even_dim ms ps shape d),
      map (\<lambda>d. if d \<in> set ds \<and> even_dim ms ps shape d then shape ! d div shard_count ms ps d else ?s ! d)
        [0..<length shape])"
    using Cons.prems by (intro Cons.IH) auto
  have "map (\<lambda>e. if e \<in> set ds \<and> even_dim ms ps shape e then shape ! e div shard_count ms ps e else ?s ! e)
        [0..<length shape] =
      map (\<lambda>e. if e \<in> set (d # ds) \<and> even_dim ms ps shape e then shape ! e div shard_count ms ps e else s ! e)
        [0..<length shape]"
    using Cons.prems(2,3) by (intro map_cong refl) (simp add: nth_list_update)
  with step IH show ?case by (simp del: upt_Suc)
qed

text \<open>A result map as a function of the rank, that is of the position in the mesh data.\<close>

definition on_ranks :: "int list \<Rightarrow> (nat \<Rightarrow> shape) \<Rightarrow> (int \<rightharpoonup> shape)" where
  "on_ranks data f = map_of (zip data (map f [0..<length data]))"

lemma on_ranks_nth: "distinct data \<Longrightarrow> k < length data \<Longrightarrow> on_ranks data f (data ! k) = Some (f k)"
  by (simp add: on_ranks_def map_of_zip_nth)

lemma on_ranks_None: "i \<notin> set data \<Longrightarrow> on_ranks data f i = None"
  by (auto simp: on_ranks_def map_of_eq_None_iff dest: set_zip_leftD)

lemma on_ranks_cong: "(\<And>k. k < length data \<Longrightarrow> f k = g k) \<Longrightarrow> on_ranks data f = on_ranks data g"
proof -
  assume "\<And>k. k < length data \<Longrightarrow> f k = g k"
  then have "map f [0..<length data] = map g [0..<length data]" by simp
  then show ?thesis by (simp only: on_ranks_def)
qed

lemma on_ranks_upd:
  assumes "distinct data" and "k < length data"
  shows "(on_ranks data f)(data ! k \<mapsto> s) = on_ranks data (f(k := s))"
proof (rule ext)
  fix i
  show "((on_ranks data f)(data ! k \<mapsto> s)) i = on_ranks data (f(k := s)) i"
  proof (cases "i \<in> set data")
    case True
    then obtain j where "j < length data" "i = data ! j" by (auto simp: in_set_conv_nth)
    with assms show ?thesis by (auto simp: on_ranks_nth nth_eq_iff_index_eq)
  next
    case False
    moreover from False assms have "i \<noteq> data ! k" by auto
    ultimately show ?thesis by (simp add: on_ranks_None)
  qed
qed

lemma on_ranks_init:
  assumes "distinct data"
  shows "foldl (\<lambda>result i. result(i \<mapsto> s)) Map.empty data = on_ranks data (\<lambda>k. s)"
proof (rule ext)
  fix i
  have "foldl (\<lambda>result i. result(i \<mapsto> s)) r data i = (if i \<in> set data then Some s else r i)" for r
    by (induction data arbitrary: r) auto
  moreover have "on_ranks data (\<lambda>k. s) i = (if i \<in> set data then Some s else None)"
    using assms by (auto simp: on_ranks_None in_set_conv_nth on_ranks_nth)
  ultimately show "foldl (\<lambda>result i. result(i \<mapsto> s)) Map.empty data i = on_ranks data (\<lambda>k. s) i"
    by simp
qed

lemma foldR_on_ranks:
  assumes "distinct data" and step: "\<And>k. k < length data \<Longrightarrow> step k (f k) = Inr (g k)"
  shows "foldR (\<lambda>k result. bindR (step k (the (result (data ! k)))) (\<lambda>s. Inr (result(data ! k \<mapsto> s))))
      [0..<length data] (on_ranks data f) = Inr (on_ranks data g)"
proof -
  let ?F = "\<lambda>k result. bindR (step k (the (result (data ! k)))) (\<lambda>s. Inr (result(data ! k \<mapsto> s)))"
  have "foldR ?F [0..<j] (on_ranks data f) = Inr (on_ranks data (\<lambda>k. if k < j then g k else f k))"
    if "j \<le> length data" for j
    using that
  proof (induction j)
    case 0
    then show ?case by simp
  next
    case (Suc j)
    then have "j < length data" by simp
    moreover have "(\<lambda>k. if k < j then g k else f k)(j := g j) = (\<lambda>k. if k < Suc j then g k else f k)"
      by (rule ext) auto
    ultimately show ?case using Suc assms
      by (simp add: foldR_append on_ranks_nth on_ranks_upd del: fun_upd_apply)
  qed
  from this [of "length data"] show ?thesis
    by (simp cong: on_ranks_cong)
qed

text \<open>The coordinate of a rank.\<close>

definition rank_coord :: "shape \<Rightarrow> nat \<Rightarrow> int list" where
  "rank_coord ms k = (case ComputeCoordinate (Stride_of_Shape ms) (int k) of Inr cs \<Rightarrow> cs | Inl _ \<Rightarrow> [])"

lemma rank_coord:
  assumes "\<forall>d \<in> set ms. 0 < d" and "int k < prod_list ms"
  shows "in_range ms (rank_coord ms k) \<and> lin_index ms (rank_coord ms k) = int k"
  using ComputeCoordinate_total [of ms "int k"] assms by (auto simp: rank_coord_def)

lemma UnevenSplit_step_eq:
  assumes mesh: "distinct data" "int (length data) = prod_list ms" "\<forall>x \<in> set ms. 0 < x" "length ms = length ps"
    and dim: "d < length shape" "0 < shard_count ms ps d" "shard_count ms ps d \<le> shape ! d"
    and len: "\<And>k. k < length data \<Longrightarrow> length (f k) = length shape"
  shows "UnevenSplit_step shape ms data (shard_info ms ps d) (on_ranks data f) =
    Inr (on_ranks data (\<lambda>k. if even_dim ms ps shape d then f k
      else (f k)[d := local_size ms ps shape (rank_coord ms k) d]))"
proof (cases "even_dim ms ps shape d")
  case True
  with dim show ?thesis
    by (simp add: UnevenSplit_step_def shard_info_def at_int_nonneg even_dim_def dvd_eq_mod_eq_0)
next
  case False
  let ?n = "shard_count ms ps d"
  let ?sizes = "map (piece_size (shape ! d) ?n) [0..?n - 1]"
  let ?step = "\<lambda>k s. bindR (IndexInSelectedDims (int k) (Stride_of_Shape ms) (shard_axes ps d)
      (Stride_of_Shape (KeepSelectedDim ms (shard_axes ps d))))
    (\<lambda>j. assertR (j < int (length ?sizes)) (put_nat s d (?sizes ! nat j)))"
  let ?g = "\<lambda>k. (f k)[d := local_size ms ps shape (rank_coord ms k) d]"
  have step: "?step k (f k) = Inr (?g k)" if k: "k < length data" for k
  proof -
    from rank_coord [OF mesh(3)] k mesh(2)
    have cs: "in_range ms (rank_coord ms k)" "lin_index ms (rank_coord ms k) = int k" by auto
    let ?j = "lin_index (nths ms (shard_axes ps d)) (nths (rank_coord ms k) (shard_axes ps d))"
    have "IndexInSelectedDims (int k) (Stride_of_Shape ms) (shard_axes ps d)
      (Stride_of_Shape (KeepSelectedDim ms (shard_axes ps d))) = Inr ?j"
      using IndexInSelectedDims_lin [OF cs(1) mesh(4), of d] cs(2) by simp
    moreover have "0 \<le> ?j" "?j < ?n"
      using lin_index_bounds [OF in_range_nths [OF cs(1)], of "shard_axes ps d"]
        prod_list_nths_axes [OF mesh(4), of d] by simp_all
    then have "?j < int (length ?sizes)" "?sizes ! nat ?j = local_size ms ps shape (rank_coord ms k) d"
      by (simp_all add: nth_upto local_size_def)
    ultimately show ?thesis using len [OF k] dim(1) by simp
  qed
  from False dim have "UnevenSplit_step shape ms data (shard_info ms ps d) (on_ranks data f) =
      foldR (\<lambda>k result. bindR (?step k (the (result (data ! k)))) (\<lambda>s. Inr (result(data ! k \<mapsto> s))))
        [0..<length data] (on_ranks data f)"
    by (simp add: UnevenSplit_step_def shard_info_def at_int_nonneg even_dim_def dvd_eq_mod_eq_0
        GetShardSizeForAllRank_eq bindR_assoc bindR_guardR Let_def)
  also have "\<dots> = Inr (on_ranks data ?g)"
    by (rule foldR_on_ranks [OF mesh(1)]) (rule step)
  finally show ?thesis using False by simp
qed

lemma foldR_uneven:
  assumes mesh: "distinct data" "int (length data) = prod_list ms" "\<forall>x \<in> set ms. 0 < x" "length ms = length ps"
    and "set ds \<subseteq> {..<length shape}"
    and "\<forall>d \<in> set ds. 0 < shard_count ms ps d \<and> shard_count ms ps d \<le> shape ! d"
    and "\<And>k. k < length data \<Longrightarrow> length (f k) = length shape"
  shows "foldR (UnevenSplit_step shape ms data) (map (shard_info ms ps) ds) (on_ranks data f) =
    Inr (on_ranks data (\<lambda>k. map (\<lambda>d. if d \<in> set ds \<and> \<not> even_dim ms ps shape d
      then local_size ms ps shape (rank_coord ms k) d else f k ! d) [0..<length shape]))"
  using assms(5-)
proof (induction ds arbitrary: f)
  case Nil
  have "on_ranks data f = on_ranks data (\<lambda>k. map ((!) (f k)) [0..<length shape])"
    using Nil.prems(3) by (intro on_ranks_cong) (metis map_nth)
  then show ?case by simp
next
  case (Cons d ds)
  let ?f = "\<lambda>k. if even_dim ms ps shape d then f k else (f k)[d := local_size ms ps shape (rank_coord ms k) d]"
  have step: "UnevenSplit_step shape ms data (shard_info ms ps d) (on_ranks data f) = Inr (on_ranks data ?f)"
    using Cons.prems by (intro UnevenSplit_step_eq mesh) auto
  have IH: "foldR (UnevenSplit_step shape ms data) (map (shard_info ms ps) ds) (on_ranks data ?f) =
    Inr (on_ranks data (\<lambda>k. map (\<lambda>e. if e \<in> set ds \<and> \<not> even_dim ms ps shape e
      then local_size ms ps shape (rank_coord ms k) e else ?f k ! e) [0..<length shape]))"
    using Cons.prems by (intro Cons.IH) auto
  have "on_ranks data (\<lambda>k. map (\<lambda>e. if e \<in> set ds \<and> \<not> even_dim ms ps shape e
      then local_size ms ps shape (rank_coord ms k) e else ?f k ! e) [0..<length shape]) =
    on_ranks data (\<lambda>k. map (\<lambda>e. if e \<in> set (d # ds) \<and> \<not> even_dim ms ps shape e
      then local_size ms ps shape (rank_coord ms k) e else f k ! e) [0..<length shape])"
    using Cons.prems(1,3) by (intro on_ranks_cong map_cong refl) (simp add: nth_list_update)
  with step IH show ?case by (simp del: upt_Suc)
qed

text \<open>Devices with the same coordinates on an evenly cut axis or not, the even size is the quotient.\<close>

lemma local_size_even: "even_dim ms ps shape d \<Longrightarrow> 0 < shard_count ms ps d \<Longrightarrow>
    in_range ms cs \<Longrightarrow> length ms = length ps \<Longrightarrow>
    local_size ms ps shape cs d = shape ! d div shard_count ms ps d"
  using lin_index_bounds [OF in_range_nths, of ms cs "shard_axes ps d"]
  by (simp add: local_size_def piece_size_def even_dim_def)

lemma local_size_unsharded: "shard_axes ps d = {} \<Longrightarrow> local_size ms ps shape cs d = shape ! d"
  by (simp add: local_size_def shard_count_def piece_size_def)

lemma layout_ok_counts:
  assumes "layout_ok shape m ps" and "d \<in> sharded_dims ps"
  shows "d < length shape \<and> 0 < shard_count (Mesh_Shape m) ps d \<and> shard_count (Mesh_Shape m) ps d \<le> shape ! d"
proof -
  from assms(1) have a: "\<forall>i < length ps. IsShard (ps ! i) \<longrightarrow> 0 \<le> mShardIndex (ps ! i) \<and>
      mShardIndex (ps ! i) < int (length shape) \<and> 2 \<le> Mesh_Shape m ! i"
    by (simp add: layout_ok_def)
  then have d: "d < length shape" using sharded_dims_bound [of ps shape d] assms(2) by blast
  have "0 < shard_count (Mesh_Shape m) ps d"
    unfolding shard_count_def using a by (intro prod_pos) (force simp: shard_axes_def IsShardAt_def)
  with d assms show ?thesis by (auto simp: layout_ok_def sharded_dims_def)
qed

lemma local_size_sharded_pos:
  assumes "layout_ok s m ps" and "shard_axes ps d \<noteq> {}"
  shows "1 \<le> local_size (Mesh_Shape m) ps s cs d"
proof -
  from assms(2) have "0 < shard_count (Mesh_Shape m) ps d" "shard_count (Mesh_Shape m) ps d \<le> s ! d"
    using layout_ok_counts [OF assms(1), of d] by (simp_all add: sharded_dims_def)
  then have "1 \<le> s ! d div shard_count (Mesh_Shape m) ps d" by (simp add: pos_imp_zdiv_pos_iff int_one_le_iff_zero_less)
  then show ?thesis by (simp add: local_size_def piece_size_def)
qed

lemma ComputeLocalShape_infos:
  assumes ok: "layout_ok shape m ps" and pos: "\<forall>x \<in> set (Mesh_Shape m). 0 < x"
    and ds: "distinct ds" "set ds = sharded_dims ps"
  shows "ComputeLocalShape_from (map (shard_info (Mesh_Shape m) ps) ds) shape m =
    Inr (if \<forall>d \<in> sharded_dims ps. even_dim (Mesh_Shape m) ps shape d
      then [0 \<mapsto> local_shape (Mesh_Shape m) ps shape (rank_coord (Mesh_Shape m) 0)]
      else on_ranks (mData (mMesh m)) (\<lambda>k. local_shape (Mesh_Shape m) ps shape (rank_coord (Mesh_Shape m) k)))"
proof -
  let ?ms = "Mesh_Shape m"
  let ?data = "mData (mMesh m)"
  let ?even = "even_dim ?ms ps shape"
  let ?s = "map (\<lambda>d. if d \<in> set ds \<and> ?even d then shape ! d div shard_count ?ms ps d else shape ! d) [0..<length shape]"
  from ok have n: "length ?ms = length ps" and wf: "distinct ?data" "int (length ?data) = prod_list ?ms" "?data \<noteq> []"
    by (auto simp: layout_ok_def Mesh_wf_def SimpleArray_wf_def)
  have cnt: "\<forall>d \<in> set ds. d < length shape \<and> 0 < shard_count ?ms ps d \<and> shard_count ?ms ps d \<le> shape ! d"
    using layout_ok_counts [OF ok] ds(2) by simp
  have coord: "in_range ?ms (rank_coord ?ms k)" if "k < length ?data" for k
    using rank_coord [OF pos, of k] that wf(2) by simp
  have first: "foldR (EvenSplit_step shape) (map (shard_info ?ms ps) ds) (True, shape) =
      Inr (\<forall>d \<in> set ds. ?even d, ?s)"
    using foldr_even [of ds shape shape ?ms ps True] ds(1) cnt by (force simp: less_imp_le)
  have size: "local_size ?ms ps shape (rank_coord ?ms k) d =
      (if d \<in> set ds then if ?even d then shape ! d div shard_count ?ms ps d
         else local_size ?ms ps shape (rank_coord ?ms k) d else shape ! d)"
    if "k < length ?data" for k d
    using local_size_even [OF _ _ coord [OF that] n] cnt local_size_unsharded ds(2)
    by (auto simp: sharded_dims_def)
  show ?thesis
  proof (cases "\<forall>d \<in> set ds. ?even d")
    case True
    have "?s = local_shape ?ms ps shape (rank_coord ?ms 0)"
      unfolding local_shape_def using True wf(3) by (intro map_cong refl) (subst size; simp)
    with first True ds(2) show ?thesis by (simp add: ComputeLocalShape_from_def)
  next
    case False
    have "foldR (UnevenSplit_step shape ?ms ?data) (map (shard_info ?ms ps) ds) (on_ranks ?data (\<lambda>k. ?s)) =
      Inr (on_ranks ?data (\<lambda>k. map (\<lambda>d. if d \<in> set ds \<and> \<not> ?even d
        then local_size ?ms ps shape (rank_coord ?ms k) d else ?s ! d) [0..<length shape]))"
      using cnt by (intro foldR_uneven wf(1,2) pos n) auto
    also have "on_ranks ?data (\<lambda>k. map (\<lambda>d. if d \<in> set ds \<and> \<not> ?even d
        then local_size ?ms ps shape (rank_coord ?ms k) d else ?s ! d) [0..<length shape]) =
      on_ranks ?data (\<lambda>k. local_shape ?ms ps shape (rank_coord ?ms k))"
      unfolding local_shape_def
    proof (intro on_ranks_cong map_cong refl)
      fix k d assume "k < length ?data" "d \<in> set [0..<length shape]"
      then show "(if d \<in> set ds \<and> \<not> ?even d then local_size ?ms ps shape (rank_coord ?ms k) d else ?s ! d) =
          local_size ?ms ps shape (rank_coord ?ms k) d"
        using size [of k d] by (cases "d \<in> set ds"; cases "?even d") simp_all
    qed
    finally have second: "foldR (UnevenSplit_step shape ?ms ?data) (map (shard_info ?ms ps) ds) (on_ranks ?data (\<lambda>k. ?s)) =
      Inr (on_ranks ?data (\<lambda>k. local_shape ?ms ps shape (rank_coord ?ms k)))" .
    from first False have "foldR (EvenSplit_step shape) (map (shard_info ?ms ps) ds) (True, shape) = Inr (False, ?s)"
      by (simp only:)
    then have "ComputeLocalShape_from (map (shard_info ?ms ps) ds) shape m =
      foldR (UnevenSplit_step shape ?ms ?data) (map (shard_info ?ms ps) ds) (on_ranks ?data (\<lambda>k. ?s))"
      by (simp only: ComputeLocalShape_from_def bindR_Inr prod.case if_False Let_def on_ranks_init [OF wf(1)])
    also note second
    finally show ?thesis using False by (simp only: ds(2) if_False)
  qed
qed

lemma infos_perm:
  assumes "mset infos = mset (map (shard_info ms ps) ds)" and "distinct ds"
  obtains ds' where "infos = map (shard_info ms ps) ds'" and "distinct ds'" and "set ds' = set ds"
proof -
  let ?ds = "map shardDim infos"
  have "set infos = shard_info ms ps ` set ds" using assms(1) by (metis list.set_map set_mset_mset)
  then have "\<forall>i \<in> set infos. shard_info ms ps (shardDim i) = i" by (auto simp: shard_info_def)
  then have "map (shard_info ms ps) ?ds = infos" by (simp add: map_idI)
  moreover have "mset ?ds = image_mset shardDim (mset (map (shard_info ms ps) ds))"
    unfolding assms(1) [symmetric] by simp
  then have "mset ?ds = mset ds" by (simp add: multiset.map_comp comp_def shard_info_def)
  then have "distinct ?ds" "set ?ds = set ds"
    using assms(2) by (metis distinct_count_atmost_1 set_mset_mset, metis set_mset_mset)
  ultimately show ?thesis using that by metis
qed

text \<open>C1: for a valid layout, \<open>ComputeLocalShape\<close> gives the reference local shape whatever the order in
  which the shard infos are visited: one shape for all the devices when every cut is even, otherwise
  one shape per device of the mesh.\<close>

theorem ComputeLocalShape_correct:
  assumes "layout_ok shape m ps" and "\<forall>x \<in> set (Mesh_Shape m). 0 < x"
    and "GetShardInfo m ps = Inr infos'" and "mset infos = mset infos'"
  shows "ComputeLocalShape_from infos shape m =
    Inr (if \<forall>d \<in> sharded_dims ps. even_dim (Mesh_Shape m) ps shape d
      then [0 \<mapsto> local_shape (Mesh_Shape m) ps shape (rank_coord (Mesh_Shape m) 0)]
      else on_ranks (mData (mMesh m)) (\<lambda>k. local_shape (Mesh_Shape m) ps shape (rank_coord (Mesh_Shape m) k)))"
proof -
  from assms(1) have "shards_nonneg ps" "Mesh_NumAxis m = length ps"
    by (auto simp: layout_ok_def shards_nonneg_def list_all_length)
  from GetShardInfo_eq [OF this] obtain ds where ds: "distinct ds" "set ds = sharded_dims ps"
    "GetShardInfo m ps = Inr (map (shard_info (Mesh_Shape m) ps) ds)" by blast
  with assms(3,4) obtain ds' where ds': "infos = map (shard_info (Mesh_Shape m) ps) ds'" "distinct ds'" "set ds' = set ds"
    using infos_perm [of infos "Mesh_Shape m" ps ds] by auto
  show ?thesis
    unfolding ds'(1) by (rule ComputeLocalShape_infos [OF assms(1,2) ds'(2)]) (simp add: ds'(3) ds(2))
qed

theorem ComputeLocalShape_correct_witness:
  "\<exists>infos'. GetShardInfo gpu_grid [Shard 0 (- 1), Shard 0 (- 1)] = Inr infos' \<and>
    ComputeLocalShape_from (rev infos') [7, 9] gpu_grid =
      Inr (on_ranks [4, 5, 6, 7] (\<lambda>k. local_shape [2, 2] [Shard 0 (- 1), Shard 0 (- 1)] [7, 9] (rank_coord [2, 2] k)))"
proof -
  let ?ps = "[Shard 0 (- 1), Shard 0 (- 1)]"
  have "shards_nonneg ?ps" "Mesh_NumAxis gpu_grid = length ?ps" by (simp_all add: shards_nonneg_def)
  from GetShardInfo_eq [OF this] obtain infos where i: "GetShardInfo gpu_grid ?ps = Inr infos" by blast
  have ax: "shard_axes ?ps 0 = {0, 1}" by (auto simp: shard_axes_2 IsShardAt_def)
  then have "0 \<in> sharded_dims ?ps" "\<not> even_dim [2, 2] ?ps [7, 9] 0"
    by (auto simp: sharded_dims_def even_dim_def shard_count_def)
  then have "\<not> (\<forall>d \<in> sharded_dims ?ps. even_dim [2, 2] ?ps [7, 9] d)" by blast
  with ComputeLocalShape_correct [OF layout_ok_grid(1) _ i, of "rev infos"] i show ?thesis by simp
qed

section \<open>The local tensors cover the tensor\<close>

text \<open>Sums over the coordinates of a mesh, and over its ranks.\<close>

fun mesh_sum :: "shape \<Rightarrow> (int list \<Rightarrow> int) \<Rightarrow> int" where
  "mesh_sum [] F = F []"
| "mesh_sum (d # s) F = (\<Sum>c \<in> {0..<d}. mesh_sum s (\<lambda>cs. F (c # cs)))"

lemma sum_blocks:
  fixes f :: "int \<Rightarrow> int"
  assumes "0 < p" and "0 \<le> m"
  shows "(\<Sum>c \<in> {0..<m}. \<Sum>j \<in> {0..<p}. f (c * p + j)) = (\<Sum>k \<in> {0..<m * p}. f k)"
proof -
  have "(\<Sum>c \<in> {0..<m}. \<Sum>j \<in> {0..<p}. f (c * p + j)) = (\<Sum>(c, j) \<in> {0..<m} \<times> {0..<p}. f (c * p + j))"
    by (rule sum.cartesian_product)
  also have "\<dots> = (\<Sum>k \<in> {0..<m * p}. f k)"
  proof (rule sum.reindex_bij_witness [of _ "\<lambda>k. (k div p, k mod p)" "\<lambda>(c, j). c * p + j"])
    fix a assume "a \<in> {0..<m} \<times> {0..<p}"
    then obtain c j where a: "a = (c, j)" "0 \<le> c" "c + 1 \<le> m" "0 \<le> j" "j < p" by auto
    with assms have "c * p + p \<le> m * p" using mult_right_mono [of "c + 1" m p] by (simp add: algebra_simps)
    with a assms show "(case a of (c, j) \<Rightarrow> c * p + j) \<in> {0..<m * p}" by simp
    from a assms have "(c * p + j) div p = c \<and> (c * p + j) mod p = j" by (simp add: mult.commute [of c])
    with a show "((case a of (c, j) \<Rightarrow> c * p + j) div p, (case a of (c, j) \<Rightarrow> c * p + j) mod p) = a" by simp
    from a show "f (case a of (c, j) \<Rightarrow> c * p + j) = (case a of (c, j) \<Rightarrow> f (c * p + j))" by simp
  next
    fix k assume k: "k \<in> {0..<m * p}"
    with assms have "k div p < m" by (simp add: int_div_less)
    with k assms show "(k div p, k mod p) \<in> {0..<m} \<times> {0..<p}" by (simp add: pos_imp_zdiv_nonneg_iff)
    show "(case (k div p, k mod p) of (c, j) \<Rightarrow> c * p + j) = k" by simp
  qed
  finally show ?thesis .
qed

lemma mesh_sum_cong: "(\<And>cs. in_range s cs \<Longrightarrow> F cs = G cs) \<Longrightarrow> mesh_sum s F = mesh_sum s G"
proof (induction s arbitrary: F G)
  case Nil
  then show ?case by simp
next
  case (Cons d s)
  show ?case
    unfolding mesh_sum.simps
  proof (rule sum.cong [OF refl], rule Cons.IH)
    fix c cs assume "c \<in> {0..<d}" "in_range s cs"
    then show "F (c # cs) = G (c # cs)" by (intro Cons.prems) simp
  qed
qed

lemma mesh_sum_ranks:
  assumes "\<forall>x \<in> set s. 0 < x"
  shows "mesh_sum s F = (\<Sum>k \<in> {0..<prod_list s}. F (rank_coord s (nat k)))"
  using assms
proof (induction s arbitrary: F)
  case Nil
  have "rank_coord [] 0 = []" by (simp add: rank_coord_def)
  then show ?case by simp
next
  case (Cons d s)
  let ?p = "prod_list s"
  from Cons.prems have p: "0 < ?p" and d: "0 < d" using prod_list_pos [of s] by auto
  have coord: "rank_coord (d # s) (nat (c * ?p + j)) = c # rank_coord s (nat j)"
    if "0 \<le> c" "c < d" "0 \<le> j" "j < ?p" for c j
  proof -
    from Cons.prems that have cs: "in_range s (rank_coord s (nat j))" "lin_index s (rank_coord s (nat j)) = j"
      using rank_coord [of s "nat j"] by auto
    then have "in_range (d # s) (c # rank_coord s (nat j))" using that by simp
    from ComputeCoordinate_lin [OF this] cs(2) that p show ?thesis by (simp add: rank_coord_def)
  qed
  have "mesh_sum (d # s) F = (\<Sum>c \<in> {0..<d}. \<Sum>j \<in> {0..<?p}. F (c # rank_coord s (nat j)))"
    using Cons by simp
  also have "\<dots> = (\<Sum>c \<in> {0..<d}. \<Sum>j \<in> {0..<?p}. F (rank_coord (d # s) (nat (c * ?p + j))))"
    using coord by (intro sum.cong refl) auto
  also have "\<dots> = (\<Sum>k \<in> {0..<d * ?p}. F (rank_coord (d # s) (nat k)))"
    using p d by (intro sum_blocks) auto
  finally show ?case by simp
qed

text \<open>The axes of a mesh without its first axis.\<close>

definition tail_axes :: "nat set \<Rightarrow> nat set" where
  "tail_axes A = {i. Suc i \<in> A}"

lemma nths_Cons_axes: "nths (x # xs) A = (if 0 \<in> A then [x] else []) @ nths xs (tail_axes A)"
  by (simp add: nths_Cons tail_axes_def)

lemma tail_axes_Compl_UN: "tail_axes (- (\<Union>d \<in> D. A d)) = - (\<Union>d \<in> D. tail_axes (A d))"
  "tail_axes (\<Inter>d \<in> D. - A d) = (\<Inter>d \<in> D. - tail_axes (A d))"
  by (auto simp: tail_axes_def)

lemma mesh_sum_factor:
  assumes "finite D" and "\<forall>d \<in> D. \<forall>e \<in> D. d \<noteq> e \<longrightarrow> A d \<inter> A e = {}" and "\<forall>x \<in> set ms. 0 < x"
  shows "mesh_sum ms (\<lambda>cs. \<Prod>d \<in> D. f d (lin_index (nths ms (A d)) (nths cs (A d)))) =
    prod_list (nths ms (- (\<Union>d \<in> D. A d))) * (\<Prod>d \<in> D. \<Sum>j \<in> {0..<prod_list (nths ms (A d))}. f d j)"
  using assms(2,3)
proof (induction ms arbitrary: A f)
  case Nil
  have "{0..<1::int} = {0}" by auto
  then show ?case by simp
next
  case (Cons m ms)
  let ?B = "\<lambda>d. tail_axes (A d)"
  let ?p = "\<lambda>d. prod_list (nths ms (?B d))"
  let ?S = "\<lambda>f. \<Prod>d \<in> D. \<Sum>j \<in> {0..<?p d}. f d j"
  let ?r = "prod_list (nths ms (- (\<Union>d \<in> D. ?B d)))"
  have m: "0 < m" "\<forall>x \<in> set ms. 0 < x" using Cons.prems by auto
  have disj: "\<forall>d \<in> D. \<forall>e \<in> D. d \<noteq> e \<longrightarrow> ?B d \<inter> ?B e = {}"
    using Cons.prems(1) by (fastforce simp: tail_axes_def)
  have IH: "mesh_sum ms (\<lambda>cs. \<Prod>d \<in> D. f d (lin_index (nths ms (?B d)) (nths cs (?B d)))) = ?r * ?S f" for f
    by (rule Cons.IH [OF disj m(2)])
  show ?case
  proof (cases "\<exists>d \<in> D. 0 \<in> A d")
    case False
    then show ?thesis using IH [of f] m(1)
      by (simp add: nths_Cons_axes tail_axes_Compl_UN)
  next
    case True
    then obtain d where d: "d \<in> D" "0 \<in> A d" by blast
    with Cons.prems(1) have other: "0 \<notin> A e" if "e \<in> D - {d}" for e using that by blast
    let ?g = "\<lambda>c. f(d := \<lambda>j. f d (c * ?p d + j))"
    have summand: "(\<Prod>e \<in> D. f e (lin_index (nths (m # ms) (A e)) (nths (c # cs) (A e)))) =
        (\<Prod>e \<in> D. ?g c e (lin_index (nths ms (?B e)) (nths cs (?B e))))" for c cs
      using d other by (intro prod.cong refl) (auto simp: nths_Cons_axes)
    have split: "?S (?g c) = (\<Sum>j \<in> {0..<?p d}. f d (c * ?p d + j)) * (\<Prod>e \<in> D - {d}. \<Sum>j \<in> {0..<?p e}. f e j)" for c
      using d(1) by (subst prod.remove [OF assms(1), of d]) auto
    have pd: "0 < ?p d" using m(2) by (intro prod_list_pos) (meson in_set_nthsD)
    have "mesh_sum (m # ms) (\<lambda>cs. \<Prod>e \<in> D. f e (lin_index (nths (m # ms) (A e)) (nths cs (A e)))) =
        (\<Sum>c \<in> {0..<m}. ?r * ?S (?g c))"
      using IH by (simp add: summand del: fun_upd_apply)
    also have "\<dots> = ?r * ((\<Sum>c \<in> {0..<m}. \<Sum>j \<in> {0..<?p d}. f d (c * ?p d + j)) * (\<Prod>e \<in> D - {d}. \<Sum>j \<in> {0..<?p e}. f e j))"
      by (simp add: split sum_distrib_left [symmetric] sum_distrib_right [symmetric] del: fun_upd_apply)
    also have "\<dots> = ?r * ((\<Sum>j \<in> {0..<m * ?p d}. f d j) * (\<Prod>e \<in> D - {d}. \<Sum>j \<in> {0..<?p e}. f e j))"
      using sum_blocks [OF pd, of m "f d"] m(1) by simp
    also have "(\<Prod>e \<in> D - {d}. \<Sum>j \<in> {0..<?p e}. f e j) =
        (\<Prod>e \<in> D - {d}. \<Sum>j \<in> {0..<prod_list (nths (m # ms) (A e))}. f e j)"
      using other by (intro prod.cong refl) (simp add: nths_Cons_axes)
    also have "(\<Sum>j \<in> {0..<m * ?p d}. f d j) * \<dots> =
        (\<Prod>e \<in> D. \<Sum>j \<in> {0..<prod_list (nths (m # ms) (A e))}. f e j)"
      using d by (simp add: prod.remove [OF assms(1) d(1)] nths_Cons_axes)
    also have "?r = prod_list (nths (m # ms) (- (\<Union>d \<in> D. A d)))"
      using d by (auto simp: nths_Cons_axes tail_axes_Compl_UN)
    finally show ?thesis .
  qed
qed

lemma prod_list_upt: "prod_list (map f [0..<n]) = (\<Prod>i \<in> {..<n}. f i :: int)"
  by (induction n) (simp_all add: lessThan_Suc mult.commute)

lemma sum_nat_int: "(\<Sum>k < n. f k) = (\<Sum>k \<in> {0..<int n}. f (nat k))"
  by (rule sum.reindex_bij_witness [of _ nat int]) auto

text \<open>The numbers of entries of the reference local shapes add up to the number of entries of the tensor times the
  product of the sizes of the mesh axes that do not shard.\<close>

lemma local_shape_volumes:
  assumes "layout_ok shape m ps" and "\<forall>x \<in> set (Mesh_Shape m). 0 < x"
  shows "(\<Sum>k < Mesh_Count m. prod_list (local_shape (Mesh_Shape m) ps shape (rank_coord (Mesh_Shape m) k))) =
    prod_list shape * prod_list (nths (Mesh_Shape m) {i. \<not> IsShard (ps ! i)})"
proof -
  let ?ms = "Mesh_Shape m"
  let ?D = "{..<length shape}"
  let ?A = "shard_axes ps"
  let ?f = "\<lambda>d. piece_size (shape ! d) (shard_count ?ms ps d)"
  from assms(1) have n: "length ?ms = length ps" and cnt: "prod_list ?ms = int (Mesh_Count m)"
    and range: "\<forall>i < length ps. IsShard (ps ! i) \<longrightarrow> 0 \<le> mShardIndex (ps ! i) \<and> mShardIndex (ps ! i) < int (length shape)"
    by (auto simp: layout_ok_def Mesh_wf_count)
  have pos: "0 < shard_count ?ms ps d" for d
    using layout_ok_counts [OF assms(1), of d] by (cases "d \<in> sharded_dims ps") (auto simp: sharded_dims_def shard_count_def)
  have vol: "prod_list (local_shape ?ms ps shape cs) =
      (\<Prod>d \<in> ?D. ?f d (lin_index (nths ?ms (?A d)) (nths cs (?A d))))" for cs
    by (simp add: local_shape_def prod_list_upt local_size_def)
  have "(\<Sum>k \<in> {0..<int (Mesh_Count m)}. prod_list (local_shape ?ms ps shape (rank_coord ?ms (nat k)))) =
      mesh_sum ?ms (\<lambda>cs. prod_list (local_shape ?ms ps shape cs))"
    using mesh_sum_ranks [OF assms(2)] cnt by simp
  also have "\<dots> = prod_list (nths ?ms (- (\<Union>d \<in> ?D. ?A d))) *
      (\<Prod>d \<in> ?D. \<Sum>j \<in> {0..<prod_list (nths ?ms (?A d))}. ?f d j)"
    unfolding vol using shard_axes_disjoint assms(2) by (intro mesh_sum_factor) auto
  also have "(\<Prod>d \<in> ?D. \<Sum>j \<in> {0..<prod_list (nths ?ms (?A d))}. ?f d j) = (\<Prod>d \<in> ?D. shape ! d)"
    using pos by (intro prod.cong refl) (simp add: prod_list_nths_axes n sum_piece_size)
  also have "\<dots> = prod_list shape"
    using prod_list_upt [of "\<lambda>d. shape ! d" "length shape"] by (simp add: map_nth)
  also have "(- (\<Union>d \<in> ?D. ?A d)) \<inter> {..<length ?ms} = {i. \<not> IsShard (ps ! i)} \<inter> {..<length ?ms}"
  proof -
    have "(\<exists>d < length shape. i \<in> ?A d) \<longleftrightarrow> IsShard (ps ! i)" if "i < length ps" for i
      using range that by (auto simp: shard_axes_def IsShardAt_def intro!: exI [of _ "nat (mShardIndex (ps ! i))"])
    then show ?thesis using n by auto
  qed
  then have "prod_list (nths ?ms (- (\<Union>d \<in> ?D. ?A d))) = prod_list (nths ?ms {i. \<not> IsShard (ps ! i)})"
    by (simp only: prod_list_nths)
  finally show ?thesis by (simp add: sum_nat_int)
qed

end
