(* ===== verification/PlacementSignatures.thy ===== *)
theory PlacementSignatures
  imports Placements
begin

text \<open>
  src/dtorch/core/operators/placement_signature.{h,cc}: the table of an operator that says, for the
  placements of its inputs on one mesh axis, the placements of its outputs on that axis.  The table
  is keyed by a 64-bit hash of the input placements; \<open>hashed_map\<close> is the interface under which such
  a table behaves like a map on the inputs themselves.
\<close>

section \<open>Tables keyed by a hash\<close>

definition hm_put :: "('k \<Rightarrow> 'h res) \<Rightarrow> 'k \<Rightarrow> 'v \<Rightarrow> ('h \<times> 'v) list \<Rightarrow> ('h \<times> 'v) list res" where
  "hm_put key k v m = bindR (key k) (\<lambda>h. Inr (AList.update h v m))"

definition hm_get :: "('k \<Rightarrow> 'h res) \<Rightarrow> 'k \<Rightarrow> ('h \<times> 'v) list \<Rightarrow> 'v option res" where
  "hm_get key k m = bindR (key k) (\<lambda>h. Inr (map_of m h))"

locale hashed_map =
  fixes key :: "'k \<Rightarrow> 'h res" and keys :: "'k set"
  assumes key_total: "k \<in> keys \<Longrightarrow> \<exists>h. key k = Inr h"
    and key_inj: "k \<in> keys \<Longrightarrow> l \<in> keys \<Longrightarrow> key k = key l \<Longrightarrow> k = l"
begin

lemma get_put:
  assumes "k \<in> keys" and "l \<in> keys" and "hm_put key k v m = Inr m'"
  shows "hm_get key l m' = (if k = l then Inr (Some v) else hm_get key l m)"
proof -
  obtain h where h: "key k = Inr h" using key_total [OF assms(1)] by blast
  obtain g where g: "key l = Inr g" using key_total [OF assms(2)] by blast
  have "h = g \<longleftrightarrow> k = l" using key_inj [OF assms(1,2)] h g by auto
  moreover have "m' = AList.update h v m" using assms(3) h by (simp add: hm_put_def)
  ultimately show ?thesis using g by (cases "k = l") (auto simp: hm_get_def update_conv')
qed

lemma put_total: "k \<in> keys \<Longrightarrow> \<exists>m'. hm_put key k v m = Inr m'"
  using key_total [of k] by (auto simp: hm_put_def)

lemma put_all:
  assumes "set (map fst kvs) \<subseteq> keys"
  shows "\<exists>m'. foldR (\<lambda>(k, v). hm_put key k v) kvs m = Inr m' \<and>
    (\<forall>l \<in> keys. hm_get key l m' = (case map_of (rev kvs) l of Some v \<Rightarrow> Inr (Some v) | None \<Rightarrow> hm_get key l m))"
  using assms
proof (induction kvs arbitrary: m)
  case Nil
  then show ?case by simp
next
  case (Cons kv kvs)
  obtain k v where kv: "kv = (k, v)" by (cases kv)
  with Cons.prems have k: "k \<in> keys" "set (map fst kvs) \<subseteq> keys" by auto
  obtain m1 where m1: "hm_put key k v m = Inr m1" using put_total [OF k(1), of v m] by blast
  from Cons.IH [OF k(2), of m1] obtain m' where m': "foldR (\<lambda>(k, v). hm_put key k v) kvs m1 = Inr m'"
    "\<forall>l \<in> keys. hm_get key l m' = (case map_of (rev kvs) l of Some v \<Rightarrow> Inr (Some v) | None \<Rightarrow> hm_get key l m1)"
    by blast
  have "hm_get key l m' = (case map_of (rev (kv # kvs)) l of Some v \<Rightarrow> Inr (Some v) | None \<Rightarrow> hm_get key l m)"
    if l: "l \<in> keys" for l
  proof (cases "map_of (rev kvs) l")
    case None
    with bspec [OF m'(2) l] get_put [OF k(1) l m1] show ?thesis by (simp add: kv map_add_def)
  next
    case (Some w)
    with bspec [OF m'(2) l] show ?thesis by (simp add: kv map_add_def)
  qed
  with m'(1) m1 show ?case by (auto simp: kv)
qed

end

section \<open>The hash of the input placements\<close>

unbundle bit_operations_syntax

definition GetHashKey :: "Placement list \<Rightarrow> 64 word res" where
  "GetHashKey inputPlacement =
     assertR (length inputPlacement < 8)
      (foldR (\<lambda>p result. bindR (Placement_ToHashKey p) (\<lambda>k. Inr (push_bit 8 result OR (k AND 0xFF))))
        inputPlacement 0)"

text \<open>The placements a key can tell apart.\<close>

definition plain_placement :: "Placement \<Rightarrow> bool" where
  "plain_placement p \<longleftrightarrow> Placement_wf p \<and> \<not> HasSubSplitCoordinates p \<and>
     (IsShard p \<longrightarrow> 0 \<le> mShardIndex p \<and> mShardIndex p \<le> 15)"

definition plain_tuples :: "nat \<Rightarrow> Placement list set" where
  "plain_tuples n = {ps. length ps = n \<and> n < 8 \<and> list_all plain_placement ps}"

definition placement_code :: "Placement \<Rightarrow> int" where
  "placement_code p = (if IsReplicate p then 241 else if IsPartial p then 242 else if IsShard p
     then 4 + 16 * mShardIndex p else 240)"

lemma plain_cases:
  assumes "plain_placement p"
  obtains "p = Replicate" | "p = Partial" | "p = Optional" | i where "p = Shard i (- 1)" "0 \<le> i" "i \<le> 15"
  using assms by (auto simp: plain_placement_def HasSubSplitCoordinates_def elim!: Placement_wf_cases)

lemma placement_code:
  assumes "plain_placement p"
  shows "Placement_ToHashKey p = Inr (word_of_int (placement_code p)) \<and> 0 \<le> placement_code p \<and> placement_code p < 256"
  using assms by (cases rule: plain_cases) (auto simp: placement_code_def Placement_ToHashKey_Shard)

lemma placement_code_inj: "plain_placement p \<Longrightarrow> plain_placement q \<Longrightarrow> placement_code p = placement_code q \<Longrightarrow> p = q"
  by (elim plain_cases) (auto simp: placement_code_def, presburger+)

fun tuple_code :: "int \<Rightarrow> Placement list \<Rightarrow> int" where
  "tuple_code a [] = a"
| "tuple_code a (p # ps) = tuple_code (256 * a + placement_code p) ps"

lemma tuple_code_inj:
  assumes "list_all plain_placement ps" and "list_all plain_placement qs" and "length ps = length qs"
    and "tuple_code a ps = tuple_code b qs"
  shows "a = b \<and> ps = qs"
  using assms
proof (induction ps arbitrary: qs a b)
  case Nil
  then show ?case by simp
next
  case (Cons p ps)
  then obtain q qs' where q: "qs = q # qs'" by (cases qs) auto
  have pl: "plain_placement p" "plain_placement q" "list_all plain_placement ps" "list_all plain_placement qs'"
    using Cons.prems(1,2) q by auto
  have "256 * a + placement_code p = 256 * b + placement_code q \<and> ps = qs'"
    using Cons.prems(3,4) q by (intro Cons.IH pl) auto
  then have e: "256 * a + placement_code p = 256 * b + placement_code q" and t: "ps = qs'" by auto
  have c: "0 \<le> placement_code p" "placement_code p < 256" "0 \<le> placement_code q" "placement_code q < 256"
    using placement_code [OF pl(1)] placement_code [OF pl(2)] by simp_all
  from c e have ab: "a = b" by (cases a b rule: linorder_cases) linarith+
  with e have "placement_code p = placement_code q" by simp
  with placement_code_inj [OF pl(1,2)] q t ab show ?case by simp
qed

lemma shift_in_byte:
  assumes "uint (r :: 64 word) < 256 ^ 7" and "0 \<le> c" and "c < 256"
  shows "uint (push_bit 8 r OR (word_of_int c AND 0xFF)) = 256 * uint r + c"
proof -
  let ?w = "word_of_int c AND 0xFF :: 64 word"
  from assms have c: "take_bit 8 c = c" by (simp add: take_bit_int_eq_self_iff)
  have w: "?w = take_bit 8 (word_of_int c)" by (simp add: take_bit_eq_mask mask_eq_exp_minus_1)
  also have "\<dots> = word_of_int c"
    by (rule bit_word_eqI) (use c in \<open>auto simp: bit_take_bit_iff bit_word_of_int_iff dest: arg_cong [of _ _ "\<lambda>x. bit x _"]\<close>)
  finally have "?w = word_of_int c" .
  moreover have "push_bit 8 r OR ?w = push_bit 8 r + ?w"
    unfolding w by (rule disjunctive_add [symmetric]) (auto simp: bit_push_bit_iff bit_take_bit_iff)
  ultimately have "push_bit 8 r OR ?w = word_of_int (256 * uint r + c)"
    by (simp add: push_bit_eq_mult)
  then show ?thesis using assms by (simp add: uint_word_of_int del: of_int_add of_int_mult)
qed

lemma GetHashKey_fold:
  assumes "list_all plain_placement ps" and "uint r < 256 ^ k" and "k + length ps \<le> 7"
  shows "\<exists>h. foldR (\<lambda>p result. bindR (Placement_ToHashKey p) (\<lambda>k. Inr (push_bit 8 result OR (k AND 0xFF)))) ps r = Inr h \<and>
    uint h = tuple_code (uint r) ps"
  using assms
proof (induction ps arbitrary: r k)
  case Nil
  then show ?case by simp
next
  case (Cons p ps)
  from Cons.prems(1) have p: "Placement_ToHashKey p = Inr (word_of_int (placement_code p))"
    "0 \<le> placement_code p" "placement_code p < 256" using placement_code [of p] by auto
  have "(256 :: int) ^ k \<le> 256 ^ 7" using Cons.prems(3) by (intro power_increasing) auto
  with Cons.prems(2) have "uint r < 256 ^ 7" by linarith
  from shift_in_byte [OF this p(2,3)]
  have u: "uint (push_bit 8 r OR (word_of_int (placement_code p) AND 0xFF)) = 256 * uint r + placement_code p" .
  have "256 * uint r + placement_code p < 256 ^ Suc k" using Cons.prems(2) p(3) by simp
  then have b: "uint (push_bit 8 r OR (word_of_int (placement_code p) AND 0xFF)) < 256 ^ Suc k" unfolding u .
  have "list_all plain_placement ps" "Suc k + length ps \<le> 7" using Cons.prems(1,3) by simp_all
  from Cons.IH [OF this(1) b this(2)] show ?case by (simp add: p(1) u)
qed

lemma GetHashKey_code:
  assumes "ps \<in> plain_tuples n"
  obtains h where "GetHashKey ps = Inr h" and "uint h = tuple_code 0 ps"
proof -
  from assms have ps: "list_all plain_placement ps" "length ps < 8" by (auto simp: plain_tuples_def)
  then have "\<exists>h. foldR (\<lambda>p result. bindR (Placement_ToHashKey p) (\<lambda>k. Inr (push_bit 8 result OR (k AND 0xFF)))) ps 0 = Inr h \<and>
    uint h = tuple_code (uint (0 :: 64 word)) ps"
    by (intro GetHashKey_fold [of ps 0 0]) auto
  with ps that show ?thesis by (auto simp: GetHashKey_def)
qed

interpretation sig_table: hashed_map GetHashKey "plain_tuples n" for n
proof
  fix k assume "k \<in> plain_tuples n"
  then show "\<exists>h. GetHashKey k = Inr h" by (rule GetHashKey_code) blast
next
  fix k l assume k: "k \<in> plain_tuples n" and l: "l \<in> plain_tuples n" and eq: "GetHashKey k = GetHashKey l"
  from k obtain h where h: "GetHashKey k = Inr h" "uint h = tuple_code 0 k" by (rule GetHashKey_code)
  from l obtain g where g: "GetHashKey l = Inr g" "uint g = tuple_code 0 l" by (rule GetHashKey_code)
  from h g eq have "tuple_code 0 k = tuple_code 0 l" by simp
  with k l show "k = l" using tuple_code_inj [of k l 0 0] by (simp add: plain_tuples_def)
qed

text \<open>On input lists of the same length below 8, made of placements with shard axes up to 15 and
  no sub-split coordinates, \<open>GetHashKey\<close> never fails and separates different inputs.\<close>

theorem GetHashKey_injective:
  assumes "ps \<in> plain_tuples n" and "qs \<in> plain_tuples n"
  shows "(\<exists>h. GetHashKey ps = Inr h) \<and> (GetHashKey ps = GetHashKey qs \<longleftrightarrow> ps = qs)"
  using sig_table.key_total [OF assms(1)] sig_table.key_inj [OF assms] by auto

theorem GetHashKey_injective_witness:
  "GetHashKey [Shard 0 (- 1), Replicate] \<noteq> GetHashKey [Replicate, Shard 0 (- 1)]"
  using GetHashKey_injective [of "[Shard 0 (- 1), Replicate]" 2 "[Replicate, Shard 0 (- 1)]"]
  by (simp add: plain_tuples_def plain_placement_def HasSubSplitCoordinates_def)

section \<open>The table\<close>

record PlacementSignature =
  mInputSize :: nat
  mOutputSize :: nat
  mAllSignature :: "(Placement list \<times> Placement list) list"
  mSignatureMap :: "(64 word \<times> Placement list) list"

definition PlacementSignature_new :: "nat \<Rightarrow> nat \<Rightarrow> PlacementSignature" where
  "PlacementSignature_new inputSize outputSize =
     \<lparr>mInputSize = inputSize, mOutputSize = outputSize, mAllSignature = [], mSignatureMap = []\<rparr>"

definition AddPlacementSignaturePair :: "Placement list \<times> Placement list \<Rightarrow> PlacementSignature \<Rightarrow>
    PlacementSignature res" where
  "AddPlacementSignaturePair pair sig =
     assertR (length (fst pair) = mInputSize sig)
      (assertR (length (snd pair) = mOutputSize sig)
        (bindR (hm_put GetHashKey (fst pair) (snd pair) (mSignatureMap sig)) (\<lambda>m.
          Inr (sig\<lparr>mSignatureMap := m, mAllSignature := mAllSignature sig @ [pair]\<rparr>))))"

definition GetInputPlacementSignature :: "placement_seq list \<Rightarrow> nat \<Rightarrow> Placement list res" where
  "GetInputPlacementSignature inputs dim =
     mapR (\<lambda>input. assertR (length input > dim) (Seq_at input dim)) inputs"

definition SetOutputPlacementSignature :: "Placement list list \<Rightarrow> nat \<Rightarrow> Placement list \<Rightarrow> Placement list list res" where
  "SetOutputPlacementSignature outputs dim outputSignature =
     (let outputSize = length outputSignature in
      assertR (outputSize > 0)
       (let outputs = (if length outputs \<noteq> outputSize
          then take outputSize outputs @ replicate (outputSize - length outputs) [] else outputs) in
        foldR (\<lambda>i outputs. assertR (length (outputs ! i) = dim)
            (Inr (outputs[i := outputs ! i @ [outputSignature ! i]])))
          [0..<outputSize] outputs))"

text \<open>The sub-split coordinates of the first input that has some go to every sharded output.\<close>

definition CopySubSplit :: "Placement list \<Rightarrow> Placement list \<Rightarrow> Placement list res" where
  "CopySubSplit inputSignature outputSignature =
     (case List.find HasSubSplitCoordinates inputSignature of
        None \<Rightarrow> Inr outputSignature
      | Some p \<Rightarrow> bindR (GetSubSplitCoordinates p) (\<lambda>c.
          mapR (\<lambda>q. if IsShard q then SetSubSplitCoordinates q c else Inr q) outputSignature))"

fun Match_loop :: "PlacementSignature \<Rightarrow> placement_seq list \<Rightarrow> bool \<Rightarrow> nat list \<Rightarrow> Placement list list \<Rightarrow>
    Placement list list option res" where
  "Match_loop sig inputs keep [] result = Inr (Some result)"
| "Match_loop sig inputs keep (i # is) result =
     bindR (GetInputPlacementSignature inputs i) (\<lambda>inputSignature.
     bindR (hm_get GetHashKey inputSignature (mSignatureMap sig)) (\<lambda>it.
       case it of
         None \<Rightarrow> Inr None
       | Some outputSignature \<Rightarrow>
           bindR (if keep then CopySubSplit inputSignature outputSignature else Inr outputSignature)
            (\<lambda>copyOutputSignature.
           bindR (SetOutputPlacementSignature result i copyOutputSignature) (\<lambda>result.
             Match_loop sig inputs keep is result))))"

text \<open>\<open>None\<close> is the result \<open>false\<close>, which leaves the outputs alone.\<close>

definition Match :: "PlacementSignature \<Rightarrow> placement_seq list \<Rightarrow> bool \<Rightarrow> placement_seq list option res" where
  "Match sig inputs keepSubSplitCoordinates =
     assertR (length inputs = mInputSize sig)
      (guardR Undefined (inputs \<noteq> [])
        (Match_loop sig inputs keepSubSplitCoordinates [0..<length (inputs ! 0)] []))"

text \<open>The abstract table: the last pair added for some inputs gives the outputs.\<close>

definition sig_lookup :: "(Placement list \<times> Placement list) list \<Rightarrow> Placement list \<Rightarrow> Placement list option" where
  "sig_lookup pairs inputs = map_of (rev pairs) inputs"

definition sig_pairs_ok :: "nat \<Rightarrow> nat \<Rightarrow> (Placement list \<times> Placement list) list \<Rightarrow> bool" where
  "sig_pairs_ok n m pairs \<longleftrightarrow> (\<forall>(ins, outs) \<in> set pairs. ins \<in> plain_tuples n \<and> length outs = m)"

definition sig_represents :: "PlacementSignature \<Rightarrow> (Placement list \<times> Placement list) list \<Rightarrow> bool" where
  "sig_represents sig pairs \<longleftrightarrow> mAllSignature sig = pairs \<and>
     (\<forall>ins \<in> plain_tuples (mInputSize sig). hm_get GetHashKey ins (mSignatureMap sig) = Inr (sig_lookup pairs ins))"

definition AddAllPairs :: "(Placement list \<times> Placement list) list \<Rightarrow> PlacementSignature \<Rightarrow> PlacementSignature res" where
  "AddAllPairs pairs sig = foldR AddPlacementSignaturePair pairs sig"

lemma AddAllPairs_fold:
  assumes "sig_pairs_ok (mInputSize sig) (mOutputSize sig) pairs"
  shows "AddAllPairs pairs sig = bindR (foldR (\<lambda>(k, v). hm_put GetHashKey k v) pairs (mSignatureMap sig))
    (\<lambda>m. Inr (sig\<lparr>mSignatureMap := m, mAllSignature := mAllSignature sig @ pairs\<rparr>))"
  using assms unfolding AddAllPairs_def
proof (induction pairs arbitrary: sig)
  case Nil
  then show ?case by simp
next
  case (Cons p pairs)
  obtain k v where p: "p = (k, v)" by (cases p)
  from Cons.prems p have len: "length k = mInputSize sig" "length v = mOutputSize sig"
    by (auto simp: sig_pairs_ok_def plain_tuples_def)
  show ?case
  proof (cases "hm_put GetHashKey k v (mSignatureMap sig)")
    case (Inl e)
    with p len show ?thesis by (simp add: AddPlacementSignaturePair_def)
  next
    case (Inr m)
    let ?sig = "sig\<lparr>mSignatureMap := m, mAllSignature := mAllSignature sig @ [p]\<rparr>"
    have "sig_pairs_ok (mInputSize ?sig) (mOutputSize ?sig) pairs"
      using Cons.prems by (simp add: sig_pairs_ok_def)
    from Cons.IH [OF this] p len Inr show ?thesis by (simp add: AddPlacementSignaturePair_def)
  qed
qed

lemma AddAllPairs_represents:
  assumes "sig_pairs_ok n m pairs"
  obtains sig where "AddAllPairs pairs (PlacementSignature_new n m) = Inr sig"
    and "sig_represents sig pairs" and "mInputSize sig = n" and "mOutputSize sig = m"
proof -
  have "set (map fst pairs) \<subseteq> plain_tuples n" using assms by (auto simp: sig_pairs_ok_def)
  from sig_table.put_all [OF this, of "[]"] obtain mp where mp:
    "foldR (\<lambda>(k, v). hm_put GetHashKey k v) pairs [] = Inr mp"
    "\<forall>l \<in> plain_tuples n. hm_get GetHashKey l mp =
      (case map_of (rev pairs) l of Some v \<Rightarrow> Inr (Some v) | None \<Rightarrow> hm_get GetHashKey l [])" by blast
  have nil: "hm_get GetHashKey l [] = Inr None" if "l \<in> plain_tuples n" for l
    using sig_table.key_total [OF that] by (auto simp: hm_get_def)
  let ?sig = "(PlacementSignature_new n m)\<lparr>mSignatureMap := mp, mAllSignature := pairs\<rparr>"
  have "AddAllPairs pairs (PlacementSignature_new n m) = Inr ?sig"
    using AddAllPairs_fold [of "PlacementSignature_new n m" pairs] assms mp(1)
    by (simp add: PlacementSignature_new_def)
  moreover have "sig_represents ?sig pairs"
    using mp(2) nil by (auto simp: sig_represents_def PlacementSignature_new_def sig_lookup_def split: option.splits)
  ultimately show ?thesis using that by (simp add: PlacementSignature_new_def)
qed

lemma sig_lookup_None: "sig_lookup pairs ins = None \<longleftrightarrow> ins \<notin> fst ` set pairs"
  by (simp add: sig_lookup_def map_of_eq_None_iff)

lemma sig_lookup_length: "sig_pairs_ok n m pairs \<Longrightarrow> sig_lookup pairs ins = Some outs \<Longrightarrow> length outs = m"
  by (force simp: sig_lookup_def sig_pairs_ok_def dest: map_of_SomeD)

text \<open>The placements of all inputs on one mesh axis.\<close>

definition column :: "placement_seq list \<Rightarrow> nat \<Rightarrow> Placement list" where
  "column inputs i = map (\<lambda>input. input ! i) inputs"

lemma GetInputPlacementSignature_eq:
  "\<forall>input \<in> set inputs. i < length input \<Longrightarrow> GetInputPlacementSignature inputs i = Inr (column inputs i)"
  unfolding GetInputPlacementSignature_def column_def by (rule mapR_total) simp

lemma SetOutput_fold:
  assumes "k \<le> length outs" and "length rows = length outs" and "\<forall>j < length outs. length (rows ! j) = dim"
  shows "foldR (\<lambda>i outputs. assertR (length (outputs ! i) = dim) (Inr (outputs[i := outputs ! i @ [outs ! i]]))) [0..<k] rows =
    Inr (map (\<lambda>j. if j < k then rows ! j @ [outs ! j] else rows ! j) [0..<length outs])"
  using assms(1)
proof (induction k)
  case 0
  with assms(2) show ?case using map_nth [of rows] by simp
next
  case (Suc k)
  then have "map (\<lambda>j. if j < k then rows ! j @ [outs ! j] else rows ! j) [0..<length outs] ! k = rows ! k" by simp
  with Suc assms(3) show ?case
    by (auto simp: foldR_append nth_list_update less_Suc_eq intro!: nth_equalityI)
qed

lemma SetOutputPlacementSignature_eq:
  assumes "0 < length outs" and "length rows = length outs \<or> (rows = [] \<and> dim = 0)"
    and "\<forall>j < length rows. length (rows ! j) = dim"
  shows "SetOutputPlacementSignature rows dim outs =
    Inr (map (\<lambda>j. (if rows = [] then [] else rows ! j) @ [outs ! j]) [0..<length outs])"
proof -
  let ?rows = "if rows = [] then replicate (length outs) [] else rows"
  have "foldR (\<lambda>i outputs. assertR (length (outputs ! i) = dim) (Inr (outputs[i := outputs ! i @ [outs ! i]])))
      [0..<length outs] ?rows =
    Inr (map (\<lambda>j. if j < length outs then ?rows ! j @ [outs ! j] else ?rows ! j) [0..<length outs])"
    using assms by (intro SetOutput_fold) auto
  also have "map (\<lambda>j. if j < length outs then ?rows ! j @ [outs ! j] else ?rows ! j) [0..<length outs] =
      map (\<lambda>j. (if rows = [] then [] else rows ! j) @ [outs ! j]) [0..<length outs]"
    by (intro map_cong refl) simp
  finally show ?thesis
    using assms by (cases "rows = []") (simp_all add: SetOutputPlacementSignature_def Let_def)
qed

definition match_rows :: "(Placement list \<times> Placement list) list \<Rightarrow> nat \<Rightarrow> placement_seq list \<Rightarrow> nat \<Rightarrow> placement_seq list" where
  "match_rows pairs m inputs k = (if k = 0 then [] else
     map (\<lambda>j. map (\<lambda>i. the (sig_lookup pairs (column inputs i)) ! j) [0..<k]) [0..<m])"

lemma match_rows_step:
  assumes "0 < m" and "length outs = m" and "sig_lookup pairs (column inputs k) = Some outs"
  shows "SetOutputPlacementSignature (match_rows pairs m inputs k) k outs = Inr (match_rows pairs m inputs (Suc k))"
proof -
  have "SetOutputPlacementSignature (match_rows pairs m inputs k) k outs =
    Inr (map (\<lambda>j. (if match_rows pairs m inputs k = [] then [] else match_rows pairs m inputs k ! j) @ [outs ! j]) [0..<length outs])"
    using assms(1,2) by (intro SetOutputPlacementSignature_eq) (auto simp: match_rows_def)
  also have "map (\<lambda>j. (if match_rows pairs m inputs k = [] then [] else match_rows pairs m inputs k ! j) @ [outs ! j]) [0..<length outs] =
      match_rows pairs m inputs (Suc k)"
    using assms by (auto simp: match_rows_def)
  finally show ?thesis .
qed

lemma Match_loop_eq:
  assumes rep: "sig_represents sig pairs" "sig_pairs_ok n m pairs" "mInputSize sig = n" "0 < m"
    and ins: "\<forall>i < dims. (\<forall>input \<in> set inputs. i < length input) \<and> column inputs i \<in> plain_tuples n"
    and "k \<le> dims"
  shows "Match_loop sig inputs False [k..<dims] (match_rows pairs m inputs k) =
    Inr (if \<forall>i \<in> {k..<dims}. column inputs i \<in> fst ` set pairs then Some (match_rows pairs m inputs dims) else None)"
  using assms(6)
proof (induction "dims - k" arbitrary: k)
  case 0
  then show ?case by simp
next
  case (Suc d)
  then have k: "k < dims" by simp
  then have up: "[k..<dims] = k # [Suc k..<dims]" and iv: "{k..<dims} = insert k {Suc k..<dims}"
    by (auto simp: upt_conv_Cons)
  from ins k have col: "GetInputPlacementSignature inputs k = Inr (column inputs k)" "column inputs k \<in> plain_tuples n"
    by (simp_all add: GetInputPlacementSignature_eq)
  with rep have get: "hm_get GetHashKey (column inputs k) (mSignatureMap sig) = Inr (sig_lookup pairs (column inputs k))"
    by (simp add: sig_represents_def)
  show ?case
  proof (cases "sig_lookup pairs (column inputs k)")
    case None
    then have "column inputs k \<notin> fst ` set pairs" by (simp add: sig_lookup_None)
    then show ?thesis by (simp add: up iv col get None)
  next
    case (Some outs)
    then have "column inputs k \<in> fst ` set pairs" using sig_lookup_None [of pairs "column inputs k"] by auto
    moreover have "SetOutputPlacementSignature (match_rows pairs m inputs k) k outs = Inr (match_rows pairs m inputs (Suc k))"
      by (rule match_rows_step [OF rep(4) sig_lookup_length [OF rep(2) Some] Some])
    moreover have "Match_loop sig inputs False [Suc k..<dims] (match_rows pairs m inputs (Suc k)) =
      Inr (if \<forall>i \<in> {Suc k..<dims}. column inputs i \<in> fst ` set pairs then Some (match_rows pairs m inputs dims) else None)"
      using Suc(2) k by (intro Suc(1)) auto
    ultimately show ?thesis by (simp add: up iv col get Some)
  qed
qed

text \<open>C33: the hashed table behaves like the list of its rules: \<open>Match\<close> succeeds exactly when on every
  mesh axis the placements of the inputs are the inputs of a rule, and then gives every output, on
  every axis, the placement of the rule added last for those inputs.\<close>

theorem Match_correct:
  assumes "sig_pairs_ok n m pairs" and "0 < n" and "0 < m"
    and "AddAllPairs pairs (PlacementSignature_new n m) = Inr sig"
    and "length inputs = n" and "\<forall>input \<in> set inputs. length input = dims"
    and "\<forall>i < dims. column inputs i \<in> plain_tuples n"
  shows "Match sig inputs False =
    Inr (if \<forall>i < dims. column inputs i \<in> fst ` set pairs then Some (match_rows pairs m inputs dims) else None)"
proof -
  obtain sig' where "AddAllPairs pairs (PlacementSignature_new n m) = Inr sig'" "sig_represents sig' pairs" "mInputSize sig' = n"
    by (rule AddAllPairs_represents [OF assms(1)])
  with assms(4) have sig: "sig_represents sig pairs" "mInputSize sig = n" by auto
  from assms have ne: "inputs \<noteq> []" and hd: "length (inputs ! 0) = dims" by (cases inputs; simp)+
  have "Match_loop sig inputs False [0..<dims] (match_rows pairs m inputs 0) =
    Inr (if \<forall>i \<in> {0..<dims}. column inputs i \<in> fst ` set pairs then Some (match_rows pairs m inputs dims) else None)"
    using assms(1,3,6,7) by (intro Match_loop_eq [of sig pairs n m] sig) auto
  moreover have "(\<forall>i \<in> {0..<dims}. column inputs i \<in> fst ` set pairs) \<longleftrightarrow> (\<forall>i < dims. column inputs i \<in> fst ` set pairs)"
    by auto
  ultimately show ?thesis using assms ne hd sig by (simp add: Match_def match_rows_def)
qed

theorem Match_correct_witness:
  "\<exists>sig. AddAllPairs [([Shard 0 (- 1), Replicate], [Shard 0 (- 1)]), ([Replicate, Replicate], [Replicate])]
      (PlacementSignature_new 2 1) = Inr sig \<and>
    Match sig [[Shard 0 (- 1), Replicate], [Replicate, Replicate]] False = Inr (Some [[Shard 0 (- 1), Replicate]])"
proof -
  let ?pairs = "[([Shard 0 (- 1), Replicate], [Shard 0 (- 1)]), ([Replicate, Replicate], [Replicate])]"
  let ?ins = "[[Shard 0 (- 1), Replicate], [Replicate, Replicate]]"
  have ok: "sig_pairs_ok 2 1 ?pairs"
    by (simp add: sig_pairs_ok_def plain_tuples_def plain_placement_def HasSubSplitCoordinates_def)
  then obtain sig where sig: "AddAllPairs ?pairs (PlacementSignature_new 2 1) = Inr sig"
    by (rule AddAllPairs_represents)
  have "\<forall>i < 2. column ?ins i \<in> plain_tuples 2"
    by (auto simp: less_2_cases_iff column_def plain_tuples_def plain_placement_def HasSubSplitCoordinates_def)
  with Match_correct [OF ok _ _ sig, of ?ins 2]
  have "Match sig ?ins False = Inr (Some (match_rows ?pairs 1 ?ins 2))"
    by (auto simp: less_2_cases_iff column_def)
  moreover have "match_rows ?pairs 1 ?ins 2 = [[Shard 0 (- 1), Replicate]]"
    by (simp add: match_rows_def sig_lookup_def column_def numeral_2_eq_2)
  ultimately show ?thesis using sig by auto
qed

section \<open>The builder\<close>

record sig_builder =
  bInputSize :: nat
  bOutputSize :: nat
  mAllOptionalIndexs :: "nat set"
  mPlacementSignaturePair :: "(Placement list \<times> Placement list) list"
  mCurrentOptionalIndexs :: "nat list"
  mCurrentInputSignature :: "Placement list"
  mCurrentOutputSignature :: "Placement list"

definition Builder_new :: "nat \<Rightarrow> nat \<Rightarrow> sig_builder" where
  "Builder_new inputSize outputSize =
     \<lparr>bInputSize = inputSize, bOutputSize = outputSize, mAllOptionalIndexs = {}, mPlacementSignaturePair = [],
      mCurrentOptionalIndexs = [], mCurrentInputSignature = [], mCurrentOutputSignature = []\<rparr>"

definition AddInput :: "Placement \<Rightarrow> sig_builder \<Rightarrow> sig_builder" where
  "AddInput p b = b\<lparr>mCurrentInputSignature := mCurrentInputSignature b @ [p]\<rparr>"

definition AddOptionalInput :: "Placement \<Rightarrow> sig_builder \<Rightarrow> sig_builder" where
  "AddOptionalInput p b =
     b\<lparr>mCurrentOptionalIndexs := mCurrentOptionalIndexs b @ [length (mCurrentInputSignature b)],
       mCurrentInputSignature := mCurrentInputSignature b @ [p]\<rparr>"

definition AddOutput :: "Placement \<Rightarrow> sig_builder \<Rightarrow> sig_builder" where
  "AddOutput p b = b\<lparr>mCurrentOutputSignature := mCurrentOutputSignature b @ [p]\<rparr>"

fun GetAllCombinationImp :: "nat list \<Rightarrow> nat list \<Rightarrow> nat list list" where
  "GetAllCombinationImp prefix [] = [prefix]"
| "GetAllCombinationImp prefix (i # is) = GetAllCombinationImp prefix is @ GetAllCombinationImp (prefix @ [i]) is"

definition GetAllCombination :: "nat list \<Rightarrow> nat list list res" where
  "GetAllCombination indexs = assertR (length indexs > 0) (Inr (GetAllCombinationImp [] indexs))"

definition SetOptionals :: "nat list \<Rightarrow> Placement list \<Rightarrow> Placement list res" where
  "SetOptionals vec inputs =
     foldR (\<lambda>i inputs. assertR (length inputs > i) (Inr (inputs[i := Optional]))) vec inputs"

definition Builder_Build :: "sig_builder \<Rightarrow> sig_builder res" where
  "Builder_Build b =
     assertR (bInputSize b = length (mCurrentInputSignature b))
      (assertR (bOutputSize b = length (mCurrentOutputSignature b))
        (let optionals = mAllOptionalIndexs b \<union> set (mCurrentOptionalIndexs b) in
         bindR (if length (mCurrentOptionalIndexs b) > 0
           then bindR (GetAllCombination (mCurrentOptionalIndexs b)) (\<lambda>vecs.
             mapR (\<lambda>vec. bindR (SetOptionals vec (mCurrentInputSignature b)) (\<lambda>inputs.
               Inr (inputs, mCurrentOutputSignature b))) vecs)
           else Inr [(mCurrentInputSignature b, mCurrentOutputSignature b)]) (\<lambda>pairs.
         Inr (b\<lparr>mAllOptionalIndexs := optionals,
           mPlacementSignaturePair := mPlacementSignaturePair b @ pairs,
           mCurrentOptionalIndexs := [], mCurrentInputSignature := [], mCurrentOutputSignature := []\<rparr>))))"

definition Builder_Finish :: "sig_builder \<Rightarrow> PlacementSignature res" where
  "Builder_Finish b =
     assertR (mCurrentInputSignature b = [] \<and> mCurrentOutputSignature b = [])
      (let b1 = foldl (\<lambda>b i. if i \<in> mAllOptionalIndexs b then AddOptionalInput Replicate b else AddInput Replicate b)
             b [0..<bInputSize b];
           b2 = foldl (\<lambda>b i. AddOutput Replicate b) b1 [0..<bOutputSize b]
       in bindR (Builder_Build b2) (\<lambda>b3.
         foldR AddPlacementSignaturePair (mPlacementSignaturePair b3)
           (PlacementSignature_new (bInputSize b) (bOutputSize b))))"

lemma GetAllCombinationImp_mset:
  "mset (GetAllCombinationImp prefix is) = mset (map ((@) prefix) (subseqs is))"
proof (induction "is" arbitrary: prefix)
  case Nil
  then show ?case by simp
next
  case (Cons i "is")
  have "mset (GetAllCombinationImp prefix (i # is)) =
      mset (map ((@) prefix) (subseqs is)) + mset (map ((@) (prefix @ [i])) (subseqs is))"
    by (simp only: GetAllCombinationImp.simps mset_append Cons.IH)
  also have "(@) (prefix @ [i]) = (\<lambda>x. prefix @ i # x)" by (rule ext) simp
  also have "mset (map ((@) prefix) (subseqs is)) + mset (map \<dots> (subseqs is)) =
      mset (map ((@) prefix) (subseqs (i # is)))"
    by (simp add: Let_def comp_def multiset.map_comp)
  finally show ?case .
qed

lemma GetAllCombinationImp_Pow: "set ` set (GetAllCombinationImp [] indexs) = Pow (set indexs)"
  using GetAllCombinationImp_mset [of "[]" indexs]
  by (metis append_Nil list.map_ident_strong set_mset_mset subseqs_powset)

text \<open>\<open>GetAllCombination\<close> lists every sublist of the optional inputs exactly once, \<open>2 ^ k\<close> of them.\<close>

theorem GetAllCombination_subseqs:
  assumes "indexs \<noteq> []"
  shows "\<exists>vecs. GetAllCombination indexs = Inr vecs \<and> mset vecs = mset (subseqs indexs) \<and>
    length vecs = 2 ^ length indexs \<and> set ` set vecs = Pow (set indexs)"
proof -
  let ?v = "GetAllCombinationImp [] indexs"
  have m: "mset ?v = mset (subseqs indexs)" by (simp add: GetAllCombinationImp_mset fun_eq_iff [THEN iffD2, of "(@) []" "\<lambda>x. x"])
  then have "length ?v = 2 ^ length indexs" "set ?v = set (subseqs indexs)"
    by (metis length_subseqs size_mset, metis set_mset_mset)
  then show ?thesis using assms m by (simp add: GetAllCombination_def subseqs_powset)
qed

theorem GetAllCombination_subseqs_witness:
  "\<exists>vecs. GetAllCombination [2, 3, 5] = Inr vecs \<and> length vecs = 8 \<and> set ` set vecs = Pow {2, 3, 5}"
  using GetAllCombination_subseqs [of "[2, 3, 5]"] by auto

lemma SetOptionals_eq:
  assumes "\<forall>i \<in> set vec. i < length ins"
  shows "SetOptionals vec ins = Inr (map (\<lambda>i. if i \<in> set vec then Optional else ins ! i) [0..<length ins])"
  using assms
proof (induction vec arbitrary: ins)
  case Nil
  then show ?case by (simp add: SetOptionals_def map_nth)
next
  case (Cons v vec)
  then have "SetOptionals (v # vec) ins = SetOptionals vec (ins[v := Optional])" by (simp add: SetOptionals_def)
  with Cons show ?case by (auto simp: nth_list_update)
qed

text \<open>The rules \<open>Finish\<close> adds: everything replicated, any of the optional inputs absent.\<close>

definition replicate_rule :: "nat \<Rightarrow> nat \<Rightarrow> nat set \<Rightarrow> Placement list \<times> Placement list" where
  "replicate_rule n m S = (map (\<lambda>i. if i \<in> S then Optional else Replicate) [0..<n], replicate m Replicate)"

lemma Finish_inputs:
  assumes "mCurrentInputSignature b = []" and "mCurrentOptionalIndexs b = []"
  shows "foldl (\<lambda>b i. if i \<in> mAllOptionalIndexs b then AddOptionalInput Replicate b else AddInput Replicate b) b [0..<n] =
    b\<lparr>mCurrentInputSignature := replicate n Replicate,
      mCurrentOptionalIndexs := filter (\<lambda>i. i \<in> mAllOptionalIndexs b) [0..<n]\<rparr>"
proof (induction n)
  case 0
  then show ?case using assms by simp
next
  case (Suc n)
  then show ?case by (simp add: AddOptionalInput_def AddInput_def replicate_append_same)
qed

lemma Finish_outputs:
  assumes "mCurrentOutputSignature b = []"
  shows "foldl (\<lambda>b i. AddOutput Replicate b) b [0..<n] = b\<lparr>mCurrentOutputSignature := replicate n Replicate\<rparr>"
  using assms by (induction n) (simp_all add: AddOutput_def replicate_append_same)

lemma replicate_rule_ok: "n < 8 \<Longrightarrow> sig_pairs_ok n m [replicate_rule n m S]"
  by (auto simp: sig_pairs_ok_def replicate_rule_def plain_tuples_def list_all_iff plain_placement_def
      HasSubSplitCoordinates_def)

lemma Finish_pairs:
  assumes "mCurrentInputSignature b = []" and "mCurrentOutputSignature b = []" and "mCurrentOptionalIndexs b = []"
    and "mAllOptionalIndexs b \<subseteq> {..<bInputSize b}"
  obtains rules where "set rules = replicate_rule (bInputSize b) (bOutputSize b) ` Pow (mAllOptionalIndexs b)"
    and "Builder_Finish b = AddAllPairs (mPlacementSignaturePair b @ rules) (PlacementSignature_new (bInputSize b) (bOutputSize b))"
proof -
  let ?n = "bInputSize b"
  let ?m = "bOutputSize b"
  let ?opt = "filter (\<lambda>i. i \<in> mAllOptionalIndexs b) [0..<?n]"
  have opt: "set ?opt = mAllOptionalIndexs b" using assms(4) by auto
  let ?vecs = "if ?opt = [] then [[]] else GetAllCombinationImp [] ?opt"
  let ?rules = "map (\<lambda>v. replicate_rule ?n ?m (set v)) ?vecs"
  have sub: "set ` set ?vecs = Pow (set ?opt)"
  proof (cases "?opt = []")
    case True
    then show ?thesis by (simp only: if_True) simp
  next
    case False
    then show ?thesis by (simp only: if_False GetAllCombinationImp_Pow)
  qed
  have rules: "set ?rules = replicate_rule ?n ?m ` Pow (mAllOptionalIndexs b)"
    unfolding sub [unfolded opt, symmetric] by (simp only: set_map image_image)
  have so: "SetOptionals v (replicate ?n Replicate) = Inr (fst (replicate_rule ?n ?m (set v)))" if "v \<in> set ?vecs" for v
  proof -
    have "set v \<subseteq> {..<?n}" using sub that opt assms(4) by blast
    then show ?thesis by (subst SetOptionals_eq) (auto simp: replicate_rule_def)
  qed
  have "mapR (\<lambda>vec. bindR (SetOptionals vec (replicate ?n Replicate)) (\<lambda>inputs. Inr (inputs, replicate ?m Replicate))) ?vecs = Inr ?rules"
    by (rule mapR_total) (simp add: so replicate_rule_def del: Pow_iff)
  then have "Builder_Finish b = AddAllPairs (mPlacementSignaturePair b @ ?rules) (PlacementSignature_new ?n ?m)"
    using assms(1-3) by (auto simp: Builder_Finish_def Finish_inputs Finish_outputs Builder_Build_def
        GetAllCombination_def AddAllPairs_def replicate_rule_def Let_def SetOptionals_def)
  with rules that show ?thesis by blast
qed

lemma sig_lookup_last:
  assumes "\<forall>r \<in> set rules. snd r = outs" and "ins \<in> fst ` set rules"
  shows "sig_lookup (pairs @ rules) ins = Some outs"
proof -
  from assms(2) obtain o' where "map_of (rev rules) ins = Some o'"
    by (metis map_of_eq_None_iff not_None_eq set_rev)
  moreover from this assms(1) have "o' = outs" by (force dest: map_of_SomeD)
  ultimately show ?thesis by (simp add: sig_lookup_def)
qed

lemma sig_pairs_ok_append: "sig_pairs_ok n m (xs @ ys) \<longleftrightarrow> sig_pairs_ok n m xs \<and> sig_pairs_ok n m ys"
  by (auto simp: sig_pairs_ok_def)

lemma Finish_match:
  assumes "sig_pairs_ok n m (mPlacementSignaturePair b)" and "bInputSize b = n" and "bOutputSize b = m"
    and "0 < n" and "n < 8" and "0 < m" and "0 < dims"
    and "mCurrentInputSignature b = []" and "mCurrentOutputSignature b = []" and "mCurrentOptionalIndexs b = []"
    and "mAllOptionalIndexs b \<subseteq> {..<n}"
  shows "\<exists>sig rules. Builder_Finish b = Inr sig \<and> sig_represents sig (mPlacementSignaturePair b @ rules) \<and>
    set rules = replicate_rule n m ` Pow (mAllOptionalIndexs b) \<and>
    Match sig (replicate n (replicate dims Replicate)) False = Inr (Some (replicate m (replicate dims Replicate)))"
proof -
  from assms have "mAllOptionalIndexs b \<subseteq> {..<bInputSize b}" by simp
  from Finish_pairs [OF assms(8-10) this] assms(2,3) obtain rules where
    rules: "set rules = replicate_rule n m ` Pow (mAllOptionalIndexs b)"
      "Builder_Finish b = AddAllPairs (mPlacementSignaturePair b @ rules) (PlacementSignature_new n m)" by metis
  let ?pairs = "mPlacementSignaturePair b @ rules"
  have "sig_pairs_ok n m rules" using replicate_rule_ok [OF assms(5)] rules(1) by (auto simp: sig_pairs_ok_def)
  with assms(1) have ok: "sig_pairs_ok n m ?pairs" by (simp add: sig_pairs_ok_append)
  obtain sig where sig: "AddAllPairs ?pairs (PlacementSignature_new n m) = Inr sig" "sig_represents sig ?pairs" "mInputSize sig = n"
    by (rule AddAllPairs_represents [OF ok])
  have ins: "replicate n Replicate = fst (replicate_rule n m {})" by (simp add: replicate_rule_def map_replicate_const)
  have in_rules: "replicate n Replicate \<in> fst ` set rules" unfolding rules(1) ins by (intro imageI) simp
  have look: "sig_lookup ?pairs (replicate n Replicate) = Some (replicate m Replicate)"
    using rules(1) in_rules by (intro sig_lookup_last) (auto simp: replicate_rule_def)
  let ?ins = "replicate n (replicate dims Replicate)"
  have col: "column ?ins i = replicate n Replicate" if "i < dims" for i using that by (simp add: column_def)
  have plain: "replicate n Replicate \<in> plain_tuples n"
    using assms(5) by (auto simp: plain_tuples_def list_all_iff plain_placement_def HasSubSplitCoordinates_def)
  have "match_rows ?pairs m ?ins dims = replicate m (replicate dims Replicate)"
    using assms(7) look col by (auto simp: match_rows_def intro!: nth_equalityI)
  moreover have "Match_loop sig ?ins False [0..<dims] (match_rows ?pairs m ?ins 0) =
    Inr (if \<forall>i \<in> {0..<dims}. column ?ins i \<in> fst ` set ?pairs then Some (match_rows ?pairs m ?ins dims) else None)"
    using col plain by (intro Match_loop_eq [of sig ?pairs n m] sig ok assms) auto
  moreover have "\<forall>i \<in> {0..<dims}. column ?ins i \<in> fst ` set ?pairs" using col in_rules by auto
  ultimately have "Match sig ?ins False = Inr (Some (replicate m (replicate dims Replicate)))"
    using sig(3) assms(4) by (simp add: Match_def match_rows_def)
  with sig rules show ?thesis by metis
qed

text \<open>The table \<open>Finish\<close> returns holds the rules built so far and, added last, the rules with every
  input replicated or, if it is optional, absent; so replicated inputs always match, with replicated
  outputs.\<close>

theorem Finish_replicated:
  assumes "sig_pairs_ok n m (mPlacementSignaturePair b)" and "bInputSize b = n" and "bOutputSize b = m"
    and "0 < n" and "n < 8" and "0 < m" and "0 < dims"
    and "mCurrentInputSignature b = []" and "mCurrentOutputSignature b = []" and "mCurrentOptionalIndexs b = []"
    and "mAllOptionalIndexs b \<subseteq> {..<n}"
  shows "\<exists>sig rules. Builder_Finish b = Inr sig \<and> sig_represents sig (mPlacementSignaturePair b @ rules) \<and>
    set rules = replicate_rule n m ` Pow (mAllOptionalIndexs b) \<and>
    Match sig (replicate n (replicate dims Replicate)) False = Inr (Some (replicate m (replicate dims Replicate)))"
  by (rule Finish_match [OF assms])

theorem Finish_replicated_witness:
  "\<exists>sig. Builder_Finish (Builder_new 2 1) = Inr sig \<and>
    Match sig [[Replicate], [Replicate]] False = Inr (Some [[Replicate]])"
  using Finish_replicated [of 2 1 "Builder_new 2 1" 1]
  by (auto simp: Builder_new_def sig_pairs_ok_def numeral_2_eq_2)

end
