(* ===== verification/Operands.thy ===== *)
theory Operands
  imports DistributedSpecs
begin

text \<open>
  src/dtorch/core/operand.{h,cc}: an operand, that is a tensor of the graph, with the local shapes it
  caches, and src/dtorch/core/operators/operator_cost.{h,cc} and operator_assign_info.h.  The pointers
  to the producing and consuming operators belong to the graph and are not part of the record.  The
  mutex of the cache makes its filling one step.
\<close>

section \<open>Operand\<close>

record operand =
  oShape :: shape
  oStride :: stride
  oDataKind :: DataKind
  oDeviceMesh :: DeviceMesh
  oPlacementSeq :: placement_seq
  oAllLocalShape :: "int \<rightharpoonup> shape"

definition default_mesh :: DeviceMesh where
  "default_mesh = \<lparr>mDeviceKind = kCpu,
     mMesh = \<lparr>mShape = [1], mDimensionNamesMap = [], mData = [0], mDataSet = {0}\<rparr>\<rparr>"

definition Operand_new :: operand where
  "Operand_new = \<lparr>oShape = [], oStride = [], oDataKind = kFloat32, oDeviceMesh = default_mesh,
     oPlacementSeq = [Replicate], oAllLocalShape = Map.empty\<rparr>"

definition Operand_of :: "shape \<Rightarrow> DataKind \<Rightarrow> DeviceMesh \<Rightarrow> placement_seq \<Rightarrow> operand" where
  "Operand_of shape dataKind mesh placementSeq =
     \<lparr>oShape = shape, oStride = Stride_of_Shape shape, oDataKind = dataKind, oDeviceMesh = mesh,
      oPlacementSeq = placementSeq, oAllLocalShape = Map.empty\<rparr>"

definition SetShapeAndStride :: "shape \<Rightarrow> stride \<Rightarrow> operand \<Rightarrow> operand" where
  "SetShapeAndStride shape stride op =
     op\<lparr>oShape := shape, oStride := (if stride = [] then Stride_of_Shape shape else stride),
       oAllLocalShape := Map.empty\<rparr>"

definition SetDataKind :: "DataKind \<Rightarrow> operand \<Rightarrow> operand" where
  "SetDataKind k op = op\<lparr>oDataKind := k\<rparr>"

definition MetaDataSameAs :: "operand \<Rightarrow> operand \<Rightarrow> operand" where
  "MetaDataSameAs other op =
     op\<lparr>oShape := oShape other, oStride := oStride other, oDataKind := oDataKind other,
       oDeviceMesh := oDeviceMesh other, oPlacementSeq := oPlacementSeq other, oAllLocalShape := Map.empty\<rparr>"

definition SetDeviceMeshAndPlacementSeq :: "DeviceMesh \<Rightarrow> placement_seq \<Rightarrow> operand \<Rightarrow> operand" where
  "SetDeviceMeshAndPlacementSeq mesh placementSeq op =
     op\<lparr>oDeviceMesh := mesh, oPlacementSeq := placementSeq, oAllLocalShape := Map.empty\<rparr>"

abbreviation Operand_IsNullTensorShape :: "operand \<Rightarrow> bool" where
  "Operand_IsNullTensorShape op \<equiv> IsNullTensorShape (oShape op)"

definition Operand_IsDistributed :: "operand \<Rightarrow> bool" where
  "Operand_IsDistributed op \<longleftrightarrow> Mesh_IsDistributed (oDeviceMesh op)"

definition Operand_GetTypeString :: "operand \<Rightarrow> string" where
  "Operand_GetTypeString op =
     (let result = (if Operand_IsDistributed op then ''Distribute'' else []) in
      if result = [] then ''Normal'' else result)"

text \<open>Filling the cache, and the readers that fill it first.\<close>

definition Operand_ComputeLocalShape :: "operand \<Rightarrow> operand res" where
  "Operand_ComputeLocalShape op =
     (if card (dom (oAllLocalShape op)) = 0 then
        if Operand_IsDistributed op then
          bindR (ComputeLocalShape (oShape op) (oDeviceMesh op) (oPlacementSeq op))
            (\<lambda>all. Inr (op\<lparr>oAllLocalShape := all\<rparr>))
        else Inr (op\<lparr>oAllLocalShape := [0 \<mapsto> oShape op]\<rparr>)
      else Inr op)"

definition GetLocalShape :: "int \<Rightarrow> operand \<Rightarrow> (shape \<times> operand) res" where
  "GetLocalShape globalDeviceId op =
     bindR (Operand_ComputeLocalShape op) (\<lambda>op.
       let all = oAllLocalShape op in
       assertR (card (dom all) > 0)
        (if card (dom all) = 1 then Inr (the (all (the_elem (dom all))), op)
         else assertR (globalDeviceId \<in> GetDeviceIdSet (oDeviceMesh op))
          (assertR (card (GetDeviceIdSet (oDeviceMesh op)) = card (dom all))
            (case all globalDeviceId of None \<Rightarrow> Inl Abort | Some s \<Rightarrow> Inr (s, op)))))"

definition IsLocalShapeEventSplit :: "operand \<Rightarrow> (bool \<times> operand) res" where
  "IsLocalShapeEventSplit op =
     bindR (Operand_ComputeLocalShape op) (\<lambda>op.
       assertR (card (dom (oAllLocalShape op)) > 0)
         (Inr (card (dom (oAllLocalShape op)) = 1, op)))"

lemma default_mesh_ctor: "DeviceMesh_of_Device GetDefaultCpuDevice = Inr default_mesh"
  using SimpleArray_new_ok [of "[0]" "[1]" "[]"]
  by (simp add: DeviceMesh_of_Device_def DeviceMesh_of_vec_def SimpleArray_of_vec_def GetDefaultCpuDevice_def
      mk_Device_def default_mesh_def)

text \<open>The cache is empty or what a fresh computation gives, and every operation keeps it so.\<close>

definition fresh_local :: "operand \<Rightarrow> (int \<rightharpoonup> shape) res" where
  "fresh_local op = (if Operand_IsDistributed op
     then ComputeLocalShape (oShape op) (oDeviceMesh op) (oPlacementSeq op) else Inr [0 \<mapsto> oShape op])"

definition cache_ok :: "operand \<Rightarrow> bool" where
  "cache_ok op \<longleftrightarrow> finite (dom (oAllLocalShape op)) \<and>
     (oAllLocalShape op = Map.empty \<or> fresh_local op = Inr (oAllLocalShape op))"

inductive operand_step :: "operand \<Rightarrow> operand \<Rightarrow> bool" where
  shape: "operand_step op (SetShapeAndStride s st op)"
| dataKind: "operand_step op (SetDataKind k op)"
| meta: "operand_step op (MetaDataSameAs other op)"
| mesh: "operand_step op (SetDeviceMeshAndPlacementSeq m ps op)"
| read: "GetLocalShape i op = Inr (s, op') \<Longrightarrow> operand_step op op'"
| even: "IsLocalShapeEventSplit op = Inr (b, op') \<Longrightarrow> operand_step op op'"

inductive_cases operand_step_cases: "operand_step op op'"

lemma GetLocalShape_state: "GetLocalShape i op = Inr (s, op') \<Longrightarrow> Operand_ComputeLocalShape op = Inr op'"
  by (auto simp: GetLocalShape_def Let_def bindR_eq_Inr guardR_eq_Inr split: if_splits option.splits)

lemma IsLocalShapeEventSplit_state: "IsLocalShapeEventSplit op = Inr (b, op') \<Longrightarrow> Operand_ComputeLocalShape op = Inr op'"
  by (auto simp: IsLocalShapeEventSplit_def bindR_eq_Inr guardR_eq_Inr)

lemma fresh_local_cache: "fresh_local (op\<lparr>oAllLocalShape := c\<rparr>) = fresh_local op"
  by (simp add: fresh_local_def Operand_IsDistributed_def)

lemma UnevenSplit_finite:
  assumes "UnevenSplit_step shape ms data info r = Inr r'" and "finite (dom r)"
  shows "finite (dom r')"
proof (cases "r' = r")
  case False
  have step: "finite (dom t)" if "finite (dom s)" "bindR (IndexInSelectedDims (int k) st A sst)
      (\<lambda>j. assertR (j < n) (bindR (put_nat (the (s (data ! k))) d (xs ! nat j)) (\<lambda>v. Inr (s(data ! k \<mapsto> v))))) = Inr t"
    for s t k st A sst n d xs
    using that by (auto simp: bindR_eq_Inr guardR_eq_Inr)
  let ?index = "\<lambda>k. IndexInSelectedDims (int k) (Stride_of_Shape ms) (meshDims info)
      (Stride_of_Shape (KeepSelectedDim ms (meshDims info)))"
  from assms(1) False obtain n xs where
    "foldR (\<lambda>k s. bindR (?index k) (\<lambda>j. assertR (j < n)
        (bindR (put_nat (the (s (data ! k))) (shardDim info) (xs ! nat j)) (\<lambda>v. Inr (s(data ! k \<mapsto> v))))))
      [0..<length data] r = Inr r'"
    unfolding UnevenSplit_step_def Let_def by (auto simp: bindR_eq_Inr guardR_eq_Inr split: if_splits)
  then show ?thesis
    by (rule foldR_invariant [where P = "\<lambda>r. finite (dom r)"]) (rule assms(2), rule step)
qed (use assms in simp)

lemma ComputeLocalShape_finite:
  assumes "ComputeLocalShape shape m ps = Inr all"
  shows "finite (dom all)"
proof -
  have init: "finite (dom (foldl (\<lambda>result i. result(i \<mapsto> s)) r xs))" if "finite (dom r)" for s r and xs :: "int list"
    using that by (induction xs arbitrary: r) auto
  from assms obtain infos where "ComputeLocalShape_from infos shape m = Inr all"
    by (auto simp: ComputeLocalShape_def bindR_eq_Inr)
  then consider s where "all = [0 \<mapsto> s]"
    | s where "foldR (UnevenSplit_step shape (Mesh_Shape m) (mData (mMesh m))) infos
        (foldl (\<lambda>result i. result(i \<mapsto> s)) Map.empty (mData (mMesh m))) = Inr all"
    by (auto simp: ComputeLocalShape_from_def bindR_eq_Inr Let_def split: if_splits)
  then show ?thesis
  proof cases
    case (2 s)
    then show ?thesis
      by (rule foldR_invariant) (use init [of Map.empty] UnevenSplit_finite in auto)
  qed simp
qed

lemma fresh_local_finite: "fresh_local op = Inr all \<Longrightarrow> finite (dom all)"
  by (auto simp: fresh_local_def ComputeLocalShape_finite split: if_splits)

lemma Operand_ComputeLocalShape_fresh:
  assumes "cache_ok op" and "Operand_ComputeLocalShape op = Inr op'"
  shows "fresh_local op = Inr (oAllLocalShape op') \<and> op' = op\<lparr>oAllLocalShape := oAllLocalShape op'\<rparr>"
proof (cases "oAllLocalShape op = Map.empty")
  case True
  with assms(2) show ?thesis
    by (auto simp: Operand_ComputeLocalShape_def fresh_local_def bindR_eq_Inr split: if_splits)
next
  case False
  with assms(1) have "card (dom (oAllLocalShape op)) \<noteq> 0" by (simp add: cache_ok_def)
  with False assms show ?thesis by (auto simp: Operand_ComputeLocalShape_def cache_ok_def)
qed

lemma Operand_ComputeLocalShape_cache_ok:
  "cache_ok op \<Longrightarrow> Operand_ComputeLocalShape op = Inr op' \<Longrightarrow> cache_ok op'"
  using Operand_ComputeLocalShape_fresh [of op op'] fresh_local_cache [where op = op and c = "oAllLocalShape op'"]
  by (auto simp: cache_ok_def fresh_local_finite)

text \<open>C4: whatever operations an operand goes through, its cached local shapes are those a computation
  from its present shape, mesh and placements gives.\<close>

theorem operand_cache_coherent:
  assumes "operand_step\<^sup>*\<^sup>* (Operand_of shape k m ps) op"
  shows "cache_ok op"
  using assms
proof (induction rule: rtranclp_induct)
  case base
  then show ?case by (simp add: cache_ok_def Operand_of_def)
next
  case (step op op')
  from step(2) show ?case
  proof (cases rule: operand_step.cases)
    case (dataKind k)
    with step.IH show ?thesis
      by (auto simp: cache_ok_def SetDataKind_def fresh_local_def Operand_IsDistributed_def split: if_splits)
  next
    case (read i s)
    with step.IH show ?thesis by (blast intro: Operand_ComputeLocalShape_cache_ok dest: GetLocalShape_state)
  next
    case (even b)
    with step.IH show ?thesis
      by (blast intro: Operand_ComputeLocalShape_cache_ok dest: IsLocalShapeEventSplit_state)
  qed (auto simp: cache_ok_def SetShapeAndStride_def MetaDataSameAs_def SetDeviceMeshAndPlacementSeq_def)
qed

theorem operand_cache_coherent_witness:
  "cache_ok (SetDeviceMeshAndPlacementSeq gpu_grid [Replicate, Shard 0 (- 1)] (Operand_of [4, 3] kFloat32 gpu_grid [Replicate, Replicate]))"
  by (rule operand_cache_coherent, rule r_into_rtranclp, rule operand_step.mesh)

lemma ComputeLocalShape_eq:
  assumes "layout_ok shape m ps" and "\<forall>x \<in> set (Mesh_Shape m). 0 < x"
  shows "ComputeLocalShape shape m ps =
    Inr (if \<forall>d \<in> sharded_dims ps. even_dim (Mesh_Shape m) ps shape d
      then [0 \<mapsto> local_shape (Mesh_Shape m) ps shape (rank_coord (Mesh_Shape m) 0)]
      else on_ranks (mData (mMesh m)) (\<lambda>k. local_shape (Mesh_Shape m) ps shape (rank_coord (Mesh_Shape m) k)))"
proof -
  from assms(1) have "shards_nonneg ps" "Mesh_NumAxis m = length ps"
    by (auto simp: layout_ok_def shards_nonneg_def list_all_length)
  then obtain ds where ds: "distinct ds" "set ds = sharded_dims ps"
    "GetShardInfo m ps = Inr (map (shard_info (Mesh_Shape m) ps) ds)" by (rule GetShardInfo_eq)
  show ?thesis
    by (simp only: ComputeLocalShape_def ds(3) bindR_Inr ComputeLocalShape_infos [OF assms ds(1,2)])
qed

lemma local_shape_even:
  assumes "layout_ok shape m ps" and "\<forall>d \<in> sharded_dims ps. even_dim (Mesh_Shape m) ps shape d"
    and "in_range (Mesh_Shape m) cs" and "in_range (Mesh_Shape m) cs'"
  shows "local_shape (Mesh_Shape m) ps shape cs = local_shape (Mesh_Shape m) ps shape cs'"
  unfolding local_shape_def
proof (intro map_cong refl)
  fix d
  from assms(1) have n: "length (Mesh_Shape m) = length ps" by (simp add: layout_ok_def)
  show "local_size (Mesh_Shape m) ps shape cs d = local_size (Mesh_Shape m) ps shape cs' d"
  proof (cases "d \<in> sharded_dims ps")
    case True
    with layout_ok_counts [OF assms(1) True] assms(2) show ?thesis
      by (simp add: local_size_even [OF _ _ assms(3) n] local_size_even [OF _ _ assms(4) n])
  next
    case False
    then show ?thesis by (simp add: sharded_dims_def local_size_unsharded)
  qed
qed

lemma dom_on_ranks: "distinct data \<Longrightarrow> dom (on_ranks data f) = set data"
  by (auto simp: on_ranks_None in_set_conv_nth on_ranks_nth intro: ccontr [of "_ \<in> set data"])

lemma Operand_ComputeLocalShape_total:
  "fresh_local op = Inr all \<Longrightarrow> \<exists>op'. Operand_ComputeLocalShape op = Inr op'"
  by (simp add: Operand_ComputeLocalShape_def fresh_local_def split: if_splits)

lemma GetLocalShape_ok:
  assumes "cache_ok op" and "Operand_IsDistributed op"
    and "layout_ok (oShape op) (oDeviceMesh op) (oPlacementSeq op)"
    and "\<forall>x \<in> set (Mesh_Shape (oDeviceMesh op)). 0 < x" and "k < Mesh_Count (oDeviceMesh op)"
  shows "\<exists>op'. GetLocalShape (mData (mMesh (oDeviceMesh op)) ! k) op =
    Inr (local_shape (Mesh_Shape (oDeviceMesh op)) (oPlacementSeq op) (oShape op)
      (rank_coord (Mesh_Shape (oDeviceMesh op)) k), op') \<and> cache_ok op'"
proof -
  let ?m = "oDeviceMesh op" and ?data = "mData (mMesh (oDeviceMesh op))"
  let ?ls = "\<lambda>k. local_shape (Mesh_Shape ?m) (oPlacementSeq op) (oShape op) (rank_coord (Mesh_Shape ?m) k)"
  from assms(3) have wf: "distinct ?data" "GetDeviceIdSet ?m = set ?data" "prod_list (Mesh_Shape ?m) = int (length ?data)"
    by (auto simp: layout_ok_def Mesh_wf_def SimpleArray_wf_def)
  have k: "k < length ?data" using assms(5) by (simp add: Mesh_Count_def)
  let ?even = "\<forall>d \<in> sharded_dims (oPlacementSeq op). even_dim (Mesh_Shape ?m) (oPlacementSeq op) (oShape op) d"
  have fresh: "fresh_local op = Inr (if ?even then [0 \<mapsto> ?ls 0] else on_ranks ?data ?ls)"
    using assms(2) by (simp only: fresh_local_def if_True ComputeLocalShape_eq [OF assms(3,4)])
  then obtain op' where op': "Operand_ComputeLocalShape op = Inr op'"
    using Operand_ComputeLocalShape_total by blast
  note state = Operand_ComputeLocalShape_fresh [OF assms(1) op']
  then have all: "oAllLocalShape op' = (if ?even then [0 \<mapsto> ?ls 0] else on_ranks ?data ?ls)" using fresh by simp
  have mesh: "oDeviceMesh op' = ?m" using state by (metis operand.simps(4) operand.ext_inject operand.surjective operand.update_convs(6))
  have "GetLocalShape (?data ! k) op = Inr (?ls k, op')"
  proof (cases ?even)
    case True
    have "in_range (Mesh_Shape ?m) (rank_coord (Mesh_Shape ?m) j)" if "j < length ?data" for j
      using rank_coord [OF assms(4), of j] wf(3) that by simp
    from this [of k] this [of 0] k have "?ls k = ?ls 0"
      by (intro local_shape_even assms(3) True) (auto dest: gr_implies_not0)
    with True all op' show ?thesis by (simp add: GetLocalShape_def)
  next
    case False
    with all have a: "oAllLocalShape op' = on_ranks ?data ?ls" by simp
    have "length ?data > 1" using assms(2) by (simp add: Operand_IsDistributed_def Mesh_IsDistributed_def Mesh_Count_def)
    then have "card (set ?data) > 1" using wf(1) by (simp add: distinct_card)
    then show ?thesis
      using op' a wf mesh k by (simp add: GetLocalShape_def dom_on_ranks on_ranks_nth)
  qed
  with Operand_ComputeLocalShape_cache_ok [OF assms(1) op'] show ?thesis by blast
qed

text \<open>C3: \<open>GetLocalShape\<close> of a distributed operand with a valid layout gives every device of the mesh the
  reference shape of its local tensor.\<close>

theorem GetLocalShape_correct:
  assumes "cache_ok op" and "Operand_IsDistributed op"
    and "layout_ok (oShape op) (oDeviceMesh op) (oPlacementSeq op)"
    and "\<forall>x \<in> set (Mesh_Shape (oDeviceMesh op)). 0 < x" and "k < Mesh_Count (oDeviceMesh op)"
  shows "\<exists>op'. GetLocalShape (mData (mMesh (oDeviceMesh op)) ! k) op =
    Inr (local_shape (Mesh_Shape (oDeviceMesh op)) (oPlacementSeq op) (oShape op)
      (rank_coord (Mesh_Shape (oDeviceMesh op)) k), op') \<and> cache_ok op'"
  by (rule GetLocalShape_ok [OF assms])

theorem GetLocalShape_correct_witness:
  "\<exists>op'. GetLocalShape 6 (Operand_of [7, 9] kFloat32 gpu_grid [Shard 0 (- 1), Shard 0 (- 1)]) =
    Inr (local_shape [2, 2] [Shard 0 (- 1), Shard 0 (- 1)] [7, 9] (rank_coord [2, 2] 2), op')"
  using GetLocalShape_correct [of "Operand_of [7, 9] kFloat32 gpu_grid [Shard 0 (- 1), Shard 0 (- 1)]" 2] layout_ok_grid(1)
  by (auto simp: Operand_of_def cache_ok_def Operand_IsDistributed_def Mesh_IsDistributed_def)

text \<open>C2: the local shapes that \<open>GetLocalShape\<close> answers for the devices of the mesh cover the tensor: every entry is held
  once for each combination of the mesh axes that do not shard, so the numbers of entries of the local tensors add up to the
  number of entries of the tensor times the product of the sizes of those mesh axes.\<close>

theorem local_shapes_cover:
  assumes "cache_ok op" and "Operand_IsDistributed op"
    and "layout_ok (oShape op) (oDeviceMesh op) (oPlacementSeq op)"
    and "\<forall>x \<in> set (Mesh_Shape (oDeviceMesh op)). 0 < x"
  shows "\<exists>shapes. (\<forall>k < Mesh_Count (oDeviceMesh op). \<exists>op'. GetLocalShape (mData (mMesh (oDeviceMesh op)) ! k) op = Inr (shapes k, op')) \<and>
    (\<Sum>k < Mesh_Count (oDeviceMesh op). prod_list (shapes k)) =
      prod_list (oShape op) * prod_list (nths (Mesh_Shape (oDeviceMesh op)) {i. \<not> IsShard (oPlacementSeq op ! i)})"
  by (intro exI [of _ "\<lambda>k. local_shape (Mesh_Shape (oDeviceMesh op)) (oPlacementSeq op) (oShape op) (rank_coord (Mesh_Shape (oDeviceMesh op)) k)"] conjI
      local_shape_volumes [OF assms(3,4)]) (use GetLocalShape_ok [OF assms] in blast)

theorem local_shapes_cover_witness:
  "\<exists>shapes. (\<forall>k < 4. \<exists>op'. GetLocalShape ([4, 5, 6, 7] ! k) (Operand_of [7, 9] kFloat32 gpu_grid [Shard 0 (- 1), Shard 1 (- 1)]) = Inr (shapes k, op')) \<and>
    (\<Sum>k < 4. prod_list (shapes k)) = 63"
  using local_shapes_cover [of "Operand_of [7, 9] kFloat32 gpu_grid [Shard 0 (- 1), Shard 1 (- 1)]"] layout_ok_grid(2)
  by (simp add: Operand_of_def cache_ok_def Operand_IsDistributed_def Mesh_IsDistributed_def nths_def filter_empty_conv)

section \<open>Cost\<close>

record OperatorCost =
  mFlops :: "int option"
  mBandwidthBytes :: "int option"

definition Cost_none :: OperatorCost where
  "Cost_none = \<lparr>mFlops = None, mBandwidthBytes = None\<rparr>"

definition Cost_Compute :: "int \<Rightarrow> OperatorCost" where
  "Cost_Compute flops = Cost_none\<lparr>mFlops := Some flops\<rparr>"

definition Cost_Memory :: "int \<Rightarrow> OperatorCost" where
  "Cost_Memory bandwidthBytes = Cost_none\<lparr>mBandwidthBytes := Some bandwidthBytes\<rparr>"

definition Cost_ComputeAndMemory :: "int \<Rightarrow> int \<Rightarrow> OperatorCost" where
  "Cost_ComputeAndMemory flops bandwidthBytes =
     Cost_none\<lparr>mFlops := Some flops, mBandwidthBytes := Some bandwidthBytes\<rparr>"

definition Cost_accumulate :: "operand \<Rightarrow> int \<Rightarrow> int res" where
  "Cost_accumulate op totalBytes =
     (if Operand_IsNullTensorShape op then Inr totalBytes
      else bindR (Shape_Count (oShape op)) (\<lambda>c.
        bindR (DataKindSize (oDataKind op)) (\<lambda>n. Inr (totalBytes + c * int n))))"

definition Cost_FromOperands :: "operand list \<Rightarrow> operand list \<Rightarrow> OperatorCost res" where
  "Cost_FromOperands inputs outputs =
     bindR (foldR Cost_accumulate inputs 0) (\<lambda>t. bindR (foldR Cost_accumulate outputs t) (\<lambda>t. Inr (Cost_Memory t)))"

definition IsComputeBound :: "OperatorCost \<Rightarrow> bool" where
  "IsComputeBound c \<longleftrightarrow> mFlops c \<noteq> None"

definition IsMemoryBound :: "OperatorCost \<Rightarrow> bool" where
  "IsMemoryBound c \<longleftrightarrow> mBandwidthBytes c \<noteq> None"

definition HasCost :: "OperatorCost \<Rightarrow> bool" where
  "HasCost c \<longleftrightarrow> mFlops c \<noteq> None \<or> mBandwidthBytes c \<noteq> None"

definition Cost_append :: "string \<Rightarrow> int option \<Rightarrow> string \<times> bool \<Rightarrow> string \<times> bool" where
  "Cost_append key v = (\<lambda>(ss, first). case v of None \<Rightarrow> (ss, first)
     | Some value \<Rightarrow> ((if \<not> first then ss @ '', '' else ss) @ key @ ''='' @ show_int value, False))"

definition Cost_ToString :: "OperatorCost \<Rightarrow> string" where
  "Cost_ToString c =
     (let (ss, first) = Cost_append ''bandwidthBytes'' (mBandwidthBytes c)
            (Cost_append ''flops'' (mFlops c) (''OperatorCost['', True))
      in (if first then ss @ ''none'' else ss) @ '']'')"

text \<open>An operand that is absent or has a real data kind.\<close>

definition has_kind :: "operand \<Rightarrow> bool" where
  "has_kind op \<longleftrightarrow> Operand_IsNullTensorShape op \<or> oDataKind op \<noteq> DataKind_kCount"

definition operand_bytes :: "operand \<Rightarrow> int" where
  "operand_bytes op = (if Operand_IsNullTensorShape op then 0
     else prod_list (oShape op) * (case DataKindSize (oDataKind op) of Inr n \<Rightarrow> int n | Inl e \<Rightarrow> 0))"

lemma DataKindSize_total: "k \<noteq> DataKind_kCount \<Longrightarrow> \<exists>n > 0. DataKindSize k = Inr n"
  by (cases k) (simp_all add: DataKindSize_def)

lemma Cost_accumulate_fold:
  "list_all has_kind ops \<Longrightarrow> foldR Cost_accumulate ops t = Inr (t + (\<Sum>op \<leftarrow> ops. operand_bytes op))"
proof (induction ops arbitrary: t)
  case Nil
  then show ?case by simp
next
  case (Cons op ops)
  then have "Cost_accumulate op t = Inr (t + operand_bytes op)"
    using DataKindSize_total [of "oDataKind op"]
    by (auto simp: Cost_accumulate_def operand_bytes_def has_kind_def)
  with Cons show ?case by simp
qed

text \<open>The default cost of an operator is the memory traffic of its operands, an absent operand
  counting nothing; it has no compute channel, and with non-negative shapes it is not negative.\<close>

theorem Cost_FromOperands_correct:
  assumes "list_all has_kind (inputs @ outputs)"
  shows "\<exists>c. Cost_FromOperands inputs outputs = Inr c \<and> HasCost c \<and> \<not> IsComputeBound c \<and>
    mBandwidthBytes c = Some (\<Sum>op \<leftarrow> filter (\<lambda>op. \<not> Operand_IsNullTensorShape op) (inputs @ outputs). operand_bytes op) \<and>
    ((\<forall>op \<in> set (inputs @ outputs). Operand_IsNullTensorShape op \<or> (\<forall>x \<in> set (oShape op). 0 \<le> x)) \<longrightarrow>
      0 \<le> the (mBandwidthBytes c))"
proof -
  have skip: "(\<Sum>op \<leftarrow> filter (\<lambda>op. \<not> Operand_IsNullTensorShape op) ops. operand_bytes op) = (\<Sum>op \<leftarrow> ops. operand_bytes op)"
    for ops by (induction ops) (auto simp: operand_bytes_def)
  have nonneg: "0 \<le> operand_bytes op" if "Operand_IsNullTensorShape op \<or> (\<forall>x \<in> set (oShape op). 0 \<le> x)" for op
    using that prod_list_nonneg [of "oShape op"] by (auto simp: operand_bytes_def split: sum.split)
  have "0 \<le> (\<Sum>op \<leftarrow> inputs @ outputs. operand_bytes op)"
    if "\<forall>op \<in> set (inputs @ outputs). Operand_IsNullTensorShape op \<or> (\<forall>x \<in> set (oShape op). 0 \<le> x)"
    using that nonneg by (intro sum_list_nonneg) auto
  with assms show ?thesis unfolding skip
    by (simp add: Cost_FromOperands_def Cost_accumulate_fold HasCost_def IsComputeBound_def
        Cost_Memory_def Cost_none_def)
qed

theorem Cost_FromOperands_correct_witness:
  "\<exists>c. Cost_FromOperands [Operand_of [2, 3] kFloat32 gpu_grid [Replicate, Replicate]]
      [Operand_of GetNullShape kFloat32 gpu_grid []] = Inr c \<and> mBandwidthBytes c = Some 24"
proof -
  let ?x = "Operand_of [2, 3] kFloat32 gpu_grid [Replicate, Replicate]"
  let ?n = "Operand_of GetNullShape kFloat32 gpu_grid []"
  have n: "Operand_IsNullTensorShape ?n" "\<not> Operand_IsNullTensorShape ?x"
    by (simp_all add: Operand_of_def IsNullTensorShape_iff) (simp add: GetNullShape_def Shape_new_def)
  then have "list_all has_kind ([?x] @ [?n])" by (simp add: has_kind_def Operand_of_def)
  from Cost_FromOperands_correct [OF this] n show ?thesis
    by (auto simp: operand_bytes_def Operand_of_def DataKindSize_def)
qed

lemma Cost_ToString_cases:
  "Cost_ToString Cost_none = ''OperatorCost[none]''"
  "Cost_ToString (Cost_ComputeAndMemory f b) =
     ''OperatorCost[flops='' @ show_int f @ '', bandwidthBytes='' @ show_int b @ '']''"
  by (simp_all add: Cost_ToString_def Cost_append_def Cost_none_def Cost_ComputeAndMemory_def)

section \<open>Assignment to streams\<close>

record OperatorAssignInfo =
  mMaxGpuId :: int
  mStreamKeySet :: "KernelStreamKey set"

definition AssignInfo_new :: OperatorAssignInfo where
  "AssignInfo_new = \<lparr>mMaxGpuId = - 1, mStreamKeySet = {}\<rparr>"

definition AssignInfo_Insert :: "KernelStreamKey \<Rightarrow> OperatorAssignInfo \<Rightarrow> OperatorAssignInfo" where
  "AssignInfo_Insert key info =
     (let info = info\<lparr>mStreamKeySet := insert key (mStreamKeySet info)\<rparr> in
      if deviceKind (key_device key) = kGpu \<and> deviceId (key_device key) > mMaxGpuId info
      then info\<lparr>mMaxGpuId := deviceId (key_device key)\<rparr> else info)"

definition NumKernelForThisOp :: "OperatorAssignInfo \<Rightarrow> nat" where
  "NumKernelForThisOp info = card (mStreamKeySet info)"

end
