(* ===== verification/Operators.thy ===== *)
theory Operators
  imports Operands PlacementSignatures
begin

text \<open>
  The class \<open>Operator\<close> of src/dtorch/core/operators/operator.{h,cc}: the checks of the inputs, the
  inference of the outputs and the assignment to streams.  What a derived class overrides is the
  record \<open>op_class\<close>; the standard operators fill it in.  The outputs are operands that already exist
  (\<open>CreateOutputOperands\<close>) and are overwritten by the inference.  The total number of GPUs, a global
  of the cluster, is an argument.
\<close>

record op_class =
  vIsRequireInputSameDataKind :: bool
  vCheckInput :: "operand list \<Rightarrow> unit res"
  vInferOutputSize :: nat
  vInferOutputMetaInfo :: "operand list \<Rightarrow> operand list \<Rightarrow> operand list res"
  vSkipDistributedSpec :: "operand list \<Rightarrow> bool res"
  vGetPlacementSignature :: "operand list \<Rightarrow> operand list \<Rightarrow> PlacementSignature res"
  vKeepSubSplitCoordinates :: bool

section \<open>Checks of the inputs\<close>

definition CheckInputSameDataKind :: "bool \<Rightarrow> operand list \<Rightarrow> unit res" where
  "CheckInputSameDataKind isRequire inputs =
     (if length inputs < 1 \<or> \<not> isRequire then Inr ()
      else let expectDataKind = oDataKind (inputs ! 0) in
        foldR (\<lambda>op u. if Operand_IsNullTensorShape op then Inr ()
          else requireR (\<not> oDataKind op \<noteq> expectDataKind) (Inr ())) inputs ())"

definition CheckInputAllDistributedOrNot :: "operand list \<Rightarrow> unit res" where
  "CheckInputAllDistributedOrNot inputs =
     (if length inputs < 1 then Inr ()
      else let isDistributed = Operand_IsDistributed (inputs ! 0) in
        foldR (\<lambda>op u. if Operand_IsNullTensorShape op then Inr ()
          else requireR (\<not> Operand_IsDistributed op \<noteq> isDistributed) (Inr ())) inputs ())"

definition CheckInputSameDeviceMesh :: "operand list \<Rightarrow> unit res" where
  "CheckInputSameDeviceMesh inputs =
     (if length inputs < 1 then Inr ()
      else let expectDeviceMesh = oDeviceMesh (inputs ! 0) in
        foldR (\<lambda>op u. if Operand_IsNullTensorShape op then Inr ()
          else bindR (DeviceMesh_eq expectDeviceMesh (oDeviceMesh op)) (\<lambda>same. requireR same (Inr ()))) inputs ())"

definition CheckInputDistributedSpec :: "int \<Rightarrow> operand list \<Rightarrow> unit res" where
  "CheckInputDistributedSpec totalGpuCount inputs =
     foldR (\<lambda>op u. bindR (CheckValid (oShape op) (oDeviceMesh op) (oPlacementSeq op) totalGpuCount)
       (\<lambda>ok. requireR ok (Inr ()))) inputs ()"

definition CheckInput :: "int \<Rightarrow> op_class \<Rightarrow> operand list \<Rightarrow> unit res" where
  "CheckInput totalGpuCount cls inputs =
     bindR (CheckInputSameDataKind (vIsRequireInputSameDataKind cls) inputs) (\<lambda>_.
     bindR (CheckInputAllDistributedOrNot inputs) (\<lambda>_.
     bindR (CheckInputSameDeviceMesh inputs) (\<lambda>_.
       CheckInputDistributedSpec totalGpuCount inputs)))"

section \<open>Inference\<close>

definition SkipDistributedSpecFromPlacementSignature :: "operand list \<Rightarrow> bool res" where
  "SkipDistributedSpecFromPlacementSignature inputs =
     assertR (length inputs > 0) (Inr (\<not> Operand_IsDistributed (inputs ! 0)))"

definition default_GetPlacementSignature :: "operand list \<Rightarrow> operand list \<Rightarrow> PlacementSignature res" where
  "default_GetPlacementSignature inputs outputs = Builder_Finish (Builder_new (length inputs) (length outputs))"

definition SetOutputSpec :: "DeviceMesh \<Rightarrow> placement_seq list \<Rightarrow> nat \<Rightarrow> operand list \<Rightarrow> operand list res" where
  "SetOutputSpec deviceMesh outputPlacementSeq i outputs =
     guardR Undefined (i < length outputPlacementSeq)
      (let placementSeq = outputPlacementSeq ! i; op = outputs ! i in
       bindR (CheckShapeValid (oShape op) deviceMesh placementSeq) (\<lambda>ok.
         requireR ok (Inr (outputs[i := SetDeviceMeshAndPlacementSeq deviceMesh placementSeq op]))))"

definition InferOutputDistributedSpecFromPlacementSignature ::
    "op_class \<Rightarrow> operand list \<Rightarrow> operand list \<Rightarrow> operand list res" where
  "InferOutputDistributedSpecFromPlacementSignature cls inputs outputs =
     assertR (length inputs > 0)
      (let outputDeviceMesh = oDeviceMesh (inputs ! 0) in
       assertR (Mesh_Count outputDeviceMesh > 1)
        (bindR (vGetPlacementSignature cls inputs outputs) (\<lambda>placementSignature.
         bindR (Match placementSignature (map oPlacementSeq inputs) (vKeepSubSplitCoordinates cls)) (\<lambda>matched.
           case matched of
             None \<Rightarrow> Inl InvalidArgument
           | Some outputPlacementSeq \<Rightarrow>
               foldR (SetOutputSpec outputDeviceMesh outputPlacementSeq) [0..<length outputs] outputs))))"

text \<open>The fatal log message of a wrong number of outputs aborts.  An override of \<open>CheckInput\<close> calls the base class and
  then its own checks, the field \<open>vCheckInput\<close>.\<close>

definition InferOutput :: "int \<Rightarrow> op_class \<Rightarrow> operand list \<Rightarrow> operand list \<Rightarrow> operand list res" where
  "InferOutput totalGpuCount cls inputs outputs =
     assertR (\<not> length outputs \<noteq> vInferOutputSize cls)
      (bindR (CheckInput totalGpuCount cls inputs) (\<lambda>_.
       bindR (vCheckInput cls inputs) (\<lambda>_.
       bindR (vInferOutputMetaInfo cls inputs outputs) (\<lambda>outputs.
       bindR (vSkipDistributedSpec cls inputs) (\<lambda>skip.
         if \<not> skip then InferOutputDistributedSpecFromPlacementSignature cls inputs outputs
         else Inr outputs)))))"

definition CreateOutputOperands :: "op_class \<Rightarrow> operand list" where
  "CreateOutputOperands cls = map (\<lambda>i. Operand_new) [0..<vInferOutputSize cls]"

definition IsDistributedOperator :: "operand list \<Rightarrow> operand list \<Rightarrow> bool res" where
  "IsDistributedOperator inputs outputs =
     assertR (length inputs + length outputs > 0)
      (if length inputs > 0 then Inr (Operand_IsDistributed (inputs ! 0))
       else if length outputs > 0 then Inr (Operand_IsDistributed (outputs ! 0))
       else Inr False)"

definition GetDistributedDeviceIdSet :: "operand list \<Rightarrow> operand list \<Rightarrow> int set res" where
  "GetDistributedDeviceIdSet inputs outputs =
     bindR (IsDistributedOperator inputs outputs) (\<lambda>b. assertR b
      (if length inputs > 0 then Inr (GetDeviceIdSet (oDeviceMesh (inputs ! 0)))
       else assertR (length outputs > 0) (Inr (GetDeviceIdSet (oDeviceMesh (outputs ! 0))))))"

definition GetValidDim :: "shape \<Rightarrow> int \<Rightarrow> nat res" where
  "GetValidDim shape dim =
     (let numAxis = int (NumAxis shape); result = (if dim < 0 then dim + numAxis else dim) in
      requireR (\<not> (result < 0 \<or> result > numAxis)) (Inr (nat result)))"

definition InsertMeshKeys :: "DeviceMesh \<Rightarrow> OperatorAssignInfo \<Rightarrow> OperatorAssignInfo" where
  "InsertMeshKeys m info =
     foldl (\<lambda>info i. AssignInfo_Insert (KernelStreamKey_Init (mDeviceKind m) i kCompute) info) info
       (sorted_list_of_set (GetDeviceIdSet m))"

definition InferOperatorAssignInfo :: "operand list \<Rightarrow> operand list \<Rightarrow> OperatorAssignInfo \<Rightarrow> OperatorAssignInfo res" where
  "InferOperatorAssignInfo inputs outputs info =
     assertR (NumKernelForThisOp info = 0)
      (bindR (foldR (\<lambda>op info. assertR (Mesh_NumAxis (oDeviceMesh op) > 0)
          (Inr (InsertMeshKeys (oDeviceMesh op) info))) inputs info) (\<lambda>info.
       bindR (if length outputs > 0 then
           let deviceMesh = oDeviceMesh (outputs ! 0) in
           assertR (Mesh_NumAxis deviceMesh > 0)
            (bindR (foldR (\<lambda>op u. bindR (DeviceMesh_eq deviceMesh (oDeviceMesh op)) (\<lambda>same. assertR same (Inr ())))
                (tl outputs) ())
              (\<lambda>_. Inr (InsertMeshKeys deviceMesh info)))
         else Inr info) (\<lambda>info.
       assertR (NumKernelForThisOp info > 0) (Inr info))))"

definition Operator_Infer :: "int \<Rightarrow> op_class \<Rightarrow> operand list \<Rightarrow> operand list \<Rightarrow> (operand list \<times> OperatorAssignInfo) res" where
  "Operator_Infer totalGpuCount cls inputs outputs =
     bindR (InferOutput totalGpuCount cls inputs outputs) (\<lambda>outputs.
     bindR (InferOperatorAssignInfo inputs outputs AssignInfo_new) (\<lambda>info. Inr (outputs, info)))"

lemma foldR_unit: "foldR (\<lambda>x u. f x) xs () = Inr () \<longleftrightarrow> (\<forall>x \<in> set xs. f x = Inr ())"
  by (induction xs) (auto simp: bindR_eq_Inr)

lemma foldR_unit_if: "foldR (\<lambda>x u. if P x then Inr () else f x) xs () = Inr () \<longleftrightarrow> (\<forall>x \<in> set xs. P x \<or> f x = Inr ())"
  using foldR_unit [of "\<lambda>x. if P x then Inr () else f x" xs] by auto

lemma CheckInput_iff:
  "CheckInput totalGpuCount cls inputs = Inr () \<longleftrightarrow>
     (\<forall>op \<in> set inputs. CheckValid (oShape op) (oDeviceMesh op) (oPlacementSeq op) totalGpuCount = Inr True) \<and>
     (\<forall>op \<in> set inputs. \<not> Operand_IsNullTensorShape op \<longrightarrow>
        (vIsRequireInputSameDataKind cls \<longrightarrow> oDataKind op = oDataKind (inputs ! 0)) \<and>
        Operand_IsDistributed op = Operand_IsDistributed (inputs ! 0) \<and>
        DeviceMesh_eq (oDeviceMesh (inputs ! 0)) (oDeviceMesh op) = Inr True)"
proof -
  have e: "inputs = [] \<longleftrightarrow> length inputs < 1" by (cases inputs) auto
  have kind: "CheckInputSameDataKind r inputs = Inr () \<longleftrightarrow> (\<forall>op \<in> set inputs. \<not> Operand_IsNullTensorShape op \<longrightarrow>
      r \<longrightarrow> oDataKind op = oDataKind (inputs ! 0))" for r
    by (cases "inputs = []"; cases r) (auto simp: CheckInputSameDataKind_def Let_def foldR_unit_if guardR_eq_Inr)
  have dist: "CheckInputAllDistributedOrNot inputs = Inr () \<longleftrightarrow> (\<forall>op \<in> set inputs. \<not> Operand_IsNullTensorShape op \<longrightarrow>
      Operand_IsDistributed op = Operand_IsDistributed (inputs ! 0))"
    by (cases "inputs = []") (auto simp: CheckInputAllDistributedOrNot_def Let_def foldR_unit_if guardR_eq_Inr)
  have mesh: "CheckInputSameDeviceMesh inputs = Inr () \<longleftrightarrow> (\<forall>op \<in> set inputs. \<not> Operand_IsNullTensorShape op \<longrightarrow>
      DeviceMesh_eq (oDeviceMesh (inputs ! 0)) (oDeviceMesh op) = Inr True)"
    by (cases "inputs = []") (auto simp: CheckInputSameDeviceMesh_def Let_def foldR_unit_if guardR_eq_Inr bindR_eq_Inr)
  have spec: "CheckInputDistributedSpec totalGpuCount inputs = Inr () \<longleftrightarrow>
      (\<forall>op \<in> set inputs. CheckValid (oShape op) (oDeviceMesh op) (oPlacementSeq op) totalGpuCount = Inr True)"
    by (auto simp: CheckInputDistributedSpec_def foldR_unit guardR_eq_Inr bindR_eq_Inr)
  show ?thesis by (auto simp: CheckInput_def bindR_eq_Inr kind dist mesh spec)
qed

lemma SetOutputSpec_fold:
  assumes "foldR (SetOutputSpec m seqs) [0..<k] outs = Inr outs'" and "k \<le> length outs"
  shows "length outs' = length outs \<and> (\<forall>i < length outs. if i < k
    then i < length seqs \<and> CheckShapeValid (oShape (outs ! i)) m (seqs ! i) = Inr True \<and>
      outs' ! i = SetDeviceMeshAndPlacementSeq m (seqs ! i) (outs ! i)
    else outs' ! i = outs ! i)"
  using assms
proof (induction k arbitrary: outs')
  case 0
  then show ?case by simp
next
  case (Suc k)
  then obtain o1 where o1: "foldR (SetOutputSpec m seqs) [0..<k] outs = Inr o1" "SetOutputSpec m seqs k o1 = Inr outs'"
    by (auto simp: foldR_append bindR_eq_Inr)
  with Suc have IH: "length o1 = length outs" "\<And>i. i < length outs \<Longrightarrow> if i < k
    then i < length seqs \<and> CheckShapeValid (oShape (outs ! i)) m (seqs ! i) = Inr True \<and>
      o1 ! i = SetDeviceMeshAndPlacementSeq m (seqs ! i) (outs ! i)
    else o1 ! i = outs ! i" by auto
  from IH(2) [of k] Suc.prems(2) have k: "o1 ! k = outs ! k" by simp
  from o1(2) k have r: "k < length seqs" "CheckShapeValid (oShape (outs ! k)) m (seqs ! k) = Inr True"
    "outs' = o1[k := SetDeviceMeshAndPlacementSeq m (seqs ! k) (outs ! k)]"
    by (auto simp: SetOutputSpec_def Let_def guardR_eq_Inr bindR_eq_Inr)
  show ?case
  proof (intro conjI allI impI)
    show "length outs' = length outs" using r(3) IH(1) by simp
    fix i assume i: "i < length outs"
    show "if i < Suc k then i < length seqs \<and> CheckShapeValid (oShape (outs ! i)) m (seqs ! i) = Inr True \<and>
        outs' ! i = SetDeviceMeshAndPlacementSeq m (seqs ! i) (outs ! i) else outs' ! i = outs ! i"
      using IH(2) [OF i] r i IH(1) by (cases i k rule: linorder_cases) auto
  qed
qed

lemma InferOutput_parts:
  assumes "InferOutput totalGpuCount cls inputs outputs = Inr outs"
    and "vSkipDistributedSpec cls inputs = Inr False"
  shows "\<exists>metas sig seqs. vInferOutputMetaInfo cls inputs outputs = Inr metas \<and>
    vGetPlacementSignature cls inputs metas = Inr sig \<and>
    Match sig (map oPlacementSeq inputs) (vKeepSubSplitCoordinates cls) = Inr (Some seqs) \<and>
    (\<forall>op \<in> set inputs. CheckValid (oShape op) (oDeviceMesh op) (oPlacementSeq op) totalGpuCount = Inr True) \<and>
    length outs = length metas \<and>
    (\<forall>i < length outs. oPlacementSeq (outs ! i) = seqs ! i \<and> oDeviceMesh (outs ! i) = oDeviceMesh (inputs ! 0) \<and>
      oShape (outs ! i) = oShape (metas ! i) \<and> oDataKind (outs ! i) = oDataKind (metas ! i) \<and>
      CheckShapeValid (oShape (outs ! i)) (oDeviceMesh (inputs ! 0)) (seqs ! i) = Inr True)"
proof -
  from assms obtain metas where m: "CheckInput totalGpuCount cls inputs = Inr ()"
    "vInferOutputMetaInfo cls inputs outputs = Inr metas"
    "InferOutputDistributedSpecFromPlacementSignature cls inputs metas = Inr outs"
    by (auto simp: InferOutput_def guardR_eq_Inr bindR_eq_Inr)
  from m(3) obtain sig seqs where s: "vGetPlacementSignature cls inputs metas = Inr sig"
    "Match sig (map oPlacementSeq inputs) (vKeepSubSplitCoordinates cls) = Inr (Some seqs)"
    "foldR (SetOutputSpec (oDeviceMesh (inputs ! 0)) seqs) [0..<length metas] metas = Inr outs"
    by (auto simp: InferOutputDistributedSpecFromPlacementSignature_def Let_def guardR_eq_Inr bindR_eq_Inr
        split: option.splits)
  from SetOutputSpec_fold [OF s(3)] have o: "length outs = length metas"
    "\<forall>i < length metas. CheckShapeValid (oShape (metas ! i)) (oDeviceMesh (inputs ! 0)) (seqs ! i) = Inr True \<and>
      outs ! i = SetDeviceMeshAndPlacementSeq (oDeviceMesh (inputs ! 0)) (seqs ! i) (metas ! i)" by auto
  have "\<forall>op \<in> set inputs. CheckValid (oShape op) (oDeviceMesh op) (oPlacementSeq op) totalGpuCount = Inr True"
    using m(1) CheckInput_iff by blast
  with m(2) s(1,2) o show ?thesis by (auto simp: SetDeviceMeshAndPlacementSeq_def)
qed

text \<open>The keys an operator is assigned to.\<close>

definition compute_keys :: "DeviceMesh \<Rightarrow> KernelStreamKey set" where
  "compute_keys m = (\<lambda>i. KernelStreamKey_Init (mDeviceKind m) i kCompute) ` GetDeviceIdSet m"

definition info_ok :: "OperatorAssignInfo \<Rightarrow> bool" where
  "info_ok info \<longleftrightarrow> finite (mStreamKeySet info) \<and>
     (\<forall>key \<in> mStreamKeySet info. deviceKind (key_device key) = kGpu \<longrightarrow> deviceId (key_device key) \<le> mMaxGpuId info) \<and>
     (mMaxGpuId info = - 1 \<or> (\<exists>key \<in> mStreamKeySet info. deviceKind (key_device key) = kGpu \<and>
       deviceId (key_device key) = mMaxGpuId info))"

lemma AssignInfo_Insert_ok: "info_ok info \<Longrightarrow> info_ok (AssignInfo_Insert key info)"
  by (auto simp: info_ok_def AssignInfo_Insert_def Let_def)

lemma AssignInfo_Insert_keys: "mStreamKeySet (AssignInfo_Insert key info) = insert key (mStreamKeySet info)"
  by (simp add: AssignInfo_Insert_def Let_def)

lemma InsertMeshKeys_ok:
  assumes "finite (GetDeviceIdSet m)" and "info_ok info"
  shows "info_ok (InsertMeshKeys m info) \<and> mStreamKeySet (InsertMeshKeys m info) = mStreamKeySet info \<union> compute_keys m"
proof -
  have "info_ok (foldl (\<lambda>info i. AssignInfo_Insert (f i) info) info is) \<and>
      mStreamKeySet (foldl (\<lambda>info i. AssignInfo_Insert (f i) info) info is) = mStreamKeySet info \<union> f ` set is"
    if "info_ok info" for f :: "int \<Rightarrow> KernelStreamKey" and info "is"
    using that by (induction "is" arbitrary: info) (auto simp: AssignInfo_Insert_ok AssignInfo_Insert_keys)
  from this [OF assms(2)] assms(1) show ?thesis by (simp add: InsertMeshKeys_def compute_keys_def)
qed

lemma InsertMeshKeys_fold:
  assumes "foldR (\<lambda>op info. assertR (Mesh_NumAxis (oDeviceMesh op) > 0) (Inr (InsertMeshKeys (oDeviceMesh op) info))) ops info = Inr info'"
    and "\<forall>op \<in> set ops. finite (GetDeviceIdSet (oDeviceMesh op))" and "info_ok info"
  shows "info_ok info' \<and> mStreamKeySet info' = mStreamKeySet info \<union> (\<Union>op \<in> set ops. compute_keys (oDeviceMesh op))"
  using assms
proof (induction ops arbitrary: info)
  case Nil
  then show ?case by simp
next
  case (Cons op ops)
  then have "foldR (\<lambda>op info. assertR (Mesh_NumAxis (oDeviceMesh op) > 0) (Inr (InsertMeshKeys (oDeviceMesh op) info))) ops
      (InsertMeshKeys (oDeviceMesh op) info) = Inr info'"
    by (simp add: bindR_guardR guardR_eq_Inr)
  with Cons InsertMeshKeys_ok [of "oDeviceMesh op" info] show ?case by auto
qed

lemma AssignInfo_new_ok [simp]: "info_ok AssignInfo_new" "mStreamKeySet AssignInfo_new = {}"
  by (simp_all add: info_ok_def AssignInfo_new_def)

text \<open>An operator is assigned to the compute stream of every device of its inputs and of its first
  output and to no other stream; the recorded GPU number is the largest of them (\<open>-1\<close> without GPUs).\<close>

theorem InferOperatorAssignInfo_correct:
  assumes "InferOperatorAssignInfo inputs outputs AssignInfo_new = Inr info"
    and "\<forall>op \<in> set (inputs @ outputs). finite (GetDeviceIdSet (oDeviceMesh op))"
  shows "mStreamKeySet info = (\<Union>op \<in> set (inputs @ take 1 outputs). compute_keys (oDeviceMesh op)) \<and>
    mStreamKeySet info \<noteq> {} \<and>
    (\<forall>key \<in> mStreamKeySet info. deviceKind (key_device key) = kGpu \<longrightarrow> deviceId (key_device key) \<le> mMaxGpuId info) \<and>
    (mMaxGpuId info = - 1 \<or> (\<exists>key \<in> mStreamKeySet info. deviceKind (key_device key) = kGpu \<and>
       deviceId (key_device key) = mMaxGpuId info))"
proof -
  from assms(1) obtain info1 where 1: "foldR (\<lambda>op info. assertR (Mesh_NumAxis (oDeviceMesh op) > 0)
      (Inr (InsertMeshKeys (oDeviceMesh op) info))) inputs AssignInfo_new = Inr info1"
    and 2: "info = (if outputs = [] then info1 else InsertMeshKeys (oDeviceMesh (outputs ! 0)) info1)"
    and 3: "NumKernelForThisOp info > 0"
    by (auto simp: InferOperatorAssignInfo_def Let_def guardR_eq_Inr bindR_eq_Inr split: if_splits)
  from InsertMeshKeys_fold [OF 1] assms(2) have i1: "info_ok info1"
    "mStreamKeySet info1 = (\<Union>op \<in> set inputs. compute_keys (oDeviceMesh op))" by auto
  have "info_ok info \<and> mStreamKeySet info = (\<Union>op \<in> set (inputs @ take 1 outputs). compute_keys (oDeviceMesh op))"
  proof (cases outputs)
    case Nil
    with 2 i1 show ?thesis by simp
  next
    case (Cons op ops)
    with 2 i1 assms(2) InsertMeshKeys_ok [of "oDeviceMesh op" info1] show ?thesis by auto
  qed
  moreover have "mStreamKeySet info \<noteq> {}" using 3 by (auto simp: NumKernelForThisOp_def)
  ultimately show ?thesis by (intro conjI) (auto simp only: info_ok_def)
qed

theorem InferOperatorAssignInfo_correct_witness:
  "\<exists>info. InferOperatorAssignInfo [Operand_of [7, 9] kFloat32 gpu_grid [Replicate, Replicate]] [] AssignInfo_new = Inr info \<and>
    mStreamKeySet info = (\<lambda>i. KernelStreamKey_Init kGpu i kCompute) ` {4, 5, 6, 7} \<and> mMaxGpuId info \<ge> 7"
proof -
  let ?x = "Operand_of [7, 9] kFloat32 gpu_grid [Replicate, Replicate]"
  have ids: "GetDeviceIdSet gpu_grid = {4, 5, 6, 7}" by (simp add: gpu_grid_def)
  then have k: "mStreamKeySet (InsertMeshKeys gpu_grid AssignInfo_new) = (\<lambda>i. KernelStreamKey_Init kGpu i kCompute) ` {4, 5, 6, 7}"
    using InsertMeshKeys_ok [of gpu_grid AssignInfo_new] by (simp add: compute_keys_def)
  have "finite (mStreamKeySet (InsertMeshKeys gpu_grid AssignInfo_new)) \<and> mStreamKeySet (InsertMeshKeys gpu_grid AssignInfo_new) \<noteq> {}"
    unfolding k by simp
  then have r: "InferOperatorAssignInfo [?x] [] AssignInfo_new = Inr (InsertMeshKeys gpu_grid AssignInfo_new)"
    by (simp add: InferOperatorAssignInfo_def NumKernelForThisOp_def Operand_of_def card_gt_0_iff)
  from InferOperatorAssignInfo_correct [OF r] ids
  have "\<forall>key \<in> mStreamKeySet (InsertMeshKeys gpu_grid AssignInfo_new). deviceKind (key_device key) = kGpu \<longrightarrow>
      deviceId (key_device key) \<le> mMaxGpuId (InsertMeshKeys gpu_grid AssignInfo_new)" by (simp add: Operand_of_def)
  then have "7 \<le> mMaxGpuId (InsertMeshKeys gpu_grid AssignInfo_new)"
    unfolding k by (simp add: KernelStreamKey_Init_def mk_Device_def)
  with r k show ?thesis by blast
qed

end
