(* ===== verification/OpKit.thy ===== *)
theory OpKit
  imports Operators
begin

text \<open>
  What the standard operators share: access to the operands, signature tables written as lists of
  rules (\<open>builder.AddInput(..).AddOutput(..).Build()\<close>), and the interface \<open>dim_map_operator\<close> of the
  operators of one input whose rules send a sharded input axis to one output axis.  Under that
  interface the local computation of every device gives exactly the local shape that the inferred
  layout of the output promises.
\<close>

section \<open>Operands and rules\<close>

definition OperandAt :: "operand list \<Rightarrow> nat \<Rightarrow> operand res" where
  "OperandAt ops i = assertR (i < length ops) (Inr (ops ! i))"

definition UpdateOutput :: "nat \<Rightarrow> (operand \<Rightarrow> operand) \<Rightarrow> operand list \<Rightarrow> operand list res" where
  "UpdateOutput i f outputs = assertR (i < length outputs) (Inr (outputs[i := f (outputs ! i)]))"

type_synonym rule = "Placement list \<times> Placement list"

definition AddRule :: "rule \<Rightarrow> sig_builder \<Rightarrow> sig_builder res" where
  "AddRule r b = Builder_Build (fold AddOutput (snd r) (fold AddInput (fst r) b))"

definition BuildRules :: "nat \<Rightarrow> nat \<Rightarrow> rule list \<Rightarrow> PlacementSignature res" where
  "BuildRules n m rules = bindR (foldR AddRule rules (Builder_new n m)) Builder_Finish"

text \<open>The output shape of an operator of one input that copies the other meta data.\<close>

definition UnaryMeta :: "(shape \<Rightarrow> shape res) \<Rightarrow> operand list \<Rightarrow> operand list \<Rightarrow> operand list res" where
  "UnaryMeta infer inputs outputs =
     assertR (length inputs = 1)
      (bindR (OperandAt inputs 0) (\<lambda>x. bindR (infer (oShape x)) (\<lambda>t.
         UpdateOutput 0 (\<lambda>y. SetShapeAndStride t [] (MetaDataSameAs x y)) outputs)))"

text \<open>An operator of one input that only checks the shape and copies all meta data.\<close>

definition CopyMeta :: "(shape \<Rightarrow> shape res) \<Rightarrow> operand list \<Rightarrow> operand list \<Rightarrow> operand list res" where
  "CopyMeta check inputs outputs =
     assertR (length inputs = 1)
      (bindR (OperandAt inputs 0) (\<lambda>x. bindR (check (oShape x)) (\<lambda>_. UpdateOutput 0 (MetaDataSameAs x) outputs)))"

definition unary_class :: "(shape \<Rightarrow> shape res) \<Rightarrow> (shape \<Rightarrow> rule list res) \<Rightarrow> op_class" where
  "unary_class infer rules = \<lparr>vIsRequireInputSameDataKind = True, vCheckInput = (\<lambda>_. Inr ()), vInferOutputSize = 1,
     vInferOutputMetaInfo = UnaryMeta infer,
     vSkipDistributedSpec = SkipDistributedSpecFromPlacementSignature,
     vGetPlacementSignature = (\<lambda>inputs outputs. bindR (OperandAt inputs 0) (\<lambda>x. bindR (rules (oShape x))
       (BuildRules (length inputs) (length outputs)))),
     vKeepSubSplitCoordinates = True\<rparr>"

lemma fold_AddInput: "fold AddInput ps b = b\<lparr>mCurrentInputSignature := mCurrentInputSignature b @ ps\<rparr>"
  by (induction ps arbitrary: b) (simp_all add: AddInput_def)

lemma fold_AddOutput: "fold AddOutput ps b = b\<lparr>mCurrentOutputSignature := mCurrentOutputSignature b @ ps\<rparr>"
  by (induction ps arbitrary: b) (simp_all add: AddOutput_def)

text \<open>A builder between two calls of \<open>Build\<close>, without optional inputs.\<close>

definition builder_idle :: "sig_builder \<Rightarrow> bool" where
  "builder_idle b \<longleftrightarrow> mCurrentInputSignature b = [] \<and> mCurrentOutputSignature b = [] \<and>
     mCurrentOptionalIndexs b = [] \<and> mAllOptionalIndexs b = {}"

lemma AddRule_idle:
  assumes "builder_idle b" and "AddRule r b = Inr b'"
  shows "builder_idle b' \<and> mPlacementSignaturePair b' = mPlacementSignaturePair b @ [r] \<and>
    bInputSize b' = bInputSize b \<and> bOutputSize b' = bOutputSize b \<and>
    length (fst r) = bInputSize b \<and> length (snd r) = bOutputSize b"
  using assms by (auto simp: builder_idle_def AddRule_def fold_AddInput fold_AddOutput Builder_Build_def guardR_eq_Inr)

lemma AddRules_idle:
  assumes "foldR AddRule rules b = Inr b'" and "builder_idle b"
  shows "builder_idle b' \<and> mPlacementSignaturePair b' = mPlacementSignaturePair b @ rules \<and>
    bInputSize b' = bInputSize b \<and> bOutputSize b' = bOutputSize b \<and>
    (\<forall>r \<in> set rules. length (fst r) = bInputSize b \<and> length (snd r) = bOutputSize b)"
  using assms
proof (induction rules arbitrary: b)
  case Nil
  then show ?case by simp
next
  case (Cons r rules)
  then obtain b1 where b1: "AddRule r b = Inr b1" "foldR AddRule rules b1 = Inr b'" by (auto simp: bindR_eq_Inr)
  from AddRule_idle [OF Cons.prems(2) b1(1)] Cons.IH [OF b1(2)] show ?case by simp
qed

text \<open>A table that could be built only holds inputs its key can tell apart.\<close>

definition simple_placement :: "Placement \<Rightarrow> bool" where
  "simple_placement p \<longleftrightarrow> Placement_wf p \<and> \<not> HasSubSplitCoordinates p"

lemma simple_placements [simp]: "simple_placement Replicate" "simple_placement Partial" "simple_placement (Shard i (- 1))"
  by (simp_all add: simple_placement_def HasSubSplitCoordinates_def)

lemma GetHashKey_plain:
  assumes "GetHashKey ins = Inr h" and "list_all simple_placement ins"
  shows "ins \<in> plain_tuples (length ins)"
proof -
  have "list_all plain_placement ps"
    if "foldR (\<lambda>p result. bindR (Placement_ToHashKey p) (\<lambda>k. Inr (push_bit 8 result OR (k AND 0xFF)))) ps r = Inr h"
      and "list_all simple_placement ps" for ps r
    using that
  proof (induction ps arbitrary: r)
    case Nil
    then show ?case by simp
  next
    case (Cons p ps)
    then have "\<exists>k. Placement_ToHashKey p = Inr k" by (auto simp: bindR_eq_Inr)
    with Cons.prems(2) have "plain_placement p"
      using Placement_ToHashKey_domain [of p] by (auto simp: simple_placement_def plain_placement_def)
    with Cons show ?case by (auto simp: bindR_eq_Inr)
  qed
  with assms show ?thesis by (auto simp: GetHashKey_def plain_tuples_def guardR_eq_Inr)
qed

lemma AddAllPairs_plain:
  assumes "AddAllPairs pairs sig = Inr sig'" and "\<forall>r \<in> set pairs. list_all simple_placement (fst r)"
  shows "sig_pairs_ok (mInputSize sig) (mOutputSize sig) pairs"
  using assms unfolding AddAllPairs_def
proof (induction pairs arbitrary: sig)
  case Nil
  then show ?case by (simp add: sig_pairs_ok_def)
next
  case (Cons r pairs)
  then obtain s1 where s1: "AddPlacementSignaturePair r sig = Inr s1" "foldR AddPlacementSignaturePair pairs s1 = Inr sig'"
    by (auto simp: bindR_eq_Inr)
  then obtain h where "GetHashKey (fst r) = Inr h" and len: "length (fst r) = mInputSize sig" "length (snd r) = mOutputSize sig"
    and sz: "mInputSize s1 = mInputSize sig" "mOutputSize s1 = mOutputSize sig"
    by (auto simp: AddPlacementSignaturePair_def hm_put_def bindR_eq_Inr guardR_eq_Inr)
  with Cons.prems(2) have "fst r \<in> plain_tuples (mInputSize sig)" using GetHashKey_plain [of "fst r" h] by auto
  moreover have "sig_pairs_ok (mInputSize s1) (mOutputSize s1) pairs" using Cons.IH [OF s1(2)] Cons.prems(2) by simp
  ultimately show ?case using len sz by (cases r) (simp add: sig_pairs_ok_def)
qed

lemma BuildRules_represents:
  assumes "BuildRules n m rules = Inr sig" and "\<forall>r \<in> set rules. list_all simple_placement (fst r)"
  obtains reps where "sig_represents sig (rules @ reps)" and "set reps = {replicate_rule n m {}}"
    and "mInputSize sig = n" and "mOutputSize sig = m" and "sig_pairs_ok n m (rules @ reps)"
proof -
  from assms(1) obtain b where b: "foldR AddRule rules (Builder_new n m) = Inr b" "Builder_Finish b = Inr sig"
    by (auto simp: BuildRules_def bindR_eq_Inr)
  have "builder_idle (Builder_new n m)" by (simp add: builder_idle_def Builder_new_def)
  from AddRules_idle [OF b(1) this] have i: "builder_idle b" "mPlacementSignaturePair b = rules" "bInputSize b = n" "bOutputSize b = m"
    by (auto simp: Builder_new_def)
  then obtain reps where reps: "set reps = replicate_rule n m ` Pow {}"
    "Builder_Finish b = AddAllPairs (rules @ reps) (PlacementSignature_new n m)"
    using Finish_pairs [of b] by (auto simp: builder_idle_def)
  have simp: "\<forall>r \<in> set (rules @ reps). list_all simple_placement (fst r)"
    using assms(2) reps(1) by (auto simp: replicate_rule_def list_all_iff)
  have add: "AddAllPairs (rules @ reps) (PlacementSignature_new n m) = Inr sig" using b(2) reps(2) by simp
  from AddAllPairs_plain [OF add simp] have ok: "sig_pairs_ok n m (rules @ reps)" by (simp add: PlacementSignature_new_def)
  obtain sig' where "AddAllPairs (rules @ reps) (PlacementSignature_new n m) = Inr sig'"
    "sig_represents sig' (rules @ reps)" "mInputSize sig' = n" "mOutputSize sig' = m"
    by (rule AddAllPairs_represents [OF ok])
  with add reps(1) ok that show ?thesis by auto
qed

section \<open>Matching one input\<close>

lemma Match_loop_keep:
  assumes "\<forall>i \<in> set is. \<forall>input \<in> set inputs. i < length input \<and> \<not> HasSubSplitCoordinates (input ! i)"
  shows "Match_loop sig inputs keep is result = Match_loop sig inputs False is result"
  using assms
proof (induction "is" arbitrary: result)
  case Nil
  then show ?case by simp
next
  case (Cons i "is")
  then have col: "GetInputPlacementSignature inputs i = Inr (column inputs i)"
    by (simp add: GetInputPlacementSignature_eq)
  have "List.find HasSubSplitCoordinates (column inputs i) = None"
    using Cons.prems by (auto simp: find_None_iff column_def)
  then have copy: "CopySubSplit (column inputs i) outs = Inr outs" for outs by (simp add: CopySubSplit_def)
  have IH: "Match_loop sig inputs keep is = Match_loop sig inputs False is"
    by (rule ext) (use Cons in simp)
  have "(if keep then CopySubSplit (column inputs i) outs else Inr outs) = Inr outs" for outs
    using copy by simp
  then show ?case by (simp only: Match_loop.simps col bindR_Inr IH if_False)
qed

lemma Match_unary:
  assumes "sig_represents sig pairs" and "sig_pairs_ok 1 1 pairs" and "mInputSize sig = 1"
    and "list_all plain_placement ps" and "ps \<noteq> []" and "Match sig [ps] keep = Inr (Some seqs)"
  obtains qs where "seqs = [qs]" and "length qs = length ps" and "\<forall>i < length ps. ([ps ! i], [qs ! i]) \<in> set pairs"
proof -
  have plain: "plain_placement (ps ! i)" if "i < length ps" for i using assms(4) that by (simp add: list_all_length)
  then have nosub: "\<forall>i \<in> set [0..<length ps]. \<forall>input \<in> set [ps]. i < length input \<and> \<not> HasSubSplitCoordinates (input ! i)"
    by (simp add: plain_placement_def)
  have col: "column [ps] i = [ps ! i]" for i by (simp add: column_def)
  have "Match_loop sig [ps] False [0..<length ps] (match_rows pairs 1 [ps] 0) =
    Inr (if \<forall>i \<in> {0..<length ps}. column [ps] i \<in> fst ` set pairs then Some (match_rows pairs 1 [ps] (length ps)) else None)"
    using plain by (intro Match_loop_eq [OF assms(1-3)]) (auto simp: col plain_tuples_def)
  moreover have "Match sig [ps] keep = Match_loop sig [ps] False [0..<length ps] (match_rows pairs 1 [ps] 0)"
    using assms(3) Match_loop_keep [OF nosub, of sig keep] by (simp add: Match_def match_rows_def)
  ultimately have m: "\<forall>i < length ps. [ps ! i] \<in> fst ` set pairs" "seqs = match_rows pairs 1 [ps] (length ps)"
    using assms(6) by (auto simp: col split: if_splits)
  let ?qs = "map (\<lambda>i. the (sig_lookup pairs [ps ! i]) ! 0) [0..<length ps]"
  have "([ps ! i], [?qs ! i]) \<in> set pairs" if i: "i < length ps" for i
  proof -
    from m(1) i obtain outs where outs: "sig_lookup pairs [ps ! i] = Some outs"
      using sig_lookup_None [of pairs "[ps ! i]"] by auto
    then have "length outs = 1" by (rule sig_lookup_length [OF assms(2)])
    then have "outs = [outs ! 0]" by (cases outs) auto
    moreover have "([ps ! i], outs) \<in> set pairs" using outs by (auto simp: sig_lookup_def dest: map_of_SomeD)
    ultimately show ?thesis using outs i by simp
  qed
  moreover have "seqs = [?qs]" using m(2) assms(5) by (simp add: match_rows_def col)
  ultimately show ?thesis using that [of ?qs] by simp
qed

section \<open>Inference, exactly\<close>

text \<open>When the shards of a layout fit a shape.\<close>

lemma CheckShapeValid_True:
  assumes "shards_nonneg ps" and "Mesh_NumAxis m = length ps"
  shows "CheckShapeValid shape m ps = Inr True \<longleftrightarrow>
    (\<forall>d \<in> sharded_dims ps. d < length shape \<and> shard_count (Mesh_Shape m) ps d \<le> shape ! d)"
proof -
  obtain ds where ds: "set ds = sharded_dims ps" "GetShardInfo m ps = Inr (map (shard_info (Mesh_Shape m) ps) ds)"
    by (rule GetShardInfo_eq [OF assms])
  show ?thesis
    by (simp add: CheckShapeValid_def ds(2) allR_True bindR_eq_Inr at_nat_eq_Inr shard_info_def not_less ds(1) [symmetric])
qed

lemma SetOutputSpec_iff:
  assumes "length outs \<le> length seqs"
  shows "foldR (SetOutputSpec m seqs) [0..<length outs] outs = Inr outs' \<longleftrightarrow>
    (\<forall>i < length outs. CheckShapeValid (oShape (outs ! i)) m (seqs ! i) = Inr True) \<and>
    outs' = map (\<lambda>i. SetDeviceMeshAndPlacementSeq m (seqs ! i) (outs ! i)) [0..<length outs]"
proof
  assume "foldR (SetOutputSpec m seqs) [0..<length outs] outs = Inr outs'"
  from SetOutputSpec_fold [OF this] show "(\<forall>i < length outs. CheckShapeValid (oShape (outs ! i)) m (seqs ! i) = Inr True) \<and>
    outs' = map (\<lambda>i. SetDeviceMeshAndPlacementSeq m (seqs ! i) (outs ! i)) [0..<length outs]"
    by (auto intro: nth_equalityI)
next
  assume r: "(\<forall>i < length outs. CheckShapeValid (oShape (outs ! i)) m (seqs ! i) = Inr True) \<and>
    outs' = map (\<lambda>i. SetDeviceMeshAndPlacementSeq m (seqs ! i) (outs ! i)) [0..<length outs]"
  have "\<exists>o1. foldR (SetOutputSpec m seqs) [0..<k] outs = Inr o1" if "k \<le> length outs" for k
    using that
  proof (induction k)
    case (Suc k)
    then obtain o1 where o1: "foldR (SetOutputSpec m seqs) [0..<k] outs = Inr o1" by auto
    from SetOutputSpec_fold [OF this] Suc.prems have "o1 ! k = outs ! k" by auto
    with r Suc.prems assms have "\<exists>o2. SetOutputSpec m seqs k o1 = Inr o2" by (simp add: SetOutputSpec_def Let_def)
    with o1 show ?case by (auto simp: foldR_append)
  qed simp
  then obtain o1 where o1: "foldR (SetOutputSpec m seqs) [0..<length outs] outs = Inr o1" by blast
  from SetOutputSpec_fold [OF this] r have "o1 = outs'" by (auto intro: nth_equalityI)
  with o1 show "foldR (SetOutputSpec m seqs) [0..<length outs] outs = Inr outs'" by simp
qed

text \<open>The placements of the outputs on one axis: replicated for replicated inputs, otherwise those of the last rule for the inputs.\<close>

definition rule_output :: "rule list \<Rightarrow> nat \<Rightarrow> nat \<Rightarrow> Placement list \<Rightarrow> Placement list" where
  "rule_output rules n m ins = (if ins = replicate n Replicate then replicate m Replicate else the (map_of (rev rules) ins))"

lemma rule_output_lookup:
  assumes "set reps = {replicate_rule n m {}}"
  shows "fst ` set (rules @ reps) = insert (replicate n Replicate) (fst ` set rules)"
    and "the (sig_lookup (rules @ reps) ins) = rule_output rules n m ins"
proof -
  have r: "fst ` set reps = {replicate n Replicate}" "\<forall>r \<in> set reps. snd r = replicate m Replicate"
    using assms by (simp_all add: replicate_rule_def map_replicate_const)
  then show "fst ` set (rules @ reps) = insert (replicate n Replicate) (fst ` set rules)" by auto
  show "the (sig_lookup (rules @ reps) ins) = rule_output rules n m ins"
  proof (cases "ins = replicate n Replicate")
    case True
    with r sig_lookup_last [of reps "replicate m Replicate" ins rules] show ?thesis by (simp add: rule_output_def)
  next
    case False
    with r(1) have "map_of (rev reps) ins = None" by (simp add: map_of_eq_None_iff)
    with False show ?thesis by (simp add: rule_output_def sig_lookup_def map_add_def)
  qed
qed

lemma Match_iff:
  assumes sig: "BuildRules n m rules = Inr sig" "\<forall>r \<in> set rules. list_all simple_placement (fst r)"
    and ins: "length inputs = n" "inputs \<noteq> []" "0 < m" "0 < k"
    and len: "\<forall>ps \<in> set inputs. length ps = k \<and> list_all plain_placement ps"
  shows "Match sig inputs keep = Inr (if \<forall>i < k. column inputs i \<in> insert (replicate n Replicate) (fst ` set rules)
    then Some (map (\<lambda>j. map (\<lambda>i. rule_output rules n m (column inputs i) ! j) [0..<k]) [0..<m]) else None)"
proof -
  from BuildRules_represents [OF sig] obtain reps where reps: "sig_represents sig (rules @ reps)"
    "set reps = {replicate_rule n m {}}" "mInputSize sig = n" "sig_pairs_ok n m (rules @ reps)" by metis
  have n: "n < 8" using reps(2,4) by (auto simp: sig_pairs_ok_def replicate_rule_def plain_tuples_def)
  have plain: "column inputs i \<in> plain_tuples n" if "i < k" for i
    using len that n ins(1) by (auto simp: plain_tuples_def column_def list_all_iff)
  have nosub: "\<forall>i \<in> set [0..<k]. \<forall>input \<in> set inputs. i < length input \<and> \<not> HasSubSplitCoordinates (input ! i)"
    using len by (auto simp: list_all_length plain_placement_def)
  have hd: "length (inputs ! 0) = k" using len ins(2) by simp
  have "Match_loop sig inputs False [0..<k] (match_rows (rules @ reps) m inputs 0) =
    Inr (if \<forall>i \<in> {0..<k}. column inputs i \<in> fst ` set (rules @ reps) then Some (match_rows (rules @ reps) m inputs k) else None)"
    using len plain by (intro Match_loop_eq [OF reps(1,4,3) ins(3)]) auto
  then have "Match sig inputs keep =
    Inr (if \<forall>i \<in> {0..<k}. column inputs i \<in> fst ` set (rules @ reps) then Some (match_rows (rules @ reps) m inputs k) else None)"
    using ins reps(3) hd Match_loop_keep [OF nosub, of sig keep] by (simp add: Match_def match_rows_def)
  then have "Match sig inputs keep = Inr (if \<forall>i \<in> {0..<k}. column inputs i \<in> insert (replicate n Replicate) (fst ` set rules)
      then Some (match_rows (rules @ reps) m inputs k) else None)"
    by (simp only: rule_output_lookup(1) [OF reps(2)])
  moreover have "match_rows (rules @ reps) m inputs k = map (\<lambda>j. map (\<lambda>i. rule_output rules n m (column inputs i) ! j) [0..<k]) [0..<m]"
    using ins(4) by (simp add: match_rows_def rule_output_lookup(2) [OF reps(2)])
  moreover have "(\<forall>i \<in> {0..<k}. P i) \<longleftrightarrow> (\<forall>i < k. P i)" for P by auto
  ultimately show ?thesis by simp
qed

text \<open>The requirements on the inputs, for operands that are present and live on well formed meshes.\<close>

definition operand_accepted :: "int \<Rightarrow> bool \<Rightarrow> operand \<Rightarrow> operand \<Rightarrow> bool" where
  "operand_accepted gpus sameKind x0 x \<longleftrightarrow> layout_ok (oShape x) (oDeviceMesh x) (oPlacementSeq x) \<and>
     (mDeviceKind (oDeviceMesh x) \<noteq> kCpu \<longrightarrow> (\<forall>i \<in> set (mData (mMesh (oDeviceMesh x))). i < gpus)) \<and>
     mDeviceKind (oDeviceMesh x) = mDeviceKind (oDeviceMesh x0) \<and> Mesh_Shape (oDeviceMesh x) = Mesh_Shape (oDeviceMesh x0) \<and>
     mData (mMesh (oDeviceMesh x)) = mData (mMesh (oDeviceMesh x0)) \<and>
     map_of (mDimensionNamesMap (mMesh (oDeviceMesh x))) = map_of (mDimensionNamesMap (mMesh (oDeviceMesh x0))) \<and>
     (sameKind \<longrightarrow> oDataKind x = oDataKind x0)"

lemma CheckInput_exact:
  assumes ins: "inputs \<noteq> []" "\<forall>x \<in> set inputs. Mesh_wf (oDeviceMesh x) \<and> \<not> IsNullTensorShape (oShape x) \<and> list_all plain_placement (oPlacementSeq x)"
    and dist: "Operand_IsDistributed (inputs ! 0)"
  shows "CheckInput gpus cls inputs = Inr () \<longleftrightarrow> (\<forall>x \<in> set inputs. operand_accepted gpus (vIsRequireInputSameDataKind cls) (inputs ! 0) x)"
proof -
  have hd: "inputs ! 0 \<in> set inputs" using ins(1) by simp
  have one: "CheckValid (oShape x) (oDeviceMesh x) (oPlacementSeq x) gpus = Inr True \<and>
      (\<not> IsNullTensorShape (oShape x) \<longrightarrow> (vIsRequireInputSameDataKind cls \<longrightarrow> oDataKind x = oDataKind (inputs ! 0)) \<and>
        Operand_IsDistributed x = Operand_IsDistributed (inputs ! 0) \<and>
        DeviceMesh_eq (oDeviceMesh (inputs ! 0)) (oDeviceMesh x) = Inr True) \<longleftrightarrow>
      operand_accepted gpus (vIsRequireInputSameDataKind cls) (inputs ! 0) x" if x: "x \<in> set inputs" for x
  proof -
    have wf: "Mesh_wf (oDeviceMesh x)" "Mesh_wf (oDeviceMesh (inputs ! 0))" and null: "\<not> IsNullTensorShape (oShape x)"
      and plain: "list_all plain_placement (oPlacementSeq x)" using ins(2) x hd by auto
    have eq: "DeviceMesh_eq (oDeviceMesh (inputs ! 0)) (oDeviceMesh x) = Inr True \<longleftrightarrow>
        mDeviceKind (oDeviceMesh x) = mDeviceKind (oDeviceMesh (inputs ! 0)) \<and> Mesh_Shape (oDeviceMesh x) = Mesh_Shape (oDeviceMesh (inputs ! 0)) \<and>
        mData (mMesh (oDeviceMesh x)) = mData (mMesh (oDeviceMesh (inputs ! 0))) \<and>
        map_of (mDimensionNamesMap (mMesh (oDeviceMesh x))) = map_of (mDimensionNamesMap (mMesh (oDeviceMesh (inputs ! 0))))"
      using wf by (auto simp: DeviceMesh_eq_def Mesh_wf_def SimpleArray_eq_wf)
    have sub: "\<forall>p \<in> set (oPlacementSeq x). IsShard p \<longrightarrow> - 1 \<le> mSubSplitCoordinates p"
      using plain by (auto simp: list_all_iff plain_placement_def HasSubSplitCoordinates_def)
    have ne: "oPlacementSeq x \<noteq> []"
      if "layout_ok (oShape x) (oDeviceMesh x) (oPlacementSeq x)" "mData (mMesh (oDeviceMesh x)) = mData (mMesh (oDeviceMesh (inputs ! 0)))"
    proof
      assume "oPlacementSeq x = []"
      with that(1) have "Mesh_Shape (oDeviceMesh x) = []" by (simp add: layout_ok_def)
      with Mesh_wf_count [OF wf(1)] that(2) dist show False
        by (simp add: Operand_IsDistributed_def Mesh_IsDistributed_def Mesh_Count_def)
    qed
    have count: "mData (mMesh (oDeviceMesh x)) = mData (mMesh (oDeviceMesh (inputs ! 0))) \<Longrightarrow>
        1 < Mesh_Count (oDeviceMesh x) \<and> Operand_IsDistributed x"
      using dist by (simp add: Operand_IsDistributed_def Mesh_IsDistributed_def Mesh_Count_def)
    show ?thesis
      using CheckValid_iff [OF wf(1) null, of "oPlacementSeq x" gpus] null eq sub ne count dist
      unfolding operand_accepted_def by auto
  qed
  show ?thesis unfolding CheckInput_iff using one by blast
qed

text \<open>What the operator announces for its outputs.\<close>

definition inferred_outputs :: "rule list \<Rightarrow> operand list \<Rightarrow> operand list \<Rightarrow> operand list" where
  "inferred_outputs rules inputs metas = map (\<lambda>j. (metas ! j)\<lparr>oDeviceMesh := oDeviceMesh (inputs ! 0),
     oPlacementSeq := map (\<lambda>i. rule_output rules (length inputs) (length metas) (column (map oPlacementSeq inputs) i) ! j)
       [0..<length (oPlacementSeq (inputs ! 0))],
     oAllLocalShape := Map.empty\<rparr>) [0..<length metas]"

lemma length_inferred_outputs [simp]: "length (inferred_outputs rules inputs metas) = length metas"
  by (simp add: inferred_outputs_def)

definition shards_fit :: "operand \<Rightarrow> bool" where
  "shards_fit y \<longleftrightarrow> (\<forall>d \<in> sharded_dims (oPlacementSeq y). d < length (oShape y) \<and>
     shard_count (Mesh_Shape (oDeviceMesh y)) (oPlacementSeq y) d \<le> oShape y ! d)"

lemma InferOutput_iff:
  assumes size: "length outputs = vInferOutputSize cls" and dist: "vSkipDistributedSpec cls inputs = Inr False"
    and ins: "inputs \<noteq> []" "Operand_IsDistributed (inputs ! 0)"
      "\<forall>x \<in> set inputs. Mesh_wf (oDeviceMesh x) \<and> \<not> IsNullTensorShape (oShape x) \<and> list_all plain_placement (oPlacementSeq x)"
    and own: "vCheckInput cls inputs = Inr ()"
    and meta: "vInferOutputMetaInfo cls inputs outputs = Inr metas" "metas \<noteq> []"
    and table: "vGetPlacementSignature cls inputs metas = BuildRules (length inputs) (length metas) rules"
      "BuildRules (length inputs) (length metas) rules = Inr sig"
    and rules: "\<forall>r \<in> set rules. list_all simple_placement (fst r) \<and> shards_nonneg (snd r)"
  shows "InferOutput gpus cls inputs outputs = Inr outs \<longleftrightarrow>
    (\<forall>x \<in> set inputs. operand_accepted gpus (vIsRequireInputSameDataKind cls) (inputs ! 0) x) \<and>
    (\<forall>i < length (oPlacementSeq (inputs ! 0)).
      column (map oPlacementSeq inputs) i \<in> insert (replicate (length inputs) Replicate) (fst ` set rules)) \<and>
    outs = inferred_outputs rules inputs metas \<and> (\<forall>y \<in> set outs. shards_fit y)"
proof (cases "\<forall>x \<in> set inputs. operand_accepted gpus (vIsRequireInputSameDataKind cls) (inputs ! 0) x")
  case False
  with CheckInput_exact [OF ins(1,3,2), of gpus cls] have "CheckInput gpus cls inputs \<noteq> Inr ()" by simp
  then have "InferOutput gpus cls inputs outputs \<noteq> Inr outs" by (auto simp: InferOutput_def guardR_eq_Inr bindR_eq_Inr)
  with False show ?thesis by blast
next
  case True
  let ?k = "length (oPlacementSeq (inputs ! 0))" and ?m = "oDeviceMesh (inputs ! 0)" and ?n = "length inputs" and ?o = "length metas"
  let ?ins = "map oPlacementSeq inputs"
  let ?fit = "\<forall>i < ?k. column ?ins i \<in> insert (replicate ?n Replicate) (fst ` set rules)"
  let ?seqs = "map (\<lambda>j. map (\<lambda>i. rule_output rules ?n ?o (column ?ins i) ! j) [0..<?k]) [0..<?o]"
  have hd: "inputs ! 0 \<in> set inputs" using ins(1) by simp
  from True hd have "operand_accepted gpus (vIsRequireInputSameDataKind cls) (inputs ! 0) (inputs ! 0)" by blast
  then have axes: "Mesh_NumAxis ?m = ?k" by (simp add: operand_accepted_def layout_ok_def)
  have count: "1 < Mesh_Count ?m" using ins(2) by (simp add: Operand_IsDistributed_def Mesh_IsDistributed_def)
  have "Mesh_wf ?m" using ins(3) hd by blast
  from Mesh_wf_count [OF this] count axes have k: "0 < ?k" by (cases "Mesh_Shape ?m") auto
  have len: "\<forall>ps \<in> set ?ins. length ps = ?k \<and> list_all plain_placement ps"
  proof
    fix ps assume "ps \<in> set ?ins"
    then obtain x where x: "x \<in> set inputs" "ps = oPlacementSeq x" by auto
    with True have "operand_accepted gpus (vIsRequireInputSameDataKind cls) (inputs ! 0) x" by blast
    then have "Mesh_Shape (oDeviceMesh x) = Mesh_Shape ?m" "Mesh_NumAxis (oDeviceMesh x) = length ps"
      using x(2) unfolding operand_accepted_def layout_ok_def by blast+
    then have "length ps = Mesh_NumAxis ?m" by simp
    then show "length ps = ?k \<and> list_all plain_placement ps" using x ins(3) axes by auto
  qed
  have simple: "\<forall>r \<in> set rules. list_all simple_placement (fst r)" using rules by blast
  have match: "Match sig ?ins keep = Inr (if ?fit then Some ?seqs else None)" for keep
    using Match_iff [OF table(2) simple _ _ _ k len] ins(1) meta(2) by simp
  have check: "CheckInput gpus cls inputs = Inr ()" using CheckInput_exact [OF ins(1,3,2), of gpus cls] True by simp
  have infer: "InferOutput gpus cls inputs outputs = InferOutputDistributedSpecFromPlacementSignature cls inputs metas"
    by (simp add: InferOutput_def size check own meta(1) dist)
  have spec: "InferOutputDistributedSpecFromPlacementSignature cls inputs metas =
      (if ?fit then foldR (SetOutputSpec ?m ?seqs) [0..<?o] metas else Inl InvalidArgument)"
    using ins(1) count
    by (simp only: InferOutputDistributedSpecFromPlacementSignature_def Let_def table bindR_Inr match) auto
  have run: "InferOutput gpus cls inputs outputs = Inr outs \<longleftrightarrow> ?fit \<and> foldR (SetOutputSpec ?m ?seqs) [0..<?o] metas = Inr outs"
    unfolding infer spec by simp
  show ?thesis
  proof (cases ?fit)
    case fit: True
    have nonneg: "shards_nonneg (?seqs ! j)" if j: "j < ?o" for j
    proof -
      from BuildRules_represents [OF table(2) simple] obtain reps where reps: "sig_pairs_ok ?n ?o (rules @ reps)" by metis
      have "IsShard p \<longrightarrow> 0 \<le> mShardIndex p" if i: "i < ?k" and p: "p = rule_output rules ?n ?o (column ?ins i) ! j" for i p
      proof (cases "column ?ins i = replicate ?n Replicate")
        case True
        with p j show ?thesis by (simp add: rule_output_def)
      next
        case False
        with fit i have "column ?ins i \<in> fst ` set rules" by blast
        then obtain os where os: "map_of (rev rules) (column ?ins i) = Some os"
          by (metis map_of_eq_None_iff not_None_eq set_rev)
        then have r: "(column ?ins i, os) \<in> set rules" by (auto dest: map_of_SomeD)
        then have "length os = ?o" "shards_nonneg os" using reps rules by (auto simp: sig_pairs_ok_def)
        with j False p os show ?thesis by (simp add: rule_output_def shards_nonneg_def list_all_length)
      qed
      with j show ?thesis by (simp add: shards_nonneg_def list_all_length)
    qed
    have outs: "inferred_outputs rules inputs metas = map (\<lambda>i. SetDeviceMeshAndPlacementSeq ?m (?seqs ! i) (metas ! i)) [0..<?o]"
      by (simp add: inferred_outputs_def SetDeviceMeshAndPlacementSeq_def)
    have "CheckShapeValid (oShape (metas ! j)) ?m (?seqs ! j) = Inr True \<longleftrightarrow> shards_fit (inferred_outputs rules inputs metas ! j)"
      if "j < ?o" for j
      using CheckShapeValid_True [OF nonneg [OF that], of ?m "oShape (metas ! j)"] that axes
      by (simp add: shards_fit_def inferred_outputs_def)
    then have "(\<forall>j < ?o. CheckShapeValid (oShape (metas ! j)) ?m (?seqs ! j) = Inr True) \<longleftrightarrow>
        (\<forall>y \<in> set (inferred_outputs rules inputs metas). shards_fit y)"
      unfolding all_set_conv_all_nth length_inferred_outputs by blast
    with run fit True outs SetOutputSpec_iff [of metas ?seqs ?m outs] show ?thesis by auto
  qed (use run True in auto)
qed

section \<open>Operators that map sharded axes to axes\<close>

text \<open>A rule of one input follows an axis map: sharded axes as the map says, anything else unchanged.\<close>

definition follows :: "(nat \<Rightarrow> nat option) \<Rightarrow> rule \<Rightarrow> bool" where
  "follows g r \<longleftrightarrow> (\<exists>p. r = ([p], [p]) \<and> (p = Replicate \<or> p = Partial)) \<or>
     (\<exists>d e. r = ([Shard (int d) (- 1)], [Shard (int e) (- 1)]) \<and> g d = Some e)"

text \<open>Rules for axes the input does not have can never match and are not restricted.\<close>

definition follows_in :: "nat \<Rightarrow> (nat \<Rightarrow> nat option) \<Rightarrow> rule \<Rightarrow> bool" where
  "follows_in n g r \<longleftrightarrow> follows g r \<or> (\<exists>i q. r = ([Shard (int i) (- 1)], q) \<and> n \<le> i)"

lemma follows_inI: "follows g r \<Longrightarrow> follows_in n g r"
  by (simp add: follows_in_def)

lemma CheckValid_shard_range:
  assumes "CheckValid s m ps gpus = Inr True" and "\<not> IsNullTensorShape s" and "i < length ps" and "IsShard (ps ! i)"
  shows "0 \<le> mShardIndex (ps ! i) \<and> mShardIndex (ps ! i) < int (length s)"
proof -
  from assms(1,2) have n: "Mesh_NumAxis m = length ps"
    and all: "\<forall>i \<in> set [0..<Mesh_NumAxis m]. CheckValid_axis s m ps i = Inr True"
    by (auto simp: CheckValid_def bindR_eq_Inr allR_True split: if_splits)
  with assms(3) have "CheckValid_axis s m ps i = Inr True" by simp
  with assms(3,4) show ?thesis
    by (auto simp: CheckValid_axis_def Seq_at_def at_int_nonneg bindR_eq_Inr GetShardIndex_def split: if_splits)
qed

locale dim_map_layout =
  fixes cls :: op_class and infer :: "shape \<Rightarrow> shape res" and axis_map :: "shape \<Rightarrow> nat \<Rightarrow> nat option"
  assumes meta: "vInferOutputMetaInfo cls [x] [y0] = Inr ys \<Longrightarrow> \<exists>y. ys = [y] \<and> infer (oShape x) = Inr (oShape y)"
    and signature: "list_all plain_placement (oPlacementSeq x) \<Longrightarrow> infer (oShape x) = Inr (oShape y) \<Longrightarrow> vGetPlacementSignature cls [x] [y] = Inr sig \<Longrightarrow>
      \<exists>rules. BuildRules 1 1 rules = Inr sig \<and> (\<forall>r \<in> set rules. follows_in (length (oShape x)) (axis_map (oShape x)) r)"
    and map_inj: "infer s = Inr t \<Longrightarrow> axis_map s d = Some e \<Longrightarrow> axis_map s d' = Some e \<Longrightarrow> d = d'"
    and map_range: "infer s = Inr t \<Longrightarrow> axis_map s d = Some e \<Longrightarrow> d < length s \<and> e < length t"
    and map_size: "infer s = Inr t \<Longrightarrow> axis_map s d = Some e \<Longrightarrow> t ! e = s ! d"
begin

text \<open>The sizes of the pieces: alike on mapped axes, those of the whole tensor on all others.\<close>

lemma local_axes:
  assumes infer: "infer s = Inr t" and len: "length qs = length ps"
    and rule: "\<And>i. i < length ps \<Longrightarrow> follows (axis_map s) ([ps ! i], [qs ! i])"
  shows "axis_map s d = Some e \<Longrightarrow> local_shape ms qs t cs ! e = local_shape ms ps s cs ! d"
    and "d < length s \<Longrightarrow> axis_map s d = None \<Longrightarrow> local_shape ms ps s cs ! d = s ! d"
    and "e < length t \<Longrightarrow> \<forall>d. axis_map s d \<noteq> Some e \<Longrightarrow> local_shape ms qs t cs ! e = t ! e"
proof -
  have unsharded: "shard_axes ps d = {}" if "axis_map s d = None" for d
    using rule that by (fastforce simp: shard_axes_def IsShardAt_def follows_def)
  have unsharded': "shard_axes qs e = {}" if "\<forall>d. axis_map s d \<noteq> Some e" for e
    using rule len that by (fastforce simp: shard_axes_def IsShardAt_def follows_def)
  have same: "shard_axes qs e = shard_axes ps d" if "axis_map s d = Some e" for d e
  proof -
    have "IsShardAt (qs ! i) (int e) \<longleftrightarrow> IsShardAt (ps ! i) (int d)" if "i < length ps" for i
      using rule [OF that] \<open>axis_map s d = Some e\<close> map_inj [OF infer]
      by (auto simp: follows_def IsShardAt_def)
    then show ?thesis using len by (auto simp: shard_axes_def)
  qed
  show "local_shape ms ps s cs ! d = s ! d" if "d < length s" "axis_map s d = None"
    using that unsharded [of d] by (simp add: local_shape_def local_size_unsharded)
  show "local_shape ms qs t cs ! e = t ! e" if "e < length t" "\<forall>d. axis_map s d \<noteq> Some e"
    using that unsharded' [of e] by (simp add: local_shape_def local_size_unsharded)
  show "local_shape ms qs t cs ! e = local_shape ms ps s cs ! d" if "axis_map s d = Some e"
    using map_range [OF infer that] same [OF that] map_size [OF infer that]
    by (simp add: local_shape_def local_size_def shard_count_def)
qed

lemma inferred_follows:
  assumes run: "InferOutput gpus cls [x] [y0] = Inr ys" and dist: "vSkipDistributedSpec cls [x] = Inr False"
    and plain: "list_all plain_placement (oPlacementSeq x)" and ne: "oPlacementSeq x \<noteq> []"
    and null: "\<not> IsNullTensorShape (oShape x)"
  shows "\<exists>y. ys = [y] \<and> infer (oShape x) = Inr (oShape y) \<and> oDeviceMesh y = oDeviceMesh x \<and>
    length (oPlacementSeq y) = length (oPlacementSeq x) \<and>
    (\<forall>i < length (oPlacementSeq x). follows (axis_map (oShape x)) ([oPlacementSeq x ! i], [oPlacementSeq y ! i]))"
proof -
  from InferOutput_parts [OF run dist] obtain metas sig seqs where
    m: "vInferOutputMetaInfo cls [x] [y0] = Inr metas" and sig: "vGetPlacementSignature cls [x] metas = Inr sig"
    and match: "Match sig [oPlacementSeq x] (vKeepSubSplitCoordinates cls) = Inr (Some seqs)"
    and valid: "CheckValid (oShape x) (oDeviceMesh x) (oPlacementSeq x) gpus = Inr True"
    and len: "length ys = length metas"
    and ys: "\<forall>i < length ys. oPlacementSeq (ys ! i) = seqs ! i \<and> oDeviceMesh (ys ! i) = oDeviceMesh x \<and>
      oShape (ys ! i) = oShape (metas ! i)" by auto
  from meta [OF m] obtain y1 where y1: "metas = [y1]" "infer (oShape x) = Inr (oShape y1)" by auto
  with len obtain y where y: "ys = [y]" by (cases ys) auto
  from sig y1 signature [OF plain] obtain rules where rules: "BuildRules 1 1 rules = Inr sig"
    "\<forall>r \<in> set rules. follows_in (length (oShape x)) (axis_map (oShape x)) r" by blast
  have "\<forall>r \<in> set rules. list_all simple_placement (fst r)" using rules(2) by (fastforce simp: follows_in_def follows_def)
  from BuildRules_represents [OF rules(1) this] obtain reps where reps: "sig_represents sig (rules @ reps)"
    "set reps = {replicate_rule 1 1 {}}" "mInputSize sig = 1" "sig_pairs_ok 1 1 (rules @ reps)" by metis
  from Match_unary [OF reps(1,4,3) plain ne match] obtain qs where qs: "seqs = [qs]" "length qs = length (oPlacementSeq x)"
    "\<forall>i < length (oPlacementSeq x). ([oPlacementSeq x ! i], [qs ! i]) \<in> set (rules @ reps)" by metis
  have "follows (axis_map (oShape x)) ([oPlacementSeq x ! i], [qs ! i])" if "i < length (oPlacementSeq x)" for i
  proof -
    from qs(3) that consider "([oPlacementSeq x ! i], [qs ! i]) \<in> set rules"
      | "([oPlacementSeq x ! i], [qs ! i]) \<in> set reps" by auto
    then show ?thesis
    proof cases
      case 2
      with reps(2) show ?thesis by (simp add: replicate_rule_def follows_def)
    next
      case 1
      with rules(2) have "follows_in (length (oShape x)) (axis_map (oShape x)) ([oPlacementSeq x ! i], [qs ! i])" by blast
      with CheckValid_shard_range [OF valid null that] show ?thesis by (auto simp: follows_in_def)
    qed
  qed
  with y y1 ys qs(1,2) show ?thesis by simp
qed

end

text \<open>An operator whose shape follows when the mapped axes change their sizes.\<close>

locale dim_map_operator = dim_map_layout +
  assumes resize: "infer s = Inr t \<Longrightarrow> length s' = length s \<Longrightarrow>
      (\<And>d. d < length s \<Longrightarrow> axis_map s d = None \<Longrightarrow> s' ! d = s ! d) \<Longrightarrow> length t' = length t \<Longrightarrow>
      (\<And>d e. axis_map s d = Some e \<Longrightarrow> t' ! e = s' ! d) \<Longrightarrow>
      (\<And>e. e < length t \<Longrightarrow> (\<forall>d. axis_map s d \<noteq> Some e) \<Longrightarrow> t' ! e = t ! e) \<Longrightarrow> infer s' = Inr t'"
begin

lemma local_shape_commutes:
  assumes infer: "infer s = Inr t" and len: "length qs = length ps"
    and rule: "\<And>i. i < length ps \<Longrightarrow> follows (axis_map s) ([ps ! i], [qs ! i])"
  shows "infer (local_shape ms ps s cs) = Inr (local_shape ms qs t cs)"
  by (rule resize [OF infer]) (use local_axes [OF assms] in \<open>simp_all add: local_shape_def\<close>)

lemma inferred_layout_sound:
  assumes run: "InferOutput gpus cls [x] [y0] = Inr ys" and dist: "vSkipDistributedSpec cls [x] = Inr False"
    and plain: "list_all plain_placement (oPlacementSeq x)" and ne: "oPlacementSeq x \<noteq> []"
    and null: "\<not> IsNullTensorShape (oShape x)"
  shows "\<exists>y. ys = [y] \<and> infer (oShape x) = Inr (oShape y) \<and> oDeviceMesh y = oDeviceMesh x \<and>
    (\<forall>ms cs. infer (local_shape ms (oPlacementSeq x) (oShape x) cs) =
      Inr (local_shape ms (oPlacementSeq y) (oShape y) cs))"
proof -
  from inferred_follows [OF assms] obtain y where y: "ys = [y]" "infer (oShape x) = Inr (oShape y)" "oDeviceMesh y = oDeviceMesh x"
    "length (oPlacementSeq y) = length (oPlacementSeq x)"
    "\<forall>i < length (oPlacementSeq x). follows (axis_map (oShape x)) ([oPlacementSeq x ! i], [oPlacementSeq y ! i])" by blast
  then show ?thesis using local_shape_commutes [OF y(2,4)] by blast
qed

end

text \<open>
  For an operator whose output shape and rules are functions of the input shape, the laws of
  \<open>dim_map_operator\<close> reduce to laws of these two functions.
\<close>

locale axis_map_shape =
  fixes infer :: "shape \<Rightarrow> shape res" and rules :: "shape \<Rightarrow> rule list res" and axis_map :: "shape \<Rightarrow> nat \<Rightarrow> nat option"
  assumes rules_follow: "infer s = Inr t \<Longrightarrow> rules s = Inr rs \<Longrightarrow> r \<in> set rs \<Longrightarrow> follows_in (length s) (axis_map s) r"
    and map_inj: "infer s = Inr t \<Longrightarrow> axis_map s d = Some e \<Longrightarrow> axis_map s d' = Some e \<Longrightarrow> d = d'"
    and map_range: "infer s = Inr t \<Longrightarrow> axis_map s d = Some e \<Longrightarrow> d < length s \<and> e < length t"
    and resize: "infer s = Inr t \<Longrightarrow> length s' = length s \<Longrightarrow>
      (\<And>d. d < length s \<Longrightarrow> axis_map s d = None \<Longrightarrow> s' ! d = s ! d) \<Longrightarrow> length t' = length t \<Longrightarrow>
      (\<And>d e. axis_map s d = Some e \<Longrightarrow> t' ! e = s' ! d) \<Longrightarrow>
      (\<And>e. e < length t \<Longrightarrow> (\<forall>d. axis_map s d \<noteq> Some e) \<Longrightarrow> t' ! e = t ! e) \<Longrightarrow> infer s' = Inr t'"
    and map_size: "infer s = Inr t \<Longrightarrow> axis_map s d = Some e \<Longrightarrow> t ! e = s ! d"

sublocale axis_map_shape \<subseteq> layout: dim_map_operator "unary_class infer rules" infer axis_map
proof
  fix x y0 ys
  assume "vInferOutputMetaInfo (unary_class infer rules) [x] [y0] = Inr ys"
  then show "\<exists>y. ys = [y] \<and> infer (oShape x) = Inr (oShape y)"
    by (auto simp: unary_class_def UnaryMeta_def OperandAt_def UpdateOutput_def bindR_eq_Inr SetShapeAndStride_def)
next
  fix x y sig
  assume i: "infer (oShape x) = Inr (oShape y)"
    and "vGetPlacementSignature (unary_class infer rules) [x] [y] = Inr sig"
  then obtain rs where rs: "rules (oShape x) = Inr rs" "BuildRules 1 1 rs = Inr sig"
    by (auto simp: unary_class_def OperandAt_def bindR_eq_Inr)
  with rules_follow [OF i rs(1)]
  show "\<exists>rules. BuildRules 1 1 rules = Inr sig \<and> (\<forall>r \<in> set rules. follows_in (length (oShape x)) (axis_map (oShape x)) r)" by blast
qed (fact map_inj map_range resize map_size)+

lemma unary_skip: "vSkipDistributedSpec (unary_class infer rules) [x] = Inr (\<not> Operand_IsDistributed x)"
  by (simp add: unary_class_def SkipDistributedSpecFromPlacementSignature_def)

lemma follows_Partial [simp]: "follows g ([Partial], [Partial])"
  by (simp add: follows_def)

lemma follows_Shard: "g d = Some e \<Longrightarrow> i = int d \<Longrightarrow> j = int e \<Longrightarrow> follows g ([Shard i (- 1)], [Shard j (- 1)])"
  by (auto simp: follows_def)

lemma put_at_commute:
  "bindR (at_nat s i) (\<lambda>v. put_nat t j v) = (if i < length s \<and> j < length t then Inr (t[j := s ! i]) else Inl Abort)"
  by (simp add: at_nat_def put_nat_def guardR_def)

section \<open>Successful inference\<close>

lemma BuildRules_total:
  assumes "sig_pairs_ok n m rules" and "0 < n" and "n < 8" and "0 < m"
  obtains sig where "BuildRules n m rules = Inr sig"
proof -
  have "\<exists>b'. foldR AddRule rules b = Inr b' \<and> builder_idle b' \<and> bInputSize b' = n \<and> bOutputSize b' = m \<and>
      mPlacementSignaturePair b' = mPlacementSignaturePair b @ rules"
    if "builder_idle b" "bInputSize b = n" "bOutputSize b = m" for b
    using that assms(1)
  proof (induction rules arbitrary: b)
    case Nil
    then show ?case by simp
  next
    case (Cons r rules)
    then have "length (fst r) = n" "length (snd r) = m" by (auto simp: sig_pairs_ok_def plain_tuples_def split: prod.splits)
    with Cons.prems have "\<exists>b1. AddRule r b = Inr b1"
      by (auto simp: builder_idle_def AddRule_def fold_AddInput fold_AddOutput Builder_Build_def guardR_def)
    then obtain b1 where b1: "AddRule r b = Inr b1" by blast
    have "sig_pairs_ok n m rules" using Cons.prems(4) by (simp add: sig_pairs_ok_def)
    with Cons.IH [of b1] AddRule_idle [OF Cons.prems(1) b1] Cons.prems b1 show ?case by auto
  qed
  from this [of "Builder_new n m"] obtain b where b: "foldR AddRule rules (Builder_new n m) = Inr b" "builder_idle b"
    "bInputSize b = n" "bOutputSize b = m" "mPlacementSignaturePair b = rules"
    by (auto simp: builder_idle_def Builder_new_def)
  with Finish_match [of n m b 1] assms that show ?thesis
    by (auto simp: BuildRules_def builder_idle_def)
qed

text \<open>Inference of a distributed operator of one input succeeds when its rules cover the placements.\<close>

lemma unary_runs:
  fixes x :: operand
  defines "ps \<equiv> oPlacementSeq x"
  assumes cls: "cls = (unary_class infer rules)\<lparr>vInferOutputMetaInfo := meta\<rparr>"
    and check: "CheckInput gpus cls [x] = Inr ()" and dist: "Operand_IsDistributed x"
    and mesh: "0 < Mesh_NumAxis (oDeviceMesh x)"
    and shape: "meta [x] [Operand_new] = Inr [y]" "oShape y = t" and rs: "rules (oShape x) = Inr rs" and ok: "sig_pairs_ok 1 1 rs"
    and plain: "list_all plain_placement ps" and ne: "ps \<noteq> []"
    and cover: "\<forall>p \<in> set ps. [p] \<in> insert [Replicate] (fst ` set rs)"
    and out: "\<And>qs. length qs = length ps \<Longrightarrow>
      \<forall>i < length ps. ([ps ! i], [qs ! i]) \<in> insert ([Replicate], [Replicate]) (set rs) \<Longrightarrow>
      CheckShapeValid t (oDeviceMesh x) qs = Inr True"
  shows "\<exists>ys. InferOutput gpus cls [x] [Operand_new] = Inr ys"
proof -
  from ok obtain sig where sig: "BuildRules 1 1 rs = Inr sig" by (rule BuildRules_total) simp_all
  have "\<forall>r \<in> set rs. list_all simple_placement (fst r)"
    using ok by (auto simp: sig_pairs_ok_def plain_tuples_def list_all_iff plain_placement_def simple_placement_def)
  from BuildRules_represents [OF sig this] obtain reps where reps: "sig_represents sig (rs @ reps)"
    "set reps = {replicate_rule 1 1 {}}" "mInputSize sig = 1" "sig_pairs_ok 1 1 (rs @ reps)" by metis
  have pl: "plain_placement (ps ! i)" if "i < length ps" for i using plain that by (simp add: list_all_length)
  then have nosub: "\<forall>i \<in> set [0..<length ps]. \<forall>input \<in> set [ps]. i < length input \<and> \<not> HasSubSplitCoordinates (input ! i)"
    by (simp add: plain_placement_def)
  have col: "column [ps] i = [ps ! i]" for i by (simp add: column_def)
  have all: "\<forall>i \<in> {0..<length ps}. column [ps] i \<in> fst ` set (rs @ reps)"
    using cover reps(2) by (auto simp: col replicate_rule_def)
  have "Match_loop sig [ps] False [0..<length ps] (match_rows (rs @ reps) 1 [ps] 0) =
    Inr (if \<forall>i \<in> {0..<length ps}. column [ps] i \<in> fst ` set (rs @ reps) then Some (match_rows (rs @ reps) 1 [ps] (length ps)) else None)"
    using pl by (intro Match_loop_eq [OF reps(1,4,3)]) (auto simp: col plain_tuples_def)
  then have match: "Match sig [ps] True = Inr (Some (match_rows (rs @ reps) 1 [ps] (length ps)))"
    using all reps(3) Match_loop_keep [OF nosub, of sig True] by (simp add: Match_def match_rows_def)
  then obtain qs where qs: "match_rows (rs @ reps) 1 [ps] (length ps) = [qs]" "length qs = length ps"
    "\<forall>i < length ps. ([ps ! i], [qs ! i]) \<in> set (rs @ reps)"
    using Match_unary [OF reps(1,4,3) plain ne match] by metis
  have "CheckShapeValid t (oDeviceMesh x) qs = Inr True"
    using qs(2,3) reps(2) by (intro out) (auto simp: replicate_rule_def)
  with check dist mesh shape rs sig match qs(1) show ?thesis
    by (simp add: InferOutput_def cls unary_class_def OperandAt_def
        SkipDistributedSpecFromPlacementSignature_def InferOutputDistributedSpecFromPlacementSignature_def
        SetOutputSpec_def Operand_IsDistributed_def Mesh_IsDistributed_def Let_def ps_def)
qed

section \<open>Examples\<close>

text \<open>A tensor sharded over both axes of the example mesh.\<close>

definition grid_operand :: operand where
  "grid_operand = Operand_of [6, 4, 2] kFloat32 gpu_grid [Shard 0 (- 1), Shard 1 (- 1)]"

lemma grid_operand_simps [simp]:
  "oShape grid_operand = [6, 4, 2]" "oDeviceMesh grid_operand = gpu_grid"
  "oPlacementSeq grid_operand = [Shard 0 (- 1), Shard 1 (- 1)]"
  "Operand_IsDistributed grid_operand"
  by (simp_all add: grid_operand_def Operand_of_def Operand_IsDistributed_def Mesh_IsDistributed_def)

lemma grid_shard_valid:
  assumes "d \<noteq> e" and "d < length t" and "e < length t" and "2 \<le> t ! d" and "2 \<le> t ! e"
  shows "CheckShapeValid t gpu_grid [Shard (int d) (- 1), Shard (int e) (- 1)] = Inr True"
  using assms
  by (subst CheckShapeValid_eq)
    (auto simp: shards_nonneg_def sharded_dims_def shard_axes_2 IsShardAt_def shard_count_def split: if_splits)

lemma grid_checked: "CheckInput 8 cls [grid_operand] = Inr ()"
proof -
  have lay: "layout_ok [6, 4, 2] gpu_grid [Shard 0 (- 1), Shard 1 (- 1)]"
    by (auto simp: layout_ok_def shard_count_def shard_axes_2 IsShardAt_def less_Suc_eq)
  have null: "\<not> IsNullTensorShape [6, 4, 2]" by (simp add: IsNullTensorShape_def)
  have "CheckValid [6, 4, 2] gpu_grid [Shard 0 (- 1), Shard 1 (- 1)] 8 = Inr True"
    using CheckValid_iff [OF _ null, of gpu_grid] lay by simp
  moreover have "DeviceMesh_eq gpu_grid gpu_grid = Inr True" by (simp add: DeviceMesh_eq_def SimpleArray_eq_refl)
  ultimately show ?thesis unfolding CheckInput_iff by simp
qed

lemma plain_Shard: "i < 16 \<Longrightarrow> plain_placement (Shard (int i) (- 1))"
  by (auto simp: plain_placement_def HasSubSplitCoordinates_def)

lemma plain_Shard_numeral [simp]: "plain_placement (Shard 0 (- 1))" "plain_placement (Shard 1 (- 1))"
  "plain_placement (Shard 2 (- 1))" "plain_placement (Shard 3 (- 1))" "plain_placement Partial" "plain_placement Replicate"
  using plain_Shard [of 0] plain_Shard [of 1] plain_Shard [of 2] plain_Shard [of 3]
  by (simp_all add: plain_placement_def HasSubSplitCoordinates_def)

lemma grid_runs:
  assumes "cls = (unary_class infer rules)\<lparr>vInferOutputMetaInfo := meta\<rparr>"
    and "meta [grid_operand] [Operand_new] = Inr [y]" and "oShape y = t" and "rules [6, 4, 2] = Inr rs" and "sig_pairs_ok 1 1 rs"
    and "[Shard 0 (- 1)] \<in> fst ` set rs" and "[Shard 1 (- 1)] \<in> fst ` set rs"
    and "\<And>p q. ([Shard 0 (- 1)], [p]) \<in> set rs \<Longrightarrow> ([Shard 1 (- 1)], [q]) \<in> set rs \<Longrightarrow>
      \<exists>d e. p = Shard (int d) (- 1) \<and> q = Shard (int e) (- 1) \<and> d \<noteq> e \<and> d < length t \<and> e < length t \<and> 2 \<le> t ! d \<and> 2 \<le> t ! e"
  shows "\<exists>ys. InferOutput 8 cls [grid_operand] [Operand_new] = Inr ys"
proof (rule unary_runs [where infer = infer and rules = rules and meta = meta and t = t and rs = rs and y = y])
  show "list_all plain_placement (oPlacementSeq grid_operand)"
    using plain_Shard [of 0] plain_Shard [of 1] by simp
  fix qs
  assume q: "length qs = length (oPlacementSeq grid_operand)"
    "\<forall>i < length (oPlacementSeq grid_operand). ([oPlacementSeq grid_operand ! i], [qs ! i]) \<in>
      insert ([Replicate], [Replicate]) (set rs)"
  then obtain p q where pq: "qs = [p, q]" by (auto simp: length_Suc_conv numeral_2_eq_2)
  with q(2) have "([Shard 0 (- 1)], [p]) \<in> set rs" "([Shard 1 (- 1)], [q]) \<in> set rs"
    using spec [OF q(2), of 0] spec [OF q(2), of 1] by auto
  from assms(8) [OF this] pq show "CheckShapeValid t (oDeviceMesh grid_operand) qs = Inr True"
    by (auto intro: grid_shard_valid)
qed (use assms grid_checked in auto)

lemma grid_unary_runs:
  assumes "infer [6, 4, 2] = Inr t" and "rules [6, 4, 2] = Inr rs" and "sig_pairs_ok 1 1 rs"
    and "[Shard 0 (- 1)] \<in> fst ` set rs" and "[Shard 1 (- 1)] \<in> fst ` set rs"
    and "\<And>p q. ([Shard 0 (- 1)], [p]) \<in> set rs \<Longrightarrow> ([Shard 1 (- 1)], [q]) \<in> set rs \<Longrightarrow>
      \<exists>d e. p = Shard (int d) (- 1) \<and> q = Shard (int e) (- 1) \<and> d \<noteq> e \<and> d < length t \<and> e < length t \<and> 2 \<le> t ! d \<and> 2 \<le> t ! e"
  shows "\<exists>ys. InferOutput 8 (unary_class infer rules) [grid_operand] [Operand_new] = Inr ys"
proof -
  let ?y = "SetShapeAndStride t [] (MetaDataSameAs grid_operand Operand_new)"
  have "unary_class infer rules = (unary_class infer rules)\<lparr>vInferOutputMetaInfo := UnaryMeta infer\<rparr>"
    by (simp add: unary_class_def)
  moreover have "UnaryMeta infer [grid_operand] [Operand_new] = Inr [?y]"
    using assms(1) by (simp add: UnaryMeta_def OperandAt_def UpdateOutput_def)
  moreover have "oShape ?y = t" by (simp add: SetShapeAndStride_def)
  ultimately show ?thesis by (rule grid_runs) (fact assms)+
qed

end
