(* ===== verification/ShapeOps.thy ===== *)
theory ShapeOps
  imports OpKit
begin

text \<open>
  Standard operators that rearrange the axes of a tensor: transpose, permute and unsqueeze
  (src/dtorch/core/operators/standard/*_op.cc).  Each has the output shape as a function of the input
  shapes and the rules of its placement signature; the interface of \<open>OpKit\<close> is interpreted where the
  rules respect it, and the others come with a theorem that shows where they do not.
\<close>

section \<open>Valid axes\<close>

definition axis_of :: "nat \<Rightarrow> int \<Rightarrow> nat" where
  "axis_of n dim = nat (if dim < 0 then dim + int n else dim)"

lemma GetValidDim_Inr: "GetValidDim s dim = Inr d \<longleftrightarrow> - int (length s) \<le> dim \<and> dim \<le> int (length s) \<and> d = axis_of (length s) dim"
  by (auto simp: GetValidDim_def Let_def guardR_eq_Inr axis_of_def)

lemma axis_of_less: "- int n \<le> dim \<Longrightarrow> dim < int n \<Longrightarrow> axis_of n dim < n"
  by (auto simp: axis_of_def)

lemma GetValidDim_length: "length s' = length s \<Longrightarrow> GetValidDim s' dim = GetValidDim s dim"
  by (simp add: GetValidDim_def)

section \<open>Transpose\<close>

definition Transpose_shape :: "int \<Rightarrow> int \<Rightarrow> shape \<Rightarrow> shape res" where
  "Transpose_shape dim0 dim1 inputShape =
     bindR (GetValidDim inputShape dim0) (\<lambda>dim0. bindR (GetValidDim inputShape dim1) (\<lambda>dim1.
     bindR (bindR (at_nat inputShape dim1) (\<lambda>v. put_nat inputShape dim0 v)) (\<lambda>outputShape.
       bindR (at_nat inputShape dim0) (\<lambda>v. put_nat outputShape dim1 v))))"

definition Transpose_rules :: "int \<Rightarrow> int \<Rightarrow> shape \<Rightarrow> rule list res" where
  "Transpose_rules dim0 dim1 inputShape =
     bindR (GetValidDim inputShape dim0) (\<lambda>dim0. bindR (GetValidDim inputShape dim1) (\<lambda>dim1.
       Inr (([Partial], [Partial]) # map (\<lambda>i.
         if i = dim0 then ([Shard (int dim0) (- 1)], [Shard (int dim1) (- 1)])
         else if i = dim1 then ([Shard (int dim1) (- 1)], [Shard (int dim0) (- 1)])
         else ([Shard (int i) (- 1)], [Shard (int i) (- 1)])) [0..<length inputShape])))"

definition Transpose_class :: "int \<Rightarrow> int \<Rightarrow> op_class" where
  "Transpose_class dim0 dim1 = unary_class (Transpose_shape dim0 dim1) (Transpose_rules dim0 dim1)"

definition Transpose_map :: "int \<Rightarrow> int \<Rightarrow> shape \<Rightarrow> nat \<Rightarrow> nat option" where
  "Transpose_map dim0 dim1 s d =
     (let d0 = axis_of (length s) dim0; d1 = axis_of (length s) dim1 in
      if d < length s then Some (if d = d0 then d1 else if d = d1 then d0 else d) else None)"

lemma Transpose_shape_Inr:
  "Transpose_shape dim0 dim1 s = Inr t \<longleftrightarrow>
     (let d0 = axis_of (length s) dim0; d1 = axis_of (length s) dim1 in
      - int (length s) \<le> dim0 \<and> - int (length s) \<le> dim1 \<and> dim0 < int (length s) \<and> dim1 < int (length s) \<and>
      t = s[d0 := s ! d1, d1 := s ! d0])"
  unfolding Transpose_shape_def put_at_commute
  by (auto simp: bindR_eq_Inr GetValidDim_Inr axis_of_def Let_def at_nat_eq_Inr put_nat_eq_Inr split: if_splits)

interpretation transpose: axis_map_shape "Transpose_shape dim0 dim1" "Transpose_rules dim0 dim1" "Transpose_map dim0 dim1"
  for dim0 dim1
proof
  fix s t rs r
  assume "Transpose_shape dim0 dim1 s = Inr t" "Transpose_rules dim0 dim1 s = Inr rs" "r \<in> set rs"
  then show "follows_in (length s) (Transpose_map dim0 dim1 s) r"
    by (intro follows_inI) (auto simp: Transpose_rules_def Transpose_shape_Inr bindR_eq_Inr GetValidDim_Inr Transpose_map_def Let_def
        intro!: follows_Shard)
next
  fix s t d e d'
  assume "Transpose_shape dim0 dim1 s = Inr t" "Transpose_map dim0 dim1 s d = Some e" "Transpose_map dim0 dim1 s d' = Some e"
  then show "d = d'" by (auto simp: Transpose_map_def Let_def split: if_splits)
next
  fix s t d e
  assume "Transpose_shape dim0 dim1 s = Inr t" "Transpose_map dim0 dim1 s d = Some e"
  then show "d < length s \<and> e < length t" "t ! e = s ! d"
    by (auto simp: Transpose_map_def Transpose_shape_Inr axis_of_def Let_def nth_list_update split: if_splits)
next
  fix s t s' t' :: shape
  assume a: "Transpose_shape dim0 dim1 s = Inr t" "length s' = length s" "length t' = length t"
    "\<And>d e. Transpose_map dim0 dim1 s d = Some e \<Longrightarrow> t' ! e = s' ! d"
  let ?d0 = "axis_of (length s) dim0" and ?d1 = "axis_of (length s) dim1"
  from a(1) have b: "?d0 < length s" "?d1 < length s" "length t = length s"
    by (auto simp: Transpose_shape_Inr Let_def axis_of_def)
  have "t' ! i = s'[?d0 := s' ! ?d1, ?d1 := s' ! ?d0] ! i" if "i < length s" for i
    using a(4) [of "if i = ?d0 then ?d1 else if i = ?d1 then ?d0 else i" i] that b a(2)
    by (auto simp: Transpose_map_def Let_def nth_list_update split: if_splits)
  then have "t' = s'[?d0 := s' ! ?d1, ?d1 := s' ! ?d0]"
    using a(2,3) b by (intro nth_equalityI) auto
  with a(1,2) show "Transpose_shape dim0 dim1 s' = Inr t'" by (simp add: Transpose_shape_Inr Let_def)
qed

lemma Transpose_grid_runs: "\<exists>ys. InferOutput 8 (Transpose_class 0 (- 1)) [grid_operand] [Operand_new] = Inr ys"
  unfolding Transpose_class_def
  by (rule grid_unary_runs [where t = "[2, 4, 6]" and rs = "[([Partial], [Partial]), ([Shard 0 (- 1)], [Shard 2 (- 1)]),
      ([Shard 1 (- 1)], [Shard 1 (- 1)]), ([Shard 2 (- 1)], [Shard 0 (- 1)])]"])
    (auto simp: Transpose_shape_def Transpose_rules_def GetValidDim_def sig_pairs_ok_def plain_tuples_def
      plain_Shard_numeral upt_rec intro: exI [of _ "2::nat"] exI [of _ "1::nat"])

text \<open>C30: the inference of a distributed operator succeeds exactly when all its inputs lie on the mesh of the first one with
  a valid layout and, where the operator asks for it, the same data kind, on every mesh axis the placements of the inputs are
  all replicated or are those of a rule of the operator, and every output can be cut as the rules say; and then the outputs are
  the announced ones, on the mesh of the inputs, with the placements of the last rule for the inputs.  This is for operators
  whose table is built from rules without optional inputs, and for inputs that are present.\<close>

theorem InferOutput_exact:
  assumes "length outputs = vInferOutputSize cls" and "vSkipDistributedSpec cls inputs = Inr False"
    and "inputs \<noteq> []" and "Operand_IsDistributed (inputs ! 0)"
    and "\<forall>x \<in> set inputs. Mesh_wf (oDeviceMesh x) \<and> \<not> IsNullTensorShape (oShape x) \<and> list_all plain_placement (oPlacementSeq x)"
    and "vCheckInput cls inputs = Inr ()"
    and "vInferOutputMetaInfo cls inputs outputs = Inr metas" and "metas \<noteq> []"
    and "vGetPlacementSignature cls inputs metas = BuildRules (length inputs) (length metas) rules"
    and "BuildRules (length inputs) (length metas) rules = Inr sig"
    and "\<forall>r \<in> set rules. list_all simple_placement (fst r) \<and> shards_nonneg (snd r)"
  shows "InferOutput gpus cls inputs outputs = Inr outs \<longleftrightarrow>
    (\<forall>x \<in> set inputs. operand_accepted gpus (vIsRequireInputSameDataKind cls) (inputs ! 0) x) \<and>
    (\<forall>i < length (oPlacementSeq (inputs ! 0)).
      column (map oPlacementSeq inputs) i \<in> insert (replicate (length inputs) Replicate) (fst ` set rules)) \<and>
    outs = inferred_outputs rules inputs metas \<and> (\<forall>y \<in> set outs. shards_fit y)"
  by (rule InferOutput_iff [OF assms])

theorem InferOutput_exact_witness:
  "(\<exists>y. InferOutput 8 (Transpose_class 0 (- 1)) [grid_operand] [Operand_new] = Inr [y] \<and>
      oShape y = [2, 4, 6] \<and> oPlacementSeq y = [Shard 2 (- 1), Shard 1 (- 1)] \<and> oDeviceMesh y = gpu_grid) \<and>
   (\<forall>outs. InferOutput 6 (Transpose_class 0 (- 1)) [grid_operand] [Operand_new] \<noteq> Inr outs)"
proof -
  let ?c = "Transpose_class 0 (- 1)" and ?y = "SetShapeAndStride [2, 4, 6] [] (MetaDataSameAs grid_operand Operand_new)"
  let ?rs = "[([Partial], [Partial]), ([Shard 0 (- 1)], [Shard 2 (- 1)]), ([Shard 1 (- 1)], [Shard 1 (- 1)]), ([Shard 2 (- 1)], [Shard 0 (- 1)])]"
  have infer: "Transpose_shape 0 (- 1) [6, 4, 2] = Inr [2, 4, 6]" and rules: "Transpose_rules 0 (- 1) [6, 4, 2] = Inr ?rs"
    by (simp_all add: Transpose_shape_def Transpose_rules_def GetValidDim_def upt_rec)
  have "sig_pairs_ok 1 1 ?rs" by (simp add: sig_pairs_ok_def plain_tuples_def)
  then obtain sig where sig: "BuildRules 1 1 ?rs = Inr sig" by (rule BuildRules_total) simp_all
  have meta: "vInferOutputMetaInfo ?c [grid_operand] [Operand_new] = Inr [?y]"
    and skip: "vSkipDistributedSpec ?c [grid_operand] = Inr False" and own: "vCheckInput ?c [grid_operand] = Inr ()"
    and table: "vGetPlacementSignature ?c [grid_operand] [?y] = BuildRules (length [grid_operand]) (length [?y]) ?rs"
    and size: "length [Operand_new] = vInferOutputSize ?c" and same: "vIsRequireInputSameDataKind ?c"
    using infer rules by (simp_all add: Transpose_class_def unary_class_def UnaryMeta_def OperandAt_def UpdateOutput_def
        SkipDistributedSpecFromPlacementSignature_def)
  have grid: "\<forall>x \<in> set [grid_operand]. Mesh_wf (oDeviceMesh x) \<and> \<not> IsNullTensorShape (oShape x) \<and> list_all plain_placement (oPlacementSeq x)"
    by (simp add: IsNullTensorShape_def)
  have simple: "\<forall>r \<in> set ?rs. list_all simple_placement (fst r) \<and> shards_nonneg (snd r)" by (simp add: shards_nonneg_def)
  have built: "BuildRules (length [grid_operand]) (length [?y]) ?rs = Inr sig" using sig by simp
  note exact = InferOutput_exact [OF size skip _ _ grid own meta _ table built simple]
  have lay: "layout_ok [6, 4, 2] gpu_grid [Shard 0 (- 1), Shard 1 (- 1)]"
    by (auto simp: layout_ok_def shard_count_def shard_axes_2 IsShardAt_def less_Suc_eq)
  have out: "inferred_outputs ?rs [grid_operand] [?y] =
      [?y\<lparr>oDeviceMesh := gpu_grid, oPlacementSeq := [Shard 2 (- 1), Shard 1 (- 1)], oAllLocalShape := Map.empty\<rparr>]"
    by (simp add: inferred_outputs_def rule_output_def column_def upt_rec)
  have fit: "shards_fit (?y\<lparr>oDeviceMesh := gpu_grid, oPlacementSeq := [Shard 2 (- 1), Shard 1 (- 1)], oAllLocalShape := Map.empty\<rparr>)"
    by (auto simp: shards_fit_def SetShapeAndStride_def sharded_dims_def shard_axes_2 IsShardAt_def shard_count_def split: if_splits)
  have "InferOutput 8 ?c [grid_operand] [Operand_new] =
      Inr [?y\<lparr>oDeviceMesh := gpu_grid, oPlacementSeq := [Shard 2 (- 1), Shard 1 (- 1)], oAllLocalShape := Map.empty\<rparr>]"
    by (subst exact) (simp_all add: operand_accepted_def lay out fit column_def less_2_cases_iff numeral_2_eq_2 less_Suc_eq)
  moreover have "InferOutput 6 ?c [grid_operand] [Operand_new] \<noteq> Inr outs" for outs
    by (subst exact) (simp_all add: operand_accepted_def)
  ultimately show ?thesis by (auto simp: SetShapeAndStride_def)
qed

text \<open>A distributed transpose is sound: when inference succeeds, transposing the local tensor of every device
  gives the local shape that the inferred output layout promises for that device.\<close>

theorem Transpose_layout_sound:
  assumes "InferOutput gpus (Transpose_class dim0 dim1) [x] [y0] = Inr ys" and "Operand_IsDistributed x"
    and "list_all plain_placement (oPlacementSeq x)" and "oPlacementSeq x \<noteq> []" and "\<not> IsNullTensorShape (oShape x)"
  shows "\<exists>y. ys = [y] \<and> Transpose_shape dim0 dim1 (oShape x) = Inr (oShape y) \<and> oDeviceMesh y = oDeviceMesh x \<and>
    (\<forall>ms cs. Transpose_shape dim0 dim1 (local_shape ms (oPlacementSeq x) (oShape x) cs) =
      Inr (local_shape ms (oPlacementSeq y) (oShape y) cs))"
  using assms unfolding Transpose_class_def
  by (intro transpose.layout.inferred_layout_sound) (simp_all add: unary_skip)

theorem Transpose_layout_sound_witness:
  "\<exists>y. InferOutput 8 (Transpose_class 0 (- 1)) [grid_operand] [Operand_new] = Inr [y] \<and>
    Transpose_shape 0 (- 1) (local_shape [2, 2] [Shard 0 (- 1), Shard 1 (- 1)] [6, 4, 2] [0, 1]) =
      Inr (local_shape [2, 2] (oPlacementSeq y) (oShape y) [0, 1])"
proof -
  from Transpose_grid_runs obtain ys where ys: "InferOutput 8 (Transpose_class 0 (- 1)) [grid_operand] [Operand_new] = Inr ys"
    by blast
  from Transpose_layout_sound [OF this] ys show ?thesis by (auto simp: plain_Shard_numeral IsNullTensorShape_def)
qed

section \<open>Permute\<close>

definition Permute_shape :: "int list \<Rightarrow> shape \<Rightarrow> shape res" where
  "Permute_shape dims inputShape =
     requireR (\<not> length dims \<noteq> NumAxis inputShape)
      (bindR (foldR (\<lambda>i (outputShape, dimSet).
          bindR (GetValidDim inputShape (dims ! i)) (\<lambda>validDim.
            requireR (validDim \<notin> dimSet)
             (bindR (at_nat inputShape validDim) (\<lambda>v. bindR (put_nat outputShape i v) (\<lambda>outputShape.
               Inr (outputShape, insert validDim dimSet))))))
        [0..<length dims] (inputShape, {}))
       (\<lambda>(outputShape, dimSet). Inr outputShape))"

definition Permute_rules :: "int list \<Rightarrow> shape \<Rightarrow> rule list res" where
  "Permute_rules dims inputShape =
     assertR (length dims = NumAxis inputShape)
      (bindR (mapR (\<lambda>i. bindR (GetValidDim inputShape (dims ! i)) (\<lambda>validDim.
          assertR (validDim < NumAxis inputShape) (Inr ([Shard (int validDim) (- 1)], [Shard (int i) (- 1)]))))
        [0..<length dims])
       (\<lambda>rules. Inr (([Partial], [Partial]) # rules)))"

definition Permute_class :: "int list \<Rightarrow> op_class" where
  "Permute_class dims = unary_class (Permute_shape dims) (Permute_rules dims)"

lemma Permute_fold:
  assumes "k \<le> length s" and "length dims = length s"
  shows "foldR (\<lambda>i (outputShape, dimSet).
      bindR (GetValidDim s (dims ! i)) (\<lambda>validDim.
        requireR (validDim \<notin> dimSet)
         (bindR (at_nat s validDim) (\<lambda>v. bindR (put_nat outputShape i v) (\<lambda>outputShape.
           Inr (outputShape, insert validDim dimSet))))))
      [0..<k] (s, {}) = Inr r \<longleftrightarrow>
    (\<forall>i < k. - int (length s) \<le> dims ! i \<and> dims ! i < int (length s)) \<and>
    inj_on (\<lambda>i. axis_of (length s) (dims ! i)) {..<k} \<and>
    r = (map (\<lambda>i. if i < k then s ! axis_of (length s) (dims ! i) else s ! i) [0..<length s],
      (\<lambda>i. axis_of (length s) (dims ! i)) ` {..<k})"
  using assms(1)
proof (induction k arbitrary: r)
  case 0
  then show ?case by (auto simp: map_nth)
next
  case (Suc k)
  have upd: "(map (\<lambda>i. if i < k then s ! axis_of (length s) (dims ! i) else s ! i) [0..<length s])[k := v] =
      map (\<lambda>i. if i < Suc k then (if i = k then v else s ! axis_of (length s) (dims ! i)) else s ! i) [0..<length s]" for v
    by (rule nth_equalityI) (auto simp: nth_list_update)
  have m: "map (\<lambda>i. if i < Suc k then (if i = k then s ! axis_of (length s) (dims ! k) else s ! axis_of (length s) (dims ! i)) else s ! i) [0..<length s] =
      map (\<lambda>i. if i < Suc k then s ! axis_of (length s) (dims ! i) else s ! i) [0..<length s]"
    by (intro map_cong refl) auto
  have r: "axis_of (length s) d < length s \<longleftrightarrow> d < int (length s)" if "- int (length s) \<le> d" "d \<le> int (length s)" for d
    using that by (auto simp: axis_of_def)
  show ?case
    using Suc
    by (auto simp: foldR_append bindR_eq_Inr guardR_eq_Inr GetValidDim_Inr at_nat_eq_Inr put_nat_eq_Inr r
        lessThan_Suc less_Suc_eq upd m)
qed

lemma Permute_shape_Inr:
  "Permute_shape dims s = Inr t \<longleftrightarrow> length dims = length s \<and>
     (\<forall>i < length s. - int (length s) \<le> dims ! i \<and> dims ! i < int (length s)) \<and>
     inj_on (\<lambda>i. axis_of (length s) (dims ! i)) {..<length s} \<and>
     t = map (\<lambda>i. s ! axis_of (length s) (dims ! i)) [0..<length s]"
proof (cases "length dims = length s")
  case True
  have "map (\<lambda>i. if i < length s then s ! axis_of (length s) (dims ! i) else s ! i) [0..<length s] =
      map (\<lambda>i. s ! axis_of (length s) (dims ! i)) [0..<length s]" by (intro map_cong refl) simp
  with True Permute_fold [of "length s" s dims] show ?thesis
    by (auto simp: Permute_shape_def bindR_eq_Inr)
qed (simp add: Permute_shape_def)

definition Permute_map :: "int list \<Rightarrow> shape \<Rightarrow> nat \<Rightarrow> nat option" where
  "Permute_map dims s d = List.find (\<lambda>i. axis_of (length s) (dims ! i) = d) [0..<length s]"

lemma find_upt_unique:
  assumes "inj_on f {..<n}"
  shows "List.find (\<lambda>i. f i = d) [0..<n] = Some e \<longleftrightarrow> e < n \<and> f e = d"
proof
  assume "List.find (\<lambda>i. f i = d) [0..<n] = Some e"
  then show "e < n \<and> f e = d" by (auto simp: find_Some_iff)
next
  assume e: "e < n \<and> f e = d"
  have "List.find (\<lambda>i. f i = d) [0..<n] \<noteq> None" using e by (auto simp: find_None_iff)
  then obtain e' where e': "List.find (\<lambda>i. f i = d) [0..<n] = Some e'" by blast
  then have "e' < n" "f e' = d" by (auto simp: find_Some_iff)
  with e assms e' show "List.find (\<lambda>i. f i = d) [0..<n] = Some e" by (auto simp: inj_on_def)
qed

interpretation permute: axis_map_shape "Permute_shape dims" "Permute_rules dims" "Permute_map dims" for dims
proof
  fix s t rs r
  assume t: "Permute_shape dims s = Inr t" and rs: "Permute_rules dims s = Inr rs" and r: "r \<in> set rs"
  note inj = t [unfolded Permute_shape_Inr]
  from rs obtain rs' where rs': "rs = ([Partial], [Partial]) # rs'" "length dims = length s"
    "mapR (\<lambda>i. bindR (GetValidDim s (dims ! i)) (\<lambda>validDim.
       assertR (validDim < NumAxis s) (Inr ([Shard (int validDim) (- 1)], [Shard (int i) (- 1)])))) [0..<length dims] = Inr rs'"
    by (auto simp: Permute_rules_def bindR_eq_Inr guardR_eq_Inr)
  then have nth: "length rs' = length s"
    "\<forall>i < length s. rs' ! i = ([Shard (int (axis_of (length s) (dims ! i))) (- 1)], [Shard (int i) (- 1)])"
    by (auto simp: mapR_eq_Inr bindR_eq_Inr guardR_eq_Inr GetValidDim_Inr)
  have "follows (Permute_map dims s) (rs' ! i)" if i: "i < length s" for i
  proof -
    have "Permute_map dims s (axis_of (length s) (dims ! i)) = Some i"
      using inj i by (simp add: Permute_map_def find_upt_unique)
    then have "follows (Permute_map dims s) ([Shard (int (axis_of (length s) (dims ! i))) (- 1)], [Shard (int i) (- 1)])"
      by (rule follows_Shard) simp_all
    with nth(2) i show ?thesis by simp
  qed
  with r rs'(1) nth(1) show "follows_in (length s) (Permute_map dims s) r"
    by (auto simp: in_set_conv_nth intro!: follows_inI)
next
  fix s t d e d'
  assume "Permute_shape dims s = Inr t" "Permute_map dims s d = Some e" "Permute_map dims s d' = Some e"
  then show "d = d'" by (simp add: Permute_shape_Inr Permute_map_def find_upt_unique)
next
  fix s t d e
  assume "Permute_shape dims s = Inr t" "Permute_map dims s d = Some e"
  then show "d < length s \<and> e < length t" "t ! e = s ! d"
    by (auto simp: Permute_shape_Inr Permute_map_def find_upt_unique axis_of_less)
next
  fix s t s' t' :: shape
  assume t: "Permute_shape dims s = Inr t" and l: "length s' = length s" "length t' = length t"
    and m: "\<And>d e. Permute_map dims s d = Some e \<Longrightarrow> t' ! e = s' ! d"
  from t have p: "length t = length s" "inj_on (\<lambda>i. axis_of (length s) (dims ! i)) {..<length s}"
    by (auto simp: Permute_shape_Inr)
  have "t' ! i = s' ! axis_of (length s) (dims ! i)" if "i < length s" for i
    using that p(2) by (intro m) (simp add: Permute_map_def find_upt_unique)
  then have "t' = map (\<lambda>i. s' ! axis_of (length s) (dims ! i)) [0..<length s]"
    using l p by (intro nth_equalityI) auto
  with t l show "Permute_shape dims s' = Inr t'" by (simp add: Permute_shape_Inr)
qed

text \<open>A distributed permute is sound: permuting the local tensor of every device gives the local shape that the
  inferred layout of the output promises, also when two mesh axes shard the tensor.\<close>

theorem Permute_layout_sound:
  assumes "InferOutput gpus (Permute_class dims) [x] [y0] = Inr ys" and "Operand_IsDistributed x"
    and "list_all plain_placement (oPlacementSeq x)" and "oPlacementSeq x \<noteq> []" and "\<not> IsNullTensorShape (oShape x)"
  shows "\<exists>y. ys = [y] \<and> oShape y = map (\<lambda>i. oShape x ! axis_of (length (oShape x)) (dims ! i)) [0..<length (oShape x)] \<and>
    oDeviceMesh y = oDeviceMesh x \<and>
    (\<forall>ms cs. Permute_shape dims (local_shape ms (oPlacementSeq x) (oShape x) cs) =
      Inr (local_shape ms (oPlacementSeq y) (oShape y) cs))"
proof -
  have "vSkipDistributedSpec (unary_class (Permute_shape dims) (Permute_rules dims)) [x] = Inr False"
    using assms(2) by (simp add: unary_skip)
  from permute.layout.inferred_layout_sound [OF assms(1) [unfolded Permute_class_def] this assms(3-5)]
  show ?thesis by (auto simp: Permute_shape_Inr)
qed

theorem Permute_layout_sound_witness:
  "\<exists>y. InferOutput 8 (Permute_class [2, 0, - 2]) [grid_operand] [Operand_new] = Inr [y] \<and> oShape y = [2, 6, 4] \<and>
    Permute_shape [2, 0, - 2] (local_shape [2, 2] [Shard 0 (- 1), Shard 1 (- 1)] [6, 4, 2] [1, 0]) =
      Inr (local_shape [2, 2] (oPlacementSeq y) (oShape y) [1, 0])"
proof -
  have "\<exists>ys. InferOutput 8 (Permute_class [2, 0, - 2]) [grid_operand] [Operand_new] = Inr ys"
    unfolding Permute_class_def
    by (rule grid_unary_runs [where t = "[2, 6, 4]" and rs = "[([Partial], [Partial]), ([Shard 2 (- 1)], [Shard 0 (- 1)]),
        ([Shard 0 (- 1)], [Shard 1 (- 1)]), ([Shard 1 (- 1)], [Shard 2 (- 1)])]"])
      (auto simp: Permute_shape_def Permute_rules_def GetValidDim_def sig_pairs_ok_def plain_tuples_def
        upt_rec intro: exI [of _ "2::nat"] exI [of _ "1::nat"])
  then obtain ys where ys: "InferOutput 8 (Permute_class [2, 0, - 2]) [grid_operand] [Operand_new] = Inr ys" by blast
  from Permute_layout_sound [OF this] ys show ?thesis by (auto simp: IsNullTensorShape_def axis_of_def upt_rec)
qed

section \<open>Unsqueeze\<close>

definition Unsqueeze_shape :: "int \<Rightarrow> shape \<Rightarrow> shape res" where
  "Unsqueeze_shape dim inShape =
     (let outShape = Shape_new (NumAxis inShape + 1) 1 in
      bindR (GetValidDim outShape dim) (\<lambda>dim.
      bindR (foldR (\<lambda>i (outShape, readIndex).
          if i \<noteq> dim then bindR (at_nat inShape readIndex) (\<lambda>v. bindR (put_nat outShape i v) (\<lambda>outShape.
            Inr (outShape, readIndex + 1)))
          else bindR (put_nat outShape i 1) (\<lambda>outShape. Inr (outShape, readIndex)))
        [0..<NumAxis outShape] (outShape, 0)) (\<lambda>(outShape, readIndex). Inr outShape)))"

definition Unsqueeze_rules :: "int \<Rightarrow> shape \<Rightarrow> rule list res" where
  "Unsqueeze_rules dim inShape =
     bindR (GetValidDim inShape dim) (\<lambda>dim.
       Inr (([Partial], [Partial]) # map (\<lambda>i.
         ([Shard (int i) (- 1)], [Shard (int (if i < dim then i else i + 1)) (- 1)])) [0..<NumAxis inShape]))"

definition Unsqueeze_class :: "int \<Rightarrow> op_class" where
  "Unsqueeze_class dim = unary_class (Unsqueeze_shape dim) (Unsqueeze_rules dim)"

text \<open>The loop inserts a 1 at the wanted axis.\<close>

lemma update_append: "length pre = k \<Longrightarrow> (pre @ x # rest)[k := v] = pre @ v # rest"
  by auto

lemma put_nat_append: "length pre = k \<Longrightarrow> put_nat (pre @ x # rest) k v = Inr (pre @ v # rest)"
  by (auto simp: put_nat_def)

lemma foldR_snoc: "foldR f (xs @ [x]) a = bindR (foldR f xs a) (f x)"
proof -
  have "foldR f [x] = f x" by (rule ext) (simp add: bindR_def split: sum.splits)
  then show ?thesis by (simp only: foldR_append)
qed

lemma Unsqueeze_fold:
  fixes s :: shape
  assumes "k \<le> Suc (length s)" and "k \<le> length s \<or> d \<le> length s"
  shows "foldR (\<lambda>i (outShape, readIndex).
      if i \<noteq> d then bindR (at_nat s readIndex) (\<lambda>v. bindR (put_nat outShape i v) (\<lambda>outShape. Inr (outShape, readIndex + 1)))
      else bindR (put_nat outShape i 1) (\<lambda>outShape. Inr (outShape, readIndex)))
    [0..<k] (replicate (Suc (length s)) 1, 0) =
    Inr (take k (take d s @ 1 # drop d s) @ replicate (Suc (length s) - k) 1, if k \<le> d then k else k - 1)"
  (is "foldR ?F _ ?init = _")
  using assms
proof (induction k)
  case 0
  then show ?case by simp
next
  case (Suc k)
  let ?t = "take d s @ 1 # drop d s"
  let ?rest = "replicate (Suc (length s) - Suc k) (1::int)"
  have len: "length ?t = Suc (length s)" by simp
  have t: "take (Suc k) ?t = take k ?t @ [?t ! k]" using Suc.prems len by (intro take_Suc_conv_app_nth) simp
  have rep: "replicate (Suc (length s) - k) (1::int) = 1 # ?rest"
    using Suc.prems(1) by (simp add: Suc_diff_le)
  define pre where "pre = take k ?t"
  define rest where "rest = ?rest"
  have l: "length pre = k" using len Suc.prems by (simp only: pre_def length_take)
  have nth: "?t ! k = (if k < d then s ! k else if k = d then 1 else s ! (k - 1))"
    using Suc.prems by (auto simp: nth_append nth_Cons' min_def)
  have run: "foldR ?F [0..<Suc k] ?init = ?F k (pre @ 1 # rest, if k \<le> d then k else k - 1)"
    using Suc by (simp only: upt_Suc le0 if_True foldR_snoc rep pre_def rest_def) simp
  have goal: "Inr (take (Suc k) ?t @ ?rest, if Suc k \<le> d then Suc k else Suc k - 1) =
      (Inr (pre @ (if k < d then s ! k else if k = d then 1 else s ! (k - 1)) # rest, if k < d then Suc k else k) :: _ res)"
    unfolding t pre_def [symmetric] rest_def [symmetric] nth by simp
  show ?case
    unfolding run goal using Suc.prems l
    by (cases k d rule: linorder_cases) (auto simp: put_nat_append update_append at_nat_def guardR_def)
qed

lemma Unsqueeze_shape_Inr:
  "Unsqueeze_shape dim s = Inr t \<longleftrightarrow> - int (length s + 1) \<le> dim \<and> dim \<le> int (length s) \<and>
     t = take (axis_of (length s + 1) dim) s @ 1 # drop (axis_of (length s + 1) dim) s"
proof -
  let ?d = "axis_of (length s + 1) dim"
  let ?F = "\<lambda>i (outShape, readIndex).
      if i \<noteq> ?d then bindR (at_nat s readIndex) (\<lambda>v. bindR (put_nat outShape i v) (\<lambda>outShape. Inr (outShape, readIndex + 1)))
      else bindR (put_nat outShape i 1) (\<lambda>outShape. Inr (outShape, readIndex))"
  let ?run = "foldR ?F [0..<Suc (length s)] (replicate (Suc (length s)) 1, 0)"
  have shape: "Unsqueeze_shape dim s = (if - int (length s + 1) \<le> dim \<and> dim \<le> int (length s + 1)
      then bindR ?run (\<lambda>(o', r). Inr o') else Inl InvalidArgument)"
    by (auto simp: Unsqueeze_shape_def GetValidDim_def axis_of_def Shape_new_def Let_def guardR_def simp del: upt_Suc replicate_Suc)
  show ?thesis
  proof (cases "?d \<le> length s")
    case True
    with Unsqueeze_fold [of "Suc (length s)" s ?d]
    have "?run = Inr (take ?d s @ 1 # drop ?d s, if Suc (length s) \<le> ?d then Suc (length s) else length s)"
      by (simp del: upt_Suc replicate_Suc)
    with True show ?thesis unfolding shape by (auto simp: axis_of_def)
  next
    case False
    with Unsqueeze_fold [of "length s" s ?d]
    have "?run = Inl Abort" unfolding upt_Suc_append [OF le0] foldR_snoc
      by (simp add: at_nat_def del: replicate_Suc)
    moreover have "\<not> (- int (length s + 1) \<le> dim \<and> dim \<le> int (length s))"
      using False axis_of_less [of "length s + 1" dim] by auto
    ultimately show ?thesis unfolding shape by (auto simp del: upt_Suc replicate_Suc)
  qed
qed

definition Unsqueeze_map :: "int \<Rightarrow> shape \<Rightarrow> nat \<Rightarrow> nat option" where
  "Unsqueeze_map dim s d = (if d < length s then Some (if d < nat dim then d else d + 1) else None)"

interpretation unsqueeze: axis_map_shape "Unsqueeze_shape (int k)" "Unsqueeze_rules (int k)" "Unsqueeze_map (int k)" for k
proof
  fix s t rs r
  assume "Unsqueeze_rules (int k) s = Inr rs" "r \<in> set rs"
  then consider "r = ([Partial], [Partial])"
    | i where "i < length s" "r = ([Shard (int i) (- 1)], [Shard (int (if i < k then i else i + 1)) (- 1)])"
    by (auto simp: Unsqueeze_rules_def bindR_eq_Inr GetValidDim_Inr axis_of_def)
  then have "follows (Unsqueeze_map (int k) s) r"
  proof cases
    case 2
    then show ?thesis
      by (simp only: follows_Shard [where d = i and e = "if i < k then i else i + 1"]) (simp add: follows_def Unsqueeze_map_def)
  qed simp
  then show "follows_in (length s) (Unsqueeze_map (int k) s) r" by (rule follows_inI)
next
  fix s t d e d'
  assume "Unsqueeze_shape (int k) s = Inr t" "Unsqueeze_map (int k) s d = Some e" "Unsqueeze_map (int k) s d' = Some e"
  then show "d = d'" by (auto simp: Unsqueeze_map_def split: if_splits)
next
  fix s t d e
  assume "Unsqueeze_shape (int k) s = Inr t" "Unsqueeze_map (int k) s d = Some e"
  then show "d < length s \<and> e < length t" "t ! e = s ! d"
    by (auto simp: Unsqueeze_map_def Unsqueeze_shape_Inr axis_of_def nth_append nth_Cons' min_def split: if_splits)
next
  fix s t s' t' :: shape
  assume t: "Unsqueeze_shape (int k) s = Inr t" and l: "length s' = length s" "length t' = length t"
    and m: "\<And>d e. Unsqueeze_map (int k) s d = Some e \<Longrightarrow> t' ! e = s' ! d"
    and o: "\<And>e. e < length t \<Longrightarrow> \<forall>d. Unsqueeze_map (int k) s d \<noteq> Some e \<Longrightarrow> t' ! e = t ! e"
  from t have k: "k \<le> length s" "t = take k s @ 1 # drop k s" by (auto simp: Unsqueeze_shape_Inr axis_of_def)
  have "t' ! e = (take k s' @ 1 # drop k s') ! e" if e: "e < length s + 1" for e
  proof (cases e k rule: linorder_cases)
    case less
    then show ?thesis using m [of e e] k l by (simp add: Unsqueeze_map_def nth_append)
  next
    case equal
    have "t' ! e = t ! e" using e k equal by (intro o) (auto simp: Unsqueeze_map_def)
    with equal k l show ?thesis by (simp add: nth_append)
  next
    case greater
    moreover have "Unsqueeze_map (int k) s (e - 1) = Some e"
      using greater e by (auto simp: Unsqueeze_map_def)
    ultimately show ?thesis using m [of "e - 1" e] e k l by (simp add: nth_append nth_Cons')
  qed
  then have "t' = take k s' @ 1 # drop k s'" using k l by (intro nth_equalityI) auto
  with t l show "Unsqueeze_shape (int k) s' = Inr t'" by (auto simp: Unsqueeze_shape_Inr axis_of_def)
qed

text \<open>A distributed unsqueeze with a dimension that is not negative is sound: the new axis is never sharded,
  and unsqueezing the local tensor of every device gives the local shape that the output layout promises.\<close>

theorem Unsqueeze_layout_sound:
  assumes "InferOutput gpus (Unsqueeze_class dim) [x] [y0] = Inr ys" and "0 \<le> dim" and "Operand_IsDistributed x"
    and "list_all plain_placement (oPlacementSeq x)" and "oPlacementSeq x \<noteq> []" and "\<not> IsNullTensorShape (oShape x)"
  shows "\<exists>y. ys = [y] \<and> oShape y = take (nat dim) (oShape x) @ 1 # drop (nat dim) (oShape x) \<and>
    (\<forall>p \<in> set (oPlacementSeq y). \<not> IsShardAt p dim) \<and>
    (\<forall>ms cs. Unsqueeze_shape dim (local_shape ms (oPlacementSeq x) (oShape x) cs) =
      Inr (local_shape ms (oPlacementSeq y) (oShape y) cs))"
proof -
  from assms(2) obtain k where k: "dim = int k" using nonneg_int_cases by blast
  have skip: "vSkipDistributedSpec (unary_class (Unsqueeze_shape (int k)) (Unsqueeze_rules (int k))) [x] = Inr False"
    using assms(3) by (simp add: unary_skip)
  note run = assms(1) [unfolded Unsqueeze_class_def k]
  from unsqueeze.layout.inferred_follows [OF run skip assms(4-6)] obtain y where y: "ys = [y]"
    "length (oPlacementSeq y) = length (oPlacementSeq x)" "\<forall>i < length (oPlacementSeq x).
      follows (Unsqueeze_map (int k) (oShape x)) ([oPlacementSeq x ! i], [oPlacementSeq y ! i])" by blast
  have "\<not> IsShardAt (oPlacementSeq y ! i) (int k)" if "i < length (oPlacementSeq x)" for i
    using y(3) that by (auto simp: follows_def IsShardAt_def Unsqueeze_map_def split: if_splits)
  moreover note unsqueeze.layout.inferred_layout_sound [OF run skip assms(4-6)]
  ultimately show ?thesis using y(1,2) k by (auto simp: Unsqueeze_shape_Inr axis_of_def in_set_conv_nth)
qed

theorem Unsqueeze_layout_sound_witness:
  "\<exists>y. InferOutput 8 (Unsqueeze_class 1) [grid_operand] [Operand_new] = Inr [y] \<and> oShape y = [6, 1, 4, 2] \<and>
    Unsqueeze_shape 1 (local_shape [2, 2] [Shard 0 (- 1), Shard 1 (- 1)] [6, 4, 2] [1, 1]) =
      Inr (local_shape [2, 2] (oPlacementSeq y) (oShape y) [1, 1])"
proof -
  have "\<exists>ys. InferOutput 8 (Unsqueeze_class 1) [grid_operand] [Operand_new] = Inr ys"
    unfolding Unsqueeze_class_def
    by (rule grid_unary_runs [where t = "[6, 1, 4, 2]" and rs = "[([Partial], [Partial]), ([Shard 0 (- 1)], [Shard 0 (- 1)]),
        ([Shard 1 (- 1)], [Shard 2 (- 1)]), ([Shard 2 (- 1)], [Shard 3 (- 1)])]"])
      (auto simp: Unsqueeze_shape_Inr axis_of_def Unsqueeze_rules_def GetValidDim_def sig_pairs_ok_def plain_tuples_def
        upt_rec intro: exI [of _ "0::nat"] exI [of _ "2::nat"])
  then obtain ys where ys: "InferOutput 8 (Unsqueeze_class 1) [grid_operand] [Operand_new] = Inr ys" by blast
  from Unsqueeze_layout_sound [OF this] ys show ?thesis by (auto simp: IsNullTensorShape_def)
qed

text \<open>
  The signature validates the dimension against the input shape, the output shape against one more axis:
  for the dimension -1 the rules send the last axis of the input to the new axis of size 1.
\<close>

lemma Unsqueeze_rules_negative:
  "Unsqueeze_shape (- 1) [6, 4] = Inr [6, 4, 1]"
  "([Shard 1 (- 1)], [Shard 2 (- 1)]) \<in> set (projr (Unsqueeze_rules (- 1) [6, 4]))"
  by (simp_all add: Unsqueeze_shape_Inr axis_of_def Unsqueeze_rules_def GetValidDim_def upt_rec)

end
