(* ===== verification/AxisOps.thy ===== *)
theory AxisOps
  imports ShapeOps "HOL-Library.AList"
begin

text \<open>
  Standard operators that work along axes: softmax, repeat_interleave, repeat, pad, expand, squeeze,
  chunk, concat (src/dtorch/core/operators/standard/*_op.cc).
\<close>

section \<open>Softmax\<close>

definition Softmax_shape :: "int \<Rightarrow> shape \<Rightarrow> shape res" where
  "Softmax_shape dim inputShape = bindR (GetValidDim inputShape dim) (\<lambda>_. Inr inputShape)"

definition Softmax_rules :: "int \<Rightarrow> shape \<Rightarrow> rule list res" where
  "Softmax_rules dim inputShape =
     bindR (GetValidDim inputShape dim) (\<lambda>dim.
       Inr (map (\<lambda>i. ([Shard (int i) (- 1)], [Shard (int i) (- 1)]))
         (filter (\<lambda>i. \<not> dim = i) [0..<NumAxis inputShape + 1])))"

definition Softmax_class :: "int \<Rightarrow> op_class" where
  "Softmax_class dim = (unary_class (Softmax_shape dim) (Softmax_rules dim))
     \<lparr>vInferOutputMetaInfo := CopyMeta (Softmax_shape dim)\<rparr>"

definition Softmax_map :: "int \<Rightarrow> shape \<Rightarrow> nat \<Rightarrow> nat option" where
  "Softmax_map dim s d = (if d < length s \<and> d \<noteq> axis_of (length s) dim then Some d else None)"

interpretation softmax: dim_map_operator "Softmax_class dim" "Softmax_shape dim" "Softmax_map dim" for dim
proof
  fix x y0 ys
  assume "vInferOutputMetaInfo (Softmax_class dim) [x] [y0] = Inr ys"
  then show "\<exists>y. ys = [y] \<and> Softmax_shape dim (oShape x) = Inr (oShape y)"
    by (auto simp: Softmax_class_def CopyMeta_def OperandAt_def UpdateOutput_def bindR_eq_Inr Softmax_shape_def
        MetaDataSameAs_def)
next
  fix x y sig
  assume "vGetPlacementSignature (Softmax_class dim) [x] [y] = Inr sig"
  then obtain rs where rs: "Softmax_rules dim (oShape x) = Inr rs" "BuildRules 1 1 rs = Inr sig"
    by (auto simp: Softmax_class_def unary_class_def OperandAt_def bindR_eq_Inr)
  have "follows_in (length (oShape x)) (Softmax_map dim (oShape x)) r" if "r \<in> set rs" for r
  proof -
    from rs(1) that obtain i where i: "r = ([Shard (int i) (- 1)], [Shard (int i) (- 1)])"
      "i \<noteq> axis_of (length (oShape x)) dim" by (auto simp: Softmax_rules_def bindR_eq_Inr GetValidDim_Inr simp del: upt_Suc)
    show ?thesis
    proof (cases "i < length (oShape x)")
      case True
      with i show ?thesis by (auto simp: Softmax_map_def intro!: follows_inI follows_Shard)
    qed (use i in \<open>auto simp: follows_in_def\<close>)
  qed
  with rs(2) show "\<exists>rules. BuildRules 1 1 rules = Inr sig \<and>
      (\<forall>r \<in> set rules. follows_in (length (oShape x)) (Softmax_map dim (oShape x)) r)" by blast
next
  fix s t s' t' :: shape
  assume t: "Softmax_shape dim s = Inr t" and l: "length s' = length s" "length t' = length t"
    and same: "\<And>d. d < length s \<Longrightarrow> Softmax_map dim s d = None \<Longrightarrow> s' ! d = s ! d"
    and m: "\<And>d e. Softmax_map dim s d = Some e \<Longrightarrow> t' ! e = s' ! d"
    and o: "\<And>e. e < length t \<Longrightarrow> \<forall>d. Softmax_map dim s d \<noteq> Some e \<Longrightarrow> t' ! e = t ! e"
  from t have ts: "t = s" by (auto simp: Softmax_shape_def bindR_eq_Inr)
  have "t' ! d = s' ! d" if d: "d < length s" for d
  proof (cases "d = axis_of (length s) dim")
    case True
    then have "Softmax_map dim s d = None" "\<forall>d'. Softmax_map dim s d' \<noteq> Some d" by (auto simp: Softmax_map_def)
    with same [of d] o [of d] d ts show ?thesis by simp
  next
    case False
    with d m [of d d] show ?thesis by (simp add: Softmax_map_def)
  qed
  with l ts have "t' = s'" by (intro nth_equalityI) auto
  with t l show "Softmax_shape dim s' = Inr t'" by (auto simp: Softmax_shape_def bindR_eq_Inr GetValidDim_Inr)
qed (auto simp: Softmax_map_def Softmax_shape_def bindR_eq_Inr split: if_splits)

text \<open>A distributed softmax never runs along a sharded axis: when inference succeeds, the output has the
  placements of the input, no placement shards the axis of the softmax, and the shape of every local output is
  the local shape of the output.\<close>

theorem Softmax_axis_local:
  assumes "InferOutput gpus (Softmax_class dim) [x] [y0] = Inr ys" and "Operand_IsDistributed x"
    and "list_all plain_placement (oPlacementSeq x)" and "oPlacementSeq x \<noteq> []" and "\<not> IsNullTensorShape (oShape x)"
  shows "\<exists>y. ys = [y] \<and> oShape y = oShape x \<and> oPlacementSeq y = oPlacementSeq x \<and>
    shard_axes (oPlacementSeq x) (axis_of (length (oShape x)) dim) = {}"
proof -
  have skip: "vSkipDistributedSpec (Softmax_class dim) [x] = Inr False"
    using assms(2) unary_skip [of "Softmax_shape dim" "Softmax_rules dim" x] by (simp add: Softmax_class_def)
  from softmax.inferred_follows [OF assms(1) skip assms(3-5)] obtain y where y: "ys = [y]"
    "Softmax_shape dim (oShape x) = Inr (oShape y)" "length (oPlacementSeq y) = length (oPlacementSeq x)"
    "\<forall>i < length (oPlacementSeq x). follows (Softmax_map dim (oShape x)) ([oPlacementSeq x ! i], [oPlacementSeq y ! i])"
    by blast
  from y(4) have i: "oPlacementSeq y ! i = oPlacementSeq x ! i"
    "\<not> IsShardAt (oPlacementSeq x ! i) (int (axis_of (length (oShape x)) dim))" if "i < length (oPlacementSeq x)" for i
    using that by (auto simp: follows_def Softmax_map_def IsShardAt_def split: if_splits)
  with y(1-3) show ?thesis
    by (auto simp: shard_axes_def Softmax_shape_def bindR_eq_Inr intro!: nth_equalityI)
qed

theorem Softmax_axis_local_witness:
  "\<exists>y. InferOutput 8 (Softmax_class (- 1)) [grid_operand] [Operand_new] = Inr [y] \<and>
    oPlacementSeq y = [Shard 0 (- 1), Shard 1 (- 1)]"
proof -
  have "\<exists>ys. InferOutput 8 (Softmax_class (- 1)) [grid_operand] [Operand_new] = Inr ys"
    by (rule grid_runs [where t = "[6, 4, 2]" and rs = "[([Shard 0 (- 1)], [Shard 0 (- 1)]),
        ([Shard 1 (- 1)], [Shard 1 (- 1)]), ([Shard 3 (- 1)], [Shard 3 (- 1)])]", OF Softmax_class_def])
      (auto simp: CopyMeta_def OperandAt_def UpdateOutput_def MetaDataSameAs_def Softmax_shape_def Softmax_rules_def
        GetValidDim_def sig_pairs_ok_def plain_tuples_def upt_rec intro: exI [of _ "0::nat"] exI [of _ "1::nat"])
  then obtain ys where ys: "InferOutput 8 (Softmax_class (- 1)) [grid_operand] [Operand_new] = Inr ys" by blast
  from Softmax_axis_local [OF this] ys show ?thesis by (auto simp: IsNullTensorShape_def)
qed

section \<open>Repeat_interleave, repeat and pad\<close>

definition RepeatInterleave_shape :: "int \<Rightarrow> int option \<Rightarrow> shape \<Rightarrow> shape res" where
  "RepeatInterleave_shape repeats dim inShape =
     requireR (\<not> repeats < 0)
      (case dim of
         None \<Rightarrow> bindR (Shape_Count inShape) (\<lambda>n. Inr [n * repeats])
       | Some dim \<Rightarrow> bindR (GetValidDim inShape dim) (\<lambda>dim. bindR (at_nat inShape dim) (\<lambda>v. put_nat inShape dim (v * repeats))))"

definition RepeatInterleave_rules :: "int option \<Rightarrow> shape \<Rightarrow> rule list res" where
  "RepeatInterleave_rules dim inShape =
     (case dim of
        None \<Rightarrow> Inr [([Partial], [Partial])]
      | Some dim \<Rightarrow> bindR (GetValidDim inShape dim) (\<lambda>dim.
          Inr (([Partial], [Partial]) # map (\<lambda>i. ([Shard (int i) (- 1)], [Shard (int i) (- 1)]))
            (filter (\<lambda>i. i \<noteq> dim) [0..<NumAxis inShape]))))"

definition RepeatInterleave_class :: "int \<Rightarrow> int option \<Rightarrow> op_class" where
  "RepeatInterleave_class repeats dim = unary_class (RepeatInterleave_shape repeats dim) (RepeatInterleave_rules dim)"

definition RepeatInterleave_map :: "int option \<Rightarrow> shape \<Rightarrow> nat \<Rightarrow> nat option" where
  "RepeatInterleave_map dim s d = (case dim of None \<Rightarrow> None
     | Some dim \<Rightarrow> if d < length s \<and> d \<noteq> axis_of (length s) dim then Some d else None)"

lemma RepeatInterleave_shape_Some:
  "RepeatInterleave_shape repeats (Some dim) s = Inr t \<longleftrightarrow> 0 \<le> repeats \<and> - int (length s) \<le> dim \<and> dim < int (length s) \<and>
     t = s[axis_of (length s) dim := s ! axis_of (length s) dim * repeats]"
  by (auto simp: RepeatInterleave_shape_def guardR_eq_Inr bindR_eq_Inr GetValidDim_Inr at_nat_eq_Inr put_nat_eq_Inr axis_of_def)

interpretation repeat_interleave: axis_map_shape "RepeatInterleave_shape repeats dim" "RepeatInterleave_rules dim"
  "RepeatInterleave_map dim" for repeats dim
proof
  fix s rs r
  assume "RepeatInterleave_rules dim s = Inr rs" "r \<in> set rs"
  then show "follows_in (length s) (RepeatInterleave_map dim s) r"
    by (cases dim) (auto simp: RepeatInterleave_rules_def RepeatInterleave_map_def bindR_eq_Inr GetValidDim_Inr
        intro!: follows_inI follows_Shard)
next
  fix s t s' t' :: shape
  assume t: "RepeatInterleave_shape repeats dim s = Inr t" and l: "length s' = length s" "length t' = length t"
    and same: "\<And>d. d < length s \<Longrightarrow> RepeatInterleave_map dim s d = None \<Longrightarrow> s' ! d = s ! d"
    and m: "\<And>d e. RepeatInterleave_map dim s d = Some e \<Longrightarrow> t' ! e = s' ! d"
    and o: "\<And>e. e < length t \<Longrightarrow> \<forall>d. RepeatInterleave_map dim s d \<noteq> Some e \<Longrightarrow> t' ! e = t ! e"
  show "RepeatInterleave_shape repeats dim s' = Inr t'"
  proof (cases dim)
    case None
    then have "s' = s" "t' = t"
      using l same o by (auto simp: RepeatInterleave_map_def intro!: nth_equalityI)
    with t show ?thesis by simp
  next
    case (Some k)
    let ?a = "axis_of (length s) k"
    from t Some have k: "0 \<le> repeats" "- int (length s) \<le> k" "k < int (length s)" "t = s[?a := s ! ?a * repeats]"
      by (simp_all add: RepeatInterleave_shape_Some)
    then have a: "?a < length s" by (intro axis_of_less)
    have "t' ! d = s'[?a := s' ! ?a * repeats] ! d" if d: "d < length s" for d
    proof (cases "d = ?a")
      case True
      then have "s' ! d = s ! d" "t' ! d = t ! d"
        using same [of d] o [of d] d k Some by (auto simp: RepeatInterleave_map_def)
      with True k a l show ?thesis by simp
    next
      case False
      with d m [of d d] Some show ?thesis by (simp add: RepeatInterleave_map_def)
    qed
    then have "t' = s'[?a := s' ! ?a * repeats]" using l k by (intro nth_equalityI) auto
    with k l Some show ?thesis by (simp add: RepeatInterleave_shape_Some)
  qed
qed (auto simp: RepeatInterleave_map_def RepeatInterleave_shape_Some split: option.splits if_splits)

definition Repeat_shape :: "int list \<Rightarrow> shape \<Rightarrow> shape res" where
  "Repeat_shape repeat inShape =
     requireR (\<not> length repeat < NumAxis inShape)
      (bindR (ExpandBefore inShape (length repeat)) (\<lambda>inShapeExpand.
        mapR (\<lambda>i. requireR (\<not> repeat ! i < 0) (Inr (inShapeExpand ! i * repeat ! i))) [0..<NumAxis inShapeExpand]))"

definition Repeat_class :: "int list \<Rightarrow> op_class" where
  "Repeat_class repeat = unary_class (Repeat_shape repeat) (\<lambda>_. Inr [])"

lemma ExpandBefore_eq: "length s \<le> n \<Longrightarrow> ExpandBefore s n = Inr (pad_ones n s)"
  by (auto simp: ExpandBefore_def pad_ones_def map_nth)

text \<open>The result is the repetition of the shape padded with leading axes of size 1.\<close>

lemma Repeat_shape_Inr:
  "Repeat_shape repeat s = Inr t \<longleftrightarrow> length s \<le> length repeat \<and> (\<forall>r \<in> set repeat. 0 \<le> r) \<and>
     t = map2 (*) (pad_ones (length repeat) s) repeat"
proof (cases "length s \<le> length repeat")
  case True
  then have e: "ExpandBefore s (length repeat) = Inr (pad_ones (length repeat) s)" by (simp add: ExpandBefore_eq)
  have t: "t = map2 (*) (pad_ones (length repeat) s) repeat \<longleftrightarrow>
      length t = length repeat \<and> (\<forall>i < length repeat. t ! i = pad_ones (length repeat) s ! i * repeat ! i)"
    using True by (auto simp: list_eq_iff_nth_eq [of t])
  have "max (length repeat) (length s) = length repeat" using True by simp
  then show ?thesis
    using True unfolding Repeat_shape_def e t by (auto simp: guardR_eq_Inr mapR_eq_Inr all_set_conv_all_nth not_less)
qed (simp add: Repeat_shape_def)

definition Pad_modes :: "string set" where
  "Pad_modes = {''constant'', ''reflect'', ''replicate'', ''circular''}"

definition Pad_shape :: "int list \<Rightarrow> string \<Rightarrow> shape \<Rightarrow> shape res" where
  "Pad_shape pad mode inShape =
     requireR (mode \<in> Pad_modes)
      (assertR (length pad > 0)
       (requireR (\<not> (length pad < 2 \<or> length pad mod 2 = 1))
        (requireR (\<not> length pad > NumAxis inShape * 2)
         (foldR (\<lambda>i outShape.
            let dim = NumAxis inShape - 1 - i;
                size = inShape ! dim + (if length pad \<ge> 2 * (i + 1) then pad ! (2 * i) + pad ! (2 * i + 1) else 0) in
            requireR (\<not> size < 0) (Inr (outShape[dim := size])))
          [0..<NumAxis inShape] inShape))))"

definition Pad_class :: "int list \<Rightarrow> string \<Rightarrow> op_class" where
  "Pad_class pad mode = unary_class (Pad_shape pad mode) (\<lambda>_. Inr [])"

text \<open>The size of an axis after padding: pairs of pads belong to the axes from the last one.\<close>

definition padded_size :: "int list \<Rightarrow> shape \<Rightarrow> nat \<Rightarrow> int" where
  "padded_size pad s d = (let i = length s - 1 - d in
     s ! d + (if 2 * (i + 1) \<le> length pad then pad ! (2 * i) + pad ! (2 * i + 1) else 0))"

lemma Pad_fold:
  assumes "k \<le> length s"
  shows "foldR (\<lambda>i outShape.
      let dim = NumAxis s - 1 - i;
          size = s ! dim + (if length pad \<ge> 2 * (i + 1) then pad ! (2 * i) + pad ! (2 * i + 1) else 0) in
      requireR (\<not> size < 0) (Inr (outShape[dim := size]))) [0..<k] s = Inr t \<longleftrightarrow>
    (\<forall>d < length s. length s \<le> d + k \<longrightarrow> 0 \<le> padded_size pad s d) \<and>
    t = map (\<lambda>d. if length s \<le> d + k then padded_size pad s d else s ! d) [0..<length s]"
  (is "foldR ?F _ _ = _ \<longleftrightarrow> _")
  using assms
proof (induction k arbitrary: t)
  case 0
  have "map (\<lambda>d. if length s \<le> d + 0 then padded_size pad s d else s ! d) [0..<length s] = s"
    by (intro nth_equalityI) auto
  then show ?case by auto
next
  case (Suc k)
  let ?d = "length s - 1 - k"
  have i: "length s - 1 - ?d = k" using Suc.prems by simp
  have upd: "(map (\<lambda>d. if length s \<le> d + k then padded_size pad s d else s ! d) [0..<length s])[?d := padded_size pad s ?d] =
      map (\<lambda>d. if length s \<le> d + Suc k then padded_size pad s d else s ! d) [0..<length s]"
    using Suc.prems by (intro nth_equalityI) (auto simp: nth_list_update)
  have split: "(\<forall>d < length s. length s \<le> d + Suc k \<longrightarrow> 0 \<le> padded_size pad s d) \<longleftrightarrow>
      (\<forall>d < length s. length s \<le> d + k \<longrightarrow> 0 \<le> padded_size pad s d) \<and> 0 \<le> padded_size pad s ?d"
  proof -
    have "length s \<le> d + Suc k \<longleftrightarrow> length s \<le> d + k \<or> d = ?d" if "d < length s" for d using that Suc.prems by arith
    moreover have "?d < length s" using Suc.prems by simp
    ultimately show ?thesis by blast
  qed
  have size: "s ! ?d + (if length pad \<ge> 2 * (k + 1) then pad ! (2 * k) + pad ! (2 * k + 1) else 0) = padded_size pad s ?d"
    unfolding padded_size_def Let_def i by simp
  have step: "?F k u = requireR (0 \<le> padded_size pad s ?d) (Inr (u[?d := padded_size pad s ?d]))" for u
    unfolding Let_def size not_less by (rule refl)
  have "foldR ?F [0..<Suc k] s = Inr t \<longleftrightarrow>
      (\<exists>u. foldR ?F [0..<k] s = Inr u \<and> 0 \<le> padded_size pad s ?d \<and> t = u[?d := padded_size pad s ?d])"
    unfolding upt_Suc_append [OF le0] foldR_snoc bindR_eq_Inr step guardR_eq_Inr by blast
  with Suc.IH [OF Suc_leD [OF Suc.prems]] split upd show ?case by presburger
qed

lemma Pad_shape_Inr:
  "Pad_shape pad mode s = Inr t \<longleftrightarrow> mode \<in> Pad_modes \<and> pad \<noteq> [] \<and> even (length pad) \<and> length pad \<le> 2 * length s \<and>
     (\<forall>d < length s. 0 \<le> padded_size pad s d) \<and> t = map (padded_size pad s) [0..<length s]"
proof -
  have m: "map (\<lambda>d. if length s \<le> d + length s then padded_size pad s d else s ! d) [0..<length s] = map (padded_size pad s) [0..<length s]"
    by simp
  have "length pad mod 2 = 1 \<longleftrightarrow> odd (length pad)" by presburger
  moreover have "pad \<noteq> [] \<Longrightarrow> even (length pad) \<Longrightarrow> \<not> length pad < 2" by (cases pad; cases "tl pad") auto
  ultimately show ?thesis
    unfolding Pad_shape_def guardR_eq_Inr Pad_fold [OF order_refl] m by auto
qed

section \<open>Expand\<close>

text \<open>The sizes -1 of the parameter are replaced in the parameter itself, from the last axis on.\<close>

definition Expand_param :: "shape \<Rightarrow> shape \<Rightarrow> shape res" where
  "Expand_param inputShape otherShape =
     foldR (\<lambda>i otherShape.
       let otherIdx = NumAxis otherShape - i - 1 in
       if otherShape ! otherIdx = - 1 then
         assertR (i < NumAxis inputShape) (Inr (otherShape[otherIdx := inputShape ! (NumAxis inputShape - i - 1)]))
       else Inr otherShape) [0..<NumAxis otherShape] otherShape"

definition Expand_infer :: "shape \<Rightarrow> operand list \<Rightarrow> operand list \<Rightarrow> (shape \<times> operand list) res" where
  "Expand_infer param inputs outputs =
     assertR (length inputs = 1)
      (bindR (OperandAt inputs 0) (\<lambda>x.
       bindR (Expand_param (oShape x) param) (\<lambda>otherShape.
       requireR (CanBroadcastWith (oShape x) otherShape)
        (bindR (BroadcastOutputShape (oShape x) otherShape) (\<lambda>outputShape.
         bindR (UpdateOutput 0 (\<lambda>y. SetShapeAndStride outputShape [] (MetaDataSameAs x y)) outputs)
          (\<lambda>outputs. Inr (otherShape, outputs)))))))"

definition Expand_GetPlacementSignature :: "operand list \<Rightarrow> operand list \<Rightarrow> PlacementSignature res" where
  "Expand_GetPlacementSignature inputs outputs =
     assertR (length inputs = 1)
      (bindR (OperandAt inputs 0) (\<lambda>x. bindR (OperandAt outputs 0) (\<lambda>y.
        assertR (NumAxis (oShape y) \<ge> NumAxis (oShape x))
         (let expandDimSize = NumAxis (oShape y) - NumAxis (oShape x) in
          BuildRules (length inputs) (length outputs) (([Partial], [Partial]) #
            map (\<lambda>i. ([Shard (int i) (- 1)], [Shard (int (expandDimSize + i)) (- 1)])) [0..<NumAxis (oShape x)])))))"

definition expand_size :: "shape \<Rightarrow> shape \<Rightarrow> nat \<Rightarrow> int" where
  "expand_size s target j = (if target ! j = - 1 then s ! (j + length s - length target) else target ! j)"

lemma nth_map_upto: "j < n \<Longrightarrow> map f [0..<n] ! j = f j"
  by simp

text \<open>Every size -1 stands for the size of the input at the same distance from the end.\<close>

lemma Expand_param_fold:
  assumes "k \<le> length target" and "\<forall>x \<in> set s. 0 \<le> x"
  shows "foldR (\<lambda>i target.
       let j = NumAxis target - i - 1 in
       if target ! j = - 1 then assertR (i < NumAxis s) (Inr (target[j := s ! (NumAxis s - i - 1)]))
       else Inr target) [0..<k] target =
     (if \<forall>j < length target. length target \<le> j + k \<and> target ! j = - 1 \<longrightarrow> length target \<le> j + length s
      then Inr (map (\<lambda>j. if length target \<le> j + k then expand_size s target j else target ! j) [0..<length target])
      else Inl Abort)" (is "foldR ?F _ _ = (if ?ok k then Inr (?t k) else _)")
  using assms(1)
proof (induction k)
  case 0
  have "?t 0 = target" by (intro nth_equalityI) auto
  then show ?case by auto
next
  case (Suc k)
  let ?j = "length target - k - 1"
  have j: "?j < length target" "length target = ?j + k + 1" using Suc.prems by auto
  have cover: "length target \<le> i + Suc k \<longleftrightarrow> length target \<le> i + k \<or> i = ?j" if "i < length target" for i
    using that j by arith
  then have "\<forall>i. i < length target \<longrightarrow> (length target \<le> i + Suc k \<longleftrightarrow> length target \<le> i + k \<or> i = ?j)" by blast
  moreover have "length target \<le> ?j + length s \<longleftrightarrow> k < length s" using j by arith
  ultimately have ok: "?ok (Suc k) \<longleftrightarrow> ?ok k \<and> (target ! ?j = - 1 \<longrightarrow> k < length s)"
    using j(1) by blast
  have nle: "\<not> length target \<le> ?j + k" using j(2) by arith
  have tj: "?t k ! ?j = target ! ?j" by (simp only: nth_map_upto [OF j(1)] nle if_False)
  have upd: "?t (Suc k) = (?t k)[?j := expand_size s target ?j]"
    using j cover by (intro nth_equalityI) (auto simp: nth_list_update)
  have same: "(?t k)[?j := target ! ?j] = ?t k" by (rule list_update_same_conv [THEN iffD2]) (use j tj in auto)
  have idx: "target ! ?j = - 1 \<Longrightarrow> k < length s \<Longrightarrow> expand_size s target ?j = s ! (length s - k - 1)"
    using j by (simp add: expand_size_def)
  show ?case
  proof (cases "?ok k")
    case True
    then have run: "foldR ?F [0..<Suc k] target = ?F k (?t k)"
      using Suc by (simp only: upt_Suc le0 if_True foldR_snoc) simp
    have e: "target ! ?j \<noteq> - 1 \<Longrightarrow> expand_size s target ?j = target ! ?j" by (simp add: expand_size_def)
    have len: "length (?t k) = length target" by simp
    have step: "?F k (?t k) = (if target ! ?j = - 1 then assertR (k < length s) (Inr ((?t k)[?j := s ! (length s - k - 1)]))
        else Inr (?t k))" unfolding Let_def len tj by (rule refl)
    consider "target ! ?j \<noteq> - 1" | "target ! ?j = - 1" "k < length s" | "target ! ?j = - 1" "\<not> k < length s" by blast
    then show ?thesis
    proof cases
      case 1
      then have "?t (Suc k) = ?t k" using upd same e by presburger
      with 1 True show ?thesis unfolding run ok step by presburger
    next
      case 2
      have "foldR ?F [0..<Suc k] target = Inr ((?t k)[?j := s ! (length s - k - 1)])"
        by (rule trans [OF trans [OF run step]]) (simp only: 2 guardR_True if_True simp_thms)
      then show ?thesis unfolding ok upd idx [OF 2] using True 2 by presburger
    next
      case 3
      have "foldR ?F [0..<Suc k] target = Inl Abort" by (rule trans [OF trans [OF run step]]) (simp only: 3 guardR_False if_True simp_thms)
      then show ?thesis unfolding ok using 3 by presburger
    qed
  next
    case False
    then have "foldR ?F [0..<Suc k] target = Inl Abort"
      using Suc by (simp only: upt_Suc le0 if_True foldR_snoc) simp
    with False ok show ?thesis by simp
  qed
qed

lemma Expand_param_eq:
  assumes "\<forall>x \<in> set s. 0 \<le> x"
  shows "Expand_param s target =
    (if \<forall>j < length target. target ! j = - 1 \<longrightarrow> length target \<le> j + length s
     then Inr (map (expand_size s target) [0..<length target]) else Inl Abort)"
proof -
  have "Expand_param s target = (if \<forall>j < length target. length target \<le> j + length target \<and> target ! j = - 1 \<longrightarrow>
        length target \<le> j + length s
      then Inr (map (\<lambda>j. if length target \<le> j + length target then expand_size s target j else target ! j) [0..<length target])
      else Inl Abort)"
    unfolding Expand_param_def by (rule Expand_param_fold [OF order_refl assms])
  then show ?thesis by simp
qed

text \<open>
  The kernel expands the local tensor to the parameter, in which the sizes of the whole tensor were
  written: a sharded axis that was to keep its size does not fit.
\<close>

lemma Expand_param_not_local:
  "Expand_param [6, 1] [- 1, 5] = Inr [6, 5]" and "CanBroadcastWith [6, 1] [6, 5]"
  "\<not> CanBroadcastWith [3, 1] [6, 5]"
  by (simp_all add: Expand_param_def CanBroadcastWith_def Let_def upt_rec)

section \<open>Squeeze\<close>

text \<open>The map from input to output axes is a member of the operator, which inference extends.\<close>

type_synonym io_dim_map = "(nat \<times> nat) list"

definition Squeeze_scan :: "nat set \<Rightarrow> shape \<Rightarrow> io_dim_map \<Rightarrow> shape \<times> io_dim_map" where
  "Squeeze_scan dimSet inShape ioDimMap =
     foldl (\<lambda>(outShape, ioDimMap) i.
       if dimSet = {} \<or> i \<in> dimSet then
         (if inShape ! i \<noteq> 1 then (outShape @ [inShape ! i], AList.update i (NumAxis outShape) ioDimMap)
          else (outShape, ioDimMap))
       else (outShape @ [inShape ! i], AList.update i (NumAxis outShape) ioDimMap))
     ([], ioDimMap) [0..<NumAxis inShape]"

definition Squeeze_infer :: "int list \<Rightarrow> io_dim_map \<Rightarrow> operand list \<Rightarrow> operand list \<Rightarrow> (io_dim_map \<times> operand list) res" where
  "Squeeze_infer dims ioDimMap inputs outputs =
     assertR (length inputs = 1)
      (bindR (OperandAt inputs 0) (\<lambda>x.
       bindR (mapR (GetValidDim (oShape x)) dims) (\<lambda>ds.
         let (outShape, ioDimMap) = Squeeze_scan (set ds) (oShape x) ioDimMap in
         bindR (UpdateOutput 0 (\<lambda>y. SetShapeAndStride outShape [] (MetaDataSameAs x y)) outputs)
          (\<lambda>outputs. Inr (ioDimMap, outputs)))))"

definition Squeeze_GetPlacementSignature :: "io_dim_map \<Rightarrow> operand list \<Rightarrow> operand list \<Rightarrow> PlacementSignature res" where
  "Squeeze_GetPlacementSignature ioDimMap inputs outputs =
     assertR (length inputs = 1)
      (BuildRules (length inputs) (length outputs) (([Partial], [Partial]) #
        map (\<lambda>(i, k). ([Shard (int i) (- 1)], [Shard (int k) (- 1)])) ioDimMap))"

definition squeezed :: "nat set \<Rightarrow> shape \<Rightarrow> nat \<Rightarrow> bool" where
  "squeezed dimSet s i \<longleftrightarrow> (dimSet = {} \<or> i \<in> dimSet) \<and> s ! i = 1"

definition squeeze_pos :: "nat set \<Rightarrow> shape \<Rightarrow> nat \<Rightarrow> nat" where
  "squeeze_pos dimSet s i = length (filter (\<lambda>d. \<not> squeezed dimSet s d) [0..<i])"

lemma Squeeze_scan_fold:
  "foldl (\<lambda>(outShape, ioDimMap) i.
       if dimSet = {} \<or> i \<in> dimSet then
         (if s ! i \<noteq> 1 then (outShape @ [s ! i], AList.update i (NumAxis outShape) ioDimMap) else (outShape, ioDimMap))
       else (outShape @ [s ! i], AList.update i (NumAxis outShape) ioDimMap)) ([], m) [0..<k] =
   (map ((!) s) (filter (\<lambda>i. \<not> squeezed dimSet s i) [0..<k]),
    fold (\<lambda>i. AList.update i (squeeze_pos dimSet s i)) (filter (\<lambda>i. \<not> squeezed dimSet s i) [0..<k]) m)"
proof (induction k)
  case 0
  then show ?case by simp
next
  case (Suc k)
  then show ?case by (auto simp: squeezed_def squeeze_pos_def)
qed

text \<open>A fresh operator: the kept axes in order, each mapped to its position; the number of elements stays.\<close>

lemma Squeeze_scan_eq:
  "Squeeze_scan dimSet s m = (map ((!) s) (filter (\<lambda>i. \<not> squeezed dimSet s i) [0..<length s]),
     fold (\<lambda>i. AList.update i (squeeze_pos dimSet s i)) (filter (\<lambda>i. \<not> squeezed dimSet s i) [0..<length s]) m)"
  by (simp add: Squeeze_scan_def Squeeze_scan_fold)

lemma fold_update_map_of:
  "distinct xs \<Longrightarrow> map_of (fold (\<lambda>i. AList.update i (f i)) xs m) d = (if d \<in> set xs then Some (f d) else map_of m d)"
  by (induction xs arbitrary: m) (auto simp: update_conv')

lemma Squeeze_scan_map:
  "map_of (snd (Squeeze_scan dimSet s [])) d =
    (if d < length s \<and> \<not> squeezed dimSet s d then Some (squeeze_pos dimSet s d) else None)"
  by (simp add: Squeeze_scan_eq fold_update_map_of)

lemma squeeze_prod: "prod_list (map ((!) s) (filter (\<lambda>i. \<not> squeezed dimSet s i) [0..<k])) = prod_list (map ((!) s) [0..<k])"
  by (induction k) (auto simp: squeezed_def)

lemma Squeeze_scan_prod: "prod_list (fst (Squeeze_scan dimSet s m)) = prod_list s"
  by (simp add: Squeeze_scan_eq squeeze_prod map_nth)

text \<open>A kept axis whose local size is 1 is squeezed by the kernel on the local tensor.\<close>

lemma Squeeze_local_size_1:
  "fst (Squeeze_scan {} [2, 3] []) = [2, 3]" and "fst (Squeeze_scan {} (local_shape [2] [Shard 0 (- 1)] [2, 3] [0]) []) = [3]"
proof -
  have "shard_axes [Shard 0 (- 1)] 0 = {0}" "shard_axes [Shard 0 (- 1)] (Suc 0) = {}"
    by (auto simp: shard_axes_def IsShardAt_def)
  then have "local_shape [2] [Shard 0 (- 1)] [2, 3] [0] = [1, 3]"
    by (simp add: local_shape_def upt_rec local_size_def shard_count_def piece_size_def)
  then show "fst (Squeeze_scan {} (local_shape [2] [Shard 0 (- 1)] [2, 3] [0]) []) = [3]"
    by (simp add: Squeeze_scan_def upt_rec)
qed (simp add: Squeeze_scan_def upt_rec)

section \<open>Chunk\<close>

definition Chunk_InferOutputSize :: "int \<Rightarrow> int \<Rightarrow> operand list \<Rightarrow> nat res" where
  "Chunk_InferOutputSize chunks dim inputs =
     assertR (length inputs = 1)
      (bindR (OperandAt inputs 0) (\<lambda>x.
       bindR (GetValidDim (oShape x) dim) (\<lambda>dim.
       bindR (at_nat (oShape x) dim) (\<lambda>size.
         if size \<le> chunks then Inr (nat (as_size_t size))
         else bindR (quotR (size + chunks - 1) chunks) (\<lambda>perOutputSize.
           let perOutputSize = as_size_t perOutputSize in
           bindR (quotR (as_size_t (size + perOutputSize - 1)) perOutputSize) (\<lambda>outputSize. Inr (nat outputSize)))))))"

definition Chunk_InferOutputMetaInfo :: "int \<Rightarrow> int \<Rightarrow> operand list \<Rightarrow> operand list \<Rightarrow> operand list res" where
  "Chunk_InferOutputMetaInfo chunks dim inputs outputs =
     assertR (length inputs = 1)
      (bindR (OperandAt inputs 0) (\<lambda>x.
       bindR (GetValidDim (oShape x) dim) (\<lambda>dim.
       bindR (at_nat (oShape x) dim) (\<lambda>size.
       bindR (if size \<le> chunks then Inr (1, 1)
              else bindR (quotR (size + chunks - 1) chunks) (\<lambda>per. Inr (per, size - per * (int (length outputs) - 1))))
        (\<lambda>(per, rest).
         assertR (length outputs > 0)
          (let outputs = map (\<lambda>i. SetShapeAndStride ((oShape x)[dim := (if i < length outputs - 1 then per else rest)]) []
               (MetaDataSameAs x (outputs ! i))) [0..<length outputs] in
           requireR (\<not> (\<exists>p \<in> set (oPlacementSeq x). IsShardAt p (int dim))) (Inr outputs)))))))"

lemma Chunk_sizes:
  fixes size chunks per :: int
  assumes "0 < chunks" and "chunks < size"
  defines "per \<equiv> (size + chunks - 1) div chunks" and "k \<equiv> (size + per - 1) div per"
  shows "1 < per" and "0 < k" and "k \<le> chunks" and "0 < size - per * (k - 1)" and "size - per * (k - 1) \<le> per"
proof -
  have "2 * chunks \<le> size + chunks - 1" using assms(2) by simp
  then have "(2 * chunks) div chunks \<le> per" unfolding per_def using assms(1) by (intro zdiv_mono1) auto
  then show per: "1 < per" using assms(1) by simp
  have pc: "size \<le> per * chunks"
  proof -
    have "size + chunks - 1 = per * chunks + (size + chunks - 1) mod chunks"
      unfolding per_def by (metis div_mult_mod_eq)
    moreover have "(size + chunks - 1) mod chunks \<le> chunks - 1" using assms(1) by (simp add: zle_diff1_eq)
    ultimately show ?thesis by linarith
  qed
  have k: "size + per - 1 = per * k + (size + per - 1) mod per" unfolding k_def by simp
  have m: "0 \<le> (size + per - 1) mod per" "(size + per - 1) mod per \<le> per - 1" using per by (auto simp: zle_diff1_eq)
  have e: "per * (k - 1) = per * k - per" by (simp add: algebra_simps)
  show "0 < size - per * (k - 1)" "size - per * (k - 1) \<le> per" using k m e by linarith+
  show "0 < k" unfolding k_def using per assms by (simp add: pos_imp_zdiv_pos_iff)
  have "per * k \<le> per * chunks + (per - 1)" using k m pc by linarith
  then have "per * k < per * (chunks + 1)" by (simp add: algebra_simps)
  then show "k \<le> chunks" using per by (simp add: mult_less_cancel_left)
qed

lemma Chunk_run:
  assumes "0 < chunks" and d: "- int (length (oShape x)) \<le> dim" "dim < int (length (oShape x))"
    and "d = axis_of (length (oShape x)) dim" and "0 < oShape x ! d" and "\<forall>p \<in> set (oPlacementSeq x). \<not> IsShardAt p (int d)"
    and "Chunk_InferOutputSize chunks dim [x] = Inr n" and "length outputs = n"
  obtains ys per rest where "Chunk_InferOutputMetaInfo chunks dim [x] outputs = Inr ys"
    and "map oShape ys = replicate (n - 1) ((oShape x)[d := per]) @ [(oShape x)[d := rest]]"
    and "0 < n" and "int n \<le> chunks" and "0 < rest" and "rest \<le> per" and "int (n - 1) * per + rest = oShape x ! d"
proof -
  let ?s = "oShape x"
  let ?size = "?s ! d"
  let ?per = "if ?size \<le> chunks then 1 else (?size + chunks - 1) div chunks"
  let ?rest = "?size - ?per * (int n - 1)"
  have dl: "d < length ?s" using assms(2-4) by (simp add: axis_of_less)
  have valid: "GetValidDim ?s dim = Inr d" using assms(2-4) by (simp add: GetValidDim_Inr)
  have big: "0 < chunks \<Longrightarrow> chunks < ?size \<Longrightarrow> 1 < (?size + chunks - 1) div chunks" using Chunk_sizes(1) .
  have n: "int n = (if ?size \<le> chunks then ?size else (?size + ?per - 1) div ?per)"
    using assms(1,5,7) dl valid big
    by (auto simp: Chunk_InferOutputSize_def OperandAt_def Let_def pos_imp_zdiv_nonneg_iff split: if_splits)
  have props: "0 < n" "int n \<le> chunks" "0 < ?rest" "?rest \<le> ?per"
    using n assms(1,5) Chunk_sizes [of chunks ?size] by (auto split: if_splits)
  let ?ys = "map (\<lambda>i. SetShapeAndStride (?s[d := (if i < n - 1 then ?per else ?rest)]) []
    (MetaDataSameAs x (outputs ! i))) [0..<n]"
  have "Chunk_InferOutputMetaInfo chunks dim [x] outputs = Inr ?ys"
    using assms(1,5,6,8) dl valid props(1) n
    by (simp add: Chunk_InferOutputMetaInfo_def OperandAt_def Let_def)
  moreover have "map oShape ?ys = replicate (n - 1) (?s[d := ?per]) @ [?s[d := ?rest]]"
    using props(1) by (intro nth_equalityI) (auto simp: SetShapeAndStride_def nth_append)
  moreover have "int (n - 1) * ?per + ?rest = ?size" using props(1) by (simp add: algebra_simps of_nat_diff)
  ultimately show ?thesis using that props by blast
qed

section \<open>Concat\<close>

definition Concat_InferOutputMetaInfo :: "int \<Rightarrow> operand list \<Rightarrow> operand list \<Rightarrow> operand list res" where
  "Concat_InferOutputMetaInfo dim inputs outputs =
     assertR (length inputs > 0 \<and> length outputs = 1)
      (bindR (OperandAt inputs 0) (\<lambda>x.
       let inputShape = oShape x in
       bindR (GetValidDim inputShape dim) (\<lambda>dim.
       bindR (at_nat inputShape dim) (\<lambda>size.
       bindR (foldR (\<lambda>i outputSize.
           let tmpShape = oShape (inputs ! i) in
           bindR (at_nat tmpShape dim) (\<lambda>v.
           bindR (put_nat tmpShape dim size) (\<lambda>tmpShape.
             requireR (\<not> \<not> Shape_eq tmpShape inputShape) (Inr (outputSize + v)))))
         [1..<length inputs] size) (\<lambda>outputSize.
       bindR (put_nat inputShape dim outputSize) (\<lambda>outputShape.
         UpdateOutput 0 (\<lambda>y. SetShapeAndStride outputShape [] (MetaDataSameAs x y)) outputs))))))"

definition Concat_GetPlacementSignature :: "int \<Rightarrow> operand list \<Rightarrow> operand list \<Rightarrow> PlacementSignature res" where
  "Concat_GetPlacementSignature dim inputs outputs =
     assertR (length inputs > 0 \<and> length outputs = 1)
      (bindR (OperandAt inputs 0) (\<lambda>x.
       bindR (GetValidDim (oShape x) dim) (\<lambda>dim.
       let n = length inputs;
           same = (\<lambda>p q. (replicate n p, [q]));
           rules = same Partial Partial #
             map (\<lambda>i. same (Shard (int i) (- 1)) (Shard (int i) (- 1))) (filter (\<lambda>i. \<not> i = dim) [0..<NumAxis (oShape x)]) in
       if n = 2 then
         bindR (at_nat (oShape x) dim) (\<lambda>size.
           BuildRules n 1 (rules @ [same (Shard (int dim) (- 1)) (Shard (int dim) (size - 1))]))
       else BuildRules n 1 rules)))"

definition Concat_class :: "int \<Rightarrow> op_class" where
  "Concat_class dim = \<lparr>vIsRequireInputSameDataKind = True, vCheckInput = (\<lambda>_. Inr ()), vInferOutputSize = 1,
     vInferOutputMetaInfo = Concat_InferOutputMetaInfo dim,
     vSkipDistributedSpec = SkipDistributedSpecFromPlacementSignature,
     vGetPlacementSignature = Concat_GetPlacementSignature dim, vKeepSubSplitCoordinates = True\<rparr>"

lemma foldR_sum:
  fixes g :: "'a \<Rightarrow> int"
  assumes "\<And>i a. i \<in> set is \<Longrightarrow> f i a = Inr (a + g i)"
  shows "foldR f is acc = Inr (acc + sum_list (map g is))"
  using assms by (induction "is" arbitrary: acc) (auto simp: add.assoc)

text \<open>Inputs that agree but on the axis are joined along it.\<close>

lemma Concat_run:
  assumes "inputs \<noteq> []" and "s = oShape (hd inputs)" and "- int (length s) \<le> dim" and "dim < int (length s)"
    and "d = axis_of (length s) dim" and "\<forall>x \<in> set inputs. \<exists>v. oShape x = s[d := v]"
  shows "\<exists>z. Concat_InferOutputMetaInfo dim inputs [y] = Inr [z] \<and>
    oShape z = s[d := sum_list (map (\<lambda>x. oShape x ! d) inputs)]"
proof -
  have dl: "d < length s" using assms(3-5) by (simp add: axis_of_less)
  have valid: "GetValidDim s dim = Inr d" using assms(3-5) by (simp add: GetValidDim_Inr)
  have hd: "inputs ! 0 = hd inputs" "0 < length inputs" using assms(1) by (simp_all add: hd_conv_nth)
  let ?F = "\<lambda>i outputSize. let tmpShape = oShape (inputs ! i) in
      bindR (at_nat tmpShape d) (\<lambda>v. bindR (put_nat tmpShape d (s ! d)) (\<lambda>tmpShape.
        requireR (\<not> \<not> Shape_eq tmpShape s) (Inr (outputSize + v))))"
  have F: "?F i acc = Inr (acc + oShape (inputs ! i) ! d)" if "i \<in> set [1..<length inputs]" for i acc
  proof -
    from that assms(6) obtain v where "oShape (inputs ! i) = s[d := v]" by fastforce
    with dl show ?thesis by simp
  qed
  have fold: "foldR ?F [1..<length inputs] (s ! d) = Inr (s ! d + sum_list (map (\<lambda>i. oShape (inputs ! i) ! d) [1..<length inputs]))"
    by (rule foldR_sum) (rule F)
  have "map (\<lambda>i. oShape (inputs ! i) ! d) [1..<length inputs] = map (\<lambda>x. oShape x ! d) (tl inputs)"
    using hd(2) by (intro nth_equalityI) (auto simp: nth_tl)
  with fold have total: "foldR ?F [1..<length inputs] (s ! d) = Inr (sum_list (map (\<lambda>x. oShape x ! d) inputs))"
    using assms(1,2) by (cases inputs) auto
  show ?thesis
    unfolding Concat_InferOutputMetaInfo_def using assms(1) hd total valid dl
    by (simp add: OperandAt_def UpdateOutput_def assms(2) [symmetric] SetShapeAndStride_def del: Shape_eq_iff)
qed

text \<open>C40: Chunking a tensor and concatenating the chunks along the same axis gives back its shape: for an axis with
  entries and at least one chunk, the number of outputs is between 1 and the number of chunks, all but the last
  have the same size on the axis, the last one is not empty and not larger.\<close>

theorem Chunk_Concat_roundtrip:
  assumes "0 < chunks" and "- int (length (oShape x)) \<le> dim" and "dim < int (length (oShape x))"
    and "d = axis_of (length (oShape x)) dim" and "0 < oShape x ! d" and "\<forall>p \<in> set (oPlacementSeq x). \<not> IsShardAt p (int d)"
    and "Chunk_InferOutputSize chunks dim [x] = Inr n" and "length outputs = n"
  shows "0 < n \<and> int n \<le> chunks \<and> (\<exists>ys per rest z. Chunk_InferOutputMetaInfo chunks dim [x] outputs = Inr ys \<and>
    map oShape ys = replicate (n - 1) ((oShape x)[d := per]) @ [(oShape x)[d := rest]] \<and> 0 < rest \<and> rest \<le> per \<and>
    Concat_InferOutputMetaInfo dim ys [Operand_new] = Inr [z] \<and> oShape z = oShape x)"
proof -
  obtain ys per rest where run: "Chunk_InferOutputMetaInfo chunks dim [x] outputs = Inr ys"
    "map oShape ys = replicate (n - 1) ((oShape x)[d := per]) @ [(oShape x)[d := rest]]"
    "0 < n" "int n \<le> chunks" "0 < rest" "rest \<le> per" "int (n - 1) * per + rest = oShape x ! d"
    by (rule Chunk_run [OF assms])
  let ?s = "oShape x"
  have dl: "d < length ?s" using assms(2-4) by (simp add: axis_of_less)
  have ne: "ys \<noteq> []" using run(2) by auto
  have shapes: "oShape ` set ys \<subseteq> {?s[d := per], ?s[d := rest]}"
    using arg_cong [OF run(2), of set] by (auto split: if_splits)
  then obtain v where v: "oShape (hd ys) = ?s[d := v]" using hd_in_set [OF ne] by blast
  have all: "\<forall>y \<in> set ys. \<exists>u. oShape y = (oShape (hd ys))[d := u]" unfolding v using shapes by auto
  have len: "length (oShape (hd ys)) = length ?s" by (simp add: v)
  have "map (\<lambda>y. oShape y ! d) ys = map (\<lambda>s. s ! d) (map oShape ys)" by simp
  then have "sum_list (map (\<lambda>y. oShape y ! d) ys) = int (n - 1) * per + rest"
    unfolding run(2) using dl by (simp add: sum_list_replicate)
  with run(7) have total: "sum_list (map (\<lambda>y. oShape y ! d) ys) = ?s ! d" by simp
  obtain z where z: "Concat_InferOutputMetaInfo dim ys [Operand_new] = Inr [z]"
    "oShape z = (oShape (hd ys))[d := sum_list (map (\<lambda>y. oShape y ! d) ys)]"
    using Concat_run [OF ne refl, of dim d Operand_new] assms(2-4) all len by auto
  have "oShape z = ?s" unfolding z(2) total v by simp
  with run z(1) show ?thesis by blast
qed

theorem Chunk_Concat_roundtrip_witness:
  "\<exists>ys z. Chunk_InferOutputMetaInfo 4 (- 1) [Operand_of [3, 10] kFloat32 gpu_grid [Replicate, Shard 0 (- 1)]]
      (replicate 4 Operand_new) = Inr ys \<and> Concat_InferOutputMetaInfo (- 1) ys [Operand_new] = Inr [z] \<and> oShape z = [3, 10]"
proof -
  let ?x = "Operand_of [3, 10] kFloat32 gpu_grid [Replicate, Shard 0 (- 1)]"
  have "Chunk_InferOutputSize 4 (- 1) [?x] = Inr 4"
    by (simp add: Chunk_InferOutputSize_def OperandAt_def Operand_of_def GetValidDim_def Let_def)
  then show ?thesis
    using Chunk_Concat_roundtrip [of 4 ?x "- 1" 1 4 "replicate 4 Operand_new"]
    by (auto simp: Operand_of_def axis_of_def IsShardAt_def)
qed

end
