(* ===== verification/MultiOps.thy ===== *)
theory MultiOps
  imports OpKit
begin

text \<open>
  Operators of several inputs: from a successful inference to the rules that were matched on every axis of the
  mesh, and src/dtorch/core/operators/standard/broadcast_binary_op.{h,cc}.  For operands of equal rank the
  placement rules of the broadcasting operators are sound; for different ranks they are not.
\<close>

section \<open>Matching several inputs\<close>

lemma Match_plain:
  assumes rep: "sig_represents sig pairs" "sig_pairs_ok n m pairs" "mInputSize sig = n" "0 < m" "0 < n" "n < 8"
    and ins: "length pss = n" "\<forall>ps \<in> set pss. length ps = k \<and> list_all plain_placement ps" "0 < k"
    and match: "Match sig pss keep = Inr (Some seqs)"
  shows "length seqs = m \<and> (\<forall>qs \<in> set seqs. length qs = k) \<and> (\<forall>i < k. (column pss i, column seqs i) \<in> set pairs)"
proof -
  have ne: "pss \<noteq> []" and hd: "length (pss ! 0) = k" using ins(1,2) rep(5) by (cases pss; simp)+
  have plain: "plain_placement (ps ! i)" if "ps \<in> set pss" "i < k" for ps i
    using ins(2) that by (auto simp: list_all_length)
  then have nosub: "\<forall>i \<in> set [0..<k]. \<forall>ps \<in> set pss. i < length ps \<and> \<not> HasSubSplitCoordinates (ps ! i)"
    using ins(2) by (simp add: plain_placement_def)
  have col: "\<forall>i < k. (\<forall>ps \<in> set pss. i < length ps) \<and> column pss i \<in> plain_tuples n"
    using ins plain rep(6) by (auto simp: plain_tuples_def column_def list_all_iff)
  have "Match_loop sig pss False [0..<k] (match_rows pairs m pss 0) =
    Inr (if \<forall>i \<in> {0..<k}. column pss i \<in> fst ` set pairs then Some (match_rows pairs m pss k) else None)"
    by (rule Match_loop_eq [OF rep(1-4) col]) simp
  moreover have "Match sig pss keep = Match_loop sig pss False [0..<k] (match_rows pairs m pss 0)"
    using ins(1) rep(3) ne hd Match_loop_keep [OF nosub, of sig keep] by (simp add: Match_def match_rows_def)
  ultimately have all: "\<forall>i < k. column pss i \<in> fst ` set pairs" and seqs: "seqs = match_rows pairs m pss k"
    using match by (auto split: if_splits)
  have "(column pss i, column seqs i) \<in> set pairs" if i: "i < k" for i
  proof -
    from all i obtain outs where outs: "sig_lookup pairs (column pss i) = Some outs"
      using sig_lookup_None [of pairs "column pss i"] by auto
    then have "length outs = m" by (rule sig_lookup_length [OF rep(2)])
    then have "column seqs i = outs" using i outs by (auto simp: seqs match_rows_def column_def intro!: nth_equalityI)
    with outs show ?thesis by (auto simp: sig_lookup_def dest: map_of_SomeD)
  qed
  then show ?thesis using ins(3) by (auto simp: seqs match_rows_def)
qed

text \<open>The rules matched by a distributed operator whose table is built from plain rules.\<close>

lemma InferOutput_rows:
  assumes run: "InferOutput gpus cls xs ys0 = Inr ys" and dist: "vSkipDistributedSpec cls xs = Inr False"
    and n: "length xs = n" "0 < n" "n < 8" and m: "length ys0 = m" "0 < m"
    and metas: "\<And>metas. vInferOutputMetaInfo cls xs ys0 = Inr metas \<Longrightarrow> length metas = m"
    and sig: "\<And>metas sig. vInferOutputMetaInfo cls xs ys0 = Inr metas \<Longrightarrow> vGetPlacementSignature cls xs metas = Inr sig \<Longrightarrow>
      \<exists>rules. BuildRules n m rules = Inr sig \<and> (\<forall>r \<in> set rules. list_all simple_placement (fst r) \<and> P r)"
    and rep: "P (replicate n Replicate, replicate m Replicate)"
    and plain: "\<forall>x \<in> set xs. length (oPlacementSeq x) = k \<and> list_all plain_placement (oPlacementSeq x)" "0 < k"
  shows "\<exists>metas. vInferOutputMetaInfo cls xs ys0 = Inr metas \<and> map oShape ys = map oShape metas \<and>
    map oDataKind ys = map oDataKind metas \<and> length ys = m \<and>
    (\<forall>x \<in> set xs. CheckValid (oShape x) (oDeviceMesh x) (oPlacementSeq x) gpus = Inr True) \<and>
    (\<forall>y \<in> set ys. length (oPlacementSeq y) = k \<and> oDeviceMesh y = oDeviceMesh (xs ! 0) \<and>
      CheckShapeValid (oShape y) (oDeviceMesh y) (oPlacementSeq y) = Inr True) \<and>
    (\<forall>i < k. P (column (map oPlacementSeq xs) i, column (map oPlacementSeq ys) i))"
proof -
  from InferOutput_parts [OF run dist] obtain ms s seqs where parts:
    "vInferOutputMetaInfo cls xs ys0 = Inr ms" "vGetPlacementSignature cls xs ms = Inr s"
    "Match s (map oPlacementSeq xs) (vKeepSubSplitCoordinates cls) = Inr (Some seqs)"
    "\<forall>op \<in> set xs. CheckValid (oShape op) (oDeviceMesh op) (oPlacementSeq op) gpus = Inr True"
    "length ys = length ms"
    "\<forall>i < length ys. oPlacementSeq (ys ! i) = seqs ! i \<and> oDeviceMesh (ys ! i) = oDeviceMesh (xs ! 0) \<and>
      oShape (ys ! i) = oShape (ms ! i) \<and> oDataKind (ys ! i) = oDataKind (ms ! i) \<and>
      CheckShapeValid (oShape (ys ! i)) (oDeviceMesh (xs ! 0)) (seqs ! i) = Inr True"
    by (elim exE conjE) (rule that; assumption)
  from sig [OF parts(1,2)] obtain rules where rules: "BuildRules n m rules = Inr s"
    "\<forall>r \<in> set rules. list_all simple_placement (fst r) \<and> P r" by blast
  then have simple: "\<forall>r \<in> set rules. list_all simple_placement (fst r)" by blast
  from BuildRules_represents [OF rules(1) simple] obtain reps where reps: "sig_represents s (rules @ reps)"
    "set reps = {replicate_rule n m {}}" "mInputSize s = n" "sig_pairs_ok n m (rules @ reps)" by metis
  have P: "P r" if "r \<in> set (rules @ reps)" for r
  proof -
    have "map (\<lambda>i. Replicate) [0..<n] = replicate n Replicate" by (rule nth_equalityI) auto
    with that rules(2) reps(2) rep show ?thesis by (auto simp: replicate_rule_def)
  qed
  have pss: "\<forall>ps \<in> set (map oPlacementSeq xs). length ps = k \<and> list_all plain_placement ps" using plain(1) by auto
  note matched = Match_plain [OF reps(1,4,3) m(2) n(2,3) _ pss plain(2) parts(3)]
  have seqs: "length seqs = m" "\<forall>qs \<in> set seqs. length qs = k"
    "\<forall>i < k. (column (map oPlacementSeq xs) i, column seqs i) \<in> set (rules @ reps)"
    using matched n(1) by simp_all
  have lm: "length ms = m" by (rule metas [OF parts(1)])
  have ys: "map oPlacementSeq ys = seqs" using parts(5,6) seqs(1) lm by (intro nth_equalityI) auto
  have maps: "map oShape ys = map oShape ms" "map oDataKind ys = map oDataKind ms"
    using parts(5,6) by (auto intro!: nth_equalityI)
  have out: "length (oPlacementSeq y) = k \<and> oDeviceMesh y = oDeviceMesh (xs ! 0) \<and>
      CheckShapeValid (oShape y) (oDeviceMesh y) (oPlacementSeq y) = Inr True" if "y \<in> set ys" for y
  proof -
    from that obtain j where j: "j < length ys" "y = ys ! j" by (auto simp: in_set_conv_nth)
    then have "seqs ! j \<in> set seqs" using seqs(1) lm parts(5) by simp
    with seqs(2) have "length (seqs ! j) = k" by blast
    then show ?thesis using spec [OF parts(6), of j] j by metis
  qed
  have "\<forall>i < k. P (column (map oPlacementSeq xs) i, column (map oPlacementSeq ys) i)"
    unfolding ys using P seqs(3) by blast
  moreover have "\<forall>y \<in> set ys. length (oPlacementSeq y) = k \<and> oDeviceMesh y = oDeviceMesh (xs ! 0) \<and>
      CheckShapeValid (oShape y) (oDeviceMesh y) (oPlacementSeq y) = Inr True" using out by blast
  moreover have "length ys = m" using parts(5) lm by simp
  ultimately show ?thesis using parts(1,4) maps by blast
qed

section \<open>Broadcasting of two operands\<close>

datatype BroadcastBinaryKind = kAdd | kSub | kMul | kDiv | kPow | kEqual | kGreater | kGreaterEqual | kLess | kLessEqual
  | kLogicalAnd | kLogicalOr | kMinimum | kMaximum | BroadcastBinaryKind_kCount

definition BroadcastBinaryKindToString :: "BroadcastBinaryKind \<Rightarrow> string" where
  "BroadcastBinaryKindToString kind = (case kind of
     kAdd \<Rightarrow> ''add'' | kSub \<Rightarrow> ''sub'' | kMul \<Rightarrow> ''mul'' | kDiv \<Rightarrow> ''div'' | kPow \<Rightarrow> ''pow'' | kEqual \<Rightarrow> ''equal''
   | kGreater \<Rightarrow> ''greater'' | kGreaterEqual \<Rightarrow> ''greater_equal'' | kLess \<Rightarrow> ''less'' | kLessEqual \<Rightarrow> ''less_equal''
   | kLogicalAnd \<Rightarrow> ''logical_and'' | kLogicalOr \<Rightarrow> ''logical_or'' | kMinimum \<Rightarrow> ''minimum'' | kMaximum \<Rightarrow> ''maximum''
   | BroadcastBinaryKind_kCount \<Rightarrow> [])"

text \<open>The active member of the union \<open>Scalar\<close>; doubles stay abstract (\<open>'d\<close>).\<close>

datatype 'd Scalar = HAS_S int | HAS_U int | HAS_D 'd

record 'd BroadcastBinaryParam =
  binaryKind :: BroadcastBinaryKind
  inputA :: "'d Scalar option"
  inputB :: "'d Scalar option"
  scaleB :: "'d option"

text \<open>The kinds whose result is a tensor of truth values.\<close>

definition boolOutputKind :: "BroadcastBinaryKind list" where
  "boolOutputKind = [kEqual, kGreater, kGreaterEqual, kLess, kLessEqual, kLogicalAnd, kLogicalOr]"

definition BroadcastBinary_InferOutputMetaInfo :: "'d BroadcastBinaryParam \<Rightarrow> operand list \<Rightarrow> operand list \<Rightarrow> operand list res" where
  "BroadcastBinary_InferOutputMetaInfo param inputs outputs =
     assertR (length inputs = 2)
      (bindR (OperandAt inputs 0) (\<lambda>a. bindR (OperandAt inputs 1) (\<lambda>b.
       bindR (if Operand_IsNullTensorShape a then assertR (inputA param \<noteq> None) (Inr (oShape b, b))
              else if Operand_IsNullTensorShape b then assertR (inputB param \<noteq> None) (Inr (oShape a, a))
              else requireR (\<not> \<not> CanBroadcastWith (oShape a) (oShape b))
                (bindR (BroadcastOutputShape (oShape a) (oShape b)) (\<lambda>shapeY. Inr (shapeY, a))))
        (\<lambda>(shapeY, refOperand).
       let inputDataKinds = map oDataKind (filter (\<lambda>op. \<not> Operand_IsNullTensorShape op \<and> NumAxis (oShape op) \<noteq> 0) inputs) in
       bindR (if length inputDataKinds > 0 then bindR (DataKindPromote inputDataKinds) (\<lambda>k. Inr (SetDataKind k)) else Inr id)
        (\<lambda>promote.
          UpdateOutput 0 (\<lambda>y. (if binaryKind param \<in> set boolOutputKind then SetDataKind kBool else id)
            (promote (SetShapeAndStride shapeY [] (MetaDataSameAs refOperand y)))) outputs)))))"

definition AddBroadcastBinaryOpPlacementSignature :: "shape \<Rightarrow> shape \<Rightarrow> rule list res" where
  "AddBroadcastBinaryOpPlacementSignature shapeA shapeB =
     (let dimA = NumAxis shapeA; dimB = NumAxis shapeB; maxDim = (if dimA > dimB then dimA else dimB);
          expandDimA = maxDim - dimA; expandDimB = maxDim - dimB in
      bindR (mapR (\<lambda>i. bindR (if i < expandDimB then Inr True else bindR (at_nat shapeB (i - expandDimB)) (\<lambda>v. Inr (v = 1)))
          (\<lambda>ok. Inr (if ok then [([Shard (int i) (- 1), Replicate], [Shard (int (i + expandDimA)) (- 1)])] else []))) [0..<dimA]) (\<lambda>rulesA.
      bindR (mapR (\<lambda>i. bindR (if i < expandDimA then Inr True else bindR (at_nat shapeA (i - expandDimA)) (\<lambda>v. Inr (v = 1)))
          (\<lambda>ok. Inr (if ok then [([Replicate, Shard (int i) (- 1)], [Shard (int (i + expandDimB)) (- 1)])] else []))) [0..<dimB]) (\<lambda>rulesB.
      bindR (mapR (\<lambda>i. let indexA = i + expandDimB; indexB = i + expandDimA; indexC = i + expandDimA + expandDimB in
          bindR (at_nat shapeA indexA) (\<lambda>v. bindR (at_nat shapeB indexB) (\<lambda>w.
            Inr (if v = w then [([Shard (int indexA) (- 1), Shard (int indexB) (- 1)], [Shard (int indexC) (- 1)])] else []))))
          [0..<min dimA dimB]) (\<lambda>rulesAB.
        Inr (concat rulesA @ concat rulesB @ concat rulesAB)))))"

definition BroadcastBinary_GetPlacementSignature :: "operand list \<Rightarrow> operand list \<Rightarrow> PlacementSignature res" where
  "BroadcastBinary_GetPlacementSignature inputs outputs =
     assertR (length inputs = 2)
      (bindR (OperandAt inputs 0) (\<lambda>a. bindR (OperandAt inputs 1) (\<lambda>b.
       bindR (AddBroadcastBinaryOpPlacementSignature (oShape a) (oShape b)) (BuildRules (length inputs) (length outputs)))))"

definition BroadcastBinary_class :: "'d BroadcastBinaryParam \<Rightarrow> op_class" where
  "BroadcastBinary_class param = \<lparr>vIsRequireInputSameDataKind = False, vCheckInput = (\<lambda>_. Inr ()), vInferOutputSize = 1,
     vInferOutputMetaInfo = BroadcastBinary_InferOutputMetaInfo param,
     vSkipDistributedSpec = (\<lambda>inputs. bindR (OperandAt inputs 0) (\<lambda>a.
       if \<not> Operand_IsDistributed a then Inr True
       else bindR (OperandAt inputs 1) (\<lambda>b. Inr (Operand_IsNullTensorShape b \<or> Operand_IsNullTensorShape a)))),
     vGetPlacementSignature = BroadcastBinary_GetPlacementSignature, vKeepSubSplitCoordinates = True\<rparr>"

subsection \<open>Operands of equal rank\<close>

text \<open>For shapes of the same rank the rules shard an axis of one operand whose partner has size 1, or both.\<close>

lemma Broadcast_rules_equal:
  assumes "length s = length t"
  shows "\<exists>rules. AddBroadcastBinaryOpPlacementSignature s t = Inr rules \<and> set rules =
    {([Shard (int i) (- 1), Replicate], [Shard (int i) (- 1)]) | i. i < length s \<and> t ! i = 1} \<union>
    {([Replicate, Shard (int i) (- 1)], [Shard (int i) (- 1)]) | i. i < length s \<and> s ! i = 1} \<union>
    {([Shard (int i) (- 1), Shard (int i) (- 1)], [Shard (int i) (- 1)]) | i. i < length s \<and> s ! i = t ! i}"
proof -
  have m: "mapR (\<lambda>i. bindR (if i < 0 then Inr True else bindR (at_nat u (i - 0)) (\<lambda>v. Inr (v = 1)))
      (\<lambda>ok. Inr (if ok then [f i] else []))) [0..<length u] = Inr (map (\<lambda>i. if u ! i = 1 then [f i] else []) [0..<length u])"
    for u :: shape and f :: "nat \<Rightarrow> rule"
    by (rule mapR_total) simp
  have b: "mapR (\<lambda>i. bindR (at_nat s (i + 0)) (\<lambda>v. bindR (at_nat t (i + 0)) (\<lambda>w. Inr (if v = w then [f i] else []))))
      [0..<length t] = Inr (map (\<lambda>i. if s ! i = t ! i then [f i] else []) [0..<length t])" for f :: "nat \<Rightarrow> rule"
    by (rule mapR_total) (simp add: assms)
  show ?thesis
    unfolding AddBroadcastBinaryOpPlacementSignature_def Let_def assms if_cancel diff_self_eq_0 min.idem
      m [of t] m [of s, unfolded assms] b bindR_Inr
    by auto
qed

definition bcast_rule :: "shape \<Rightarrow> shape \<Rightarrow> rule \<Rightarrow> bool" where
  "bcast_rule s t r \<longleftrightarrow> (\<exists>i < length s.
     (r = ([Shard (int i) (- 1), Replicate], [Shard (int i) (- 1)]) \<and> t ! i = 1) \<or>
     (r = ([Replicate, Shard (int i) (- 1)], [Shard (int i) (- 1)]) \<and> s ! i = 1) \<or>
     (r = ([Shard (int i) (- 1), Shard (int i) (- 1)], [Shard (int i) (- 1)]) \<and> s ! i = t ! i)) \<or>
     r = ([Replicate, Replicate], [Replicate])"

lemma size_one_unsharded:
  assumes "CheckValid s m ps gpus = Inr True" and "Mesh_wf m" and "\<not> IsNullTensorShape s" and "d < length s" and "s ! d = 1"
  shows "shard_axes ps d = {}"
proof (rule ccontr)
  assume ne: "shard_axes ps d \<noteq> {}"
  have lay: "layout_ok s m ps" using assms(1) CheckValid_iff [OF assms(2,3)] by simp
  with ne assms(4,5) have le: "shard_count (Mesh_Shape m) ps d \<le> 1" by (auto simp: layout_ok_def)
  from ne obtain i where i: "i \<in> shard_axes ps d" by blast
  have two: "2 \<le> Mesh_Shape m ! j" if "j \<in> shard_axes ps d" for j
    using that lay by (auto simp: shard_axes_def IsShardAt_def layout_ok_def)
  have "shard_count (Mesh_Shape m) ps d = Mesh_Shape m ! i * (\<Prod>j \<in> shard_axes ps d - {i}. Mesh_Shape m ! j)"
    using i by (simp add: shard_count_def prod.remove)
  moreover have "1 \<le> (\<Prod>j \<in> shard_axes ps d - {i}. Mesh_Shape m ! j)" using two by (intro prod_ge_1) fastforce
  ultimately have "2 * 1 \<le> shard_count (Mesh_Shape m) ps d"
    using two [OF i] mult_mono [of 2 "Mesh_Shape m ! i" 1 "\<Prod>j \<in> shard_axes ps d - {i}. Mesh_Shape m ! j"] by simp
  with le show False by simp
qed

lemma bcast_ruleE:
  assumes "bcast_rule s t ([p, q], [r])"
  obtains (left) j where "p = Shard (int j) (- 1)" and "q = Replicate" and "r = p" and "t ! j = 1" and "j < length s"
    | (right) j where "p = Replicate" and "q = Shard (int j) (- 1)" and "r = q" and "s ! j = 1" and "j < length s"
    | (both) j where "p = Shard (int j) (- 1)" and "q = p" and "r = p" and "j < length s"
    | (none) "p = Replicate" and "q = Replicate" and "r = Replicate"
proof -
  from assms consider (1) j where "([p, q], [r]) = ([Shard (int j) (- 1), Replicate], [Shard (int j) (- 1)])" "t ! j = 1" "j < length s"
    | (2) j where "([p, q], [r]) = ([Replicate, Shard (int j) (- 1)], [Shard (int j) (- 1)])" "s ! j = 1" "j < length s"
    | (3) j where "([p, q], [r]) = ([Shard (int j) (- 1), Shard (int j) (- 1)], [Shard (int j) (- 1)])" "j < length s"
    | (4) "([p, q], [r]) = ([Replicate, Replicate], [Replicate])"
    unfolding bcast_rule_def by blast
  then show ?thesis
  proof cases
    case 1
    then show ?thesis by (intro left [of j]) simp_all
  next
    case 2
    then show ?thesis by (intro right [of j]) simp_all
  next
    case 3
    then show ?thesis by (intro both [of j]) simp_all
  next
    case 4
    then show ?thesis by (intro none) simp_all
  qed
qed

text \<open>What a matched rule means for one axis of the operands and of the result.\<close>

definition bcast_axis :: "shape \<Rightarrow> shape \<Rightarrow> Placement \<Rightarrow> Placement \<Rightarrow> Placement \<Rightarrow> nat \<Rightarrow> bool" where
  "bcast_axis s t p q r d \<longleftrightarrow> (IsShardAt r (int d) \<longleftrightarrow> IsShardAt p (int d) \<or> IsShardAt q (int d)) \<and>
     (IsShardAt p (int d) \<longrightarrow> t ! d = 1 \<or> IsShardAt q (int d)) \<and>
     (IsShardAt q (int d) \<longrightarrow> s ! d = 1 \<or> IsShardAt p (int d))"

lemma bcast_rule_axis:
  assumes "bcast_rule s t ([p, q], [r])"
  shows "bcast_axis s t p q r d" and "x \<in> {p, q, r} \<Longrightarrow> length s \<le> e \<Longrightarrow> \<not> IsShardAt x (int e)"
proof -
  show "bcast_axis s t p q r d" using assms by (rule bcast_ruleE) (auto simp: IsShardAt_def bcast_axis_def)
  show "\<not> IsShardAt x (int e)" if "x \<in> {p, q, r}" "length s \<le> e"
    using assms that by (elim bcast_ruleE) (auto simp: IsShardAt_def)
qed

text \<open>One axis of two operands and of their broadcast, on one device.\<close>

lemma bcast_local:
  assumes len: "length ps = k" "length qs = k" "length rs = k"
    and rule: "\<And>i. i < k \<Longrightarrow> bcast_axis s t (ps ! i) (qs ! i) (rs ! i) d"
    and one: "s ! d = 1 \<Longrightarrow> shard_axes ps d = {}" "t ! d = 1 \<Longrightarrow> shard_axes qs d = {}"
    and compat: "bcast_compat (s ! d) (t ! d)" and u: "u ! d = bcast_size (s ! d) (t ! d)"
  shows "bcast_compat (local_size ms ps s cs d) (local_size ms qs t cs d) \<and>
    bcast_size (local_size ms ps s cs d) (local_size ms qs t cs d) = local_size ms rs u cs d"
proof -
  have ps: "shard_axes ps d \<subseteq> shard_axes qs d" if "t ! d \<noteq> 1"
    using rule that len by (auto simp: shard_axes_def bcast_axis_def)
  have qs: "shard_axes qs d \<subseteq> shard_axes ps d" if "s ! d \<noteq> 1"
    using rule that len by (auto simp: shard_axes_def bcast_axis_def)
  have out: "shard_axes rs d = shard_axes ps d \<union> shard_axes qs d"
    using rule len by (auto simp: shard_axes_def bcast_axis_def)
  show ?thesis
  proof (cases "s ! d = 1")
    case True
    with one(1) have "shard_axes ps d = {}" by blast
    moreover from this have "local_size ms ps s cs d = 1" using True by (simp add: local_size_unsharded)
    ultimately show ?thesis using True out u
      by (simp add: bcast_size_def bcast_compat_def local_size_def shard_count_def)
  next
    case False
    show ?thesis
    proof (cases "t ! d = 1")
      case True
      with one(2) have "shard_axes qs d = {}" by blast
      moreover from this have "local_size ms qs t cs d = 1" using True by (simp add: local_size_unsharded)
      ultimately show ?thesis using True False out u
        by (simp add: bcast_size_def bcast_compat_def local_size_def shard_count_def)
    next
      case t1: False
      with False compat have "t ! d = s ! d" by (simp add: bcast_compat_def)
      moreover have "shard_axes qs d = shard_axes ps d" using ps [OF t1] qs [OF False] by blast
      ultimately show ?thesis using False out u
        by (simp add: bcast_size_def bcast_compat_def local_size_def shard_count_def)
    qed
  qed
qed

text \<open>The rules of two operands of equal rank, as the inference uses them.\<close>

lemma BroadcastBinary_meta:
  assumes "BroadcastBinary_InferOutputMetaInfo param [a, b] [y0] = Inr metas"
    and "\<not> Operand_IsNullTensorShape a" and "\<not> Operand_IsNullTensorShape b"
  shows "\<exists>y. metas = [y] \<and> CanBroadcastWith (oShape a) (oShape b) \<and> BroadcastOutputShape (oShape a) (oShape b) = Inr (oShape y)"
  using assms
  by (auto simp: BroadcastBinary_InferOutputMetaInfo_def OperandAt_def UpdateOutput_def bindR_eq_Inr guardR_eq_Inr
      SetShapeAndStride_def SetDataKind_def Let_def split: if_splits)

lemma Broadcast_rules_ok:
  assumes "length s = length t"
  shows "\<exists>rules. AddBroadcastBinaryOpPlacementSignature s t = Inr rules \<and>
    (\<forall>r \<in> set rules. list_all simple_placement (fst r) \<and> bcast_rule s t r)"
proof -
  from Broadcast_rules_equal [OF assms] obtain rules where rules:
    "AddBroadcastBinaryOpPlacementSignature s t = Inr rules"
    "set rules = {([Shard (int i) (- 1), Replicate], [Shard (int i) (- 1)]) | i. i < length s \<and> t ! i = 1} \<union>
      {([Replicate, Shard (int i) (- 1)], [Shard (int i) (- 1)]) | i. i < length s \<and> s ! i = 1} \<union>
      {([Shard (int i) (- 1), Shard (int i) (- 1)], [Shard (int i) (- 1)]) | i. i < length s \<and> s ! i = t ! i}"
    by (elim exE conjE) (rule that; assumption)
  have "list_all simple_placement (fst r) \<and> bcast_rule s t r" if "r \<in> set rules" for r
  proof
    show "list_all simple_placement (fst r)"
      using that unfolding rules(2) by (elim UnE CollectE exE conjE) simp_all
    show "bcast_rule s t r" using that unfolding rules(2) bcast_rule_def by blast
  qed
  with rules(1) show ?thesis by blast
qed

lemma BroadcastBinary_signature:
  assumes "BroadcastBinary_GetPlacementSignature [a, b] [y] = Inr sig" and "length (oShape a) = length (oShape b)"
  shows "\<exists>rules. BuildRules 2 1 rules = Inr sig \<and>
    (\<forall>r \<in> set rules. list_all simple_placement (fst r) \<and> bcast_rule (oShape a) (oShape b) r)"
  using assms(1) Broadcast_rules_ok [OF assms(2)]
  by (auto simp: BroadcastBinary_GetPlacementSignature_def OperandAt_def numeral_2_eq_2)

text \<open>C22: the placement rules of a broadcasting operator are sound for two operands of equal rank: when the inference of
  a distributed operator succeeds, the pieces of the operands on every device can be broadcast, and the result
  has the local shape of the inferred layout of the output.\<close>

theorem BroadcastBinary_layout_sound:
  assumes run: "InferOutput gpus (BroadcastBinary_class param) [a, b] [y0] = Inr ys"
    and dist: "vSkipDistributedSpec (BroadcastBinary_class param) [a, b] = Inr False"
    and rank: "length (oShape a) = length (oShape b)" and sizes: "\<forall>n \<in> set (oShape a) \<union> set (oShape b). 1 \<le> n"
    and plain: "list_all plain_placement (oPlacementSeq a)" "list_all plain_placement (oPlacementSeq b)"
    and axes: "length (oPlacementSeq b) = length (oPlacementSeq a)" "oPlacementSeq a \<noteq> []"
    and wf: "Mesh_wf (oDeviceMesh a)" "Mesh_wf (oDeviceMesh b)"
  shows "\<exists>y. ys = [y] \<and> oShape y = broadcast_shape (oShape a) (oShape b) \<and> oDeviceMesh y = oDeviceMesh a \<and>
    (\<forall>ms cs. let la = local_shape ms (oPlacementSeq a) (oShape a) cs; lb = local_shape ms (oPlacementSeq b) (oShape b) cs in
      CanBroadcastWith la lb \<and> broadcast_shape la lb = local_shape ms (oPlacementSeq y) (oShape y) cs)"
proof -
  let ?s = "oShape a" and ?t = "oShape b" and ?k = "length (oPlacementSeq a)"
  from dist have null: "\<not> Operand_IsNullTensorShape a" "\<not> Operand_IsNullTensorShape b"
    by (auto simp: BroadcastBinary_class_def OperandAt_def split: if_splits)
  have metas: "\<exists>y. metas = [y] \<and> CanBroadcastWith ?s ?t \<and> BroadcastOutputShape ?s ?t = Inr (oShape y)"
    if "vInferOutputMetaInfo (BroadcastBinary_class param) [a, b] [y0] = Inr metas" for metas
    using that BroadcastBinary_meta [of param a b y0 metas] null by (simp add: BroadcastBinary_class_def)
  have "\<exists>metas. vInferOutputMetaInfo (BroadcastBinary_class param) [a, b] [y0] = Inr metas \<and> map oShape ys = map oShape metas \<and>
    map oDataKind ys = map oDataKind metas \<and> length ys = 1 \<and>
    (\<forall>x \<in> set [a, b]. CheckValid (oShape x) (oDeviceMesh x) (oPlacementSeq x) gpus = Inr True) \<and>
    (\<forall>y \<in> set ys. length (oPlacementSeq y) = ?k \<and> oDeviceMesh y = oDeviceMesh ([a, b] ! 0) \<and>
      CheckShapeValid (oShape y) (oDeviceMesh y) (oPlacementSeq y) = Inr True) \<and>
    (\<forall>i < ?k. bcast_rule ?s ?t (column (map oPlacementSeq [a, b]) i, column (map oPlacementSeq ys) i))"
  proof (rule InferOutput_rows [OF run dist])
    fix ms sig
    assume m: "vInferOutputMetaInfo (BroadcastBinary_class param) [a, b] [y0] = Inr ms"
      and sig: "vGetPlacementSignature (BroadcastBinary_class param) [a, b] ms = Inr sig"
    from metas [OF m] obtain y where "ms = [y]" by blast
    with sig BroadcastBinary_signature [OF _ rank, of y sig]
    show "\<exists>rules. BuildRules 2 1 rules = Inr sig \<and> (\<forall>r \<in> set rules. list_all simple_placement (fst r) \<and> bcast_rule ?s ?t r)"
      by (simp add: BroadcastBinary_class_def)
  qed (use metas plain axes in \<open>auto simp: bcast_rule_def numeral_2_eq_2\<close>)
  then obtain y where y: "ys = [y]" "CanBroadcastWith ?s ?t" "BroadcastOutputShape ?s ?t = Inr (oShape y)"
    "CheckValid ?s (oDeviceMesh a) (oPlacementSeq a) gpus = Inr True" "CheckValid ?t (oDeviceMesh b) (oPlacementSeq b) gpus = Inr True"
    "length (oPlacementSeq y) = ?k" "oDeviceMesh y = oDeviceMesh a"
    "\<forall>i < ?k. bcast_rule ?s ?t ([oPlacementSeq a ! i, oPlacementSeq b ! i], [oPlacementSeq y ! i])"
    using metas by (auto simp: column_def length_Suc_conv)
  have out: "oShape y = broadcast_shape ?s ?t"
    using y(2,3) sizes BroadcastOutputShape_ok [of ?s ?t] by (cases "?s = [] \<or> ?t = []") (auto simp: CanBroadcastWith_iff)
  have compat: "bcast_compat (?s ! d) (?t ! d)" "broadcast_shape ?s ?t ! d = bcast_size (?s ! d) (?t ! d)" if "d < length ?s" for d
    using that y(2) rank by (auto simp: CanBroadcastWith_iff broadcastable_nth nth_broadcast_shape)
  have loc: "bcast_compat (local_size ms (oPlacementSeq a) ?s cs d) (local_size ms (oPlacementSeq b) ?t cs d) \<and>
    bcast_size (local_size ms (oPlacementSeq a) ?s cs d) (local_size ms (oPlacementSeq b) ?t cs d) =
      local_size ms (oPlacementSeq y) (oShape y) cs d" if d: "d < length ?s" for ms cs d
  proof (rule bcast_local [where k = ?k])
    show "bcast_axis ?s ?t (oPlacementSeq a ! i) (oPlacementSeq b ! i) (oPlacementSeq y ! i) d" if "i < ?k" for i
      using bcast_rule_axis(1) y(8) that by blast
    show "?s ! d = 1 \<Longrightarrow> shard_axes (oPlacementSeq a) d = {}"
      by (rule size_one_unsharded [OF y(4) wf(1) _ d]) (use null in simp_all)
    show "?t ! d = 1 \<Longrightarrow> shard_axes (oPlacementSeq b) d = {}"
      by (rule size_one_unsharded [OF y(5) wf(2)]) (use null d rank in simp_all)
  qed (use compat [OF d] axes y(6) out rank in simp_all)
  have "CanBroadcastWith la lb \<and> broadcast_shape la lb = local_shape ms (oPlacementSeq y) (oShape y) cs"
    if "la = local_shape ms (oPlacementSeq a) ?s cs" "lb = local_shape ms (oPlacementSeq b) ?t cs" for ms cs la lb
    using loc rank out
    by (auto simp: that CanBroadcastWith_iff broadcastable_nth local_shape_def length_broadcast_shape nth_broadcast_shape
        intro!: nth_equalityI)
  with y(1,7) out show ?thesis by (simp add: Let_def)
qed

definition add_param :: "nat BroadcastBinaryParam" where
  "add_param = \<lparr>binaryKind = kAdd, inputA = None, inputB = None, scaleB = None\<rparr>"

theorem BroadcastBinary_layout_sound_witness:
  "\<exists>y. InferOutput 8 (BroadcastBinary_class add_param)
      [grid_operand, Operand_of [6, 1, 2] kFloat32 gpu_grid [Shard 0 (- 1), Replicate]] [Operand_new] = Inr [y] \<and>
    broadcast_shape (local_shape [2, 2] [Shard 0 (- 1), Shard 1 (- 1)] [6, 4, 2] [1, 0])
      (local_shape [2, 2] [Shard 0 (- 1), Replicate] [6, 1, 2] [1, 0]) = local_shape [2, 2] (oPlacementSeq y) (oShape y) [1, 0]"
proof -
  let ?b = "Operand_of [6, 1, 2] kFloat32 gpu_grid [Shard 0 (- 1), Replicate]"
  have "isl (InferOutput 8 (BroadcastBinary_class add_param) [grid_operand, ?b] [Operand_new]) = False" by code_simp
  then obtain ys where run: "InferOutput 8 (BroadcastBinary_class add_param) [grid_operand, ?b] [Operand_new] = Inr ys"
    by (cases "InferOutput 8 (BroadcastBinary_class add_param) [grid_operand, ?b] [Operand_new]") simp_all
  moreover have "vSkipDistributedSpec (BroadcastBinary_class add_param) [grid_operand, ?b] = Inr False" by code_simp
  ultimately have "\<exists>y. ys = [y] \<and> oShape y = broadcast_shape (oShape grid_operand) (oShape ?b) \<and> oDeviceMesh y = oDeviceMesh grid_operand \<and>
    (\<forall>ms cs. let la = local_shape ms (oPlacementSeq grid_operand) (oShape grid_operand) cs;
        lb = local_shape ms (oPlacementSeq ?b) (oShape ?b) cs in
      CanBroadcastWith la lb \<and> broadcast_shape la lb = local_shape ms (oPlacementSeq y) (oShape y) cs)"
    by (rule BroadcastBinary_layout_sound) (simp_all add: Operand_of_def)
  with run show ?thesis by (auto simp: Operand_of_def Let_def)
qed

text \<open>
  The first two loops of the rules compare with the axis of the partner counted from the left, broadcasting aligns from
  the right.  A vector added to a matrix with one row may therefore be cut although the pieces do not fit.
\<close>

lemma BroadcastBinary_rank_unsound:
  defines "a \<equiv> Operand_of [4] kFloat32 gpu_grid [Shard 0 (- 1), Replicate]"
    and "b \<equiv> Operand_of [1, 4] kFloat32 gpu_grid [Replicate, Replicate]"
  shows "(case InferOutput 8 (BroadcastBinary_class add_param) [a, b] [Operand_new] of
      Inl e \<Rightarrow> False | Inr ys \<Rightarrow> map oPlacementSeq ys = [[Shard 1 (- 1), Replicate]]) \<and>
    \<not> CanBroadcastWith (local_shape [2, 2] (oPlacementSeq a) (oShape a) [0, 0])
        (local_shape [2, 2] (oPlacementSeq b) (oShape b) [0, 0])"
  unfolding a_def b_def
proof
  show "case InferOutput 8 (BroadcastBinary_class add_param)
      [Operand_of [4] kFloat32 gpu_grid [Shard 0 (- 1), Replicate], Operand_of [1, 4] kFloat32 gpu_grid [Replicate, Replicate]]
      [Operand_new] of Inl e \<Rightarrow> False | Inr ys \<Rightarrow> map oPlacementSeq ys = [[Shard 1 (- 1), Replicate]]" by code_simp
  show "\<not> CanBroadcastWith (local_shape [2, 2] (oPlacementSeq (Operand_of [4] kFloat32 gpu_grid [Shard 0 (- 1), Replicate]))
        (oShape (Operand_of [4] kFloat32 gpu_grid [Shard 0 (- 1), Replicate])) [0, 0])
      (local_shape [2, 2] (oPlacementSeq (Operand_of [1, 4] kFloat32 gpu_grid [Replicate, Replicate]))
        (oShape (Operand_of [1, 4] kFloat32 gpu_grid [Replicate, Replicate])) [0, 0])" by code_simp
qed

subsection \<open>The kernel\<close>

text \<open>\<open>c10::Scalar\<close>, and what the kernel calls of libtorch.\<close>

datatype 'd torch_scalar = Torch_int int | Torch_double 'd

record ('t, 'd) torch_binary =
  b_kind :: "'t \<Rightarrow> DataKind"
  b_pow_tt :: "'t \<Rightarrow> 't \<Rightarrow> 't"
  b_pow_ts :: "'t \<Rightarrow> 'd torch_scalar \<Rightarrow> 't"
  b_pow_st :: "'d torch_scalar \<Rightarrow> 't \<Rightarrow> 't"
  b_add_t :: "'t \<Rightarrow> 't \<Rightarrow> 'd torch_scalar \<Rightarrow> 't"
  b_add_s :: "'t \<Rightarrow> 'd torch_scalar \<Rightarrow> 'd torch_scalar \<Rightarrow> 't"
  b_sub_t :: "'t \<Rightarrow> 't \<Rightarrow> 'd torch_scalar \<Rightarrow> 't"
  b_sub_s :: "'t \<Rightarrow> 'd torch_scalar \<Rightarrow> 'd torch_scalar \<Rightarrow> 't"
  b_mul_t :: "'t \<Rightarrow> 't \<Rightarrow> 't"
  b_mul_s :: "'t \<Rightarrow> 'd torch_scalar \<Rightarrow> 't"
  b_div_t :: "'t \<Rightarrow> 't \<Rightarrow> 't"
  b_div_s :: "'t \<Rightarrow> 'd torch_scalar \<Rightarrow> 't"
  b_eq_t :: "'t \<Rightarrow> 't \<Rightarrow> 't"
  b_eq_s :: "'t \<Rightarrow> 'd torch_scalar \<Rightarrow> 't"
  b_gt_t :: "'t \<Rightarrow> 't \<Rightarrow> 't"
  b_gt_s :: "'t \<Rightarrow> 'd torch_scalar \<Rightarrow> 't"
  b_ge_t :: "'t \<Rightarrow> 't \<Rightarrow> 't"
  b_ge_s :: "'t \<Rightarrow> 'd torch_scalar \<Rightarrow> 't"
  b_lt_t :: "'t \<Rightarrow> 't \<Rightarrow> 't"
  b_lt_s :: "'t \<Rightarrow> 'd torch_scalar \<Rightarrow> 't"
  b_le_t :: "'t \<Rightarrow> 't \<Rightarrow> 't"
  b_le_s :: "'t \<Rightarrow> 'd torch_scalar \<Rightarrow> 't"
  b_and_t :: "'t \<Rightarrow> 't \<Rightarrow> 't"
  b_or_t :: "'t \<Rightarrow> 't \<Rightarrow> 't"
  b_min_t :: "'t \<Rightarrow> 't \<Rightarrow> 't"
  b_max_t :: "'t \<Rightarrow> 't \<Rightarrow> 't"
  b_one :: 'd
  b_to_int :: "'d \<Rightarrow> int"

text \<open>An unsigned value is cast to \<open>int64_t\<close>.\<close>

definition ToScalar :: "'d Scalar \<Rightarrow> 'd torch_scalar" where
  "ToScalar v = (case v of HAS_D d \<Rightarrow> Torch_double d | HAS_S s \<Rightarrow> Torch_int s
     | HAS_U u \<Rightarrow> Torch_int (sint (word_of_int u :: 64 word)))"

definition Binary_Pow :: "('t, 'd) torch_binary \<Rightarrow> 'd BroadcastBinaryParam \<Rightarrow> 't option list \<Rightarrow> 't list \<Rightarrow> 't list res" where
  "Binary_Pow T param inputs outputs =
     (case (inputs ! 0, inputs ! 1) of
        (Some a, Some b) \<Rightarrow> Inr (outputs @ [b_pow_tt T a b])
      | (Some a, None) \<Rightarrow> assertR (inputB param \<noteq> None)
          (Inr (outputs @ [b_pow_ts T a (ToScalar (the (inputB param)))]))
      | (None, b) \<Rightarrow> assertR (inputA param \<noteq> None)
          (bindR (valueR b) (\<lambda>b. Inr (outputs @ [b_pow_st T (ToScalar (the (inputA param))) b]))))"

text \<open>The branch for a tensor or, without one, for the scalar of the parameter.\<close>

definition TensorOrScalar :: "'d BroadcastBinaryParam \<Rightarrow> 't option \<Rightarrow> ('t \<Rightarrow> 't) \<Rightarrow> ('d torch_scalar \<Rightarrow> 't) \<Rightarrow> 't res" where
  "TensorOrScalar param b tensor scalar = (case b of
      Some b \<Rightarrow> Inr (tensor b)
    | None \<Rightarrow> assertR (inputB param \<noteq> None) (Inr (scalar (ToScalar (the (inputB param))))))"

text \<open>The template argument is \<open>int64_t\<close> for integer tensors and \<open>double\<close> otherwise; it only fixes the type of the scale.\<close>

definition AddSubMulDiv :: "('t, 'd) torch_binary \<Rightarrow> ('d \<Rightarrow> 'd torch_scalar) \<Rightarrow> 'd BroadcastBinaryParam \<Rightarrow> 't option list \<Rightarrow>
    't list \<Rightarrow> 't list res" where
  "AddSubMulDiv T cast param inputs outputs =
     assertR (inputs ! 0 \<noteq> None \<and> inputA param = None)
      (assertR ((binaryKind param = kMul \<or> binaryKind param = kDiv) \<longrightarrow> scaleB param = None)
       (let scale = cast (case scaleB param of None \<Rightarrow> b_one T | Some v \<Rightarrow> v); a = the (inputs ! 0); b = inputs ! 1 in
        bindR (case binaryKind param of
            kAdd \<Rightarrow> TensorOrScalar param b (\<lambda>b. b_add_t T a b scale) (\<lambda>s. b_add_s T a s scale)
          | kSub \<Rightarrow> TensorOrScalar param b (\<lambda>b. b_sub_t T a b scale) (\<lambda>s. b_sub_s T a s scale)
          | kMul \<Rightarrow> TensorOrScalar param b (b_mul_t T a) (b_mul_s T a)
          | kDiv \<Rightarrow> TensorOrScalar param b (b_div_t T a) (b_div_s T a)
          | _ \<Rightarrow> Inl Abort)
         (\<lambda>out. Inr (outputs @ [out]))))"

definition EqualGreaterLess :: "('t, 'd) torch_binary \<Rightarrow> 'd BroadcastBinaryParam \<Rightarrow> 't option list \<Rightarrow> 't list \<Rightarrow> 't list res" where
  "EqualGreaterLess T param inputs outputs =
     assertR (inputs ! 0 \<noteq> None \<and> inputA param = None)
      (let a = the (inputs ! 0); b = inputs ! 1 in
       bindR (case binaryKind param of
            kEqual \<Rightarrow> TensorOrScalar param b (b_eq_t T a) (b_eq_s T a)
          | kGreater \<Rightarrow> TensorOrScalar param b (b_gt_t T a) (b_gt_s T a)
          | kGreaterEqual \<Rightarrow> TensorOrScalar param b (b_ge_t T a) (b_ge_s T a)
          | kLess \<Rightarrow> TensorOrScalar param b (b_lt_t T a) (b_lt_s T a)
          | kLessEqual \<Rightarrow> TensorOrScalar param b (b_le_t T a) (b_le_s T a)
          | _ \<Rightarrow> Inl Abort)
         (\<lambda>out. Inr (outputs @ [out])))"

definition LogicalAndOr :: "('t, 'd) torch_binary \<Rightarrow> 'd BroadcastBinaryParam \<Rightarrow> 't option list \<Rightarrow> 't list \<Rightarrow> 't list res" where
  "LogicalAndOr T param inputs outputs =
     assertR (inputs ! 0 \<noteq> None \<and> inputs ! 1 \<noteq> None)
      (let a = the (inputs ! 0); b = the (inputs ! 1) in
       bindR (case binaryKind param of
            kLogicalAnd \<Rightarrow> Inr (b_and_t T a b)
          | kLogicalOr \<Rightarrow> Inr (b_or_t T a b)
          | _ \<Rightarrow> Inl Abort)
         (\<lambda>out. Inr (outputs @ [out])))"

definition MinimumMaximum :: "('t, 'd) torch_binary \<Rightarrow> 'd BroadcastBinaryParam \<Rightarrow> 't option list \<Rightarrow> 't list \<Rightarrow> 't list res" where
  "MinimumMaximum T param inputs outputs =
     assertR (inputs ! 0 \<noteq> None \<and> inputs ! 1 \<noteq> None)
      (let a = the (inputs ! 0); b = the (inputs ! 1) in
       bindR (case binaryKind param of
            kMinimum \<Rightarrow> Inr (b_min_t T a b)
          | kMaximum \<Rightarrow> Inr (b_max_t T a b)
          | _ \<Rightarrow> Inl Abort)
         (\<lambda>out. Inr (outputs @ [out])))"

definition BroadcastBinary_Compute :: "('t, 'd) torch_binary \<Rightarrow> 'd BroadcastBinaryParam \<Rightarrow> 't option list \<Rightarrow> 't list \<Rightarrow> 't list res" where
  "BroadcastBinary_Compute T param inputs outputs =
     assertR (length inputs = 2)
      (let kind = binaryKind param in
       if kind = kPow then Binary_Pow T param inputs outputs
       else if kind = kAdd \<or> kind = kSub \<or> kind = kMul \<or> kind = kDiv then
         bindR (valueR (inputs ! 0)) (\<lambda>a.
           if DataKindIsInteger (b_kind T a) then AddSubMulDiv T (\<lambda>v. Torch_int (b_to_int T v)) param inputs outputs
           else AddSubMulDiv T Torch_double param inputs outputs)
       else if kind = kEqual \<or> kind = kGreater \<or> kind = kGreaterEqual \<or> kind = kLess \<or> kind = kLessEqual then
         EqualGreaterLess T param inputs outputs
       else if kind = kLogicalAnd \<or> kind = kLogicalOr then LogicalAndOr T param inputs outputs
       else if kind = kMinimum \<or> kind = kMaximum then MinimumMaximum T param inputs outputs
       else Inl InvalidArgument)"

text \<open>
  The kernel computes exactly one tensor when the operands fit the kind; a scalar on the left, which the inference
  accepts for every kind, only works for \<open>pow\<close>.
\<close>

lemma BroadcastBinary_Compute_tensors:
  assumes "binaryKind param \<noteq> BroadcastBinaryKind_kCount" and "inputA param = None"
    and "binaryKind param \<in> {kMul, kDiv} \<Longrightarrow> scaleB param = None"
  shows "\<exists>out. BroadcastBinary_Compute T param [Some a, Some b] outputs = Inr (outputs @ [out])"
  using assms
  by (cases "binaryKind param")
    (auto simp: BroadcastBinary_Compute_def Binary_Pow_def AddSubMulDiv_def EqualGreaterLess_def LogicalAndOr_def
      MinimumMaximum_def TensorOrScalar_def Let_def)

lemma BroadcastBinary_Compute_left_scalar:
  "BroadcastBinary_Compute T param [None, Some b] outputs = Inr out \<longleftrightarrow>
     binaryKind param = kPow \<and> (\<exists>v. inputA param = Some v \<and> out = outputs @ [b_pow_st T (ToScalar v) b])"
  by (cases "binaryKind param")
    (auto simp: BroadcastBinary_Compute_def Binary_Pow_def EqualGreaterLess_def LogicalAndOr_def
      MinimumMaximum_def guardR_eq_Inr Let_def)

end
