(* ===== verification/MatmulOps.thy ===== *)
theory MatmulOps
  imports MultiOps
begin

text \<open>
  Matrix products: src/dtorch/core/operators/standard/matmul_op.{h,cc}, linear_op.{h,cc}, outer_op.{h,cc},
  embedding_op.{h,cc} and einsum_op.{h,cc}.  The rules of matmul are sound for operands of equal rank as long as
  the contracted axis is sharded on both sides or on none; several rules of the table shard only one side.
\<close>

section \<open>Matmul\<close>

definition ComputeShapeForLessTwoDim :: "shape \<Rightarrow> shape \<Rightarrow> shape res" where
  "ComputeShapeForLessTwoDim shapeA shapeB =
     assertR (NumAxis shapeA \<le> 2) (assertR (NumAxis shapeB \<le> 2)
      (if NumAxis shapeA = 1 \<and> NumAxis shapeB = 1 then
         requireR (\<not> shapeA ! 0 \<noteq> shapeB ! 0) (Inr GetScalarShape)
       else if NumAxis shapeA = 2 \<and> NumAxis shapeB = 2 then
         requireR (\<not> shapeA ! 1 \<noteq> shapeB ! 0) (Inr [shapeA ! 0, shapeB ! 1])
       else if NumAxis shapeA = 1 \<and> NumAxis shapeB = 2 then
         requireR (\<not> shapeA ! 0 \<noteq> shapeB ! 0) (Inr [shapeB ! 1])
       else if NumAxis shapeA = 2 \<and> NumAxis shapeB = 1 then
         requireR (\<not> shapeA ! 1 \<noteq> shapeB ! 0) (Inr [shapeA ! 0])
       else Inl InvalidArgument))"

definition SplitBroadcastShape :: "shape \<Rightarrow> shape \<times> shape" where
  "SplitBroadcastShape s = fold (\<lambda>i (resultA, resultB).
     if int i < int (NumAxis s) - 2 then (resultA @ [s ! i], resultB) else (resultA, resultB @ [s ! i]))
     [0..<NumAxis s] ([], [])"

definition MergeShape :: "shape \<Rightarrow> shape \<Rightarrow> shape" where
  "MergeShape shapeA shapeB = fold (\<lambda>i result. result @ [shapeB ! i]) [0..<NumAxis shapeB] shapeA"

text \<open>What the override of \<open>CheckInput\<close> checks after the base class.\<close>

definition Matmul_CheckInput :: "operand list \<Rightarrow> unit res" where
  "Matmul_CheckInput inputs =
     assertR (length inputs = 2)
      (bindR (OperandAt inputs 0) (\<lambda>a. bindR (OperandAt inputs 1) (\<lambda>b.
       requireR (\<not> (Operand_IsNullTensorShape a \<or> Operand_IsNullTensorShape b))
        (let (broadcastShapeA, computeShapeA) = SplitBroadcastShape (oShape a);
             (broadcastShapeB, computeShapeB) = SplitBroadcastShape (oShape b) in
         requireR (\<not> \<not> CanBroadcastWith broadcastShapeA broadcastShapeB)
          (bindR (at_nat computeShapeA (NumAxis computeShapeA - 1)) (\<lambda>kSizeA.
           bindR (at_nat computeShapeB 0) (\<lambda>kSizeB.
             requireR (\<not> kSizeA \<noteq> kSizeB) (Inr ()))))))))"

definition Matmul_shape :: "shape \<Rightarrow> shape \<Rightarrow> shape res" where
  "Matmul_shape inputAShape inputBShape =
     (let (broadcastShapeA, computeShapeA) = SplitBroadcastShape inputAShape;
          (broadcastShapeB, computeShapeB) = SplitBroadcastShape inputBShape in
      bindR (BroadcastOutputShape broadcastShapeA broadcastShapeB) (\<lambda>broadcastShapeY.
      bindR (ComputeShapeForLessTwoDim computeShapeA computeShapeB) (\<lambda>computShapeY.
        Inr (MergeShape broadcastShapeY computShapeY))))"

definition Matmul_InferOutputMetaInfo :: "operand list \<Rightarrow> operand list \<Rightarrow> operand list res" where
  "Matmul_InferOutputMetaInfo inputs outputs =
     assertR (length inputs = 2)
      (bindR (OperandAt inputs 0) (\<lambda>a. bindR (OperandAt inputs 1) (\<lambda>b.
       bindR (Matmul_shape (oShape a) (oShape b)) (\<lambda>outputShape.
         UpdateOutput 0 (\<lambda>y. SetShapeAndStride outputShape [] (MetaDataSameAs a y)) outputs))))"

text \<open>The rules of the matrix part; \<open>s\<close> is a shard without sub-split.\<close>

definition Matmul_compute_rules :: "shape \<Rightarrow> shape \<Rightarrow> shape \<Rightarrow> rule list" where
  "Matmul_compute_rules inputAShape inputBShape outputShape =
     (let computeShapeA = snd (SplitBroadcastShape inputAShape); computeShapeB = snd (SplitBroadcastShape inputBShape);
          outputDimSize = NumAxis outputShape; s = (\<lambda>i. Shard (int i) (- 1)) in
      if NumAxis computeShapeA = 1 \<and> NumAxis computeShapeB = 1 then []
      else if NumAxis computeShapeA = 1 \<and> NumAxis computeShapeB = 2 then
        (let kIdxA = NumAxis inputAShape - 1; kIdxB = NumAxis inputBShape - 2; nIdx = NumAxis inputBShape - 1;
             outNIdx = outputDimSize - 1 in
         [([Replicate, s nIdx], [s outNIdx]),
          ([s kIdxA, Replicate], [Partial]), ([Replicate, s kIdxB], [Partial]), ([s kIdxA, s kIdxB], [Partial]),
          ([s kIdxA, s nIdx], [Partial]),
          ([Partial, Replicate], [Partial]), ([Replicate, Partial], [Partial])])
      else if NumAxis computeShapeA = 2 \<and> NumAxis computeShapeB = 1 then
        (let mIdx = NumAxis inputAShape - 2; kIdxA = NumAxis inputAShape - 1; kIdxB = NumAxis inputBShape - 1;
             outMIdx = outputDimSize - 1 in
         [([s mIdx, Replicate], [s outMIdx]),
          ([s kIdxA, Replicate], [Partial]), ([Replicate, s kIdxB], [Partial]), ([s kIdxA, s kIdxB], [Partial]),
          ([s mIdx, s kIdxB], [Partial]),
          ([Partial, Replicate], [Partial]), ([Replicate, Partial], [Partial])])
      else if NumAxis computeShapeA = 2 \<and> NumAxis computeShapeB = 2 then
        (let mIdx = NumAxis inputAShape - 2; kIdxA = NumAxis inputAShape - 1; kIdxB = NumAxis inputBShape - 2;
             nIdx = NumAxis inputBShape - 1; outMIdx = outputDimSize - 2; outNIdx = outputDimSize - 1 in
         [([s mIdx, Replicate], [s outMIdx]), ([Replicate, s nIdx], [s outNIdx]),
          ([s kIdxA, Replicate], [Partial]), ([Replicate, s kIdxB], [Partial]), ([s kIdxA, s kIdxB], [Partial]),
          ([s mIdx, s kIdxB], [Partial]), ([s kIdxA, s nIdx], [Partial]),
          ([Partial, Replicate], [Partial]), ([Replicate, Partial], [Partial])])
      else [])"

definition Matmul_GetPlacementSignature :: "operand list \<Rightarrow> operand list \<Rightarrow> PlacementSignature res" where
  "Matmul_GetPlacementSignature inputs outputs =
     assertR (length inputs = 2)
      (bindR (OperandAt inputs 0) (\<lambda>a. bindR (OperandAt inputs 1) (\<lambda>b. bindR (OperandAt outputs 0) (\<lambda>y.
       bindR (AddBroadcastBinaryOpPlacementSignature (fst (SplitBroadcastShape (oShape a))) (fst (SplitBroadcastShape (oShape b))))
        (\<lambda>rules. BuildRules (length inputs) (length outputs)
          (rules @ Matmul_compute_rules (oShape a) (oShape b) (oShape y)))))))"

definition Matmul_GetOperatorCost :: "operand list \<Rightarrow> OperatorCost res" where
  "Matmul_GetOperatorCost inputs =
     assertR (length inputs = 2)
      (bindR (OperandAt inputs 0) (\<lambda>a. bindR (OperandAt inputs 1) (\<lambda>b.
       let (broadcastShapeA, computeShapeA) = SplitBroadcastShape (oShape a);
           (broadcastShapeB, computeShapeB) = SplitBroadcastShape (oShape b) in
       bindR (BroadcastOutputShape broadcastShapeA broadcastShapeB) (\<lambda>batchShape.
       bindR (Shape_Count batchShape) (\<lambda>batch.
       bindR (if NumAxis computeShapeA = 2 then at_nat computeShapeA 0 else Inr 1) (\<lambda>M.
       bindR (at_nat computeShapeA (NumAxis computeShapeA - 1)) (\<lambda>K.
       bindR (if NumAxis computeShapeB = 2 then at_nat computeShapeB 1 else Inr 1) (\<lambda>N.
         Inr (Cost_Compute (2 * batch * M * N * K))))))))))"

definition Matmul_class :: op_class where
  "Matmul_class = \<lparr>vIsRequireInputSameDataKind = True, vCheckInput = Matmul_CheckInput, vInferOutputSize = 1,
     vInferOutputMetaInfo = Matmul_InferOutputMetaInfo, vSkipDistributedSpec = SkipDistributedSpecFromPlacementSignature,
     vGetPlacementSignature = Matmul_GetPlacementSignature, vKeepSubSplitCoordinates = True\<rparr>"

subsection \<open>Shapes\<close>

lemma SplitBroadcastShape_eq: "SplitBroadcastShape s = (take (length s - 2) s, drop (length s - 2) s)"
proof -
  have "fold (\<lambda>i (resultA, resultB). if int i < int (length s) - 2 then (resultA @ [s ! i], resultB) else (resultA, resultB @ [s ! i]))
      [0..<k] ([], []) = (take (min k (length s - 2)) s, map ((!) s) [length s - 2..<k])" if "k \<le> length s" for k
    using that
  proof (induction k)
    case 0
    then show ?case by simp
  next
    case (Suc k)
    then show ?case
      by (cases "k < length s - 2") (auto simp: take_Suc_conv_app_nth min_def)
  qed
  moreover have "map ((!) s) [length s - 2..<length s] = drop (length s - 2) s" by (rule nth_equalityI) simp_all
  ultimately show ?thesis by (simp add: SplitBroadcastShape_def)
qed

lemma MergeShape_eq: "MergeShape s t = s @ t"
proof -
  have "fold (\<lambda>i result. result @ [t ! i]) [0..<k] s = s @ take k t" if "k \<le> length t" for k
    using that by (induction k) (simp_all add: take_Suc_conv_app_nth)
  from this [of "length t"] show ?thesis by (simp add: MergeShape_def)
qed

lemma drop_last_two: "2 \<le> length s \<Longrightarrow> drop (length s - 2) s = [s ! (length s - 2), s ! (length s - 1)]"
  by (subst Cons_nth_drop_Suc [symmetric], simp, subst Cons_nth_drop_Suc [symmetric]) (auto simp: Suc_diff_Suc numeral_2_eq_2)

lemma Matmul_shape_two:
  assumes "2 \<le> length s" and "length t = length s"
  shows "Matmul_shape s t = bindR (BroadcastOutputShape (take (length s - 2) s) (take (length s - 2) t))
    (\<lambda>y. requireR (s ! (length s - 1) = t ! (length s - 2)) (Inr (y @ [s ! (length s - 2), t ! (length s - 1)])))"
  using assms drop_last_two [of s] drop_last_two [of t]
  by (simp add: Matmul_shape_def SplitBroadcastShape_eq MergeShape_eq ComputeShapeForLessTwoDim_def)
    (simp add: guardR_def bindR_def split: sum.splits)

subsection \<open>Rules of the matrix part\<close>

definition matmul_rule :: "shape \<Rightarrow> shape \<Rightarrow> rule \<Rightarrow> bool" where
  "matmul_rule s t r \<longleftrightarrow> (let n = length s; sh = (\<lambda>i. Shard (int i) (- 1)) in
     bcast_rule (take (n - 2) s) (take (n - 2) t) r \<or>
     r \<in> {([sh (n - 2), Replicate], [sh (n - 2)]), ([Replicate, sh (n - 1)], [sh (n - 1)]),
       ([sh (n - 1), Replicate], [Partial]), ([Replicate, sh (n - 2)], [Partial]), ([sh (n - 1), sh (n - 2)], [Partial]),
       ([sh (n - 2), sh (n - 2)], [Partial]), ([sh (n - 1), sh (n - 1)], [Partial]),
       ([Partial, Replicate], [Partial]), ([Replicate, Partial], [Partial])})"

lemma Matmul_signature:
  assumes "Matmul_GetPlacementSignature [a, b] [y] = Inr sig" and "length (oShape b) = length (oShape a)"
    and "2 \<le> length (oShape a)" and "length (oShape y) = length (oShape a)"
  shows "\<exists>rules. BuildRules 2 1 rules = Inr sig \<and>
    (\<forall>r \<in> set rules. list_all simple_placement (fst r) \<and> matmul_rule (oShape a) (oShape b) r)"
proof -
  let ?n = "length (oShape a)"
  let ?s = "take (?n - 2) (oShape a)" and ?t = "take (?n - 2) (oShape b)"
  obtain rules where rules: "AddBroadcastBinaryOpPlacementSignature ?s ?t = Inr rules"
    "\<forall>r \<in> set rules. list_all simple_placement (fst r) \<and> bcast_rule ?s ?t r"
    using Broadcast_rules_ok [of ?s ?t] assms(2) by auto
  let ?all = "rules @ Matmul_compute_rules (oShape a) (oShape b) (oShape y)"
  have "BuildRules 2 1 ?all = Inr sig"
    using assms(1,2) rules(1) by (simp add: Matmul_GetPlacementSignature_def OperandAt_def SplitBroadcastShape_eq numeral_2_eq_2)
  moreover have "list_all simple_placement (fst r) \<and> matmul_rule (oShape a) (oShape b) r" if "r \<in> set ?all" for r
  proof (cases "r \<in> set rules")
    case True
    with rules(2) show ?thesis by (simp add: matmul_rule_def Let_def)
  next
    case False
    with that assms show ?thesis
      by (auto simp: Matmul_compute_rules_def SplitBroadcastShape_eq matmul_rule_def Let_def)
  qed
  ultimately show ?thesis by blast
qed

text \<open>What a matched rule does on each axis, when the contracted axis is sharded on both sides or on none.\<close>

lemma matmul_rule_axes:
  assumes rule: "matmul_rule s t ([p, q], [r])" and n: "n = length s" "2 \<le> n" "length t = n"
    and aligned: "IsShardAt p (int (n - 1)) \<longleftrightarrow> IsShardAt q (int (n - 2))"
  shows "d < n - 2 \<Longrightarrow> bcast_axis s t p q r d"
    and "IsShardAt r (int (n - 2)) \<longleftrightarrow> IsShardAt p (int (n - 2))"
    and "IsShardAt r (int (n - 1)) \<longleftrightarrow> IsShardAt q (int (n - 1))"
proof -
  consider (batch) "bcast_rule (take (n - 2) s) (take (n - 2) t) ([p, q], [r])"
    | (row) "p = Shard (int (n - 2)) (- 1)" "q = Replicate" "r = p"
    | (col) "q = Shard (int (n - 1)) (- 1)" "p = Replicate" "r = q"
    | (inner) "p = Shard (int (n - 1)) (- 1)" "q = Shard (int (n - 2)) (- 1)" "r = Partial"
    | (sums) "\<not> IsShard p" "\<not> IsShard q" "\<not> IsShard r"
    using rule aligned n by (auto simp: matmul_rule_def Let_def IsShardAt_def)
  then have "(d < n - 2 \<longrightarrow> bcast_axis s t p q r d) \<and> (IsShardAt r (int (n - 2)) \<longleftrightarrow> IsShardAt p (int (n - 2))) \<and>
    (IsShardAt r (int (n - 1)) \<longleftrightarrow> IsShardAt q (int (n - 1)))"
  proof cases
    case batch
    have "bcast_axis s t p q r d" if "d < n - 2"
      using bcast_rule_axis(1) [OF batch, where d = d] that n by (simp add: bcast_axis_def)
    moreover have "\<not> IsShardAt x (int e)" if "x \<in> {p, q, r}" "n - 2 \<le> e" for x e
      using bcast_rule_axis(2) [OF batch that(1)] that(2) n by simp
    ultimately show ?thesis by simp
  qed (use n in \<open>auto simp: IsShardAt_def bcast_axis_def\<close>)
  then show "d < n - 2 \<Longrightarrow> bcast_axis s t p q r d"
    and "IsShardAt r (int (n - 2)) \<longleftrightarrow> IsShardAt p (int (n - 2))"
    and "IsShardAt r (int (n - 1)) \<longleftrightarrow> IsShardAt q (int (n - 1))" by auto
qed

lemma local_size_pos:
  assumes "CheckValid s m ps gpus = Inr True" and "Mesh_wf m" and "\<not> IsNullTensorShape s" and "d < length s" and "1 \<le> s ! d"
  shows "1 \<le> local_size (Mesh_Shape m) ps s cs d"
proof (cases "shard_axes ps d = {}")
  case True
  with assms(5) show ?thesis by (simp add: local_size_unsharded)
next
  case False
  have "layout_ok s m ps" using assms(1) CheckValid_iff [OF assms(2,3)] by simp
  then show ?thesis using False by (rule local_size_sharded_pos)
qed

lemma take_local_shape: "take j (local_shape ms ps s cs) = map (local_size ms ps s cs) [0..<min j (length s)]"
  by (simp add: local_shape_def take_map min_def)

lemma nth_local_shape: "d < length s \<Longrightarrow> local_shape ms ps s cs ! d = local_size ms ps s cs d"
  by (simp add: local_shape_def)

lemma local_size_cong:
  assumes "shard_axes ps d = shard_axes qs e" and "s ! d = t ! e"
  shows "local_size ms ps s cs d = local_size ms qs t cs e"
  using assms by (simp add: local_size_def shard_count_def)

text \<open>On one device: pieces of operands of equal rank whose rules keep the contracted axis aligned.\<close>

lemma Matmul_local:
  fixes s t u :: shape and ps qs rs :: placement_seq
  assumes n_def: "n = length s" and shape: "Matmul_shape s t = Inr u" and n: "2 \<le> n" "length t = n"
    and len: "length ps = k" "length qs = k" "length rs = k"
    and rule: "\<And>i. i < k \<Longrightarrow> matmul_rule s t ([ps ! i, qs ! i], [rs ! i])"
    and aligned: "\<And>i. i < k \<Longrightarrow> IsShardAt (ps ! i) (int (n - 1)) \<longleftrightarrow> IsShardAt (qs ! i) (int (n - 2))"
    and one: "\<And>d. d < n \<Longrightarrow> s ! d = 1 \<Longrightarrow> shard_axes ps d = {}" "\<And>d. d < n \<Longrightarrow> t ! d = 1 \<Longrightarrow> shard_axes qs d = {}"
    and pos: "\<And>d. d < n \<Longrightarrow> 1 \<le> s ! d \<and> 1 \<le> t ! d"
      "\<And>d. d < n \<Longrightarrow> 1 \<le> local_size ms ps s cs d \<and> 1 \<le> local_size ms qs t cs d"
    and compat: "CanBroadcastWith (take (n - 2) s) (take (n - 2) t)"
  shows "Matmul_shape (local_shape ms ps s cs) (local_shape ms qs t cs) = Inr (local_shape ms rs u cs)"
proof -
  let ?p = "local_size ms ps s cs" and ?q = "local_size ms qs t cs" and ?r = "local_size ms rs u cs"
  have bcast: "BroadcastOutputShape (map f [0..<n - 2]) (map g [0..<n - 2]) = Inr (map (\<lambda>d. bcast_size (f d) (g d)) [0..<n - 2])"
    if "\<And>d. d < n - 2 \<Longrightarrow> bcast_compat (f d) (g d) \<and> 1 \<le> f d \<and> 1 \<le> g d" for f g
  proof (cases "n = 2")
    case False
    then have ne: "map f [0..<n - 2] \<noteq> []" "map g [0..<n - 2] \<noteq> []" using n(1) by simp_all
    have bc: "broadcastable (map f [0..<n - 2]) (map g [0..<n - 2])" using that by (simp add: broadcastable_nth)
    have ge: "\<forall>x \<in> set (map f [0..<n - 2]). 1 \<le> x" "\<forall>x \<in> set (map g [0..<n - 2]). 1 \<le> x" using that by auto
    have "broadcast_shape (map f [0..<n - 2]) (map g [0..<n - 2]) = map (\<lambda>d. bcast_size (f d) (g d)) [0..<n - 2]"
      by (rule nth_equalityI) (simp_all add: length_broadcast_shape nth_broadcast_shape)
    with BroadcastOutputShape_ok [OF ne bc ge] show ?thesis by simp
  qed simp
  have tk: "take (n - 2) w = map ((!) w) [0..<n - 2]" if "length w = n" for w :: shape
    using that by (intro nth_equalityI) simp_all
  have cb: "bcast_compat (s ! d) (t ! d)" if "d < n - 2" for d
    using compat that n by (auto simp: n_def CanBroadcastWith_iff broadcastable_nth)
  have "BroadcastOutputShape (take (n - 2) s) (take (n - 2) t) = Inr (map (\<lambda>d. bcast_size (s ! d) (t ! d)) [0..<n - 2])"
    unfolding tk [OF n_def [symmetric]] tk [OF n(2)] using cb pos(1) by (intro bcast) simp
  with shape n have u: "u = map (\<lambda>d. bcast_size (s ! d) (t ! d)) [0..<n - 2] @ [s ! (n - 2), t ! (n - 1)]"
    and inner: "s ! (n - 1) = t ! (n - 2)"
    by (simp_all add: Matmul_shape_two n_def guardR_eq_Inr)
  note ax = matmul_rule_axes [OF rule n_def n aligned]
  have batch: "bcast_compat (?p d) (?q d) \<and> bcast_size (?p d) (?q d) = ?r d" if d: "d < n - 2" for d
    by (rule bcast_local [OF len]) (use ax(1) d one cb u in \<open>auto simp: nth_append\<close>)
  have K: "?p (n - 1) = ?q (n - 2)"
    using aligned len inner by (intro local_size_cong) (auto simp: shard_axes_def)
  have M: "?r (n - 2) = ?p (n - 2)"
    using ax(2) len u by (intro local_size_cong) (auto simp: shard_axes_def nth_append)
  have N: "?r (n - 1) = ?q (n - 1)"
    using ax(3) len u n by (intro local_size_cong) (auto simp: shard_axes_def nth_append)
  have out: "BroadcastOutputShape (map ?p [0..<n - 2]) (map ?q [0..<n - 2]) = Inr (map ?r [0..<n - 2])"
    using batch pos(2) by (subst bcast) auto
  obtain m where m: "n = Suc (Suc m)" using n(1) by (auto simp: numeral_2_eq_2 Suc_le_eq dest!: less_imp_Suc_add)
  have "[0..<n] = [0..<n - 2] @ [n - 2, n - 1]" by (simp add: m)
  then have lu: "local_shape ms rs u cs = map ?r [0..<n - 2] @ [?r (n - 2), ?r (n - 1)]"
    by (simp add: local_shape_def u m)
  have len2: "2 \<le> length (local_shape ms ps s cs)" "length (local_shape ms qs t cs) = length (local_shape ms ps s cs)"
    using n by (simp_all add: local_shape_def n_def)
  have ls: "length (local_shape ms ps s cs) = n" by (simp add: local_shape_def n_def)
  have tks: "take (n - 2) (local_shape ms ps s cs) = map ?p [0..<n - 2]" "take (n - 2) (local_shape ms qs t cs) = map ?q [0..<n - 2]"
    using n by (simp_all add: take_local_shape n_def min_def)
  have nths: "local_shape ms ps s cs ! (n - 1) = ?p (n - 1)" "local_shape ms ps s cs ! (n - 2) = ?p (n - 2)"
    "local_shape ms qs t cs ! (n - 1) = ?q (n - 1)" "local_shape ms qs t cs ! (n - 2) = ?q (n - 2)"
    using n by (simp_all add: nth_local_shape n_def)
  show ?thesis
    unfolding Matmul_shape_two [OF len2] ls tks nths out bindR_Inr K lu M N by simp
qed

lemma Matmul_meta:
  assumes "Matmul_InferOutputMetaInfo [a, b] [y0] = Inr metas"
  shows "\<exists>y. metas = [y] \<and> Matmul_shape (oShape a) (oShape b) = Inr (oShape y)"
  using assms by (auto simp: Matmul_InferOutputMetaInfo_def OperandAt_def UpdateOutput_def bindR_eq_Inr SetShapeAndStride_def)

lemma Matmul_checked:
  assumes "Matmul_CheckInput [a, b] = Inr u" and "2 \<le> length (oShape a)" and "length (oShape b) = length (oShape a)"
  shows "\<not> Operand_IsNullTensorShape a \<and> \<not> Operand_IsNullTensorShape b \<and>
    CanBroadcastWith (take (length (oShape a) - 2) (oShape a)) (take (length (oShape a) - 2) (oShape b))"
  using assms by (auto simp: Matmul_CheckInput_def OperandAt_def SplitBroadcastShape_eq guardR_eq_Inr bindR_eq_Inr)

lemma InferOutput_checked: "InferOutput gpus cls xs ys0 = Inr ys \<Longrightarrow> vCheckInput cls xs = Inr ()"
  by (auto simp: InferOutput_def guardR_eq_Inr bindR_eq_Inr)

lemma Matmul_shape_length:
  assumes "Matmul_shape s t = Inr u" and "2 \<le> length s" and "length t = length s"
    and "\<forall>n \<in> set s \<union> set t. 1 \<le> n" and "CanBroadcastWith (take (length s - 2) s) (take (length s - 2) t)"
  shows "length u = length s"
proof -
  let ?s = "take (length s - 2) s" and ?t = "take (length s - 2) t"
  have "\<exists>w. BroadcastOutputShape ?s ?t = Inr w \<and> length w = length s - 2"
  proof (cases "?s = [] \<or> ?t = []")
    case True
    with assms(3) show ?thesis by auto
  next
    case False
    then have "BroadcastOutputShape ?s ?t = Inr (broadcast_shape ?s ?t)"
      using assms(4,5) by (intro BroadcastOutputShape_ok) (auto simp: CanBroadcastWith_iff dest: in_set_takeD)
    with assms(2,3) show ?thesis by (simp add: length_broadcast_shape)
  qed
  with assms(1-3) show ?thesis by (auto simp: Matmul_shape_two guardR_eq_Inr)
qed

text \<open>C21: the rules of matmul are sound for two operands of the same rank when the contracted axis is sharded by the same
  mesh axes on both sides: after a successful inference the pieces of the operands on every device can be
  multiplied, and the product has the local shape of the inferred layout of the output.\<close>

theorem Matmul_layout_sound:
  assumes run: "InferOutput gpus Matmul_class [a, b] [y0] = Inr ys"
    and dist: "vSkipDistributedSpec Matmul_class [a, b] = Inr False"
    and rank: "2 \<le> length (oShape a)" "length (oShape b) = length (oShape a)"
    and sizes: "\<forall>n \<in> set (oShape a) \<union> set (oShape b). 1 \<le> n"
    and plain: "list_all plain_placement (oPlacementSeq a)" "list_all plain_placement (oPlacementSeq b)"
    and axes: "length (oPlacementSeq b) = length (oPlacementSeq a)" "oPlacementSeq a \<noteq> []"
    and mesh: "Mesh_wf (oDeviceMesh a)" "oDeviceMesh b = oDeviceMesh a"
    and aligned: "\<forall>i < length (oPlacementSeq a). IsShardAt (oPlacementSeq a ! i) (int (length (oShape a) - 1)) \<longleftrightarrow>
      IsShardAt (oPlacementSeq b ! i) (int (length (oShape a) - 2))"
  shows "\<exists>y. ys = [y] \<and> Matmul_shape (oShape a) (oShape b) = Inr (oShape y) \<and> oDeviceMesh y = oDeviceMesh a \<and>
    (\<forall>cs. Matmul_shape (local_shape (Mesh_Shape (oDeviceMesh a)) (oPlacementSeq a) (oShape a) cs)
        (local_shape (Mesh_Shape (oDeviceMesh a)) (oPlacementSeq b) (oShape b) cs) =
      Inr (local_shape (Mesh_Shape (oDeviceMesh a)) (oPlacementSeq y) (oShape y) cs))"
proof -
  let ?s = "oShape a" and ?t = "oShape b" and ?k = "length (oPlacementSeq a)" and ?m = "oDeviceMesh a"
  from InferOutput_checked [OF run] Matmul_checked [OF _ rank]
  have null: "\<not> Operand_IsNullTensorShape a" "\<not> Operand_IsNullTensorShape b"
    and compat: "CanBroadcastWith (take (length ?s - 2) ?s) (take (length ?s - 2) ?t)"
    by (auto simp: Matmul_class_def)
  have metas: "\<exists>y. metas = [y] \<and> Matmul_shape ?s ?t = Inr (oShape y) \<and> length (oShape y) = length ?s"
    if "vInferOutputMetaInfo Matmul_class [a, b] [y0] = Inr metas" for metas
    using that Matmul_meta [of a b y0 metas] Matmul_shape_length [OF _ rank sizes compat] by (auto simp: Matmul_class_def)
  have "\<exists>metas. vInferOutputMetaInfo Matmul_class [a, b] [y0] = Inr metas \<and> map oShape ys = map oShape metas \<and>
    map oDataKind ys = map oDataKind metas \<and> length ys = 1 \<and>
    (\<forall>x \<in> set [a, b]. CheckValid (oShape x) (oDeviceMesh x) (oPlacementSeq x) gpus = Inr True) \<and>
    (\<forall>y \<in> set ys. length (oPlacementSeq y) = ?k \<and> oDeviceMesh y = oDeviceMesh ([a, b] ! 0) \<and>
      CheckShapeValid (oShape y) (oDeviceMesh y) (oPlacementSeq y) = Inr True) \<and>
    (\<forall>i < ?k. matmul_rule ?s ?t (column (map oPlacementSeq [a, b]) i, column (map oPlacementSeq ys) i))"
  proof (rule InferOutput_rows [OF run dist])
    fix ms sig
    assume m: "vInferOutputMetaInfo Matmul_class [a, b] [y0] = Inr ms" and sig: "vGetPlacementSignature Matmul_class [a, b] ms = Inr sig"
    from metas [OF m] obtain y where "ms = [y]" "length (oShape y) = length ?s" by blast
    with sig Matmul_signature [OF _ rank(2,1), of y sig]
    show "\<exists>rules. BuildRules 2 1 rules = Inr sig \<and> (\<forall>r \<in> set rules. list_all simple_placement (fst r) \<and> matmul_rule ?s ?t r)"
      by (simp add: Matmul_class_def)
  qed (use metas plain axes in \<open>auto simp: matmul_rule_def bcast_rule_def numeral_2_eq_2 Let_def\<close>)
  then obtain y where y: "ys = [y]" "Matmul_shape ?s ?t = Inr (oShape y)"
    "CheckValid ?s ?m (oPlacementSeq a) gpus = Inr True" "CheckValid ?t ?m (oPlacementSeq b) gpus = Inr True"
    "length (oPlacementSeq y) = ?k" "oDeviceMesh y = ?m"
    "\<forall>i < ?k. matmul_rule ?s ?t ([oPlacementSeq a ! i, oPlacementSeq b ! i], [oPlacementSeq y ! i])"
    using metas mesh(2) by (auto simp: column_def length_Suc_conv)
  note valid = y(3) mesh(1) null(1) y(4) mesh(1) null(2)
  have pos: "1 \<le> ?s ! d \<and> 1 \<le> ?t ! d" if "d < length ?s" for d using sizes that rank(2) by simp
  have "Matmul_shape (local_shape (Mesh_Shape ?m) (oPlacementSeq a) ?s cs) (local_shape (Mesh_Shape ?m) (oPlacementSeq b) ?t cs) =
      Inr (local_shape (Mesh_Shape ?m) (oPlacementSeq y) (oShape y) cs)" for cs
    by (rule Matmul_local [OF refl y(2) rank refl axes(1) y(5)])
      (use y(7) aligned pos compat rank(2) size_one_unsharded [OF valid(1-3)] size_one_unsharded [OF valid(4-6)]
        local_size_pos [OF valid(1-3)] local_size_pos [OF valid(4-6)] in auto)
  with y(1,2,6) show ?thesis by blast
qed

definition weight_operand :: operand where
  "weight_operand = Operand_of [6, 2, 5] kFloat32 gpu_grid [Shard 0 (- 1), Replicate]"

theorem Matmul_layout_sound_witness:
  "\<exists>y. InferOutput 8 Matmul_class [grid_operand, weight_operand] [Operand_new] = Inr [y] \<and>
    Matmul_shape (local_shape [2, 2] [Shard 0 (- 1), Shard 1 (- 1)] [6, 4, 2] [1, 0])
      (local_shape [2, 2] [Shard 0 (- 1), Replicate] [6, 2, 5] [1, 0]) = Inr (local_shape [2, 2] (oPlacementSeq y) (oShape y) [1, 0])"
proof -
  have "isl (InferOutput 8 Matmul_class [grid_operand, weight_operand] [Operand_new]) = False" by code_simp
  then obtain ys where run: "InferOutput 8 Matmul_class [grid_operand, weight_operand] [Operand_new] = Inr ys"
    by (cases "InferOutput 8 Matmul_class [grid_operand, weight_operand] [Operand_new]") simp_all
  moreover have "vSkipDistributedSpec Matmul_class [grid_operand, weight_operand] = Inr False" by code_simp
  ultimately have "\<exists>y. ys = [y] \<and> Matmul_shape (oShape grid_operand) (oShape weight_operand) = Inr (oShape y) \<and>
      oDeviceMesh y = oDeviceMesh grid_operand \<and>
    (\<forall>cs. Matmul_shape (local_shape (Mesh_Shape (oDeviceMesh grid_operand)) (oPlacementSeq grid_operand) (oShape grid_operand) cs)
        (local_shape (Mesh_Shape (oDeviceMesh grid_operand)) (oPlacementSeq weight_operand) (oShape weight_operand) cs) =
      Inr (local_shape (Mesh_Shape (oDeviceMesh grid_operand)) (oPlacementSeq y) (oShape y) cs))"
    by (rule Matmul_layout_sound)
      (auto simp: weight_operand_def Operand_of_def less_Suc_eq numeral_2_eq_2 IsShardAt_def)
  with run show ?thesis by (auto simp: weight_operand_def Operand_of_def)
qed

text \<open>
  Several rules shard the contracted axis on one side only.  The inference accepts such operands, but their pieces
  cannot be multiplied.
\<close>

lemma Matmul_one_sided_unsound:
  "(case InferOutput 8 Matmul_class
      [Operand_of [6, 4] kFloat32 gpu_grid [Replicate, Shard 1 (- 1)], Operand_of [4, 5] kFloat32 gpu_grid [Replicate, Replicate]]
      [Operand_new] of Inl e \<Rightarrow> False | Inr ys \<Rightarrow> map oPlacementSeq ys = [[Replicate, Partial]])"
  "Matmul_shape (local_shape [2, 2] [Replicate, Shard 1 (- 1)] [6, 4] [0, 0]) (local_shape [2, 2] [Replicate, Replicate] [4, 5] [0, 0]) =
     Inl InvalidArgument"
  by code_simp+

section \<open>Linear\<close>

definition Linear_InferOutputMetaInfo :: "operand list \<Rightarrow> operand list \<Rightarrow> operand list res" where
  "Linear_InferOutputMetaInfo inputs outputs =
     assertR (length inputs = 3)
      (bindR (OperandAt inputs 0) (\<lambda>x. bindR (OperandAt inputs 1) (\<lambda>weight. bindR (OperandAt inputs 2) (\<lambda>bias.
       let inputAShape = oShape x; inputBShape = oShape weight in
       requireR (\<not> NumAxis inputBShape \<noteq> 2)
        (bindR (at_int inputAShape (- 1)) (\<lambda>inFeatures.
         bindR (at_nat inputBShape 0) (\<lambda>outFeatures.
         bindR (at_nat inputBShape 1) (\<lambda>weightIn.
           assertR (inFeatures = weightIn)
            (let outputShape = inputAShape[NumAxis inputAShape - 1 := outFeatures];
                 finish = UpdateOutput 0 (\<lambda>y. SetShapeAndStride outputShape [] (MetaDataSameAs x y)) outputs in
             if Operand_IsNullTensorShape bias then finish
             else if NumAxis (oShape bias) \<noteq> 1 then
               bindR (at_nat (oShape bias) 0) (\<lambda>size. requireR (\<not> size \<noteq> outFeatures) finish)
             else finish)))))))))"

text \<open>A rule with an optional last input.\<close>

definition AddOptionalRule :: "rule \<Rightarrow> sig_builder \<Rightarrow> sig_builder res" where
  "AddOptionalRule r b = Builder_Build (fold AddOutput (snd r)
     (AddOptionalInput (last (fst r)) (fold AddInput (butlast (fst r)) b)))"

definition Linear_rules :: "shape \<Rightarrow> rule list" where
  "Linear_rules inputAShape =
     (let k = NumAxis inputAShape - 1; s = (\<lambda>i. Shard (int i) (- 1)) in
      map (\<lambda>i. ([s i, Replicate, Replicate], [s i])) [0..<k] @
      [([Replicate, s 0, s 0], [s k]), ([s k, s 1, Partial], [Partial]),
       ([Partial, Replicate, Partial], [Partial]), ([Replicate, Partial, Partial], [Partial])])"

definition Linear_GetPlacementSignature :: "operand list \<Rightarrow> operand list \<Rightarrow> PlacementSignature res" where
  "Linear_GetPlacementSignature inputs outputs =
     assertR (length inputs = 3)
      (bindR (OperandAt inputs 0) (\<lambda>x.
       assertR (NumAxis (oShape x) \<ge> 2)
        (bindR (foldR AddOptionalRule (Linear_rules (oShape x)) (Builder_new (length inputs) (length outputs))) Builder_Finish)))"

definition Linear_GetOperatorCost :: "operand list \<Rightarrow> OperatorCost res" where
  "Linear_GetOperatorCost inputs =
     assertR (length inputs = 3)
      (bindR (OperandAt inputs 0) (\<lambda>x. bindR (OperandAt inputs 1) (\<lambda>weight.
       let inputShape = oShape x; weightShape = oShape weight; numAxis = NumAxis inputShape in
       assertR (NumAxis weightShape = 2)
        (bindR (if numAxis \<ge> 2 then Shape_Prod inputShape 0 (int numAxis - 2) else Inr 1) (\<lambda>batchSize.
         bindR (at_nat inputShape (numAxis - 1)) (\<lambda>inFeatures.
         bindR (at_nat weightShape 0) (\<lambda>outFeatures.
           Inr (Cost_Compute (2 * batchSize * inFeatures * outFeatures)))))))))"

definition Linear_class :: op_class where
  "Linear_class = \<lparr>vIsRequireInputSameDataKind = True, vCheckInput = (\<lambda>_. Inr ()), vInferOutputSize = 1,
     vInferOutputMetaInfo = Linear_InferOutputMetaInfo, vSkipDistributedSpec = SkipDistributedSpecFromPlacementSignature,
     vGetPlacementSignature = Linear_GetPlacementSignature, vKeepSubSplitCoordinates = True\<rparr>"

text \<open>A vector of the wrong length passes as bias: the two tests are joined by \<open>and\<close> instead of \<open>or\<close>.\<close>

lemma Linear_bias_not_checked:
  assumes "oShape x = [3, 4]" and "oShape weight = [5, 4]" and "oShape bias = [n]" and "length outputs = 1"
  shows "\<exists>y. Linear_InferOutputMetaInfo [x, weight, bias] outputs = Inr [y] \<and> oShape y = [3, 5]"
  using assms by (cases outputs)
    (auto simp: Linear_InferOutputMetaInfo_def OperandAt_def UpdateOutput_def at_int_def guardR_def SetShapeAndStride_def Let_def)

text \<open>Linear and matmul agree on the shapes: the product with the transposed weight.\<close>

lemma Linear_shape_Matmul:
  assumes "Linear_InferOutputMetaInfo [x, weight, bias] [y0] = Inr ys" and "oShape x = [m, k]"
  shows "\<exists>n y. oShape weight = [n, k] \<and> ys = [y] \<and> Matmul_shape (oShape x) [k, n] = Inr (oShape y)"
proof -
  from assms obtain n k' where w: "oShape weight = [n, k']"
    by (auto simp: Linear_InferOutputMetaInfo_def OperandAt_def guardR_eq_Inr length_Suc_conv numeral_2_eq_2 Let_def)
  with assms show ?thesis
    by (auto simp: Linear_InferOutputMetaInfo_def OperandAt_def UpdateOutput_def guardR_eq_Inr bindR_eq_Inr at_int_def
        SetShapeAndStride_def Matmul_shape_two Let_def split: if_splits)
qed

text \<open>The table of linear accepts a sharded weight together with a bias sharded alike, and with no bias at all.\<close>

lemma Linear_runs:
  "map_sum id (map oPlacementSeq) (InferOutput 8 Linear_class
     [Operand_of [6, 4] kFloat32 gpu_grid [Shard 0 (- 1), Replicate], Operand_of [8, 4] kFloat32 gpu_grid [Replicate, Shard 0 (- 1)],
      Operand_of [8] kFloat32 gpu_grid [Replicate, Shard 0 (- 1)]] [Operand_new]) = Inr [[Shard 0 (- 1), Shard 1 (- 1)]]"
  by code_simp

section \<open>Outer product\<close>

definition Outer_InferOutputMetaInfo :: "operand list \<Rightarrow> operand list \<Rightarrow> operand list res" where
  "Outer_InferOutputMetaInfo inputs outputs =
     assertR (length inputs = 2)
      (bindR (OperandAt inputs 0) (\<lambda>a. bindR (OperandAt inputs 1) (\<lambda>b.
       requireR (\<not> NumAxis (oShape a) \<noteq> 1) (requireR (\<not> NumAxis (oShape b) \<noteq> 1)
        (let outShape = [oShape a ! 0, oShape b ! 0] in
         bindR (DataKindPromote [oDataKind a, oDataKind b]) (\<lambda>promotedDataKind.
           UpdateOutput 0 (\<lambda>y. SetDataKind promotedDataKind (SetShapeAndStride outShape [] (MetaDataSameAs a y))) outputs))))))"

definition Outer_GetPlacementSignature :: "operand list \<Rightarrow> operand list \<Rightarrow> PlacementSignature res" where
  "Outer_GetPlacementSignature inputs outputs =
     assertR (length inputs = 2)
      (BuildRules (length inputs) (length outputs)
        [([Partial, Replicate], [Partial]), ([Replicate, Partial], [Partial]),
         ([Shard 0 (- 1), Replicate], [Shard 0 (- 1)]), ([Replicate, Shard 0 (- 1)], [Shard 1 (- 1)])])"

definition Outer_GetOperatorCost :: "operand list \<Rightarrow> OperatorCost res" where
  "Outer_GetOperatorCost inputs =
     assertR (length inputs = 2)
      (bindR (OperandAt inputs 0) (\<lambda>a. bindR (OperandAt inputs 1) (\<lambda>b.
       assertR (NumAxis (oShape a) = 1) (assertR (NumAxis (oShape b) = 1)
        (Inr (Cost_Compute (oShape a ! 0 * oShape b ! 0)))))))"

definition Outer_class :: op_class where
  "Outer_class = \<lparr>vIsRequireInputSameDataKind = False, vCheckInput = (\<lambda>_. Inr ()), vInferOutputSize = 1,
     vInferOutputMetaInfo = Outer_InferOutputMetaInfo, vSkipDistributedSpec = SkipDistributedSpecFromPlacementSignature,
     vGetPlacementSignature = Outer_GetPlacementSignature, vKeepSubSplitCoordinates = True\<rparr>"

section \<open>Embedding\<close>

definition Embedding_InferOutputMetaInfo :: "operand list \<Rightarrow> operand list \<Rightarrow> operand list res" where
  "Embedding_InferOutputMetaInfo inputs outputs =
     assertR (length inputs = 2)
      (bindR (OperandAt inputs 0) (\<lambda>x. bindR (OperandAt inputs 1) (\<lambda>weight.
       requireR (\<not> NumAxis (oShape weight) \<noteq> 2)
        (let embeddingDim = oShape weight ! 1; outputShape = oShape x @ [embeddingDim] in
         bindR (UpdateOutput 0 (\<lambda>y. SetShapeAndStride outputShape [] (SetDataKind (oDataKind weight) (MetaDataSameAs x y))) outputs)
          (\<lambda>outputs. requireR (\<not> \<not> DataKindIsInteger (oDataKind x)) (Inr outputs))))))"

definition Embedding_GetPlacementSignature :: "operand list \<Rightarrow> operand list \<Rightarrow> PlacementSignature res" where
  "Embedding_GetPlacementSignature inputs outputs =
     assertR (length inputs = 2)
      (bindR (OperandAt inputs 0) (\<lambda>x. bindR (OperandAt outputs 0) (\<lambda>y.
       let inputDims = NumAxis (oShape x); outputDims = NumAxis (oShape y) in
       BuildRules (length inputs) (length outputs)
        (([Replicate, Shard 1 (- 1)], [Shard (int outputDims - 1) (- 1)]) #
         map (\<lambda>i. ([Shard (int i) (- 1), Replicate], [Shard (int i) (- 1)])) [0..<inputDims]))))"

definition Embedding_class :: op_class where
  "Embedding_class = \<lparr>vIsRequireInputSameDataKind = False, vCheckInput = (\<lambda>_. Inr ()), vInferOutputSize = 1,
     vInferOutputMetaInfo = Embedding_InferOutputMetaInfo, vSkipDistributedSpec = SkipDistributedSpecFromPlacementSignature,
     vGetPlacementSignature = Embedding_GetPlacementSignature, vKeepSubSplitCoordinates = True\<rparr>"

section \<open>Einsum\<close>

text \<open>
  One input only; every letter stands for the axis at its position.  The builder of the rules is filled while the
  shape is inferred, when the input is distributed.  \<open>std::isalpha\<close> in the default locale: the ASCII letters.
\<close>

definition is_alpha :: "char \<Rightarrow> bool" where
  "is_alpha c \<longleftrightarrow> (let n = of_char c :: nat in 65 \<le> n \<and> n \<le> 90 \<or> 97 \<le> n \<and> n \<le> 122)"

definition Einsum_index :: "shape \<Rightarrow> string \<Rightarrow> (char \<rightharpoonup> nat) res" where
  "Einsum_index inputShape inputExpr =
     foldR (\<lambda>i inputIdxMap.
       assertR (\<not> \<not> is_alpha (inputExpr ! i))
        (assertR (inputIdxMap (inputExpr ! i) = None)
          (assertR (\<not> i \<ge> NumAxis inputShape) (Inr (inputIdxMap(inputExpr ! i \<mapsto> i))))))
       [0..<length inputExpr] Map.empty"

definition Einsum_output :: "shape \<Rightarrow> (char \<rightharpoonup> nat) \<Rightarrow> string \<Rightarrow> (shape \<times> rule list) res" where
  "Einsum_output inputShape inputIdxMap outputExpr =
     foldR (\<lambda>c (outputShape, rules).
       assertR (\<not> \<not> is_alpha c)
        (case inputIdxMap c of None \<Rightarrow> Inl Abort | Some d \<Rightarrow>
          assertR (d < NumAxis inputShape)
           (Inr (outputShape @ [inputShape ! d],
             rules @ [([Shard (int d) (- 1)], [Shard (int (NumAxis outputShape)) (- 1)])]))))
       outputExpr ([], [])"

definition Einsum_shape :: "string \<Rightarrow> shape \<Rightarrow> (shape \<times> rule list) res" where
  "Einsum_shape equation inputShape =
     (case str_find equation ''->'' of
        None \<Rightarrow> Inl RuntimeError
      | Some arrow_pos \<Rightarrow>
          bindR (Einsum_index inputShape (take arrow_pos equation)) (\<lambda>inputIdxMap.
            Einsum_output inputShape inputIdxMap (drop (arrow_pos + 2) equation)))"

definition Einsum_InferOutputMetaInfo :: "string \<Rightarrow> operand list \<Rightarrow> operand list \<Rightarrow> operand list res" where
  "Einsum_InferOutputMetaInfo equation inputs outputs =
     assertR (length inputs > 0) (assertR (\<not> length inputs > 1)
      (bindR (OperandAt inputs 0) (\<lambda>x. bindR (Einsum_shape equation (oShape x)) (\<lambda>(outputShape, _).
         UpdateOutput 0 (\<lambda>y. SetShapeAndStride outputShape [] (MetaDataSameAs x y)) outputs))))"

text \<open>The member \<open>mPlacementSignatureBuilder\<close> holds the rules of the inference.\<close>

definition Einsum_rules :: "string \<Rightarrow> shape \<Rightarrow> rule list res" where
  "Einsum_rules equation inputShape =
     bindR (Einsum_shape equation inputShape) (\<lambda>(_, rules). Inr (rules @ [([Partial], [Partial])]))"

definition Einsum_class :: "string \<Rightarrow> op_class" where
  "Einsum_class equation = (unary_class (\<lambda>s. bindR (Einsum_shape equation s) (\<lambda>r. Inr (fst r))) (Einsum_rules equation))
     \<lparr>vInferOutputMetaInfo := Einsum_InferOutputMetaInfo equation\<rparr>"

lemma Einsum_output_sound:
  assumes "Einsum_output s idx outputExpr = Inr (t, rules)"
  shows "length t = length outputExpr \<and> rules = map (\<lambda>e. ([Shard (int (the (idx (outputExpr ! e)))) (- 1)], [Shard (int e) (- 1)])) [0..<length t] \<and>
    (\<forall>e < length t. \<exists>d. idx (outputExpr ! e) = Some d \<and> d < length s \<and> t ! e = s ! d)"
  using assms unfolding Einsum_output_def
proof (induction outputExpr arbitrary: t rules rule: rev_induct)
  case Nil
  then show ?case by simp
next
  case (snoc c cs)
  then obtain t' rules' d where IH: "foldR (\<lambda>c (outputShape, rules).
       assertR (\<not> \<not> is_alpha c)
        (case idx c of None \<Rightarrow> Inl Abort | Some d \<Rightarrow>
          assertR (d < NumAxis s)
           (Inr (outputShape @ [s ! d], rules @ [([Shard (int d) (- 1)], [Shard (int (NumAxis outputShape)) (- 1)])])))) cs ([], []) = Inr (t', rules')"
    and d: "idx c = Some d" "d < length s" and t: "t = t' @ [s ! d]"
    and r: "rules = rules' @ [([Shard (int d) (- 1)], [Shard (int (length t')) (- 1)])]"
    by (auto simp: foldR_append bindR_eq_Inr guardR_eq_Inr split: option.splits)
  from snoc.IH [OF IH] d show ?case by (auto simp: t r nth_append less_Suc_eq)
qed

text \<open>On the letters of the input the index is the position, so \<open>ij->ji\<close> is a transposition.\<close>

lemma Einsum_transpose:
  "Einsum_shape ''ij->ji'' [m, n] = Inr ([n, m], [([Shard 1 (- 1)], [Shard 0 (- 1)]), ([Shard 0 (- 1)], [Shard 1 (- 1)])])"
  by (simp add: Einsum_shape_def str_find_def Einsum_index_def Einsum_output_def is_alpha_def upt_rec numeral_eq_Suc)

end
