(* ===== verification/ReduceOps.thy ===== *)
theory ReduceOps
  imports ShapeOps MultiOps
begin

text \<open>
  Reductions: src/dtorch/core/operators/standard/reduce_op.{h,cc} and max_min_op.{h,cc}.  A sharded axis that is
  reduced leaves a replicated output, because the kernel (reduce_kernel.cc) combines the local results of a line of
  the mesh; the other axes move to their place in the output.
\<close>

section \<open>Reduce\<close>

datatype ReduceKind = kSum | kMean | kAny | kAll | ReduceKind_kCount

record ReduceParam =
  reduceKind :: ReduceKind
  reduceDim :: "int list"
  reduceKeepdim :: bool
  reduceDataKind :: "DataKind option"

definition GetDimSet :: "ReduceParam \<Rightarrow> shape \<Rightarrow> nat set res" where
  "GetDimSet param inShape =
     (if length (reduceDim param) = 0 then Inr (set [0..<NumAxis inShape])
      else foldR (\<lambda>it dimSet. bindR (GetValidDim inShape it) (\<lambda>d. Inr (insert d dimSet))) (reduceDim param) {})"

text \<open>The sizes of the reduced axes are overwritten with -1, which the assertion rules out as a size.\<close>

definition Reduce_mark :: "shape \<Rightarrow> int list \<Rightarrow> shape res" where
  "Reduce_mark inputShape dim =
     (let numAxis = NumAxis inputShape in
      if length dim = 0 then Inr (map (\<lambda>_. - 1) inputShape)
      else foldR (\<lambda>index inputShape.
        let index = (if index < 0 then index + int numAxis else index) in
        requireR (\<not> (index < 0 \<or> index \<ge> int numAxis)) (put_nat inputShape (nat index) (- 1))) dim inputShape)"

definition Reduce_CalculateOutputShape :: "shape \<Rightarrow> int list \<Rightarrow> bool \<Rightarrow> shape res" where
  "Reduce_CalculateOutputShape inputShape dim keepdim =
     assertR (list_all (\<lambda>i. inputShape ! i \<ge> 0) [0..<NumAxis inputShape])
      (bindR (Reduce_mark inputShape dim) (\<lambda>inputShape.
        Inr (fold (\<lambda>i outputShape.
          if inputShape ! i = - 1 then (if keepdim then outputShape @ [1] else outputShape)
          else outputShape @ [inputShape ! i]) [0..<NumAxis inputShape] [])))"

text \<open>The exception for an output that cannot be broadcast is a string; it is never thrown.\<close>

definition Reduce_InferOutputMetaInfo :: "ReduceParam \<Rightarrow> operand list \<Rightarrow> operand list \<Rightarrow> operand list res" where
  "Reduce_InferOutputMetaInfo param inputs outputs =
     assertR (length inputs = 1)
      (bindR (OperandAt inputs 0) (\<lambda>x.
       let inputShape = oShape x in
       bindR (Reduce_CalculateOutputShape inputShape (reduceDim param) (reduceKeepdim param)) (\<lambda>outputShape.
       guardR RuntimeError (\<not> (reduceKeepdim param \<and> \<not> CanBroadcastWith inputShape outputShape))
        (let kind = (case reduceDataKind param of None \<Rightarrow> oDataKind x | Some k \<Rightarrow> k);
             finish = (\<lambda>k. UpdateOutput 0 (\<lambda>y. SetDataKind k (SetShapeAndStride outputShape [] (MetaDataSameAs x y))) outputs) in
         if reduceKind param = kAny \<or> reduceKind param = kAll then
           assertR (reduceDataKind param = None) (finish (if kind \<noteq> kUInt8 then kBool else kind))
         else finish kind))))"

definition Reduce_rules :: "ReduceParam \<Rightarrow> shape \<Rightarrow> rule list res" where
  "Reduce_rules param inShape =
     (if length (reduceDim param) = 0 then
        Inr (map (\<lambda>i. ([Shard (int i) (- 1)], [Replicate])) [0..<NumAxis inShape])
      else bindR (GetDimSet param inShape) (\<lambda>dimSet.
        Inr (fst (fold (\<lambda>inIdx (rules, outIdx).
          (rules @ [([Shard (int inIdx) (- 1)], [if inIdx \<in> dimSet then Replicate else Shard (int outIdx) (- 1)])],
           if reduceKeepdim param \<or> inIdx \<notin> dimSet then Suc outIdx else outIdx))
          [0..<NumAxis inShape] ([], 0)))))"

definition Reduce_class :: "ReduceParam \<Rightarrow> op_class" where
  "Reduce_class param = (unary_class (\<lambda>s. Reduce_CalculateOutputShape s (reduceDim param) (reduceKeepdim param)) (Reduce_rules param))
     \<lparr>vInferOutputMetaInfo := Reduce_InferOutputMetaInfo param\<rparr>"

subsection \<open>Shapes\<close>

definition reduced_dims :: "int list \<Rightarrow> nat \<Rightarrow> nat set" where
  "reduced_dims dim n = (if dim = [] then {..<n} else axis_of n ` set dim)"

definition kept_dims :: "int list \<Rightarrow> bool \<Rightarrow> nat \<Rightarrow> nat list" where
  "kept_dims dim keepdim n = filter (\<lambda>d. keepdim \<or> d \<notin> reduced_dims dim n) [0..<n]"

lemma Reduce_mark_Inr:
  "Reduce_mark s dim = Inr u \<longleftrightarrow> (\<forall>d \<in> set dim. - int (length s) \<le> d \<and> d < int (length s)) \<and>
     u = map (\<lambda>d. if d \<in> reduced_dims dim (length s) then - 1 else s ! d) [0..<length s]"
proof (cases "dim = []")
  case True
  then show ?thesis by (auto simp: Reduce_mark_def reduced_dims_def intro!: nth_equalityI)
next
  case False
  define f where "f = (\<lambda>index inputShape :: shape.
        let index = (if index < 0 then index + int (length s) else index) in
        requireR (\<not> (index < 0 \<or> index \<ge> int (length s))) (put_nat inputShape (nat index) (- 1)))"
  have "foldR f dims s = Inr u \<longleftrightarrow> (\<forall>d \<in> set dims. - int (length s) \<le> d \<and> d < int (length s)) \<and>
      u = map (\<lambda>d. if d \<in> axis_of (length s) ` set dims then - 1 else s ! d) [0..<length s]" for dims u
  proof (induction dims arbitrary: u rule: rev_induct)
    case Nil
    then show ?case by (auto simp: map_nth)
  next
    case (snoc d ds)
    have r: "f d v = Inr u \<longleftrightarrow> - int (length s) \<le> d \<and> d < int (length s) \<and> u = v[axis_of (length s) d := - 1]"
      if "length v = length s" for v
      using that by (auto simp: f_def Let_def guardR_eq_Inr put_nat_eq_Inr axis_of_def)
    have m: "(map (\<lambda>d. if d \<in> A then - 1 else s ! d) [0..<length s])[k := - 1] =
        map (\<lambda>d. if d \<in> insert k A then - 1 else s ! d) [0..<length s]" for A k
      by (cases "k < length s") (auto simp: nth_list_update intro!: nth_equalityI)
    have "foldR f (ds @ [d]) s = Inr u \<longleftrightarrow> (\<exists>v. foldR f ds s = Inr v \<and> f d v = Inr u)"
      by (simp add: foldR_append bindR_eq_Inr)
    then show ?case unfolding snoc.IH using r m by (auto simp del: insert_iff)
  qed
  moreover have "Reduce_mark s dim = foldR f dim s" using False unfolding Reduce_mark_def f_def Let_def by simp
  ultimately show ?thesis using False by (simp add: reduced_dims_def)
qed

lemma Reduce_shape_Inr:
  "Reduce_CalculateOutputShape s dim keepdim = Inr t \<longleftrightarrow> (\<forall>v \<in> set s. 0 \<le> v) \<and>
     (\<forall>d \<in> set dim. - int (length s) \<le> d \<and> d < int (length s)) \<and>
     t = map (\<lambda>d. if d \<in> reduced_dims dim (length s) then 1 else s ! d) (kept_dims dim keepdim (length s))"
proof -
  let ?D = "reduced_dims dim (length s)"
  let ?u = "map (\<lambda>d. if d \<in> ?D then - 1 else s ! d) [0..<length s]"
  have nonneg: "list_all (\<lambda>i. s ! i \<ge> 0) [0..<length s] \<longleftrightarrow> (\<forall>v \<in> set s. 0 \<le> v)"
    by (auto simp: list_all_iff all_set_conv_all_nth)
  have "fold (\<lambda>i outputShape. if ?u ! i = - 1 then (if keepdim then outputShape @ [1] else outputShape) else outputShape @ [?u ! i])
      [0..<k] [] = map (\<lambda>d. if d \<in> ?D then 1 else s ! d) (filter (\<lambda>d. keepdim \<or> d \<notin> ?D) [0..<k])"
    if "k \<le> length s" "\<forall>v \<in> set s. 0 \<le> v" for k
    using that
  proof (induction k)
    case 0
    then show ?case by simp
  next
    case (Suc k)
    then have "0 \<le> s ! k" by simp
    then have "s ! k \<noteq> - 1" by simp
    with Suc show ?case by auto
  qed
  from this [of "length s"] show ?thesis
    by (auto simp: Reduce_CalculateOutputShape_def guardR_eq_Inr bindR_eq_Inr Reduce_mark_Inr nonneg kept_dims_def)
qed

lemma GetDimSet_eq:
  assumes "\<forall>d \<in> set (reduceDim param). - int (length s) \<le> d \<and> d < int (length s)"
  shows "GetDimSet param s = Inr (reduced_dims (reduceDim param) (length s))"
proof -
  have "foldR (\<lambda>it dimSet. bindR (GetValidDim s it) (\<lambda>d. Inr (insert d dimSet))) ds A = Inr (axis_of (length s) ` set ds \<union> A)"
    if "\<forall>d \<in> set ds. - int (length s) \<le> d \<and> d < int (length s)" for ds A
    using that
  proof (induction ds arbitrary: A)
    case Nil
    then show ?case by simp
  next
    case (Cons d ds)
    then have "GetValidDim s d = Inr (axis_of (length s) d)" by (simp add: GetValidDim_Inr)
    with Cons show ?case by simp
  qed
  from this [OF assms, of "{}"] show ?thesis by (auto simp: GetDimSet_def reduced_dims_def)
qed

subsection \<open>Rules\<close>

definition reduce_rule :: "nat set \<Rightarrow> nat list \<Rightarrow> rule \<Rightarrow> bool" where
  "reduce_rule D ks r \<longleftrightarrow> r = ([Replicate], [Replicate]) \<or> (\<exists>d \<in> D. r = ([Shard (int d) (- 1)], [Replicate])) \<or>
     (\<exists>e < length ks. ks ! e \<notin> D \<and> r = ([Shard (int (ks ! e)) (- 1)], [Shard (int e) (- 1)]))"

lemma Reduce_rules_ok:
  assumes "Reduce_CalculateOutputShape s (reduceDim param) (reduceKeepdim param) = Inr t" and "Reduce_rules param s = Inr rules"
    and "r \<in> set rules"
  shows "list_all simple_placement (fst r) \<and>
    reduce_rule (reduced_dims (reduceDim param) (length s)) (kept_dims (reduceDim param) (reduceKeepdim param) (length s)) r"
proof -
  let ?D = "reduced_dims (reduceDim param) (length s)" and ?keep = "reduceKeepdim param"
  let ?ks = "\<lambda>k. filter (\<lambda>d. ?keep \<or> d \<notin> ?D) [0..<k]"
  have ks: "kept_dims (reduceDim param) ?keep (length s) = ?ks (length s)" by (simp add: kept_dims_def)
  from assms(1) have dims: "\<forall>d \<in> set (reduceDim param). - int (length s) \<le> d \<and> d < int (length s)"
    by (simp add: Reduce_shape_Inr)
  show ?thesis
  proof (cases "reduceDim param = []")
    case True
    with assms(2,3) show ?thesis by (auto simp: Reduce_rules_def reduce_rule_def reduced_dims_def)
  next
    case False
    let ?step = "\<lambda>inIdx (rules, outIdx). (rules @ [([Shard (int inIdx) (- 1)], [if inIdx \<in> ?D then Replicate else Shard (int outIdx) (- 1)])],
           if ?keep \<or> inIdx \<notin> ?D then Suc outIdx else outIdx)"
    have "fold ?step [0..<k] ([], 0) = (map (\<lambda>i. ([Shard (int i) (- 1)],
        [if i \<in> ?D then Replicate else Shard (int (length (?ks i))) (- 1)])) [0..<k], length (?ks k))" for k
      by (induction k) auto
    with assms(2) False GetDimSet_eq [OF dims] have rules: "rules = map (\<lambda>i. ([Shard (int i) (- 1)],
        [if i \<in> ?D then Replicate else Shard (int (length (?ks i))) (- 1)])) [0..<length s]"
      by (simp add: Reduce_rules_def)
    with assms(3) obtain i where i: "i < length s"
      "r = ([Shard (int i) (- 1)], [if i \<in> ?D then Replicate else Shard (int (length (?ks i))) (- 1)])" by auto
    have "?ks (length s) = ?ks i @ i # filter (\<lambda>d. ?keep \<or> d \<notin> ?D) [Suc i..<length s]" if "i \<notin> ?D"
      using that upt_split3 [OF i(1)] by simp
    then have "length (?ks i) < length (?ks (length s)) \<and> ?ks (length s) ! length (?ks i) = i" if "i \<notin> ?D"
      using that by (simp add: nth_append)
    with i show ?thesis by (cases "i \<in> ?D") (auto simp: reduce_rule_def ks)
  qed
qed

lemma Reduce_meta:
  assumes "Reduce_InferOutputMetaInfo param [x] [y0] = Inr metas"
  shows "\<exists>y. metas = [y] \<and> Reduce_CalculateOutputShape (oShape x) (reduceDim param) (reduceKeepdim param) = Inr (oShape y)"
  using assms
  by (auto simp: Reduce_InferOutputMetaInfo_def OperandAt_def UpdateOutput_def bindR_eq_Inr guardR_eq_Inr SetShapeAndStride_def
      SetDataKind_def Let_def split: if_splits)

lemma Reduce_skip: "vSkipDistributedSpec (Reduce_class param) [x] = Inr (\<not> Operand_IsDistributed x)"
  by (simp add: Reduce_class_def unary_class_def SkipDistributedSpecFromPlacementSignature_def)

text \<open>C23: the rules of the reductions are sound: reducing the piece of every device over the same dimensions gives the
  local shape of the inferred layout of the output.\<close>

theorem Reduce_layout_sound:
  assumes run: "InferOutput gpus (Reduce_class param) [x] [y0] = Inr ys" and dist: "Operand_IsDistributed x"
    and plain: "list_all plain_placement (oPlacementSeq x)" "oPlacementSeq x \<noteq> []"
  shows "\<exists>y. ys = [y] \<and> Reduce_CalculateOutputShape (oShape x) (reduceDim param) (reduceKeepdim param) = Inr (oShape y) \<and>
    oDeviceMesh y = oDeviceMesh x \<and>
    (\<forall>ms cs. list_all (\<lambda>n. 0 \<le> n) (local_shape ms (oPlacementSeq x) (oShape x) cs) \<longrightarrow>
      Reduce_CalculateOutputShape (local_shape ms (oPlacementSeq x) (oShape x) cs) (reduceDim param) (reduceKeepdim param) =
        Inr (local_shape ms (oPlacementSeq y) (oShape y) cs))"
proof -
  let ?s = "oShape x" and ?k = "length (oPlacementSeq x)" and ?cls = "Reduce_class param"
  let ?D = "reduced_dims (reduceDim param) (length ?s)" and ?ks = "kept_dims (reduceDim param) (reduceKeepdim param) (length ?s)"
  have metas: "\<exists>y. metas = [y] \<and> Reduce_CalculateOutputShape ?s (reduceDim param) (reduceKeepdim param) = Inr (oShape y)"
    if "vInferOutputMetaInfo ?cls [x] [y0] = Inr metas" for metas
    using that Reduce_meta by (simp add: Reduce_class_def)
  have "\<exists>metas. vInferOutputMetaInfo ?cls [x] [y0] = Inr metas \<and> map oShape ys = map oShape metas \<and>
    map oDataKind ys = map oDataKind metas \<and> length ys = 1 \<and>
    (\<forall>x \<in> set [x]. CheckValid (oShape x) (oDeviceMesh x) (oPlacementSeq x) gpus = Inr True) \<and>
    (\<forall>y \<in> set ys. length (oPlacementSeq y) = ?k \<and> oDeviceMesh y = oDeviceMesh ([x] ! 0) \<and>
      CheckShapeValid (oShape y) (oDeviceMesh y) (oPlacementSeq y) = Inr True) \<and>
    (\<forall>i < ?k. reduce_rule ?D ?ks (column (map oPlacementSeq [x]) i, column (map oPlacementSeq ys) i))"
  proof (rule InferOutput_rows [OF run])
    fix ms sig
    assume m: "vInferOutputMetaInfo ?cls [x] [y0] = Inr ms" and sig: "vGetPlacementSignature ?cls [x] ms = Inr sig"
    from metas [OF m] obtain y where y: "ms = [y]" "Reduce_CalculateOutputShape ?s (reduceDim param) (reduceKeepdim param) = Inr (oShape y)"
      by blast
    from sig y(1) obtain rules where "Reduce_rules param ?s = Inr rules" "BuildRules 1 1 rules = Inr sig"
      by (auto simp: Reduce_class_def unary_class_def OperandAt_def bindR_eq_Inr)
    with Reduce_rules_ok [OF y(2)]
    show "\<exists>rules. BuildRules 1 1 rules = Inr sig \<and> (\<forall>r \<in> set rules. list_all simple_placement (fst r) \<and> reduce_rule ?D ?ks r)"
      by blast
  qed (use metas plain dist Reduce_skip in \<open>auto simp: reduce_rule_def\<close>)
  then obtain y where y: "ys = [y]" "Reduce_CalculateOutputShape ?s (reduceDim param) (reduceKeepdim param) = Inr (oShape y)"
    "oDeviceMesh y = oDeviceMesh x" "length (oPlacementSeq y) = ?k"
    "\<forall>i < ?k. reduce_rule ?D ?ks ([oPlacementSeq x ! i], [oPlacementSeq y ! i])"
    using metas by (auto simp: column_def length_Suc_conv)
  from y(2) have t: "oShape y = map (\<lambda>d. if d \<in> ?D then 1 else ?s ! d) ?ks" and dims:
    "\<forall>d \<in> set (reduceDim param). - int (length ?s) \<le> d \<and> d < int (length ?s)" by (simp_all add: Reduce_shape_Inr)
  have ks: "distinct ?ks" "set ?ks \<subseteq> {..<length ?s}" by (auto simp: kept_dims_def)
  have axes: "shard_axes (oPlacementSeq y) e = (if ?ks ! e \<in> ?D then {} else shard_axes (oPlacementSeq x) (?ks ! e))"
    if "e < length ?ks" for e
  proof -
    have "IsShardAt (oPlacementSeq y ! i) (int e) \<longleftrightarrow> ?ks ! e \<notin> ?D \<and> IsShardAt (oPlacementSeq x ! i) (int (?ks ! e))" if "i < ?k" for i
      using y(5) [THEN spec, THEN mp, OF that] \<open>e < length ?ks\<close> nth_eq_iff_index_eq [OF ks(1)]
      by (auto simp: reduce_rule_def IsShardAt_def)
    with y(4) show ?thesis by (auto simp: shard_axes_def)
  qed
  have "Reduce_CalculateOutputShape (local_shape ms (oPlacementSeq x) ?s cs) (reduceDim param) (reduceKeepdim param) =
        Inr (local_shape ms (oPlacementSeq y) (oShape y) cs)"
    if "list_all (\<lambda>n. 0 \<le> n) (local_shape ms (oPlacementSeq x) ?s cs)" for ms cs
  proof -
    have len: "length (local_shape ms (oPlacementSeq x) ?s cs) = length ?s" by (simp add: local_shape_def)
    have "local_size ms (oPlacementSeq y) (oShape y) cs e =
        (if ?ks ! e \<in> ?D then 1 else local_size ms (oPlacementSeq x) ?s cs (?ks ! e))" if "e < length ?ks" for e
      using axes [OF that] that
      by (cases "?ks ! e \<in> ?D") (simp_all add: t local_size_unsharded, simp add: local_size_def shard_count_def)
    then have "local_shape ms (oPlacementSeq y) (oShape y) cs =
        map (\<lambda>d. if d \<in> ?D then 1 else local_shape ms (oPlacementSeq x) ?s cs ! d) ?ks"
      using ks(2) nth_mem by (intro nth_equalityI) (fastforce simp: local_shape_def t)+
    with that dims len show ?thesis by (simp add: Reduce_shape_Inr list_all_iff)
  qed
  with y(1-3) show ?thesis by blast
qed

definition sum_rows :: ReduceParam where
  "sum_rows = \<lparr>reduceKind = kSum, reduceDim = [0, - 1], reduceKeepdim = False, reduceDataKind = None\<rparr>"

theorem Reduce_layout_sound_witness:
  "\<exists>y. InferOutput 8 (Reduce_class sum_rows) [grid_operand] [Operand_new] = Inr [y] \<and>
    Reduce_CalculateOutputShape (local_shape [2, 2] [Shard 0 (- 1), Shard 1 (- 1)] [6, 4, 2] [1, 0]) [0, - 1] False =
      Inr (local_shape [2, 2] (oPlacementSeq y) (oShape y) [1, 0])"
proof -
  have "isl (InferOutput 8 (Reduce_class sum_rows) [grid_operand] [Operand_new]) = False" by code_simp
  then obtain ys where run: "InferOutput 8 (Reduce_class sum_rows) [grid_operand] [Operand_new] = Inr ys"
    by (cases "InferOutput 8 (Reduce_class sum_rows) [grid_operand] [Operand_new]") simp_all
  then have "\<exists>y. ys = [y] \<and>
    Reduce_CalculateOutputShape (oShape grid_operand) (reduceDim sum_rows) (reduceKeepdim sum_rows) = Inr (oShape y) \<and>
    oDeviceMesh y = oDeviceMesh grid_operand \<and>
    (\<forall>ms cs. list_all (\<lambda>n. 0 \<le> n) (local_shape ms (oPlacementSeq grid_operand) (oShape grid_operand) cs) \<longrightarrow>
      Reduce_CalculateOutputShape (local_shape ms (oPlacementSeq grid_operand) (oShape grid_operand) cs)
          (reduceDim sum_rows) (reduceKeepdim sum_rows) = Inr (local_shape ms (oPlacementSeq y) (oShape y) cs))"
    by (rule Reduce_layout_sound) simp_all
  moreover have "list_all (\<lambda>n. 0 \<le> n) (local_shape [2, 2] [Shard 0 (- 1), Shard 1 (- 1)] [6, 4, 2] [1, 0])" by code_simp
  ultimately show ?thesis using run by (auto simp: sum_rows_def)
qed

section \<open>Maximum and minimum\<close>

datatype MaxMinKind = kMax | kMin | MaxMinKind_kCount

record MaxMinParam =
  maxMinKind :: MaxMinKind
  maxMinDim :: "int option"
  maxMinKeepdim :: bool

definition MaxMin_InferOutputSize :: "MaxMinParam \<Rightarrow> nat" where
  "MaxMin_InferOutputSize param = (if maxMinDim param \<noteq> None then 2 else 1)"

definition MaxMin_shape :: "MaxMinParam \<Rightarrow> shape \<Rightarrow> shape res" where
  "MaxMin_shape param inShape =
     (case maxMinDim param of
        None \<Rightarrow> Inr []
      | Some d \<Rightarrow> bindR (GetValidDim inShape d) (\<lambda>dim.
          if maxMinKeepdim param then put_nat inShape dim 1 else Inr (RemoveSelectedDim inShape {dim})))"

definition MaxMin_InferOutputMetaInfo :: "MaxMinParam \<Rightarrow> operand list \<Rightarrow> operand list \<Rightarrow> operand list res" where
  "MaxMin_InferOutputMetaInfo param inputs outputs =
     assertR (length inputs = 1)
      (bindR (OperandAt inputs 0) (\<lambda>x.
       bindR (MaxMin_shape param (oShape x)) (\<lambda>outShape.
       assertR (length outputs = 1 \<or> length outputs = 2)
        (bindR (UpdateOutput 0 (\<lambda>y. SetShapeAndStride outShape [] (MetaDataSameAs x y)) outputs) (\<lambda>outputs.
         if length outputs = 2 then
           UpdateOutput 1 (\<lambda>indices. SetShapeAndStride outShape [] (SetDataKind kInt64 (MetaDataSameAs x indices))) outputs
         else Inr outputs)))))"

definition MaxMin_class :: "MaxMinParam \<Rightarrow> op_class" where
  "MaxMin_class param = \<lparr>vIsRequireInputSameDataKind = True, vCheckInput = (\<lambda>_. Inr ()),
     vInferOutputSize = MaxMin_InferOutputSize param, vInferOutputMetaInfo = MaxMin_InferOutputMetaInfo param,
     vSkipDistributedSpec = SkipDistributedSpecFromPlacementSignature,
     vGetPlacementSignature = default_GetPlacementSignature, vKeepSubSplitCoordinates = True\<rparr>"

text \<open>The dimension past the end passes \<open>GetValidDim\<close>: without \<open>keepdim\<close> nothing is removed, with it the access aborts.\<close>

lemma MaxMin_past_the_end:
  "MaxMin_shape \<lparr>maxMinKind = kMax, maxMinDim = Some (int (length s)), maxMinKeepdim = False\<rparr> s = Inr s"
  "MaxMin_shape \<lparr>maxMinKind = kMax, maxMinDim = Some (int (length s)), maxMinKeepdim = True\<rparr> s = Inl Abort"
proof -
  have "filter (\<lambda>i. i \<in> - {length s}) [0..<length s] = [0..<length s]" by (rule filter_True) simp
  then have "nths s (- {length s}) = s" using map_filter_nth [of s "- {length s}"] by (simp add: map_nth)
  then show "MaxMin_shape \<lparr>maxMinKind = kMax, maxMinDim = Some (int (length s)), maxMinKeepdim = False\<rparr> s = Inr s"
    by (simp add: MaxMin_shape_def GetValidDim_Inr [THEN iffD2] axis_of_def RemoveSelectedDim_nths)
  show "MaxMin_shape \<lparr>maxMinKind = kMax, maxMinDim = Some (int (length s)), maxMinKeepdim = True\<rparr> s = Inl Abort"
    by (simp add: MaxMin_shape_def GetValidDim_Inr [THEN iffD2] axis_of_def put_nat_def)
qed

text \<open>On an axis of the tensor the two operators compute the shape of a reduction over this axis.\<close>

lemma MaxMin_shape_Reduce:
  assumes "- int (length s) \<le> d" and "d < int (length s)" and "\<forall>v \<in> set s. 0 \<le> v"
  shows "MaxMin_shape \<lparr>maxMinKind = k, maxMinDim = Some d, maxMinKeepdim = keep\<rparr> s = Reduce_CalculateOutputShape s [d] keep"
proof -
  let ?a = "axis_of (length s) d"
  have a: "?a < length s" "GetValidDim s d = Inr ?a" using assms by (simp_all add: axis_of_less GetValidDim_Inr)
  have "Reduce_CalculateOutputShape s [d] keep = Inr (map (\<lambda>i. if i = ?a then 1 else s ! i) (kept_dims [d] keep (length s)))"
    using assms by (simp add: Reduce_shape_Inr reduced_dims_def)
  moreover have "map (\<lambda>i. if i = ?a then 1 else s ! i) [0..<length s] = s[?a := 1]"
    using a(1) by (auto simp: nth_list_update intro!: nth_equalityI)
  moreover have "map (\<lambda>i. if i = ?a then 1 else s ! i) (filter (\<lambda>i. i \<noteq> ?a) [0..<length s]) = nths s (- {?a})"
  proof -
    have "map (\<lambda>i. if i = ?a then 1 else s ! i) (filter (\<lambda>i. i \<noteq> ?a) [0..<length s]) = map ((!) s) (filter (\<lambda>i. i \<noteq> ?a) [0..<length s])"
      by (rule map_cong) simp_all
    also have "\<dots> = nths s (- {?a})" using map_filter_nth [of s "- {?a}"] by simp
    finally show ?thesis .
  qed
  ultimately show ?thesis
    using a by (simp add: MaxMin_shape_def kept_dims_def reduced_dims_def RemoveSelectedDim_nths)
qed

end
