(* ===== verification/ViewOps.thy ===== *)
theory ViewOps
  imports ShapeOps MultiOps
begin

text \<open>
  Changes of the shape: src/dtorch/core/operators/standard/reshape_op.{h,cc}, view_op.{h,cc} and flatten_op.{h,cc}.
  The output shapes keep the number of entries; the placement rules keep the leading and trailing axes that the
  change does not touch, and the first one it merges.
\<close>

section \<open>Reshape\<close>

text \<open>The scan of the expected shape: the output so far, the position of -1, the product of the other sizes.\<close>

definition Reshape_step :: "shape \<Rightarrow> nat \<Rightarrow> (shape \<times> nat option \<times> int) option \<Rightarrow> (shape \<times> nat option \<times> int) option" where
  "Reshape_step inputShape i state = (case state of
      None \<Rightarrow> None
    | Some (outputShape, minusOne, acc) \<Rightarrow>
        if outputShape ! i = 0 then
          (if i \<ge> NumAxis inputShape then None
           else Some (outputShape[i := inputShape ! i], minusOne, acc * inputShape ! i))
        else if outputShape ! i = - 1 then (if minusOne \<noteq> None then None else Some (outputShape, Some i, acc))
        else if outputShape ! i \<le> - 2 then None
        else Some (outputShape, minusOne, acc * outputShape ! i))"

definition Reshape_CalculateOutputShape :: "shape \<Rightarrow> shape \<Rightarrow> shape option res" where
  "Reshape_CalculateOutputShape inputShape expectShape =
     (case fold (Reshape_step inputShape) [0..<NumAxis expectShape] (Some (expectShape, None, 1)) of
        None \<Rightarrow> Inr None
      | Some (outputShape, None, _) \<Rightarrow> Inr (Some outputShape)
      | Some (outputShape, Some k, acc) \<Rightarrow>
          bindR (Shape_Count inputShape) (\<lambda>elements.
          bindR (quotR elements acc) (\<lambda>q. bindR (remR elements acc) (\<lambda>r.
            Inr (if r \<noteq> 0 then None else Some (outputShape[k := q]))))))"

definition Reshape_shape :: "shape \<Rightarrow> shape \<Rightarrow> shape res" where
  "Reshape_shape expectShape inputShape =
     bindR (Reshape_CalculateOutputShape inputShape expectShape) (\<lambda>result.
       case result of None \<Rightarrow> Inl InvalidArgument
       | Some outputShape \<Rightarrow>
           bindR (Shape_Count outputShape) (\<lambda>a. bindR (Shape_Count inputShape) (\<lambda>b.
             requireR (\<not> a \<noteq> b) (Inr outputShape))))"

definition Reshape_InferOutputMetaInfo :: "shape \<Rightarrow> operand list \<Rightarrow> operand list \<Rightarrow> operand list res" where
  "Reshape_InferOutputMetaInfo expectShape inputs outputs =
     assertR (length inputs = 1 \<or> length inputs = 2)
      (bindR (OperandAt inputs 0) (\<lambda>x. bindR (Reshape_shape expectShape (oShape x)) (\<lambda>outputShape.
         UpdateOutput 0 (\<lambda>y. SetShapeAndStride outputShape [] (MetaDataSameAs x y)) outputs)))"

text \<open>The two loops of the rules of reshape and view; the flag is the \<open>break\<close>.\<close>

definition leading_rules :: "shape \<Rightarrow> shape \<Rightarrow> rule list" where
  "leading_rules inputShape outputShape = fst (fold (\<lambda>i (rules, stop).
     if stop then (rules, stop)
     else (rules @ [([Shard (int i) (- 1)], [Shard (int i) (- 1)])], inputShape ! i \<noteq> outputShape ! i))
     [0..<min (NumAxis inputShape) (NumAxis outputShape)] ([], False))"

definition trailing_rules :: "shape \<Rightarrow> shape \<Rightarrow> rule list" where
  "trailing_rules inputShape outputShape = fst (fold (\<lambda>i (rules, stop).
     let inIndex = NumAxis inputShape - 1 - i; outIndex = NumAxis outputShape - 1 - i in
     if stop \<or> inputShape ! inIndex \<noteq> outputShape ! outIndex then (rules, True)
     else (rules @ [([Shard (int inIndex) (- 1)], [Shard (int outIndex) (- 1)])], stop))
     [0..<min (NumAxis inputShape) (NumAxis outputShape)] ([], False))"

definition Reshape_GetPlacementSignature :: "operand list \<Rightarrow> operand list \<Rightarrow> PlacementSignature res" where
  "Reshape_GetPlacementSignature inputs outputs =
     assertR (length inputs = 1)
      (bindR (OperandAt inputs 0) (\<lambda>x. bindR (OperandAt outputs 0) (\<lambda>y.
         BuildRules (length inputs) (length outputs)
          (([Partial], [Partial]) # leading_rules (oShape x) (oShape y) @ trailing_rules (oShape x) (oShape y)))))"

definition Reshape_class :: "shape \<Rightarrow> op_class" where
  "Reshape_class expectShape = \<lparr>vIsRequireInputSameDataKind = True, vCheckInput = (\<lambda>_. Inr ()), vInferOutputSize = 1,
     vInferOutputMetaInfo = Reshape_InferOutputMetaInfo expectShape,
     vSkipDistributedSpec = SkipDistributedSpecFromPlacementSignature,
     vGetPlacementSignature = Reshape_GetPlacementSignature, vKeepSubSplitCoordinates = True\<rparr>"

subsection \<open>The output shape\<close>

text \<open>What the expected shape says about one axis of the output.\<close>

definition reshape_axis :: "shape \<Rightarrow> shape \<Rightarrow> shape \<Rightarrow> nat \<Rightarrow> bool" where
  "reshape_axis s e t i \<longleftrightarrow> (if e ! i = 0 then i < length s \<and> t ! i = s ! i
     else if e ! i = - 1 then True else 0 < e ! i \<and> t ! i = e ! i)"

lemma Reshape_step_None [simp]: "Reshape_step s i None = None"
  by (simp add: Reshape_step_def)

lemma Reshape_scan:
  assumes "fold (Reshape_step s) [0..<k] (Some (e, None, 1)) = Some (t, m, acc)" and "k \<le> length e"
  shows "length t = length e \<and> (\<forall>i < k. reshape_axis s e t i) \<and> (\<forall>i \<ge> k. t ! i = e ! i) \<and>
    {i. i < k \<and> e ! i = - 1} = set_option m"
  using assms
proof (induction k arbitrary: t m acc)
  case 0
  then show ?case by simp
next
  case (Suc k)
  then obtain t' m' acc' where IH: "fold (Reshape_step s) [0..<k] (Some (e, None, 1)) = Some (t', m', acc')"
    and step: "Reshape_step s k (Some (t', m', acc')) = Some (t, m, acc)"
    by (cases "fold (Reshape_step s) [0..<k] (Some (e, None, 1))") auto
  have "length t' = length e \<and> (\<forall>i < k. reshape_axis s e t' i) \<and> (\<forall>i \<ge> k. t' ! i = e ! i) \<and>
      {i. i < k \<and> e ! i = - 1} = set_option m'"
    by (rule Suc.IH [OF IH]) (use Suc.prems(2) in simp)
  then have h: "length t' = length e" "\<And>i. i < k \<Longrightarrow> reshape_axis s e t' i" "\<And>i. k \<le> i \<Longrightarrow> t' ! i = e ! i"
      "{i. i < k \<and> e ! i = - 1} = set_option m'" by blast+
  have cur: "t' ! k = e ! k" using h(3) by simp
  have ms: "{i. i < Suc k \<and> e ! i = - 1} = (if e ! k = - 1 then insert k (set_option m') else set_option m')"
    unfolding h(4) [symmetric] by (auto simp: less_Suc_eq)
  consider (zero) "e ! k = 0" "k < length s" "t = t'[k := s ! k]" "m = m'"
    | (minus) "e ! k = - 1" "m' = None" "t = t'" "m = Some k"
    | (size) "0 < e ! k" "t = t'" "m = m'"
    using step cur by (auto simp: Reshape_step_def split: if_splits)
  then have "reshape_axis s e t i" if "i < Suc k" for i
    using that h(1) h(2) [of i] cur Suc.prems(2) by cases (auto simp: reshape_axis_def less_Suc_eq)
  moreover have "length t = length e \<and> (\<forall>i \<ge> Suc k. t ! i = e ! i) \<and> {i. i < Suc k \<and> e ! i = - 1} = set_option m"
    using step cur h(1,3) ms by (auto simp: Reshape_step_def split: if_splits)
  ultimately show ?case by blast
qed

text \<open>C25: what \<open>reshape\<close> computes: a successful inference gives a shape with the number of entries of the input in which
  every axis has the size the expected shape asks for, a size 0 standing for the size of the input and at most
  one -1 for the rest.\<close>

theorem Reshape_shape_correct:
  assumes "Reshape_shape e s = Inr t"
  shows "prod_list t = prod_list s \<and> length t = length e \<and> card {i. i < length e \<and> e ! i = - 1} \<le> 1 \<and>
    (\<forall>i < length e. if e ! i = 0 then i < length s \<and> t ! i = s ! i else if e ! i = - 1 then True else 0 < e ! i \<and> t ! i = e ! i)"
proof -
  from assms have count: "prod_list t = prod_list s" and calc: "Reshape_CalculateOutputShape s e = Inr (Some t)"
    by (auto simp: Reshape_shape_def bindR_eq_Inr guardR_eq_Inr split: option.splits)
  from calc obtain t0 m acc where scan: "fold (Reshape_step s) [0..<length e] (Some (e, None, 1)) = Some (t0, m, acc)"
    and "\<exists>q. t = (case m of None \<Rightarrow> t0 | Some k \<Rightarrow> t0[k := q])"
    by (auto simp: Reshape_CalculateOutputShape_def bindR_eq_Inr split: option.splits prod.splits if_splits)
  then obtain q where t: "t = (case m of None \<Rightarrow> t0 | Some k \<Rightarrow> t0[k := q])" by blast
  from Reshape_scan [OF scan] have h: "length t0 = length e" "\<forall>i < length e. reshape_axis s e t0 i"
    "{i. i < length e \<and> e ! i = - 1} = set_option m" by auto
  have "reshape_axis s e t i" if "i < length e" for i
  proof (cases m)
    case None
    with t h(2) that show ?thesis by simp
  next
    case (Some k)
    with h(3) have "e ! k = - 1" by auto
    with Some t h(2) that show ?thesis by (cases "i = k") (auto simp: reshape_axis_def)
  qed
  moreover have "length t = length e" using t h(1) by (simp split: option.splits)
  moreover have "card {i. i < length e \<and> e ! i = - 1} \<le> 1" unfolding h(3) by (cases m) simp_all
  ultimately show ?thesis using count by (simp add: reshape_axis_def)
qed

text \<open>A size 0 keeps the axis of the input and -1 takes the rest.\<close>

theorem Reshape_shape_correct_witness:
  "Reshape_shape [0, - 1, 2] [3, 4, 2] = Inr [3, 4, 2] \<and> prod_list [3, 4, 2::int] = prod_list [3, 4, 2]"
proof -
  have "Reshape_shape [0, - 1, 2] [3, 4, 2] = Inr [3, 4, 2]" by code_simp
  with Reshape_shape_correct [OF this] show ?thesis by simp
qed

text \<open>An axis of size 0 next to -1 makes the code divide by zero, and sizes that do not fit are refused.\<close>

lemma Reshape_zero_and_minus_one: "Reshape_shape [0, - 1] [0, 4] = Inl Undefined"
  by code_simp

lemma Reshape_refused:
  "Reshape_shape [5, - 1] [3, 4] = Inl InvalidArgument" "Reshape_shape [- 1, - 1] [3, 4] = Inl InvalidArgument"
  "Reshape_shape [3, 5] [3, 4] = Inl InvalidArgument"
  by code_simp+

section \<open>View\<close>

datatype ViewParam = ViewShape shape | ViewPlacements placement_seq

definition View_shape :: "shape \<Rightarrow> shape \<Rightarrow> shape res" where
  "View_shape outputShape inputShape =
     bindR (foldR (\<lambda>i (accumOfElement, minusOneIdx).
         if outputShape ! i > 0 then Inr (accumOfElement * outputShape ! i, minusOneIdx)
         else if outputShape ! i = - 1 then assertR (minusOneIdx = None) (Inr (accumOfElement, Some i))
         else Inr (accumOfElement, minusOneIdx))
       [0..<NumAxis outputShape] (1, None))
      (\<lambda>(accumOfElement, minusOneIdx). case minusOneIdx of
         None \<Rightarrow> Inr outputShape
       | Some i \<Rightarrow> bindR (Shape_Count inputShape) (\<lambda>elements. bindR (quotR elements accumOfElement) (\<lambda>q.
           Inr (outputShape[i := q]))))"

definition View_InferOutputMetaInfo :: "ViewParam \<Rightarrow> operand list \<Rightarrow> operand list \<Rightarrow> operand list res" where
  "View_InferOutputMetaInfo param inputs outputs =
     assertR (length inputs = 1)
      (bindR (OperandAt inputs 0) (\<lambda>x. case param of
         ViewShape shape \<Rightarrow> bindR (View_shape shape (oShape x)) (\<lambda>outputShape.
           UpdateOutput 0 (\<lambda>y. SetShapeAndStride outputShape [] (MetaDataSameAs x y)) outputs)
       | ViewPlacements placementSeq \<Rightarrow>
           bindR (CheckShapeValid (oShape x) (oDeviceMesh x) placementSeq) (\<lambda>ok. requireR ok
            (UpdateOutput 0 (\<lambda>y. SetDeviceMeshAndPlacementSeq (oDeviceMesh x) placementSeq (MetaDataSameAs x y)) outputs))))"

definition View_SkipDistributedSpec :: "ViewParam \<Rightarrow> operand list \<Rightarrow> bool res" where
  "View_SkipDistributedSpec param inputs = (case param of
     ViewPlacements _ \<Rightarrow> Inr True | ViewShape _ \<Rightarrow> SkipDistributedSpecFromPlacementSignature inputs)"

definition View_GetPlacementSignature :: "ViewParam \<Rightarrow> operand list \<Rightarrow> operand list \<Rightarrow> PlacementSignature res" where
  "View_GetPlacementSignature param inputs outputs =
     assertR (length inputs = 1)
      (bindR (OperandAt inputs 0) (\<lambda>x. bindR (OperandAt outputs 0) (\<lambda>y.
         assertR (case param of ViewShape _ \<Rightarrow> True | _ \<Rightarrow> False)
          (BuildRules (length inputs) (length outputs)
            (([Partial], [Partial]) # leading_rules (oShape x) (oShape y) @ trailing_rules (oShape x) (oShape y))))))"

definition View_class :: "ViewParam \<Rightarrow> op_class" where
  "View_class param = \<lparr>vIsRequireInputSameDataKind = True, vCheckInput = (\<lambda>_. Inr ()), vInferOutputSize = 1,
     vInferOutputMetaInfo = View_InferOutputMetaInfo param, vSkipDistributedSpec = View_SkipDistributedSpec param,
     vGetPlacementSignature = View_GetPlacementSignature param, vKeepSubSplitCoordinates = True\<rparr>"

subsection \<open>The placement rules\<close>

lemma leading_rules_set:
  assumes "r \<in> set (leading_rules s t)"
  shows "\<exists>i. i < length s \<and> i < length t \<and> take i s = take i t \<and> r = ([Shard (int i) (- 1)], [Shard (int i) (- 1)])"
proof -
  define step where "step = (\<lambda>i (rules :: rule list, stop). if stop then (rules, stop)
    else (rules @ [([Shard (int i) (- 1)], [Shard (int i) (- 1)])], s ! i \<noteq> t ! i))"
  define good where "good = (\<lambda>k (r :: rule). \<exists>i < k. take i s = take i t \<and> r = ([Shard (int i) (- 1)], [Shard (int i) (- 1)]))"
  have "case fold step [0..<k] ([], False) of (rules, stop) \<Rightarrow>
      (\<forall>r \<in> set rules. good k r) \<and> (\<not> stop \<longrightarrow> take k s = take k t)"
    if "k \<le> min (length s) (length t)" for k
    using that
  proof (induction k)
    case 0
    then show ?case by simp
  next
    case (Suc k)
    have mono: "good k r \<Longrightarrow> good (Suc k) r" for r unfolding good_def using less_SucI by fast
    have new: "take k s = take k t \<Longrightarrow> good (Suc k) ([Shard (int k) (- 1)], [Shard (int k) (- 1)])" by (auto simp: good_def)
    obtain rules stop where f: "fold step [0..<k] ([], False) = (rules, stop)" by fastforce
    with Suc have "\<forall>r \<in> set rules. good k r" "\<not> stop \<longrightarrow> take k s = take k t" by simp_all
    with mono new Suc.prems f show ?case by (auto simp: step_def take_Suc_conv_app_nth)
  qed
  from this [of "min (length s) (length t)"] have "case fold step [0..<min (length s) (length t)] ([], False) of (rules, stop) \<Rightarrow>
      \<forall>r \<in> set rules. good (min (length s) (length t)) r" by (auto split: prod.splits)
  moreover have "leading_rules s t = fst (fold step [0..<min (length s) (length t)] ([], False))"
    by (simp only: leading_rules_def step_def)
  moreover obtain rules stop where "fold step [0..<min (length s) (length t)] ([], False) = (rules, stop)" by fastforce
  ultimately have "good (min (length s) (length t)) r" using assms by force
  then show ?thesis unfolding good_def by auto
qed

lemma trailing_rules_set:
  assumes "r \<in> set (trailing_rules s t)"
  shows "\<exists>i j. i < length s \<and> j < length t \<and> s ! i = t ! j \<and> drop (Suc i) s = drop (Suc j) t \<and>
    r = ([Shard (int i) (- 1)], [Shard (int j) (- 1)])"
proof -
  define step where "step = (\<lambda>i (rules :: rule list, stop). let inIndex = length s - 1 - i; outIndex = length t - 1 - i in
    if stop \<or> s ! inIndex \<noteq> t ! outIndex then (rules, True)
    else (rules @ [([Shard (int inIndex) (- 1)], [Shard (int outIndex) (- 1)])], stop))"
  define good where "good = (\<lambda>(r :: rule). \<exists>i j. i < length s \<and> j < length t \<and> s ! i = t ! j \<and>
    drop (Suc i) s = drop (Suc j) t \<and> r = ([Shard (int i) (- 1)], [Shard (int j) (- 1)]))"
  have "case fold step [0..<k] ([], False) of (rules, stop) \<Rightarrow>
      (\<forall>r \<in> set rules. good r) \<and> (\<not> stop \<longrightarrow> drop (length s - k) s = drop (length t - k) t)"
    if "k \<le> min (length s) (length t)" for k
    using that
  proof (induction k)
    case 0
    then show ?case by simp
  next
    case (Suc k)
    obtain rules stop where f: "fold step [0..<k] ([], False) = (rules, stop)" by fastforce
    with Suc have h: "\<forall>r \<in> set rules. good r" "\<not> stop \<longrightarrow> drop (length s - k) s = drop (length t - k) t" by simp_all
    let ?i = "length s - Suc k" and ?j = "length t - Suc k"
    have ij: "?i < length s" "?j < length t" "Suc ?i = length s - k" "Suc ?j = length t - k" using Suc.prems by auto
    then have "drop ?i s = s ! ?i # drop (length s - k) s" "drop ?j t = t ! ?j # drop (length t - k) t"
      by (metis Cons_nth_drop_Suc)+
    moreover have "good ([Shard (int ?i) (- 1)], [Shard (int ?j) (- 1)])" if "\<not> stop" "s ! ?i = t ! ?j"
      unfolding good_def using that h(2) ij by (intro exI [of _ ?i] exI [of _ ?j]) simp
    ultimately show ?case using h f by (auto simp: step_def Let_def)
  qed
  from this [of "min (length s) (length t)"] have "case fold step [0..<min (length s) (length t)] ([], False) of (rules, stop) \<Rightarrow>
      \<forall>r \<in> set rules. good r" by (auto split: prod.splits)
  moreover have "trailing_rules s t = fst (fold step [0..<min (length s) (length t)] ([], False))"
    by (simp only: trailing_rules_def step_def)
  moreover obtain rules stop where "fold step [0..<min (length s) (length t)] ([], False) = (rules, stop)" by fastforce
  ultimately have "good r" using assms by force
  then show ?thesis unfolding good_def by blast
qed

text \<open>The coordinate of the k-th entry in row-major order on axis i, and the device that holds it when the axis is
  cut into n equal pieces.\<close>

definition coord_of :: "shape \<Rightarrow> nat \<Rightarrow> int \<Rightarrow> int" where
  "coord_of s i k = k div prod_list (drop (Suc i) s) mod s ! i"

definition owner_of :: "int \<Rightarrow> shape \<Rightarrow> nat \<Rightarrow> int \<Rightarrow> int" where
  "owner_of n s i k = coord_of s i k div (s ! i div n)"

lemma owner_of_eq:
  assumes "0 < n" and "n dvd s ! i" and "i < length s" and "\<forall>v \<in> set s. 0 < v"
  shows "owner_of n s i k = k div (prod_list (drop i s) div n) mod n"
proof -
  from assms(2) obtain a where a: "s ! i = n * a" by auto
  have pos: "0 < a" using assms a by (metis nth_mem zero_less_mult_pos)
  let ?x = "prod_list (drop (Suc i) s)"
  have x: "0 < ?x" using assms(4) by (intro prod_list_pos) (auto dest: in_set_dropD)
  have "prod_list (drop i s) = n * a * ?x" using assms(3) a by (metis Cons_nth_drop_Suc prod_list.Cons)
  then have "prod_list (drop i s) div n = ?x * a" using assms(1) by simp
  moreover have "k div ?x mod (a * n) div a = k div ?x div a mod n"
    using pos assms(1) by (simp add: zmod_zmult2_eq)
  ultimately show ?thesis using assms(1) pos x a 
    by (simp add: owner_of_def coord_of_def zdiv_zmult2_eq [of a] mult.commute [of n a])
qed

text \<open>C26: the rules of reshape (and of view) keep every entry on its device: when a rule lets axis i of the input and
  axis j of the output be cut in n parts of equal size, the k-th entry in row-major order belongs to the same part on
  both sides, so that reshaping the pieces gives the pieces of the reshaped tensor.\<close>

theorem Reshape_rules_keep_entries:
  assumes "Reshape_shape e s = Inr t" and "\<forall>v \<in> set s. 0 < v" and "\<forall>v \<in> set t. 0 < v"
    and "r \<in> set (leading_rules s t @ trailing_rules s t)"
  shows "\<exists>i j. r = ([Shard (int i) (- 1)], [Shard (int j) (- 1)]) \<and> i < length s \<and> j < length t \<and>
    (\<forall>n k. 0 < n \<and> n dvd s ! i \<and> n dvd t ! j \<longrightarrow> owner_of n s i k = owner_of n t j k)"
proof -
  from assms(1) have elements: "prod_list t = prod_list s"
    by (auto simp: Reshape_shape_def bindR_eq_Inr guardR_eq_Inr split: option.splits)
  from assms(4) consider (lead) "r \<in> set (leading_rules s t)" | (trail) "r \<in> set (trailing_rules s t)" by auto
  then show ?thesis
  proof cases
    case lead
    then obtain i where i: "i < length s" "i < length t" "take i s = take i t"
      and r: "r = ([Shard (int i) (- 1)], [Shard (int i) (- 1)])" using leading_rules_set by blast
    have "prod_list (take i s) * prod_list (drop i s) = prod_list s" "prod_list (take i t) * prod_list (drop i t) = prod_list t"
      by (simp_all flip: prod_list.append)
    moreover have "0 < prod_list (take i s)" using assms(2) by (intro prod_list_pos) (auto dest: in_set_takeD)
    ultimately have "prod_list (drop i s) = prod_list (drop i t)"
      using elements i(3) by (metis less_irrefl mult_cancel_left)
    then have "owner_of n s i k = owner_of n t i k" if "0 < n" "n dvd s ! i" "n dvd t ! i" for n k
      using that i assms(2,3) by (simp add: owner_of_eq)
    with i r show ?thesis by blast
  next
    case trail
    then obtain i j where "i < length s" "j < length t" "s ! i = t ! j" "drop (Suc i) s = drop (Suc j) t"
      "r = ([Shard (int i) (- 1)], [Shard (int j) (- 1)])" using trailing_rules_set by blast
    moreover from this have "owner_of n s i k = owner_of n t j k" for n k by (simp add: owner_of_def coord_of_def)
    ultimately show ?thesis by blast
  qed
qed

theorem Reshape_rules_keep_entries_witness:
  "\<exists>i j. ([Shard 1 (- 1)], [Shard 1 (- 1)]) = ([Shard (int i) (- 1)], [Shard (int j) (- 1)]) \<and> i < 3 \<and> j < (2 :: nat) \<and>
    (\<forall>n k. 0 < n \<and> n dvd [2, 4, 3] ! i \<and> n dvd [2, 12] ! j \<longrightarrow> owner_of n [2, 4, 3] i k = owner_of n [2, 12] j k)"
proof -
  have "Reshape_shape [0, - 1] [2, 4, 3] = Inr [2, 12]" by code_simp
  moreover have "([Shard 1 (- 1)], [Shard 1 (- 1)]) \<in> set (leading_rules [2, 4, 3] [2, 12])" by code_simp
  ultimately show ?thesis
    using Reshape_rules_keep_entries [of "[0, - 1]" "[2, 4, 3]" "[2, 12]" "([Shard 1 (- 1)], [Shard 1 (- 1)])"] by simp
qed

text \<open>Pieces of different size are not reshaped into the pieces of the output: the inference accepts a tensor with an
  axis of five rows in two parts, but the local tensor has twelve entries and its share of the output ten.\<close>

lemma Reshape_uneven:
  defines "x \<equiv> Operand_of [5, 4] kFloat32 gpu_grid [Shard 0 (- 1), Replicate]"
  shows "case InferOutput 8 (Reshape_class [20]) [x] [Operand_new] of Inl _ \<Rightarrow> False
    | Inr ys \<Rightarrow> local_shape [2, 2] (oPlacementSeq x) (oShape x) [0, 0] = [3, 4] \<and>
        local_shape [2, 2] (oPlacementSeq (ys ! 0)) (oShape (ys ! 0)) [0, 0] = [10]"
  unfolding x_def by code_simp

lemma View_unchecked:
  "View_shape [5] [4] = Inr [5]" "View_shape [3, - 1] [4] = Inr [3, 1]" "View_shape [- 1, - 1] [4] = Inl Abort"
  by code_simp+

section \<open>Flatten\<close>

definition Flatten_CalculateOutputShape :: "int \<Rightarrow> int \<Rightarrow> shape \<Rightarrow> shape res" where
  "Flatten_CalculateOutputShape start stop inputShape =
     bindR (GetValidDim inputShape start) (\<lambda>startDim. bindR (GetValidDim inputShape stop) (\<lambda>endDim.
     requireR (\<not> startDim > endDim)
      (bindR (mapR (at_nat inputShape) [0..<startDim]) (\<lambda>leading.
       bindR (foldR (\<lambda>i acc. bindR (at_nat inputShape i) (\<lambda>v. Inr (acc * v))) [startDim..<Suc endDim] 1) (\<lambda>acc.
       bindR (mapR (at_nat inputShape) [Suc endDim..<NumAxis inputShape]) (\<lambda>trailing.
         Inr (leading @ [acc] @ trailing)))))))"

definition Flatten_rules :: "int \<Rightarrow> int \<Rightarrow> shape \<Rightarrow> rule list res" where
  "Flatten_rules start stop inputShape =
     bindR (GetValidDim inputShape start) (\<lambda>startDim. bindR (GetValidDim inputShape stop) (\<lambda>endDim.
       Inr (([Partial], [Partial]) #
         map (\<lambda>i. ([Shard (int i) (- 1)], [Shard (int i) (- 1)])) [0..<Suc startDim] @
         map (\<lambda>i. ([Shard (int i) (- 1)], [Shard (int (i - (endDim - startDim + 1))) (- 1)])) [Suc endDim..<NumAxis inputShape])))"

definition Flatten_class :: "int \<Rightarrow> int \<Rightarrow> op_class" where
  "Flatten_class start stop = unary_class (Flatten_CalculateOutputShape start stop) (Flatten_rules start stop)"

lemma upt_bound: "(\<forall>k \<in> set [i..<j]. k < n) \<longleftrightarrow> (i < j \<longrightarrow> j \<le> n)"
proof
  assume h: "\<forall>k \<in> set [i..<j]. k < n"
  show "i < j \<longrightarrow> j \<le> n"
  proof
    assume ij: "i < j"
    then have "j - 1 \<in> set [i..<j]" by auto
    with h have "j - 1 < n" by blast
    with ij show "j \<le> n" by simp
  qed
qed auto

lemma map_nth_upt: "i < j \<longrightarrow> j \<le> length s \<Longrightarrow> map ((!) s) [i..<j] = take (j - i) (drop i s)"
  by (rule nth_equalityI) auto

lemma mapR_at_nat_list: "mapR (at_nat s) is = Inr v \<longleftrightarrow> (\<forall>k \<in> set is. k < length s) \<and> v = map ((!) s) is"
  by (induction "is" arbitrary: v) (auto simp: bindR_eq_Inr at_nat_eq_Inr)

lemma foldR_at_nat_list:
  "foldR (\<lambda>i acc. bindR (at_nat s i) (\<lambda>v. Inr (acc * v))) is a = Inr r \<longleftrightarrow>
     (\<forall>k \<in> set is. k < length s) \<and> r = a * prod_list (map ((!) s) is)"
  by (induction "is" arbitrary: a) (auto simp: bindR_eq_Inr at_nat_eq_Inr ac_simps)

lemma mapR_at_nat: "mapR (at_nat s) [i..<j] = Inr v \<longleftrightarrow> (i < j \<longrightarrow> j \<le> length s) \<and> v = take (j - i) (drop i s)"
  unfolding mapR_at_nat_list upt_bound using map_nth_upt [of i j s] by auto

lemma foldR_at_nat:
  "foldR (\<lambda>i acc. bindR (at_nat s i) (\<lambda>v. Inr (acc * v))) [i..<j] a = Inr r \<longleftrightarrow>
     (i < j \<longrightarrow> j \<le> length s) \<and> r = a * prod_list (take (j - i) (drop i s))"
  unfolding foldR_at_nat_list upt_bound using map_nth_upt [of i j s] by auto

lemma Flatten_shape_Inr:
  "Flatten_CalculateOutputShape start stop s = Inr t \<longleftrightarrow>
     (let sd = axis_of (length s) start; ed = axis_of (length s) stop in
      - int (length s) \<le> start \<and> start \<le> int (length s) \<and> - int (length s) \<le> stop \<and> stop \<le> int (length s) \<and>
      sd \<le> ed \<and> ed < length s \<and> t = take sd s @ [prod_list (take (Suc ed - sd) (drop sd s))] @ drop (Suc ed) s)"
  by (auto simp: Flatten_CalculateOutputShape_def bindR_eq_Inr guardR_eq_Inr GetValidDim_Inr mapR_at_nat foldR_at_nat Let_def
      simp del: upt_Suc)

text \<open>The rules place a trailing axis one axis too far to the left.\<close>

lemma Flatten_trailing_axis:
  assumes "Flatten_CalculateOutputShape start stop s = Inr t" and "i < length s" and "axis_of (length s) stop < i"
  shows "t ! (i - (axis_of (length s) stop - axis_of (length s) start)) = s ! i"
  using assms by (auto simp: Flatten_shape_Inr Let_def nth_append min_def)

lemma Flatten_trailing_unsound:
  "case InferOutput 8 (Flatten_class 0 1) [Operand_of [2, 3, 4] kFloat32 gpu_grid [Shard 2 (- 1), Replicate]] [Operand_new] of
     Inl _ \<Rightarrow> False | Inr ys \<Rightarrow> oPlacementSeq (ys ! 0) = [Shard 0 (- 1), Replicate] \<and> oShape (ys ! 0) = [6, 4]"
  "Flatten_CalculateOutputShape 0 1 (local_shape [2, 2] [Shard 2 (- 1), Replicate] [2, 3, 4] [0, 0]) = Inr [6, 2]"
  "local_shape [2, 2] [Shard 0 (- 1), Replicate] [6, 4] [0, 0] = [3, 4]"
  by code_simp+

end
