(* ===== verification/PointOps.thy ===== *)
theory PointOps
  imports MultiOps Complex_Main
begin

text \<open>
  Pointwise operators and operators that take over the meta data of their first input, in
  src/dtorch/core/operators/: standard/activation_op, base_math_op, clamp_op, where_op, masked_op, dropout_op, clone_op,
  contiguous_op, copy_op and system/get_tensor_op.  Most of them skip the placement signature
  (\<open>SkipDistributedSpecFromPlacementSignature\<close> is true), so that the output keeps the placements of the first input.
  A \<open>double\<close> is a rational number, an infinity or not a number, with the comparisons of IEEE 754.
\<close>

section \<open>Doubles\<close>

datatype double = Double rat | PosInf | NegInf | NaN

fun double_less :: "double \<Rightarrow> double \<Rightarrow> bool" where
  "double_less (Double a) (Double b) \<longleftrightarrow> a < b"
| "double_less NegInf b \<longleftrightarrow> b \<noteq> NegInf \<and> b \<noteq> NaN"
| "double_less a PosInf \<longleftrightarrow> a \<noteq> PosInf \<and> a \<noteq> NaN"
| "double_less a b \<longleftrightarrow> False"

definition double_le :: "double \<Rightarrow> double \<Rightarrow> bool" where
  "double_le a b \<longleftrightarrow> double_less a b \<or> a = b \<and> a \<noteq> NaN"

section \<open>Operators that keep the layout of their first input\<close>

text \<open>\<open>OperandY()->MetaDataSameAs(OperandX())\<close>, and a class that skips the placement signature.\<close>

definition SameMeta :: "operand list \<Rightarrow> operand list \<Rightarrow> operand list res" where
  "SameMeta inputs outputs = bindR (OperandAt inputs 0) (\<lambda>x. UpdateOutput 0 (MetaDataSameAs x) outputs)"

definition keep_class :: "bool \<Rightarrow> (operand list \<Rightarrow> unit res) \<Rightarrow> (operand list \<Rightarrow> operand list \<Rightarrow> operand list res) \<Rightarrow> op_class" where
  "keep_class sameDataKind check meta = \<lparr>vIsRequireInputSameDataKind = sameDataKind, vCheckInput = check, vInferOutputSize = 1,
     vInferOutputMetaInfo = meta, vSkipDistributedSpec = (\<lambda>_. Inr True),
     vGetPlacementSignature = default_GetPlacementSignature, vKeepSubSplitCoordinates = True\<rparr>"

lemma keep_class_InferOutput:
  assumes "InferOutput gpus (keep_class same check meta) inputs outputs = Inr outs"
  shows "CheckInput gpus (keep_class same check meta) inputs = Inr () \<and> check inputs = Inr () \<and> meta inputs outputs = Inr outs"
  using assms by (auto simp: InferOutput_def keep_class_def guardR_eq_Inr bindR_eq_Inr)

subsection \<open>Activations\<close>

datatype ActivationType = kReLU | kSigmoid | kLeakyRelu | kELU | kGELU | kSiLU | ActivationType_kCount

record ActivationParam =
  activationType :: ActivationType
  act_inplace :: bool
  act_alpha :: double
  act_beta :: double
  act_approximate :: string

definition Activation_CheckInput :: "ActivationParam \<Rightarrow> operand list \<Rightarrow> unit res" where
  "Activation_CheckInput param inputs =
     assertR (length inputs = 1)
      (bindR (OperandAt inputs 0) (\<lambda>x.
        requireR (\<not> (Operand_IsDistributed x \<and> HasPartial (oPlacementSeq x)))
         (requireR (\<not> (DataKindIsInteger (oDataKind x) \<and> activationType param \<noteq> kReLU))
           (if activationType param = kGELU
            then requireR (\<not> (act_approximate param \<noteq> [] \<and> act_approximate param \<noteq> ''tanh'' \<and> act_approximate param \<noteq> ''none'')) (Inr ())
            else Inr ()))))"

definition Activation_class :: "ActivationParam \<Rightarrow> op_class" where
  "Activation_class param = keep_class True (Activation_CheckInput param) SameMeta"

subsection \<open>Elementary functions\<close>

datatype BaseMathType = kExp | kSquare | kRsqrt | kAbs | kRound | kFloor | kCos | kSin | kAsin | kTanh | kNeg | kReciprocal
  | kLog | kLog2 | kLog10 | kIsInf | kIsNan | BaseMathType_kCount

definition BaseMath_InferOutputMetaInfo :: "BaseMathType \<Rightarrow> operand list \<Rightarrow> operand list \<Rightarrow> operand list res" where
  "BaseMath_InferOutputMetaInfo baseMathType inputs outputs =
     assertR (length inputs \<ge> 1 \<and> length outputs = 1)
      (bindR (SameMeta inputs outputs) (\<lambda>outputs.
         if baseMathType \<in> {kIsInf, kIsNan} then UpdateOutput 0 (SetDataKind kBool) outputs else Inr outputs))"

definition BaseMath_class :: "BaseMathType \<Rightarrow> op_class" where
  "BaseMath_class baseMathType = keep_class True (\<lambda>_. Inr ()) (BaseMath_InferOutputMetaInfo baseMathType)"

subsection \<open>Clone and contiguous\<close>

definition Clone_InferOutputMetaInfo :: "operand list \<Rightarrow> operand list \<Rightarrow> operand list res" where
  "Clone_InferOutputMetaInfo inputs outputs = assertR (length inputs = 1) (SameMeta inputs outputs)"

definition Clone_class :: op_class where
  "Clone_class = keep_class True (\<lambda>_. Inr ()) Clone_InferOutputMetaInfo"

definition Contiguous_InferOutputMetaInfo :: "operand list \<Rightarrow> operand list \<Rightarrow> operand list res" where
  "Contiguous_InferOutputMetaInfo inputs outputs = assertR (length inputs = 1) (SameMeta inputs outputs)"

definition Contiguous_class :: op_class where
  "Contiguous_class = keep_class True (\<lambda>_. Inr ()) Contiguous_InferOutputMetaInfo"

subsection \<open>Clamp\<close>

record ClampParam =
  clamp_min :: "double option"
  clamp_max :: "double option"

definition Clamp_InferOutputMetaInfo :: "ClampParam \<Rightarrow> operand list \<Rightarrow> operand list \<Rightarrow> operand list res" where
  "Clamp_InferOutputMetaInfo param inputs outputs =
     assertR (length inputs = 3)
      (bindR (OperandAt inputs 0) (\<lambda>x. bindR (OperandAt inputs 1) (\<lambda>lo. bindR (OperandAt inputs 2) (\<lambda>hi.
       let scalars = (clamp_min param \<noteq> None \<or> clamp_max param \<noteq> None);
           noLo = Operand_IsNullTensorShape lo; noHi = Operand_IsNullTensorShape hi in
       assertR (scalars \<longrightarrow> noLo \<and> noHi)
        (assertR (\<not> noLo \<or> \<not> noHi \<longrightarrow> \<not> scalars)
         (bindR (if \<not> noLo then
              assertR (\<not> noHi)
               (requireR (\<not> \<not> CanBroadcastWith (oShape x) (oShape lo))
                 (requireR (\<not> \<not> CanBroadcastWith (oShape x) (oShape hi)) (Inr ())))
            else Inr ()) (\<lambda>_. UpdateOutput 0 (MetaDataSameAs x) outputs)))))))"

definition Clamp_class :: "ClampParam \<Rightarrow> op_class" where
  "Clamp_class param = keep_class False (\<lambda>_. Inr ()) (Clamp_InferOutputMetaInfo param)"

subsection \<open>Masked fill and masked scatter\<close>

datatype MaskedType = kMaskedFill | kMaskedScatter

definition Masked_InferOutputMetaInfo :: "MaskedType \<Rightarrow> operand list \<Rightarrow> operand list \<Rightarrow> operand list res" where
  "Masked_InferOutputMetaInfo maskedType inputs outputs =
     assertR (length inputs = (case maskedType of kMaskedFill \<Rightarrow> 2 | kMaskedScatter \<Rightarrow> 3))
      (bindR (OperandAt inputs 0) (\<lambda>x. bindR (OperandAt inputs 1) (\<lambda>mask.
       requireR (\<not> oDataKind mask \<noteq> kBool)
        (requireR (\<not> \<not> CanBroadcastWith (oShape x) (oShape mask))
          (bindR (BroadcastOutputShape (oShape x) (oShape mask)) (\<lambda>outputShape.
            UpdateOutput 0 (\<lambda>y. SetDataKind (oDataKind x) (SetShapeAndStride outputShape [] (MetaDataSameAs x y))) outputs))))))"

definition Masked_GetPlacementSignature :: "MaskedType \<Rightarrow> operand list \<Rightarrow> operand list \<Rightarrow> PlacementSignature res" where
  "Masked_GetPlacementSignature maskedType inputs outputs =
     Builder_Finish (Builder_new (case maskedType of kMaskedFill \<Rightarrow> 2 | kMaskedScatter \<Rightarrow> 3) (length outputs))"

definition Masked_class :: "MaskedType \<Rightarrow> op_class" where
  "Masked_class maskedType = (keep_class False (\<lambda>_. Inr ()) (Masked_InferOutputMetaInfo maskedType))
     \<lparr>vGetPlacementSignature := Masked_GetPlacementSignature maskedType\<rparr>"

section \<open>Where\<close>

record WhereParam =
  where_input :: "double option"
  where_other :: "double option"

text \<open>One of the two branches: a tensor widens the shape and sets the data kind, a scalar leaves them.\<close>

definition Where_branch :: "double option \<Rightarrow> operand \<Rightarrow> shape \<times> DataKind \<Rightarrow> (shape \<times> DataKind) res" where
  "Where_branch scalar b = (\<lambda>(outputShape, outputDataKind).
     if \<not> Operand_IsNullTensorShape b then
       assertR (scalar = None)
        (requireR (\<not> \<not> CanBroadcastWith outputShape (oShape b))
          (bindR (BroadcastOutputShape outputShape (oShape b)) (\<lambda>outputShape. Inr (outputShape, oDataKind b))))
     else assertR (scalar \<noteq> None) (Inr (outputShape, outputDataKind)))"

definition Where_InferOutputMetaInfo :: "WhereParam \<Rightarrow> operand list \<Rightarrow> operand list \<Rightarrow> operand list res" where
  "Where_InferOutputMetaInfo param inputs outputs =
     assertR (length inputs = 3)
      (bindR (OperandAt inputs 0) (\<lambda>condition. bindR (OperandAt inputs 1) (\<lambda>b. bindR (OperandAt inputs 2) (\<lambda>c.
       requireR (\<not> oDataKind condition \<noteq> kBool)
        (bindR (Where_branch (where_input param) b (oShape condition, kFloat32)) (\<lambda>acc.
         bindR (Where_branch (where_other param) c acc) (\<lambda>(outputShape, outputDataKind).
           UpdateOutput 0 (\<lambda>y. SetDataKind outputDataKind (SetShapeAndStride outputShape [] (MetaDataSameAs condition y))) outputs)))))))"

definition Where_GetPlacementSignature :: "operand list \<Rightarrow> operand list \<Rightarrow> PlacementSignature res" where
  "Where_GetPlacementSignature inputs outputs =
     assertR (length inputs = 3) (Builder_Finish (Builder_new (length inputs) (length outputs)))"

definition Where_class :: "WhereParam \<Rightarrow> op_class" where
  "Where_class param = \<lparr>vIsRequireInputSameDataKind = False, vCheckInput = (\<lambda>_. Inr ()), vInferOutputSize = 1,
     vInferOutputMetaInfo = Where_InferOutputMetaInfo param, vSkipDistributedSpec = SkipDistributedSpecFromPlacementSignature,
     vGetPlacementSignature = Where_GetPlacementSignature, vKeepSubSplitCoordinates = True\<rparr>"

section \<open>Dropout\<close>

definition Dropout_InferOutputMetaInfo :: "double \<Rightarrow> operand list \<Rightarrow> operand list \<Rightarrow> operand list res" where
  "Dropout_InferOutputMetaInfo probability inputs outputs =
     assertR (length inputs = 1)
      (assertR (length outputs = 1 \<or> length outputs = 2)
        (requireR (\<not> (double_less probability (Double 0) \<or> double_le (Double 1) probability))
          (SameMeta inputs outputs)))"

definition Dropout_class :: "double \<Rightarrow> op_class" where
  "Dropout_class probability = \<lparr>vIsRequireInputSameDataKind = True, vCheckInput = (\<lambda>_. Inr ()), vInferOutputSize = 1,
     vInferOutputMetaInfo = Dropout_InferOutputMetaInfo probability,
     vSkipDistributedSpec = SkipDistributedSpecFromPlacementSignature,
     vGetPlacementSignature = default_GetPlacementSignature, vKeepSubSplitCoordinates = True\<rparr>"

section \<open>Operators without output\<close>

text \<open>Copy has its own check of the inputs and leaves out the last step of the inference; the override of
  get_tensor checks only that the tensor is local.  The log message of a wrong number of outputs is fatal.\<close>

definition Copy_CheckInput :: "int \<Rightarrow> operand list \<Rightarrow> unit res" where
  "Copy_CheckInput totalGpuCount inputs =
     bindR (CheckInputAllDistributedOrNot inputs) (\<lambda>_. CheckInputDistributedSpec totalGpuCount inputs)"

definition Copy_InferOutputMetaInfo :: "operand list \<Rightarrow> operand list \<Rightarrow> unit res" where
  "Copy_InferOutputMetaInfo inputs outputs =
     assertR (length inputs = 2)
      (assertR (length outputs = 0)
       (let a = inputs ! 0; b = inputs ! 1 in
        assertR (oShape a = oShape b)
         (assertR (Operand_IsDistributed a = Operand_IsDistributed b)
          (if Operand_IsDistributed a then
             bindR (DeviceMesh_eq (oDeviceMesh a) (oDeviceMesh b)) (\<lambda>same. assertR same
              (assertR (oPlacementSeq a = oPlacementSeq b) (Inr ())))
           else Inr ()))))"

definition Copy_InferOutput :: "int \<Rightarrow> operand list \<Rightarrow> operand list \<Rightarrow> operand list res" where
  "Copy_InferOutput totalGpuCount inputs outputs =
     assertR (\<not> length outputs \<noteq> 0)
      (bindR (Copy_CheckInput totalGpuCount inputs) (\<lambda>_.
       bindR (Copy_InferOutputMetaInfo inputs outputs) (\<lambda>_.
       bindR (SkipDistributedSpecFromPlacementSignature inputs) (\<lambda>_. Inr outputs))))"

definition GetTensor_CheckInput :: "operand list \<Rightarrow> unit res" where
  "GetTensor_CheckInput inputs =
     assertR (length inputs = 1) (requireR (\<not> Operand_IsDistributed (inputs ! 0)) (Inr ()))"

definition GetTensor_InferOutput :: "operand list \<Rightarrow> operand list \<Rightarrow> operand list res" where
  "GetTensor_InferOutput inputs outputs =
     assertR (\<not> length outputs \<noteq> 0) (bindR (GetTensor_CheckInput inputs) (\<lambda>_. Inr outputs))"

section \<open>What the operators guarantee\<close>

lemma SameMeta_eq [simp]: "SameMeta [x] [y0] = Inr [MetaDataSameAs x y0]"
  by (simp add: SameMeta_def OperandAt_def UpdateOutput_def)

lemma SameMeta_Inr: "SameMeta [x] [y0] = Inr ys \<longleftrightarrow> ys = [MetaDataSameAs x y0]"
  by (auto simp: SameMeta_def OperandAt_def UpdateOutput_def)

text \<open>An activation is applied piece by piece only where that is the activation of the tensor: after a successful
  inference the output has the shape, the data kind and the layout of the input, a distributed input holds no partial sum,
  and integers only go into ReLU.\<close>

theorem Activation_sound:
  assumes "InferOutput gpus (Activation_class param) [x] [Operand_new] = Inr ys"
  shows "ys = [MetaDataSameAs x Operand_new] \<and> (Operand_IsDistributed x \<longrightarrow> (\<forall>p \<in> set (oPlacementSeq x). \<not> IsPartial p)) \<and>
    (DataKindIsInteger (oDataKind x) \<longrightarrow> activationType param = kReLU) \<and>
    CheckValid (oShape x) (oDeviceMesh x) (oPlacementSeq x) gpus = Inr True"
proof -
  from keep_class_InferOutput [OF assms [unfolded Activation_class_def]]
  have c: "CheckInput gpus (keep_class True (Activation_CheckInput param) SameMeta) [x] = Inr ()"
    "Activation_CheckInput param [x] = Inr ()" "SameMeta [x] [Operand_new] = Inr ys" by auto
  from c(1) have "CheckValid (oShape x) (oDeviceMesh x) (oPlacementSeq x) gpus = Inr True" by (simp add: CheckInput_iff)
  with c(2,3) show ?thesis
    by (auto simp: SameMeta_Inr Activation_CheckInput_def OperandAt_def bindR_eq_Inr guardR_eq_Inr HasPartial_iff)
qed

definition relu_param :: ActivationParam where
  "relu_param = \<lparr>activationType = kReLU, act_inplace = False, act_alpha = Double 0, act_beta = Double 0, act_approximate = []\<rparr>"

theorem Activation_sound_witness:
  "\<exists>ys. InferOutput 8 (Activation_class relu_param) [grid_operand] [Operand_new] = Inr ys \<and> ys = [MetaDataSameAs grid_operand Operand_new]"
proof -
  have "Activation_CheckInput relu_param [grid_operand] = Inr ()"
    by (simp add: Activation_CheckInput_def OperandAt_def relu_param_def HasPartial_iff)
  then have "InferOutput 8 (Activation_class relu_param) [grid_operand] [Operand_new] = Inr [MetaDataSameAs grid_operand Operand_new]"
    by (simp add: InferOutput_def Activation_class_def keep_class_def grid_checked)
  with Activation_sound [OF this] show ?thesis by blast
qed

text \<open>A layout that is a partial sum is refused by activations and accepted by every elementary function, also by
  those that do not commute with sums.\<close>

definition partial_operand :: operand where
  "partial_operand = Operand_of [6, 4] kFloat32 gpu_grid [Partial, Replicate]"

lemma Activation_refuses_partial:
  "case InferOutput 8 (Activation_class relu_param) [partial_operand] [Operand_new] of Inl e \<Rightarrow> e = InvalidArgument | Inr _ \<Rightarrow> False"
  by code_simp

lemma BaseMath_accepts_partial:
  "case InferOutput 8 (BaseMath_class kSquare) [partial_operand] [Operand_new] of
     Inl _ \<Rightarrow> False | Inr ys \<Rightarrow> map oPlacementSeq ys = [[Partial, Replicate]]"
  "(1 + 2 :: int) ^ 2 \<noteq> 1 ^ 2 + 2 ^ 2"
  by code_simp simp

text \<open>The mask may add axes in front; the output keeps the placements of the input, which then cut other axes.\<close>

lemma Masked_adds_axes:
  defines "x \<equiv> Operand_of [4] kFloat32 gpu_grid [Shard 0 (- 1), Replicate]"
    and "maskOp \<equiv> Operand_of [3, 1] kBool gpu_grid [Replicate, Replicate]"
  shows "case InferOutput 8 (Masked_class kMaskedFill) [x, maskOp] [Operand_new] of
      Inl _ \<Rightarrow> False
    | Inr ys \<Rightarrow> oShape (ys ! 0) = [3, 4] \<and> oPlacementSeq (ys ! 0) = [Shard 0 (- 1), Replicate] \<and>
        local_shape [2, 2] (oPlacementSeq (ys ! 0)) (oShape (ys ! 0)) [0, 0] = [2, 4] \<and>
        BroadcastOutputShape (local_shape [2, 2] (oPlacementSeq x) (oShape x) [0, 0]) [3, 1] = Inr [3, 2]"
  unfolding x_def maskOp_def by code_simp

text \<open>The placements of the mask and of tensor bounds are not looked at: a whole mask meets a piece of the input.\<close>

lemma Masked_mask_not_cut:
  defines "x \<equiv> Operand_of [4] kFloat32 gpu_grid [Shard 0 (- 1), Replicate]"
    and "maskOp \<equiv> Operand_of [4] kBool gpu_grid [Replicate, Replicate]"
  shows "\<not> isl (InferOutput 8 (Masked_class kMaskedFill) [x, maskOp] [Operand_new])"
    and "\<not> CanBroadcastWith (local_shape [2, 2] (oPlacementSeq x) (oShape x) [0, 0]) (local_shape [2, 2] (oPlacementSeq maskOp) (oShape maskOp) [0, 0])"
  unfolding x_def maskOp_def by code_simp+

lemma Clamp_bounds_not_cut:
  defines "x \<equiv> Operand_of [4] kFloat32 gpu_grid [Shard 0 (- 1), Replicate]"
    and "bound \<equiv> Operand_of [4] kFloat32 gpu_grid [Replicate, Replicate]"
  shows "\<not> isl (InferOutput 8 (Clamp_class \<lparr>clamp_min = None, clamp_max = None\<rparr>) [x, bound, bound] [Operand_new])"
    and "\<not> CanBroadcastWith (local_shape [2, 2] (oPlacementSeq x) (oShape x) [0, 0]) (local_shape [2, 2] (oPlacementSeq bound) (oShape bound) [0, 0])"
  unfolding x_def bound_def by code_simp+

text \<open>The data kind of \<open>where\<close> is the one of the last tensor, also when the other branch is wider.\<close>

lemma Where_kind_of_other:
  "case InferOutput 8 (Where_class \<lparr>where_input = None, where_other = None\<rparr>)
      [Operand_of [2] kBool default_mesh [Replicate], Operand_of [2] kFloat32 default_mesh [Replicate],
       Operand_of [2] kInt64 default_mesh [Replicate]] [Operand_new] of
     Inl _ \<Rightarrow> False | Inr ys \<Rightarrow> oDataKind (ys ! 0) = kInt64"
  "DataKindPromote [kFloat32, kInt64] = Inr kFloat32"
  by code_simp+

lemma Dropout_accepts_NaN: "\<not> isl (Dropout_InferOutputMetaInfo NaN [partial_operand] [Operand_new])"
  by code_simp

lemma Dropout_range:
  assumes "Dropout_InferOutputMetaInfo probability inputs outputs = Inr ys" and "probability \<noteq> NaN"
  shows "\<exists>p. probability = Double p \<and> 0 \<le> p \<and> p < 1"
  using assms by (cases probability) (auto simp: Dropout_InferOutputMetaInfo_def guardR_eq_Inr double_le_def)

text \<open>Copy wants equal shapes, meshes and placements.\<close>

lemma Copy_InferOutput_sound:
  assumes "Copy_InferOutput gpus [a, b] outputs = Inr ys"
  shows "outputs = [] \<and> oShape a = oShape b \<and> (Operand_IsDistributed a \<longrightarrow> oPlacementSeq a = oPlacementSeq b)"
  using assms by (auto simp: Copy_InferOutput_def Copy_InferOutputMetaInfo_def Let_def guardR_eq_Inr bindR_eq_Inr split: if_splits)

end
