(* ===== verification/ConvOps.thy ===== *)
theory ConvOps
  imports PointOps "HOL-Library.Log_Nat"
begin

text \<open>
  Operators on images and their parameters, in src/dtorch/core/operators/: operator_param (the helpers of
  \<open>OpParamUtil\<close>), standard/conv_op, pooling_op, interpolate_op, batch_norm_op, normalization_op and
  scaled_dot_product_attention_op.  The quotients of the code are truncating divisions of 64-bit integers.
\<close>

section \<open>Parameters for two dimensions\<close>

text \<open>\<open>static_cast<int>\<close> of a 64-bit integer keeps its 32 low bits.\<close>

definition cast_int :: "int \<Rightarrow> int" where
  "cast_int v = signed_take_bit 31 v"

definition IntOrIntArrayTo2DParam :: "int list \<Rightarrow> int list res" where
  "IntOrIntArrayTo2DParam intArray =
     (if length intArray = 1 then Inr [cast_int (intArray ! 0), cast_int (intArray ! 0)]
      else if length intArray = 2 then Inr [cast_int (intArray ! 0), cast_int (intArray ! 1)]
      else Inl InvalidArgument)"

definition IntOrIntArrayTo2DPad :: "int list \<Rightarrow> int list res" where
  "IntOrIntArrayTo2DPad intArray =
     (if length intArray = 1 then Inr (replicate 4 (cast_int (intArray ! 0)))
      else if length intArray = 2 then
        Inr [cast_int (intArray ! 0), cast_int (intArray ! 1), cast_int (intArray ! 0), cast_int (intArray ! 1)]
      else if length intArray = 4 then Inr intArray
      else Inl InvalidArgument)"

definition IsPadEmptyOrZero :: "int list \<Rightarrow> bool" where
  "IsPadEmptyOrZero pads = (if pads = [] then True else list_all (\<lambda>it. \<not> it \<noteq> 0) pads)"

text \<open>The checks both constructors make of the padding.\<close>

definition CheckPads :: "PaddingType \<Rightarrow> int list \<Rightarrow> unit res" where
  "CheckPads paddingType pads =
     (if paddingType = kNotSet \<and> pads = [] then Inl InvalidArgument
      else if (paddingType = kSame \<or> paddingType = kValid) \<and> \<not> IsPadEmptyOrZero pads then Inl InvalidArgument
      else if \<not> IsPadEmptyOrZero pads \<and> length pads \<noteq> 4 then Inl InvalidArgument
      else Inr ())"

lemma IntOrIntArrayTo2DParam_length: "IntOrIntArrayTo2DParam v = Inr w \<Longrightarrow> length w = 2"
  by (auto simp: IntOrIntArrayTo2DParam_def split: if_splits)

lemma IntOrIntArrayTo2DPad_length: "IntOrIntArrayTo2DPad v = Inr w \<Longrightarrow> length w = 4"
  by (auto simp: IntOrIntArrayTo2DPad_def split: if_splits)

lemma cast_int_small: "- (2 ^ 31) \<le> v \<Longrightarrow> v < 2 ^ 31 \<Longrightarrow> cast_int v = v"
  by (simp add: cast_int_def signed_take_bit_int_eq_self)

text \<open>Large values wrap in arrays of one or two entries, but not in pads of four.\<close>

lemma cast_int_wraps: "IntOrIntArrayTo2DParam [2 ^ 32 + 1] = Inr [1, 1]" "IntOrIntArrayTo2DPad [2 ^ 32 + 1, 0, 0, 0] = Inr [2 ^ 32 + 1, 0, 0, 0]"
  by code_simp+

section \<open>Convolution\<close>

record ConvParam =
  conv_dilations :: "int list"
  conv_group :: int
  conv_kernelSize :: "int list"
  conv_paddingType :: PaddingType
  conv_pads :: "int list"
  conv_strides :: "int list"
  conv_format :: OperatorFormat

definition ConvParam_new :: "int list \<Rightarrow> int \<Rightarrow> int list \<Rightarrow> PaddingType \<Rightarrow> int list \<Rightarrow> int list \<Rightarrow> OperatorFormat \<Rightarrow> ConvParam res" where
  "ConvParam_new dilations grp kernelSize paddingType pads strides format =
     bindR (IntOrIntArrayTo2DParam dilations) (\<lambda>dilations.
     bindR (IntOrIntArrayTo2DParam kernelSize) (\<lambda>kernelSize.
     bindR (IntOrIntArrayTo2DPad pads) (\<lambda>pads.
     bindR (IntOrIntArrayTo2DParam strides) (\<lambda>strides.
     bindR (CheckPads paddingType pads) (\<lambda>_.
       Inr \<lparr>conv_dilations = dilations, conv_group = grp, conv_kernelSize = kernelSize, conv_paddingType = paddingType,
         conv_pads = pads, conv_strides = strides, conv_format = format\<rparr>)))))"

definition CalculateConvOutput :: "int \<Rightarrow> int \<Rightarrow> int \<Rightarrow> int \<Rightarrow> int \<Rightarrow> int \<Rightarrow> int res" where
  "CalculateConvOutput input ker dilation stride padBefore padAfter =
     assertR (ker > 0) (assertR (dilation > 0) (assertR (stride > 0)
      (let kernelExtent = (ker - 1) * dilation in
       bindR (quotR (input + padBefore + padAfter - kernelExtent - 1) stride) (\<lambda>q.
         assertR (q + 1 > 0) (Inr (q + 1))))))"

definition CalculateConvOutputForSamePad :: "int \<Rightarrow> int \<Rightarrow> int res" where
  "CalculateConvOutputForSamePad input stride = assertR (stride > 0) (quotR (input + stride - 1) stride)"

definition CalculatePadBeforeForSamePad :: "int \<Rightarrow> int \<Rightarrow> int \<Rightarrow> int \<Rightarrow> int \<Rightarrow> int" where
  "CalculatePadBeforeForSamePad input output ker dilation stride =
     (let kernelExtent = (ker - 1) * dilation;
          paddingNeeded = (output - 1) * stride + kernelExtent + 1 - input;
          paddingNeeded = (if paddingNeeded < 0 then 0 else paddingNeeded) in
      quot paddingNeeded 2)"

text \<open>The two spatial sizes of the output, the parameters having the lengths the constructor gives them.\<close>

definition Conv_spatial :: "ConvParam \<Rightarrow> int \<Rightarrow> int \<Rightarrow> (int \<times> int) res" where
  "Conv_spatial param inH inW =
     (let k = conv_kernelSize param; d = conv_dilations param; s = conv_strides param; p = conv_pads param in
      case conv_paddingType param of
        kNotSet \<Rightarrow>
          bindR (CalculateConvOutput inH (k ! 0) (d ! 0) (s ! 0) (p ! 0) (p ! 2)) (\<lambda>outH.
          bindR (CalculateConvOutput inW (k ! 1) (d ! 1) (s ! 1) (p ! 1) (p ! 3)) (\<lambda>outW. Inr (outH, outW)))
      | kValid \<Rightarrow>
          bindR (CalculateConvOutput inH (k ! 0) (d ! 0) (s ! 0) 0 0) (\<lambda>outH.
          bindR (CalculateConvOutput inW (k ! 1) (d ! 1) (s ! 1) 0 0) (\<lambda>outW. Inr (outH, outW)))
      | kSame \<Rightarrow>
          bindR (CalculateConvOutputForSamePad inH (s ! 0)) (\<lambda>outH.
          bindR (CalculateConvOutputForSamePad inW (s ! 1)) (\<lambda>outW. Inr (outH, outW)))
      | PaddingType_kCount \<Rightarrow> Inl Abort)"

definition channel_last :: "OperatorFormat \<Rightarrow> bool" where
  "channel_last format \<longleftrightarrow> format = kNHWC"

definition image_shape :: "OperatorFormat \<Rightarrow> int \<Rightarrow> int \<Rightarrow> int \<Rightarrow> int \<Rightarrow> shape" where
  "image_shape format n c h w = (if channel_last format then [n, h, w, c] else [n, c, h, w])"

text \<open>The checks of the groups, of the weight and of the bias, after the output has been computed.\<close>

definition Conv_CheckWeight :: "ConvParam \<Rightarrow> int \<Rightarrow> shape \<Rightarrow> operand \<Rightarrow> unit res" where
  "Conv_CheckWeight param inC weightShape bias =
     (let outC = weightShape ! 0; grp = conv_group param in
      assertR (grp > 0) (assertR (grp \<le> outC) (assertR (outC - grp * quot outC grp = 0) (assertR (inC - grp * quot inC grp = 0)
       (let weightInC = (if grp \<noteq> 1 then quot inC grp else inC) in
        requireR (\<not> (weightShape ! 1 \<noteq> weightInC \<or> weightShape ! 2 \<noteq> conv_kernelSize param ! 0 \<or>
            weightShape ! 3 \<noteq> conv_kernelSize param ! 1))
         (requireR (Operand_IsNullTensorShape bias \<or> \<not> (NumAxis (oShape bias) \<noteq> 1 \<or> oShape bias ! 0 \<noteq> outC))
           (Inr ())))))))"

definition Conv_InferOutputMetaInfo :: "ConvParam \<Rightarrow> operand list \<Rightarrow> operand list \<Rightarrow> operand list res" where
  "Conv_InferOutputMetaInfo param inputs outputs =
     assertR (length inputs = 3)
      (let x = inputs ! 0; bias = inputs ! 2; inShape = oShape x; weightShape = oShape (inputs ! 1);
           last = channel_last (conv_format param) in
       assertR (NumAxis inShape = 4) (assertR (NumAxis weightShape = 4)
        (bindR (Conv_spatial param (if last then inShape ! 1 else inShape ! 2) (if last then inShape ! 2 else inShape ! 3))
          (\<lambda>(outH, outW).
         bindR (Conv_CheckWeight param (if last then inShape ! 3 else inShape ! 1) weightShape bias) (\<lambda>_.
           UpdateOutput 0 (\<lambda>y. SetShapeAndStride (image_shape (conv_format param) (inShape ! 0) (weightShape ! 0) outH outW) []
             (MetaDataSameAs x y)) outputs)))))"

definition AddConvRule :: "int \<Rightarrow> sig_builder \<Rightarrow> sig_builder res" where
  "AddConvRule axis b =
     Builder_Build (AddOutput (Shard axis (- 1)) (AddOptionalInput Replicate (AddInput Replicate (AddInput (Shard axis (- 1)) b))))"

definition Conv_GetPlacementSignature :: "ConvParam \<Rightarrow> operand list \<Rightarrow> operand list \<Rightarrow> PlacementSignature res" where
  "Conv_GetPlacementSignature param inputs outputs =
     assertR (length inputs = 3)
      (bindR (OperandAt inputs 0) (\<lambda>x. assertR (NumAxis (oShape x) = 4)
       (let flat = (conv_pads param ! 0 = 0 \<and> conv_pads param ! 1 = 0 \<and> conv_dilations param ! 0 = 1 \<and> conv_dilations param ! 1 = 1);
            axes = [0] @ (if flat \<and> conv_kernelSize param ! 0 = conv_strides param ! 0 then [2] else []) @
              (if flat \<and> conv_kernelSize param ! 1 = conv_strides param ! 1 then [3] else []) in
        bindR (foldR AddConvRule axes (Builder_new (length inputs) (length outputs))) Builder_Finish)))"

definition Conv_class :: "ConvParam \<Rightarrow> op_class" where
  "Conv_class param = \<lparr>vIsRequireInputSameDataKind = True, vCheckInput = (\<lambda>_. Inr ()), vInferOutputSize = 1,
     vInferOutputMetaInfo = Conv_InferOutputMetaInfo param, vSkipDistributedSpec = SkipDistributedSpecFromPlacementSignature,
     vGetPlacementSignature = Conv_GetPlacementSignature param, vKeepSubSplitCoordinates = True\<rparr>"

definition Conv_GetOperatorCost :: "ConvParam \<Rightarrow> operand list \<Rightarrow> operand list \<Rightarrow> OperatorCost res" where
  "Conv_GetOperatorCost param inputs outputs =
     assertR (length inputs = 3)
      (bindR (OperandAt inputs 0) (\<lambda>x. bindR (OperandAt outputs 0) (\<lambda>y.
       let inShape = oShape x; outShape = oShape y; last = channel_last (conv_format param) in
       assertR (NumAxis inShape = 4) (assertR (NumAxis outShape = 4)
        (let outN = outShape ! 0; outC = (if last then outShape ! 3 else outShape ! 1);
             outH = (if last then outShape ! 1 else outShape ! 2); outW = (if last then outShape ! 2 else outShape ! 3);
             inC = (if last then inShape ! 3 else inShape ! 1) in
         bindR (quotR inC (conv_group param)) (\<lambda>inCPerGroup.
           Inr (Cost_Compute (2 * outN * outC * outH * outW * inCPerGroup * conv_kernelSize param ! 0 * conv_kernelSize param ! 1))))))))"

subsection \<open>Bounds of the convolution windows\<close>

text \<open>For an input that is large enough the last window ends inside the padded input and one more would not.\<close>

lemma CalculateConvOutput_Inr:
  assumes "0 < ker" "0 < dilation" "0 < stride" "(ker - 1) * dilation + 1 \<le> input + padBefore + padAfter"
  shows "CalculateConvOutput input ker dilation stride padBefore padAfter =
    Inr ((input + padBefore + padAfter - (ker - 1) * dilation - 1) div stride + 1)"
  using assms by (simp add: CalculateConvOutput_def Let_def add_pos_nonneg pos_imp_zdiv_nonneg_iff)

text \<open>The quotient is truncated, so a window that is larger than the input is not refused when the difference is
  below the stride.\<close>

lemma CalculateConvOutput_window_too_large:
  assumes "0 < ker" "0 < dilation" "0 < stride"
    and "input + padBefore + padAfter < (ker - 1) * dilation + 1" "(ker - 1) * dilation + 1 < input + padBefore + padAfter + stride"
  shows "CalculateConvOutput input ker dilation stride padBefore padAfter = Inr 1"
proof -
  let ?n = "input + padBefore + padAfter - (ker - 1) * dilation - 1"
  have "?n < 0" "- ?n < stride" using assms(4,5) by linarith+
  then have "quot ?n stride = 0" using assms(3) by (simp add: quot_def)
  then show ?thesis using assms(1-3) by (simp add: CalculateConvOutput_def Let_def quotR_def)
qed

section \<open>Pooling\<close>

record PoolingParam =
  poolingKind :: PoolingKind
  pool_dilations :: "int list"
  ceilMode :: bool
  pool_kernelSize :: "int list"
  pool_paddingType :: PaddingType
  pool_pads :: "int list"
  pool_strides :: "int list"
  countIncludePad :: bool
  isGlobalPooling :: bool
  pool_format :: OperatorFormat

definition PoolingParam_global :: "PoolingKind \<Rightarrow> bool \<Rightarrow> OperatorFormat \<Rightarrow> PoolingParam res" where
  "PoolingParam_global kind global format =
     assertR global (Inr \<lparr>poolingKind = kind, pool_dilations = [], ceilMode = False, pool_kernelSize = [],
       pool_paddingType = kNotSet, pool_pads = [], pool_strides = [], countIncludePad = False, isGlobalPooling = True,
       pool_format = format\<rparr>)"

text \<open>The last assignment of the second constructor hits its parameter \<open>ceilMode\<close>, not the member.\<close>

definition PoolingParam_new :: "PoolingKind \<Rightarrow> int list \<Rightarrow> bool \<Rightarrow> int list \<Rightarrow> PaddingType \<Rightarrow> int list \<Rightarrow> int list \<Rightarrow> bool \<Rightarrow> OperatorFormat
    \<Rightarrow> PoolingParam res" where
  "PoolingParam_new kind dilations ceil kernelSize paddingType pads strides includePad format =
     bindR (IntOrIntArrayTo2DParam dilations) (\<lambda>dilations.
     bindR (IntOrIntArrayTo2DParam kernelSize) (\<lambda>kernelSize.
     bindR (IntOrIntArrayTo2DPad pads) (\<lambda>pads.
     bindR (IntOrIntArrayTo2DParam strides) (\<lambda>strides.
     bindR (CheckPads paddingType pads) (\<lambda>_.
       Inr \<lparr>poolingKind = kind, pool_dilations = dilations, ceilMode = ceil, pool_kernelSize = kernelSize,
         pool_paddingType = paddingType, pool_pads = pads, pool_strides = strides, countIncludePad = includePad,
         isGlobalPooling = False, pool_format = format\<rparr>)))))"

lemma PoolingParam_keeps_ceilMode:
  "\<exists>p. PoolingParam_new kAvg [1] True [2] kSame [0] [2] False kNCHW = Inr p \<and> ceilMode p \<and> pool_paddingType p = kSame"
  by (simp add: PoolingParam_new_def IntOrIntArrayTo2DParam_def IntOrIntArrayTo2DPad_def CheckPads_def IsPadEmptyOrZero_def cast_int_small
    list_all_iff)

definition CalculatePoolingOutput :: "int \<Rightarrow> int \<Rightarrow> int \<Rightarrow> int \<Rightarrow> int \<Rightarrow> int \<Rightarrow> bool \<Rightarrow> int res" where
  "CalculatePoolingOutput input ker dilation stride padBefore padAfter ceil =
     assertR (ker > 0) (assertR (dilation > 0) (assertR (stride > 0)
      (let kernelExtent = (ker - 1) * dilation in
       if ceil then
         (let output = quot (input + padBefore + padAfter - kernelExtent - 1 + stride - 1) stride + 1 in
          if padBefore + padAfter \<noteq> 0 then
            (let output = (if (output - 1) * stride \<ge> input + padBefore then output - 1 else output) in
             assertR ((output - 1) * stride < input + padBefore) (Inr output))
          else Inr output)
       else Inr (quot (input + padBefore + padAfter - kernelExtent - 1) stride + 1))))"

definition Pooling_CalculateConvOutputForSamePad :: "int \<Rightarrow> int \<Rightarrow> int res" where
  "Pooling_CalculateConvOutputForSamePad input stride = assertR (stride > 0) (Inr (quot (input + stride - 1) stride))"

definition CalculatePadForSamePad :: "int \<Rightarrow> int \<Rightarrow> int \<Rightarrow> int \<Rightarrow> int \<Rightarrow> int \<times> int" where
  "CalculatePadForSamePad input output ker dilation stride =
     (let kernelExtent = (ker - 1) * dilation;
          paddingNeeded = (output - 1) * stride + kernelExtent + 1 - input;
          paddingNeeded = (if paddingNeeded < 0 then 0 else paddingNeeded);
          padBefore = quot paddingNeeded 2 in
      (padBefore, paddingNeeded - padBefore))"

text \<open>The parameter with the values the inference writes into it, and the two spatial sizes.\<close>

definition Pooling_spatial :: "PoolingParam \<Rightarrow> int \<Rightarrow> int \<Rightarrow> (PoolingParam \<times> int \<times> int) res" where
  "Pooling_spatial param inH inW =
     (let k = pool_kernelSize param; d = pool_dilations param; s = pool_strides param; p = pool_pads param in
      if isGlobalPooling param then
        Inr (param\<lparr>pool_kernelSize := [inH, inW], pool_strides := [1, 1], pool_pads := [0, 0, 0, 0], pool_dilations := [1, 1]\<rparr>, 1, 1)
      else case pool_paddingType param of
        kNotSet \<Rightarrow>
          bindR (CalculatePoolingOutput inH (k ! 0) (d ! 0) (s ! 0) (p ! 0) (p ! 2) (ceilMode param)) (\<lambda>outH.
          bindR (CalculatePoolingOutput inW (k ! 1) (d ! 1) (s ! 1) (p ! 1) (p ! 1) (ceilMode param)) (\<lambda>outW.
            Inr (param, outH, outW)))
      | kValid \<Rightarrow>
          bindR (CalculatePoolingOutput inH (k ! 0) (d ! 0) (s ! 0) 0 0 False) (\<lambda>outH.
          bindR (CalculatePoolingOutput inW (k ! 1) (d ! 1) (s ! 1) 0 0 False) (\<lambda>outW.
            Inr (param\<lparr>pool_pads := [0, 0, 0, 0]\<rparr>, outH, outW)))
      | kSame \<Rightarrow>
          bindR (Pooling_CalculateConvOutputForSamePad inH (s ! 0)) (\<lambda>outH.
          bindR (Pooling_CalculateConvOutputForSamePad inW (s ! 1)) (\<lambda>outW.
            let (paddingT, paddingB) = CalculatePadForSamePad inH outH (k ! 0) (d ! 0) (s ! 0);
                (paddingL, paddingR) = CalculatePadForSamePad inW outW (k ! 1) (d ! 1) (s ! 1) in
            Inr (param\<lparr>pool_pads := [paddingT, paddingL, paddingB, paddingR]\<rparr>, outH, outW)))
      | PaddingType_kCount \<Rightarrow> Inl Abort)"

definition Pooling_InferOutputMetaInfo :: "PoolingParam \<Rightarrow> operand list \<Rightarrow> operand list \<Rightarrow> (PoolingParam \<times> operand list) res" where
  "Pooling_InferOutputMetaInfo param inputs outputs =
     assertR (length inputs = 1)
      (let x = inputs ! 0; inShape = oShape x; last = channel_last (pool_format param) in
       assertR (NumAxis inShape = 4)
        (bindR (Pooling_spatial param (if last then inShape ! 1 else inShape ! 2) (if last then inShape ! 2 else inShape ! 3))
          (\<lambda>(param, outH, outW).
           bindR (UpdateOutput 0 (\<lambda>y. SetShapeAndStride
               (image_shape (pool_format param) (inShape ! 0) (if last then inShape ! 3 else inShape ! 1) outH outW) []
             (MetaDataSameAs x y)) outputs) (\<lambda>outputs. Inr (param, outputs)))))"

definition Pooling_class :: "PoolingParam \<Rightarrow> op_class" where
  "Pooling_class param = \<lparr>vIsRequireInputSameDataKind = True, vCheckInput = (\<lambda>_. Inr ()), vInferOutputSize = 1,
     vInferOutputMetaInfo = (\<lambda>inputs outputs. bindR (Pooling_InferOutputMetaInfo param inputs outputs) (\<lambda>(_, outputs). Inr outputs)),
     vSkipDistributedSpec = SkipDistributedSpecFromPlacementSignature,
     vGetPlacementSignature = default_GetPlacementSignature, vKeepSubSplitCoordinates = True\<rparr>"

subsection \<open>Same padding\<close>

lemma CalculatePadForSamePad_split:
  assumes "CalculatePadForSamePad input output ker dilation stride = (padBefore, padAfter)"
  shows "0 \<le> padBefore" "padBefore \<le> padAfter" "padAfter \<le> padBefore + 1"
    "padBefore + padAfter = max 0 ((output - 1) * stride + (ker - 1) * dilation + 1 - input)"
  using assms by (auto simp: CalculatePadForSamePad_def Let_def split: if_splits)

lemma ceil_quotient:
  fixes input stride :: int
  assumes "0 < input" "0 < stride"
  defines "output \<equiv> (input + stride - 1) div stride"
  shows "1 \<le> output" "(output - 1) * stride < input" "input \<le> output * stride"
proof -
  let ?n = "input + stride - 1"
  have split: "?n = stride * output + ?n mod stride" unfolding output_def by simp
  have "0 \<le> ?n mod stride" "?n mod stride < stride" using assms(2) by simp_all
  with split show "(output - 1) * stride < input" "input \<le> output * stride" by (simp_all add: algebra_simps)
  show "1 \<le> output" using assms(1,2) pos_imp_zdiv_pos_iff [of stride ?n] unfolding output_def by linarith
qed

text \<open>Same padding is explicit padding: with the two pads that the pooling operator computes for \<open>kSame\<close> the formula for
  explicit pads gives the size that the shortcut for \<open>kSame\<close> gives, the rounded up quotient of input and stride, and the
  pads differ by at most one.\<close>

theorem SamePad_is_explicit_pad:
  assumes "0 < input" "0 < ker" "0 < dilation" "0 < stride"
  shows "\<exists>output padBefore padAfter. Pooling_CalculateConvOutputForSamePad input stride = Inr output \<and>
    CalculatePadForSamePad input output ker dilation stride = (padBefore, padAfter) \<and>
    CalculatePoolingOutput input ker dilation stride padBefore padAfter False = Inr output \<and>
    output = (input + stride - 1) div stride \<and> 0 \<le> padBefore \<and> padBefore \<le> padAfter \<and> padAfter \<le> padBefore + 1"
proof -
  define q where "q = (input + stride - 1) div stride"
  note out = ceil_quotient [OF assms(1,4), folded q_def]
  obtain pb pa where pads: "CalculatePadForSamePad input q ker dilation stride = (pb, pa)" by (metis surj_pair)
  note split = CalculatePadForSamePad_split [OF pads]
  let ?e = "(ker - 1) * dilation"
  define n where "n = input + pb + pa - ?e - 1"
  have e: "0 \<le> ?e" using assms(2,3) by simp
  have low: "(q - 1) * stride \<le> n" and high: "n < q * stride"
    using split(4) out(2,3) e by (auto simp: n_def max_def algebra_simps split: if_splits)
  have "0 \<le> (q - 1) * stride" using out(1) assms(4) by simp
  with low have "0 \<le> n" by linarith
  moreover have "n div stride = q - 1"
    using low high assms(4) by (intro int_div_pos_eq [where r = "n - stride * (q - 1)"]) (simp_all add: algebra_simps)
  ultimately have "quot n stride + 1 = q" using assms(4) by simp
  then have "CalculatePoolingOutput input ker dilation stride pb pa False = Inr q"
    using assms(2-4) by (simp add: CalculatePoolingOutput_def Let_def n_def)
  moreover have "Pooling_CalculateConvOutputForSamePad input stride = Inr q"
    using assms(1,4) by (simp add: Pooling_CalculateConvOutputForSamePad_def q_def)
  ultimately show ?thesis using pads split(1-3) q_def by blast
qed

theorem SamePad_is_explicit_pad_witness:
  "\<exists>output padBefore padAfter. Pooling_CalculateConvOutputForSamePad 7 2 = Inr output \<and>
    CalculatePadForSamePad 7 output 4 1 2 = (padBefore, padAfter) \<and>
    CalculatePoolingOutput 7 4 1 2 padBefore padAfter False = Inr output"
  using SamePad_is_explicit_pad [of 7 4 1 2] by auto

text \<open>In ceiling mode the correction for a last window outside the image is skipped when there are no pads.\<close>

lemma Pooling_window_outside:
  "CalculatePoolingOutput 3 1 1 3 0 0 True = Inr 2" "(2 - 1) * 3 \<ge> (3 :: int)"
  by code_simp+

text \<open>The right pad does not enter the width.\<close>

lemma Pooling_right_pad_ignored:
  assumes "PoolingParam_new kMax [1] False [3] kNotSet [0, 0, 0, 2] [1] False kNCHW = Inr p"
  shows "Pooling_spatial p 5 5 = Inr (p, 3, 3) \<and> CalculatePoolingOutput 5 3 1 1 0 2 False = Inr 5"
proof -
  have "p = \<lparr>poolingKind = kMax, pool_dilations = [1, 1], ceilMode = False, pool_kernelSize = [3, 3], pool_paddingType = kNotSet,
      pool_pads = [0, 0, 0, 2], pool_strides = [1, 1], countIncludePad = False, isGlobalPooling = False, pool_format = kNCHW\<rparr>"
    using assms by (simp add: PoolingParam_new_def IntOrIntArrayTo2DParam_def IntOrIntArrayTo2DPad_def CheckPads_def
        IsPadEmptyOrZero_def cast_int_small)
  then show ?thesis by (simp add: Pooling_spatial_def CalculatePoolingOutput_def Let_def)
qed

section \<open>Normalisation over batches\<close>

text \<open>An operand that is given must be a vector with one entry for each channel.\<close>

definition ChannelVector :: "operand \<Rightarrow> int \<Rightarrow> bool" where
  "ChannelVector b c \<longleftrightarrow> Operand_IsNullTensorShape b \<or> \<not> (NumAxis (oShape b) \<noteq> 1 \<or> oShape b ! 0 \<noteq> c)"

definition BatchNorm_InferOutputMetaInfo :: "OperatorFormat \<Rightarrow> operand list \<Rightarrow> operand list \<Rightarrow> operand list res" where
  "BatchNorm_InferOutputMetaInfo format inputs outputs =
     assertR (length inputs = 5)
      (let x = inputs ! 0; xShape = oShape x in
       requireR (\<not> NumAxis xShape \<noteq> 4)
        (bindR (UpdateOutput 0 (MetaDataSameAs x) outputs) (\<lambda>outputs.
         let c = (if channel_last format then xShape ! 3 else xShape ! 1) in
         requireR (ChannelVector (inputs ! 1) c)
          (requireR (ChannelVector (inputs ! 2) c)
            (requireR (ChannelVector (inputs ! 3) c)
              (requireR (ChannelVector (inputs ! 4) c) (Inr outputs)))))))"

definition BatchNorm_class :: "OperatorFormat \<Rightarrow> op_class" where
  "BatchNorm_class format = \<lparr>vIsRequireInputSameDataKind = True, vCheckInput = (\<lambda>_. Inr ()), vInferOutputSize = 1,
     vInferOutputMetaInfo = BatchNorm_InferOutputMetaInfo format,
     vSkipDistributedSpec = SkipDistributedSpecFromPlacementSignature,
     vGetPlacementSignature = default_GetPlacementSignature, vKeepSubSplitCoordinates = True\<rparr>"

section \<open>Normalisation over groups and trailing axes\<close>

datatype NormalizationKind = kLayerNorm | kRmsNorm | kGroupNorm | NormalizationKind_kCount

record NormalizationParam =
  normKind :: NormalizationKind
  normalizedShape :: shape
  numGroups :: int

text \<open>\<open>shift\<close> is computed with 32-bit integers; ranks are far below that bound.\<close>

definition Normalization_CheckShapes :: "NormalizationParam \<Rightarrow> operand \<Rightarrow> operand \<Rightarrow> operand \<Rightarrow> unit res" where
  "Normalization_CheckShapes param x weight bias =
     (let inShape = oShape x in
      if normKind param = kGroupNorm then
        requireR (\<not> NumAxis inShape \<le> 2)
         (let numChannels = inShape ! 1 in
          bindR (remR numChannels (numGroups param)) (\<lambda>r.
           requireR (\<not> r \<noteq> 0)
            (requireR (Operand_IsNullTensorShape weight \<or> oShape weight = [numChannels])
              (requireR (Operand_IsNullTensorShape bias \<or> oShape bias = [numChannels]) (Inr ())))))
      else
        (let normShape = normalizedShape param in
         requireR (\<not> NumAxis inShape \<le> NumAxis normShape)
          (let shift = NumAxis inShape - NumAxis normShape in
           requireR (\<forall>i \<in> set [0..<NumAxis normShape]. inShape ! (shift + i) = normShape ! i)
            (requireR (Operand_IsNullTensorShape weight \<or> normShape = oShape weight)
              (assertR (normKind param = kRmsNorm \<longrightarrow> Operand_IsNullTensorShape bias)
                (requireR (Operand_IsNullTensorShape bias \<or> normShape = oShape bias) (Inr ())))))))"

definition Normalization_InferOutputMetaInfo :: "NormalizationParam \<Rightarrow> operand list \<Rightarrow> operand list \<Rightarrow> operand list res" where
  "Normalization_InferOutputMetaInfo param inputs outputs =
     assertR (length inputs = 3)
      (bindR (Normalization_CheckShapes param (inputs ! 0) (inputs ! 1) (inputs ! 2)) (\<lambda>_.
        UpdateOutput 0 (MetaDataSameAs (inputs ! 0)) outputs))"

definition AddNormalizationRule :: "nat \<Rightarrow> sig_builder \<Rightarrow> sig_builder res" where
  "AddNormalizationRule i b =
     Builder_Build (AddOutput (Shard (int i) (- 1)) (AddOptionalInput Replicate (AddOptionalInput Replicate
       (AddInput (Shard (int i) (- 1)) b))))"

text \<open>The number of the leading axes is a difference of sizes of type \<open>size_t\<close>; the inference has checked that it is positive.\<close>

definition Normalization_GetPlacementSignature :: "NormalizationParam \<Rightarrow> operand list \<Rightarrow> operand list \<Rightarrow> PlacementSignature res" where
  "Normalization_GetPlacementSignature param inputs outputs =
     assertR (length inputs = 3)
      (let axes = (if normKind param = kGroupNorm then [0]
                   else [0..<NumAxis (oShape (inputs ! 0)) - NumAxis (normalizedShape param)]) in
       bindR (foldR AddNormalizationRule axes (Builder_new (length inputs) (length outputs))) Builder_Finish)"

definition Normalization_class :: "NormalizationParam \<Rightarrow> op_class" where
  "Normalization_class param = \<lparr>vIsRequireInputSameDataKind = True, vCheckInput = (\<lambda>_. Inr ()), vInferOutputSize = 1,
     vInferOutputMetaInfo = Normalization_InferOutputMetaInfo param,
     vSkipDistributedSpec = SkipDistributedSpecFromPlacementSignature,
     vGetPlacementSignature = Normalization_GetPlacementSignature param, vKeepSubSplitCoordinates = True\<rparr>"

text \<open>A group norm with no groups divides by zero.\<close>

lemma Normalization_no_groups:
  "Normalization_CheckShapes \<lparr>normKind = kGroupNorm, normalizedShape = [], numGroups = 0\<rparr>
     (Operand_of [2, 4, 3] kFloat32 default_mesh [Replicate]) Operand_new Operand_new = Inl Undefined"
  by code_simp

lemma Normalization_CheckShapes_Inr:
  assumes "Normalization_CheckShapes param x weight bias = Inr ()"
  shows "(normKind param = kGroupNorm \<longrightarrow> 2 < length (oShape x) \<and> numGroups param dvd oShape x ! 1) \<and>
    (normKind param \<noteq> kGroupNorm \<longrightarrow>
      drop (length (oShape x) - length (normalizedShape param)) (oShape x) = normalizedShape param \<and>
      length (normalizedShape param) < length (oShape x))"
proof (cases "normKind param = kGroupNorm")
  case True
  have "g dvd n" if "remR n g = Inr 0" for n g :: int
    using that by (auto simp: remR_def guardR_eq_Inr dvd_def)
  with True assms show ?thesis
    by (auto simp: Normalization_CheckShapes_def Let_def guardR_eq_Inr bindR_eq_Inr)
next
  case False
  with assms have "\<forall>i < length (normalizedShape param). oShape x ! (length (oShape x) - length (normalizedShape param) + i) = normalizedShape param ! i"
    "length (normalizedShape param) < length (oShape x)"
    by (auto simp: Normalization_CheckShapes_def Let_def guardR_eq_Inr)
  with False show ?thesis by (auto intro!: nth_equalityI)
qed

section \<open>Attention\<close>

record SdpaParam =
  isCausal :: bool
  sdpa_scale :: "double option"
  enableGqa :: bool
  sageAttentionType :: "string option"

definition Sdpa_InferOutputMetaInfo :: "operand list \<Rightarrow> operand list \<Rightarrow> operand list res" where
  "Sdpa_InferOutputMetaInfo inputs outputs =
     assertR (length inputs = 4)
      (let q = oShape (inputs ! 0); k = oShape (inputs ! 1); v = oShape (inputs ! 2) in
       assertR (NumAxis q \<ge> 4) (assertR (NumAxis k \<ge> 4) (assertR (NumAxis v \<ge> 4)
        (bindR (at_int v (- 1)) (\<lambda>eV.
         UpdateOutput 0 (\<lambda>y. SetShapeAndStride (q[NumAxis q - 1 := eV]) [] (MetaDataSameAs (inputs ! 0) y)) outputs)))))"

definition AddSdpaRule :: "Placement \<times> Placement \<times> Placement \<times> Placement \<Rightarrow> sig_builder \<Rightarrow> sig_builder res" where
  "AddSdpaRule = (\<lambda>(q, k, v, attnMask) b. Builder_Build (AddOutput q (AddOptionalInput attnMask (AddInput v (AddInput k (AddInput q b))))))"

definition Sdpa_rules :: "nat \<Rightarrow> (Placement \<times> Placement \<times> Placement \<times> Placement) list" where
  "Sdpa_rules numAxis = (let s = (\<lambda>i. Shard (int i) (- 1)) in
     [(s 0, s 0, s 0, s 0)] @ map (\<lambda>i. (s i, s i, s i, Replicate)) [1..<numAxis - 2] @ [(s 2, Replicate, Replicate, Replicate)])"

definition Sdpa_GetPlacementSignature :: "operand list \<Rightarrow> operand list \<Rightarrow> PlacementSignature res" where
  "Sdpa_GetPlacementSignature inputs outputs =
     assertR (length inputs = 4)
      (let numAxis = NumAxis (oShape (inputs ! 0)) in
       assertR (numAxis \<ge> 4)
        (bindR (foldR AddSdpaRule (Sdpa_rules numAxis) (Builder_new (length inputs) (length outputs))) Builder_Finish))"

definition Sdpa_class :: op_class where
  "Sdpa_class = \<lparr>vIsRequireInputSameDataKind = False, vCheckInput = (\<lambda>_. Inr ()), vInferOutputSize = 1,
     vInferOutputMetaInfo = Sdpa_InferOutputMetaInfo, vSkipDistributedSpec = SkipDistributedSpecFromPlacementSignature,
     vGetPlacementSignature = Sdpa_GetPlacementSignature, vKeepSubSplitCoordinates = True\<rparr>"

definition Sdpa_GetOperatorCost :: "operand list \<Rightarrow> OperatorCost res" where
  "Sdpa_GetOperatorCost inputs =
     assertR (length inputs = 4)
      (let q = oShape (inputs ! 0); k = oShape (inputs ! 1); v = oShape (inputs ! 2) in
       bindR (Shape_Prod q 0 (int (NumAxis q) - 4)) (\<lambda>batch.
       bindR (at_int q (- 3)) (\<lambda>qHeads. bindR (at_int q (- 2)) (\<lambda>seqQ. bindR (at_int q (- 1)) (\<lambda>headDim.
       bindR (at_int k (- 2)) (\<lambda>seqKv. bindR (at_int v (- 1)) (\<lambda>eV.
         Inr (Cost_Compute (2 * batch * qHeads * seqQ * seqKv * (headDim + eV))))))))))"

lemma Sdpa_cost_example:
  "Sdpa_GetOperatorCost [Operand_of [2, 8, 16, 4] kFloat32 default_mesh [Replicate], Operand_of [2, 8, 32, 4] kFloat32 default_mesh [Replicate],
     Operand_of [2, 8, 32, 6] kFloat32 default_mesh [Replicate], Operand_new] = Inr (Cost_Compute (2 * 2 * 8 * 16 * 32 * (4 + 6)))"
  by code_simp

text \<open>The rule that cuts the rows of the query leaves the mask whole, so that its rows do not fit the piece of the query.\<close>

lemma Sdpa_mask_not_cut:
  defines "x \<equiv> Operand_of [2, 2, 4, 8] kFloat32 gpu_grid [Replicate, Replicate]"
    and "q \<equiv> Operand_of [2, 2, 4, 8] kFloat32 gpu_grid [Shard 2 (- 1), Replicate]"
    and "attnMask \<equiv> Operand_of [2, 2, 4, 4] kFloat32 gpu_grid [Replicate, Replicate]"
  shows "case InferOutput 8 Sdpa_class [q, x, x, attnMask] [Operand_new] of Inl _ \<Rightarrow> False | Inr ys \<Rightarrow>
      map oPlacementSeq ys = [[Shard 2 (- 1), Replicate]]"
    and "local_shape [2, 2] (oPlacementSeq q) (oShape q) [0, 0] = [2, 2, 2, 8] \<and>
      \<not> CanBroadcastWith [2, 2, 2, 4] (local_shape [2, 2] (oPlacementSeq attnMask) (oShape attnMask) [0, 0])"
  unfolding x_def q_def attnMask_def by code_simp+

text \<open>For operands of rank five axis 2 holds heads, not rows: heads of the query meet the uncut heads of key and value.\<close>

lemma Sdpa_heads_cut_on_one_side:
  defines "x \<equiv> Operand_of [2, 2, 4, 6, 8] kFloat32 gpu_grid [Replicate, Replicate]"
    and "q \<equiv> Operand_of [2, 2, 4, 6, 8] kFloat32 gpu_grid [Shard 2 (- 1), Replicate]"
    and "attnMask \<equiv> Operand_of [2, 2, 4, 6, 6] kFloat32 gpu_grid [Replicate, Replicate]"
  shows "case InferOutput 8 Sdpa_class [q, x, x, attnMask] [Operand_new] of Inl _ \<Rightarrow> False | Inr ys \<Rightarrow>
      map oPlacementSeq ys = [[Shard 2 (- 1), Replicate]]"
    and "local_shape [2, 2] (oPlacementSeq q) (oShape q) [0, 0] = [2, 2, 2, 6, 8] \<and>
      local_shape [2, 2] (oPlacementSeq x) (oShape x) [0, 0] = [2, 2, 4, 6, 8]"
  unfolding x_def q_def attnMask_def by code_simp+

section \<open>Uneven and exchanged axes of images\<close>

definition patch_param :: "OperatorFormat \<Rightarrow> ConvParam" where
  "patch_param format = \<lparr>conv_dilations = [1, 1], conv_group = 1, conv_kernelSize = [2, 2], conv_paddingType = kNotSet,
     conv_pads = [0, 0, 0, 0], conv_strides = [2, 2], conv_format = format\<rparr>"

text \<open>
  The rules cut the height of an image when the windows do not overlap.  The pieces must then hold whole windows: an
  image of height 6 on two devices is cut into pieces of height 3, which give one row each, while the local shape of the
  output wants two rows on the first device.
\<close>

lemma Conv_piece_not_whole_windows:
  defines "x \<equiv> Operand_of [1, 1, 6, 4] kFloat32 gpu_grid [Shard 2 (- 1), Replicate]"
    and "w \<equiv> Operand_of [1, 1, 2, 2] kFloat32 gpu_grid [Replicate, Replicate]"
    and "b \<equiv> Operand_of [1] kFloat32 gpu_grid [Replicate, Replicate]"
  shows "case InferOutput 8 (Conv_class (patch_param kNCHW)) [x, w, b] [Operand_new] of Inl _ \<Rightarrow> False | Inr ys \<Rightarrow>
      oShape (ys ! 0) = [1, 1, 3, 2] \<and> local_shape [2, 2] (oPlacementSeq (ys ! 0)) (oShape (ys ! 0)) [0, 0] = [1, 1, 2, 2]"
    and "local_shape [2, 2] (oPlacementSeq x) (oShape x) [0, 0] = [1, 1, 3, 4] \<and> CalculateConvOutput 3 2 1 2 0 0 = Inr 1"
  unfolding x_def w_def b_def by code_simp+

text \<open>The rules name axes 2 and 3 also when the channels come last; axis 3 is then the axis of the channels.\<close>

lemma Conv_channels_cut:
  defines "x \<equiv> Operand_of [1, 4, 4, 2] kFloat32 gpu_grid [Shard 3 (- 1), Replicate]"
    and "w \<equiv> Operand_of [2, 2, 2, 2] kFloat32 gpu_grid [Replicate, Replicate]"
    and "b \<equiv> Operand_of [2] kFloat32 gpu_grid [Replicate, Replicate]"
  shows "case InferOutput 8 (Conv_class (patch_param kNHWC)) [x, w, b] [Operand_new] of Inl _ \<Rightarrow> False | Inr ys \<Rightarrow>
      map oPlacementSeq ys = [[Shard 3 (- 1), Replicate]]"
    and "local_shape [2, 2] (oPlacementSeq x) (oShape x) [0, 0] = [1, 4, 4, 1] \<and> oShape w ! 1 = 2"
  unfolding x_def w_def b_def by code_simp+

text \<open>Where every piece holds whole windows the height of the output is cut like the height of the input.\<close>

lemma Conv_whole_windows:
  assumes "0 < ker" "0 < n"
  shows "CalculateConvOutput (ker * n) ker 1 ker 0 0 = Inr n"
proof -
  have "ker \<le> ker * n" using assms by simp
  moreover have "(ker * n - ker) div ker = n - 1"
    using assms(1) by (simp add: right_diff_distrib [of ker n 1, simplified, symmetric])
  ultimately show ?thesis using assms by (simp add: CalculateConvOutput_Inr)
qed

section \<open>Interpolation\<close>

text \<open>
  The sizes of the output are products of a 64-bit integer, converted to \<open>double\<close>, and a factor, converted back by
  truncation.  Both the conversion and the product round to the nearest representable number, ties to the even mantissa;
  the significand has 53 bits, the smallest exponent of the last bit is -1074.
\<close>

definition pow2 :: "int \<Rightarrow> rat" where
  "pow2 e = (if 0 \<le> e then of_int (2 ^ nat e) else 1 / of_int (2 ^ nat (- e)))"

definition round_half_even :: "rat \<Rightarrow> int" where
  "round_half_even q = (let n = \<lfloor>q\<rfloor>; r = q - of_int n in
     if r < 1 / 2 then n else if r > 1 / 2 then n + 1 else if even n then n else n + 1)"

text \<open>The binary exponent of a positive number: \<open>pow2 e \<le> q < pow2 (e + 1)\<close>.\<close>

definition exponent2 :: "rat \<Rightarrow> int" where
  "exponent2 q = (let (a, b) = quotient_of q; e = int (floorlog 2 (nat a)) - int (floorlog 2 (nat b)) in
     if q < pow2 e then e - 1 else e)"

definition round_double :: "rat \<Rightarrow> double" where
  "round_double q = (if q = 0 then Double 0 else
     let e = max (exponent2 \<bar>q\<bar> - 52) (- 1074); m = round_half_even (\<bar>q\<bar> / pow2 e); v = of_int m * pow2 e in
     if 972 \<le> e \<or> e = 971 \<and> m = 2 ^ 53 then (if q > 0 then PosInf else NegInf) else Double (if q > 0 then v else - v))"

definition int_to_double :: "int \<Rightarrow> double" where
  "int_to_double n = round_double (of_int n)"

text \<open>The product of a finite number and a factor; a product of zero and an infinity is not a number.\<close>

definition double_times :: "double \<Rightarrow> double \<Rightarrow> double" where
  "double_times x y = (case (x, y) of
       (Double a, Double b) \<Rightarrow> round_double (a * b)
     | (Double a, PosInf) \<Rightarrow> (if a = 0 then NaN else if a > 0 then PosInf else NegInf)
     | (Double a, NegInf) \<Rightarrow> (if a = 0 then NaN else if a > 0 then NegInf else PosInf)
     | _ \<Rightarrow> NaN)"

text \<open>The conversion to a 64-bit integer is undefined outside the range of the integer.\<close>

definition double_to_int64 :: "double \<Rightarrow> int res" where
  "double_to_int64 x = (case x of
       Double a \<Rightarrow> (let n = (if a \<ge> 0 then \<lfloor>a\<rfloor> else \<lceil>a\<rceil>) in guardR Undefined (- (2 ^ 63) \<le> n \<and> n < 2 ^ 63) (Inr n))
     | _ \<Rightarrow> Inl Undefined)"

record InterpolateParam =
  interp_shape :: "shape option"
  interp_scaleFactor :: "double list option"
  interp_mode :: string
  interp_alignCorners :: "bool option"
  interp_recomputeScaleFactor :: "bool option"
  interp_antialias :: "bool option"

definition Interpolate_CheckParam :: "InterpolateParam \<Rightarrow> shape \<Rightarrow> unit res" where
  "Interpolate_CheckParam param inputShape =
     (let n = NumAxis inputShape; md = interp_mode param in
      requireR (\<not> (n < 3 \<or> n > 5))
       (requireR (\<not> (interp_shape param = None \<and> interp_scaleFactor param = None))
        (requireR (\<not> (interp_shape param \<noteq> None \<and> interp_scaleFactor param \<noteq> None))
         (requireR (case interp_scaleFactor param of None \<Rightarrow> True | Some v \<Rightarrow> \<not> (length v \<noteq> 1 \<and> length v \<noteq> n - 2))
          (requireR (\<not> (interp_shape param \<noteq> None \<and> interp_recomputeScaleFactor param \<noteq> None))
           (requireR (case interp_shape param of None \<Rightarrow> True | Some s \<Rightarrow> \<not> n - 2 \<noteq> NumAxis s)
            (requireR (md \<in> {''nearest'', ''linear'', ''bilinear'', ''bicubic'', ''trilinear'', ''area'', ''nearest-exact''})
             (requireR (\<not> (md = ''linear'' \<and> n \<noteq> 3))
              (requireR (\<not> ((md = ''bilinear'' \<or> md = ''bicubic'') \<and> n \<noteq> 4))
               (requireR (\<not> ((md = ''trilinear'' \<or> md = ''area'' \<or> md = ''nearest-exact'') \<and> n \<noteq> 5)) (Inr ())))))))))))"

definition Interpolate_shape :: "InterpolateParam \<Rightarrow> shape \<Rightarrow> shape res" where
  "Interpolate_shape param inputShape =
     bindR (Interpolate_CheckParam param inputShape) (\<lambda>_.
     bindR (case interp_shape param of
         Some s \<Rightarrow> Inr (take 2 inputShape @ s)
       | None \<Rightarrow>
           bindR (valueR (interp_scaleFactor param)) (\<lambda>factors.
           bindR (mapR (\<lambda>i. double_to_int64 (double_times (int_to_double (inputShape ! (i + 2)))
               (if length factors = 1 then factors ! 0 else factors ! i))) [0..<NumAxis inputShape - 2]) (\<lambda>sizes.
             Inr (take 2 inputShape @ sizes)))) (\<lambda>outputShape.
       requireR (\<forall>n \<in> set outputShape. \<not> n < 0) (Inr outputShape)))"

definition Interpolate_InferOutputMetaInfo :: "InterpolateParam \<Rightarrow> operand list \<Rightarrow> operand list \<Rightarrow> operand list res" where
  "Interpolate_InferOutputMetaInfo param inputs outputs =
     assertR (length inputs = 1)
      (bindR (Interpolate_shape param (oShape (inputs ! 0))) (\<lambda>outputShape.
        UpdateOutput 0 (\<lambda>y. SetShapeAndStride outputShape [] (MetaDataSameAs (inputs ! 0) y)) outputs))"

definition Interpolate_class :: "InterpolateParam \<Rightarrow> op_class" where
  "Interpolate_class param = \<lparr>vIsRequireInputSameDataKind = True, vCheckInput = (\<lambda>_. Inr ()), vInferOutputSize = 1,
     vInferOutputMetaInfo = Interpolate_InferOutputMetaInfo param,
     vSkipDistributedSpec = SkipDistributedSpecFromPlacementSignature,
     vGetPlacementSignature = default_GetPlacementSignature, vKeepSubSplitCoordinates = True\<rparr>"

text \<open>Batch and channels stay, and as many spatial sizes come out as went in, none of them negative.\<close>

lemma Interpolate_shape_correct:
  assumes "Interpolate_shape param s = Inr t"
  shows "length t = length s \<and> take 2 t = take 2 s \<and> (\<forall>n \<in> set t. 0 \<le> n) \<and> 3 \<le> length s \<and> length s \<le> 5"
proof -
  from assms have c: "Interpolate_CheckParam param s = Inr ()" by (auto simp: Interpolate_shape_def bindR_eq_Inr)
  then have n: "3 \<le> length s" "length s \<le> 5" by (auto simp: Interpolate_CheckParam_def Let_def guardR_eq_Inr)
  show ?thesis
  proof (cases "interp_shape param")
    case (Some u)
    with c have "length u = length s - 2" by (auto simp: Interpolate_CheckParam_def Let_def guardR_eq_Inr)
    with assms Some n show ?thesis by (force simp: Interpolate_shape_def bindR_eq_Inr guardR_eq_Inr not_less)
  next
    case None
    with assms n show ?thesis by (force simp: Interpolate_shape_def bindR_eq_Inr guardR_eq_Inr mapR_eq_Inr not_less)
  qed
qed

lemma Interpolate_doubles:
  "Interpolate_shape \<lparr>interp_shape = None, interp_scaleFactor = Some [Double (3 / 2)], interp_mode = ''bilinear'',
     interp_alignCorners = None, interp_recomputeScaleFactor = None, interp_antialias = None\<rparr> [1, 3, 5, 8] = Inr [1, 3, 7, 12]"
  by code_simp

end
