(* ===== verification/IndexOps.thy ===== *)
theory IndexOps
  imports PointOps
begin

text \<open>
  Indexing: src/dtorch/api/cpp/index.{h,cc} and the operators get_item and set_item of
  src/dtorch/core/operators/standard/.  A tensor used as an index is a parameter; only its shape, given by a function,
  enters the inference.  The operator get_item computes its placement rules during the inference of the shape, may
  rewrite a slice for pieces with sub-split coordinates, and remembers the rewritten indices for its kernel.
\<close>

section \<open>Indices\<close>

record Slice =
  start :: "int option"
  stop :: "int option"
  step :: "int option"

datatype 't Index = NoneIndex | EllipsisIndex | IntegerIndex int | SliceIndex Slice | TensorIndex 't

definition Index_of_string :: "string \<Rightarrow> 't Index res" where
  "Index_of_string str = assertR (str = ''...'') (Inr EllipsisIndex)"

fun IsNone :: "'t Index \<Rightarrow> bool" where
  "IsNone NoneIndex \<longleftrightarrow> True" | "IsNone _ \<longleftrightarrow> False"

fun IsEllipsis :: "'t Index \<Rightarrow> bool" where
  "IsEllipsis EllipsisIndex \<longleftrightarrow> True" | "IsEllipsis _ \<longleftrightarrow> False"

fun IsTensor :: "'t Index \<Rightarrow> bool" where
  "IsTensor (TensorIndex _) \<longleftrightarrow> True" | "IsTensor _ \<longleftrightarrow> False"

definition countIndex :: "('t Index \<Rightarrow> bool) \<Rightarrow> 't Index list \<Rightarrow> nat" where
  "countIndex P indexVec = length (filter P indexVec)"

subsection \<open>Texts\<close>

definition OptInt_ToString :: "int option \<Rightarrow> string" where
  "OptInt_ToString v = (case v of Some n \<Rightarrow> show_int n | None \<Rightarrow> ''None'')"

definition Slice_ToString :: "Slice \<Rightarrow> string" where
  "Slice_ToString sl =
     ''slice('' @ OptInt_ToString (start sl) @ '', '' @ OptInt_ToString (stop sl) @ '', '' @ OptInt_ToString (step sl) @ '')''"

text \<open>The text of the sizes of a tensor comes from libtorch.\<close>

fun Index_ToString :: "('t \<Rightarrow> string) \<Rightarrow> 't Index \<Rightarrow> string" where
  "Index_ToString sizes NoneIndex = ''None''"
| "Index_ToString sizes EllipsisIndex = ''Ellipsis''"
| "Index_ToString sizes (IntegerIndex n) = show_int n"
| "Index_ToString sizes (SliceIndex sl) = Slice_ToString sl"
| "Index_ToString sizes (TensorIndex t) = ''Tensor('' @ sizes t @ '')''"

definition IndexVec_ToString :: "('t \<Rightarrow> string) \<Rightarrow> 't Index list \<Rightarrow> string" where
  "IndexVec_ToString sizes indexs = ''Index('' @ concat (map (\<lambda>it. Index_ToString sizes it @ '', '') indexs) @ '')''"

section \<open>The shape of an indexed tensor\<close>

text \<open>The first pass: the shapes of all tensor indices broadcast together; an empty shape stands for none so far.\<close>

definition BroadcastTensors :: "('t \<Rightarrow> shape) \<Rightarrow> 't Index list \<Rightarrow> shape res" where
  "BroadcastTensors tshape indexVec =
     foldR (\<lambda>index acc. case index of
         TensorIndex t \<Rightarrow> if NumAxis acc = 0 then Inr (tshape t) else BroadcastOutputShape acc (tshape t)
       | _ \<Rightarrow> Inr acc) indexVec []"

text \<open>A second ellipsis is dropped when it stands at the end.\<close>

definition NormalizeEllipsis :: "'t Index list \<Rightarrow> 't Index list res" where
  "NormalizeEllipsis indexVec =
     (let numOfEllipsis = countIndex IsEllipsis indexVec in
      requireR (\<not> (numOfEllipsis \<ge> 3 \<or> numOfEllipsis = 2 \<and> \<not> IsEllipsis (last indexVec)))
       (Inr (if numOfEllipsis = 2 then butlast indexVec else indexVec)))"

definition RangeEllipsis :: "shape \<Rightarrow> 't Index list \<Rightarrow> int" where
  "RangeEllipsis inShape indexVec =
     (if countIndex IsEllipsis indexVec \<ge> 1
      then int (NumAxis inShape) + int (countIndex IsNone indexVec) - int (length indexVec) + 1 else - 1)"

definition CheckInteger :: "int \<Rightarrow> int \<Rightarrow> unit res" where
  "CheckInteger dimSize index = requireR (\<not> (index < -1 * dimSize \<or> index \<ge> dimSize)) (Inr ())"

text \<open>A bound of a slice, counted from the end when it is negative and brought into the axis.\<close>

definition ClampBound :: "int \<Rightarrow> int \<Rightarrow> int option \<Rightarrow> int" where
  "ClampBound dimSize dflt v = (case v of
       None \<Rightarrow> dflt
     | Some tmpValue \<Rightarrow>
         let b = (if tmpValue < 0 then tmpValue + dimSize else tmpValue); b = (if b < 0 then 0 else b) in
         if b > dimSize then dimSize else b)"

definition CheckSlice :: "int \<Rightarrow> Slice \<Rightarrow> int res" where
  "CheckSlice dimSize sl =
     (let first = ClampBound dimSize 0 (start sl); past = ClampBound dimSize dimSize (stop sl);
          inc = (case step sl of None \<Rightarrow> 1 | Some v \<Rightarrow> v) in
      bindR (quotR (past - first - 1) inc) (\<lambda>q. let result = q + 1 in Inr (if result < 0 then 0 else result)))"

definition IndexStep :: "shape \<Rightarrow> int \<Rightarrow> 't Index \<Rightarrow> shape \<times> nat \<Rightarrow> (shape \<times> nat) res" where
  "IndexStep inShape rangeEllipsis index = (\<lambda>(outShape, inIdx). case index of
       IntegerIndex i \<Rightarrow> bindR (at_nat inShape inIdx) (\<lambda>dimSize. bindR (CheckInteger dimSize i) (\<lambda>_. Inr (outShape, inIdx + 1)))
     | TensorIndex _ \<Rightarrow> Inr (outShape, inIdx + 1)
     | NoneIndex \<Rightarrow> Inr (outShape @ [1], inIdx)
     | EllipsisIndex \<Rightarrow> bindR (mapR (at_nat inShape) [inIdx..<inIdx + nat rangeEllipsis]) (\<lambda>sizes.
         Inr (outShape @ sizes, inIdx + nat rangeEllipsis))
     | SliceIndex sl \<Rightarrow> bindR (at_nat inShape inIdx) (\<lambda>dimSize. bindR (CheckSlice dimSize sl) (\<lambda>n.
         Inr (outShape @ [n], inIdx + 1))))"

text \<open>The shape, and the normalised indices, which the function also hands back.\<close>

definition ComputeIndexedShape :: "('t \<Rightarrow> shape) \<Rightarrow> shape \<Rightarrow> 't Index list \<Rightarrow> (shape \<times> 't Index list) res" where
  "ComputeIndexedShape tshape inShape indexVec =
     bindR (BroadcastTensors tshape indexVec) (\<lambda>broadcastTensorShape.
     bindR (NormalizeEllipsis indexVec) (\<lambda>normal.
     requireR (\<not> NumAxis inShape + countIndex IsNone normal < length normal - countIndex IsEllipsis normal)
      (bindR (foldR (IndexStep inShape (RangeEllipsis inShape normal)) normal ([], 0)) (\<lambda>(outShape, inIdx).
       let outShape = outShape @ drop inIdx inShape in
       Inr (if countIndex IsTensor indexVec > 0 then broadcastTensorShape @ outShape else outShape, normal)))))"

section \<open>The operator get_item\<close>

record 't getitem_scan =
  gsRules :: "rule list"
  gsKeep :: bool
  gsIndexVec :: "'t Index list"
  gsIn :: nat
  gsOut :: nat

definition axis_rule :: "nat \<Rightarrow> nat \<Rightarrow> rule" where
  "axis_rule i j = ([Shard (int i) (- 1)], [Shard (int j) (- 1)])"

text \<open>The look at one placement: a slice up to, or from, the sub-split coordinate is divided by the number of pieces.\<close>

definition SubSplitSlice :: "int \<Rightarrow> Placement \<Rightarrow> Slice \<times> bool \<times> bool \<Rightarrow> (Slice \<times> bool \<times> bool) res" where
  "SubSplitSlice shards p = (\<lambda>(sl, supportShard, keep).
     if HasSubSplitCoordinates p then
       bindR (GetSubSplitCoordinates p) (\<lambda>c.
       let front = (start sl = None \<and> step sl = None \<and> stop sl = Some (c + 1));
           sl1 = (if front \<and> shards \<noteq> 0 then sl\<lparr>stop := Some (quot (as_size_t (c + 1)) shards)\<rparr> else sl);
           rear = (stop sl1 = None \<and> step sl1 = None \<and> start sl1 = Some (c + 1));
           sl2 = (if rear \<and> shards \<noteq> 0 then sl1\<lparr>start := Some (quot (as_size_t (c + 1)) shards)\<rparr> else sl1) in
       Inr (sl2, supportShard \<or> front \<or> rear, keep \<and> \<not> front \<and> \<not> rear))
     else Inr (sl, supportShard, keep))"

definition ScanStep :: "operand \<Rightarrow> shape \<Rightarrow> int \<Rightarrow> 't Index \<Rightarrow> 't getitem_scan \<Rightarrow> 't getitem_scan res" where
  "ScanStep x outShape rangeEllipsis index s =
     (let s = s\<lparr>gsIndexVec := gsIndexVec s @ [index]\<rparr> in case index of
       IntegerIndex _ \<Rightarrow> Inr (s\<lparr>gsIn := gsIn s + 1\<rparr>)
     | TensorIndex _ \<Rightarrow> Inr (s\<lparr>gsIn := gsIn s + 1\<rparr>)
     | NoneIndex \<Rightarrow> Inr (s\<lparr>gsOut := gsOut s + 1\<rparr>)
     | EllipsisIndex \<Rightarrow> Inr (s\<lparr>gsRules := gsRules s @ map (\<lambda>i. axis_rule (gsIn s + i) (gsOut s + i)) [0..<nat rangeEllipsis],
         gsIn := gsIn s + nat rangeEllipsis, gsOut := gsOut s + nat rangeEllipsis\<rparr>)
     | SliceIndex sl \<Rightarrow>
         bindR (at_nat (oShape x) (gsIn s)) (\<lambda>a. bindR (at_nat outShape (gsOut s)) (\<lambda>b.
         bindR (GetShardInfo (oDeviceMesh x) (oPlacementSeq x)) (\<lambda>infos.
         let shards = (case find (\<lambda>it. shardDim it = gsIn s) infos of None \<Rightarrow> 0 | Some it \<Rightarrow> shardSize it) in
         bindR (foldR (SubSplitSlice shards) (oPlacementSeq x) (sl, a = b, gsKeep s)) (\<lambda>(sl, supportShard, keep).
           Inr (s\<lparr>gsRules := gsRules s @ (if supportShard then [axis_rule (gsIn s) (gsOut s)] else []), gsKeep := keep,
             gsIndexVec := butlast (gsIndexVec s) @ [SliceIndex sl], gsIn := gsIn s + 1, gsOut := gsOut s + 1\<rparr>))))))"

definition GetItem_scan :: "operand \<Rightarrow> shape \<Rightarrow> 't Index list \<Rightarrow> 't getitem_scan res" where
  "GetItem_scan x outShape indexVec =
     bindR (foldR (ScanStep x outShape (RangeEllipsis (oShape x) indexVec)) indexVec
       \<lparr>gsRules = [], gsKeep = True, gsIndexVec = [], gsIn = 0, gsOut = 0\<rparr>) (\<lambda>s.
     Inr (s\<lparr>gsRules := gsRules s @ map (\<lambda>i. axis_rule (gsIn s + i) (gsOut s + i)) [0..<NumAxis (oShape x) - gsIn s]\<rparr>))"

text \<open>The members the inference leaves behind: the output, the rules, the flag and the indices for the kernel.\<close>

definition GetItem_infer :: "('t \<Rightarrow> shape) \<Rightarrow> 't Index list \<Rightarrow> operand \<Rightarrow> (shape \<times> 't getitem_scan) res" where
  "GetItem_infer tshape indexVec x =
     bindR (ComputeIndexedShape tshape (oShape x) indexVec) (\<lambda>(outShape, normal).
     bindR (if Operand_IsDistributed x then GetItem_scan x outShape normal
            else Inr \<lparr>gsRules = [], gsKeep = True, gsIndexVec = normal, gsIn = 0, gsOut = 0\<rparr>) (\<lambda>s. Inr (outShape, s)))"

definition GetItem_InferOutputMetaInfo :: "('t \<Rightarrow> shape) \<Rightarrow> 't Index list \<Rightarrow> operand list \<Rightarrow> operand list \<Rightarrow> operand list res" where
  "GetItem_InferOutputMetaInfo tshape indexVec inputs outputs =
     assertR (length inputs = 1)
      (bindR (GetItem_infer tshape indexVec (inputs ! 0)) (\<lambda>(outShape, s).
        UpdateOutput 0 (\<lambda>y. SetShapeAndStride outShape [] (MetaDataSameAs (inputs ! 0) y)) outputs))"

definition GetItem_GetPlacementSignature :: "('t \<Rightarrow> shape) \<Rightarrow> 't Index list \<Rightarrow> operand list \<Rightarrow> operand list \<Rightarrow> PlacementSignature res" where
  "GetItem_GetPlacementSignature tshape indexVec inputs outputs =
     assertR (length inputs = 1)
      (bindR (GetItem_infer tshape indexVec (inputs ! 0)) (\<lambda>(outShape, s).
        BuildRules (length inputs) (length outputs) (gsRules s @ [([Partial], [Partial])])))"

definition GetItem_keeps :: "('t \<Rightarrow> shape) \<Rightarrow> 't Index list \<Rightarrow> operand \<Rightarrow> bool" where
  "GetItem_keeps tshape indexVec x = (case GetItem_infer tshape indexVec x of Inl _ \<Rightarrow> True | Inr (_, s) \<Rightarrow> gsKeep s)"

definition GetItem_class :: "('t \<Rightarrow> shape) \<Rightarrow> 't Index list \<Rightarrow> operand \<Rightarrow> op_class" where
  "GetItem_class tshape indexVec x = \<lparr>vIsRequireInputSameDataKind = True, vCheckInput = (\<lambda>_. Inr ()), vInferOutputSize = 1,
     vInferOutputMetaInfo = GetItem_InferOutputMetaInfo tshape indexVec,
     vSkipDistributedSpec = SkipDistributedSpecFromPlacementSignature,
     vGetPlacementSignature = GetItem_GetPlacementSignature tshape indexVec,
     vKeepSubSplitCoordinates = GetItem_keeps tshape indexVec x\<rparr>"

section \<open>The operator set_item\<close>

definition SetItem_InferOutputMetaInfo :: "('t \<Rightarrow> shape) \<Rightarrow> 't Index list \<Rightarrow> operand list \<Rightarrow> operand list \<Rightarrow> operand list res" where
  "SetItem_InferOutputMetaInfo tshape indexVec inputs outputs =
     assertR (length inputs = 2)
      (assertR (length outputs = 1)
       (let a = inputs ! 0; b = inputs ! 1 in
        bindR (ComputeIndexedShape tshape (oShape a) indexVec) (\<lambda>(indexedShape, normal).
        bindR (BroadcastOutputShape indexedShape (oShape b)) (\<lambda>broadcastShape.
          requireR (\<not> broadcastShape \<noteq> indexedShape)
           (UpdateOutput 0 (MetaDataSameAs a) outputs)))))"

definition SetItem_class :: "('t \<Rightarrow> shape) \<Rightarrow> 't Index list \<Rightarrow> op_class" where
  "SetItem_class tshape indexVec = keep_class True (\<lambda>_. Inr ()) (SetItem_InferOutputMetaInfo tshape indexVec)"

section \<open>The number of entries of a slice\<close>

text \<open>For a positive step a slice that is not empty has as many entries as the arithmetic progression it denotes.\<close>

lemma progression_count:
  fixes first past inc :: int
  assumes "0 < inc" "first < past"
  shows "int (card {i. first \<le> i \<and> i < past \<and> inc dvd i - first}) = (past - first - 1) div inc + 1"
proof -
  let ?q = "(past - first - 1) div inc"
  have q: "0 \<le> ?q" using assms by (simp add: pos_imp_zdiv_nonneg_iff)
  have "{i. first \<le> i \<and> i < past \<and> inc dvd i - first} = (\<lambda>k. first + inc * k) ` {0..?q}"
  proof (intro set_eqI iffI)
    fix i assume "i \<in> {i. first \<le> i \<and> i < past \<and> inc dvd i - first}"
    then obtain k where "i - first = inc * k" "0 \<le> i - first" "i - first \<le> past - first - 1" by (auto elim: dvdE)
    then have k: "i = first + inc * k" "0 \<le> inc * k" "inc * k \<le> past - first - 1" by simp_all
    then have "k \<le> ?q" using zdiv_mono1 [OF k(3) assms(1)] assms(1) by simp
    with k assms(1) show "i \<in> (\<lambda>k. first + inc * k) ` {0..?q}" by (auto simp: zero_le_mult_iff)
  next
    fix i assume "i \<in> (\<lambda>k. first + inc * k) ` {0..?q}"
    then obtain k where i: "i = first + inc * k" and "k \<in> {0..?q}" by (rule imageE)
    then have k: "0 \<le> k" "k \<le> ?q" by simp_all
    then have "inc * k \<le> inc * ?q" using assms(1) by simp
    also have "inc * ?q \<le> past - first - 1"
      using mult_div_mod_eq [of inc "past - first - 1"] pos_mod_sign [OF assms(1), of "past - first - 1"] by linarith
    finally show "i \<in> {i. first \<le> i \<and> i < past \<and> inc dvd i - first}" using i k assms(1) by auto
  qed
  moreover have "inj_on (\<lambda>k. first + inc * k) {0..?q}" using assms(1) by (auto simp: inj_on_def)
  ultimately have "card {i. first \<le> i \<and> i < past \<and> inc dvd i - first} = card {0..?q}" by (simp add: card_image)
  with q show ?thesis by simp
qed

lemma CheckSlice_count:
  fixes dimSize :: int and sl :: Slice
  defines "first \<equiv> ClampBound dimSize 0 (start sl)" and "past \<equiv> ClampBound dimSize dimSize (stop sl)"
    and "inc \<equiv> (case step sl of None \<Rightarrow> 1 | Some v \<Rightarrow> v)"
  assumes "0 < inc" "first < past \<or> inc = 1"
  shows "CheckSlice dimSize sl = Inr (int (card {i. first \<le> i \<and> i < past \<and> inc dvd i - first}))"
proof (cases "first < past")
  case True
  then have "quotR (past - first - 1) inc = Inr ((past - first - 1) div inc)" using assms(4) by simp
  moreover have "0 \<le> (past - first - 1) div inc" using True assms(4) by (simp add: pos_imp_zdiv_nonneg_iff)
  ultimately show ?thesis using progression_count [OF assms(4) True]
    by (simp add: CheckSlice_def Let_def first_def past_def inc_def)
next
  case False
  with assms(5) have one: "inc = 1" by simp
  have none: "{i. first \<le> i \<and> i < past \<and> inc dvd i - first} = {}" using False by auto
  have "quotR (past - first - 1) 1 = Inr (past - first - 1)" by (simp add: quotR_def quot_def sgn_if)
  with False one show ?thesis unfolding none by (simp add: CheckSlice_def Let_def first_def past_def inc_def)
qed

text \<open>An empty slice with a larger step is given one entry, because the quotient is rounded towards zero.\<close>

lemma CheckSlice_empty: "CheckSlice 10 \<lparr>start = Some 3, stop = Some 3, step = Some 2\<rparr> = Inr 1"
  by code_simp

section \<open>Pieces are indexed like the tensor\<close>

text \<open>The shape and the rules as functions of the rest of the indices and of the next axis.\<close>

fun IndexedFrom :: "shape \<Rightarrow> nat \<Rightarrow> 't Index list \<Rightarrow> nat \<Rightarrow> shape res" where
  "IndexedFrom s r [] i = Inr (drop i s)"
| "IndexedFrom s r (IntegerIndex n # iv) i =
     bindR (at_nat s i) (\<lambda>d. bindR (CheckInteger d n) (\<lambda>_. IndexedFrom s r iv (i + 1)))"
| "IndexedFrom s r (TensorIndex t # iv) i = IndexedFrom s r iv (i + 1)"
| "IndexedFrom s r (NoneIndex # iv) i = bindR (IndexedFrom s r iv i) (\<lambda>p. Inr (1 # p))"
| "IndexedFrom s r (EllipsisIndex # iv) i =
     bindR (mapR (at_nat s) [i..<i + r]) (\<lambda>z. bindR (IndexedFrom s r iv (i + r)) (\<lambda>p. Inr (z @ p)))"
| "IndexedFrom s r (SliceIndex sl # iv) i =
     bindR (at_nat s i) (\<lambda>d. bindR (CheckSlice d sl) (\<lambda>n. bindR (IndexedFrom s r iv (i + 1)) (\<lambda>p. Inr (n # p))))"

fun Kept :: "shape \<Rightarrow> nat \<Rightarrow> 't Index list \<Rightarrow> nat \<Rightarrow> shape \<Rightarrow> nat \<Rightarrow> (nat \<times> nat) list" where
  "Kept s r [] i p j = map (\<lambda>k. (i + k, j + k)) [0..<length s - i]"
| "Kept s r (IntegerIndex n # iv) i p j = Kept s r iv (i + 1) p j"
| "Kept s r (TensorIndex t # iv) i p j = Kept s r iv (i + 1) p j"
| "Kept s r (NoneIndex # iv) i p j = Kept s r iv i (tl p) (j + 1)"
| "Kept s r (EllipsisIndex # iv) i p j = map (\<lambda>k. (i + k, j + k)) [0..<r] @ Kept s r iv (i + r) (drop r p) (j + r)"
| "Kept s r (SliceIndex sl # iv) i p j = (if s ! i = hd p then [(i, j)] else []) @ Kept s r iv (i + 1) (tl p) (j + 1)"

lemma mapR_at_nat_range: "mapR (at_nat s) [i..<i + r] = (if r = 0 \<or> i + r \<le> length s then Inr (take r (drop i s)) else Inl Abort)"
proof -
  have "mapR (at_nat s) [i..<i + r] = (if \<forall>k \<in> set [i..<i + r]. k < length s then Inr (map ((!) s) [i..<i + r]) else Inl Abort)"
    unfolding at_nat_def by (rule mapR_guard)
  moreover have "(\<forall>k \<in> set [i..<i + r]. k < length s) \<longleftrightarrow> r = 0 \<or> i + r \<le> length s"
  proof
    assume "\<forall>k \<in> set [i..<i + r]. k < length s"
    then have "r \<noteq> 0 \<longrightarrow> i + r - 1 < length s" by simp
    then show "r = 0 \<or> i + r \<le> length s" by auto
  qed auto
  moreover have "map ((!) s) [i..<i + r] = take r (drop i s)" if "r = 0 \<or> i + r \<le> length s"
    using that by (intro nth_equalityI) auto
  ultimately show ?thesis by simp
qed

lemma foldR_IndexStep:
  "bindR (foldR (IndexStep s r) iv (acc, i)) (\<lambda>(acc, i). Inr (acc @ drop i s)) =
   bindR (IndexedFrom s (nat r) iv i) (\<lambda>p. Inr (acc @ p))"
proof (induction iv arbitrary: acc i)
  case Nil
  then show ?case by simp
next
  case (Cons index iv)
  note IH = Cons.IH
  show ?case
  proof (cases index)
    case (SliceIndex sl)
    show ?thesis
    proof (cases "at_nat s i")
      case (Inr d)
      with SliceIndex IH show ?thesis by (cases "CheckSlice d sl") (simp_all add: IndexStep_def bindR_assoc)
    qed (use SliceIndex in \<open>simp add: IndexStep_def\<close>)
  next
    case (IntegerIndex n)
    show ?thesis
    proof (cases "at_nat s i")
      case (Inr d)
      with IntegerIndex IH show ?thesis by (cases "CheckInteger d n") (simp_all add: IndexStep_def)
    qed (use IntegerIndex in \<open>simp add: IndexStep_def\<close>)
  next
    case EllipsisIndex
    with IH show ?thesis by (cases "mapR (at_nat s) [i..<i + nat r]") (simp_all add: IndexStep_def bindR_assoc)
  qed (use IH in \<open>simp_all add: IndexStep_def bindR_assoc\<close>)
qed

text \<open>Kept axes lie in both shapes, have the same size in both, and the map between them is injective.\<close>

lemma Kept_range:
  assumes "IndexedFrom s r iv i = Inr p" and "(d, e) \<in> set (Kept s r iv i p j)"
  shows "i \<le> d \<and> d < length s \<and> j \<le> e \<and> e < j + length p \<and> p ! (e - j) = s ! d"
  using assms
proof (induction iv arbitrary: i p j)
  case Nil
  then show ?case by auto
next
  case (Cons index iv)
  show ?case
  proof (cases index)
    case NoneIndex
    with Cons.prems obtain q where "IndexedFrom s r iv i = Inr q" "p = 1 # q" by (auto simp: bindR_eq_Inr)
    with Cons.IH [of i q "j + 1"] Cons.prems NoneIndex show ?thesis by (auto simp: nth_Cons')
  next
    case EllipsisIndex
    with Cons.prems obtain q where q: "IndexedFrom s r iv (i + r) = Inr q" "p = take r (drop i s) @ q" "r = 0 \<or> i + r \<le> length s"
      by (auto simp: bindR_eq_Inr mapR_at_nat_range split: if_splits)
    then have len: "length (take r (drop i s)) = r" by auto
    from Cons.prems(2) EllipsisIndex q(2) len consider k where "k < r" "d = i + k" "e = j + k"
      | "(d, e) \<in> set (Kept s r iv (i + r) q (j + r))" by auto
    then show ?thesis
    proof cases
      case 1
      with q len show ?thesis by (auto simp: nth_append)
    next
      case 2
      with Cons.IH [OF q(1) 2] q(2) len show ?thesis by (auto simp: nth_append diff_diff_left)
    qed
  next
    case (SliceIndex sl)
    with Cons.prems obtain n q where q: "i < length s" "IndexedFrom s r iv (i + 1) = Inr q" "p = n # q"
      by (auto simp: bindR_eq_Inr at_nat_def guardR_eq_Inr)
    from Cons.prems(2) SliceIndex q(3) consider "s ! i = n" "d = i" "e = j" | "(d, e) \<in> set (Kept s r iv (i + 1) q (j + 1))"
      by (auto split: if_splits)
    then show ?thesis
    proof cases
      case 2
      with Cons.IH [OF q(2) 2] q(3) show ?thesis by (auto simp: nth_Cons')
    qed (use q in simp)
  qed (use Cons in \<open>fastforce simp: bindR_eq_Inr at_nat_def guardR_eq_Inr\<close>)+
qed

lemma Kept_distinct:
  assumes "IndexedFrom s r iv i = Inr p"
  shows "distinct (map fst (Kept s r iv i p j)) \<and> distinct (map snd (Kept s r iv i p j))"
  using assms
proof (induction iv arbitrary: i p j)
  case Nil
  then show ?case by (simp add: comp_def distinct_map inj_on_def)
next
  case (Cons index iv)
  show ?case
  proof (cases index)
    case EllipsisIndex
    with Cons.prems obtain q where q: "IndexedFrom s r iv (i + r) = Inr q" "p = take r (drop i s) @ q" "r = 0 \<or> i + r \<le> length s"
      by (auto simp: bindR_eq_Inr mapR_at_nat_range split: if_splits)
    then have d: "drop r p = q" by auto
    have "\<forall>(a, b) \<in> set (Kept s r iv (i + r) q (j + r)). i + r \<le> a \<and> j + r \<le> b" using Kept_range [OF q(1)] by blast
    with Cons.IH [OF q(1), of "j + r"] EllipsisIndex d show ?thesis
      by (fastforce simp: comp_def distinct_map inj_on_def)
  next
    case (SliceIndex sl)
    with Cons.prems obtain n q where q: "IndexedFrom s r iv (i + 1) = Inr q" "p = n # q" by (auto simp: bindR_eq_Inr)
    have "\<forall>(a, b) \<in> set (Kept s r iv (i + 1) q (j + 1)). i + 1 \<le> a \<and> j + 1 \<le> b" using Kept_range [OF q(1)] by blast
    with Cons.IH [OF q(1), of "j + 1"] SliceIndex q(2) show ?thesis by fastforce
  next
    case NoneIndex
    with Cons.prems obtain q where q: "IndexedFrom s r iv i = Inr q" "p = 1 # q" by (auto simp: bindR_eq_Inr)
    with Cons.IH [OF q(1), of "j + 1"] NoneIndex show ?thesis by simp
  qed (use Cons in \<open>simp_all add: bindR_eq_Inr, blast?\<close>)
qed

lemma SubSplitSlice_plain:
  assumes "list_all plain_placement ps"
  shows "foldR (SubSplitSlice shards) ps acc = Inr acc"
  using assms by (induction ps) (auto simp: SubSplitSlice_def plain_placement_def split: prod.splits)

lemma ScanStep_rules:
  assumes "foldR (ScanStep x t r) iv st = Inr st'" and "list_all plain_placement (oPlacementSeq x)"
    and "IndexedFrom (oShape x) (nat r) iv (gsIn st) = Inr (drop (gsOut st) t)"
  shows "gsRules st' @ map (\<lambda>k. axis_rule (gsIn st' + k) (gsOut st' + k)) [0..<length (oShape x) - gsIn st'] =
      gsRules st @ map (\<lambda>(a, b). axis_rule a b) (Kept (oShape x) (nat r) iv (gsIn st) (drop (gsOut st) t) (gsOut st)) \<and>
    gsKeep st' = gsKeep st \<and> gsIndexVec st' = gsIndexVec st @ iv"
  using assms(1,3)
proof (induction iv arbitrary: st)
  case Nil
  then show ?case by (simp add: comp_def)
next
  case (Cons index iv)
  from Cons.prems(1) obtain st1 where st1: "ScanStep x t r index st = Inr st1" "foldR (ScanStep x t r) iv st1 = Inr st'"
    by (auto simp: bindR_eq_Inr)
  have tl: "tl (drop n t) = drop (Suc n) t" for n by (simp add: drop_Suc tl_drop)
  show ?case
  proof (cases index)
    case NoneIndex
    with Cons.prems(2) obtain q where q: "IndexedFrom (oShape x) (nat r) iv (gsIn st) = Inr q" "drop (gsOut st) t = 1 # q"
      by (auto simp: bindR_eq_Inr)
    then have "drop (Suc (gsOut st)) t = q" using tl [of "gsOut st"] by simp
    with Cons.IH [OF st1(2)] st1(1) NoneIndex q show ?thesis by (auto simp: ScanStep_def)
  next
    case EllipsisIndex
    with Cons.prems(2) obtain q where q: "IndexedFrom (oShape x) (nat r) iv (gsIn st + nat r) = Inr q"
      "drop (gsOut st) t = take (nat r) (drop (gsIn st) (oShape x)) @ q" "nat r = 0 \<or> gsIn st + nat r \<le> length (oShape x)"
      by (auto simp: bindR_eq_Inr mapR_at_nat_range split: if_splits)
    have "drop (nat r) (drop (gsOut st) t) = q" unfolding q(2) using q(3) by auto
    then have "drop (gsOut st + nat r) t = q" by (simp add: add.commute)
    with Cons.IH [OF st1(2)] st1(1) EllipsisIndex q(1) show ?thesis by (auto simp: ScanStep_def comp_def add.commute [of "nat r" "gsOut st"])
  next
    case (SliceIndex sl)
    with Cons.prems(2) obtain n q where q: "gsIn st < length (oShape x)" "IndexedFrom (oShape x) (nat r) iv (gsIn st + 1) = Inr q"
      "n # q = drop (gsOut st) t" by (auto simp: bindR_eq_Inr at_nat_def guardR_eq_Inr)
    then have ht: "drop (gsOut st) t = n # q" "hd (drop (gsOut st) t) = n" "tl (drop (gsOut st) t) = q"
      by (simp_all add: q(3) [symmetric])
    from ht(1) have d: "drop (Suc (gsOut st)) t = q" "gsOut st < length t" "t ! gsOut st = n"
      using tl [of "gsOut st"] by (auto simp: hd_drop_conv_nth [symmetric]) (metis drop_all leI list.distinct(1), metis drop_all hd_drop_conv_nth leI list.distinct(1) list.sel(1))
    from st1(1) SliceIndex SubSplitSlice_plain [OF assms(2)] q(1) d(2,3)
    have "st1 = st\<lparr>gsRules := gsRules st @ (if oShape x ! gsIn st = n then [axis_rule (gsIn st) (gsOut st)] else []),
        gsIndexVec := gsIndexVec st @ [SliceIndex sl], gsIn := gsIn st + 1, gsOut := gsOut st + 1\<rparr>"
      by (auto simp: ScanStep_def at_nat_def bindR_eq_Inr Let_def)
    with Cons.IH [OF st1(2)] SliceIndex q(2) d(1) ht(2,3) show ?thesis by (auto simp del: hd_drop_conv_nth)
  next
    case (IntegerIndex n)
    with Cons.prems(2) have "IndexedFrom (oShape x) (nat r) iv (gsIn st + 1) = Inr (drop (gsOut st) t)" by (auto simp: bindR_eq_Inr)
    moreover from st1(1) IntegerIndex have "st1 = st\<lparr>gsIndexVec := gsIndexVec st @ [index], gsIn := gsIn st + 1\<rparr>"
      by (simp add: ScanStep_def)
    ultimately show ?thesis using Cons.IH [OF st1(2)] IntegerIndex by auto
  next
    case (TensorIndex u)
    from st1(1) TensorIndex have "st1 = st\<lparr>gsIndexVec := gsIndexVec st @ [index], gsIn := gsIn st + 1\<rparr>"
      by (simp add: ScanStep_def)
    with Cons.IH [OF st1(2)] Cons.prems(2) TensorIndex show ?thesis by auto
  qed
qed

text \<open>A slice that keeps a whole axis keeps the pieces of the axis too, when its step is positive.\<close>

definition positive_step :: "'t Index \<Rightarrow> bool" where
  "positive_step index \<longleftrightarrow> (case index of SliceIndex sl \<Rightarrow> (case step sl of None \<Rightarrow> True | Some v \<Rightarrow> 0 < v) | _ \<Rightarrow> True)"

lemma ClampBound_range: "0 \<le> n \<Longrightarrow> 0 \<le> dflt \<Longrightarrow> dflt \<le> n \<Longrightarrow> 0 \<le> ClampBound n dflt v \<and> ClampBound n dflt v \<le> n"
  by (auto simp: ClampBound_def Let_def split: option.splits)

lemma CheckSlice_whole:
  assumes "CheckSlice n sl = Inr n" and "positive_step (SliceIndex sl)" and "1 \<le> n'" and "n' \<le> n"
  shows "CheckSlice n' sl = Inr n'"
proof -
  define inc where "inc = (case step sl of None \<Rightarrow> 1 | Some v \<Rightarrow> v)"
  define first where "first = ClampBound n 0 (start sl)"
  define past where "past = ClampBound n n (stop sl)"
  have inc: "0 < inc" using assms(2) by (auto simp: inc_def positive_step_def split: option.splits)
  have b: "0 \<le> first" "first \<le> n" "0 \<le> past" "past \<le> n"
    using ClampBound_range [of n 0 "start sl"] ClampBound_range [of n n "stop sl"] assms(3,4) by (simp_all add: first_def past_def)
  have res: "n = (let result = quot (past - first - 1) inc + 1 in if result < 0 then 0 else result)"
    using assms(1) inc by (simp add: CheckSlice_def Let_def quotR_def inc_def [symmetric] first_def [symmetric] past_def [symmetric])
  have n: "n = 1 \<or> (2 \<le> n \<and> inc = 1 \<and> first = 0 \<and> past = n)"
  proof (cases "n = 1")
    case False
    with assms(3,4) have two: "2 \<le> n" by simp
    with res have q: "quot (past - first - 1) inc = n - 1" by (auto simp: Let_def split: if_splits)
    have nn: "0 \<le> past - first - 1"
    proof (rule ccontr)
      assume "\<not> 0 \<le> past - first - 1"
      then have "quot (past - first - 1) inc \<le> 0" using inc by (simp add: quot_def pos_imp_zdiv_nonneg_iff)
      with q two show False by simp
    qed
    with q inc have "n - 1 = (past - first - 1) div inc" by simp
    moreover have "inc * ((past - first - 1) div inc) \<le> past - first - 1"
      using mult_div_mod_eq [of inc "past - first - 1"] pos_mod_sign [OF inc, of "past - first - 1"] by linarith
    ultimately have le: "inc * (n - 1) \<le> past - first - 1" by metis
    have "inc = 1"
    proof (rule ccontr)
      assume "inc \<noteq> 1"
      with inc have "2 \<le> inc" by simp
      then have "2 * (n - 1) \<le> inc * (n - 1)" using two by (intro mult_right_mono) simp_all
      with le b two show False by simp
    qed
    with le b two show ?thesis by simp
  qed simp
  show ?thesis
  proof (cases "n = 1")
    case True
    with assms(3,4) have "n' = n" by simp
    with assms(1) show ?thesis by simp
  next
    case False
    with n have one: "2 \<le> n" "inc = 1" "first = 0" "past = n" by simp_all
    have "ClampBound n' 0 (start sl) = 0" using one(1,3) assms(3,4)
      by (auto simp: first_def ClampBound_def Let_def split: option.splits if_splits)
    moreover have "ClampBound n' n' (stop sl) = n'" using one(1,4) assms(3,4)
      by (auto simp: past_def ClampBound_def Let_def split: option.splits if_splits)
    moreover have "quotR (n' - 0 - 1) 1 = Inr (n' - 1)" using assms(3) by simp
    ultimately show ?thesis using one(2) assms(3) by (simp add: CheckSlice_def Let_def inc_def [symmetric])
  qed
qed

text \<open>The shape follows when kept axes become smaller and all others stay.\<close>

lemma IndexedFrom_resize:
  assumes "IndexedFrom s r iv i = Inr p" and "list_all positive_step iv" and "length s' = length s" and "length p' = length p"
    and kept: "\<And>d e. (d, e) \<in> set (Kept s r iv i p j) \<Longrightarrow> p' ! (e - j) = s' ! d \<and> (s' ! d = s ! d \<or> 1 \<le> s' ! d \<and> s' ! d \<le> s ! d)"
    and gone: "\<And>d. i \<le> d \<Longrightarrow> d < length s \<Longrightarrow> d \<notin> fst ` set (Kept s r iv i p j) \<Longrightarrow> s' ! d = s ! d"
    and new: "\<And>e. e < length p \<Longrightarrow> j + e \<notin> snd ` set (Kept s r iv i p j) \<Longrightarrow> p' ! e = p ! e"
  shows "IndexedFrom s' r iv i = Inr p'"
  using assms
proof (induction iv arbitrary: i j p p')
  case Nil
  from Nil.prems(1) have p: "p = drop i s" by simp
  have "p' ! k = s' ! (i + k)" if "k < length s - i" for k
    using Nil.prems(5) [of "i + k" "j + k"] that by auto
  then have "p' = drop i s'" using Nil.prems(3,4) p by (intro nth_equalityI) auto
  then show ?case by simp
next
  case (Cons index iv)
  note prems = Cons.prems
  from prems(2) have pos: "list_all positive_step iv" by simp
  show ?case
  proof (cases index)
    case (IntegerIndex n)
    with prems(1) have a: "i < length s" "CheckInteger (s ! i) n = Inr ()" "IndexedFrom s r iv (i + 1) = Inr p"
      by (auto simp: bindR_eq_Inr at_nat_def guardR_eq_Inr)
    have "i \<notin> fst ` set (Kept s r iv (i + 1) p j)" using Kept_range [OF a(3)] by fastforce
    with prems(6) [of i] a(1) IntegerIndex have "s' ! i = s ! i" by simp
    moreover have "IndexedFrom s' r iv (i + 1) = Inr p'"
      by (rule Cons.IH [OF a(3) pos prems(3,4), of j]) (use prems(5-7) IntegerIndex in auto)
    ultimately show ?thesis using IntegerIndex a prems(3) by (simp add: at_nat_def)
  next
    case (TensorIndex t)
    with prems(1) have a: "IndexedFrom s r iv (i + 1) = Inr p" by simp
    have "IndexedFrom s' r iv (i + 1) = Inr p'"
      by (rule Cons.IH [OF a pos prems(3,4), of j]) (use prems(5-7) TensorIndex in auto)
    then show ?thesis using TensorIndex by simp
  next
    case NoneIndex
    with prems(1) obtain q where q: "IndexedFrom s r iv i = Inr q" "p = 1 # q" by (auto simp: bindR_eq_Inr)
    with prems(4) obtain v q' where p': "p' = v # q'" "length q' = length q" by (cases p') auto
    have K: "Kept s r (index # iv) i p j = Kept s r iv i q (j + 1)" using NoneIndex q(2) by simp
    have ge: "\<And>d e. (d, e) \<in> set (Kept s r iv i q (j + 1)) \<Longrightarrow> j + 1 \<le> e" using Kept_range [OF q(1)] by blast
    have "j + 0 \<notin> snd ` set (Kept s r iv i q (j + 1))" using ge by fastforce
    with prems(7) [of 0] K q(2) p'(1) have v: "v = 1" by simp
    have "IndexedFrom s' r iv i = Inr q'"
    proof (rule Cons.IH [OF q(1) pos prems(3) p'(2), of "j + 1"])
      fix d e assume de: "(d, e) \<in> set (Kept s r iv i q (j + 1))"
      with prems(5) [of d e] ge [OF de] K p'(1)
      show "q' ! (e - (j + 1)) = s' ! d \<and> (s' ! d = s ! d \<or> 1 \<le> s' ! d \<and> s' ! d \<le> s ! d)" by (auto simp: nth_Cons')
    next
      fix e assume "e < length q" "j + 1 + e \<notin> snd ` set (Kept s r iv i q (j + 1))"
      with prems(7) [of "e + 1"] K q(2) p'(1) show "q' ! e = q ! e" by simp
    qed (use prems(6) K in auto)
    then show ?thesis using NoneIndex v p'(1) by simp
  next
    case EllipsisIndex
    with prems(1) obtain q where q: "IndexedFrom s r iv (i + r) = Inr q" "p = take r (drop i s) @ q" and rr: "r = 0 \<or> i + r \<le> length s"
      by (auto simp: bindR_eq_Inr mapR_at_nat_range split: if_splits)
    then have len: "length (take r (drop i s)) = r" by auto
    then have "length p' = r + length q" using prems(4) q(2) by simp
    then have p': "p' = take r p' @ drop r p'" "length (drop r p') = length q" "length (take r p') = r" by auto
    have K: "Kept s r (index # iv) i p j = map (\<lambda>k. (i + k, j + k)) [0..<r] @ Kept s r iv (i + r) q (j + r)"
      using EllipsisIndex q(2) len by simp
    have ge: "\<And>d e. (d, e) \<in> set (Kept s r iv (i + r) q (j + r)) \<Longrightarrow> i + r \<le> d \<and> j + r \<le> e" using Kept_range [OF q(1)] by blast
    have front: "p' ! k = s' ! (i + k)" if "k < r" for k using prems(5) [of "i + k" "j + k"] that K by auto
    have "take r (drop i s') = take r p'" using front p'(3) rr prems(3) by (intro nth_equalityI) auto
    moreover have "IndexedFrom s' r iv (i + r) = Inr (drop r p')"
    proof (rule Cons.IH [OF q(1) pos prems(3) p'(2), of "j + r"])
      fix d e assume de: "(d, e) \<in> set (Kept s r iv (i + r) q (j + r))"
      with prems(5) [of d e] ge [OF de] K p'(1,3)
      show "drop r p' ! (e - (j + r)) = s' ! d \<and> (s' ! d = s ! d \<or> 1 \<le> s' ! d \<and> s' ! d \<le> s ! d)"
        using Kept_range [OF q(1) de] prems(4) q(2) len by auto
    next
      fix d assume d: "i + r \<le> d" "d < length s" "d \<notin> fst ` set (Kept s r iv (i + r) q (j + r))"
      then have "d \<notin> fst ` set (Kept s r (index # iv) i p j)" unfolding K by auto
      with prems(6) [of d] d show "s' ! d = s ! d" by simp
    next
      fix e assume e: "e < length q" "j + r + e \<notin> snd ` set (Kept s r iv (i + r) q (j + r))"
      then have "j + (r + e) \<notin> snd ` set (Kept s r (index # iv) i p j)" unfolding K by (auto simp: add.assoc)
      with prems(7) [of "r + e"] e(1) q(2) len p' prems(4) show "drop r p' ! e = q ! e" by (simp add: nth_append)
    qed
    ultimately show ?thesis using EllipsisIndex rr prems(3) p'(1) by (simp add: mapR_at_nat_range)
  next
    case (SliceIndex sl)
    with prems(1) obtain n q where a: "i < length s" "CheckSlice (s ! i) sl = Inr n" and q: "IndexedFrom s r iv (i + 1) = Inr q" "p = n # q"
      by (auto simp: bindR_eq_Inr at_nat_def guardR_eq_Inr)
    with prems(4) obtain v q' where p': "p' = v # q'" "length q' = length q" by (cases p') auto
    have K: "Kept s r (index # iv) i p j = (if s ! i = n then [(i, j)] else []) @ Kept s r iv (i + 1) q (j + 1)"
      using SliceIndex q(2) by simp
    have ge: "\<And>d e. (d, e) \<in> set (Kept s r iv (i + 1) q (j + 1)) \<Longrightarrow> i + 1 \<le> d \<and> j + 1 \<le> e" using Kept_range [OF q(1)] by blast
    have "CheckSlice (s' ! i) sl = Inr v"
    proof (cases "s ! i = n")
      case True
      with prems(5) [of i j] K p'(1) have "v = s' ! i" "s' ! i = s ! i \<or> 1 \<le> s' ! i \<and> s' ! i \<le> s ! i" by auto
      with True a(2) prems(2) SliceIndex CheckSlice_whole [of n sl "s' ! i"] show ?thesis by auto
    next
      case False
      have "i \<notin> fst ` set (Kept s r iv (i + 1) q (j + 1))" "j \<notin> snd ` set (Kept s r iv (i + 1) q (j + 1))" using ge by fastforce+
      with prems(6) [of i] prems(7) [of 0] K False a(1) q(2) p'(1) have "s' ! i = s ! i" "v = n" by simp_all
      with a(2) show ?thesis by simp
    qed
    moreover have "IndexedFrom s' r iv (i + 1) = Inr q'"
    proof (rule Cons.IH [OF q(1) pos prems(3) p'(2), of "j + 1"])
      fix d e assume de: "(d, e) \<in> set (Kept s r iv (i + 1) q (j + 1))"
      with prems(5) [of d e] ge [OF de] K p'(1)
      show "q' ! (e - (j + 1)) = s' ! d \<and> (s' ! d = s ! d \<or> 1 \<le> s' ! d \<and> s' ! d \<le> s ! d)" by (auto simp: nth_Cons')
    next
      fix d assume d: "i + 1 \<le> d" "d < length s" "d \<notin> fst ` set (Kept s r iv (i + 1) q (j + 1))"
      then have "d \<notin> fst ` set (Kept s r (index # iv) i p j)" unfolding K by auto
      with prems(6) [of d] d show "s' ! d = s ! d" by simp
    next
      fix e assume e: "e < length q" "j + 1 + e \<notin> snd ` set (Kept s r iv (i + 1) q (j + 1))"
      then have "j + (e + 1) \<notin> snd ` set (Kept s r (index # iv) i p j)" unfolding K by auto
      with prems(7) [of "e + 1"] e(1) q(2) p' show "q' ! e = q ! e" by simp
    qed
    ultimately show ?thesis using SliceIndex a(1) prems(3) p'(1) by (simp add: at_nat_def)
  qed
qed

text \<open>Indices without tensors; the interface of \<open>OpKit\<close> is stated for them.\<close>

definition no_tensors :: "'t Index list \<Rightarrow> 't Index list" where
  "no_tensors iv = filter (\<lambda>index. \<not> IsTensor index) iv"

definition IndexedShape :: "('t \<Rightarrow> shape) \<Rightarrow> 't Index list \<Rightarrow> shape \<Rightarrow> shape res" where
  "IndexedShape tshape iv s = bindR (ComputeIndexedShape tshape s iv) (\<lambda>(t, normal). Inr t)"

definition GetItem_map :: "'t Index list \<Rightarrow> shape \<Rightarrow> nat \<Rightarrow> nat option" where
  "GetItem_map iv s d = (case NormalizeEllipsis iv of
       Inl _ \<Rightarrow> None
     | Inr normal \<Rightarrow> let r = nat (RangeEllipsis s normal) in
         case IndexedFrom s r normal 0 of Inl _ \<Rightarrow> None | Inr p \<Rightarrow> map_of (Kept s r normal 0 p 0) d)"

lemma BroadcastTensors_none: "countIndex IsTensor iv = 0 \<Longrightarrow> BroadcastTensors tshape iv = Inr []"
  unfolding BroadcastTensors_def
proof (induction iv)
  case (Cons index iv)
  then show ?case by (cases index) (simp_all add: countIndex_def)
qed simp

lemma ComputeIndexedShape_eq:
  assumes "countIndex IsTensor iv = 0"
  shows "ComputeIndexedShape tshape s iv = bindR (NormalizeEllipsis iv) (\<lambda>normal.
    requireR (\<not> NumAxis s + countIndex IsNone normal < length normal - countIndex IsEllipsis normal)
     (bindR (IndexedFrom s (nat (RangeEllipsis s normal)) normal 0) (\<lambda>t. Inr (t, normal))))"
proof (cases "NormalizeEllipsis iv")
  case (Inr normal)
  have "bindR (foldR (IndexStep s (RangeEllipsis s normal)) normal ([], 0)) (\<lambda>(outShape, inIdx). Inr (outShape @ drop inIdx s, normal)) =
    bindR (bindR (foldR (IndexStep s (RangeEllipsis s normal)) normal ([], 0)) (\<lambda>(acc, i). Inr (acc @ drop i s))) (\<lambda>t. Inr (t, normal))"
    by (simp add: bindR_assoc split_def)
  also have "\<dots> = bindR (IndexedFrom s (nat (RangeEllipsis s normal)) normal 0) (\<lambda>t. Inr (t, normal))"
    unfolding foldR_IndexStep by (simp add: bindR_assoc)
  finally show ?thesis using assms Inr BroadcastTensors_none [OF assms]
    by (simp add: ComputeIndexedShape_def Let_def)
qed (simp add: ComputeIndexedShape_def BroadcastTensors_none [OF assms])

lemma no_tensors_count [simp]: "countIndex IsTensor (no_tensors iv) = 0"
  by (simp add: countIndex_def no_tensors_def)

lemma no_tensors_id: "countIndex IsTensor iv = 0 \<Longrightarrow> no_tensors iv = iv"
  by (auto simp: countIndex_def no_tensors_def filter_empty_conv filter_id_conv)

lemma IndexedShape_Inr:
  assumes "countIndex IsTensor iv = 0" and "IndexedShape tshape iv s = Inr t"
  obtains normal where "NormalizeEllipsis iv = Inr normal"
    and "ComputeIndexedShape tshape s iv = Inr (t, normal)"
    and "IndexedFrom s (nat (RangeEllipsis s normal)) normal 0 = Inr t"
    and "GetItem_map iv s = map_of (Kept s (nat (RangeEllipsis s normal)) normal 0 t 0)"
proof -
  from assms(2) obtain normal where c: "ComputeIndexedShape tshape s iv = Inr (t, normal)"
    by (auto simp: IndexedShape_def bindR_eq_Inr)
  then have n: "NormalizeEllipsis iv = Inr normal" "IndexedFrom s (nat (RangeEllipsis s normal)) normal 0 = Inr t"
    by (auto simp: ComputeIndexedShape_eq [OF assms(1)] bindR_eq_Inr guardR_eq_Inr)
  show ?thesis by (rule that [OF n(1) c n(2)]) (rule ext, simp add: GetItem_map_def n Let_def)
qed

lemma GetItem_rules:
  assumes iv: "countIndex IsTensor iv = 0" and plain: "list_all plain_placement (oPlacementSeq x)"
    and run: "GetItem_infer tshape iv x = Inr (t, s)"
  shows "IndexedShape tshape iv (oShape x) = Inr t \<and> gsKeep s \<and>
    (\<forall>r \<in> set (gsRules s). \<exists>d e. r = axis_rule d e \<and> GetItem_map iv (oShape x) d = Some e)"
proof -
  from run obtain normal where c: "ComputeIndexedShape tshape (oShape x) iv = Inr (t, normal)"
    and s: "(if Operand_IsDistributed x then GetItem_scan x t normal
            else Inr \<lparr>gsRules = [], gsKeep = True, gsIndexVec = normal, gsIn = 0, gsOut = 0\<rparr>) = Inr s"
    by (auto simp: GetItem_infer_def bindR_eq_Inr)
  then have shape: "IndexedShape tshape iv (oShape x) = Inr t" by (simp add: IndexedShape_def)
  from IndexedShape_Inr [OF iv shape] c
  have n: "IndexedFrom (oShape x) (nat (RangeEllipsis (oShape x) normal)) normal 0 = Inr t"
    "GetItem_map iv (oShape x) = map_of (Kept (oShape x) (nat (RangeEllipsis (oShape x) normal)) normal 0 t 0)"
    by (metis Inr_inject prod.inject)+
  show ?thesis
  proof (cases "Operand_IsDistributed x")
    case True
    let ?K = "Kept (oShape x) (nat (RangeEllipsis (oShape x) normal)) normal 0 t 0"
    let ?s0 = "\<lparr>gsRules = [], gsKeep = True, gsIndexVec = [], gsIn = 0, gsOut = 0\<rparr>"
    from s True obtain s1 where s1: "foldR (ScanStep x t (RangeEllipsis (oShape x) normal)) normal ?s0 = Inr s1"
      "s = s1\<lparr>gsRules := gsRules s1 @ map (\<lambda>i. axis_rule (gsIn s1 + i) (gsOut s1 + i)) [0..<NumAxis (oShape x) - gsIn s1]\<rparr>"
      by (auto simp: GetItem_scan_def bindR_eq_Inr)
    have "gsRules s = map (\<lambda>(a, b). axis_rule a b) ?K \<and> gsKeep s"
      using ScanStep_rules [OF s1(1) plain] n(1) s1(2) by simp
    moreover have "map_of ?K d = Some e" if "(d, e) \<in> set ?K" for d e
      using Kept_distinct [OF n(1), of 0] that by simp
    ultimately show ?thesis using shape n(2) by auto
  qed (use s shape in auto)
qed

interpretation get_item: dim_map_layout "GetItem_class tshape (no_tensors iv) x0" "IndexedShape tshape (no_tensors iv)"
  "GetItem_map (no_tensors iv)" for tshape iv x0
proof
  fix x y0 ys
  assume "vInferOutputMetaInfo (GetItem_class tshape (no_tensors iv) x0) [x] [y0] = Inr ys"
  then show "\<exists>y. ys = [y] \<and> IndexedShape tshape (no_tensors iv) (oShape x) = Inr (oShape y)"
    by (auto simp: GetItem_class_def GetItem_InferOutputMetaInfo_def GetItem_infer_def IndexedShape_def UpdateOutput_def
        bindR_eq_Inr SetShapeAndStride_def)
next
  fix x y :: operand and sig
  assume plain: "list_all plain_placement (oPlacementSeq x)"
    and "vGetPlacementSignature (GetItem_class tshape (no_tensors iv) x0) [x] [y] = Inr sig"
  then obtain t s where s: "GetItem_infer tshape (no_tensors iv) x = Inr (t, s)"
    "BuildRules 1 1 (gsRules s @ [([Partial], [Partial])]) = Inr sig"
    by (auto simp: GetItem_class_def GetItem_GetPlacementSignature_def bindR_eq_Inr)
  from GetItem_rules [OF no_tensors_count plain s(1)]
  have "\<forall>r \<in> set (gsRules s @ [([Partial], [Partial])]). follows_in (length (oShape x)) (GetItem_map (no_tensors iv) (oShape x)) r"
    by (auto simp: axis_rule_def intro!: follows_inI follows_Shard)
  with s(2) show "\<exists>rules. BuildRules 1 1 rules = Inr sig \<and>
      (\<forall>r \<in> set rules. follows_in (length (oShape x)) (GetItem_map (no_tensors iv) (oShape x)) r)" by blast
next
  fix s t :: shape and d e d'
  assume "IndexedShape tshape (no_tensors iv) s = Inr t"
  then obtain normal where "NormalizeEllipsis (no_tensors iv) = Inr normal"
    and i: "IndexedFrom s (nat (RangeEllipsis s normal)) normal 0 = Inr t"
    and m: "GetItem_map (no_tensors iv) s = map_of (Kept s (nat (RangeEllipsis s normal)) normal 0 t 0)"
    by (rule IndexedShape_Inr [OF no_tensors_count]) blast
  assume "GetItem_map (no_tensors iv) s d = Some e"
  then have de: "(d, e) \<in> set (Kept s (nat (RangeEllipsis s normal)) normal 0 t 0)" unfolding m by (rule map_of_SomeD)
  from Kept_range [OF i de] show "d < length s \<and> e < length t" "t ! e = s ! d" by simp_all
  assume "GetItem_map (no_tensors iv) s d' = Some e"
  then have de': "(d', e) \<in> set (Kept s (nat (RangeEllipsis s normal)) normal 0 t 0)" unfolding m by (rule map_of_SomeD)
  from Kept_distinct [OF i, of 0] have "inj_on snd (set (Kept s (nat (RangeEllipsis s normal)) normal 0 t 0))"
    by (simp add: distinct_map)
  from inj_onD [OF this _ de de'] show "d = d'" by simp
qed

lemma piece_size_le:
  fixes n k j :: int
  assumes "2 \<le> k" "k \<le> n"
  shows "piece_size n k j \<le> n"
proof -
  have q: "1 \<le> n div k" using zdiv_mono1 [of k n k] assms by simp
  then have "2 * (n div k) \<le> k * (n div k)" using assms(1) by (intro mult_right_mono) simp_all
  moreover have "k * (n div k) + n mod k = n" by (rule mult_div_mod_eq)
  moreover have "0 \<le> n mod k" using assms(1) by simp
  ultimately have "n div k + 1 \<le> n" using q by linarith
  then show ?thesis by (simp add: piece_size_def)
qed

lemma local_size_bounds:
  assumes "layout_ok s m ps" and "d < length s"
  shows "local_size (Mesh_Shape m) ps s cs d = s ! d \<or>
    1 \<le> local_size (Mesh_Shape m) ps s cs d \<and> local_size (Mesh_Shape m) ps s cs d \<le> s ! d"
proof (cases "shard_axes ps d = {}")
  case False
  then have "d \<in> sharded_dims ps" by (simp add: sharded_dims_def)
  note c = layout_ok_counts [OF assms(1) this]
  from False obtain i where i: "i \<in> shard_axes ps d" by blast
  then have "i < length ps" "IsShard (ps ! i)" by (simp_all add: shard_axes_def IsShardAt_def)
  then have two: "2 \<le> Mesh_Shape m ! i" using assms(1) by (simp add: layout_ok_def)
  have "finite (shard_axes ps d)" by (simp add: shard_axes_def)
  then have "Mesh_Shape m ! i dvd shard_count (Mesh_Shape m) ps d" unfolding shard_count_def using i by (rule dvd_prodI)
  with c have "Mesh_Shape m ! i \<le> shard_count (Mesh_Shape m) ps d" by (intro zdvd_imp_le) simp_all
  with two c have "2 \<le> shard_count (Mesh_Shape m) ps d" "shard_count (Mesh_Shape m) ps d \<le> s ! d" by simp_all
  then have "local_size (Mesh_Shape m) ps s cs d \<le> s ! d" by (simp add: local_size_def piece_size_le)
  with local_size_sharded_pos [OF assms(1) False] show ?thesis by simp
qed (simp add: local_size_unsharded)

lemma NormalizeEllipsis_set: "NormalizeEllipsis iv = Inr normal \<Longrightarrow> set normal \<subseteq> set iv"
  by (auto simp: NormalizeEllipsis_def Let_def guardR_eq_Inr dest: in_set_butlastD split: if_splits)

text \<open>C27: indexing is local: when the inference of a distributed \<open>get_item\<close> with integers, slices of positive step, new axes
  and an ellipsis succeeds, then on every device the same indices are valid for the local tensor and select a tensor of
  the local shape of the inferred layout, so no index reaches across a cut.\<close>

theorem GetItem_layout_sound:
  assumes run: "InferOutput gpus (GetItem_class tshape iv x) [x] [Operand_new] = Inr ys" and dist: "Operand_IsDistributed x"
    and plain: "list_all plain_placement (oPlacementSeq x)" and ne: "oPlacementSeq x \<noteq> []"
    and null: "\<not> IsNullTensorShape (oShape x)" and wf: "Mesh_wf (oDeviceMesh x)"
    and iv: "countIndex IsTensor iv = 0" "list_all positive_step iv"
  shows "\<exists>y normal. ys = [y] \<and> ComputeIndexedShape tshape (oShape x) iv = Inr (oShape y, normal) \<and> oDeviceMesh y = oDeviceMesh x \<and>
    (\<forall>cs. ComputeIndexedShape tshape (local_shape (Mesh_Shape (oDeviceMesh x)) (oPlacementSeq x) (oShape x) cs) iv =
      Inr (local_shape (Mesh_Shape (oDeviceMesh x)) (oPlacementSeq y) (oShape y) cs, normal))"
proof -
  have id: "no_tensors iv = iv" by (rule no_tensors_id [OF iv(1)])
  have skip: "vSkipDistributedSpec (GetItem_class tshape iv x) [x] = Inr False"
    using dist by (simp add: GetItem_class_def SkipDistributedSpecFromPlacementSignature_def)
  from get_item.inferred_follows [of gpus tshape iv x x Operand_new ys, unfolded id, OF run skip plain ne null]
  obtain y where y: "ys = [y]" "IndexedShape tshape iv (oShape x) = Inr (oShape y)" "oDeviceMesh y = oDeviceMesh x"
    "length (oPlacementSeq y) = length (oPlacementSeq x)"
    and f: "\<And>i. i < length (oPlacementSeq x) \<Longrightarrow> follows (GetItem_map iv (oShape x)) ([oPlacementSeq x ! i], [oPlacementSeq y ! i])"
    by blast
  from InferOutput_parts [OF run skip] have "CheckValid (oShape x) (oDeviceMesh x) (oPlacementSeq x) gpus = Inr True" by auto
  with CheckValid_iff [OF wf null] have lay: "layout_ok (oShape x) (oDeviceMesh x) (oPlacementSeq x)" by simp
  from iv(1) y(2) obtain normal where n: "NormalizeEllipsis iv = Inr normal"
    and c: "ComputeIndexedShape tshape (oShape x) iv = Inr (oShape y, normal)"
    and i: "IndexedFrom (oShape x) (nat (RangeEllipsis (oShape x) normal)) normal 0 = Inr (oShape y)"
    and m: "GetItem_map iv (oShape x) = map_of (Kept (oShape x) (nat (RangeEllipsis (oShape x) normal)) normal 0 (oShape y) 0)"
    by (rule IndexedShape_Inr) (rule that; assumption)
  have pos: "list_all positive_step normal" using iv(2) NormalizeEllipsis_set [OF n] by (auto simp: list_all_iff)
  have kept: "GetItem_map iv (oShape x) d = Some e \<longleftrightarrow>
      (d, e) \<in> set (Kept (oShape x) (nat (RangeEllipsis (oShape x) normal)) normal 0 (oShape y) 0)" for d e
    unfolding m using Kept_distinct [OF i, of 0] by simp
  have gone: "GetItem_map iv (oShape x) d = None \<longleftrightarrow>
      d \<notin> fst ` set (Kept (oShape x) (nat (RangeEllipsis (oShape x) normal)) normal 0 (oShape y) 0)" for d
    unfolding m by (rule map_of_eq_None_iff)
  have "ComputeIndexedShape tshape (local_shape (Mesh_Shape (oDeviceMesh x)) (oPlacementSeq x) (oShape x) cs) iv =
      Inr (local_shape (Mesh_Shape (oDeviceMesh x)) (oPlacementSeq y) (oShape y) cs, normal)" for cs
  proof -
    let ?s' = "local_shape (Mesh_Shape (oDeviceMesh x)) (oPlacementSeq x) (oShape x) cs"
    let ?t' = "local_shape (Mesh_Shape (oDeviceMesh x)) (oPlacementSeq y) (oShape y) cs"
    note axes = get_item.local_axes [of tshape iv, unfolded id, OF y(2) y(4) f, where ms = "Mesh_Shape (oDeviceMesh x)" and cs = cs]
    have len: "length ?s' = length (oShape x)" "length ?t' = length (oShape y)" by (simp_all add: local_shape_def)
    have "IndexedFrom ?s' (nat (RangeEllipsis (oShape x) normal)) normal 0 = Inr ?t'"
    proof (rule IndexedFrom_resize [OF i pos len, of 0])
      fix d e assume de: "(d, e) \<in> set (Kept (oShape x) (nat (RangeEllipsis (oShape x) normal)) normal 0 (oShape y) 0)"
      have "d < length (oShape x)" using Kept_range [OF i de] by simp
      with local_size_bounds [OF lay this, of cs] axes(1) [of d e] kept de
      show "?t' ! (e - 0) = ?s' ! d \<and> (?s' ! d = oShape x ! d \<or> 1 \<le> ?s' ! d \<and> ?s' ! d \<le> oShape x ! d)"
        by (simp add: local_shape_def)
    next
      fix d assume "d < length (oShape x)"
        "d \<notin> fst ` set (Kept (oShape x) (nat (RangeEllipsis (oShape x) normal)) normal 0 (oShape y) 0)"
      with axes(2) [of d] gone show "?s' ! d = oShape x ! d" by simp
    next
      fix e assume "e < length (oShape y)"
        "0 + e \<notin> snd ` set (Kept (oShape x) (nat (RangeEllipsis (oShape x) normal)) normal 0 (oShape y) 0)"
      with axes(3) [of e] kept show "?t' ! e = oShape y ! e" by force
    qed
    moreover have "RangeEllipsis ?s' normal = RangeEllipsis (oShape x) normal" using len(1) by (simp add: RangeEllipsis_def)
    ultimately show ?thesis using c n len(1) by (auto simp: ComputeIndexedShape_eq [OF iv(1)] guardR_eq_Inr bindR_eq_Inr)
  qed
  with y c show ?thesis by blast
qed

definition example_index :: "unit Index list" where
  "example_index = [SliceIndex \<lparr>start = None, stop = Some 6, step = None\<rparr>, EllipsisIndex, NoneIndex, IntegerIndex 1]"

theorem GetItem_layout_sound_witness:
  "\<exists>y normal. InferOutput 8 (GetItem_class (\<lambda>_. []) example_index grid_operand) [grid_operand] [Operand_new] = Inr [y] \<and>
    ComputeIndexedShape (\<lambda>_. []) (local_shape [2, 2] [Shard 0 (- 1), Shard 1 (- 1)] [6, 4, 2] [1, 0]) example_index =
      Inr (local_shape [2, 2] (oPlacementSeq y) (oShape y) [1, 0], normal)"
proof -
  let ?cls = "GetItem_class (\<lambda>_. []) example_index grid_operand"
  have "isl (InferOutput 8 ?cls [grid_operand] [Operand_new]) = False" by code_simp
  then obtain ys where run: "InferOutput 8 ?cls [grid_operand] [Operand_new] = Inr ys"
    by (cases "InferOutput 8 ?cls [grid_operand] [Operand_new]") simp_all
  have "countIndex IsTensor example_index = 0" "list_all positive_step example_index"
    by (simp_all add: example_index_def countIndex_def positive_step_def)
  with GetItem_layout_sound [OF run] obtain y normal where "ys = [y]"
    "\<And>cs. ComputeIndexedShape (\<lambda>_. []) (local_shape [2, 2] [Shard 0 (- 1), Shard 1 (- 1)] [6, 4, 2] cs) example_index =
      Inr (local_shape [2, 2] (oPlacementSeq y) (oShape y) cs, normal)" by (auto simp: IsNullTensorShape_def)
  with run show ?thesis by blast
qed

section \<open>Indices that are not handled\<close>

text \<open>The rules count the axes of the output without the axes that tensor indices put in front: a cut of the last axis
  becomes a cut of the axis of the index.\<close>

lemma GetItem_tensor_prefix:
  defines "x \<equiv> Operand_of [6, 4] kFloat32 gpu_grid [Replicate, Shard 1 (- 1)]"
    and "iv \<equiv> [TensorIndex [4 :: int], SliceIndex \<lparr>start = None, stop = None, step = None\<rparr>]"
  shows "(case InferOutput 8 (GetItem_class (\<lambda>t. t) iv x) [x] [Operand_new] of
      Inl _ \<Rightarrow> False | Inr ys \<Rightarrow> map oShape ys = [[4, 4]] \<and> map oPlacementSeq ys = [[Replicate, Shard 0 (- 1)]]) \<and>
    ComputeIndexedShape (\<lambda>t. t) (local_shape [2, 2] (oPlacementSeq x) (oShape x) [0, 0]) iv = Inr ([4, 2], iv) \<and>
    local_shape [2, 2] [Replicate, Shard 0 (- 1)] [4, 4] [0, 0] = [2, 4]"
  unfolding x_def iv_def by code_simp

text \<open>A slice with a negative step is accepted, and its number of entries is not that of a progression.\<close>

lemma CheckSlice_negative: "CheckSlice 4 \<lparr>start = Some 3, stop = Some 1, step = Some (- 1)\<rparr> = Inr 4"
  by code_simp

text \<open>Step zero divides by zero.\<close>

lemma CheckSlice_zero: "CheckSlice 4 \<lparr>start = None, stop = None, step = Some 0\<rparr> = Inl Undefined"
  by code_simp

section \<open>What set_item checks\<close>

lemma SetItem_fits:
  assumes "SetItem_InferOutputMetaInfo tshape iv [a, b] [y0] = Inr ys"
  shows "\<exists>indexed normal. ComputeIndexedShape tshape (oShape a) iv = Inr (indexed, normal) \<and>
    BroadcastOutputShape indexed (oShape b) = Inr indexed \<and> ys = [MetaDataSameAs a y0]"
  using assms by (auto simp: SetItem_InferOutputMetaInfo_def Let_def guardR_eq_Inr bindR_eq_Inr UpdateOutput_def)

text \<open>The placements of the value and the indices are not looked at: set_item of a whole value into the piece of a cut axis.\<close>

lemma SetItem_value_not_cut:
  defines "a \<equiv> Operand_of [4] kFloat32 gpu_grid [Shard 0 (- 1), Replicate]"
    and "b \<equiv> Operand_of [4] kFloat32 gpu_grid [Replicate, Replicate]"
    and "iv \<equiv> [SliceIndex \<lparr>start = None, stop = None, step = None\<rparr>] :: unit Index list"
  shows "\<not> isl (InferOutput 8 (SetItem_class (\<lambda>_. []) iv) [a, b] [Operand_new])"
    and "ComputeIndexedShape (\<lambda>_. []) (local_shape [2, 2] (oPlacementSeq a) (oShape a) [0, 0]) iv = Inr ([2], iv)"
    and "isl (BroadcastOutputShape [2] (oShape b))"
  unfolding a_def b_def iv_def by code_simp+

end
