(* ===== verification/Tensors.thy ===== *)
theory Tensors
  imports DistributedSpecs
begin

text \<open>
  The tensors of libtorch, as far as the code that moves them between devices relies on them.  libtorch is
  not part of the repository: its operations are the fields of a record \<open>torch_ops\<close>, which every definition
  that uses them takes as an argument, and \<open>torch_laws\<close> collects the documented behaviour the theorems rely on.
  The tensors of type \<open>tensor\<close> at the end, arrays indexed by coordinates, satisfy these laws; the witnesses use
  them.
\<close>

type_synonym int_tensor = "shape \<times> int list"

record 't torch_ops =
  t_shape :: "'t \<Rightarrow> shape"
  t_device :: "'t \<Rightarrow> Device"
  t_split :: "'t \<Rightarrow> int list \<Rightarrow> int \<Rightarrow> 't list res"
  t_concat :: "'t list \<Rightarrow> int \<Rightarrow> 't res"
  t_chunk :: "'t \<Rightarrow> int \<Rightarrow> int \<Rightarrow> 't list res"
  t_zeros_like :: "'t \<Rightarrow> 't"
  t_add :: "'t \<Rightarrow> 't \<Rightarrow> 't res"
  i_select :: "int_tensor \<Rightarrow> nat \<Rightarrow> int_tensor"
  i_permute :: "int_tensor \<Rightarrow> nat list \<Rightarrow> int_tensor"
  i_reshape :: "int_tensor \<Rightarrow> shape \<Rightarrow> int_tensor"

text \<open>\<open>tensor.size(dim)\<close>: a dimension outside the tensor is an exception of libtorch.\<close>

definition tensor_size :: "'t torch_ops \<Rightarrow> 't \<Rightarrow> int \<Rightarrow> int res" where
  "tensor_size T t dim = (let s = t_shape T t in
     guardR RuntimeError (- int (length s) \<le> dim \<and> dim < int (length s))
       (Inr (s ! nat (if dim < 0 then dim + int (length s) else dim))))"

text \<open>
  \<open>split_ok t sizes d\<close>: the arguments \<open>torch::split\<close> accepts.  \<open>fits s d t\<close>: \<open>t\<close> has the shape \<open>s\<close> except on the
  axis \<open>d\<close>.
\<close>

definition split_ok :: "shape \<Rightarrow> int list \<Rightarrow> nat \<Rightarrow> bool" where
  "split_ok s sizes d \<longleftrightarrow> d < length s \<and> sizes \<noteq> [] \<and> (\<forall>n \<in> set sizes. 0 \<le> n) \<and> sum_list sizes = s ! d"

definition fits :: "'t torch_ops \<Rightarrow> shape \<Rightarrow> Device \<Rightarrow> nat \<Rightarrow> 't \<Rightarrow> bool" where
  "fits T s dev d t \<longleftrightarrow> t_shape T t = s[d := t_shape T t ! d] \<and> t_device T t = dev \<and> 0 \<le> t_shape T t ! d"

definition law_split :: "'t torch_ops \<Rightarrow> bool" where
  "law_split T \<longleftrightarrow> (\<forall>t sizes d. split_ok (t_shape T t) sizes d \<longrightarrow>
     (\<exists>ts. t_split T t sizes (int d) = Inr ts \<and> map (t_shape T) ts = map (\<lambda>n. (t_shape T t)[d := n]) sizes \<and>
       (\<forall>u \<in> set ts. t_device T u = t_device T t) \<and> t_concat T ts (int d) = Inr t))"

definition law_concat :: "'t torch_ops \<Rightarrow> bool" where
  "law_concat T \<longleftrightarrow> (\<forall>ts s dev d. ts \<noteq> [] \<and> d < length s \<and> (\<forall>u \<in> set ts. fits T s dev d u) \<longrightarrow>
     (\<exists>t. t_concat T ts (int d) = Inr t \<and> t_device T t = dev \<and>
       t_shape T t = s[d := sum_list (map (\<lambda>u. t_shape T u ! d) ts)] \<and>
       t_split T t (map (\<lambda>u. t_shape T u ! d) ts) (int d) = Inr ts))"

text \<open>\<open>torch::chunk\<close> of an axis whose size is a multiple of the number of chunks.\<close>

definition law_chunk :: "'t torch_ops \<Rightarrow> bool" where
  "law_chunk T \<longleftrightarrow> (\<forall>t n q d. d < length (t_shape T t) \<and> 0 < n \<and> 0 \<le> q \<and> t_shape T t ! d = n * q \<longrightarrow>
     t_chunk T t n (int d) = t_split T t (replicate (nat n) q) (int d))"

text \<open>Cutting along two axes gives the same blocks in either order.\<close>

definition law_cross :: "'t torch_ops \<Rightarrow> bool" where
  "law_cross T \<longleftrightarrow> (\<forall>t a b m n ps qs. a \<noteq> b \<and> split_ok (t_shape T t) m a \<and> split_ok (t_shape T t) n b \<and>
     t_split T t m (int a) = Inr ps \<and> t_split T t n (int b) = Inr qs \<longrightarrow>
     (\<exists>rows. mapR (\<lambda>p. t_split T p n (int b)) ps = Inr rows \<and>
       (\<forall>j < length n. t_split T (qs ! j) m (int a) = Inr (map (\<lambda>row. row ! j) rows))))"

definition law_zeros :: "'t torch_ops \<Rightarrow> bool" where
  "law_zeros T \<longleftrightarrow> (\<forall>t. t_shape T (t_zeros_like T t) = t_shape T t \<and> t_device T (t_zeros_like T t) = t_device T t \<and>
     t_add T t (t_zeros_like T t) = Inr t)"

definition law_select :: "'t torch_ops \<Rightarrow> bool" where
  "law_select T \<longleftrightarrow> (\<forall>n s data i. 0 \<le> prod_list s \<and> int (length data) = n * prod_list s \<and> int i < n \<longrightarrow>
     i_select T (n # s, data) i = (s, take (nat (prod_list s)) (drop (i * nat (prod_list s)) data)))"

definition torch_laws :: "'t torch_ops \<Rightarrow> bool" where
  "torch_laws T \<longleftrightarrow> law_split T \<and> law_concat T \<and> law_chunk T \<and> law_cross T \<and> law_zeros T \<and> law_select T"

lemma tensor_size_nat: "d < length (t_shape T t) \<Longrightarrow> tensor_size T t (int d) = Inr (t_shape T t ! d)"
  by (simp add: tensor_size_def)

text \<open>The laws in the form the proofs use.\<close>

lemma law_splitE:
  assumes "torch_laws T" and "split_ok (t_shape T t) sizes d"
  obtains ts where "t_split T t sizes (int d) = Inr ts" and "length ts = length sizes"
    and "\<And>i. i < length sizes \<Longrightarrow> t_shape T (ts ! i) = (t_shape T t)[d := sizes ! i]"
    and "\<And>i. i < length sizes \<Longrightarrow> t_device T (ts ! i) = t_device T t"
    and "t_concat T ts (int d) = Inr t"
proof -
  from assms obtain ts where ts: "t_split T t sizes (int d) = Inr ts"
    "map (t_shape T) ts = map (\<lambda>n. (t_shape T t)[d := n]) sizes"
    "\<forall>u \<in> set ts. t_device T u = t_device T t" "t_concat T ts (int d) = Inr t"
    unfolding torch_laws_def law_split_def by blast
  from arg_cong [OF ts(2), of length] have len: "length ts = length sizes" by simp
  show thesis
  proof (rule that [OF ts(1) len _ _ ts(4)])
    fix i assume i: "i < length sizes"
    with arg_cong [OF ts(2), of "\<lambda>xs. xs ! i"] len show "t_shape T (ts ! i) = (t_shape T t)[d := sizes ! i]" by simp
    from i len ts(3) show "t_device T (ts ! i) = t_device T t" by simp
  qed
qed

lemma law_concatE:
  assumes "torch_laws T" and "ts \<noteq> []" and "d < length s" and "\<forall>u \<in> set ts. fits T s dev d u"
  obtains t where "t_concat T ts (int d) = Inr t" and "t_device T t = dev"
    and "t_shape T t = s[d := sum_list (map (\<lambda>u. t_shape T u ! d) ts)]"
    and "t_split T t (map (\<lambda>u. t_shape T u ! d) ts) (int d) = Inr ts"
  using assms unfolding torch_laws_def law_concat_def by blast

lemma torch_zeros:
  assumes "torch_laws T"
  shows "t_shape T (t_zeros_like T t) = t_shape T t" and "t_device T (t_zeros_like T t) = t_device T t"
    and "t_add T t (t_zeros_like T t) = Inr t"
  using assms unfolding torch_laws_def law_zeros_def by auto

lemma torch_select:
  assumes "torch_laws T" and "0 \<le> prod_list s" and "int (length data) = n * prod_list s" and "int i < n"
  shows "i_select T (n # s, data) i = (s, take (nat (prod_list s)) (drop (i * nat (prod_list s)) data))"
  using assms unfolding torch_laws_def law_select_def by blast

section \<open>Arrays indexed by coordinates\<close>

definition array_ok :: "shape \<times> Device \<times> (int list \<Rightarrow> int) \<Rightarrow> bool" where
  "array_ok = (\<lambda>(s, dev, f). (\<forall>n \<in> set s. 0 \<le> n) \<and> (\<forall>cs. \<not> in_range s cs \<longrightarrow> f cs = 0))"

typedef tensor = "{t. array_ok t}"
  by (rule exI [of _ "([], mk_Device kCpu 0, \<lambda>_. 0)"]) (simp add: array_ok_def)

setup_lifting type_definition_tensor

lift_definition array_shape :: "tensor \<Rightarrow> shape" is fst .

lift_definition array_device :: "tensor \<Rightarrow> Device" is "\<lambda>t. fst (snd t)" .

lift_definition array_at :: "tensor \<Rightarrow> int list \<Rightarrow> int" is "\<lambda>t. snd (snd t)" .

lift_definition mk_array :: "shape \<Rightarrow> Device \<Rightarrow> (int list \<Rightarrow> int) \<Rightarrow> tensor" is
  "\<lambda>s dev f. (map (max 0) s, dev, \<lambda>cs. if in_range (map (max 0) s) cs then f cs else 0)"
  by (simp add: array_ok_def)

lemma array_shape_nonneg: "n \<in> set (array_shape t) \<Longrightarrow> 0 \<le> n"
  by transfer (auto simp: array_ok_def)

lemma map_max_0: "(\<And>n. n \<in> set s \<Longrightarrow> 0 \<le> (n::int)) \<Longrightarrow> map (max 0) s = s"
  by (rule map_idI) simp

lemma array_outside: "\<not> in_range (array_shape t) cs \<Longrightarrow> array_at t cs = 0"
  by transfer (auto simp: array_ok_def)

lemma array_eqI:
  assumes "array_shape t = array_shape u" and "array_device t = array_device u"
    and "\<And>cs. in_range (array_shape t) cs \<Longrightarrow> array_at t cs = array_at u cs"
  shows "t = u"
proof -
  have "array_at t = array_at u"
    using assms(1,3) array_outside by (metis ext)
  with assms(1,2) show ?thesis by transfer (auto simp: prod_eq_iff)
qed

lemma mk_array_simps [simp]:
  "array_device (mk_array s dev f) = dev"
  by (transfer, simp)

lemma mk_array_shape: "(\<And>n. n \<in> set s \<Longrightarrow> 0 \<le> n) \<Longrightarrow> array_shape (mk_array s dev f) = s"
  by (transfer, simp add: map_max_0)

lemma mk_array_at: "(\<And>n. n \<in> set s \<Longrightarrow> 0 \<le> n) \<Longrightarrow> in_range s cs \<Longrightarrow> array_at (mk_array s dev f) cs = f cs"
  by (transfer, simp add: map_max_0)

text \<open>The piece of an axis a position falls into, and its position in the piece.\<close>

fun locate :: "int list \<Rightarrow> int \<Rightarrow> nat \<times> int" where
  "locate [] x = (0, x)"
| "locate (n # ns) x = (if x < n then (0, x) else let (i, r) = locate ns (x - n) in (Suc i, r))"

lemma locate_sound:
  "\<forall>n \<in> set ns. 0 \<le> n \<Longrightarrow> 0 \<le> x \<Longrightarrow> x < sum_list ns \<Longrightarrow> locate ns x = (i, r) \<Longrightarrow>
    i < length ns \<and> 0 \<le> r \<and> r < ns ! i \<and> x = sum_list (take i ns) + r"
proof (induction ns arbitrary: x i)
  case Nil
  then show ?case by simp
next
  case (Cons n ns)
  show ?case
  proof (cases "x < n")
    case True
    with Cons.prems show ?thesis by auto
  next
    case False
    with Cons.prems obtain j where j: "locate ns (x - n) = (j, r)" "i = Suc j"
      by (auto split: prod.splits)
    with Cons.IH [OF _ _ _ j(1)] Cons.prems False show ?thesis by auto
  qed
qed

lemma locate_complete:
  "\<forall>n \<in> set ns. 0 \<le> n \<Longrightarrow> i < length ns \<Longrightarrow> 0 \<le> r \<Longrightarrow> r < ns ! i \<Longrightarrow>
    locate ns (sum_list (take i ns) + r) = (i, r)"
proof (induction ns arbitrary: i)
  case Nil
  then show ?case by simp
next
  case (Cons n ns)
  show ?case
  proof (cases i)
    case 0
    with Cons.prems show ?thesis by simp
  next
    case (Suc j)
    with Cons have "locate ns (sum_list (take j ns) + r) = (j, r)" by auto
    moreover have "0 \<le> sum_list (take j ns)"
      using Cons.prems(1) by (intro sum_list_nonneg) (auto dest: in_set_takeD)
    ultimately show ?thesis using Suc Cons.prems by (simp add: algebra_simps)
  qed
qed

lemma sum_take_le:
  assumes "\<forall>n \<in> set ns. 0 \<le> (n::int)" and "i < length ns"
  shows "0 \<le> sum_list (take i ns)" and "sum_list (take i ns) + ns ! i \<le> sum_list ns"
proof -
  show "0 \<le> sum_list (take i ns)" using assms by (intro sum_list_nonneg) (auto dest: in_set_takeD)
  have "sum_list ns = sum_list (take i ns) + (ns ! i + sum_list (drop (Suc i) ns))"
    using assms(2) by (metis id_take_nth_drop sum_list.Cons sum_list.append)
  moreover have "0 \<le> sum_list (drop (Suc i) ns)"
    using assms by (intro sum_list_nonneg) (auto dest: in_set_dropD)
  ultimately show "sum_list (take i ns) + ns ! i \<le> sum_list ns" by simp
qed

lemma in_range_nth: "in_range s cs \<longleftrightarrow> length cs = length s \<and> (\<forall>i < length s. 0 \<le> cs ! i \<and> cs ! i < s ! i)"
  by (auto simp: in_range_def list_all2_conv_all_nth)

lemma in_range_update:
  "in_range s cs \<Longrightarrow> d < length s \<Longrightarrow> 0 \<le> x \<Longrightarrow> x < n \<Longrightarrow> in_range (s[d := n]) (cs[d := x])"
  by (auto simp: in_range_nth nth_list_update)

definition array_split :: "tensor \<Rightarrow> int list \<Rightarrow> int \<Rightarrow> tensor list res" where
  "array_split t sizes dim = (let d = nat dim; s = array_shape t in
     guardR RuntimeError (0 \<le> dim \<and> split_ok s sizes d)
      (Inr (map (\<lambda>i. mk_array (s[d := sizes ! i]) (array_device t)
         (\<lambda>cs. array_at t (cs[d := cs ! d + sum_list (take i sizes)]))) [0..<length sizes])))"

definition array_concat :: "tensor list \<Rightarrow> int \<Rightarrow> tensor res" where
  "array_concat ts dim = (let d = nat dim; sizes = map (\<lambda>u. array_shape u ! d) ts; s = array_shape (hd ts) in
     guardR RuntimeError (ts \<noteq> [] \<and> 0 \<le> dim \<and> d < length s \<and>
         list_all (\<lambda>u. array_shape u = s[d := array_shape u ! d]) ts)
      (Inr (mk_array (s[d := sum_list sizes]) (array_device (hd ts))
        (\<lambda>cs. let (i, r) = locate sizes (cs ! d) in array_at (ts ! i) (cs[d := r])))))"

definition array_chunk :: "tensor \<Rightarrow> int \<Rightarrow> int \<Rightarrow> tensor list res" where
  "array_chunk t n dim = guardR RuntimeError (0 < n \<and> 0 \<le> dim \<and> nat dim < length (array_shape t))
     (let m = array_shape t ! nat dim; q = (m + n - 1) div n in
      if q = 0 then array_split t (replicate (nat n) 0) dim
      else array_split t (map (\<lambda>i. min q (m - i * q)) [0..(m + q - 1) div q - 1]) dim)"

definition array_add :: "tensor \<Rightarrow> tensor \<Rightarrow> tensor res" where
  "array_add t u = guardR RuntimeError (array_shape t = array_shape u \<and> array_device t = array_device u)
     (Inr (mk_array (array_shape t) (array_device t) (\<lambda>cs. array_at t cs + array_at u cs)))"

definition array_permute :: "int_tensor \<Rightarrow> nat list \<Rightarrow> int_tensor" where
  "array_permute = (\<lambda>(s, data) dims. (map (\<lambda>d. s ! d) dims,
     map (\<lambda>k. let cs = rank_coord (map (\<lambda>d. s ! d) dims) k in
        data ! nat (lin_index s (map (\<lambda>d. cs ! the_elem {j. j < length dims \<and> dims ! j = d}) [0..<length s])))
      [0..<length data]))"

definition array_ops :: "tensor torch_ops" where
  "array_ops = \<lparr>t_shape = array_shape, t_device = array_device, t_split = array_split, t_concat = array_concat,
     t_chunk = array_chunk,
     t_zeros_like = (\<lambda>t. mk_array (array_shape t) (array_device t) (\<lambda>_. 0)), t_add = array_add,
     i_select = (\<lambda>(s, data) i. (tl s, take (nat (prod_list (tl s))) (drop (i * nat (prod_list (tl s))) data))),
     i_permute = array_permute, i_reshape = (\<lambda>(s, data) s'. (s', data))\<rparr>"

text \<open>The arrays satisfy the laws.\<close>

lemma split_sizes_nonneg: "split_ok (array_shape t) sizes d \<Longrightarrow> i < length sizes \<Longrightarrow>
    n \<in> set ((array_shape t)[d := sizes ! i]) \<Longrightarrow> 0 \<le> n"
  using set_update_subset_insert [of "array_shape t" d "sizes ! i"] array_shape_nonneg [of _ t]
  by (auto simp: split_ok_def)

lemma array_split_eq:
  assumes "split_ok (array_shape t) sizes d"
  shows "array_split t sizes (int d) = Inr (map (\<lambda>i. mk_array ((array_shape t)[d := sizes ! i]) (array_device t)
         (\<lambda>cs. array_at t (cs[d := cs ! d + sum_list (take i sizes)]))) [0..<length sizes])"
  using assms by (simp add: array_split_def)

lemma array_law_split: "law_split array_ops"
  unfolding law_split_def
proof (intro allI impI)
  fix t sizes d
  assume "split_ok (t_shape array_ops t) sizes d"
  then have ok: "split_ok (array_shape t) sizes d" by (simp add: array_ops_def)
  then have d: "d < length (array_shape t)" and ne: "sizes \<noteq> []" and nn: "\<forall>n \<in> set sizes. 0 \<le> n"
    and sum: "sum_list sizes = array_shape t ! d" by (auto simp: split_ok_def)
  let ?piece = "\<lambda>i. mk_array ((array_shape t)[d := sizes ! i]) (array_device t)
         (\<lambda>cs. array_at t (cs[d := cs ! d + sum_list (take i sizes)]))"
  let ?ts = "map ?piece [0..<length sizes]"
  have shape: "array_shape (?piece i) = (array_shape t)[d := sizes ! i]" if "i < length sizes" for i
    using split_sizes_nonneg [OF ok that] by (intro mk_array_shape)
  have shapes: "map array_shape ?ts = map (\<lambda>n. (array_shape t)[d := n]) sizes"
    by (rule nth_equalityI) (simp_all add: shape)
  have sizes: "map (\<lambda>u. array_shape u ! d) ?ts = sizes"
    using d by (intro nth_equalityI) (simp_all add: shape)
  have hd: "hd ?ts = ?piece 0" using ne by (simp add: hd_map)
  have hs: "array_shape (hd ?ts) = (array_shape t)[d := sizes ! 0]" using ne shape [of 0] hd by simp
  let ?r = "mk_array (array_shape t) (array_device t)
        (\<lambda>cs. let (i, r) = locate sizes (cs ! d) in array_at (?ts ! i) (cs[d := r]))"
  have "array_concat ?ts (int d) = Inr ?r"
    using ne d unfolding array_concat_def Let_def nat_int sizes hs
    by (auto simp: hd guardR_def list_all_iff shape sum)
  moreover have "?r = t"
  proof (rule array_eqI)
    show s: "array_shape ?r = array_shape t" by (rule mk_array_shape) (rule array_shape_nonneg)
    show "array_device ?r = array_device t" by simp
    fix cs assume "in_range (array_shape ?r) cs"
    then have cs: "in_range (array_shape t) cs" by (simp only: s)
    with d have x: "0 \<le> cs ! d" "cs ! d < sum_list sizes" "length cs = length (array_shape t)"
      by (auto simp: in_range_nth sum)
    obtain i r where loc: "locate sizes (cs ! d) = (i, r)" by force
    from locate_sound [OF nn x(1,2) loc] have ir: "i < length sizes" "0 \<le> r" "r < sizes ! i"
      "cs ! d = sum_list (take i sizes) + r" by auto
    have "array_at (?piece i) (cs[d := r]) = array_at t (cs[d := r, d := (cs[d := r]) ! d + sum_list (take i sizes)])"
      using split_sizes_nonneg [OF ok ir(1)] in_range_update [OF cs d ir(2,3)] by (intro mk_array_at)
    also have "\<dots> = array_at t cs" using d x(3) ir(4) by (simp add: add.commute [of r] flip: ir(4))
    finally have "array_at (?ts ! i) (cs[d := r]) = array_at t cs" using ir(1) by simp
    with loc show "array_at ?r cs = array_at t cs"
      by (subst mk_array_at [OF array_shape_nonneg cs]) simp_all
  qed
  ultimately show "\<exists>ts. t_split array_ops t sizes (int d) = Inr ts \<and>
      map (t_shape array_ops) ts = map (\<lambda>n. (t_shape array_ops t)[d := n]) sizes \<and>
      (\<forall>u \<in> set ts. t_device array_ops u = t_device array_ops t) \<and> t_concat array_ops ts (int d) = Inr t"
    using array_split_eq [OF ok] shapes
    by (intro exI [of _ ?ts]) (auto simp: array_ops_def)
qed

lemma array_law_concat: "law_concat array_ops"
  unfolding law_concat_def
proof (intro allI impI, elim conjE)
  fix ts :: "tensor list" and s dev d
  assume ne: "ts \<noteq> []" and d: "d < length s" and "\<forall>u \<in> set ts. fits array_ops s dev d u"
  then have fits: "array_shape u = s[d := array_shape u ! d]" "array_device u = dev" "0 \<le> array_shape u ! d"
    if "u \<in> set ts" for u using that by (auto simp: fits_def array_ops_def)
  let ?sizes = "map (\<lambda>u. array_shape u ! d) ts" and ?s = "s[d := sum_list (map (\<lambda>u. array_shape u ! d) ts)]"
  have nn: "\<forall>n \<in> set ?sizes. 0 \<le> n" using fits(3) by auto
  have hd: "hd ts \<in> set ts" using ne by simp
  from fits(1) [OF hd] have same: "s[d := x] = (array_shape (hd ts))[d := x]" for x
    by (metis list_update_overwrite)
  have len: "length (array_shape (hd ts)) = length s" using fits(1) [OF hd] by (metis length_list_update)
  have sum: "0 \<le> sum_list ?sizes" using nn by (intro sum_list_nonneg) auto
  have s_nn: "0 \<le> n" if "n \<in> set ?s" for n
  proof -
    from that obtain k where k: "k < length s" "n = ?s ! k" by (auto simp: in_set_conv_nth)
    show ?thesis
    proof (cases "k = d")
      case True with k sum show ?thesis by simp
    next
      case False
      then have "?s ! k = array_shape (hd ts) ! k" using fits(1) [OF hd] by (metis nth_list_update_neq)
      with k len show ?thesis using array_shape_nonneg [of n "hd ts"] by (metis nth_mem)
    qed
  qed
  define f where "f = (\<lambda>cs. let (i, r) = locate ?sizes (cs ! d) in array_at (ts ! i) (cs[d := r]))"
  let ?t = "mk_array ?s dev f"
  have shape: "array_shape ?t = ?s" by (rule mk_array_shape) (rule s_nn)
  have "list_all (\<lambda>u. array_shape u = (array_shape (hd ts))[d := array_shape u ! d]) ts"
    unfolding list_all_iff using fits(1) same by metis
  then have c: "array_concat ts (int d) = Inr ?t"
    using ne d len fits(2) [OF hd] by (simp add: array_concat_def same [symmetric] Let_def f_def)
  have ok: "split_ok (array_shape ?t) ?sizes d" using d ne nn unfolding split_ok_def shape by simp
  have "mk_array ((array_shape ?t)[d := ?sizes ! i]) (array_device ?t)
      (\<lambda>cs. array_at ?t (cs[d := cs ! d + sum_list (take i ?sizes)])) = ts ! i" (is "?p = _")
    if i: "i < length ts" for i
  proof (rule array_eqI)
    have m: "ts ! i \<in> set ts" using i by simp
    have "array_shape ?p = (array_shape ?t)[d := ?sizes ! i]"
      using split_sizes_nonneg [OF ok] i by (intro mk_array_shape) simp
    then show ps: "array_shape ?p = array_shape (ts ! i)" using fits(1) [OF m] i by (simp add: shape)
    show "array_device ?p = array_device (ts ! i)" using fits(2) [OF m] by simp
    fix cs assume "in_range (array_shape ?p) cs"
    then have cs: "in_range (array_shape (ts ! i)) cs" by (simp only: ps)
    have lc: "length cs = length s" using cs fits(1) [OF m] by (metis in_range_length length_list_update)
    have x: "0 \<le> cs ! d" "cs ! d < ?sizes ! i"
      using cs d lc i by (auto simp: in_range_nth dest: in_range_length)
    have il: "i < length ?sizes" using i by simp
    let ?y = "cs ! d + sum_list (take i ?sizes)"
    have y: "0 \<le> ?y" "?y < sum_list ?sizes" using x sum_take_le [OF nn il] by auto
    have "in_range (s[d := array_shape (ts ! i) ! d]) cs" using cs fits(1) [OF m] by simp
    from in_range_update [OF this, of d ?y "sum_list ?sizes"] y d have r: "in_range ?s (cs[d := ?y])" by simp
    have "array_at ?p cs = array_at ?t (cs[d := ?y])"
      using cs split_sizes_nonneg [OF ok] i ps fits(1) [OF m] by (intro mk_array_at) (auto simp: shape)
    also have "\<dots> = f (cs[d := ?y])" by (rule mk_array_at [OF s_nn r])
    also have "\<dots> = array_at (ts ! i) cs"
      using locate_complete [OF nn il x] d lc by (simp add: f_def add.commute)
    finally show "array_at ?p cs = array_at (ts ! i) cs" .
  qed
  then have "map (\<lambda>i. mk_array ((array_shape ?t)[d := ?sizes ! i]) (array_device ?t)
      (\<lambda>cs. array_at ?t (cs[d := cs ! d + sum_list (take i ?sizes)]))) [0..<length ?sizes] = ts"
    by (intro nth_equalityI) simp_all
  with array_split_eq [OF ok] have "array_split ?t ?sizes (int d) = Inr ts" by simp
  with c shape show "\<exists>t. t_concat array_ops ts (int d) = Inr t \<and> t_device array_ops t = dev \<and>
      t_shape array_ops t = s[d := sum_list (map (\<lambda>u. t_shape array_ops u ! d) ts)] \<and>
      t_split array_ops t (map (\<lambda>u. t_shape array_ops u ! d) ts) (int d) = Inr ts"
    by (intro exI [of _ ?t]) (simp add: array_ops_def)
qed

lemma array_split_update:
  assumes "split_ok (array_shape t) sizes d" and "i < length sizes"
  shows "array_shape (mk_array ((array_shape t)[d := sizes ! i]) dev f) = (array_shape t)[d := sizes ! i]"
  using split_sizes_nonneg [OF assms] by (intro mk_array_shape)

lemma array_law_cross: "law_cross array_ops"
  unfolding law_cross_def
proof (intro allI impI, elim conjE)
  fix t a b m n ps qs
  let ?s = "array_shape t" and ?dev = "array_device t"
  assume ab: "a \<noteq> b" and "split_ok (t_shape array_ops t) m a" and "split_ok (t_shape array_ops t) n b"
    and p: "t_split array_ops t m (int a) = Inr ps" and q: "t_split array_ops t n (int b) = Inr qs"
  then have oka: "split_ok ?s m a" and okb: "split_ok ?s n b" by (simp_all add: array_ops_def)
  let ?off = "\<lambda>sizes i. sum_list (take i sizes)"
  let ?P = "\<lambda>i. mk_array (?s[a := m ! i]) ?dev (\<lambda>cs. array_at t (cs[a := cs ! a + ?off m i]))"
  let ?Q = "\<lambda>j. mk_array (?s[b := n ! j]) ?dev (\<lambda>cs. array_at t (cs[b := cs ! b + ?off n j]))"
  let ?R = "\<lambda>i j. mk_array (?s[a := m ! i, b := n ! j]) ?dev
      (\<lambda>cs. array_at t (cs[a := cs ! a + ?off m i, b := cs ! b + ?off n j]))"
  have ps: "ps = map ?P [0..<length m]" and qs: "qs = map ?Q [0..<length n]"
    using p q array_split_eq [OF oka] array_split_eq [OF okb] by (simp_all add: array_ops_def)
  have "array_split (?P i) n (int b) = Inr (map (?R i) [0..<length n])" if i: "i < length m" for i
  proof -
    have sh: "array_shape (?P i) = ?s[a := m ! i]" by (rule array_split_update [OF oka i])
    have ok: "split_ok (array_shape (?P i)) n b" using okb ab by (simp add: sh split_ok_def)
    have "mk_array ((array_shape (?P i))[b := n ! j]) (array_device (?P i))
        (\<lambda>cs. array_at (?P i) (cs[b := cs ! b + ?off n j])) = ?R i j" (is "?L = _") if j: "j < length n" for j
    proof (rule array_eqI)
      have nn: "x \<in> set (?s[a := m ! i, b := n ! j]) \<Longrightarrow> 0 \<le> x" for x
        using split_sizes_nonneg [OF ok j] by (simp add: sh)
      show l: "array_shape ?L = array_shape (?R i j)" by (simp only: sh mk_array_shape [OF nn] mk_array_simps)
      have shr: "array_shape (?R i j) = ?s[a := m ! i, b := n ! j]" by (rule mk_array_shape) (rule nn)
      show "array_device ?L = array_device (?R i j)" by simp
      fix cs assume "in_range (array_shape ?L) cs"
      then have cs: "in_range (?s[a := m ! i, b := n ! j]) cs" by (simp only: l shr)
      have bnd: "0 \<le> cs ! b" "cs ! b < n ! j" using cs okb by (auto simp: in_range_nth split_ok_def)
      have "0 \<le> ?off n j" "?off n j + n ! j \<le> ?s ! b" using sum_take_le [of n j] okb j by (auto simp: split_ok_def)
      with in_range_update [OF cs, of b "cs ! b + ?off n j" "?s ! b"] bnd okb
      have "in_range (?s[a := m ! i, b := n ! j, b := ?s ! b]) (cs[b := cs ! b + ?off n j])"
        by (simp add: split_ok_def)
      moreover have "?s[a := m ! i, b := n ! j, b := ?s ! b] = ?s[a := m ! i]"
        using ab oka okb by (intro nth_equalityI) (auto simp: nth_list_update split_ok_def)
      ultimately have cs': "in_range (?s[a := m ! i]) (cs[b := cs ! b + ?off n j])" by (simp only:)
      have "array_at ?L cs = array_at (?P i) (cs[b := cs ! b + ?off n j])"
        using nn cs by (simp only: sh mk_array_simps) (intro mk_array_at)
      also have "\<dots> = array_at t ((cs[b := cs ! b + ?off n j])[a := (cs[b := cs ! b + ?off n j]) ! a + ?off m i])"
        using split_sizes_nonneg [OF oka i] cs' by (intro mk_array_at)
      also have "\<dots> = array_at (?R i j) cs"
        using ab mk_array_at [OF nn cs] by (simp add: list_update_swap [of b a])
      finally show "array_at ?L cs = array_at (?R i j) cs" .
    qed
    with array_split_eq [OF ok] show ?thesis by simp
  qed
  then have rows: "mapR (\<lambda>p. array_split p n (int b)) ps = Inr (map (\<lambda>i. map (?R i) [0..<length n]) [0..<length m])"
    by (simp add: mapR_eq_Inr ps)
  have "array_split (?Q j) m (int a) = Inr (map (\<lambda>i. ?R i j) [0..<length m])" if j: "j < length n" for j
  proof -
    have sh: "array_shape (?Q j) = ?s[b := n ! j]" by (rule array_split_update [OF okb j])
    have ok: "split_ok (array_shape (?Q j)) m a" using oka ab by (simp add: sh split_ok_def)
    have "mk_array ((array_shape (?Q j))[a := m ! i]) (array_device (?Q j))
        (\<lambda>cs. array_at (?Q j) (cs[a := cs ! a + ?off m i])) = ?R i j" (is "?L = _") if i: "i < length m" for i
    proof (rule array_eqI)
      have swap: "?s[b := n ! j, a := m ! i] = ?s[a := m ! i, b := n ! j]" using ab by (simp add: list_update_swap)
      have nn: "x \<in> set (?s[a := m ! i, b := n ! j]) \<Longrightarrow> 0 \<le> x" for x
        using split_sizes_nonneg [OF ok i] by (simp add: sh swap)
      show l: "array_shape ?L = array_shape (?R i j)" by (simp only: sh swap mk_array_shape [OF nn] mk_array_simps)
      have shr: "array_shape (?R i j) = ?s[a := m ! i, b := n ! j]" by (rule mk_array_shape) (rule nn)
      show "array_device ?L = array_device (?R i j)" by simp
      fix cs assume "in_range (array_shape ?L) cs"
      then have cs: "in_range (?s[a := m ! i, b := n ! j]) cs" by (simp only: l shr)
      have bnd: "0 \<le> cs ! a" "cs ! a < m ! i" using cs oka ab by (auto simp: in_range_nth split_ok_def)
      have "0 \<le> ?off m i" "?off m i + m ! i \<le> ?s ! a" using sum_take_le [of m i] oka i by (auto simp: split_ok_def)
      with in_range_update [OF cs, of a "cs ! a + ?off m i" "?s ! a"] bnd oka
      have "in_range (?s[a := m ! i, b := n ! j, a := ?s ! a]) (cs[a := cs ! a + ?off m i])"
        by (simp add: split_ok_def)
      moreover have "?s[a := m ! i, b := n ! j, a := ?s ! a] = ?s[b := n ! j]"
        using ab oka okb by (intro nth_equalityI) (auto simp: nth_list_update split_ok_def)
      ultimately have cs': "in_range (?s[b := n ! j]) (cs[a := cs ! a + ?off m i])" by (simp only:)
      have "array_at ?L cs = array_at (?Q j) (cs[a := cs ! a + ?off m i])"
        using nn cs by (simp only: sh mk_array_simps swap) (intro mk_array_at)
      also have "\<dots> = array_at t ((cs[a := cs ! a + ?off m i])[b := (cs[a := cs ! a + ?off m i]) ! b + ?off n j])"
        using split_sizes_nonneg [OF okb j] cs' by (intro mk_array_at)
      also have "\<dots> = array_at (?R i j) cs"
        using ab mk_array_at [OF nn cs] by (simp add: list_update_swap [of b a])
      finally show "array_at ?L cs = array_at (?R i j) cs" .
    qed
    with array_split_eq [OF ok] show ?thesis by simp
  qed
  with rows show "\<exists>rows. mapR (\<lambda>p. t_split array_ops p n (int b)) ps = Inr rows \<and>
      (\<forall>j < length n. t_split array_ops (qs ! j) m (int a) = Inr (map (\<lambda>row. row ! j) rows))"
    by (intro exI [of _ "map (\<lambda>i. map (?R i) [0..<length n]) [0..<length m]"])
      (simp add: array_ops_def qs comp_def)
qed

lemma array_law_zeros: "law_zeros array_ops"
proof -
  have "array_shape (mk_array (array_shape t) dev f) = array_shape t" for t dev f
    by (rule mk_array_shape) (rule array_shape_nonneg)
  moreover have "mk_array (array_shape t) (array_device t)
      (\<lambda>cs. array_at t cs + array_at (mk_array (array_shape t) (array_device t) (\<lambda>_. 0)) cs) = t" for t
    using calculation by (intro array_eqI) (simp_all add: mk_array_at array_shape_nonneg)
  ultimately show ?thesis by (simp add: law_zeros_def array_ops_def array_add_def)
qed

lemma array_law_chunk: "law_chunk array_ops"
proof -
  have "array_chunk t n (int d) = array_split t (replicate (nat n) q) (int d)"
    if d: "d < length (array_shape t)" and n: "0 < n" and q: "0 \<le> q" and m: "array_shape t ! d = n * q" for t n q d
  proof -
    have c: "(n * q + n - 1) div n = q"
      using n div_mult_self4 [of n q "n - 1"] by (simp add: div_pos_pos_trivial add.commute algebra_simps)
    show ?thesis
    proof (cases "q = 0")
      case True with d n m show ?thesis by (simp add: array_chunk_def Let_def)
    next
      case False
      with q have "0 < q" by simp
      then have "(n * q + q - 1) div q = n"
        using div_mult_self3 [of q n "q - 1"] by (simp add: div_pos_pos_trivial add.commute algebra_simps)
      moreover have "map (\<lambda>i. min q (n * q - i * q)) [0..n - 1] = replicate (nat n) q"
      proof (rule nth_equalityI)
        fix i assume "i < length (map (\<lambda>i. min q (n * q - i * q)) [0..n - 1])"
        then have i: "int i < n" by simp
        then have "q \<le> (n - int i) * q" using q by (simp add: mult_le_cancel_right1)
        then show "map (\<lambda>i. min q (n * q - i * q)) [0..n - 1] ! i = replicate (nat n) q ! i"
          using i by (simp add: nth_upto algebra_simps)
      qed simp
      ultimately show ?thesis using False c d n m by (simp add: array_chunk_def Let_def)
    qed
  qed
  then show ?thesis by (simp add: law_chunk_def array_ops_def)
qed

lemma array_laws: "torch_laws array_ops"
proof -
  have "law_select array_ops" by (simp add: law_select_def array_ops_def)
  then show ?thesis
    by (simp add: torch_laws_def array_law_split array_law_concat array_law_chunk array_law_cross array_law_zeros)
qed

end
