(* ===== verification/Kernels.thy ===== *)
theory Kernels
  imports ShapeOps Tensors
begin

text \<open>
  src/dtorch/core/blob.{h,cc} and src/dtorch/core/kernel/kernel.{h,cc}: the tensors of one operand on one device, and
  the kernel that computes an operator on one device.  A \<open>Blob\<close> is a shared pointer to its content; it is the address
  of a store, so that the copies a kernel keeps see the tensors that other kernels set.  The properties of a libtorch
  tensor that the checks read are a parameter, and so is the computation, the virtual function \<open>Compute\<close>.  The local
  shape that an operand caches while a kernel asks for it is not kept (the cache is always the one a fresh computation
  gives, see \<open>Operands\<close>).  The hooks, which only dump tensors, and the check of the CUDA stream are not modelled.
\<close>

section \<open>Blobs\<close>

type_synonym blob = nat

type_synonym 't blobs = "blob \<Rightarrow> 't option"

definition Blob_IsEmpty :: "'t blobs \<Rightarrow> blob \<Rightarrow> bool" where
  "Blob_IsEmpty heap b \<longleftrightarrow> heap b = None"

definition Blob_SetTensor :: "blob \<Rightarrow> 't \<Rightarrow> 't blobs \<Rightarrow> 't blobs res" where
  "Blob_SetTensor b t heap = assertR (heap b = None) (Inr (heap(b \<mapsto> t)))"

definition Blob_GetTensor :: "'t blobs \<Rightarrow> blob \<Rightarrow> 't res" where
  "Blob_GetTensor heap b = (case heap b of None \<Rightarrow> Inl Abort | Some t \<Rightarrow> Inr t)"

section \<open>Kernels\<close>

record 't tensor_meta =
  tm_shape :: "'t \<Rightarrow> shape"
  tm_kind :: "'t \<Rightarrow> DataKind"
  tm_device :: "'t \<Rightarrow> Device"

record kernel =
  opInputs :: "operand list"
  opOutputs :: "operand list"
  mInputs :: "blob option list"
  mOutputs :: "blob option list"
  mGlobalDevice :: Device
  mLocalDevice :: Device
  mNumKernelForThisOp :: nat

definition LocalShapeOn :: "Device \<Rightarrow> operand \<Rightarrow> shape res" where
  "LocalShapeOn device operand = bindR (GetLocalShape (deviceId device) operand) (\<lambda>(shape, operand). Inr shape)"

text \<open>The blob a kernel takes of an operand, from the map of the operand's blobs by device.\<close>

definition TakeBlob :: "Device \<Rightarrow> (int \<rightharpoonup> blob) \<Rightarrow> blob option res" where
  "TakeBlob device blobs = assertR (blobs (deviceId device) \<noteq> None) (Inr (blobs (deviceId device)))"

definition Kernel_TakeInput :: "Device \<Rightarrow> operand \<times> (int \<rightharpoonup> blob) \<Rightarrow> blob option res" where
  "Kernel_TakeInput device = (\<lambda>(operand, blobs).
     bindR (if Operand_IsDistributed operand then LocalShapeOn device operand else Inr (oShape operand)) (\<lambda>shape.
       if IsNullTensorShape shape \<or> \<not> IsContainDevice (oDeviceMesh operand) device then Inr None
       else TakeBlob device blobs))"

definition Kernel_TakeOutput :: "Device \<Rightarrow> operand \<times> (int \<rightharpoonup> blob) \<Rightarrow> blob option res" where
  "Kernel_TakeOutput device = (\<lambda>(operand, blobs).
     if \<not> IsContainDevice (oDeviceMesh operand) device then Inr None else TakeBlob device blobs)"

definition Kernel_new ::
    "operand list \<Rightarrow> operand list \<Rightarrow> (int \<rightharpoonup> blob) list \<Rightarrow> (int \<rightharpoonup> blob) list \<Rightarrow> Device \<Rightarrow> Device \<Rightarrow> nat \<Rightarrow> kernel res" where
  "Kernel_new inputs outputs inBlobs outBlobs device local n =
     assertR (length inBlobs = length inputs)
      (bindR (mapR (Kernel_TakeInput device) (zip inputs inBlobs)) (\<lambda>ins.
       assertR (length outBlobs = length outputs)
        (bindR (mapR (Kernel_TakeOutput device) (zip outputs outBlobs)) (\<lambda>outs.
          Inr \<lparr>opInputs = inputs, opOutputs = outputs, mInputs = ins, mOutputs = outs, mGlobalDevice = device,
            mLocalDevice = local, mNumKernelForThisOp = n\<rparr>))))"

text \<open>The three checks of a tensor; a deviation is a fatal log message, which aborts.\<close>

definition ValidateTensor :: "'t tensor_meta \<Rightarrow> Device \<Rightarrow> operand \<Rightarrow> shape \<Rightarrow> 't \<Rightarrow> unit res" where
  "ValidateTensor M local operand shape t =
     assertR (\<not> shape \<noteq> tm_shape M t)
      (assertR (\<not> oDataKind operand \<noteq> tm_kind M t)
        (assertR (\<not> tm_device M t \<noteq> local) (Inr ())))"

definition Kernel_ReadInput ::
    "bool \<Rightarrow> 't tensor_meta \<Rightarrow> 't blobs \<Rightarrow> kernel \<Rightarrow> operand \<times> blob option \<Rightarrow> 't option res" where
  "Kernel_ReadInput validate M heap k = (\<lambda>(operand, input).
     bindR (LocalShapeOn (mGlobalDevice k) operand) (\<lambda>shape.
       if IsNullTensorShape shape \<or> \<not> IsContainDevice (oDeviceMesh operand) (mGlobalDevice k)
       then assertR (input = None) (Inr None)
       else bindR (valueR input) (\<lambda>b.
         assertR (\<not> Blob_IsEmpty heap b)
          (bindR (Blob_GetTensor heap b) (\<lambda>t.
            bindR (if validate then ValidateTensor M (mLocalDevice k) operand shape t else Inr ()) (\<lambda>_. Inr (Some t)))))))"

definition Kernel_WriteOutput ::
    "bool \<Rightarrow> 't tensor_meta \<Rightarrow> kernel \<Rightarrow> 't list \<Rightarrow> nat \<Rightarrow> 't blobs \<Rightarrow> 't blobs res" where
  "Kernel_WriteOutput validate M k outputs i heap =
     (let operand = opOutputs k ! i in
      if \<not> IsContainDevice (oDeviceMesh operand) (mGlobalDevice k) then assertR (length outputs = 0) (Inr heap)
      else assertR (length (mOutputs k) = length outputs)
       (bindR (if validate then bindR (LocalShapeOn (mGlobalDevice k) operand) (\<lambda>shape.
            ValidateTensor M (mLocalDevice k) operand shape (outputs ! i)) else Inr ()) (\<lambda>_.
          case mOutputs k ! i of
            None \<Rightarrow> Inl Abort
          | Some b \<Rightarrow> assertR (Blob_IsEmpty heap b) (Blob_SetTensor b (outputs ! i) heap))))"

text \<open>\<open>catch (std::exception\& e) \ldots throw e\<close> throws a copy of the base class: every exception becomes a plain
  \<open>std::exception\<close>; an abort is no exception.\<close>

definition Rethrow :: "'a res \<Rightarrow> 'a res" where
  "Rethrow r = (case r of Inl e \<Rightarrow> Inl (if e = Abort \<or> e = Undefined then e else StdException) | Inr x \<Rightarrow> Inr x)"

definition Kernel_Run ::
    "bool \<Rightarrow> 't tensor_meta \<Rightarrow> (kernel \<Rightarrow> 't option list \<Rightarrow> 't list res) \<Rightarrow> kernel \<Rightarrow> 't blobs \<Rightarrow> 't blobs res" where
  "Kernel_Run validate M Compute k heap =
     assertR (length (mInputs k) = length (opInputs k))
      (assertR (length (mOutputs k) = length (opOutputs k))
       (bindR (mapR (Kernel_ReadInput validate M heap k) (zip (opInputs k) (mInputs k))) (\<lambda>inputs.
        bindR (Rethrow (Compute k inputs)) (\<lambda>outputs.
          foldR (Kernel_WriteOutput validate M k outputs) [0..<length (mOutputs k)] heap))))"

text \<open>The computation of the base class: every device of the mesh has a kernel, and the operator computes.\<close>

definition Kernel_Compute :: "('t option list \<Rightarrow> 't list res) \<Rightarrow> kernel \<Rightarrow> 't option list \<Rightarrow> 't list res" where
  "Kernel_Compute opCompute k inputs =
     (if length (opInputs k) + length (opOutputs k) > 0
      then let operand = (if length (opOutputs k) > 0 then opOutputs k ! 0 else opInputs k ! 0) in
        assertR (mNumKernelForThisOp k = Mesh_Count (oDeviceMesh operand)) (opCompute inputs)
      else opCompute inputs)"

section \<open>What a run checks and writes\<close>

lemma Rethrow_simps [simp]: "Rethrow (Inr x) = Inr x" "Rethrow (Inl Abort) = Inl Abort"
  by (simp_all add: Rethrow_def)

lemma Rethrow_eq_Inr: "Rethrow r = Inr x \<longleftrightarrow> r = Inr x"
  by (cases r) (auto simp: Rethrow_def)

definition tensor_ok :: "'t tensor_meta \<Rightarrow> kernel \<Rightarrow> operand \<Rightarrow> 't \<Rightarrow> bool" where
  "tensor_ok M k operand t \<longleftrightarrow> LocalShapeOn (mGlobalDevice k) operand = Inr (tm_shape M t) \<and>
     tm_kind M t = oDataKind operand \<and> tm_device M t = mLocalDevice k"

lemma ValidateTensor_eq: "ValidateTensor M local operand shape t =
  (if tm_shape M t = shape \<and> tm_kind M t = oDataKind operand \<and> tm_device M t = local then Inr () else Inl Abort)"
  by (auto simp: ValidateTensor_def guardR_def)

lemma WriteOutput_Inr:
  assumes "Kernel_WriteOutput True M k outputs i heap = Inr heap'"
  shows "if IsContainDevice (oDeviceMesh (opOutputs k ! i)) (mGlobalDevice k)
    then length outputs = length (mOutputs k) \<and> tensor_ok M k (opOutputs k ! i) (outputs ! i) \<and>
      (\<exists>b. mOutputs k ! i = Some b \<and> heap b = None \<and> heap' = heap(b \<mapsto> outputs ! i))
    else heap' = heap"
  using assms
  by (auto simp: Kernel_WriteOutput_def Let_def guardR_eq_Inr bindR_eq_Inr ValidateTensor_eq tensor_ok_def Blob_IsEmpty_def
      Blob_SetTensor_def split: if_splits option.splits)

lemma WriteOutputs_Inr:
  assumes "foldR (Kernel_WriteOutput True M k outputs) [0..<n] heap = Inr heap'" and "n \<le> length (mOutputs k)"
  shows "heap \<subseteq>\<^sub>m heap' \<and> (\<forall>b. Some b \<notin> set (mOutputs k) \<longrightarrow> heap' b = heap b) \<and>
    (\<forall>i < n. IsContainDevice (oDeviceMesh (opOutputs k ! i)) (mGlobalDevice k) \<longrightarrow>
      length outputs = length (mOutputs k) \<and> tensor_ok M k (opOutputs k ! i) (outputs ! i) \<and>
      (\<exists>b. mOutputs k ! i = Some b \<and> heap b = None \<and> heap' b = Some (outputs ! i)))"
  using assms
proof (induction n arbitrary: heap')
  case 0
  then show ?case by simp
next
  case (Suc n)
  then obtain h where h: "foldR (Kernel_WriteOutput True M k outputs) [0..<n] heap = Inr h"
    and step: "Kernel_WriteOutput True M k outputs n h = Inr heap'"
    by (auto simp: foldR_append bindR_eq_Inr)
  from Suc.IH [OF h] Suc.prems(2) have IH: "heap \<subseteq>\<^sub>m h" "\<forall>b. Some b \<notin> set (mOutputs k) \<longrightarrow> h b = heap b"
    "\<And>i. i < n \<Longrightarrow> IsContainDevice (oDeviceMesh (opOutputs k ! i)) (mGlobalDevice k) \<Longrightarrow>
      length outputs = length (mOutputs k) \<and> tensor_ok M k (opOutputs k ! i) (outputs ! i) \<and>
      (\<exists>b. mOutputs k ! i = Some b \<and> heap b = None \<and> h b = Some (outputs ! i))" by simp_all
  have mono: "h \<subseteq>\<^sub>m heap'" and out: "\<forall>b. Some b \<notin> set (mOutputs k) \<longrightarrow> heap' b = h b"
    using WriteOutput_Inr [OF step] Suc.prems(2) by (auto simp: map_le_def split: if_splits) (metis nth_mem Suc_le_eq)
  have new: "\<exists>b. mOutputs k ! n = Some b \<and> heap b = None \<and> heap' b = Some (outputs ! n)"
    "length outputs = length (mOutputs k) \<and> tensor_ok M k (opOutputs k ! n) (outputs ! n)"
    if "IsContainDevice (oDeviceMesh (opOutputs k ! n)) (mGlobalDevice k)"
    using WriteOutput_Inr [OF step] that IH(1) by (auto simp: map_le_def dom_def)
  show ?case
  proof (intro conjI allI impI)
    show "heap \<subseteq>\<^sub>m heap'" using IH(1) mono map_le_trans by blast
    show "heap' b = heap b" if "Some b \<notin> set (mOutputs k)" for b using that IH(2) out by simp
  next
    fix i assume i: "i < Suc n" "IsContainDevice (oDeviceMesh (opOutputs k ! i)) (mGlobalDevice k)"
    show "length outputs = length (mOutputs k)" using i new(2) IH(3) [of i] by (cases "i = n") auto
    show "tensor_ok M k (opOutputs k ! i) (outputs ! i)" using i new(2) IH(3) [of i] by (cases "i = n") auto
    show "\<exists>b. mOutputs k ! i = Some b \<and> heap b = None \<and> heap' b = Some (outputs ! i)"
    proof (cases "i = n")
      case False
      with i IH(3) [of i] obtain b where "mOutputs k ! i = Some b" "heap b = None" "h b = Some (outputs ! i)" by auto
      with mono show ?thesis by (metis domI map_le_def)
    qed (use i new(1) in simp)
  qed
qed

text \<open>C29: a validated run that succeeds leaves in every output blob of its device a tensor of the local shape, the
  data kind and the device that the operand promises; it fills only empty blobs of its outputs and changes no tensor
  that was there.\<close>

theorem Kernel_Run_well_typed:
  assumes "Kernel_Run True M Compute k heap = Inr heap'"
  shows "(\<forall>i < length (opOutputs k). IsContainDevice (oDeviceMesh (opOutputs k ! i)) (mGlobalDevice k) \<longrightarrow>
      (\<exists>b t. mOutputs k ! i = Some b \<and> heap b = None \<and> heap' b = Some t \<and> tensor_ok M k (opOutputs k ! i) t)) \<and>
    (\<forall>b t. heap b = Some t \<longrightarrow> heap' b = Some t) \<and> (\<forall>b. Some b \<notin> set (mOutputs k) \<longrightarrow> heap' b = heap b)"
proof -
  from assms obtain outputs where n: "length (mOutputs k) = length (opOutputs k)"
    and run: "foldR (Kernel_WriteOutput True M k outputs) [0..<length (mOutputs k)] heap = Inr heap'"
    by (auto simp: Kernel_Run_def guardR_eq_Inr bindR_eq_Inr)
  note w = WriteOutputs_Inr [OF run order_refl]
  then have "\<forall>i < length (opOutputs k). IsContainDevice (oDeviceMesh (opOutputs k ! i)) (mGlobalDevice k) \<longrightarrow>
      (\<exists>b t. mOutputs k ! i = Some b \<and> heap b = None \<and> heap' b = Some t \<and> tensor_ok M k (opOutputs k ! i) t)"
    using n by metis
  moreover have "\<forall>b t. heap b = Some t \<longrightarrow> heap' b = Some t" using w by (auto simp: map_le_def dom_def)
  ultimately show ?thesis using w by blast
qed

section \<open>The outcome of a run\<close>

lemma mapR_guarded:
  assumes "\<And>x. x \<in> set xs \<Longrightarrow> f x = (if P x then Inr (g x) else Inl e)"
  shows "mapR f xs = (if \<forall>x \<in> set xs. P x then Inr (map g xs) else Inl e)"
  using assms by (induction xs) auto

text \<open>A kernel whose blobs are as the runner leaves them: the inputs that are there are computed, the outputs are not.\<close>

definition prepared_input :: "'t blobs \<Rightarrow> kernel \<Rightarrow> operand \<Rightarrow> blob option \<Rightarrow> bool" where
  "prepared_input heap k operand input \<longleftrightarrow> (\<exists>s. LocalShapeOn (mGlobalDevice k) operand = Inr s \<and>
     (if IsNullTensorShape s \<or> \<not> IsContainDevice (oDeviceMesh operand) (mGlobalDevice k) then input = None
      else \<exists>b t. input = Some b \<and> heap b = Some t))"

definition prepared :: "'t blobs \<Rightarrow> kernel \<Rightarrow> bool" where
  "prepared heap k \<longleftrightarrow> length (mInputs k) = length (opInputs k) \<and> length (mOutputs k) = length (opOutputs k) \<and>
     (\<forall>(operand, input) \<in> set (zip (opInputs k) (mInputs k)). prepared_input heap k operand input) \<and>
     (\<forall>i < length (opOutputs k). IsContainDevice (oDeviceMesh (opOutputs k ! i)) (mGlobalDevice k) \<and>
       (\<exists>s. LocalShapeOn (mGlobalDevice k) (opOutputs k ! i) = Inr s) \<and> (\<exists>b. mOutputs k ! i = Some b \<and> heap b = None)) \<and>
     distinct (mOutputs k)"

definition input_tensor :: "'t blobs \<Rightarrow> operand \<times> blob option \<Rightarrow> 't option" where
  "input_tensor heap p = Option.bind (snd p) heap"

definition input_ok :: "'t tensor_meta \<Rightarrow> 't blobs \<Rightarrow> kernel \<Rightarrow> operand \<times> blob option \<Rightarrow> bool" where
  "input_ok M heap k p \<longleftrightarrow> (case input_tensor heap p of None \<Rightarrow> True | Some t \<Rightarrow> tensor_ok M k (fst p) t)"

definition fill_outputs :: "kernel \<Rightarrow> 't list \<Rightarrow> nat \<Rightarrow> 't blobs \<Rightarrow> 't blobs" where
  "fill_outputs k outputs n heap = fold (\<lambda>i heap. heap(the (mOutputs k ! i) \<mapsto> outputs ! i)) [0..<n] heap"

lemma ReadInput_prepared:
  assumes "prepared_input heap k (fst p) (snd p)"
  shows "Kernel_ReadInput True M heap k p = (if input_ok M heap k p then Inr (input_tensor heap p) else Inl Abort)"
  using assms
  by (cases p) (auto simp: prepared_input_def Kernel_ReadInput_def input_ok_def input_tensor_def Blob_IsEmpty_def Blob_GetTensor_def
      ValidateTensor_eq tensor_ok_def guardR_def split: if_splits)

lemma WriteOutputs_prepared:
  assumes "prepared heap k" and "length outputs = length (mOutputs k)" and "n \<le> length (mOutputs k)"
  shows "foldR (Kernel_WriteOutput True M k outputs) [0..<n] heap =
    (if \<forall>i < n. tensor_ok M k (opOutputs k ! i) (outputs ! i) then Inr (fill_outputs k outputs n heap) else Inl Abort) \<and>
    (\<forall>b. b \<notin> (\<lambda>i. the (mOutputs k ! i)) ` {..<n} \<longrightarrow> fill_outputs k outputs n heap b = heap b)"
  using assms(3)
proof (induction n)
  case 0
  then show ?case by (simp add: fill_outputs_def)
next
  case (Suc n)
  from assms(1) Suc.prems obtain s b where b: "mOutputs k ! n = Some b" "heap b = None"
    and s: "LocalShapeOn (mGlobalDevice k) (opOutputs k ! n) = Inr s"
    and dev: "IsContainDevice (oDeviceMesh (opOutputs k ! n)) (mGlobalDevice k)"
    by (auto simp: prepared_def Suc_le_eq)
  have "b \<noteq> the (mOutputs k ! i)" if "i < n" for i
  proof -
    have i: "i < length (mOutputs k)" using that Suc.prems by simp
    then obtain c where "mOutputs k ! i = Some c" using assms(1) by (auto simp: prepared_def)
    moreover have "mOutputs k ! i \<noteq> mOutputs k ! n"
      using assms(1) that Suc.prems i by (auto simp: prepared_def distinct_conv_nth)
    ultimately show ?thesis using b(1) by auto
  qed
  then have new: "b \<notin> (\<lambda>i. the (mOutputs k ! i)) ` {..<n}" by auto
  have IH: "foldR (Kernel_WriteOutput True M k outputs) [0..<n] heap =
      (if \<forall>i < n. tensor_ok M k (opOutputs k ! i) (outputs ! i) then Inr (fill_outputs k outputs n heap) else Inl Abort)"
    "\<And>c. c \<notin> (\<lambda>i. the (mOutputs k ! i)) ` {..<n} \<Longrightarrow> fill_outputs k outputs n heap c = heap c"
    using Suc by auto
  have empty: "fill_outputs k outputs n heap b = None" using IH(2) [OF new] b(2) by simp
  have wr: "Kernel_WriteOutput True M k outputs n (fill_outputs k outputs n heap) =
      (if tensor_ok M k (opOutputs k ! n) (outputs ! n) then Inr (fill_outputs k outputs (Suc n) heap) else Inl Abort)"
    using s dev b(1) empty assms(2)
    by (auto simp: Kernel_WriteOutput_def ValidateTensor_eq tensor_ok_def Blob_IsEmpty_def Blob_SetTensor_def fill_outputs_def)
  have "fill_outputs k outputs (Suc n) heap c = heap c" if "c \<notin> (\<lambda>i. the (mOutputs k ! i)) ` {..<Suc n}" for c
    using that IH(2) [of c] b(1) by (auto simp: fill_outputs_def lessThan_Suc)
  then show ?case using IH(1) wr by (simp add: foldR_append less_Suc_eq)
qed

text \<open>The outcome of a validated run of a prepared kernel, on every branch: it aborts when an input is not the tensor
  the operator expects, hands on a failure of the computation (an exception as a plain \<open>std::exception\<close>), aborts when the
  results are not those the operands promise, and else fills the blobs of the outputs.\<close>

theorem Kernel_Run_outcome:
  assumes "prepared heap k" and "0 < length (opOutputs k)"
  shows "Kernel_Run True M Compute k heap =
    (let ps = zip (opInputs k) (mInputs k) in
     if \<exists>p \<in> set ps. \<not> input_ok M heap k p then Inl Abort
     else case Compute k (map (input_tensor heap) ps) of
         Inl e \<Rightarrow> Inl (if e = Abort \<or> e = Undefined then e else StdException)
       | Inr outputs \<Rightarrow>
           if length outputs = length (opOutputs k) \<and> (\<forall>i < length (opOutputs k). tensor_ok M k (opOutputs k ! i) (outputs ! i))
           then Inr (fill_outputs k outputs (length (opOutputs k)) heap) else Inl Abort)"
proof -
  let ?ps = "zip (opInputs k) (mInputs k)" and ?n = "length (opOutputs k)"
  have "mapR (Kernel_ReadInput True M heap k) ?ps =
      (if \<forall>p \<in> set ?ps. input_ok M heap k p then Inr (map (input_tensor heap) ?ps) else Inl Abort)"
    using assms(1) by (intro mapR_guarded ReadInput_prepared) (auto simp: prepared_def)
  moreover have "foldR (Kernel_WriteOutput True M k outputs) [0..<?n] heap =
      (if length outputs = ?n \<and> (\<forall>i < ?n. tensor_ok M k (opOutputs k ! i) (outputs ! i))
       then Inr (fill_outputs k outputs ?n heap) else Inl Abort)" for outputs
  proof (cases "length outputs = ?n")
    case True
    with WriteOutputs_prepared [OF assms(1), of outputs ?n] assms(1) show ?thesis by (simp add: prepared_def)
  next
    case False
    moreover have "IsContainDevice (oDeviceMesh (opOutputs k ! 0)) (mGlobalDevice k)" "length (mOutputs k) = ?n"
      using assms by (auto simp: prepared_def)
    moreover have "[0..<?n] = 0 # [Suc 0..<?n]" using assms(2) by (rule upt_conv_Cons)
    ultimately show ?thesis by (simp add: Kernel_WriteOutput_def Let_def)
  qed
  moreover have "length (mInputs k) = length (opInputs k)" "length (mOutputs k) = ?n" using assms(1) by (auto simp: prepared_def)
  ultimately show ?thesis
    by (cases "Compute k (map (input_tensor heap) ?ps)") (auto simp: Kernel_Run_def Rethrow_def)
qed

section \<open>Distributed operators of one input\<close>

lemma LocalShapeOn_ok:
  assumes "cache_ok op" and "Operand_IsDistributed op" and "layout_ok (oShape op) m (oPlacementSeq op)" and "m = oDeviceMesh op"
    and "\<forall>n \<in> set (Mesh_Shape m). 0 < n" and "r < Mesh_Count m"
  shows "LocalShapeOn (mk_Device (mDeviceKind m) (mData (mMesh m) ! r)) op =
    Inr (local_shape (Mesh_Shape m) (oPlacementSeq op) (oShape op) (rank_coord (Mesh_Shape m) r))"
  using GetLocalShape_ok [of op r] assms by (auto simp: LocalShapeOn_def mk_Device_def)

lemma local_shape_not_null:
  assumes "layout_ok s m ps" and "\<not> IsNullTensorShape s"
  shows "\<not> IsNullTensorShape (local_shape (Mesh_Shape m) ps s cs)"
proof
  assume null: "IsNullTensorShape (local_shape (Mesh_Shape m) ps s cs)"
  then have s: "length s = 1" and l: "local_size (Mesh_Shape m) ps s cs 0 = - 100"
    by (auto simp: IsNullTensorShape_def local_shape_def)
  show False
  proof (cases "shard_axes ps 0 = {}")
    case True
    with s l assms(2) show ?thesis by (simp add: local_size_unsharded IsNullTensorShape_def)
  next
    case False
    from local_size_sharded_pos [OF assms(1) this] l show ?thesis by (metis one_le_numeral neg_numeral_le_one not_one_le_neg_numeral)
  qed
qed

context dim_map_layout
begin

text \<open>The inferred layout of the output is a valid one.\<close>

lemma inferred_layout_ok:
  assumes run: "InferOutput gpus cls [x] [y0] = Inr [y]" and dist: "vSkipDistributedSpec cls [x] = Inr False"
    and plain: "list_all plain_placement (oPlacementSeq x)" and ne: "oPlacementSeq x \<noteq> []"
    and null: "\<not> IsNullTensorShape (oShape x)" and wf: "Mesh_wf (oDeviceMesh x)"
  shows "layout_ok (oShape x) (oDeviceMesh x) (oPlacementSeq x) \<and> layout_ok (oShape y) (oDeviceMesh x) (oPlacementSeq y)"
proof -
  from inferred_follows [OF run dist plain ne null] have y: "infer (oShape x) = Inr (oShape y)" "length (oPlacementSeq y) = length (oPlacementSeq x)"
    and f: "\<And>i. i < length (oPlacementSeq x) \<Longrightarrow> follows (axis_map (oShape x)) ([oPlacementSeq x ! i], [oPlacementSeq y ! i])"
    by auto
  from InferOutput_parts [OF run dist] have valid: "CheckValid (oShape x) (oDeviceMesh x) (oPlacementSeq x) gpus = Inr True"
    and shape: "CheckShapeValid (oShape y) (oDeviceMesh x) (oPlacementSeq y) = Inr True" by auto
  from valid CheckValid_iff [OF wf null] have lx: "layout_ok (oShape x) (oDeviceMesh x) (oPlacementSeq x)" by simp
  have shard: "0 \<le> mShardIndex (oPlacementSeq y ! i) \<and> mShardIndex (oPlacementSeq y ! i) < int (length (oShape y)) \<and>
      2 \<le> Mesh_Shape (oDeviceMesh x) ! i" if "i < length (oPlacementSeq x)" "IsShard (oPlacementSeq y ! i)" for i
    using f [OF that(1)] that lx map_range [OF y(1)] by (auto simp: follows_def layout_ok_def)
  have sub: "sharded_dims (oPlacementSeq y) \<subseteq> {..<length (oShape y)}"
    using sharded_dims_bound [of "oPlacementSeq y" "oShape y"] shard y(2) by auto
  have "shards_nonneg (oPlacementSeq y)" using shard y(2) by (auto simp: shards_nonneg_def list_all_length)
  from CheckShapeValid_eq [OF this _ sub, of "oDeviceMesh x"] shape lx y(2) shard
  have "layout_ok (oShape y) (oDeviceMesh x) (oPlacementSeq y)"
    by (auto simp: layout_ok_def sharded_dims_def)
  with lx show ?thesis by simp
qed

end

context dim_map_operator
begin

text \<open>Under the interface, the kernel of every device finds the tensor it expects and computes one that its output
  operand promises.\<close>

lemma kernel_runs:
  assumes run: "InferOutput gpus cls [x] [y0] = Inr [y]" and skip: "vSkipDistributedSpec cls [x] = Inr False"
    and plain: "list_all plain_placement (oPlacementSeq x)" and ne: "oPlacementSeq x \<noteq> []"
    and null: "\<not> IsNullTensorShape (oShape x)" and wf: "Mesh_wf m" and mesh: "m = oDeviceMesh x"
    and pos: "\<forall>n \<in> set (Mesh_Shape m). 0 < n" and r: "r < Mesh_Count m" and dist: "Operand_IsDistributed x"
    and cache: "cache_ok x" "cache_ok y" and kind: "oDataKind y = oDataKind x"
    and dev: "dev = mk_Device (mDeviceKind m) (mData (mMesh m) ! r)"
    and blobs: "inB (deviceId dev) = Some b" "outB (deviceId dev) = Some c" "heap b = Some t" "heap c = None"
    and input: "LocalShapeOn dev x = Inr (tm_shape M t)" "tm_kind M t = oDataKind x" "tm_device M t = local"
    and comp: "opCompute [Some t] = Inr [u]"
    and torch: "\<And>s. infer (tm_shape M t) = Inr s \<Longrightarrow> tm_shape M u = s \<and> tm_kind M u = tm_kind M t \<and> tm_device M u = tm_device M t"
  shows "\<exists>k. Kernel_new [x] [y] [inB] [outB] dev local (Mesh_Count m) = Inr k \<and>
    Kernel_Run True M (Kernel_Compute opCompute) k heap = Inr (heap(c \<mapsto> u))"
proof -
  let ?ls = "\<lambda>op. local_shape (Mesh_Shape m) (oPlacementSeq op) (oShape op) (rank_coord (Mesh_Shape m) r)"
  from inferred_follows [OF run skip plain ne null] have y: "infer (oShape x) = Inr (oShape y)" "oDeviceMesh y = m"
    "length (oPlacementSeq y) = length (oPlacementSeq x)"
    and f: "\<And>i. i < length (oPlacementSeq x) \<Longrightarrow> follows (axis_map (oShape x)) ([oPlacementSeq x ! i], [oPlacementSeq y ! i])"
    using mesh by auto
  from inferred_layout_ok [OF run skip plain ne null] wf mesh
  have lay: "layout_ok (oShape x) m (oPlacementSeq x)" "layout_ok (oShape y) m (oPlacementSeq y)" by simp_all
  have disty: "Operand_IsDistributed y" using dist y(2) mesh by (simp add: Operand_IsDistributed_def)
  have lx: "LocalShapeOn dev x = Inr (?ls x)" unfolding dev by (rule LocalShapeOn_ok [OF cache(1) dist lay(1) mesh pos r])
  have ly: "LocalShapeOn dev y = Inr (?ls y)"
    unfolding dev by (rule LocalShapeOn_ok [OF cache(2) disty lay(2) _ pos r]) (use y(2) in simp)
  from lx input(1) have tx: "tm_shape M t = ?ls x" by simp
  have "infer (?ls x) = Inr (?ls y)" by (rule local_shape_commutes [OF y(1,3) f])
  with torch tx have u: "tm_shape M u = ?ls y" "tm_kind M u = tm_kind M t" "tm_device M u = tm_device M t" by simp_all
  have "mData (mMesh m) ! r \<in> GetDeviceIdSet m" using wf r by (auto simp: Mesh_wf_def SimpleArray_wf_def Mesh_Count_def)
  then have here: "IsContainDevice m dev" by (simp add: IsContainDevice_def dev mk_Device_def)
  have nullx: "\<not> IsNullTensorShape (?ls x)" by (rule local_shape_not_null [OF lay(1) null])
  let ?k = "\<lparr>opInputs = [x], opOutputs = [y], mInputs = [Some b], mOutputs = [Some c], mGlobalDevice = dev, mLocalDevice = local,
    mNumKernelForThisOp = Mesh_Count m\<rparr>"
  have k: "Kernel_new [x] [y] [inB] [outB] dev local (Mesh_Count m) = Inr ?k"
    using dist lx nullx here mesh y(2) blobs by (simp add: Kernel_new_def Kernel_TakeInput_def Kernel_TakeOutput_def TakeBlob_def)
  have "Kernel_ReadInput True M heap ?k (x, Some b) = Inr (Some t)"
    using lx nullx here mesh blobs input tx
    by (simp add: Kernel_ReadInput_def Blob_IsEmpty_def Blob_GetTensor_def ValidateTensor_eq)
  moreover have "Kernel_Compute opCompute ?k [Some t] = Inr [u]" using comp y(2) by (simp add: Kernel_Compute_def)
  moreover have "Kernel_WriteOutput True M ?k [u] 0 heap = Inr (heap(c \<mapsto> u))"
    using ly u here y(2) blobs input kind
    by (simp add: Kernel_WriteOutput_def ValidateTensor_eq Blob_IsEmpty_def Blob_SetTensor_def)
  ultimately have "Kernel_Run True M (Kernel_Compute opCompute) ?k heap = Inr (heap(c \<mapsto> u))"
    by (simp add: Kernel_Run_def)
  with k show ?thesis by blast
qed

end

lemma inferred_cache:
  assumes "InferOutput gpus cls inputs outputs = Inr outs" and "vSkipDistributedSpec cls inputs = Inr False" and "y \<in> set outs"
  shows "cache_ok y"
proof -
  from assms(1,2) obtain metas where "InferOutputDistributedSpecFromPlacementSignature cls inputs metas = Inr outs"
    by (auto simp: InferOutput_def guardR_eq_Inr bindR_eq_Inr)
  then obtain seqs where s: "foldR (SetOutputSpec (oDeviceMesh (inputs ! 0)) seqs) [0..<length metas] metas = Inr outs"
    by (auto simp: InferOutputDistributedSpecFromPlacementSignature_def Let_def guardR_eq_Inr bindR_eq_Inr
        split: option.splits)
  from assms(3) obtain i where "i < length outs" "y = outs ! i" by (auto simp: in_set_conv_nth)
  with SetOutputSpec_fold [OF s] show ?thesis by (auto simp: SetDeviceMeshAndPlacementSeq_def cache_ok_def)
qed

definition Transpose_Compute :: "('t \<Rightarrow> int \<Rightarrow> int \<Rightarrow> 't) \<Rightarrow> int \<Rightarrow> int \<Rightarrow> 't option list \<Rightarrow> 't list res" where
  "Transpose_Compute torch_transpose dim0 dim1 inputs =
     assertR (length inputs = 1) (bindR (valueR (inputs ! 0)) (\<lambda>t. Inr [torch_transpose t dim0 dim1]))"

text \<open>C28: from the client's call to the device: when the inference of a distributed transpose succeeds, the kernel of
  every device of the mesh can be built from the blobs of the operands, finds its input as expected, and its validated
  run fills the output blob with the transposed tensor.  The hypotheses on \<open>torch_transpose\<close> are its documentation.\<close>

theorem Transpose_kernel_runs:
  assumes run: "InferOutput gpus (Transpose_class dim0 dim1) [x] [Operand_new] = Inr [y]" and dist: "Operand_IsDistributed x"
    and x: "list_all plain_placement (oPlacementSeq x)" "oPlacementSeq x \<noteq> []" "\<not> IsNullTensorShape (oShape x)" "cache_ok x"
    and mesh: "m = oDeviceMesh x" "Mesh_wf m" "\<forall>n \<in> set (Mesh_Shape m). 0 < n" "r < Mesh_Count m"
    and dev: "dev = mk_Device (mDeviceKind m) (mData (mMesh m) ! r)"
    and blobs: "inB (deviceId dev) = Some b" "outB (deviceId dev) = Some c" "heap b = Some t" "heap c = None"
    and input: "LocalShapeOn dev x = Inr (tm_shape M t)" "tm_kind M t = oDataKind x" "tm_device M t = local"
    and torch: "\<And>s. Transpose_shape dim0 dim1 (tm_shape M t) = Inr s \<Longrightarrow> tm_shape M (torch_transpose t dim0 dim1) = s \<and>
      tm_kind M (torch_transpose t dim0 dim1) = tm_kind M t \<and> tm_device M (torch_transpose t dim0 dim1) = tm_device M t"
  shows "\<exists>k. Kernel_new [x] [y] [inB] [outB] dev local (Mesh_Count m) = Inr k \<and>
    Kernel_Run True M (Kernel_Compute (Transpose_Compute torch_transpose dim0 dim1)) k heap =
      Inr (heap(c \<mapsto> torch_transpose t dim0 dim1))"
proof -
  have skip: "vSkipDistributedSpec (Transpose_class dim0 dim1) [x] = Inr False"
    using dist by (simp add: Transpose_class_def unary_skip)
  from InferOutput_parts [OF run skip] obtain metas where "vInferOutputMetaInfo (Transpose_class dim0 dim1) [x] [Operand_new] = Inr metas"
    and "oDataKind y = oDataKind (metas ! 0)" by auto
  then have kind: "oDataKind y = oDataKind x"
    by (auto simp: Transpose_class_def unary_class_def UnaryMeta_def OperandAt_def UpdateOutput_def bindR_eq_Inr
        SetShapeAndStride_def MetaDataSameAs_def)
  have cache: "cache_ok y" by (rule inferred_cache [OF run skip]) simp
  have comp: "Transpose_Compute torch_transpose dim0 dim1 [Some t] = Inr [torch_transpose t dim0 dim1]"
    by (simp add: Transpose_Compute_def)
  show ?thesis
  proof (rule transpose.layout.kernel_runs [where x = x and y = y and m = m and r = r and inB = inB and outB = outB and
        heap = heap and dev = dev and b = b and c = c and t = t and M = M and local = local])
    show "InferOutput gpus (unary_class (Transpose_shape dim0 dim1) (Transpose_rules dim0 dim1)) [x] [Operand_new] = Inr [y]"
      using run by (simp add: Transpose_class_def)
    show "vSkipDistributedSpec (unary_class (Transpose_shape dim0 dim1) (Transpose_rules dim0 dim1)) [x] = Inr False"
      using dist by (simp add: unary_skip)
    show "tm_shape M (torch_transpose t dim0 dim1) = s \<and> tm_kind M (torch_transpose t dim0 dim1) = tm_kind M t \<and>
        tm_device M (torch_transpose t dim0 dim1) = tm_device M t" if "Transpose_shape dim0 dim1 (tm_shape M t) = Inr s" for s
      using that by (rule torch)
  qed (fact x mesh dist cache kind dev blobs input comp)+
qed

subsection \<open>An example\<close>

text \<open>Tensors that only know what the checks read.\<close>

definition triple_meta :: "(shape \<times> DataKind \<times> Device) tensor_meta" where
  "triple_meta = \<lparr>tm_shape = fst, tm_kind = fst \<circ> snd, tm_device = snd \<circ> snd\<rparr>"

definition triple_transpose :: "shape \<times> DataKind \<times> Device \<Rightarrow> int \<Rightarrow> int \<Rightarrow> shape \<times> DataKind \<times> Device" where
  "triple_transpose t dim0 dim1 = (case Transpose_shape dim0 dim1 (fst t) of Inl _ \<Rightarrow> t | Inr s \<Rightarrow> (s, snd t))"

definition example_kernel :: kernel where
  "example_kernel = \<lparr>opInputs = [Operand_of [4, 3] kFloat32 default_mesh [Replicate]],
     opOutputs = [Operand_of [3, 4] kFloat32 default_mesh [Replicate]], mInputs = [Some 0], mOutputs = [Some 1],
     mGlobalDevice = mk_Device kCpu 0, mLocalDevice = mk_Device kCpu 0, mNumKernelForThisOp = 1\<rparr>"

definition example_heap :: "(shape \<times> DataKind \<times> Device) blobs" where
  "example_heap = [0 \<mapsto> ([4, 3], kFloat32, mk_Device kCpu 0)]"

lemma Operand_of_sel: "oShape (Operand_of s k m p) = s" "oDataKind (Operand_of s k m p) = k" "oDeviceMesh (Operand_of s k m p) = m"
  by (simp_all add: Operand_of_def)

lemma default_mesh_Count: "Mesh_Count default_mesh = 1"
  by (simp add: default_mesh_def Mesh_Count_def)

lemma example_local:
  "LocalShapeOn (mk_Device kCpu 0) (Operand_of s kFloat32 default_mesh [Replicate]) = Inr s"
  by (simp add: LocalShapeOn_def GetLocalShape_def Operand_ComputeLocalShape_def Operand_of_def Operand_IsDistributed_def
      Mesh_IsDistributed_def default_mesh_def Mesh_Count_def)

lemma example_contains: "IsContainDevice default_mesh (mk_Device kCpu 0)"
  by (simp add: IsContainDevice_def default_mesh_def mk_Device_def)

lemma example_run:
  "Kernel_Run True triple_meta (Kernel_Compute (Transpose_Compute triple_transpose 0 1)) example_kernel example_heap =
    Inr (example_heap(1 \<mapsto> ([3, 4], kFloat32, mk_Device kCpu 0)))"
proof -
  let ?t = "([4, 3], kFloat32, mk_Device kCpu 0)"
  have "Kernel_Compute (Transpose_Compute triple_transpose 0 1) example_kernel [Some ?t] = Inr [([3, 4], kFloat32, mk_Device kCpu 0)]"
    by (simp add: Kernel_Compute_def example_kernel_def Transpose_Compute_def triple_transpose_def Operand_of_sel
        default_mesh_Count Transpose_shape_def GetValidDim_def)
  then show ?thesis
    by (simp add: Kernel_Run_def example_kernel_def Kernel_ReadInput_def example_local example_contains example_heap_def Operand_of_sel
        Blob_IsEmpty_def Blob_GetTensor_def ValidateTensor_eq triple_meta_def IsNullTensorShape_def Kernel_WriteOutput_def Let_def
        Blob_SetTensor_def)
qed

lemma example_prepared: "prepared example_heap example_kernel"
  by (simp add: prepared_def prepared_input_def example_kernel_def example_local example_contains example_heap_def Operand_of_sel
      IsNullTensorShape_def)

theorem Kernel_Run_well_typed_witness:
  "\<exists>heap'. Kernel_Run True triple_meta (Kernel_Compute (Transpose_Compute triple_transpose 0 1)) example_kernel example_heap = Inr heap' \<and>
    (\<exists>t. heap' 1 = Some t \<and> fst t = [3, 4]) \<and> heap' 0 = Some ([4, 3], kFloat32, mk_Device kCpu 0)"
  using Kernel_Run_well_typed [OF example_run] example_run
  by (auto simp: example_heap_def)

theorem Kernel_Run_outcome_witness:
  "Kernel_Run True triple_meta (\<lambda>_ _. Inl InvalidArgument) example_kernel example_heap = Inl StdException"
  using Kernel_Run_outcome [OF example_prepared, of triple_meta "\<lambda>_ _. Inl InvalidArgument"]
  by (simp add: example_kernel_def input_ok_def input_tensor_def example_heap_def tensor_ok_def example_local triple_meta_def Operand_of_sel)

theorem Transpose_kernel_runs_witness:
  "\<exists>y k heap'. InferOutput 8 (Transpose_class 0 (- 1)) [grid_operand] [Operand_new] = Inr [y] \<and>
    Kernel_new [grid_operand] [y] [[5 \<mapsto> 0]] [[5 \<mapsto> 1]] (mk_Device kGpu 5) (mk_Device kGpu 1) 4 = Inr k \<and>
    Kernel_Run True triple_meta (Kernel_Compute (Transpose_Compute triple_transpose 0 (- 1))) k
      [0 \<mapsto> ([3, 2, 2], kFloat32, mk_Device kGpu 1)] = Inr heap' \<and>
    heap' 1 = Some ([2, 2, 3], kFloat32, mk_Device kGpu 1)"
proof -
  from Transpose_grid_runs obtain ys where ys: "InferOutput 8 (Transpose_class 0 (- 1)) [grid_operand] [Operand_new] = Inr ys" by blast
  then obtain y where run: "InferOutput 8 (Transpose_class 0 (- 1)) [grid_operand] [Operand_new] = Inr [y]"
    using transpose.layout.inferred_layout_sound [of 8 0 "- 1" grid_operand Operand_new ys]
    by (auto simp: Transpose_class_def unary_skip plain_Shard_numeral IsNullTensorShape_def)
  let ?t = "([3, 2, 2], kFloat32, mk_Device kGpu 1)"
  have lay: "layout_ok [6, 4, 2] gpu_grid [Shard 0 (- 1), Shard 1 (- 1)]"
    by (auto simp: layout_ok_def shard_count_def shard_axes_2 IsShardAt_def less_Suc_eq)
  have wf: "Mesh_wf gpu_grid" using lay by (simp add: layout_ok_def)
  have cache: "cache_ok grid_operand" by (simp add: grid_operand_def Operand_of_def cache_ok_def)
  have "local_shape [2, 2] [Shard 0 (- 1), Shard 1 (- 1)] [6, 4, 2] (rank_coord [2, 2] 1) = [3, 2, 2]" by code_simp
  then have "LocalShapeOn (mk_Device kGpu 5) grid_operand = Inr [3, 2, 2]"
    using LocalShapeOn_ok [of grid_operand gpu_grid 1] lay cache by (simp add: Mesh_Count_def)
  then have input: "LocalShapeOn (mk_Device kGpu 5) grid_operand = Inr (tm_shape triple_meta ?t)" by (simp add: triple_meta_def)
  have trans: "Transpose_shape 0 (- 1) [3, 2, 2] = Inr [2, 2, 3]" by code_simp
  have "\<exists>k. Kernel_new [grid_operand] [y] [[5 \<mapsto> 0]] [[5 \<mapsto> 1]] (mk_Device kGpu 5) (mk_Device kGpu 1) (Mesh_Count gpu_grid) = Inr k \<and>
      Kernel_Run True triple_meta (Kernel_Compute (Transpose_Compute triple_transpose 0 (- 1))) k [0 \<mapsto> ?t] =
        Inr ([0 \<mapsto> ?t](1 \<mapsto> triple_transpose ?t 0 (- 1)))"
  proof (rule Transpose_kernel_runs [where x = grid_operand and y = y and m = gpu_grid and r = 1, OF run])
    show "LocalShapeOn (mk_Device kGpu 5) grid_operand = Inr (tm_shape triple_meta ?t)" by (fact input)
    show "tm_kind triple_meta ?t = oDataKind grid_operand" by (simp add: triple_meta_def grid_operand_def Operand_of_sel)
  qed (use wf cache in \<open>auto simp: IsNullTensorShape_def Mesh_Count_def mk_Device_def triple_meta_def triple_transpose_def split: sum.splits\<close>)
  moreover have "triple_transpose ?t 0 (- 1) = ([2, 2, 3], kFloat32, mk_Device kGpu 1)" using trans by (simp add: triple_transpose_def)
  moreover have "Mesh_Count gpu_grid = 4" by (simp add: Mesh_Count_def)
  ultimately show ?thesis using run by (metis fun_upd_same)
qed

end
