(* ===== verification/Redistribution.thy ===== *)
theory Redistribution
  imports Tensors
begin

text \<open>
  Moving a tensor between layouts: \<open>DistributedSpec::MergeSameShardDim\<close> of
  src/dtorch/api/cpp/distributed_spec.cc and the classes \<open>DistributedScather\<close> and \<open>DistributeGather\<close> of
  src/dtorch/core/kernel/kernel_implement/distributed_scather_and_gather.cc.  The tensor operations are an
  argument (\<open>Tensors\<close>); an unordered map of tensors by device is a map, or an association list where its
  entries are visited.
\<close>

section \<open>Merging the mesh axes that cut the same tensor axis\<close>

definition needMergeDimMap :: "ShardInfo list \<Rightarrow> nat \<rightharpoonup> nat list" where
  "needMergeDimMap shardInfoVec = foldl (\<lambda>m info. if card (meshDims info) > 1 then
       let meshDimsVec = sorted_list_of_set (meshDims info) in m(meshDimsVec ! 0 \<mapsto> meshDimsVec)
     else m) Map.empty shardInfoVec"

record merge_state =
  usedDim :: "nat set"
  permuteDim :: "nat list"
  newMeshShape :: shape
  newPlacements :: placement_seq

definition Merge_axis :: "(nat \<rightharpoonup> nat list) \<Rightarrow> shape \<Rightarrow> placement_seq \<Rightarrow> nat \<Rightarrow> merge_state \<Rightarrow> merge_state res" where
  "Merge_axis need meshShape ps i st =
     (if i \<in> usedDim st then Inr st
      else (case need i of
         None \<Rightarrow> bindR (Seq_at ps i) (\<lambda>p. Inr (st\<lparr>permuteDim := permuteDim st @ [i], usedDim := insert i (usedDim st),
           newMeshShape := newMeshShape st @ [meshShape ! i], newPlacements := newPlacements st @ [p]\<rparr>))
       | Some dims \<Rightarrow>
           bindR (foldR (\<lambda>it (st, size). assertR (it \<notin> usedDim st) (bindR (at_int meshShape (int it)) (\<lambda>d.
               Inr (st\<lparr>permuteDim := permuteDim st @ [it], usedDim := insert it (usedDim st)\<rparr>, size * d))))
             dims (st, 1)) (\<lambda>(st, size).
           bindR (Seq_at ps i) (\<lambda>p.
             Inr (st\<lparr>newMeshShape := newMeshShape st @ [size], newPlacements := newPlacements st @ [p]\<rparr>)))))"

definition MergeSameShardDim :: "'t torch_ops \<Rightarrow> DeviceMesh \<Rightarrow> placement_seq \<Rightarrow> (DeviceMesh \<times> placement_seq) res" where
  "MergeSameShardDim T m ps =
     bindR (GetShardInfo m ps) (\<lambda>shardInfoVec.
     let need = needMergeDimMap shardInfoVec in
     if list_all (\<lambda>i. need i = None) [0..<length ps] then Inr (m, ps)
     else
       bindR (foldR (Merge_axis need (Mesh_Shape m) ps) [0..<Mesh_NumAxis m]
         \<lparr>usedDim = {}, permuteDim = [], newMeshShape = [], newPlacements = []\<rparr>) (\<lambda>st.
       assertR (length (permuteDim st) = Mesh_NumAxis m)
        (let meshTensor = i_reshape T (i_permute T (Mesh_Shape m, mData (mMesh m)) (permuteDim st)) (newMeshShape st)
         in bindR (SimpleArray_new (fst meshTensor) (snd meshTensor) []) (\<lambda>mesh.
            Inr (\<lparr>mDeviceKind = mDeviceKind m, mMesh = mesh\<rparr>, newPlacements st)))))"

section \<open>Scatter\<close>

text \<open>
  An axis with a sub-split coordinate is cut into two parts first; the front part includes the coordinate.
  Each part is cut into the pieces of the ranks.
\<close>

definition SplitFrontEnd :: "'t torch_ops \<Rightarrow> 't \<Rightarrow> int \<Rightarrow> int \<Rightarrow> int \<Rightarrow> int \<Rightarrow> ('t list \<times> 't list) res" where
  "SplitFrontEnd T torchTensor shardIndex subSplitCoordinates sizeInShardDim numOfTensor =
     bindR (t_split T torchTensor [subSplitCoordinates + 1, sizeInShardDim - subSplitCoordinates - 1] shardIndex) (\<lambda>towTensors.
     assertR (length towTensors = 2)
      (bindR (GetShardSizeForAllRank (subSplitCoordinates + 1) numOfTensor) (\<lambda>frontSplitSize.
       bindR (t_split T (towTensors ! 0) frontSplitSize shardIndex) (\<lambda>frontTensors.
       bindR (GetShardSizeForAllRank (sizeInShardDim - subSplitCoordinates - 1) numOfTensor) (\<lambda>endSplitSize.
       bindR (t_split T (towTensors ! 1) endSplitSize shardIndex) (\<lambda>endTensors.
         assertR (length frontTensors = length endTensors) (Inr (frontTensors, endTensors))))))))"

definition ScatherAxis :: "'t torch_ops \<Rightarrow> Placement \<Rightarrow> 't \<Rightarrow> int \<Rightarrow> 't list res" where
  "ScatherAxis T p torchTensor numOfTensor =
     (if IsReplicate p then guardR LengthError (numOfTensor \<ge> 0) (Inr (replicate (nat numOfTensor) torchTensor))
      else if IsShard p then
        bindR (GetShardIndex p) (\<lambda>shardIndex. bindR (GetSubSplitCoordinates p) (\<lambda>subSplitCoordinates.
          if subSplitCoordinates = - 1 then
            bindR (tensor_size T torchTensor shardIndex) (\<lambda>size.
            bindR (GetShardSizeForAllRank size numOfTensor) (\<lambda>splitSize. t_split T torchTensor splitSize shardIndex))
          else
            bindR (tensor_size T torchTensor shardIndex) (\<lambda>sizeInShardDim.
            assertR (subSplitCoordinates < sizeInShardDim)
             (bindR (SplitFrontEnd T torchTensor shardIndex subSplitCoordinates sizeInShardDim numOfTensor) (\<lambda>(fronts, ends).
                mapR (\<lambda>i. t_concat T [fronts ! i, ends ! i] shardIndex) [0..<length fronts])))))
      else guardR LengthError (numOfTensor \<ge> 0) (guardR Undefined (numOfTensor > 0)
        (Inr ((replicate (nat numOfTensor) (t_zeros_like T torchTensor))[0 := torchTensor]))))"

text \<open>The recursion over the axes of the mesh; the list is the placements from the present axis on.\<close>

fun ScatherImp :: "'t torch_ops \<Rightarrow> placement_seq \<Rightarrow> 't \<Rightarrow> int_tensor \<Rightarrow> (int \<rightharpoonup> 't) \<Rightarrow> (int \<rightharpoonup> 't) res" where
  "ScatherImp T [] torchTensor mesh mResult =
     assertR (length (snd mesh) = 1)
      (let globalDeviceId = hd (snd mesh) in
       assertR (mResult globalDeviceId = None) (Inr (mResult(globalDeviceId \<mapsto> torchTensor))))"
| "ScatherImp T (p # ps) torchTensor mesh mResult =
     assertR (length (fst mesh) > 0)
      (let numOfTensor = hd (fst mesh) in
       bindR (ScatherAxis T p torchTensor numOfTensor) (\<lambda>tensors.
       assertR (int (length tensors) = numOfTensor)
        (foldR (\<lambda>i. ScatherImp T ps (tensors ! i) (i_select T mesh i)) [0..<nat numOfTensor] mResult)))"

definition DistributedScather_new :: "'t torch_ops \<Rightarrow> DeviceMesh \<Rightarrow> placement_seq \<Rightarrow> 't \<Rightarrow> (int \<rightharpoonup> 't) res" where
  "DistributedScather_new T m ps torchTensor =
     assertR (Mesh_NumAxis m = length ps)
      (bindR (MergeSameShardDim T m ps) (\<lambda>(m, ps).
        ScatherImp T ps torchTensor (Mesh_Shape m, mData (mMesh m)) Map.empty))"

definition DistributedScather_Get :: "(int \<rightharpoonup> 't) \<Rightarrow> int \<Rightarrow> 't res" where
  "DistributedScather_Get mResult globalDeviceId =
     (case mResult globalDeviceId of None \<Rightarrow> Inl Abort | Some t \<Rightarrow> Inr t)"

section \<open>Gather\<close>

definition GatherShardWithSubSplit :: "'t torch_ops \<Rightarrow> 't list \<Rightarrow> DeviceMesh \<Rightarrow> placement_seq \<Rightarrow> nat \<Rightarrow> 't res" where
  "GatherShardWithSubSplit T tensors m ps index =
     bindR (Seq_at ps index) (\<lambda>p. bindR (GetShardIndex p) (\<lambda>shardIndex. bindR (GetSubSplitCoordinates p) (\<lambda>subSplitCoordinates.
     assertR (subSplitCoordinates > 0)
      (assertR (length tensors > 0)
        (bindR (tensor_size T (tensors ! 0) shardIndex) (\<lambda>size0.
         bindR (if subSplitCoordinates > size0 then
             bindR (GetShardInfo m ps) (\<lambda>shardInfo.
               Inr (case List.find (\<lambda>it. int (shardDim it) = shardIndex) shardInfo of
                  Some it \<Rightarrow> shardSize it | None \<Rightarrow> int (length tensors)))
           else Inr (int (length tensors))) (\<lambda>shardSize.
         bindR (GetShardSizeForAllRank (subSplitCoordinates + 1) shardSize) (\<lambda>splitSize.
         let splitSize = take (length tensors) splitSize @ replicate (length tensors - length splitSize) 0 in
         assertR (length splitSize = length tensors)
          (bindR (mapR (\<lambda>i. bindR (tensor_size T (tensors ! i) shardIndex) (\<lambda>tensorSizeInDim.
              assertR (splitSize ! i < tensorSizeInDim)
               (t_split T (tensors ! i) [splitSize ! i, tensorSizeInDim - splitSize ! i] shardIndex)))
             [0..<length tensors]) (\<lambda>tmpTensors.
           bindR (t_concat T (map (\<lambda>tmp. tmp ! 0) tmpTensors) shardIndex) (\<lambda>front.
           bindR (t_concat T (map (\<lambda>tmp. tmp ! 1) tmpTensors) shardIndex) (\<lambda>end.
             t_concat T [front, end] shardIndex))))))))))))"

definition DistributeGather_new :: "'t torch_ops \<Rightarrow> DeviceMesh \<Rightarrow> (int \<times> 't) list \<Rightarrow> unit res" where
  "DistributeGather_new T m torchMap =
     assertR (length torchMap = Mesh_Count m)
      (assertR (length torchMap > 0)
        (let expectDevice = t_device T (snd (hd torchMap)) in
         assertR (list_all (\<lambda>it. expectDevice = t_device T (snd it)) torchMap) (Inr ())))"

definition GatherAxis :: "'t torch_ops \<Rightarrow> DeviceMesh \<Rightarrow> placement_seq \<Rightarrow> nat \<Rightarrow> 't list \<Rightarrow> 't res" where
  "GatherAxis T m ps index gatherTensor =
     bindR (Seq_at ps index) (\<lambda>p.
       if IsShard p then
         bindR (GetSubSplitCoordinates p) (\<lambda>subSplitCoordinates.
           if subSplitCoordinates = - 1 then bindR (GetShardIndex p) (t_concat T gatherTensor)
           else GatherShardWithSubSplit T gatherTensor m ps index)
       else guardR Undefined (gatherTensor \<noteq> [])
         (foldR (\<lambda>u result. t_add T result u) (tl gatherTensor) (hd gatherTensor)))"

fun GatherImp :: "'t torch_ops \<Rightarrow> (int \<rightharpoonup> 't) \<Rightarrow> DeviceMesh \<Rightarrow> placement_seq \<Rightarrow> placement_seq \<Rightarrow> int_tensor \<Rightarrow> 't res" where
  "GatherImp T mTorchMap m ps [] mesh =
     assertR (length (snd mesh) = 1)
      (case mTorchMap (hd (snd mesh)) of None \<Rightarrow> Inl Abort | Some t \<Rightarrow> Inr t)"
| "GatherImp T mTorchMap m ps (p # rest) mesh =
     assertR (length (fst mesh) > 0)
      (if IsReplicate p then GatherImp T mTorchMap m ps rest (i_select T mesh 0)
       else bindR (mapR (\<lambda>i. GatherImp T mTorchMap m ps rest (i_select T mesh i)) [0..<nat (hd (fst mesh))])
         (GatherAxis T m ps (length ps - length (p # rest))))"

definition DistributeGather_Get :: "'t torch_ops \<Rightarrow> DeviceMesh \<Rightarrow> placement_seq \<Rightarrow> (int \<times> 't) list \<Rightarrow> 't res" where
  "DistributeGather_Get T m ps torchMap =
     GatherImp T (map_of torchMap) m ps ps (Mesh_Shape m, mData (mMesh m))"

section \<open>What a layout must satisfy to be scattered and gathered\<close>

text \<open>
  \<open>cut_size p n m i\<close> is the size of the piece \<open>i\<close> of an axis that \<open>p\<close> cuts into \<open>n\<close> pieces, \<open>cut_shapes\<close> the
  shape at a mesh coordinate after the cuts of all placements.  In \<open>axes_ok\<close> every tensor axis is cut by one
  mesh axis at most, and every part of a cut axis has an entry for every piece.
\<close>

definition cut_size :: "Placement \<Rightarrow> int \<Rightarrow> int \<Rightarrow> int \<Rightarrow> int" where
  "cut_size p n m i = (let c = mSubSplitCoordinates p in
     if c = - 1 then piece_size m n i else piece_size (c + 1) n i + piece_size (m - c - 1) n i)"

definition cut_shape :: "Placement \<Rightarrow> int \<Rightarrow> int \<Rightarrow> shape \<Rightarrow> shape" where
  "cut_shape p n i s = (if IsShard p then let d = nat (mShardIndex p) in s[d := cut_size p n (s ! d) i] else s)"

fun cut_shapes :: "placement_seq \<Rightarrow> shape \<Rightarrow> int list \<Rightarrow> shape \<Rightarrow> shape" where
  "cut_shapes (p # ps) (n # ns) (c # cs) s = cut_shapes ps ns cs (cut_shape p n c s)"
| "cut_shapes _ _ _ s = s"

definition cut_ok :: "Placement \<Rightarrow> int \<Rightarrow> shape \<Rightarrow> bool" where
  "cut_ok p n s \<longleftrightarrow> \<not> IsReplicate p \<and> 0 \<le> mShardIndex p \<and> mShardIndex p < int (length s) \<and>
     (let c = mSubSplitCoordinates p; m = s ! nat (mShardIndex p) in
      if c = - 1 then n \<le> m else 0 < c \<and> n \<le> c + 1 \<and> n \<le> m - c - 1)"

fun axes_ok :: "placement_seq \<Rightarrow> shape \<Rightarrow> shape \<Rightarrow> bool" where
  "axes_ok (p # ps) (n # ns) s \<longleftrightarrow> 0 < n \<and>
     (IsShard p \<longrightarrow> cut_ok p n s \<and> list_all (\<lambda>q. \<not> IsShardAt q (mShardIndex p)) ps) \<and> axes_ok ps ns s"
| "axes_ok [] [] s \<longleftrightarrow> True"
| "axes_ok _ _ s \<longleftrightarrow> False"

lemma axes_ok_length: "axes_ok ps ns s \<Longrightarrow> length ps = length ns \<and> (\<forall>n \<in> set ns. 0 < n)"
  by (induction ps ns s rule: axes_ok.induct) auto

lemma axes_ok_update:
  assumes "axes_ok ps ns s" and "list_all (\<lambda>q. \<not> IsShardAt q (int d)) ps"
  shows "axes_ok ps ns (s[d := v])"
  using assms
proof (induction ps ns s rule: axes_ok.induct)
  case (1 p ps n ns s)
  have "cut_ok p n (s[d := v])" if sh: "IsShard p" and ok: "cut_ok p n s"
  proof -
    have "nat (mShardIndex p) \<noteq> d" using 1 sh ok by (auto simp: IsShardAt_def cut_ok_def)
    then show ?thesis using ok by (auto simp: cut_ok_def Let_def)
  qed
  with 1 show ?case by simp
qed auto

lemma piece_sizes:
  assumes "0 < n" and "n \<le> m" and "GetShardSizeForAllRank m n = Inr sizes"
  shows "length sizes = nat n" and "sum_list sizes = m" and "i < nat n \<Longrightarrow> sizes ! i = piece_size m n (int i)"
    and "\<forall>x \<in> set sizes. 0 < x"
proof -
  have eq: "sizes = map (piece_size m n) [0..n - 1]" using GetShardSizeForAllRank_eq [OF assms(1,2)] assms(3) by simp
  show "length sizes = nat n" by (simp add: eq)
  show "i < nat n \<Longrightarrow> sizes ! i = piece_size m n (int i)" by (simp add: eq nth_upto)
  show "sum_list sizes = m"
    using sum_piece_size [OF assms(1), of m] unfolding eq
    by (simp add: sum_list_distinct_conv_sum_set atLeastLessThanPlusOne_atLeastAtMost_int [symmetric])
  have "1 \<le> m div n" using assms by (simp add: pos_imp_zdiv_pos_iff int_one_le_iff_zero_less)
  then show "\<forall>x \<in> set sizes. 0 < x" by (auto simp: eq piece_size_def)
qed

lemma piece_size_pos: "0 < n \<Longrightarrow> n \<le> m \<Longrightarrow> 0 < piece_size m n i"
  using pos_imp_zdiv_pos_iff [of n m] by (simp add: piece_size_def)

text \<open>\<open>torch::split\<close> into the pieces of the ranks.\<close>

lemma split_pieces:
  assumes "torch_laws T" and "d < length (t_shape T t)" and "0 < n" and "n \<le> t_shape T t ! d"
  obtains sizes ts where "GetShardSizeForAllRank (t_shape T t ! d) n = Inr sizes"
    and "t_split T t sizes (int d) = Inr ts" and "length ts = nat n" and "length sizes = nat n"
    and "sum_list sizes = t_shape T t ! d"
    and "\<And>i. i < nat n \<Longrightarrow> sizes ! i = piece_size (t_shape T t ! d) n (int i) \<and> 0 < sizes ! i"
    and "\<And>i. i < nat n \<Longrightarrow> t_shape T (ts ! i) = (t_shape T t)[d := sizes ! i]"
    and "\<And>i. i < nat n \<Longrightarrow> t_device T (ts ! i) = t_device T t"
    and "t_concat T ts (int d) = Inr t"
proof -
  obtain sizes where s: "GetShardSizeForAllRank (t_shape T t ! d) n = Inr sizes"
    using GetShardSizeForAllRank_eq [OF assms(3,4)] by blast
  note ps = piece_sizes [OF assms(3,4) s]
  have "sizes \<noteq> []" using ps(1) assms(3) by auto
  with \<open>sizes \<noteq> []\<close> ps(2,4) assms(2) have "split_ok (t_shape T t) sizes d" by (auto simp: split_ok_def less_imp_le)
  then obtain ts where ts: "t_split T t sizes (int d) = Inr ts" "length ts = length sizes"
    "\<And>i. i < length sizes \<Longrightarrow> t_shape T (ts ! i) = (t_shape T t)[d := sizes ! i]"
    "\<And>i. i < length sizes \<Longrightarrow> t_device T (ts ! i) = t_device T t" "t_concat T ts (int d) = Inr t"
    using law_splitE [OF assms(1)] by blast
  show thesis
    by (rule that [OF s ts(1) _ ps(1,2) _ _ _ ts(5)]) (use ps(1,3) piece_size_pos [OF assms(3,4)] ts(2,3,4) in simp_all)
qed

text \<open>Two tensors that agree outside an axis are joined and separated again.\<close>

lemma concat_two:
  assumes "torch_laws T" and "d < length s" and "fits T s dev d u" and "fits T s dev d v"
  obtains t where "t_concat T [u, v] (int d) = Inr t" and "t_device T t = dev"
    and "t_shape T t = s[d := t_shape T u ! d + t_shape T v ! d]"
    and "t_split T t [t_shape T u ! d, t_shape T v ! d] (int d) = Inr [u, v]"
  using law_concatE [OF assms(1) _ assms(2), of "[u, v]" dev] assms(3,4) by auto

lemma split_two:
  assumes "torch_laws T" and "d < length (t_shape T t)" and "0 \<le> a" and "0 \<le> b" and "a + b = t_shape T t ! d"
  obtains u v where "t_split T t [a, b] (int d) = Inr [u, v]"
    and "t_shape T u = (t_shape T t)[d := a]" and "t_shape T v = (t_shape T t)[d := b]"
    and "t_device T u = t_device T t" and "t_device T v = t_device T t"
    and "t_concat T [u, v] (int d) = Inr t"
proof -
  have "split_ok (t_shape T t) [a, b] d" using assms by (simp add: split_ok_def)
  then obtain ts where ts: "t_split T t [a, b] (int d) = Inr ts" "length ts = length [a, b]"
    "\<And>i. i < length [a, b] \<Longrightarrow> t_shape T (ts ! i) = (t_shape T t)[d := [a, b] ! i]"
    "\<And>i. i < length [a, b] \<Longrightarrow> t_device T (ts ! i) = t_device T t" "t_concat T ts (int d) = Inr t"
    using law_splitE [OF assms(1)] by blast
  from ts(2) obtain u v where uv: "ts = [u, v]" by (auto simp: length_Suc_conv)
  show thesis
    using ts(1,5) ts(3,4) [of 0] ts(3,4) [of 1] by (intro that [of u v]) (simp_all add: uv)
qed

text \<open>The two parts of an axis with a sub-split coordinate, cut into the pieces of the ranks.\<close>

lemma SplitFrontEnd_ok:
  assumes T: "torch_laws T" and d: "d < length (t_shape T t)" and m: "t_shape T t ! d = m"
    and c: "0 < c" and n: "0 < n" "n \<le> c + 1" "n \<le> m - c - 1"
  obtains u v fronts ends where "SplitFrontEnd T t (int d) c m n = Inr (fronts, ends)"
    and "length fronts = nat n" and "length ends = nat n"
    and "\<And>i. i < nat n \<Longrightarrow> t_shape T (fronts ! i) = (t_shape T t)[d := piece_size (c + 1) n (int i)] \<and>
      t_device T (fronts ! i) = t_device T t \<and> 0 < piece_size (c + 1) n (int i)"
    and "\<And>i. i < nat n \<Longrightarrow> t_shape T (ends ! i) = (t_shape T t)[d := piece_size (m - c - 1) n (int i)] \<and>
      t_device T (ends ! i) = t_device T t \<and> 0 < piece_size (m - c - 1) n (int i)"
    and "t_concat T fronts (int d) = Inr u" and "t_concat T ends (int d) = Inr v" and "t_concat T [u, v] (int d) = Inr t"
proof -
  obtain u v where uv: "t_split T t [c + 1, m - c - 1] (int d) = Inr [u, v]"
    "t_shape T u = (t_shape T t)[d := c + 1]" "t_shape T v = (t_shape T t)[d := m - c - 1]"
    "t_device T u = t_device T t" "t_device T v = t_device T t" "t_concat T [u, v] (int d) = Inr t"
    using split_two [OF T d, of "c + 1" "m - c - 1"] c n m by auto
  from uv(2) d have du: "d < length (t_shape T u)" "t_shape T u ! d = c + 1" by simp_all
  from uv(3) d have dv: "d < length (t_shape T v)" "t_shape T v ! d = m - c - 1" by simp_all
  obtain fs fronts where f: "GetShardSizeForAllRank (c + 1) n = Inr fs" "t_split T u fs (int d) = Inr fronts"
    "length fronts = nat n"
    "\<And>i. i < nat n \<Longrightarrow> fs ! i = piece_size (c + 1) n (int i) \<and> 0 < fs ! i"
    "\<And>i. i < nat n \<Longrightarrow> t_shape T (fronts ! i) = (t_shape T u)[d := fs ! i]"
    "\<And>i. i < nat n \<Longrightarrow> t_device T (fronts ! i) = t_device T u" "t_concat T fronts (int d) = Inr u"
    using split_pieces [OF T du(1) n(1)] n(2) unfolding du(2) by metis
  obtain es ends where e: "GetShardSizeForAllRank (m - c - 1) n = Inr es" "t_split T v es (int d) = Inr ends"
    "length ends = nat n"
    "\<And>i. i < nat n \<Longrightarrow> es ! i = piece_size (m - c - 1) n (int i) \<and> 0 < es ! i"
    "\<And>i. i < nat n \<Longrightarrow> t_shape T (ends ! i) = (t_shape T v)[d := es ! i]"
    "\<And>i. i < nat n \<Longrightarrow> t_device T (ends ! i) = t_device T v" "t_concat T ends (int d) = Inr v"
    using split_pieces [OF T dv(1) n(1)] n(3) unfolding dv(2) by metis
  have "SplitFrontEnd T t (int d) c m n = Inr (fronts, ends)"
    by (simp add: SplitFrontEnd_def uv(1) f(1,2,3) e(1,2,3))
  then show thesis
    by (rule that [OF _ f(3) e(3) _ _ f(7) e(7) uv(6)]) (use f(4,5,6) e(4,5,6) uv(2,3,4,5) piece_size_pos n in simp_all)
qed

text \<open>One mesh axis: the pieces have the sizes of \<open>cut_shape\<close>, and joining them gives the tensor back.\<close>

lemma ScatherAxis_plain:
  assumes "torch_laws T" and "IsShard p" and "cut_ok p n (t_shape T t)" and "0 < n" and "mSubSplitCoordinates p = - 1"
  obtains ts where "ScatherAxis T p t n = Inr ts" and "length ts = nat n"
    and "\<And>i. i < nat n \<Longrightarrow> t_shape T (ts ! i) = cut_shape p n (int i) (t_shape T t)"
    and "\<And>i. i < nat n \<Longrightarrow> t_device T (ts ! i) = t_device T t"
    and "t_concat T ts (mShardIndex p) = Inr t"
proof -
  define d where "d = nat (mShardIndex p)"
  from assms have d: "mShardIndex p = int d" "d < length (t_shape T t)" "n \<le> t_shape T t ! d" "\<not> IsReplicate p"
    by (auto simp: cut_ok_def d_def)
  obtain sizes ts where ts: "GetShardSizeForAllRank (t_shape T t ! d) n = Inr sizes"
    "t_split T t sizes (int d) = Inr ts" "length ts = nat n"
    "\<And>i. i < nat n \<Longrightarrow> sizes ! i = piece_size (t_shape T t ! d) n (int i) \<and> 0 < sizes ! i"
    "\<And>i. i < nat n \<Longrightarrow> t_shape T (ts ! i) = (t_shape T t)[d := sizes ! i]"
    "\<And>i. i < nat n \<Longrightarrow> t_device T (ts ! i) = t_device T t" "t_concat T ts (int d) = Inr t"
    using split_pieces [OF assms(1) d(2) assms(4) d(3)] by metis
  have "ScatherAxis T p t n = Inr ts"
    using assms(2,5) d ts(1,2)
    by (simp add: ScatherAxis_def GetShardIndex_def GetSubSplitCoordinates_def tensor_size_nat)
  then show thesis
    using ts(3,5,6,7) ts(4) assms(2,5) d(1)
    by (intro that [of ts]) (simp_all add: cut_shape_def cut_size_def)
qed

text \<open>With a sub-split coordinate the pieces of the two parts are joined per rank; the gather takes them apart.\<close>

lemma GatherSubSplit_eq:
  assumes T: "torch_laws T" and p: "Seq_at ps index = Inr p" "IsShard p" "mShardIndex p = int d" "mSubSplitCoordinates p = c"
    and c: "0 < c" and n: "0 < n" "n \<le> c + 1" "length ts = nat n"
    and d: "d < length s" and len: "length fronts = nat n" "length ends = nat n"
    and f: "\<And>i. i < nat n \<Longrightarrow> fits T s dev d (fronts ! i) \<and> t_shape T (fronts ! i) ! d = piece_size (c + 1) n (int i)"
    and e: "\<And>i. i < nat n \<Longrightarrow> fits T s dev d (ends ! i) \<and> 0 < t_shape T (ends ! i) ! d"
    and ts: "\<And>i. i < nat n \<Longrightarrow> t_concat T [fronts ! i, ends ! i] (int d) = Inr (ts ! i)"
    and j: "t_concat T fronts (int d) = Inr u" "t_concat T ends (int d) = Inr v" "t_concat T [u, v] (int d) = Inr t"
    and info: "\<exists>infos. GetShardInfo m ps = Inr infos \<and>
      (case List.find (\<lambda>it. shardDim it = d) infos of Some it \<Rightarrow> shardSize it | None \<Rightarrow> n) = n"
  shows "GatherShardWithSubSplit T ts m ps index = Inr t"
proof -
  have piece: "t_shape T (ts ! i) ! d = piece_size (c + 1) n (int i) + t_shape T (ends ! i) ! d \<and>
      d < length (t_shape T (ts ! i)) \<and>
      t_split T (ts ! i) [piece_size (c + 1) n (int i), t_shape T (ends ! i) ! d] (int d) = Inr [fronts ! i, ends ! i]"
    if i: "i < nat n" for i
  proof -
    from f [OF i] e [OF i] have "fits T s dev d (fronts ! i)" "fits T s dev d (ends ! i)" by auto
    then obtain w where "t_concat T [fronts ! i, ends ! i] (int d) = Inr w"
      "t_shape T w = s[d := t_shape T (fronts ! i) ! d + t_shape T (ends ! i) ! d]"
      "t_split T w [t_shape T (fronts ! i) ! d, t_shape T (ends ! i) ! d] (int d) = Inr [fronts ! i, ends ! i]"
      by (rule concat_two [OF T d])
    with ts [OF i] f [OF i] d show ?thesis by simp
  qed
  obtain sizes where sizes: "GetShardSizeForAllRank (c + 1) n = Inr sizes"
    using GetShardSizeForAllRank_eq [OF n(1,2)] by blast
  note ss = piece_sizes [OF n(1,2) sizes]
  have n0: "0 < nat n" "length ts > 0" "int (length ts) = n" using n(1,3) by auto
  have mp: "mapR (\<lambda>i. bindR (tensor_size T (ts ! i) (int d)) (\<lambda>tensorSizeInDim.
              guardR Abort (sizes ! i < tensorSizeInDim)
               (t_split T (ts ! i) [sizes ! i, tensorSizeInDim - sizes ! i] (int d))))
             [0..<length ts] = Inr (map (\<lambda>i. [fronts ! i, ends ! i]) [0..<length ts])"
  proof (rule mapR_total)
    fix i assume "i \<in> set [0..<length ts]"
    then have i: "i < nat n" using n(3) by simp
    show "bindR (tensor_size T (ts ! i) (int d)) (\<lambda>tensorSizeInDim.
              guardR Abort (sizes ! i < tensorSizeInDim)
               (t_split T (ts ! i) [sizes ! i, tensorSizeInDim - sizes ! i] (int d))) = Inr [fronts ! i, ends ! i]"
      using piece [OF i] e [OF i] ss(3) [OF i] by (simp add: tensor_size_nat)
  qed
  have fe: "map (\<lambda>tmp. tmp ! 0) (map (\<lambda>i. [fronts ! i, ends ! i]) [0..<length ts]) = fronts"
    "map (\<lambda>tmp. tmp ! 1) (map (\<lambda>i. [fronts ! i, ends ! i]) [0..<length ts]) = ends"
    using n(3) len by (auto intro!: nth_equalityI)
  obtain infos where infos: "GetShardInfo m ps = Inr infos"
    "(case List.find (\<lambda>it. shardDim it = d) infos of Some it \<Rightarrow> shardSize it | None \<Rightarrow> n) = n" using info by blast
  have count: "(if c > s0 then bindR (GetShardInfo m ps) (\<lambda>shardInfo.
               Inr (case List.find (\<lambda>it. int (shardDim it) = int d) shardInfo of
                  Some it \<Rightarrow> shardSize it | None \<Rightarrow> int (length ts)))
           else Inr (int (length ts))) = Inr n" for s0
    unfolding n0(3) using infos by simp
  have resize: "take (length ts) sizes @ replicate (length ts - length sizes) 0 = sizes" using ss(1) n(3) by simp
  have size0: "tensor_size T (ts ! 0) (int d) = Inr (t_shape T (ts ! 0) ! d)"
    using piece [of 0] n0(1) by (simp add: tensor_size_nat)
  show ?thesis
    unfolding GatherShardWithSubSplit_def GetShardIndex_def GetSubSplitCoordinates_def
    by (simp only: p bindR_Inr guardR_True c n0(2) [unfolded n(3)] size0 count [unfolded n(3)] sizes
        resize [unfolded n(3) ss(1)] ss(1) n(3) Let_def mp [unfolded n(3)] fe [unfolded n(3)] j simp_thms)
qed

lemma cut_shape_fits:
  assumes "d < length s" and "t_shape T u = s[d := v]" and "t_device T u = dev" and "0 < v"
  shows "fits T s dev d u" and "t_shape T u ! d = v"
  using assms by (simp_all add: fits_def)

lemma ScatherAxis_split:
  assumes T: "torch_laws T" and sh: "IsShard p" and ok: "cut_ok p n (t_shape T t)" and n: "0 < n"
    and c: "mSubSplitCoordinates p \<noteq> - 1"
    and at: "Seq_at ps index = Inr p"
    and info: "\<exists>infos. GetShardInfo m ps = Inr infos \<and>
      (case List.find (\<lambda>it. shardDim it = nat (mShardIndex p)) infos of Some it \<Rightarrow> shardSize it | None \<Rightarrow> n) = n"
  obtains ts where "ScatherAxis T p t n = Inr ts" and "length ts = nat n"
    and "\<And>i. i < nat n \<Longrightarrow> t_shape T (ts ! i) = cut_shape p n (int i) (t_shape T t)"
    and "\<And>i. i < nat n \<Longrightarrow> t_device T (ts ! i) = t_device T t"
    and "GatherShardWithSubSplit T ts m ps index = Inr t"
proof -
  define d where "d = nat (mShardIndex p)"
  define c where "c = mSubSplitCoordinates p"
  define k where "k = t_shape T t ! d"
  let ?s = "t_shape T t" and ?dev = "t_device T t"
  from ok sh c have d: "mShardIndex p = int d" "d < length ?s" "\<not> IsReplicate p"
    and b: "0 < c" "n \<le> c + 1" "n \<le> k - c - 1"
    using c_def by (auto simp: cut_ok_def d_def k_def Let_def)
  obtain fronts ends u v where fe: "SplitFrontEnd T t (int d) c k n = Inr (fronts, ends)"
    "length fronts = nat n" "length ends = nat n"
    "\<And>i. i < nat n \<Longrightarrow> t_shape T (fronts ! i) = ?s[d := piece_size (c + 1) n (int i)] \<and>
      t_device T (fronts ! i) = ?dev \<and> 0 < piece_size (c + 1) n (int i)"
    "\<And>i. i < nat n \<Longrightarrow> t_shape T (ends ! i) = ?s[d := piece_size (k - c - 1) n (int i)] \<and>
      t_device T (ends ! i) = ?dev \<and> 0 < piece_size (k - c - 1) n (int i)"
    "t_concat T fronts (int d) = Inr u" "t_concat T ends (int d) = Inr v" "t_concat T [u, v] (int d) = Inr t"
    using SplitFrontEnd_ok [OF T d(2) k_def [symmetric] b(1) n b(2,3)] by metis
  have f: "fits T ?s ?dev d (fronts ! i) \<and> t_shape T (fronts ! i) ! d = piece_size (c + 1) n (int i)"
    and e: "fits T ?s ?dev d (ends ! i) \<and> t_shape T (ends ! i) ! d = piece_size (k - c - 1) n (int i) \<and>
      0 < t_shape T (ends ! i) ! d" if "i < nat n" for i
    using fe(4,5) [OF that] d(2) cut_shape_fits [of d ?s T] by auto
  have "\<exists>w. t_concat T [fronts ! i, ends ! i] (int d) = Inr w \<and> t_device T w = ?dev \<and>
      t_shape T w = cut_shape p n (int i) ?s" if i: "i < nat n" for i
  proof -
    from f [OF i] e [OF i] have "fits T ?s ?dev d (fronts ! i)" "fits T ?s ?dev d (ends ! i)" by auto
    then obtain w where "t_concat T [fronts ! i, ends ! i] (int d) = Inr w" "t_device T w = ?dev"
      "t_shape T w = ?s[d := t_shape T (fronts ! i) ! d + t_shape T (ends ! i) ! d]"
      by (rule concat_two [OF T d(2)])
    with f [OF i] e [OF i] sh assms(5) show ?thesis
      by (simp add: cut_shape_def cut_size_def c_def [symmetric] d_def [symmetric] k_def [symmetric])
  qed
  then obtain g where g: "t_concat T [fronts ! i, ends ! i] (int d) = Inr (g i)" "t_device T (g i) = ?dev"
    "t_shape T (g i) = cut_shape p n (int i) ?s" if "i < nat n" for i by metis
  let ?ts = "map g [0..<nat n]"
  have "mapR (\<lambda>i. t_concat T [fronts ! i, ends ! i] (int d)) [0..<length fronts] = Inr ?ts"
    unfolding fe(2) by (rule mapR_total) (simp add: g(1))
  then have 1: "ScatherAxis T p t n = Inr ?ts"
    using sh c d(2,3) fe(1) b n
    by (simp add: ScatherAxis_def GetShardIndex_def GetSubSplitCoordinates_def c_def [symmetric] d(1)
        tensor_size_nat k_def [symmetric])
  have 2: "GatherShardWithSubSplit T ?ts m ps index = Inr t"
  proof (rule GatherSubSplit_eq [OF T at sh d(1) c_def [symmetric] b(1) n b(2) _ d(2) fe(2,3) _ _ _ fe(6,7,8)])
    show "length ?ts = nat n" by simp
    show "fits T ?s ?dev d (fronts ! i) \<and> t_shape T (fronts ! i) ! d = piece_size (c + 1) n (int i)" if "i < nat n" for i
      by (rule f [OF that])
    show "fits T ?s ?dev d (ends ! i) \<and> 0 < t_shape T (ends ! i) ! d" if "i < nat n" for i
      using e [OF that] by blast
    show "t_concat T [fronts ! i, ends ! i] (int d) = Inr (?ts ! i)" if "i < nat n" for i using g(1) [OF that] that by simp
    show "\<exists>infos. GetShardInfo m ps = Inr infos \<and>
      (case List.find (\<lambda>it. shardDim it = d) infos of Some it \<Rightarrow> shardSize it | None \<Rightarrow> n) = n"
      using info by (simp add: d_def)
  qed
  show thesis by (rule that [OF 1 _ _ _ 2]) (simp_all add: g)
qed

section \<open>Scattering and gathering\<close>

text \<open>A loop over disjoint blocks of keys, each of which fills its own block.\<close>

lemma foldR_blocks:
  assumes "\<And>i r. i < k \<Longrightarrow> \<forall>x \<in> A i. r x = None \<Longrightarrow>
      \<exists>r'. f i r = Inr r' \<and> (\<forall>x. x \<notin> A i \<longrightarrow> r' x = r x) \<and> Q i r'"
    and "\<And>i j. i < j \<Longrightarrow> j < k \<Longrightarrow> A i \<inter> A j = {}"
    and "\<And>i r r'. i < k \<Longrightarrow> Q i r \<Longrightarrow> \<forall>x \<in> A i. r' x = r x \<Longrightarrow> Q i r'"
    and "\<forall>i < k. \<forall>x \<in> A i. r x = None"
  shows "\<exists>r'. foldR f [0..<k] r = Inr r' \<and> (\<forall>x. x \<notin> (\<Union>i < k. A i) \<longrightarrow> r' x = r x) \<and> (\<forall>i < k. Q i r')"
  using assms
proof (induction k)
  case 0
  then show ?case by simp
next
  case (Suc k)
  have "\<exists>r'. foldR f [0..<k] r = Inr r' \<and> (\<forall>x. x \<notin> (\<Union>i < k. A i) \<longrightarrow> r' x = r x) \<and> (\<forall>i < k. Q i r')"
  proof (rule Suc.IH)
    show "\<exists>r'. f i r = Inr r' \<and> (\<forall>x. x \<notin> A i \<longrightarrow> r' x = r x) \<and> Q i r'" if "i < k" "\<forall>x \<in> A i. r x = None" for i r
      using Suc.prems(1) that by simp
    show "A i \<inter> A j = {}" if "i < j" "j < k" for i j using Suc.prems(2) that by simp
    show "Q i r'" if "i < k" "Q i r" "\<forall>x \<in> A i. r' x = r x" for i r r'
      using that(1) by (intro Suc.prems(3) [OF _ that(2,3)]) simp
  qed (use Suc.prems(4) in \<open>auto simp: less_Suc_eq\<close>)
  then obtain r1 where r1: "foldR f [0..<k] r = Inr r1" "\<forall>x. x \<notin> (\<Union>i < k. A i) \<longrightarrow> r1 x = r x" "\<forall>i < k. Q i r1"
    by blast
  have dis: "A i \<inter> A k = {}" if "i < k" for i using Suc.prems(2) that by simp
  have "\<forall>x \<in> A k. r1 x = None" using r1(2) dis Suc.prems(4) by fastforce
  then obtain r2 where r2: "f k r1 = Inr r2" "\<forall>x. x \<notin> A k \<longrightarrow> r2 x = r1 x" "Q k r2"
    using Suc.prems(1) [of k r1] by auto
  have "Q i r2" if "i < k" for i
    using r1(3) that r2(2) dis by (intro Suc.prems(3) [of i r1 r2]) auto
  then have "\<forall>i < Suc k. Q i r2" using r2(3) by (simp add: less_Suc_eq)
  moreover have "r2 x = r x" if "x \<notin> (\<Union>i < Suc k. A i)" for x
    using that r1(2) r2(2) by (simp add: lessThan_Suc)
  ultimately show ?case using r1(1) r2(1) by (intro exI [of _ r2]) (simp add: foldR_append)
qed

text \<open>The blocks of a mesh along its first axis.\<close>

definition block :: "'a list \<Rightarrow> nat \<Rightarrow> nat \<Rightarrow> 'a list" where
  "block data w i = take w (drop (i * w) data)"

lemma block_bound: "i < n \<Longrightarrow> j < w \<Longrightarrow> i * w + j < n * (w :: nat)"
proof -
  assume "i < n" "j < w"
  then have "i * w + j < (i + 1) * w" by simp
  also have "\<dots> \<le> n * w" using \<open>i < n\<close> by (intro mult_right_mono) simp_all
  finally show ?thesis .
qed

lemma length_block: "length data = n * w \<Longrightarrow> i < n \<Longrightarrow> length (block data w i) = w"
proof -
  assume "length data = n * w" "i < n"
  then have "i * w + w \<le> length data" using mult_right_mono [of "i + 1" n w] by simp
  then show ?thesis by (simp add: block_def)
qed

lemma nth_block: "length data = n * w \<Longrightarrow> i < n \<Longrightarrow> j < w \<Longrightarrow> block data w i ! j = data ! (i * w + j)"
  using block_bound [of i n j w] by (simp add: block_def)

lemma set_block: "length data = n * w \<Longrightarrow> (\<Union>i < n. set (block data w i)) = set data"
proof (intro equalityI subsetI)
  assume len: "length data = n * w"
  show "x \<in> set data" if "x \<in> (\<Union>i < n. set (block data w i))" for x
    using that by (auto simp: block_def dest: in_set_takeD in_set_dropD)
  fix x assume "x \<in> set data"
  then obtain k where k: "k < n * w" "x = data ! k" using len by (auto simp: in_set_conv_nth)
  then have w: "0 < w" by (cases w) auto
  have i: "k div w < n" using k(1) w by (simp add: less_mult_imp_div_less)
  have "block data w (k div w) ! (k mod w) = x" using nth_block [OF len i, of "k mod w"] w k(2) by simp
  then have "x \<in> set (block data w (k div w))" using length_block [OF len i] w by (metis mod_less_divisor nth_mem)
  with i show "x \<in> (\<Union>i < n. set (block data w i))" by blast
qed

lemma block_disjoint:
  assumes "distinct data" and "length data = n * w" and "i < j" and "j < n"
  shows "set (block data w i) \<inter> set (block data w j) = {}"
proof (rule ccontr)
  assume "set (block data w i) \<inter> set (block data w j) \<noteq> {}"
  then obtain a b where ab: "a < w" "b < w" "block data w j ! b = block data w i ! a"
    using assms length_block [OF assms(2)] by (auto simp: in_set_conv_nth)
  have bnd: "i * w + a < length data" "j * w + b < length data"
    using block_bound [of i n a w] block_bound [of j n b w] ab assms by auto
  from ab have "data ! (i * w + a) = data ! (j * w + b)"
    using nth_block [OF assms(2)] assms by simp
  then have "i * w + a = j * w + b" using assms(1) bnd by (simp add: nth_eq_iff_index_eq)
  moreover have "i * w + a < (i + 1) * w" using ab by simp
  moreover have "(i + 1) * w \<le> j * w" using assms(3) by (intro mult_right_mono) simp_all
  ultimately show False by simp
qed

lemma add_zeros: "torch_laws T \<Longrightarrow> foldR (\<lambda>u r. t_add T r u) (replicate k (t_zeros_like T t)) t = Inr t"
  by (induction k) (simp_all add: torch_zeros)

text \<open>
  The recursion over the mesh axes, from the axis \<open>length pre\<close> on.  \<open>info\<close> is what the gather of a sub-split
  axis reads from the shard infos of the whole layout.
\<close>

definition count_known :: "DeviceMesh \<Rightarrow> placement_seq \<Rightarrow> Placement \<Rightarrow> int \<Rightarrow> bool" where
  "count_known m all p n \<longleftrightarrow> (\<exists>infos. GetShardInfo m all = Inr infos \<and>
     (case List.find (\<lambda>it. shardDim it = nat (mShardIndex p)) infos of Some it \<Rightarrow> shardSize it | None \<Rightarrow> n) = n)"

lemma ScatherAxis_ok:
  assumes T: "torch_laws T" and n: "0 < n" and ok: "IsShard p \<Longrightarrow> cut_ok p n (t_shape T t)"
    and at: "Seq_at all index = Inr p" and info: "IsShard p \<Longrightarrow> count_known m all p n"
  obtains ts where "ScatherAxis T p t n = Inr ts" and "length ts = nat n"
    and "\<And>i. i < nat n \<Longrightarrow> t_shape T (ts ! i) = cut_shape p n (int i) (t_shape T t)"
    and "\<And>i. i < nat n \<Longrightarrow> t_device T (ts ! i) = t_device T t"
    and "if IsReplicate p then ts ! 0 = t else GatherAxis T m all index ts = Inr t"
proof -
  consider (rep) "IsReplicate p" | (plain) "\<not> IsReplicate p" "IsShard p" "mSubSplitCoordinates p = - 1"
    | (split) "\<not> IsReplicate p" "IsShard p" "mSubSplitCoordinates p \<noteq> - 1" | (other) "\<not> IsReplicate p" "\<not> IsShard p"
    by blast
  then show thesis
  proof cases
    case rep
    then have "\<not> IsShard p" using ok by (auto simp: cut_ok_def)
    with rep n show thesis
      by (intro that [of "replicate (nat n) t"]) (simp_all add: ScatherAxis_def cut_shape_def)
  next
    case plain
    from ScatherAxis_plain [OF T plain(2) ok [OF plain(2)] n plain(3)] obtain ts where ts:
      "ScatherAxis T p t n = Inr ts" "length ts = nat n"
      "\<And>i. i < nat n \<Longrightarrow> t_shape T (ts ! i) = cut_shape p n (int i) (t_shape T t)"
      "\<And>i. i < nat n \<Longrightarrow> t_device T (ts ! i) = t_device T t" "t_concat T ts (mShardIndex p) = Inr t" by metis
    have "GatherAxis T m all index ts = Inr t"
      using plain at ts(5) by (simp add: GatherAxis_def GetSubSplitCoordinates_def GetShardIndex_def)
    with plain(1) show thesis by (intro that [OF ts(1,2,3,4)]) simp_all
  next
    case split
    from ScatherAxis_split [OF T split(2) ok [OF split(2)] n split(3) at info [OF split(2), unfolded count_known_def]]
    obtain ts where ts: "ScatherAxis T p t n = Inr ts" "length ts = nat n"
      "\<And>i. i < nat n \<Longrightarrow> t_shape T (ts ! i) = cut_shape p n (int i) (t_shape T t)"
      "\<And>i. i < nat n \<Longrightarrow> t_device T (ts ! i) = t_device T t" "GatherShardWithSubSplit T ts m all index = Inr t" by metis
    have "GatherAxis T m all index ts = Inr t"
      using split at ts(5) by (simp add: GatherAxis_def GetSubSplitCoordinates_def)
    with split(1) show thesis by (intro that [OF ts(1,2,3,4)]) simp_all
  next
    case other
    let ?ts = "(replicate (nat n) (t_zeros_like T t))[0 := t]"
    have ts: "?ts = t # replicate (nat n - 1) (t_zeros_like T t)"
      using n by (cases "nat n") simp_all
    have "GatherAxis T m all index ?ts = Inr t"
      using other at add_zeros [OF T] by (simp add: GatherAxis_def ts)
    moreover have "ScatherAxis T p t n = Inr ?ts" using other n by (simp add: ScatherAxis_def)
    moreover have "t_shape T (?ts ! i) = t_shape T t" "t_device T (?ts ! i) = t_device T t" if "i < nat n" for i
      using that by (cases i; simp add: torch_zeros [OF T])+
    ultimately show thesis using other by (intro that [of ?ts]) (simp_all add: cut_shape_def)
  qed
qed

definition block_done :: "'t torch_ops \<Rightarrow> DeviceMesh \<Rightarrow> placement_seq \<Rightarrow> placement_seq \<Rightarrow> shape \<Rightarrow> int list \<Rightarrow> 't \<Rightarrow>
    (int \<rightharpoonup> 't) \<Rightarrow> bool" where
  "block_done T m all ps ns data t r \<longleftrightarrow>
     (\<forall>cs. in_range ns cs \<longrightarrow> (\<exists>u. r (data ! nat (lin_index ns cs)) = Some u \<and>
        t_shape T u = cut_shapes ps ns cs (t_shape T t) \<and> t_device T u = t_device T t)) \<and>
     (\<forall>M. (\<forall>x \<in> set data. M x = r x) \<longrightarrow> GatherImp T M m all ps (ns, data) = Inr t)"

lemma block_done_cong:
  assumes "block_done T m all ps ns data t r" and "\<forall>x \<in> set data. r' x = r x"
    and "int (length data) = prod_list ns"
  shows "block_done T m all ps ns data t r'"
proof -
  have "data ! nat (lin_index ns cs) \<in> set data" if "in_range ns cs" for cs
    using lin_index_bounds [OF that] assms(3) by (intro nth_mem) linarith
  with assms(1,2) show ?thesis by (auto simp: block_done_def)
qed

lemma ScatherImp_correct:
  fixes T :: "'t torch_ops"
  assumes T: "torch_laws T"
  shows "axes_ok ps ns (t_shape T t) \<Longrightarrow> all = pre @ ps \<Longrightarrow>
      \<forall>i < length ps. IsShard (ps ! i) \<longrightarrow> count_known m all (ps ! i) (ns ! i) \<Longrightarrow>
      int (length data) = prod_list ns \<Longrightarrow> distinct data \<Longrightarrow> \<forall>x \<in> set data. r x = None \<Longrightarrow>
    \<exists>r'. ScatherImp T ps t (ns, data) r = Inr r' \<and> (\<forall>x. x \<notin> set data \<longrightarrow> r' x = r x) \<and>
      block_done T m all ps ns data t r'"
proof (induction ps arbitrary: ns t pre data r)
  case Nil
  then have "ns = []" by (cases ns) auto
  with Nil obtain x where x: "data = [x]" by (auto simp: length_Suc_conv)
  with Nil \<open>ns = []\<close> show ?case by (auto simp: block_done_def)
next
  case (Cons p ps)
  from Cons.prems(1) obtain n ns' where ns: "ns = n # ns'" and n: "0 < n"
    and ok: "IsShard p \<Longrightarrow> cut_ok p n (t_shape T t)"
    and nod: "IsShard p \<Longrightarrow> list_all (\<lambda>q. \<not> IsShardAt q (mShardIndex p)) ps"
    and rest: "axes_ok ps ns' (t_shape T t)" by (cases ns) auto
  let ?w = "nat (prod_list ns')" and ?index = "length all - length (p # ps)"
  have pos: "0 < prod_list ns'" using axes_ok_length [OF rest] by (intro prod_list_pos) simp
  have len: "length data = nat n * ?w"
    using Cons.prems(4) n pos by (simp add: ns nat_mult_distrib [symmetric] nat_eq_iff)
  have at: "Seq_at all ?index = Inr p" using Cons.prems(2) by simp
  have known: "IsShard p \<Longrightarrow> count_known m all p n" using Cons.prems(3) ns by fastforce
  obtain ts where ts: "ScatherAxis T p t n = Inr ts" "length ts = nat n"
    "\<And>i. i < nat n \<Longrightarrow> t_shape T (ts ! i) = cut_shape p n (int i) (t_shape T t)"
    "\<And>i. i < nat n \<Longrightarrow> t_device T (ts ! i) = t_device T t"
    "if IsReplicate p then ts ! 0 = t else GatherAxis T m all ?index ts = Inr t"
    using ScatherAxis_ok [OF T n ok at known] by metis
  let ?A = "\<lambda>i. set (block data ?w i)" and ?Q = "\<lambda>i. block_done T m all ps ns' (block data ?w i) (ts ! i)"
  have sel: "i_select T (ns, data) i = (ns', block data ?w i)" if "i < nat n" for i
    using torch_select [OF T, of ns' data n i] pos Cons.prems(4) that by (simp add: ns block_def)
  have blen: "int (length (block data ?w i)) = prod_list ns'" if "i < nat n" for i
    using length_block [OF len that] pos by simp
  have "\<exists>r'. foldR (\<lambda>i. ScatherImp T ps (ts ! i) (i_select T (ns, data) i)) [0..<nat n] r = Inr r' \<and>
      (\<forall>x. x \<notin> (\<Union>i < nat n. ?A i) \<longrightarrow> r' x = r x) \<and> (\<forall>i < nat n. ?Q i r')"
  proof (rule foldR_blocks)
    fix i and r :: "int \<rightharpoonup> 't" assume i: "i < nat n" and r: "\<forall>x \<in> ?A i. r x = None"
    have a: "axes_ok ps ns' (t_shape T (ts ! i))"
    proof (cases "IsShard p")
      case True
      with nod ok have "list_all (\<lambda>q. \<not> IsShardAt q (int (nat (mShardIndex p)))) ps" by (simp add: cut_ok_def)
      from axes_ok_update [OF rest this] True show ?thesis by (simp add: ts(3) [OF i] cut_shape_def Let_def)
    next
      case False with rest show ?thesis by (simp add: ts(3) [OF i] cut_shape_def)
    qed
    have "\<forall>i < length ps. IsShard (ps ! i) \<longrightarrow> count_known m all (ps ! i) (ns' ! i)"
      using Cons.prems(3) unfolding ns by auto
    moreover have "distinct (block data ?w i)" using Cons.prems(5) by (simp add: block_def)
    ultimately show "\<exists>r'. ScatherImp T ps (ts ! i) (i_select T (ns, data) i) r = Inr r' \<and>
        (\<forall>x. x \<notin> ?A i \<longrightarrow> r' x = r x) \<and> ?Q i r'"
      using Cons.IH [OF a, of "pre @ [p]"] Cons.prems(2) blen [OF i] r sel [OF i] by simp
  next
    show "?A i \<inter> ?A j = {}" if "i < j" "j < nat n" for i j
      by (rule block_disjoint [OF Cons.prems(5) len that])
  next
    show "?Q i r'" if "i < nat n" "?Q i r" "\<forall>x \<in> ?A i. r' x = r x" for i r r'
      by (rule block_done_cong [OF that(2,3) blen [OF that(1)]])
  next
    show "\<forall>i < nat n. \<forall>x \<in> ?A i. r x = None"
      using Cons.prems(6) set_block [OF len] by blast
  qed
  then obtain r' where r': "foldR (\<lambda>i. ScatherImp T ps (ts ! i) (i_select T (ns, data) i)) [0..<nat n] r = Inr r'"
    "\<forall>x. x \<notin> set data \<longrightarrow> r' x = r x" "\<And>i. i < nat n \<Longrightarrow> ?Q i r'"
    using set_block [OF len] by auto
  have "ScatherImp T (p # ps) t (ns, data) r = Inr r'" using r'(1) ts(1,2) n by (simp add: ns)
  moreover have "block_done T m all (p # ps) ns data t r'"
    unfolding block_done_def
  proof (intro conjI allI impI)
    fix cs assume "in_range ns cs"
    then obtain c cs' where cs: "cs = c # cs'" "0 \<le> c" "c < n" "in_range ns' cs'" by (cases cs) (auto simp: ns)
    let ?i = "nat c"
    have i: "?i < nat n" using cs by simp
    have bnd: "0 \<le> lin_index ns' cs'" "lin_index ns' cs' < prod_list ns'" using lin_index_bounds [OF cs(4)] by auto
    have "nat (lin_index ns cs) = ?i * ?w + nat (lin_index ns' cs')"
      using cs(2) bnd pos by (simp add: ns cs(1) nat_add_distrib nat_mult_distrib)
    moreover have "nat (lin_index ns' cs') < ?w" using bnd by simp
    ultimately have "data ! nat (lin_index ns cs) = block data ?w ?i ! nat (lin_index ns' cs')"
      using nth_block [OF len i] by simp
    with r'(3) [OF i] cs(4) ts(3,4) [OF i] cs(2)
    show "\<exists>u. r' (data ! nat (lin_index ns cs)) = Some u \<and>
        t_shape T u = cut_shapes (p # ps) ns cs (t_shape T t) \<and> t_device T u = t_device T t"
      unfolding block_done_def by (simp add: ns cs(1))
  next
    fix M assume M: "\<forall>x \<in> set data. M x = r' x"
    have g: "GatherImp T M m all ps (i_select T (ns, data) i) = Inr (ts ! i)" if "i < nat n" for i
    proof -
      have "\<forall>x \<in> ?A i. M x = r' x" using M set_block [OF len] that by blast
      with r'(3) [OF that] sel [OF that] show ?thesis unfolding block_done_def by simp
    qed
    have "mapR (\<lambda>i. GatherImp T M m all ps (i_select T (ns, data) i)) [0..<nat n] = Inr (map (\<lambda>i. ts ! i) [0..<nat n])"
      by (rule mapR_total) (simp add: g)
    moreover have "map (\<lambda>i. ts ! i) [0..<nat n] = ts" using ts(2) by (metis map_nth)
    ultimately show "GatherImp T M m all (p # ps) (ns, data) = Inr t"
      using ts(5) g [of 0] n by (simp add: ns split: if_splits)
  qed
  ultimately show ?case using r'(2) by blast
qed

text \<open>A layout in which no two mesh axes cut the same tensor axis needs no merging, and its shard infos are known.\<close>

lemma axes_ok_Shard:
  assumes "axes_ok ps ns s" and "i < length ps" and "IsShard (ps ! i)"
  shows "cut_ok (ps ! i) (ns ! i) s" and "shard_axes ps (nat (mShardIndex (ps ! i))) = {i}"
proof -
  have "cut_ok (ps ! i) (ns ! i) s \<and> (\<forall>j < length ps. IsShardAt (ps ! j) (mShardIndex (ps ! i)) \<longrightarrow> j = i)"
    using assms
  proof (induction ps ns s arbitrary: i rule: axes_ok.induct)
    case (1 p ps n ns s)
    show ?case
    proof (cases i)
      case 0
      with 1 show ?thesis by (auto simp: nth_Cons list_all_length split: nat.splits)
    next
      case (Suc k)
      with 1 have k: "cut_ok (ps ! k) (ns ! k) s" "\<forall>j < length ps. IsShardAt (ps ! j) (mShardIndex (ps ! k)) \<longrightarrow> j = k"
        by auto
      have "\<not> IsShardAt p (mShardIndex (ps ! k))"
        using 1 Suc by (auto simp: IsShardAt_def list_all_length)
      with Suc k show ?thesis by (auto simp: nth_Cons split: nat.splits)
    qed
  qed simp_all
  then show "cut_ok (ps ! i) (ns ! i) s" "shard_axes ps (nat (mShardIndex (ps ! i))) = {i}"
    using assms(2,3) by (auto simp: shard_axes_def cut_ok_def IsShardAt_def)
qed

lemma axes_ok_infos:
  assumes "axes_ok ps (Mesh_Shape m) s"
  obtains ds where "GetShardInfo m ps = Inr (map (shard_info (Mesh_Shape m) ps) ds)"
    and "distinct ds" and "set ds = sharded_dims ps"
    and "\<And>d. d \<in> sharded_dims ps \<Longrightarrow> card (shard_axes ps d) = 1"
proof -
  have "0 \<le> mShardIndex (ps ! i)" if "i < length ps" "IsShard (ps ! i)" for i
    using axes_ok_Shard(1) [OF assms that] by (simp add: cut_ok_def)
  then have "shards_nonneg ps" by (simp add: shards_nonneg_def list_all_length)
  moreover have "Mesh_NumAxis m = length ps" using axes_ok_length [OF assms] by simp
  ultimately obtain ds where ds: "distinct ds" "set ds = sharded_dims ps"
    "GetShardInfo m ps = Inr (map (shard_info (Mesh_Shape m) ps) ds)" by (rule GetShardInfo_eq)
  moreover have "card (shard_axes ps d) = 1" if d: "d \<in> sharded_dims ps" for d
  proof -
    from d obtain i where i: "i < length ps" "IsShard (ps ! i)" "mShardIndex (ps ! i) = int d"
      by (auto simp: sharded_dims_def shard_axes_def IsShardAt_def)
    from axes_ok_Shard(2) [OF assms i(1,2)] i(3) show ?thesis by simp
  qed
  ultimately show thesis by (intro that)
qed

lemma needMergeDimMap_none:
  assumes "\<forall>info \<in> set infos. card (meshDims info) = 1"
  shows "needMergeDimMap infos = Map.empty"
proof -
  have "foldl (\<lambda>m info. if card (meshDims info) > 1 then
       let meshDimsVec = sorted_list_of_set (meshDims info) in m(meshDimsVec ! 0 \<mapsto> meshDimsVec)
     else m) r infos = r" for r :: "nat \<rightharpoonup> nat list"
    using assms by (induction infos) auto
  then show ?thesis by (simp add: needMergeDimMap_def)
qed

lemma MergeSameShardDim_id:
  assumes "axes_ok ps (Mesh_Shape m) s"
  shows "MergeSameShardDim T m ps = Inr (m, ps)"
proof -
  obtain ds where "GetShardInfo m ps = Inr (map (shard_info (Mesh_Shape m) ps) ds)" "set ds = sharded_dims ps"
    "\<And>d. d \<in> sharded_dims ps \<Longrightarrow> card (shard_axes ps d) = 1" using axes_ok_infos [OF assms] by metis
  moreover from this have "needMergeDimMap (map (shard_info (Mesh_Shape m) ps) ds) = Map.empty"
    by (intro needMergeDimMap_none) (auto simp: shard_info_def)
  ultimately show ?thesis by (simp add: MergeSameShardDim_def list_all_iff)
qed

lemma find_keyed:
  assumes "x \<in> set xs" and "key x = k" and "\<And>y. y \<in> set xs \<Longrightarrow> key y = k \<Longrightarrow> y = x"
  shows "List.find (\<lambda>y. key y = k) xs = Some x"
proof -
  obtain y where "List.find (\<lambda>y. key y = k) xs = Some y"
    using assms(1,2) by (cases "List.find (\<lambda>y. key y = k) xs") (auto simp: find_None_iff)
  moreover from this have "y \<in> set xs" "key y = k" by (auto simp: find_Some_iff)
  ultimately show ?thesis using assms(3) by simp
qed

lemma axes_ok_count:
  assumes "axes_ok ps (Mesh_Shape m) s" and "i < length ps" and "IsShard (ps ! i)"
  shows "count_known m ps (ps ! i) (Mesh_Shape m ! i)"
proof -
  let ?d = "nat (mShardIndex (ps ! i))" and ?info = "shard_info (Mesh_Shape m) ps"
  obtain ds where ds: "GetShardInfo m ps = Inr (map ?info ds)" "set ds = sharded_dims ps"
    using axes_ok_infos [OF assms(1)] by metis
  have ax: "shard_axes ps ?d = {i}" by (rule axes_ok_Shard(2) [OF assms])
  have "List.find (\<lambda>it. shardDim it = ?d) (map ?info ds) = Some (?info ?d)"
    using ax ds(2) by (intro find_keyed) (auto simp: shard_info_def sharded_dims_def)
  moreover have "shardSize (?info ?d) = Mesh_Shape m ! i" by (simp add: shard_info_def shard_count_def ax)
  ultimately show ?thesis using ds(1) by (simp add: count_known_def)
qed

text \<open>Without sub-split coordinates the cuts give the reference local shapes.\<close>

lemma shard_axes_Cons: "0 \<in> shard_axes (p # ps) d \<longleftrightarrow> IsShardAt p (int d)"
  "tail_axes (shard_axes (p # ps) d) = shard_axes ps d"
  by (auto simp: shard_axes_def tail_axes_def)

lemma local_size_Cons:
  assumes "length ns = length ps"
  shows "local_size (n # ns) (p # ps) s (c # cs) d = piece_size (s ! d)
    ((if IsShardAt p (int d) then n else 1) * shard_count ns ps d)
    (lin_index ((if IsShardAt p (int d) then [n] else []) @ nths ns (shard_axes ps d))
      ((if IsShardAt p (int d) then [c] else []) @ nths cs (shard_axes ps d)))"
proof -
  have "shard_count (n # ns) (p # ps) d = prod_list (nths (n # ns) (shard_axes (p # ps) d))"
    using assms by (subst prod_list_nths_axes) simp_all
  also have "\<dots> = (if IsShardAt p (int d) then n else 1) * prod_list (nths ns (shard_axes ps d))"
    by (simp add: nths_Cons_axes shard_axes_Cons)
  also have "\<dots> = (if IsShardAt p (int d) then n else 1) * shard_count ns ps d"
    using assms by (simp add: prod_list_nths_axes)
  finally show ?thesis by (simp add: local_size_def nths_Cons_axes shard_axes_Cons)
qed

lemma local_shape_Cons:
  assumes "length ns = length ps" and "IsShard p \<Longrightarrow> cut_ok p n s" and "\<not> HasSubSplitCoordinates p"
    and "IsShard p \<Longrightarrow> list_all (\<lambda>q. \<not> IsShardAt q (mShardIndex p)) ps"
  shows "local_shape (n # ns) (p # ps) s (c # cs) = local_shape ns ps (cut_shape p n c s) cs"
proof -
  have "local_size (n # ns) (p # ps) s (c # cs) d = local_size ns ps (cut_shape p n c s) cs d" if d: "d < length s" for d
  proof (cases "IsShardAt p (int d)")
    case True
    then have p: "IsShard p" "mShardIndex p = int d" by (auto simp: IsShardAt_def)
    with assms(4) have ax: "shard_axes ps d = {}" by (auto simp: shard_axes_def list_all_length)
    have "local_size (n # ns) (p # ps) s (c # cs) d = piece_size (s ! d) n c"
      using True by (simp add: local_size_Cons [OF assms(1)] ax shard_count_def)
    also have "\<dots> = cut_shape p n c s ! d"
      using p d assms(3) by (simp add: cut_shape_def cut_size_def HasSubSplitCoordinates_def)
    finally show ?thesis by (simp add: local_size_unsharded [OF ax])
  next
    case False
    then have "cut_shape p n c s ! d = s ! d"
      using assms(2) by (auto simp: cut_shape_def IsShardAt_def cut_ok_def Let_def)
    with False show ?thesis unfolding local_size_Cons [OF assms(1)] by (simp add: local_size_def)
  qed
  then show ?thesis by (simp add: local_shape_def cut_shape_def Let_def)
qed

lemma cut_shapes_local:
  "axes_ok ps ns s \<Longrightarrow> length cs = length ns \<Longrightarrow> list_all (\<lambda>p. \<not> HasSubSplitCoordinates p) ps \<Longrightarrow>
    cut_shapes ps ns cs s = local_shape ns ps s cs"
proof (induction ps arbitrary: ns s cs)
  case Nil
  then show ?case by (simp add: local_shape_def local_size_unsharded shard_axes_def map_nth cong: map_cong)
next
  case (Cons p ps)
  from Cons.prems(1,2) obtain n ns' c cs' where eq: "ns = n # ns'" "cs = c # cs'" by (cases ns; cases cs) auto
  with Cons.prems have ok: "IsShard p \<Longrightarrow> cut_ok p n s"
    "IsShard p \<Longrightarrow> list_all (\<lambda>q. \<not> IsShardAt q (mShardIndex p)) ps" "axes_ok ps ns' s" by auto
  have "axes_ok ps ns' (cut_shape p n c s)"
  proof (cases "IsShard p")
    case True
    with ok have "list_all (\<lambda>q. \<not> IsShardAt q (int (nat (mShardIndex p)))) ps" by (simp add: cut_ok_def)
    from axes_ok_update [OF ok(3) this] True show ?thesis by (simp add: cut_shape_def Let_def)
  next
    case False with ok(3) show ?thesis by (simp add: cut_shape_def)
  qed
  then have "cut_shapes ps ns' cs' (cut_shape p n c s) = local_shape ns' ps (cut_shape p n c s) cs'"
    using Cons.prems eq by (intro Cons.IH) auto
  moreover have "length ns' = length ps" using axes_ok_length [OF ok(3)] by simp
  ultimately show ?case using local_shape_Cons [OF _ ok(1) _ ok(2)] Cons.prems(3) by (simp add: eq)
qed

text \<open>What the constructor of \<open>DistributedScather\<close> leaves in its map.\<close>

lemma scatter_pieces:
  assumes "torch_laws T" and "Mesh_wf m" and "axes_ok ps (Mesh_Shape m) (t_shape T t)"
  obtains r where "DistributedScather_new T m ps t = Inr r" and "dom r = set (mData (mMesh m))"
    and "\<And>k. k < Mesh_Count m \<Longrightarrow> \<exists>u. r (mData (mMesh m) ! k) = Some u \<and> t_device T u = t_device T t \<and>
      t_shape T u = cut_shapes ps (Mesh_Shape m) (rank_coord (Mesh_Shape m) k) (t_shape T t) \<and>
      in_range (Mesh_Shape m) (rank_coord (Mesh_Shape m) k)"
    and "\<And>M. \<forall>x \<in> set (mData (mMesh m)). M x = r x \<Longrightarrow>
      GatherImp T M m ps ps (Mesh_Shape m, mData (mMesh m)) = Inr t"
proof -
  let ?ns = "Mesh_Shape m" and ?data = "mData (mMesh m)"
  have wf: "int (length ?data) = prod_list ?ns" "distinct ?data"
    using assms(2) by (auto simp: Mesh_wf_def SimpleArray_wf_def)
  have counts: "\<forall>i < length ps. IsShard (ps ! i) \<longrightarrow> count_known m ps (ps ! i) (?ns ! i)"
    using axes_ok_count [OF assms(3)] by blast
  from ScatherImp_correct [OF assms(1,3) _ counts wf(1,2), of "[]" Map.empty] obtain r where
    r: "ScatherImp T ps t (?ns, ?data) Map.empty = Inr r" "\<forall>x. x \<notin> set ?data \<longrightarrow> r x = None"
    and bd: "block_done T m ps ps ?ns ?data t r" by auto
  have piece: "\<exists>u. r (?data ! k) = Some u \<and> t_device T u = t_device T t \<and>
      t_shape T u = cut_shapes ps ?ns (rank_coord ?ns k) (t_shape T t) \<and> in_range ?ns (rank_coord ?ns k)"
    if k: "k < Mesh_Count m" for k
  proof -
    have c: "in_range ?ns (rank_coord ?ns k)" "nat (lin_index ?ns (rank_coord ?ns k)) = k"
      using rank_coord [of ?ns k] axes_ok_length [OF assms(3)] wf(1) k by (auto simp: Mesh_Count_def)
    with bd show ?thesis unfolding block_done_def by metis
  qed
  show thesis
  proof (rule that [of r])
    show "DistributedScather_new T m ps t = Inr r"
      using axes_ok_length [OF assms(3)] r(1)
      by (simp add: DistributedScather_new_def MergeSameShardDim_id [OF assms(3)])
    show "dom r = set ?data"
      using r(2) piece by (fastforce simp: Mesh_Count_def in_set_conv_nth)
    show "GatherImp T M m ps ps (?ns, ?data) = Inr t" if "\<forall>x \<in> set ?data. M x = r x" for M
      using bd that unfolding block_done_def by blast
  qed (rule piece)
qed

text \<open>C16: scattering a tensor over a mesh and gathering the pieces gives the tensor back, in whatever order the
  pieces arrive, when every tensor axis is cut by one mesh axis at most, also with sub-split coordinates.\<close>

theorem scatter_gather_roundtrip:
  assumes "torch_laws T" and "Mesh_wf m" and "axes_ok ps (Mesh_Shape m) (t_shape T t)"
  shows "\<exists>pieces. DistributedScather_new T m ps t = Inr pieces \<and>
    (\<forall>torchMap. distinct (map fst torchMap) \<and> map_of torchMap = pieces \<longrightarrow>
       DistributeGather_new T m torchMap = Inr () \<and> DistributeGather_Get T m ps torchMap = Inr t)"
proof -
  let ?data = "mData (mMesh m)"
  have wf: "distinct ?data" "?data \<noteq> []"
    using assms(2) by (auto simp: Mesh_wf_def SimpleArray_wf_def)
  obtain r where r: "DistributedScather_new T m ps t = Inr r" "dom r = set ?data"
    and piece: "\<And>k. k < Mesh_Count m \<Longrightarrow> \<exists>u. r (?data ! k) = Some u \<and> t_device T u = t_device T t"
    and g: "\<And>M. \<forall>x \<in> set ?data. M x = r x \<Longrightarrow> GatherImp T M m ps ps (Mesh_Shape m, ?data) = Inr t"
    using scatter_pieces [OF assms] by metis
  have "DistributeGather_new T m torchMap = Inr () \<and> DistributeGather_Get T m ps torchMap = Inr t"
    if d: "distinct (map fst torchMap)" and m: "map_of torchMap = r" for torchMap
  proof -
    have keys: "fst ` set torchMap = set ?data" using r(2) m by (metis dom_map_of_conv_image_fst)
    have "length torchMap = card (fst ` set torchMap)" using d by (metis distinct_card length_map list.set_map)
    then have len: "length torchMap = Mesh_Count m" using keys wf(1) by (simp add: distinct_card Mesh_Count_def)
    have dev: "t_device T (snd it) = t_device T t" if "it \<in> set torchMap" for it
    proof -
      have "r (fst it) = Some (snd it)" using that d m by (metis map_of_is_SomeI prod.collapse)
      moreover have "fst it \<in> set ?data" using that keys by blast
      ultimately show ?thesis using piece by (fastforce simp: in_set_conv_nth Mesh_Count_def)
    qed
    have "torchMap \<noteq> []" "0 < Mesh_Count m" using len wf(2) by (auto simp: Mesh_Count_def)
    then have "DistributeGather_new T m torchMap = Inr ()"
      using len dev by (simp add: DistributeGather_new_def list_all_iff)
    moreover have "DistributeGather_Get T m ps torchMap = Inr t"
      using g [of r] by (simp add: DistributeGather_Get_def m)
    ultimately show ?thesis by blast
  qed
  with r(1) show ?thesis by blast
qed

text \<open>The tensor of the witnesses, and its layout on the four GPUs.\<close>

lemma sample_layout:
  "Mesh_wf gpu_grid \<and> axes_ok [Shard 0 2, Shard 1 (- 1)] (Mesh_Shape gpu_grid) [8, 5] \<and>
   axes_ok [Partial, Shard 1 (- 1)] (Mesh_Shape gpu_grid) [8, 5]"
  using layout_ok_grid by (simp add: layout_ok_def cut_ok_def IsShardAt_def placement_defs)

definition sample_tensor :: tensor where
  "sample_tensor = mk_array [8, 5] (mk_Device kGpu 4) (\<lambda>cs. cs ! 0 * 5 + cs ! 1)"

lemma sample_tensor_shape: "t_shape array_ops sample_tensor = [8, 5]"
  unfolding array_ops_def sample_tensor_def torch_ops.simps by (rule mk_array_shape) auto

theorem scatter_gather_roundtrip_witness:
  "\<exists>pieces. DistributedScather_new array_ops gpu_grid [Shard 0 2, Shard 1 (- 1)] sample_tensor = Inr pieces"
  using scatter_gather_roundtrip [OF array_laws, of gpu_grid "[Shard 0 2, Shard 1 (- 1)]" sample_tensor] sample_layout
  by (auto simp: sample_tensor_shape)

text \<open>C18: without sub-split coordinates every device gets a piece of the local shape \<open>ComputeLocalShape\<close>
  predicts for it, as the assertion in \<open>ConvertKernel::ScatherTensor\<close> demands.\<close>

theorem scatter_local_shapes:
  assumes "torch_laws T" and "Mesh_wf m" and "axes_ok ps (Mesh_Shape m) (t_shape T t)"
    and "list_all (\<lambda>p. \<not> HasSubSplitCoordinates p) ps"
  shows "\<exists>pieces. DistributedScather_new T m ps t = Inr pieces \<and>
    (\<forall>k < Mesh_Count m. \<exists>u. DistributedScather_Get pieces (mData (mMesh m) ! k) = Inr u \<and>
       t_shape T u = local_shape (Mesh_Shape m) ps (t_shape T t) (rank_coord (Mesh_Shape m) k))"
proof -
  obtain r where r: "DistributedScather_new T m ps t = Inr r"
    and piece: "\<And>k. k < Mesh_Count m \<Longrightarrow> \<exists>u. r (mData (mMesh m) ! k) = Some u \<and>
      t_shape T u = cut_shapes ps (Mesh_Shape m) (rank_coord (Mesh_Shape m) k) (t_shape T t) \<and>
      in_range (Mesh_Shape m) (rank_coord (Mesh_Shape m) k)"
    using scatter_pieces [OF assms(1-3)] by metis
  have "\<exists>u. DistributedScather_Get r (mData (mMesh m) ! k) = Inr u \<and>
      t_shape T u = local_shape (Mesh_Shape m) ps (t_shape T t) (rank_coord (Mesh_Shape m) k)"
    if "k < Mesh_Count m" for k
    using piece [OF that] cut_shapes_local [OF assms(3) _ assms(4)] in_range_length
    by (fastforce simp: DistributedScather_Get_def)
  with r show ?thesis by blast
qed

theorem scatter_local_shapes_witness:
  "\<exists>pieces u. DistributedScather_new array_ops gpu_grid [Partial, Shard 1 (- 1)] sample_tensor = Inr pieces \<and>
    DistributedScather_Get pieces 5 = Inr u \<and> t_shape array_ops u = local_shape [2, 2] [Partial, Shard 1 (- 1)] [8, 5] (rank_coord [2, 2] 1)"
proof -
  from scatter_local_shapes [OF array_laws, of gpu_grid "[Partial, Shard 1 (- 1)]" sample_tensor] sample_layout
  obtain pieces where p: "DistributedScather_new array_ops gpu_grid [Partial, Shard 1 (- 1)] sample_tensor = Inr pieces"
    "\<forall>k < Mesh_Count gpu_grid. \<exists>u. DistributedScather_Get pieces (mData (mMesh gpu_grid) ! k) = Inr u \<and>
       t_shape array_ops u = local_shape (Mesh_Shape gpu_grid) [Partial, Shard 1 (- 1)] [8, 5] (rank_coord (Mesh_Shape gpu_grid) k)"
    by (auto simp: sample_tensor_shape HasSubSplitCoordinates_def placement_defs)
  from spec [OF p(2), of 1] p(1) show ?thesis by (simp add: Mesh_Count_def)
qed

text \<open>
  With a sub-split coordinate the pieces need not have the local shapes of \<open>ComputeLocalShape\<close>, which ignores the
  coordinate: six entries cut at coordinate 2 for two devices give 4 and 2, where 3 and 3 are expected.
\<close>

lemma SubSplit_not_local_shape:
  "axes_ok [Shard 0 2] [2] [6] \<and> cut_shapes [Shard 0 2] [2] [0] [6] = [4] \<and> local_shape [2] [Shard 0 2] [6] [0] = [3]"
proof -
  have "axes_ok [Shard 0 2] [2] [6]" by (simp add: cut_ok_def placement_defs)
  moreover have "shard_axes [Shard 0 2] 0 = {0}" by (auto simp: shard_axes_def IsShardAt_def placement_defs)
  ultimately show ?thesis
    by (simp add: cut_shape_def cut_size_def piece_size_def placement_defs local_shape_def local_size_def shard_count_def
        nths_singleton)
qed

end
