(* ===== verification/Collectives.thy ===== *)
theory Collectives
  imports Redistribution Operands
begin

text \<open>
  Communication inside a group of devices: the collectives of \<open>ThreadGroupSameDeviceBackend\<close>
  (src/dtorch/core/communication/thread_group/thread_group_same_device_backend.cc), the operations of
  \<open>ThreadGroup\<close> on top of a backend (thread_group.cc), the choice of the group (\<open>ThreadGroupInfo\<close> of
  thread_group_manager.cc) and \<open>ConvertKernel\<close> (src/dtorch/core/kernel/kernel_implement/convert_kernel.cc).

  A collective is described for the whole group: a list has one entry per rank.  Each \<open>DestGet\<close> of the backend
  returns the tensor the matching \<open>SrcSet\<close> left in the store, which \<open>TensorStores\<close> establishes for the
  protocol of the store; the \<open>+=\<close> of the code works in place on the tensor rank 0 put there, so the collectives
  that sum also return the inputs as they are afterwards.
\<close>

section \<open>The backend for ranks on the same device\<close>

text \<open>The sum is formed by the rank that collects, in the order of the ranks.\<close>

definition SumOfRanks :: "'t torch_ops \<Rightarrow> 't list \<Rightarrow> 't res" where
  "SumOfRanks T tensors = guardR Undefined (tensors \<noteq> [])
     (foldR (\<lambda>u result. t_add T result u) (tl tensors) (hd tensors))"

definition SameDevice_allreduce :: "'t torch_ops \<Rightarrow> 't list \<Rightarrow> ('t list \<times> 't list) res" where
  "SameDevice_allreduce T tensors =
     bindR (SumOfRanks T tensors) (\<lambda>result. Inr (tensors[0 := result], replicate (length tensors) result))"

definition SameDevice_reduce :: "'t torch_ops \<Rightarrow> nat \<Rightarrow> 't list \<Rightarrow> ('t list \<times> 't list) res" where
  "SameDevice_reduce T destRank tensors =
     bindR (SumOfRanks T tensors) (\<lambda>result. let after = tensors[0 := result] in Inr (after, after[destRank := result]))"

definition SameDevice_allgather :: "'t list \<Rightarrow> 't list list res" where
  "SameDevice_allgather inputTensors = Inr (map (\<lambda>rank. map (\<lambda>rankIdx. inputTensors ! rankIdx) [0..<length inputTensors])
     [0..<length inputTensors])"

definition SameDevice_allgather_base :: "'t torch_ops \<Rightarrow> 't list \<Rightarrow> 't list res" where
  "SameDevice_allgather_base T inputs =
     guardR Undefined (inputs \<noteq> [])
      (bindR (foldR (\<lambda>rankIdx (allRankInputs, result). let allRankInputs = allRankInputs @ [inputs ! rankIdx] in
          bindR (t_concat T allRankInputs 0) (\<lambda>result. Inr (allRankInputs, Some result))) [0..<length inputs] ([], None))
       (\<lambda>(allRankInputs, result). Inr (replicate (length inputs) (the result))))"

definition SameDevice_reduce_scatter_base :: "'t torch_ops \<Rightarrow> 't list \<Rightarrow> ('t list \<times> 't list) res" where
  "SameDevice_reduce_scatter_base T inputs =
     bindR (SumOfRanks T inputs) (\<lambda>reducedTensor.
     bindR (mapR (\<lambda>mRank. bindR (t_chunk T reducedTensor (int (length inputs)) 0) (\<lambda>chunkedTensors.
         assertR (length chunkedTensors = length inputs) (Inr (chunkedTensors ! mRank)))) [0..<length inputs]) (\<lambda>outputs.
       Inr (inputs[0 := reducedTensor], outputs)))"

definition SameDevice_alltoall :: "'t list list \<Rightarrow> 't list list res" where
  "SameDevice_alltoall inputTensors = (let mWorldSize = length inputTensors in
     assertR (list_all (\<lambda>row. length row = mWorldSize) inputTensors)
      (Inr (map (\<lambda>mRank. map (\<lambda>idx. inputTensors ! idx ! mRank) [0..<mWorldSize]) [0..<mWorldSize])))"

section \<open>What a backend promises\<close>

record 't backend =
  b_allreduce :: "'t list \<Rightarrow> ('t list \<times> 't list) res"
  b_allgather :: "'t list \<Rightarrow> 't list list res"
  b_allgather_base :: "'t list \<Rightarrow> 't list res"
  b_reduce_scatter_base :: "'t list \<Rightarrow> ('t list \<times> 't list) res"
  b_alltoall :: "'t list list \<Rightarrow> 't list list res"

definition same_device :: "'t torch_ops \<Rightarrow> 't backend" where
  "same_device T = \<lparr>b_allreduce = SameDevice_allreduce T, b_allgather = SameDevice_allgather,
     b_allgather_base = SameDevice_allgather_base T, b_reduce_scatter_base = SameDevice_reduce_scatter_base T,
     b_alltoall = SameDevice_alltoall\<rparr>"

section \<open>ThreadGroup\<close>

text \<open>\<open>localShape\<close> gives the local shape of the input operand on the device of a rank.\<close>

definition Group_AllReduce :: "'t backend \<Rightarrow> 't list \<Rightarrow> 't list res" where
  "Group_AllReduce B inputs = bindR (b_allreduce B inputs) (\<lambda>(_, outputs). Inr outputs)"

definition AllGatherIntoVec :: "'t backend \<Rightarrow> 't list \<Rightarrow> 't list list res" where
  "AllGatherIntoVec B inputs = b_allgather B inputs"

definition AllGather :: "'t torch_ops \<Rightarrow> 't backend \<Rightarrow> 't list \<Rightarrow> int \<Rightarrow> 't list res" where
  "AllGather T B inputs shardIndex =
     bindR (AllGatherIntoVec B inputs) (mapR (\<lambda>result. t_concat T result shardIndex))"

definition EqualShapeAllGatherIntoTensor :: "'t torch_ops \<Rightarrow> 't backend \<Rightarrow> 't list \<Rightarrow> 't list res" where
  "EqualShapeAllGatherIntoTensor T B inputs =
     assertR (list_all (\<lambda>input. length (t_shape T input) > 0) inputs) (b_allgather_base B inputs)"

definition AllGatherIntoTensor :: "'t torch_ops \<Rightarrow> 't backend \<Rightarrow> bool \<Rightarrow> 't list \<Rightarrow> 't list res" where
  "AllGatherIntoTensor T B isLocalShapeEvenSplit inputs =
     (if isLocalShapeEvenSplit then EqualShapeAllGatherIntoTensor T B inputs else AllGather T B inputs 0)"

definition ReduceScatterTensor :: "'t torch_ops \<Rightarrow> 't backend \<Rightarrow> 't list \<Rightarrow> ('t list \<times> 't list) res" where
  "ReduceScatterTensor T B inputs =
     bindR (mapR (\<lambda>input. assertR (length (t_shape T input) > 0)
         (bindR (remR (t_shape T input ! 0) (int (length inputs))) (\<lambda>r. assertR (r = 0) (Inr ())))) inputs) (\<lambda>_.
       b_reduce_scatter_base B inputs)"

definition AllToAll :: "'t torch_ops \<Rightarrow> 't backend \<Rightarrow> (nat \<Rightarrow> shape) \<Rightarrow> nat \<Rightarrow> nat \<Rightarrow> 't list \<Rightarrow> 't list res" where
  "AllToAll T B localShape srcDim destDim inputs = (let worldSize = int (length inputs) in
     bindR (mapR (\<lambda>input. assertR (srcDim < length (t_shape T input) \<and> destDim < length (t_shape T input))
         (bindR (tensor_size T input (int destDim)) (\<lambda>m.
          bindR (GetShardSizeForAllRank m worldSize) (\<lambda>splitSize.
          bindR (t_split T input splitSize (int destDim)) (\<lambda>inputVec.
          bindR (mapR (\<lambda>i. bindR (at_nat (localShape i) destDim) (\<lambda>m. GetShardSizeForAllRank m worldSize))
             [0..<length inputs]) (\<lambda>_.
            assertR (length inputVec = length inputs) (Inr inputVec))))))) inputs) (\<lambda>inputVecs.
     bindR (b_alltoall B inputVecs) (mapR (\<lambda>outputVec. t_concat T outputVec (int srcDim)))))"

text \<open>\<open>ReplicateToShard\<close> is local to a rank; a fatal log message ends the program.\<close>

definition ReplicateToShard :: "'t torch_ops \<Rightarrow> nat \<Rightarrow> nat \<Rightarrow> 't \<Rightarrow> int \<Rightarrow> int \<Rightarrow> 't res" where
  "ReplicateToShard T worldSize rank input shardIdx subSplitCoordinates =
     assertR (shardIdx \<ge> 0)
      (assertR (int (length (t_shape T input)) > shardIdx)
       (bindR (tensor_size T input shardIdx) (\<lambda>sizeInShardDim.
          if subSplitCoordinates < 0 then
            bindR (GetShardSizeForAllRank sizeInShardDim (int worldSize)) (\<lambda>splitSize.
            bindR (t_split T input splitSize shardIdx) (\<lambda>inputVec.
              assertR (length inputVec = worldSize) (Inr (inputVec ! rank))))
          else
            assertR (\<not> (subSplitCoordinates \<le> 0 \<or> subSplitCoordinates \<ge> sizeInShardDim))
             (bindR (SplitFrontEnd T input shardIdx subSplitCoordinates sizeInShardDim (int worldSize)) (\<lambda>(fronts, ends).
                assertR (rank < length fronts) (t_concat T [fronts ! rank, ends ! rank] shardIdx))))))"

section \<open>ConvertKernel\<close>

text \<open>
  \<open>ConvertPlacements\<close> for the ranks of the group along the mesh axis on which the layouts differ.  A scatter of
  a sum over any axis but 0, and the conversions to a sum, are not implemented.
\<close>

definition ConvertPlacements :: "'t torch_ops \<Rightarrow> 't backend \<Rightarrow> bool \<Rightarrow> (nat \<Rightarrow> shape) \<Rightarrow> DeviceMesh \<Rightarrow> placement_seq \<Rightarrow>
    placement_seq \<Rightarrow> 't list \<Rightarrow> 't list res" where
  "ConvertPlacements T B isLocalShapeEvenSplit localShape srcDeviceMesh srcPlacementSeq destPlacementSeq inputs =
     bindR (GetDiffDims srcPlacementSeq destPlacementSeq) (\<lambda>diffDims. assertR (length diffDims = 1)
      (let diffDim = diffDims ! 0 in
       bindR (Seq_at srcPlacementSeq diffDim) (\<lambda>p. bindR (Seq_at destPlacementSeq diffDim) (\<lambda>q.
         if IsShard p \<and> IsShard q then
           assertR (\<not> HasSubSplitCoordinates p) (assertR (\<not> HasSubSplitCoordinates q)
            (bindR (GetShardIndex p) (\<lambda>srcDim. bindR (GetShardIndex q) (\<lambda>destDim.
               AllToAll T B localShape (nat srcDim) (nat destDim) inputs))))
         else if IsShard p \<and> IsReplicate q then
           (if \<not> HasSubSplitCoordinates p then
              bindR (GetShardIndex p) (\<lambda>shardIndex.
                if shardIndex = 0 then AllGatherIntoTensor T B isLocalShapeEvenSplit inputs
                else AllGather T B inputs shardIndex)
            else bindR (AllGatherIntoVec B inputs)
              (mapR (\<lambda>tmpTensors. GatherShardWithSubSplit T tmpTensors srcDeviceMesh srcPlacementSeq diffDim)))
         else if IsReplicate p \<and> IsShard q then
           bindR (GetShardIndex q) (\<lambda>shardIdx. bindR (GetSubSplitCoordinates q) (\<lambda>subSplit.
             mapR (\<lambda>rank. ReplicateToShard T (length inputs) rank (inputs ! rank) shardIdx subSplit) [0..<length inputs]))
         else if IsPartial p \<and> IsShardAt q 0 then
           bindR (ReduceScatterTensor T B inputs) (\<lambda>(_, outputs). Inr outputs)
         else if IsPartial p \<and> IsReplicate q then Group_AllReduce B inputs
         else Inl Abort))))"

section \<open>The contract of a backend\<close>

locale collectives =
  fixes T :: "'t torch_ops" and B :: "'t backend"
  assumes allreduce: "SumOfRanks T inputs = Inr s \<Longrightarrow>
      \<exists>after. b_allreduce B inputs = Inr (after, replicate (length inputs) s)"
    and allgather: "b_allgather B inputs = Inr (replicate (length inputs) inputs)"
    and allgather_base: "torch_laws T \<Longrightarrow> inputs \<noteq> [] \<Longrightarrow> 0 < length shape \<Longrightarrow>
      \<forall>u \<in> set inputs. fits T shape dev 0 u \<Longrightarrow> t_concat T inputs 0 = Inr r \<Longrightarrow>
      b_allgather_base B inputs = Inr (replicate (length inputs) r)"
    and reduce_scatter: "SumOfRanks T inputs = Inr s \<Longrightarrow> t_chunk T s (int (length inputs)) 0 = Inr parts \<Longrightarrow>
      length parts = length inputs \<Longrightarrow> \<exists>after. b_reduce_scatter_base B inputs = Inr (after, parts)"
    and alltoall: "\<forall>row \<in> set rows. length row = length rows \<Longrightarrow>
      b_alltoall B rows = Inr (map (\<lambda>r. map (\<lambda>row. row ! r) rows) [0..<length rows])"

lemma concat_prefixes:
  assumes T: "torch_laws T" and d: "0 < length shape" and f: "\<forall>u \<in> set inputs. fits T shape dev 0 u"
    and k: "k \<le> length inputs"
  shows "\<exists>r. foldR (\<lambda>rankIdx (allRankInputs, result). let allRankInputs = allRankInputs @ [inputs ! rankIdx] in
          bindR (t_concat T allRankInputs 0) (\<lambda>result. Inr (allRankInputs, Some result))) [0..<k] ([], None) =
      Inr (take k inputs, r) \<and> (0 < k \<longrightarrow> (\<exists>t. r = Some t \<and> t_concat T (take k inputs) 0 = Inr t))"
  using k
proof (induction k)
  case 0
  then show ?case by simp
next
  case (Suc k)
  then obtain r where r: "foldR (\<lambda>rankIdx (allRankInputs, result). let allRankInputs = allRankInputs @ [inputs ! rankIdx] in
          bindR (t_concat T allRankInputs 0) (\<lambda>result. Inr (allRankInputs, Some result))) [0..<k] ([], None) =
      Inr (take k inputs, r)" by auto
  have ts: "take (Suc k) inputs = take k inputs @ [inputs ! k]" using Suc.prems by (simp add: take_Suc_conv_app_nth)
  have "take (Suc k) inputs \<noteq> []" "\<forall>u \<in> set (take (Suc k) inputs). fits T shape dev 0 u"
    using Suc.prems f by (auto dest: in_set_takeD)
  then obtain t where "t_concat T (take (Suc k) inputs) (int 0) = Inr t"
    using law_concatE [OF T _ d] by metis
  with r show ?case by (simp add: foldR_append ts)
qed

interpretation same: collectives T "same_device T" for T :: "'t torch_ops"
proof unfold_locales
  fix inputs s
  assume s: "SumOfRanks T inputs = Inr s"
  then show "\<exists>after. b_allreduce (same_device T) inputs = Inr (after, replicate (length inputs) s)"
    by (simp add: same_device_def SameDevice_allreduce_def)
  fix parts assume "t_chunk T s (int (length inputs)) 0 = Inr parts" "length parts = length inputs"
  with s show "\<exists>after. b_reduce_scatter_base (same_device T) inputs = Inr (after, parts)"
    using map_nth [of parts] by (simp add: same_device_def SameDevice_reduce_scatter_base_def)
next
  fix inputs
  show "b_allgather (same_device T) inputs = Inr (replicate (length inputs) inputs)"
    by (simp add: same_device_def SameDevice_allgather_def map_nth map_replicate_const)
next
  fix inputs shape dev r
  assume a: "torch_laws T" "inputs \<noteq> []" "0 < length shape" "\<forall>u \<in> set inputs. fits T shape dev 0 u"
    and c: "t_concat T inputs 0 = Inr r"
  from concat_prefixes [OF a(1,3,4) order_refl] a(2) c
  show "b_allgather_base (same_device T) inputs = Inr (replicate (length inputs) r)"
    by (auto simp: same_device_def SameDevice_allgather_base_def)
next
  fix rows :: "'t list list"
  assume rows: "\<forall>row \<in> set rows. length row = length rows"
  have "map (\<lambda>idx. rows ! idx ! r) [0..<length rows] = map (\<lambda>row. row ! r) rows" for r
    by (rule nth_equalityI) simp_all
  with rows show "b_alltoall (same_device T) rows = Inr (map (\<lambda>r. map (\<lambda>row. row ! r) rows) [0..<length rows])"
    by (simp add: same_device_def SameDevice_alltoall_def list_all_iff)
qed

section \<open>One conversion step\<close>

text \<open>What the cut of one axis leaves on the ranks, as facts about the list of the pieces.\<close>

lemma ScatherAxis_shard:
  assumes T: "torch_laws T" and p: "IsShard p" "cut_ok p n (t_shape T t)" "\<not> HasSubSplitCoordinates p" and n: "0 < n"
    and d: "mShardIndex p = int d"
  obtains sizes ts where "ScatherAxis T p t n = Inr ts" and "length ts = nat n" and "length sizes = nat n"
    and "GetShardSizeForAllRank (t_shape T t ! d) n = Inr sizes" and "split_ok (t_shape T t) sizes d"
    and "t_split T t sizes (int d) = Inr ts" and "t_concat T ts (int d) = Inr t"
    and "\<And>i. i < nat n \<Longrightarrow> t_shape T (ts ! i) = (t_shape T t)[d := sizes ! i]"
    and "\<And>i. i < nat n \<Longrightarrow> t_device T (ts ! i) = t_device T t" and "\<And>i. i < nat n \<Longrightarrow> 0 < sizes ! i"
proof -
  from p d have dd: "d < length (t_shape T t)" "n \<le> t_shape T t ! d" "\<not> IsReplicate p" "mSubSplitCoordinates p = - 1"
    by (auto simp: cut_ok_def HasSubSplitCoordinates_def)
  obtain sizes ts where s: "GetShardSizeForAllRank (t_shape T t ! d) n = Inr sizes"
    "t_split T t sizes (int d) = Inr ts" "length ts = nat n" "length sizes = nat n" "sum_list sizes = t_shape T t ! d"
    "\<And>i. i < nat n \<Longrightarrow> sizes ! i = piece_size (t_shape T t ! d) n (int i) \<and> 0 < sizes ! i"
    "\<And>i. i < nat n \<Longrightarrow> t_shape T (ts ! i) = (t_shape T t)[d := sizes ! i]"
    "\<And>i. i < nat n \<Longrightarrow> t_device T (ts ! i) = t_device T t" "t_concat T ts (int d) = Inr t"
    using split_pieces [OF T dd(1) n dd(2)] by metis
  have "\<forall>x \<in> set sizes. 0 \<le> x" using s(4,6) by (metis in_set_conv_nth less_imp_le)
  then have so: "split_ok (t_shape T t) sizes d"
    using s(4,5) dd(1) n by (auto simp: split_ok_def)
  have sa: "ScatherAxis T p t n = Inr ts"
    using p(1) dd d s(1,2)
    by (simp add: ScatherAxis_def GetShardIndex_def GetSubSplitCoordinates_def tensor_size_nat)
  show thesis by (rule that [OF sa s(3,4,1) so s(2,9) s(7,8)]) (assumption | erule s(6) [THEN conjunct2])+
qed

lemma ScatherAxis_Replicate: "0 < n \<Longrightarrow> ScatherAxis T Replicate t n = Inr (replicate (nat n) t)"
  by (simp add: ScatherAxis_def)

lemma ScatherAxis_Partial: "0 < n \<Longrightarrow>
    ScatherAxis T Partial t n = Inr (t # replicate (nat n - 1) (t_zeros_like T t))"
  by (cases "nat n") (simp_all add: ScatherAxis_def)

lemma SumOfRanks_Partial: "torch_laws T \<Longrightarrow> SumOfRanks T (t # replicate k (t_zeros_like T t)) = Inr t"
  by (simp add: SumOfRanks_def add_zeros)

text \<open>
  \<open>convertible p q n s dims\<close>: the steps from \<open>p\<close> to \<open>q\<close> that are implemented, for a group of \<open>n\<close> ranks and the
  shape \<open>s\<close> of the tensor the group holds.
\<close>

definition convertible :: "Placement \<Rightarrow> Placement \<Rightarrow> int \<Rightarrow> shape \<Rightarrow> bool" where
  "convertible p q n s \<longleftrightarrow> (IsShard p \<longrightarrow> cut_ok p n s) \<and> (IsShard q \<longrightarrow> cut_ok q n s) \<and>
     (if IsShard p \<and> IsShard q then
        \<not> HasSubSplitCoordinates p \<and> \<not> HasSubSplitCoordinates q \<and> mShardIndex p \<noteq> mShardIndex q
      else if IsShard p \<or> p = Partial then
        q = Replicate \<or> (p = Partial \<and> q = Shard 0 (- 1) \<and> n dvd s ! 0)
      else p = Replicate \<and> IsShard q)"

context collectives
begin

lemma shard_to_replicate:
  assumes "torch_laws T" and "t_concat T inputs (int d) = Inr t"
  shows "AllGather T B inputs (int d) = Inr (replicate (length inputs) t)"
proof -
  have "mapR (\<lambda>result. t_concat T result (int d)) (replicate k inputs) = Inr (replicate k t)" for k
    using assms(2) by (induction k) simp_all
  then show ?thesis by (simp add: AllGather_def AllGatherIntoVec_def allgather)
qed

lemma even_shard_to_replicate:
  assumes "torch_laws T" and "inputs \<noteq> []" and "0 < length shape" and "\<forall>u \<in> set inputs. fits T shape dev 0 u"
    and "t_concat T inputs 0 = Inr t"
  shows "AllGatherIntoTensor T B evenSplit inputs = Inr (replicate (length inputs) t)"
proof (cases evenSplit)
  case True
  have "\<forall>u \<in> set inputs. 0 < length (t_shape T u)"
    using assms(3,4) unfolding fits_def by (metis length_list_update)
  with True show ?thesis
    by (simp add: AllGatherIntoTensor_def EqualShapeAllGatherIntoTensor_def list_all_iff
        allgather_base [OF assms])
next
  case False
  with shard_to_replicate [OF assms(1), of inputs 0] assms(5) show ?thesis by (simp add: AllGatherIntoTensor_def)
qed

lemma shard_to_shard:
  assumes T: "torch_laws T" and ab: "a \<noteq> b" and n: "0 < n"
    and sa: "GetShardSizeForAllRank (t_shape T t ! a) n = Inr m" "split_ok (t_shape T t) m a" "length m = nat n"
    and sb: "GetShardSizeForAllRank (t_shape T t ! b) n = Inr k" "split_ok (t_shape T t) k b" "length k = nat n"
    and ps: "t_split T t m (int a) = Inr ps" and qs: "t_split T t k (int b) = Inr qs" and len: "length ps = nat n" "length qs = nat n"
    and shape: "\<And>i. i < nat n \<Longrightarrow> t_shape T (ps ! i) = (t_shape T t)[a := m ! i]"
    and local: "\<And>i. i < nat n \<Longrightarrow> localShape i = t_shape T (ps ! i)"
  shows "AllToAll T B localShape a b ps = Inr qs"
proof -
  from T ab sa sb ps qs obtain rows where rows: "mapR (\<lambda>p. t_split T p k (int b)) ps = Inr rows"
    "\<And>j. j < nat n \<Longrightarrow> t_split T (qs ! j) m (int a) = Inr (map (\<lambda>row. row ! j) rows)"
    unfolding torch_laws_def law_cross_def by metis
  have ab_len: "a < length (t_shape T t)" "b < length (t_shape T t)" using sa(2) sb(2) by (auto simp: split_ok_def)
  have rl: "length rows = nat n" "\<And>i. i < nat n \<Longrightarrow> t_split T (ps ! i) k (int b) = Inr (rows ! i)"
    using rows(1) len by (auto simp: mapR_eq_Inr)
  have row: "length (rows ! i) = nat n" if i: "i < nat n" for i
  proof -
    have "split_ok (t_shape T (ps ! i)) k b" using sb(2) ab shape [OF i] by (simp add: split_ok_def)
    with law_splitE [OF T this] rl(2) [OF i] sb(3) show ?thesis by (metis Inr_inject)
  qed
  have at: "t_shape T (ps ! i) ! b = t_shape T t ! b" "length (t_shape T (ps ! i)) = length (t_shape T t)" if "i < nat n" for i
    using shape [OF that] ab by simp_all
  have local_ok: "mapR (\<lambda>i. bindR (at_nat (localShape i) b) (\<lambda>m. GetShardSizeForAllRank m n)) [0..<nat n] = Inr (replicate (nat n) k)"
  proof -
    have "mapR (\<lambda>i. bindR (at_nat (localShape i) b) (\<lambda>m. GetShardSizeForAllRank m n)) [0..<nat n] = Inr (map (\<lambda>_. k) [0..<nat n])"
      by (rule mapR_total) (simp add: local at ab_len sb(1))
    then show ?thesis by (simp add: map_replicate_const)
  qed
  have world: "int (length ps) = n" using len n by simp
  have vecs: "mapR (\<lambda>input. guardR Abort (a < length (t_shape T input) \<and> b < length (t_shape T input))
         (bindR (tensor_size T input (int b)) (\<lambda>m.
          bindR (GetShardSizeForAllRank m n) (\<lambda>splitSize.
          bindR (t_split T input splitSize (int b)) (\<lambda>inputVec.
          bindR (mapR (\<lambda>i. bindR (at_nat (localShape i) b) (\<lambda>m. GetShardSizeForAllRank m n)) [0..<nat n]) (\<lambda>_.
            guardR Abort (length inputVec = nat n) (Inr inputVec))))))) ps = Inr rows"
    using len rl row at ab_len sb(1) by (simp add: mapR_eq_Inr tensor_size_nat local_ok)
  have "b_alltoall B rows = Inr (map (\<lambda>r. map (\<lambda>row. row ! r) rows) [0..<nat n])"
  proof -
    have "\<forall>r \<in> set rows. length r = length rows" using row rl(1) by (auto simp: in_set_conv_nth)
    from alltoall [OF this] rl(1) show ?thesis by simp
  qed
  moreover have "mapR (\<lambda>outputVec. t_concat T outputVec (int a)) (map (\<lambda>r. map (\<lambda>row. row ! r) rows) [0..<nat n]) = Inr qs"
  proof -
    have "t_concat T (map (\<lambda>row. row ! r) rows) (int a) = Inr (qs ! r)" if r: "r < nat n" for r
    proof -
      have "t_shape T (qs ! r) = (t_shape T t)[b := k ! r]"
        using law_splitE [OF T sb(2)] qs sb(3) r by (metis Inr_inject)
      then have ok: "split_ok (t_shape T (qs ! r)) m a" using sa(2) ab by (simp add: split_ok_def)
      show ?thesis using law_splitE [OF T ok] rows(2) [OF r] by (metis Inr_inject)
    qed
    then show ?thesis using len by (simp add: mapR_eq_Inr)
  qed
  ultimately show ?thesis
    using vecs n by (simp add: AllToAll_def len(1))
qed

lemma partial_to_replicate:
  assumes "torch_laws T" and "inputs = t # replicate k (t_zeros_like T t)"
  shows "Group_AllReduce B inputs = Inr (replicate (length inputs) t)"
  using allreduce [of inputs t] SumOfRanks_Partial [OF assms(1)] assms(2) by (auto simp: Group_AllReduce_def)

lemma partial_to_shard:
  assumes T: "torch_laws T" and n: "0 < n" and inputs: "inputs = t # replicate (nat n - 1) (t_zeros_like T t)"
    and s: "0 < length (t_shape T t)" "n \<le> t_shape T t ! 0" "n dvd t_shape T t ! 0"
    and qs: "t_split T t sizes (int 0) = Inr qs" "GetShardSizeForAllRank (t_shape T t ! 0) n = Inr sizes" "length qs = nat n"
  shows "\<exists>after. ReduceScatterTensor T B inputs = Inr (after, qs)"
proof -
  let ?m = "t_shape T t ! 0"
  have len: "length inputs = nat n" using inputs n by (cases "nat n") simp_all
  have "sizes = replicate (nat n) (?m div n)"
    using GetShardSizeForAllRank_eq [OF n s(2)] qs(2) s(3) n
    by (intro nth_equalityI) (auto simp: piece_size_def nth_upto)
  moreover have "?m = n * (?m div n)" "0 \<le> ?m div n" using s n by (auto simp: pos_imp_zdiv_nonneg_iff)
  ultimately have "t_chunk T t n (int 0) = Inr qs"
    using T n s(1) qs(1) unfolding torch_laws_def law_chunk_def by metis
  moreover have "SumOfRanks T inputs = Inr t" unfolding inputs by (rule SumOfRanks_Partial [OF T])
  ultimately obtain after where "b_reduce_scatter_base B inputs = Inr (after, qs)"
    using reduce_scatter [of inputs t qs] len qs(3) n by auto
  moreover have "mapR (\<lambda>input. guardR Abort (length (t_shape T input) > 0)
         (bindR (remR (t_shape T input ! 0) n) (\<lambda>r. guardR Abort (r = 0) (Inr ())))) inputs =
      Inr (map (\<lambda>_. ()) inputs)"
  proof (rule mapR_total)
    fix u assume "u \<in> set inputs"
    then have "t_shape T u = t_shape T t" unfolding inputs by (auto simp: torch_zeros(1) [OF T] in_set_replicate)
    with s n show "guardR Abort (length (t_shape T u) > 0)
         (bindR (remR (t_shape T u ! 0) n) (\<lambda>r. guardR Abort (r = 0) (Inr ()))) = Inr ()" by simp
  qed
  ultimately show ?thesis using n by (simp add: ReduceScatterTensor_def len)
qed

end

text \<open>\<open>ReplicateToShard\<close> takes the piece \<open>ScatherAxis\<close> gives the rank.\<close>

lemma ReplicateToShard_eq:
  assumes T: "torch_laws T" and q: "IsShard q" "cut_ok q (int n) (t_shape T t)" and n: "0 < n" and r: "rank < n"
    and ts: "ScatherAxis T q t (int n) = Inr ts" and len: "length ts = n"
  shows "ReplicateToShard T n rank t (mShardIndex q) (mSubSplitCoordinates q) = Inr (ts ! rank)"
proof -
  let ?c = "mSubSplitCoordinates q" and ?d = "mShardIndex q"
  from q have d: "0 \<le> ?d" "?d < int (length (t_shape T t))" "\<not> IsReplicate q" by (auto simp: cut_ok_def)
  then obtain m where m: "tensor_size T t ?d = Inr m" "m = t_shape T t ! nat ?d" by (simp add: tensor_size_def)
  show ?thesis
  proof (cases "?c = - 1")
    case True
    with ts q(1) d(3) m(1) obtain sizes where "GetShardSizeForAllRank m (int n) = Inr sizes" "t_split T t sizes ?d = Inr ts"
      by (auto simp: ScatherAxis_def GetShardIndex_def GetSubSplitCoordinates_def bindR_eq_Inr)
    with True d m(1) len show ?thesis by (simp add: ReplicateToShard_def)
  next
    case False
    with q(2) m(2) n have c: "0 < ?c" "?c < m" by (auto simp: cut_ok_def Let_def)
    from False ts q(1) d(3) m(1) c obtain fronts ends where fe:
      "SplitFrontEnd T t ?d ?c m (int n) = Inr (fronts, ends)"
      "mapR (\<lambda>i. t_concat T [fronts ! i, ends ! i] ?d) [0..<length fronts] = Inr ts"
      by (auto simp: ScatherAxis_def GetShardIndex_def GetSubSplitCoordinates_def bindR_eq_Inr)
    from fe(2) len have "length fronts = n" "t_concat T [fronts ! rank, ends ! rank] ?d = Inr (ts ! rank)"
      using r by (auto simp: mapR_eq_Inr)
    with d m(1) c fe(1) r show ?thesis by (simp add: ReplicateToShard_def)
  qed
qed

text \<open>C17: a conversion step of \<open>ConvertKernel\<close> on one mesh axis turns the pieces of a tensor under the source
  placement into its pieces under the destination placement, on the backend for one device; the steps covered are
  shard to shard, shard to replicate, replicate to shard (also with sub-split coordinates), sum to replicate and sum to
  a shard of axis 0.\<close>

theorem ConvertPlacements_correct:
  assumes T: "torch_laws T" and n: "0 < n"
    and src: "ScatherAxis T p t n = Inr inputs" and conv: "convertible p q n (t_shape T t)"
    and diff: "GetDiffDims ps qs = Inr [i]" "Seq_at ps i = Inr p" "Seq_at qs i = Inr q"
    and info: "IsShard p \<Longrightarrow> count_known m ps p n"
    and local: "\<And>k. k < nat n \<Longrightarrow> localShape k = t_shape T (inputs ! k)"
  shows "\<exists>outputs. ConvertPlacements T (same_device T) evenSplit localShape m ps qs inputs = Inr outputs \<and>
    ScatherAxis T q t n = Inr outputs"
proof -
  let ?B = "same_device T" and ?s = "t_shape T t"
  note start = ConvertPlacements_def [of T ?B evenSplit localShape m ps qs inputs, unfolded diff bindR_Inr]
  have cut: "IsShard p \<Longrightarrow> cut_ok p n ?s" "IsShard q \<Longrightarrow> cut_ok q n ?s" using conv by (auto simp: convertible_def)
  have at: "Seq_at ps i = Inr p" by (rule diff(2))
  consider (ss) "IsShard p" "IsShard q" "\<not> HasSubSplitCoordinates p" "\<not> HasSubSplitCoordinates q" "mShardIndex p \<noteq> mShardIndex q"
    | (sr) "IsShard p" "q = Replicate" | (pr) "p = Partial" "q = Replicate"
    | (ps) "p = Partial" "q = Shard 0 (- 1)" "n dvd ?s ! 0" | (rs) "p = Replicate" "IsShard q"
    using conv by (auto simp: convertible_def split: if_splits)
  then show ?thesis
  proof cases
    case ss
    define a b where "a = nat (mShardIndex p)" and "b = nat (mShardIndex q)"
    have ab: "mShardIndex p = int a" "mShardIndex q = int b" "a \<noteq> b"
      using ss cut by (auto simp: a_def b_def cut_ok_def)
    obtain sp ts where p: "ScatherAxis T p t n = Inr ts" "length ts = nat n" "length sp = nat n"
      "GetShardSizeForAllRank (?s ! a) n = Inr sp" "split_ok ?s sp a" "t_split T t sp (int a) = Inr ts"
      "\<And>k. k < nat n \<Longrightarrow> t_shape T (ts ! k) = ?s[a := sp ! k]"
      using ScatherAxis_shard [OF T ss(1) cut(1) [OF ss(1)] ss(3) n ab(1)] by metis
    obtain sq us where q: "ScatherAxis T q t n = Inr us" "length us = nat n" "length sq = nat n"
      "GetShardSizeForAllRank (?s ! b) n = Inr sq" "split_ok ?s sq b" "t_split T t sq (int b) = Inr us"
      using ScatherAxis_shard [OF T ss(2) cut(2) [OF ss(2)] ss(4) n ab(2)] by metis
    from p(1) src have eq: "inputs = ts" by simp
    have "AllToAll T ?B localShape a b inputs = Inr us"
      unfolding eq by (rule same.shard_to_shard [OF T ab(3) n p(4,5,3) q(4,5,3) p(6) q(6) p(2) q(2) p(7)])
        (use local eq in auto)
    with q(1) ss ab show ?thesis by (simp add: start diff(2,3) GetShardIndex_def)
  next
    case sr
    define d where "d = nat (mShardIndex p)"
    have d: "mShardIndex p = int d" using sr cut by (auto simp: d_def cut_ok_def)
    have out: "ScatherAxis T q t n = Inr (replicate (nat n) t)" using sr(2) n by (simp add: ScatherAxis_Replicate)
    show ?thesis
    proof (cases "HasSubSplitCoordinates p")
      case False
      obtain sp ts where ts: "ScatherAxis T p t n = Inr ts" "length ts = nat n" "length sp = nat n"
        "split_ok ?s sp d" "t_concat T ts (int d) = Inr t"
        "\<And>k. k < nat n \<Longrightarrow> t_shape T (ts ! k) = ?s[d := sp ! k]" "\<And>k. k < nat n \<Longrightarrow> t_device T (ts ! k) = t_device T t"
        using ScatherAxis_shard [OF T sr(1) cut(1) [OF sr(1)] False n d] by metis
      from ts(1) src have eq: "inputs = ts" by simp
      have "0 \<le> sp ! k" if "k < nat n" for k using ts(3,4) that by (auto simp: split_ok_def)
      then have fits: "\<forall>u \<in> set ts. fits T ?s (t_device T t) d u"
        using ts(2,4,6,7) by (auto simp: fits_def split_ok_def in_set_conv_nth)
      have ne: "ts \<noteq> []" using ts(2) n by auto
      have "AllGather T ?B ts (int d) = Inr (replicate (nat n) t)"
        using same.shard_to_replicate [OF T ts(5)] ts(2) by simp
      moreover have "AllGatherIntoTensor T ?B evenSplit ts = Inr (replicate (nat n) t)" if "d = 0"
        using same.even_shard_to_replicate [OF T ne _ fits [unfolded that]] ts(4,5) ts(2) that by (auto simp: split_ok_def)
      ultimately show ?thesis using sr False d out unfolding eq by (simp add: start [unfolded eq] diff(2,3) GetShardIndex_def)
    next
      case True
      then have c: "mSubSplitCoordinates p \<noteq> - 1" by (simp add: HasSubSplitCoordinates_def)
      from ScatherAxis_split [OF T sr(1) cut(1) [OF sr(1)] n c at info [OF sr(1), unfolded count_known_def]]
      have g: "GatherShardWithSubSplit T inputs m ps i = Inr t" "length inputs = nat n" using src by (metis Inr_inject)+
      have "mapR (\<lambda>tmp. GatherShardWithSubSplit T tmp m ps i) (replicate k inputs) = Inr (replicate k t)" for k
        using g(1) by (induction k) simp_all
      then show ?thesis using sr True out g(2) same.allgather [of T inputs] by (simp add: start diff(2,3) AllGatherIntoVec_def)
    qed
  next
    case pr
    then have inputs: "inputs = t # replicate (nat n - 1) (t_zeros_like T t)"
      using src by (simp add: ScatherAxis_Partial [OF n])
    then have "length inputs = nat n" using n by (cases "nat n") simp_all
    with same.partial_to_replicate [OF T inputs] pr show ?thesis
      by (simp add: start diff(2,3) ScatherAxis_Replicate [OF n] IsShardAt_def)
  next
    case ps
    then have inputs: "inputs = t # replicate (nat n - 1) (t_zeros_like T t)"
      using src by (simp add: ScatherAxis_Partial [OF n])
    have q: "IsShard q" "\<not> HasSubSplitCoordinates q" "mShardIndex q = int 0"
      using ps by (simp_all add: HasSubSplitCoordinates_def placement_defs)
    obtain sq us where us: "ScatherAxis T q t n = Inr us" "length us = nat n"
      "GetShardSizeForAllRank (?s ! 0) n = Inr sq" "t_split T t sq (int 0) = Inr us"
      using ScatherAxis_shard [OF T q(1) cut(2) [OF q(1)] q(2) n q(3)] by metis
    have s: "0 < length ?s" "n \<le> ?s ! 0" using cut(2) [OF q(1)] q by (auto simp: cut_ok_def HasSubSplitCoordinates_def)
    from same.partial_to_shard [OF T n inputs s ps(3) us(4,3,2)] us(1) ps show ?thesis
      by (auto simp: start diff(2,3) IsShardAt_def placement_defs)
  next
    case rs
    then have inputs: "inputs = replicate (nat n) t" using src by (simp add: ScatherAxis_Replicate [OF n])
    obtain us where us: "ScatherAxis T q t n = Inr us" "length us = nat n"
    proof (cases "HasSubSplitCoordinates q")
      case True
      then have c: "mSubSplitCoordinates q \<noteq> - 1" by (simp add: HasSubSplitCoordinates_def)
      let ?m = "DeviceMesh_of_SimpleArray kGpu \<lparr>mShape = [n], mDimensionNamesMap = [], mData = [], mDataSet = {}\<rparr>"
      have "axes_ok [q] (Mesh_Shape ?m) ?s"
        using n cut(2) [OF rs(2)] by (simp add: DeviceMesh_of_SimpleArray_def)
      from axes_ok_count [OF this, of 0] rs(2) have "count_known ?m [q] q n" by (simp add: DeviceMesh_of_SimpleArray_def)
      from ScatherAxis_split [OF T rs(2) cut(2) [OF rs(2)] n c _ this [unfolded count_known_def], of 0] that
      show thesis by auto
    next
      case False
      define d where "d = nat (mShardIndex q)"
      then have "mShardIndex q = int d" using rs cut by (auto simp: cut_ok_def)
      from ScatherAxis_shard [OF T rs(2) cut(2) [OF rs(2)] False n this] that show thesis by metis
    qed
    have "mapR (\<lambda>rank. ReplicateToShard T (nat n) rank (inputs ! rank) (mShardIndex q) (mSubSplitCoordinates q)) [0..<nat n] = Inr us"
      using ReplicateToShard_eq [OF T rs(2), of "nat n" t _ us] cut(2) [OF rs(2)] n us
      by (simp add: mapR_eq_Inr inputs)
    with rs us show ?thesis
      unfolding inputs by (simp add: start [unfolded inputs] diff(2,3) GetShardIndex_def GetSubSplitCoordinates_def)
  qed
qed

theorem ConvertPlacements_correct_witness:
  "\<exists>inputs outputs. ScatherAxis array_ops (Shard 0 (- 1)) sample_tensor 2 = Inr inputs \<and>
    ConvertPlacements array_ops (same_device array_ops) True (\<lambda>k. t_shape array_ops (inputs ! k)) gpu_grid
      [Shard 0 (- 1), Replicate] [Shard 1 (- 1), Replicate] inputs = Inr outputs \<and>
    ScatherAxis array_ops (Shard 1 (- 1)) sample_tensor 2 = Inr outputs"
proof -
  let ?p = "Shard 0 (- 1)" and ?q = "Shard 1 (- 1)"
  have conv: "convertible ?p ?q 2 (t_shape array_ops sample_tensor)"
    by (simp add: convertible_def cut_ok_def sample_tensor_shape HasSubSplitCoordinates_def placement_defs)
  have ok: "IsShard ?p" "cut_ok ?p 2 (t_shape array_ops sample_tensor)" "\<not> HasSubSplitCoordinates ?p" "mShardIndex ?p = int 0"
    by (simp_all add: cut_ok_def sample_tensor_shape HasSubSplitCoordinates_def placement_defs)
  obtain inputs where i: "ScatherAxis array_ops ?p sample_tensor 2 = Inr inputs"
    using ScatherAxis_shard [OF array_laws ok(1-3) _ ok(4)] zero_less_numeral by metis
  have d: "GetDiffDims [?p, Replicate] [?q, Replicate] = Inr [0]"
    by (simp add: GetDiffDims_def placement_defs numeral_2_eq_2)
  have "axes_ok [?p, Replicate] (Mesh_Shape gpu_grid) (t_shape array_ops sample_tensor)"
    using ok by (simp add: IsShardAt_def placement_defs)
  from axes_ok_count [OF this, of 0] ok(1) have "count_known gpu_grid [?p, Replicate] ?p 2" by simp
  from ConvertPlacements_correct [OF array_laws _ i conv d _ _ this, of "\<lambda>k. t_shape array_ops (inputs ! k)" True] i
  show ?thesis by simp
qed

text \<open>
  A sum scattered over axis 0 loses the sub-split coordinate of the destination: \<open>IsShard(0)\<close> does not look at it, and the
  chunks are the plain ones.
\<close>

lemma Partial_to_SubSplit_ignored:
  "ConvertPlacements T B evenSplit localShape m [Partial] [Shard 0 c] inputs =
   ConvertPlacements T B evenSplit localShape m [Partial] [Shard 0 (- 1)] inputs"
  by (simp add: ConvertPlacements_def GetDiffDims_def placement_defs IsShardAt_def)

text \<open>The in-place sum changes the input tensor of rank 0.\<close>

lemma reduce_scatter_overwrites_input:
  assumes "SumOfRanks T inputs = Inr s" and "t_chunk T s (int (length inputs)) 0 = Inr parts" and "length parts = length inputs"
  shows "SameDevice_reduce_scatter_base T inputs = Inr (inputs[0 := s], parts)"
  using assms map_nth [of parts] by (simp add: SameDevice_reduce_scatter_base_def)

section \<open>The group of a device\<close>

text \<open>
  \<open>ThreadGroupInfo\<close>: the mesh as three axes, before, at and after \<open>dim\<close>; the group is the line through the
  device along the middle axis.
\<close>

definition GroupLine :: "int list \<Rightarrow> shape \<Rightarrow> nat \<Rightarrow> nat \<Rightarrow> int list res" where
  "GroupLine arrayData shape leftIdx rightIdx =
     mapR (\<lambda>midIdx. bindR (ComputeIndex (Stride_of_Shape shape) [int leftIdx, int midIdx, int rightIdx]) (\<lambda>idx.
         assertR (idx < int (length arrayData)) (Inr (arrayData ! nat idx)))) [0..<nat (shape ! 1)]"

definition ThreadGroupInfo_new :: "SimpleArray \<Rightarrow> nat \<Rightarrow> int \<Rightarrow> (nat \<times> int list) res" where
  "ThreadGroupInfo_new array dim devId = (let shape = mShape array in
     assertR (dim < NumAxis shape)
      (if NumAxis shape = 1 then Inr (0, mData array)
       else
         let leftSize = foldl (\<lambda>r i. r * shape ! i) 1 [0..<dim];
             rightSize = foldl (\<lambda>r i. r * shape ! i) 1 [Suc dim..<NumAxis shape];
             shape = [leftSize, shape ! dim, rightSize]
         in assertR (leftSize + rightSize \<ge> 2)
          (bindR (foldR (\<lambda>(leftIdx, rightIdx) found. case found of
               Some x \<Rightarrow> Inr found
             | None \<Rightarrow> bindR (GroupLine (mData array) shape leftIdx rightIdx) (\<lambda>line.
                 Inr (if devId \<in> set line then Some (leftIdx * nat rightSize + rightIdx, line) else None)))
             (List.product [0..<nat leftSize] [0..<nat rightSize]) None)
           (\<lambda>found. case found of Some x \<Rightarrow> Inr x | None \<Rightarrow> Inl Abort))))"









text \<open>
  The example in the comment of thread_group_manager.h says that the groups of dimension 0 are the rows; they are the
  columns.
\<close>

lemma ThreadGroupInfo_columns:
  "ThreadGroupInfo_new \<lparr>mShape = [2, 4], mDimensionNamesMap = [], mData = [0, 1, 2, 3, 4, 5, 6, 7],
     mDataSet = {0, 1, 2, 3, 4, 5, 6, 7}\<rparr> 0 5 = Inr (1, [1, 5])"
  by code_simp

end
