(* ===== verification/Conversions.thy ===== *)
theory Conversions
  imports Collectives
begin

text \<open>
  From a request to move a tensor to the kernels that do it: \<open>ConvertOpImpl\<close>
  (src/dtorch/api/cpp/functional/implement/convert_op_impl.{h,cc}) turns a request into a sequence of convert
  operators, \<open>ConvertKernel::Compute\<close> (convert_kernel.cc) chooses what each of them does.  The operators are
  collected in a list; adding them to the graph is the matter of \<open>GraphExecution\<close>.
\<close>

section \<open>The plan\<close>

record ConvertParam =
  pDataKind :: DataKind
  pDeviceMesh :: DeviceMesh
  pPlacementSeq :: placement_seq

record ConvertOpImpl =
  mInputShape :: shape
  mSrc :: ConvertParam
  mDest :: ConvertParam
  mInputIsDistributed :: bool
  mOutputIsDistributed :: bool
  mConvertDataKind :: bool
  mConvertDeviceMesh :: bool
  mConvertPlacement :: bool

text \<open>
  The constructor compares the source placements with the destination placements before the latter are set: the member
  is still the empty sequence.
\<close>

definition ConvertOpImpl_new :: "shape \<Rightarrow> ConvertParam \<Rightarrow> DataKind option \<Rightarrow> DeviceMesh option \<Rightarrow>
    placement_seq option \<Rightarrow> ConvertOpImpl res" where
  "ConvertOpImpl_new inputShape src dataKind deviceMesh placements =
     (let destDataKind = (case dataKind of Some k \<Rightarrow> k | None \<Rightarrow> pDataKind src);
          destDeviceMesh = (case deviceMesh of Some m \<Rightarrow> m | None \<Rightarrow> pDeviceMesh src)
      in bindR (DeviceMesh_eq (pDeviceMesh src) destDeviceMesh) (\<lambda>sameMesh.
        let st = \<lparr>mInputShape = inputShape, mSrc = src,
           mDest = \<lparr>pDataKind = destDataKind, pDeviceMesh = destDeviceMesh, pPlacementSeq = []\<rparr>,
           mInputIsDistributed = Mesh_IsDistributed (pDeviceMesh src), mOutputIsDistributed = Mesh_IsDistributed destDeviceMesh,
           mConvertDataKind = (pDataKind src \<noteq> destDataKind), mConvertDeviceMesh = (\<not> sameMesh),
           mConvertPlacement = (\<not> PlacementSeq_eq (pPlacementSeq src) [])\<rparr>
        in Inr (st\<lparr>mDest := (mDest st)\<lparr>pPlacementSeq := (case placements of
             Some ps \<Rightarrow> ps
           | None \<Rightarrow> (case deviceMesh of
                Some m \<Rightarrow> replicate (Mesh_NumAxis m) Replicate
              | None \<Rightarrow> pPlacementSeq src))\<rparr>\<rparr>)))"

definition AddIntoGraphConstructor :: "int \<Rightarrow> ConvertOpImpl \<Rightarrow> ConvertParam \<Rightarrow> ConvertParam list \<Rightarrow> ConvertParam list res" where
  "AddIntoGraphConstructor totalGpuCount st param ops =
     (if \<not> mConvertDataKind st \<and> \<not> mConvertDeviceMesh st \<and> \<not> mConvertPlacement st then Inr ops
      else bindR (CheckValid (mInputShape st) (pDeviceMesh param) (pPlacementSeq param) totalGpuCount)
       (\<lambda>valid. requireR valid (Inr (ops @ [param]))))"

definition ConvertPlacementsOneByOne :: "int \<Rightarrow> ConvertOpImpl \<Rightarrow> (ConvertOpImpl \<times> ConvertParam list) res" where
  "ConvertPlacementsOneByOne totalGpuCount st =
     (if \<not> mConvertPlacement st \<or> \<not> mInputIsDistributed st \<or> \<not> mOutputIsDistributed st then Inr (st, [])
      else
        let src = pPlacementSeq (mSrc st); dest = pPlacementSeq (mDest st) in
        assertR (length src = length dest)
         (bindR (GetConvertOrder src dest) (\<lambda>convertOrder.
          bindR (foldR (\<lambda>diffDim (convertPlacement, ops).
              let convertPlacement = convertPlacement[diffDim := dest ! diffDim] in
              bindR (AddIntoGraphConstructor totalGpuCount st ((mSrc st)\<lparr>pPlacementSeq := convertPlacement\<rparr>) ops)
               (\<lambda>ops. Inr (convertPlacement, ops))) convertOrder (src, [])) (\<lambda>(_, ops).
            Inr (st\<lparr>mSrc := (mSrc st)\<lparr>pPlacementSeq := dest\<rparr>, mConvertPlacement := False\<rparr>, ops)))))"

definition ConvertOpImpl_RunFunc :: "int \<Rightarrow> ConvertOpImpl \<Rightarrow> ConvertParam list res" where
  "ConvertOpImpl_RunFunc totalGpuCount st =
     requireR (\<not> (mInputIsDistributed st \<and> mOutputIsDistributed st \<and>
         Mesh_NumAxis (pDeviceMesh (mSrc st)) \<noteq> Mesh_NumAxis (pDeviceMesh (mDest st))))
      (bindR (ToReplicateWhenDimSizeEqualOne (pPlacementSeq (mDest st)) (pDeviceMesh (mDest st))) (\<lambda>ps.
       let st = st\<lparr>mDest := (mDest st)\<lparr>pPlacementSeq := ShardDimToPositiveNumber ps (mInputShape st)\<rparr>\<rparr> in
       bindR (ConvertPlacementsOneByOne totalGpuCount st) (\<lambda>(st, ops).
         AddIntoGraphConstructor totalGpuCount st (mDest st) ops)))"

section \<open>What a convert kernel does\<close>

datatype conversion = PassThrough | ScatherTensor | GatherTensor | ToDeviceAndDataKind | ToPlacements | ToDeviceMesh

definition ConvertKernel_Compute :: "ConvertParam \<Rightarrow> ConvertParam \<Rightarrow> nat \<Rightarrow> conversion res" where
  "ConvertKernel_Compute src dest numKernelForThisOp =
     (let inputIsDistributed = Mesh_IsDistributed (pDeviceMesh src);
          outputIsDistributed = Mesh_IsDistributed (pDeviceMesh dest);
          convertDataKind = (pDataKind dest \<noteq> pDataKind src);
          convertPlacement = (\<not> PlacementSeq_eq (pPlacementSeq dest) (pPlacementSeq src))
      in bindR (DeviceMesh_eq (pDeviceMesh dest) (pDeviceMesh src)) (\<lambda>sameMesh.
       if \<not> inputIsDistributed \<and> \<not> outputIsDistributed \<and> \<not> convertDataKind \<and> numKernelForThisOp = 1 then Inr PassThrough
       else if \<not> inputIsDistributed \<and> outputIsDistributed \<and> \<not> convertDataKind then Inr ScatherTensor
       else if inputIsDistributed \<and> \<not> outputIsDistributed \<and> \<not> convertDataKind then Inr GatherTensor
       else if \<not> inputIsDistributed \<and> \<not> outputIsDistributed then Inr ToDeviceAndDataKind
       else if inputIsDistributed \<and> convertDataKind \<and> sameMesh \<and> \<not> convertPlacement then Inr ToDeviceAndDataKind
       else if inputIsDistributed \<and> outputIsDistributed \<and> sameMesh \<and> convertPlacement \<and> \<not> convertDataKind then Inr ToPlacements
       else if inputIsDistributed \<and> outputIsDistributed \<and> \<not> sameMesh \<and> \<not> convertPlacement \<and> \<not> convertDataKind
         then Inr ToDeviceMesh
       else Inl Abort))"

text \<open>Every convert operator of a plan as the pair of its input and output layout.\<close>

definition plan_steps :: "ConvertParam \<Rightarrow> ConvertParam list \<Rightarrow> (ConvertParam \<times> ConvertParam) list" where
  "plan_steps src ops = zip (src # ops) ops"

lemma DeviceMesh_eq_refl: "DeviceMesh_eq m m = Inr True"
  by (simp add: DeviceMesh_eq_def SimpleArray_eq_refl)

text \<open>The loop over the axes to convert.\<close>

lemma ConvertPlacements_fold:
  assumes "mConvertPlacement st"
    and "foldR (\<lambda>diffDim (convertPlacement, ops).
        let convertPlacement = convertPlacement[diffDim := dest ! diffDim] in
        bindR (AddIntoGraphConstructor totalGpuCount st ((mSrc st)\<lparr>pPlacementSeq := convertPlacement\<rparr>) ops)
         (\<lambda>ops. Inr (convertPlacement, ops))) order (src, []) = Inr (cur, ops)"
  shows "cur = convert_steps src dest order \<and>
    ops = map (\<lambda>k. (mSrc st)\<lparr>pPlacementSeq := convert_steps src dest (take (Suc k) order)\<rparr>) [0..<length order] \<and>
    (\<forall>op \<in> set ops. CheckValid (mInputShape st) (pDeviceMesh (mSrc st)) (pPlacementSeq op) totalGpuCount = Inr True)"
  using assms(2)
proof (induction order arbitrary: cur ops rule: rev_induct)
  case Nil
  then show ?case by (simp add: convert_steps_def)
next
  case (snoc i order)
  let ?step = "\<lambda>diffDim (convertPlacement, ops).
        let convertPlacement = convertPlacement[diffDim := dest ! diffDim] in
        bindR (AddIntoGraphConstructor totalGpuCount st ((mSrc st)\<lparr>pPlacementSeq := convertPlacement\<rparr>) ops)
         (\<lambda>ops. Inr (convertPlacement, ops))"
  from snoc.prems obtain cur1 ops1 where one: "foldR ?step order (src, []) = Inr (cur1, ops1)"
    and two: "?step i (cur1, ops1) = Inr (cur, ops)"
    by (auto simp: foldR_append bindR_eq_Inr)
  from snoc.IH [OF one] have ih: "cur1 = convert_steps src dest order"
    "ops1 = map (\<lambda>k. (mSrc st)\<lparr>pPlacementSeq := convert_steps src dest (take (Suc k) order)\<rparr>) [0..<length order]"
    "\<forall>op \<in> set ops1. CheckValid (mInputShape st) (pDeviceMesh (mSrc st)) (pPlacementSeq op) totalGpuCount = Inr True"
    by blast+
  have cur: "cur1[i := dest ! i] = convert_steps src dest (order @ [i])" by (simp add: ih(1) convert_steps_def)
  from two assms(1) have "cur = convert_steps src dest (order @ [i])"
    "ops = ops1 @ [(mSrc st)\<lparr>pPlacementSeq := convert_steps src dest (order @ [i])\<rparr>]"
    "CheckValid (mInputShape st) (pDeviceMesh (mSrc st)) (convert_steps src dest (order @ [i])) totalGpuCount = Inr True"
    unfolding cur [symmetric]
    by (auto simp: AddIntoGraphConstructor_def Let_def bindR_eq_Inr guardR_eq_Inr)
  with ih(2,3) show ?case by auto
qed

lemma convert_step_differs:
  assumes "length ps = length qs" and "distinct order" and "set order = {i. i < length ps \<and> differs ps qs i}"
    and "k < length order"
  shows "GetDiffDims (convert_steps ps qs (take k order)) (convert_steps ps qs (take (Suc k) order)) = Inr [order ! k]"
proof -
  let ?a = "convert_steps ps qs (take k order)" and ?b = "convert_steps ps qs (take (Suc k) order)" and ?i = "order ! k"
  have take: "take (Suc k) order = take k order @ [?i]" using assms(4) by (simp add: take_Suc_conv_app_nth)
  have b: "?b = ?a[?i := qs ! ?i]" by (simp add: take convert_steps_def)
  have i: "?i < length ps" "ps ! ?i \<noteq> qs ! ?i" using assms(3,4) nth_mem [of k order] by (auto simp: differs_def)
  have "?i \<notin> set (take k order)"
    using assms(2,4) by (metis distinct_append distinct_take not_distinct_conv_prefix take)
  then have "?a ! ?i = ps ! ?i" using i(1) by (simp add: nth_convert_steps)
  then have d: "differs ?a ?b j \<longleftrightarrow> j = ?i" if "j < length ps" for j
    using i that by (auto simp: b differs_def nth_list_update)
  have "filter (differs ?a ?b) [0..<length ps] = filter (\<lambda>j. j = ?i) [0..<length ps]"
    by (rule filter_cong) (use d in auto)
  also have "\<dots> = [?i]" using i(1) by (simp add: upt_split3 [of ?i] filter_empty_conv)
  finally show ?thesis by (subst GetDiffDims_eq) simp_all
qed

text \<open>C19: a redistribution of a distributed tensor on its own mesh that is accepted is a chain of valid layouts from the
  present to the normalised wanted placements; each step changes one mesh axis and is handled by
  \<open>ConvertPlacements\<close> of the kernel, and no operator is added when nothing changes.\<close>

theorem Redistribute_plan:
  assumes dist: "Mesh_IsDistributed (pDeviceMesh src)" and len: "length (pPlacementSeq src) = Mesh_NumAxis (pDeviceMesh src)"
    and wf: "list_all Placement_wf (pPlacementSeq src)" and ne: "pPlacementSeq src \<noteq> []"
    and new: "ConvertOpImpl_new shape src None None (Some wanted) = Inr st"
    and run: "ConvertOpImpl_RunFunc totalGpuCount st = Inr ops"
  shows "\<exists>ps dest. ToReplicateWhenDimSizeEqualOne wanted (pDeviceMesh src) = Inr ps \<and> dest = ShardDimToPositiveNumber ps shape \<and>
    pPlacementSeq (last (src # ops)) = dest \<and> (ops = [] \<longleftrightarrow> dest = pPlacementSeq src) \<and>
    (\<forall>(a, b) \<in> set (plan_steps src ops). CheckValid shape (pDeviceMesh src) (pPlacementSeq b) totalGpuCount = Inr True \<and>
       (\<exists>i. GetDiffDims (pPlacementSeq a) (pPlacementSeq b) = Inr [i]) \<and> ConvertKernel_Compute a b n = Inr ToPlacements)"
proof -
  let ?m = "pDeviceMesh src" and ?src = "pPlacementSeq src"
  from new have st: "st = \<lparr>mInputShape = shape, mSrc = src, mDest = src\<lparr>pPlacementSeq := wanted\<rparr>,
      mInputIsDistributed = True, mOutputIsDistributed = True, mConvertDataKind = False, mConvertDeviceMesh = False,
      mConvertPlacement = True\<rparr>"
    using dist ne by (cases src) (simp add: ConvertOpImpl_new_def DeviceMesh_eq_refl)
  from run obtain ps where ps: "ToReplicateWhenDimSizeEqualOne wanted ?m = Inr ps"
    by (auto simp: ConvertOpImpl_RunFunc_def st bindR_eq_Inr)
  define dest where "dest = ShardDimToPositiveNumber ps shape"
  let ?st = "st\<lparr>mDest := src\<lparr>pPlacementSeq := dest\<rparr>\<rparr>"
  from run ps obtain st' ops' where one: "ConvertPlacementsOneByOne totalGpuCount ?st = Inr (st', ops')"
    and last: "AddIntoGraphConstructor totalGpuCount st' (mDest st') ops' = Inr ops"
    by (auto simp: ConvertOpImpl_RunFunc_def st dest_def bindR_eq_Inr)
  from one obtain order cur where lens: "length ?src = length dest" and order: "GetConvertOrder ?src dest = Inr order"
    and fold: "foldR (\<lambda>diffDim (convertPlacement, ops).
        let convertPlacement = convertPlacement[diffDim := dest ! diffDim] in
        bindR (AddIntoGraphConstructor totalGpuCount ?st ((mSrc ?st)\<lparr>pPlacementSeq := convertPlacement\<rparr>) ops)
         (\<lambda>ops. Inr (convertPlacement, ops))) order (?src, []) = Inr (cur, ops')"
    and st': "mConvertPlacement st' = False" "mConvertDataKind st' = False" "mConvertDeviceMesh st' = False"
    by (auto simp: ConvertPlacementsOneByOne_def st Let_def bindR_eq_Inr guardR_eq_Inr)
  from last st' have ops: "ops = ops'" by (simp add: AddIntoGraphConstructor_def)
  from ConvertPlacements_fold [OF _ fold] have steps:
    "ops = map (\<lambda>k. src\<lparr>pPlacementSeq := convert_steps ?src dest (take (Suc k) order)\<rparr>) [0..<length order]"
    and valid: "\<forall>op \<in> set ops. CheckValid shape ?m (pPlacementSeq op) totalGpuCount = Inr True"
    by (auto simp: st ops)
  from GetConvertOrder_eq [OF lens] order have o: "order = filter (\<lambda>i. differs ?src dest i \<and> \<not> gathers ?src dest i) [0..<length ?src] @
      rev (filter (gathers ?src dest) [0..<length ?src])" by simp
  have o_set: "set order = {i. i < length ?src \<and> differs ?src dest i}" and o_dist: "distinct order"
    using gathers_differs [OF wf] unfolding o by auto
  have final: "convert_steps ?src dest order = dest"
    using lens o_set by (intro nth_equalityI) (auto simp: nth_convert_steps differs_def)
  have empty: "order = [] \<longleftrightarrow> dest = ?src"
  proof
    show "dest = ?src" if "order = []" using final that by (simp add: convert_steps_def)
    assume "dest = ?src"
    then have "set order = {}" unfolding o_set by (simp add: differs_def)
    then show "order = []" by simp
  qed
  have "pPlacementSeq (last (src # ops)) = dest"
    using final empty by (cases "order = []") (auto simp: steps last_map)
  moreover have "CheckValid shape ?m (pPlacementSeq b) totalGpuCount = Inr True \<and>
       (\<exists>i. GetDiffDims (pPlacementSeq a) (pPlacementSeq b) = Inr [i]) \<and> ConvertKernel_Compute a b n = Inr ToPlacements"
    if ab: "(a, b) \<in> set (plan_steps src ops)" for a b
  proof -
    from ab obtain k where k: "k < length order" "a = (src # ops) ! k" "b = ops ! k"
      by (auto simp: plan_steps_def steps in_set_conv_nth)
    have a: "a = src\<lparr>pPlacementSeq := convert_steps ?src dest (take k order)\<rparr>"
      using k by (cases k) (simp_all add: steps convert_steps_def)
    have b: "b = src\<lparr>pPlacementSeq := convert_steps ?src dest (take (Suc k) order)\<rparr>" using k by (simp add: steps)
    have diff: "GetDiffDims (pPlacementSeq a) (pPlacementSeq b) = Inr [order ! k]"
      using convert_step_differs [OF lens o_dist o_set k(1)] by (simp add: a b)
    then have "pPlacementSeq a \<noteq> pPlacementSeq b" by (auto simp: GetDiffDims_eq differs_def)
    then have "ConvertKernel_Compute a b n = Inr ToPlacements"
      using dist by (auto simp: ConvertKernel_Compute_def a b DeviceMesh_eq_refl)
    moreover have "b \<in> set ops" using k by (simp add: steps)
    ultimately show ?thesis using valid diff by blast
  qed
  moreover have "ops = [] \<longleftrightarrow> dest = ?src" using empty by (simp add: steps)
  ultimately show ?thesis using ps dest_def by blast
qed

definition sample_source :: ConvertParam where
  "sample_source = \<lparr>pDataKind = kFloat32, pDeviceMesh = gpu_grid, pPlacementSeq = [Shard 0 (- 1), Replicate]\<rparr>"

lemma sample_run:
  "bindR (ConvertOpImpl_new [8, 5] sample_source None None (Some [Replicate, Shard (- 1) (- 1)])) (ConvertOpImpl_RunFunc 8) =
   Inr [sample_source\<lparr>pPlacementSeq := [Shard 0 (- 1), Shard 1 (- 1)]\<rparr>,
     sample_source\<lparr>pPlacementSeq := [Replicate, Shard 1 (- 1)]\<rparr>]"
  by code_simp

theorem Redistribute_plan_witness:
  "\<exists>st ops. ConvertOpImpl_new [8, 5] sample_source None None (Some [Replicate, Shard (- 1) (- 1)]) = Inr st \<and>
    ConvertOpImpl_RunFunc 8 st = Inr ops \<and> pPlacementSeq (last (sample_source # ops)) = [Replicate, Shard 1 (- 1)] \<and> ops \<noteq> []"
proof -
  from sample_run obtain st ops where st: "ConvertOpImpl_new [8, 5] sample_source None None (Some [Replicate, Shard (- 1) (- 1)]) = Inr st"
    "ConvertOpImpl_RunFunc 8 st = Inr ops" by (auto simp: bindR_eq_Inr)
  have "Mesh_IsDistributed (pDeviceMesh sample_source)" "list_all Placement_wf (pPlacementSeq sample_source)"
    "length (pPlacementSeq sample_source) = Mesh_NumAxis (pDeviceMesh sample_source)" "pPlacementSeq sample_source \<noteq> []"
    by (simp_all add: sample_source_def Mesh_IsDistributed_def Mesh_Count_def)
  from Redistribute_plan [OF this(1,3,2,4) st, where n = 4]
  obtain ps dest where r: "ToReplicateWhenDimSizeEqualOne [Replicate, Shard (- 1) (- 1)] (pDeviceMesh sample_source) = Inr ps"
    "dest = ShardDimToPositiveNumber ps [8, 5]" "pPlacementSeq (last (sample_source # ops)) = dest"
    "ops = [] \<longleftrightarrow> dest = pPlacementSeq sample_source"
    by (elim exE conjE)
  moreover have "ToReplicateWhenDimSizeEqualOne [Replicate, Shard (- 1) (- 1)] (pDeviceMesh sample_source) = Inr [Replicate, Shard (- 1) (- 1)]"
    by code_simp
  ultimately show ?thesis using st
    by (intro exI [of _ st] exI [of _ ops])
      (auto simp: ShardDimToPositiveNumber_def sample_source_def placement_defs)
qed

section \<open>What goes wrong\<close>

text \<open>
  Because the flag for the placements is computed against the empty sequence, a request that changes nothing on a tensor of one
  device still adds a convert operator.
\<close>

lemma Convert_nothing_adds_operator:
  "bindR (DeviceMesh_of_vec kGpu [0] []) (\<lambda>m. let src = \<lparr>pDataKind = kFloat32, pDeviceMesh = m, pPlacementSeq = [Replicate]\<rparr> in
     bindR (ConvertOpImpl_new [8, 5] src None None None) (\<lambda>st. bindR (ConvertOpImpl_RunFunc 8 st) (\<lambda>ops. Inr (length ops)))) = Inr 1"
  by code_simp

text \<open>A change of data kind together with a change of mesh reaches a kernel that has no case for it.\<close>

lemma Convert_kind_and_mesh_aborts:
  assumes "Mesh_IsDistributed m" and "Mesh_IsDistributed m'" and "DeviceMesh_eq m' m = Inr False" and "k \<noteq> k'"
  shows "ConvertKernel_Compute \<lparr>pDataKind = k, pDeviceMesh = m, pPlacementSeq = ps\<rparr>
    \<lparr>pDataKind = k', pDeviceMesh = m', pPlacementSeq = qs\<rparr> n = Inl Abort"
  using assms by (simp add: ConvertKernel_Compute_def)

text \<open>
  One-dimensional tensors as lists.  Going from \<open>[Replicate, Shard 0]\<close> to \<open>[Shard 0, Shard 0]\<close> cuts the pieces of the second
  mesh axis once more along the first, so the device at \<open>(i, j)\<close> ends up with the piece \<open>2 * j + i\<close> instead of
  \<open>2 * i + j\<close>, and gathering the result gives a permuted tensor.
\<close>

definition list_ops :: "int list torch_ops" where
  "list_ops = \<lparr>t_shape = (\<lambda>t. [int (length t)]), t_device = (\<lambda>_. mk_Device kCpu 0),
     t_split = (\<lambda>t sizes dim. Inr (fst (foldl (\<lambda>(parts, rest) n. (parts @ [take (nat n) rest], drop (nat n) rest)) ([], t) sizes))),
     t_concat = (\<lambda>ts dim. Inr (concat ts)), t_chunk = (\<lambda>t n dim. Inl RuntimeError),
     t_zeros_like = map (\<lambda>_. 0), t_add = (\<lambda>t u. Inr (map2 (+) t u)),
     i_select = (\<lambda>(s, data) i. (tl s, take (nat (prod_list (tl s))) (drop (i * nat (prod_list (tl s))) data))),
     i_permute = (\<lambda>t dims. t), i_reshape = (\<lambda>(s, data) s'. (s', data))\<rparr>"

lemma same_axis_conversion_permutes:
  "bindR (DistributedScather_new list_ops gpu_grid [Replicate, Shard 0 (- 1)] [10, 11, 12, 13]) (\<lambda>pieces.
   bindR (ConvertPlacements list_ops (same_device list_ops) True (\<lambda>_. [2]) gpu_grid [Replicate, Shard 0 (- 1)]
     [Shard 0 (- 1), Shard 0 (- 1)] [the (pieces 4), the (pieces 6)]) (\<lambda>left.
   bindR (ConvertPlacements list_ops (same_device list_ops) True (\<lambda>_. [2]) gpu_grid [Replicate, Shard 0 (- 1)]
     [Shard 0 (- 1), Shard 0 (- 1)] [the (pieces 5), the (pieces 7)]) (\<lambda>right.
   DistributeGather_Get list_ops gpu_grid [Shard 0 (- 1), Shard 0 (- 1)]
     [(4, left ! 0), (5, right ! 0), (6, left ! 1), (7, right ! 1)]))) = Inr [10, 12, 11, 13]"
  by code_simp

end
