(* ===== verification/Monitors.thy ===== *)
theory Monitors
  imports Prelude
begin

text \<open>
  Threads that share a state guarded by one mutex and one condition variable, the way the tensor stores
  and the promises of src/dtorch/core/communication/ use \<open>std::mutex\<close> and \<open>std::condition_variable\<close>.  An operation
  is one critical section: it completes, with or without a later \<open>notify_all\<close>, or it waits, or it fails.  The
  notification comes after the mutex is released and is a step of its own; a waiting thread that has been woken
  evaluates its predicate under the mutex and goes on, sleeps again, or fails.  A program is a list of operations, each of which may depend on the
  results of the ones before it.
\<close>

section \<open>Steps\<close>

datatype ('s, 'r, 'w) outcome =
    Done 's 'r bool
  | Sleep 's 'w
  | Fail err

datatype ('op, 'r, 'w) thread =
    Run "('r list \<Rightarrow> 'op) list" "'r list"
  | Notifying "('r list \<Rightarrow> 'op) list" "'r list"
  | Asleep 'w "('r list \<Rightarrow> 'op) list" "'r list"
  | Woken 'w "('r list \<Rightarrow> 'op) list" "'r list"
  | Crashed err "'r list"

fun wake_up :: "('op, 'r, 'w) thread \<Rightarrow> ('op, 'r, 'w) thread" where
  "wake_up (Asleep w ps log) = Woken w ps log"
| "wake_up th = th"

text \<open>The results a thread has so far, and what is left of its program.\<close>

fun results :: "('op, 'r, 'w) thread \<Rightarrow> 'r list" where
  "results (Run ps log) = log"
| "results (Notifying ps log) = log"
| "results (Asleep w ps log) = log"
| "results (Woken w ps log) = log"
| "results (Crashed e log) = log"

definition finished :: "('op, 'r, 'w) thread \<Rightarrow> bool" where
  "finished th \<longleftrightarrow> (\<exists>log. th = Run [] log)"

text \<open>With \<open>spurious\<close> a sleeping thread may also wake on its own, as C++ allows.\<close>

inductive mstep :: "bool \<Rightarrow> ('op \<Rightarrow> 's \<Rightarrow> ('s, 'r, 'w) outcome) \<Rightarrow> ('w \<Rightarrow> 's \<Rightarrow> 'r option res) \<Rightarrow>
    's \<times> ('op, 'r, 'w) thread list \<Rightarrow> 's \<times> ('op, 'r, 'w) thread list \<Rightarrow> bool"
  for spurious enter recheck where
  enter_done: "i < length ths \<Longrightarrow> ths ! i = Run (p # ps) log \<Longrightarrow> enter (p log) s = Done s' r notify \<Longrightarrow>
    mstep spurious enter recheck (s, ths) (s', ths[i := if notify then Notifying ps (log @ [r]) else Run ps (log @ [r])])"
| enter_sleep: "i < length ths \<Longrightarrow> ths ! i = Run (p # ps) log \<Longrightarrow> enter (p log) s = Sleep s' w \<Longrightarrow>
    mstep spurious enter recheck (s, ths) (s', ths[i := Asleep w ps log])"
| enter_fail: "i < length ths \<Longrightarrow> ths ! i = Run (p # ps) log \<Longrightarrow> enter (p log) s = Fail e \<Longrightarrow>
    mstep spurious enter recheck (s, ths) (s, ths[i := Crashed e log])"
| notify: "i < length ths \<Longrightarrow> ths ! i = Notifying ps log \<Longrightarrow>
    mstep spurious enter recheck (s, ths) (s, (map wake_up ths)[i := Run ps log])"
| resume: "i < length ths \<Longrightarrow> ths ! i = Woken w ps log \<Longrightarrow> recheck w s = Inr (Some r) \<Longrightarrow>
    mstep spurious enter recheck (s, ths) (s, ths[i := Run ps (log @ [r])])"
| resume_fail: "i < length ths \<Longrightarrow> ths ! i = Woken w ps log \<Longrightarrow> recheck w s = Inl e \<Longrightarrow>
    mstep spurious enter recheck (s, ths) (s, ths[i := Crashed e log])"
| sleep_again: "i < length ths \<Longrightarrow> ths ! i = Woken w ps log \<Longrightarrow> recheck w s = Inr None \<Longrightarrow>
    mstep spurious enter recheck (s, ths) (s, ths[i := Asleep w ps log])"
| wake_spurious: "i < length ths \<Longrightarrow> ths ! i = Asleep w ps log \<Longrightarrow> spurious \<Longrightarrow>
    mstep spurious enter recheck (s, ths) (s, ths[i := Woken w ps log])"

inductive_cases mstepE: "mstep spurious enter recheck (s, ths) x"

abbreviation mreach :: "bool \<Rightarrow> ('op \<Rightarrow> 's \<Rightarrow> ('s, 'r, 'w) outcome) \<Rightarrow> ('w \<Rightarrow> 's \<Rightarrow> 'r option res) \<Rightarrow>
    's \<times> ('op, 'r, 'w) thread list \<Rightarrow> 's \<times> ('op, 'r, 'w) thread list \<Rightarrow> bool" where
  "mreach spurious enter recheck \<equiv> (mstep spurious enter recheck)\<^sup>*\<^sup>*"

lemma mstep_length: "mstep sp enter recheck (s, ths) (s', ths') \<Longrightarrow> length ths' = length ths"
  by (auto elim: mstepE)

lemma mreach_length: "mreach sp enter recheck (s, ths) (s', ths') \<Longrightarrow> length ths' = length ths"
  by (induction "(s', ths')" arbitrary: s' ths' rule: rtranclp_induct) (auto dest: mstep_length)

text \<open>A relation that every step preserves holds of every state that can be reached.\<close>

lemma mreach_invariant:
  assumes "mreach sp enter recheck x y" and "Inv x"
    and "\<And>s ths s' ths'. Inv (s, ths) \<Longrightarrow> mstep sp enter recheck (s, ths) (s', ths') \<Longrightarrow> Inv (s', ths')"
  shows "Inv y"
  using assms(1,2) by (induction rule: rtranclp_induct) (use assms(3) in \<open>auto split: prod.splits\<close>)

section \<open>Every run ends\<close>

text \<open>
  Without spurious wake-ups a run is finite: every section, every notification and every return from a wait
  uses up something, and a thread goes back to sleep at most once for every notification.
\<close>

fun weight :: "('op, 'r, 'w) thread \<Rightarrow> nat" where
  "weight (Run ps log) = 3 * length ps"
| "weight (Notifying ps log) = 3 * length ps + 1"
| "weight (Asleep w ps log) = 3 * length ps + 1"
| "weight (Woken w ps log) = 3 * length ps + 1"
| "weight (Crashed e log) = 0"

fun is_woken :: "('op, 'r, 'w) thread \<Rightarrow> bool" where
  "is_woken (Woken w ps log) = True"
| "is_woken th = False"

definition run_measure :: "'s \<times> ('op, 'r, 'w) thread list \<Rightarrow> nat" where
  "run_measure x = (case x of (s, ths) \<Rightarrow> sum_list (map weight ths) * (length ths + 1) + length (filter is_woken ths))"

lemma weight_wake_up [simp]: "weight (wake_up th) = weight th"
  by (cases th) auto

lemma length_filter_update:
  "i < length xs \<Longrightarrow> length (filter P (xs[i := x])) + (if P (xs ! i) then 1 else 0) = length (filter P xs) + (if P x then 1 else 0)"
proof (induction xs arbitrary: i)
  case (Cons y ys)
  then show ?case by (cases i) auto
qed simp

lemma sum_list_weight_update:
  "i < length ths \<Longrightarrow> sum_list (map weight (ths[i := th])) + weight (ths ! i) = sum_list (map weight ths) + weight th"
  using elem_le_sum_list [of i "map weight ths"] sum_list_update [of i "map weight ths" "weight th"]
  by (simp add: map_update)

lemma run_measure_lighter:
  fixes ths ths' :: "('op, 'r, 'w) thread list" and th :: "('op, 'r, 'w) thread"
  assumes "i < length ths" and "weight th < weight (ths ! i)" and "map weight ths' = (map weight ths)[i := weight th]"
  shows "run_measure (s', ths') < run_measure (s, ths)"
proof -
  have len: "length ths' = length ths" using assms(3) by (metis length_list_update length_map)
  have "sum_list (map weight ths') + weight (ths ! i) = sum_list (map weight ths) + weight th"
    using sum_list_weight_update [OF assms(1), of th] unfolding assms(3) by (simp add: map_update)
  then have "sum_list (map weight ths') + 1 \<le> sum_list (map weight ths)" using assms(2) by simp
  then have "(sum_list (map weight ths') + 1) * (length ths + 1) \<le> sum_list (map weight ths) * (length ths + 1)"
    by (rule mult_right_mono) simp
  moreover have "length (filter is_woken ths') \<le> length ths" using length_filter_le len by metis
  ultimately show ?thesis using len by (simp add: run_measure_def)
qed

lemma run_measure_update:
  "i < length ths \<Longrightarrow> weight th < weight (ths ! i) \<Longrightarrow> run_measure (s', ths[i := th]) < run_measure (s, ths)"
  by (rule run_measure_lighter) (auto simp: map_update)

lemma mstep_decreases:
  assumes "mstep False enter recheck x y"
  shows "run_measure y < run_measure x"
  using assms
proof cases
  case (notify i ths ps log s)
  have "map weight ((map wake_up ths)[i := Run ps log]) = (map weight ths)[i := weight (Run ps log :: ('a, 'c, 'd) thread)]"
    by (simp add: map_update comp_def)
  with notify run_measure_lighter [of i ths "Run ps log"] show ?thesis by simp
next
  case (sleep_again i ths w ps log s)
  then have "length (filter is_woken (ths[i := Asleep w ps log])) + 1 = length (filter is_woken ths)"
    using length_filter_update [of i ths is_woken "Asleep w ps log"] by simp
  moreover have "sum_list (map weight (ths[i := Asleep w ps log])) = sum_list (map weight ths)"
    using sleep_again sum_list_weight_update [of i ths "Asleep w ps log"] by simp
  ultimately show ?thesis using sleep_again by (simp add: run_measure_def)
qed (auto intro!: run_measure_update)

lemma runs_end: "wfP (\<lambda>y x. mstep False enter recheck x y)"
  by (rule wfp_if_convertible_to_nat [of _ run_measure]) (rule mstep_decreases)

lemma run_bound:
  assumes "(mstep False enter recheck ^^ n) x y"
  shows "n + run_measure y \<le> run_measure x"
  using assms
proof (induction n arbitrary: y)
  case (Suc n)
  then obtain z where "(mstep False enter recheck ^^ n) x z" "mstep False enter recheck z y" by auto
  with Suc.IH [of z] mstep_decreases [of enter recheck z y] show ?case by simp
qed simp

lemma quiescent_reachable: "\<exists>y. mreach False enter recheck x y \<and> (\<forall>z. \<not> mstep False enter recheck y z)"
proof (induction x rule: measure_induct_rule [of run_measure])
  case (less x)
  show ?case
  proof (cases "\<exists>z. mstep False enter recheck x z")
    case True
    then obtain z where "mstep False enter recheck x z" by blast
    with less mstep_decreases show ?thesis by (meson converse_rtranclp_into_rtranclp)
  next
    case False
    then show ?thesis by blast
  qed
qed

section \<open>The contract of the operations\<close>

text \<open>
  An operation that goes to sleep has to wait, and only an operation that notifies may let a waiting thread go on.
\<close>

definition can_go :: "('w \<Rightarrow> 's \<Rightarrow> 'r option res) \<Rightarrow> 'w \<Rightarrow> 's \<Rightarrow> bool" where
  "can_go recheck w s \<longleftrightarrow> (\<exists>r. recheck w s = Inr (Some r))"

lemma can_go_simps [simp]: "recheck w s = Inr None \<Longrightarrow> \<not> can_go recheck w s" "recheck w s = Inr (Some r) \<Longrightarrow> can_go recheck w s"
  by (auto simp: can_go_def)

locale monitor =
  fixes enter :: "'op \<Rightarrow> 's \<Rightarrow> ('s, 'r, 'w) outcome"
    and recheck :: "'w \<Rightarrow> 's \<Rightarrow> 'r option res"
  assumes sleep_blocked: "enter op s = Sleep s' w \<Longrightarrow> recheck w s' = Inr None"
    and sleep_quiet: "enter op s = Sleep s' w \<Longrightarrow> can_go recheck v s' \<Longrightarrow> can_go recheck v s"
    and done_quiet: "enter op s = Done s' r False \<Longrightarrow> can_go recheck v s' \<Longrightarrow> can_go recheck v s"
begin

text \<open>No wake-up is lost: a sleeping thread that could go on has a notification coming.\<close>

definition awaited :: "'s \<times> ('op, 'r, 'w) thread list \<Rightarrow> bool" where
  "awaited x \<longleftrightarrow> (case x of (s, ths) \<Rightarrow> (\<exists>w ps log. Asleep w ps log \<in> set ths \<and> can_go recheck w s) \<longrightarrow>
     (\<exists>ps log. Notifying ps log \<in> set ths))"

lemma awaitedI:
  "(\<And>w ps log. Asleep w ps log \<in> set ths \<Longrightarrow> can_go recheck w s \<Longrightarrow> \<exists>ps log. Notifying ps log \<in> set ths) \<Longrightarrow> awaited (s, ths)"
  unfolding awaited_def by blast

lemma awaitedD: "awaited (s, ths) \<Longrightarrow> Asleep w ps log \<in> set ths \<Longrightarrow> can_go recheck w s \<Longrightarrow> \<exists>ps log. Notifying ps log \<in> set ths"
  unfolding awaited_def by blast

lemma set_update_other: "x \<in> set (xs[i := y]) \<Longrightarrow> x \<noteq> y \<Longrightarrow> x \<in> set xs"
  by (meson in_mono insertE set_update_subset_insert)

lemma set_update_kept: "x \<in> set xs \<Longrightarrow> x \<noteq> xs ! i \<Longrightarrow> x \<in> set (xs[i := y])"
  by (metis in_set_conv_nth length_list_update nth_list_update_neq)

lemma awaited_update:
  assumes "awaited (s, ths)" and "i < length ths" and "\<And>v. can_go recheck v s' \<Longrightarrow> can_go recheck v s"
    and "\<And>ps log. ths ! i \<noteq> Notifying ps log" and "\<And>w ps log. th = Asleep w ps log \<Longrightarrow> \<not> can_go recheck w s'"
  shows "awaited (s', ths[i := th])"
proof (rule awaitedI)
  fix w ps log assume a: "Asleep w ps log \<in> set (ths[i := th])" "can_go recheck w s'"
  then have "Asleep w ps log \<in> set ths" using assms(5) set_update_other by metis
  then obtain qs l where "Notifying qs l \<in> set ths" using awaitedD [OF assms(1)] assms(3) a(2) by blast
  then show "\<exists>ps log. Notifying ps log \<in> set (ths[i := th])" using assms(4) set_update_kept by metis
qed

lemma awaited_step:
  assumes "mstep sp enter recheck x y" and "awaited x"
  shows "awaited y"
  using assms(1)
proof cases
  case (enter_done i ths p ps log s s' r nf)
  show ?thesis
  proof (cases nf)
    case True
    then have "Notifying ps (log @ [r]) \<in> set (ths[i := if nf then Notifying ps (log @ [r]) else Run ps (log @ [r])])"
      using enter_done(3) by (simp add: set_update_memI)
    then show ?thesis unfolding enter_done(2) by (intro awaitedI) blast
  next
    case False
    with enter_done assms(2) done_quiet show ?thesis by (auto intro!: awaited_update)
  qed
next
  case (enter_sleep i ths p ps log s s' w)
  with assms(2) sleep_blocked sleep_quiet show ?thesis by (auto intro!: awaited_update)
next
  case (notify i ths ps log s)
  have "Asleep w qs l \<notin> set (map wake_up ths)" for w qs l
  proof
    assume "Asleep w qs l \<in> set (map wake_up ths)"
    then obtain th where "wake_up th = Asleep w qs l" by auto
    then show False by (cases th) auto
  qed
  with notify(2) show ?thesis by (auto intro!: awaitedI dest!: set_update_other [of _ "map wake_up ths"])
qed (use assms(2) in \<open>auto intro!: awaited_update\<close>)

lemma no_lost_wakeup:
  assumes "mreach sp enter recheck (s, map (\<lambda>ps. Run ps []) progs) (s', ths)"
  shows "awaited (s', ths)"
proof -
  have "awaited (s, map (\<lambda>ps. Run ps []) progs)" by (auto intro: awaitedI)
  with assms show ?thesis by (induction rule: rtranclp_induct) (auto intro: awaited_step)
qed

text \<open>When nothing moves any more, every thread has finished or crashed, or sleeps on a false predicate.\<close>

lemma quiescent_threads:
  assumes "awaited (s, ths)" and "\<And>y. \<not> mstep sp enter recheck (s, ths) y" and "th \<in> set ths"
  obtains (finished) log where "th = Run [] log"
  | (crashed) e log where "th = Crashed e log"
  | (waits) w ps log where "th = Asleep w ps log" "\<not> can_go recheck w s"
proof -
  from assms(3) obtain i where i: "i < length ths" "ths ! i = th" by (auto simp: in_set_conv_nth)
  have none: "Notifying ps log \<notin> set ths" for ps log
    using assms(2) mstep.notify by (metis in_set_conv_nth)
  show ?thesis
  proof (cases th)
    case (Run ps log)
    then show ?thesis
    proof (cases ps)
      case (Cons p qs)
      with Run i have "ths ! i = Run (p # qs) log" by simp
      then show ?thesis
        using assms(2) i(1) mstep.enter_done [of i ths p qs log enter s] mstep.enter_sleep [of i ths p qs log enter s]
          mstep.enter_fail [of i ths p qs log enter s]
        by (cases "enter (p log) s") blast+
    qed (use that in auto)
  next
    case (Asleep w ps log)
    with awaitedD [OF assms(1)] assms(3) none that show ?thesis by blast
  next
    case (Woken w ps log)
    with i have "ths ! i = Woken w ps log" by simp
    then show ?thesis
      using assms(2) i(1) mstep.resume [of i ths w ps log recheck s _ sp enter] mstep.resume_fail [of i ths w ps log recheck s _ sp enter]
        mstep.sleep_again [of i ths w ps log recheck s sp enter]
      by (cases "recheck w s"; cases "projr (recheck w s)") auto
  qed (use assms(3) none that in blast)+
qed

end

end
