(* ===== verification/TensorStores.thy ===== *)
theory TensorStores
  imports Monitors ApiTypes
begin

text \<open>
  The tensor store of one process (src/dtorch/core/communication/tensor_store/memory_tensor_store.h, .cc) and
  the helper of its base class.  A tensor is a value of a type parameter; what libtorch does to it
  (its device, a copy to another device) are parameters.  The events recorded on device streams order work
  on the device and are not modelled; the device of the producer's stream is.  \<open>barrierRound\<close> is an \<open>int\<close>
  that overflows after \<open>2 ^ 31\<close> rounds; it is unbounded here.
\<close>

section \<open>State and operations\<close>

record 'v store =
  tensorMap :: "string \<rightharpoonup> 'v"
  setEventStreamMap :: "string \<rightharpoonup> Device"
  targetGetCountMap :: "string \<rightharpoonup> nat"
  actualGetCountMap :: "string \<rightharpoonup> nat"
  worldSize :: int
  barrierCounts :: int
  barrierRound :: int

definition Store_Impl :: "'v store" where
  "Store_Impl = \<lparr>tensorMap = Map.empty, setEventStreamMap = Map.empty, targetGetCountMap = Map.empty,
     actualGetCountMap = Map.empty, worldSize = 0, barrierCounts = 0, barrierRound = 0\<rparr>"

datatype 'v store_op =
    Join int
  | Set string 'v Device nat
  | WaitUntilGetFinished string
  | Get string
  | FinishGet string
  | Clear
  | Barrier

datatype 'v store_result = Unit | Got 'v | Passed

datatype store_wait = WaitFinished string | WaitTensor string | WaitRound int

definition at_map :: "string \<Rightarrow> (string \<rightharpoonup> 'a) \<Rightarrow> 'a res" where
  "at_map k m = (case m k of None \<Rightarrow> Inl OutOfRange | Some x \<Rightarrow> Inr x)"

definition finish :: "('s, 'r, 'w) outcome res \<Rightarrow> ('s, 'r, 'w) outcome" where
  "finish x = (case x of Inl e \<Rightarrow> Fail e | Inr y \<Rightarrow> y)"

text \<open>The section of the constructor; it is followed by a barrier.\<close>

definition Store_Join :: "int \<Rightarrow> 'v store \<Rightarrow> ('v store, 'v store_result, store_wait) outcome" where
  "Store_Join n s = finish (assertR (n > 0)
     (if worldSize s = 0 then Inr (Done (s\<lparr>worldSize := n\<rparr>) Unit False)
      else assertR (worldSize s = n) (Inr (Done s Unit False))))"

definition SrcSet :: "string \<Rightarrow> 'v \<Rightarrow> Device \<Rightarrow> nat \<Rightarrow> 'v store \<Rightarrow> ('v store, 'v store_result, store_wait) outcome" where
  "SrcSet key actualValue actualStream getCount s = finish (assertR (tensorMap s key = None)
     (Inr (Done (s\<lparr>tensorMap := (tensorMap s)(key \<mapsto> actualValue),
        setEventStreamMap := (setEventStreamMap s)(key \<mapsto> actualStream),
        targetGetCountMap := (targetGetCountMap s)(key \<mapsto> getCount),
        actualGetCountMap := (actualGetCountMap s)(key \<mapsto> 0)\<rparr>) Unit True)))"

text \<open>What \<open>SrcSet\<close> stores: the value, moved to the other kind of device when the destination wants it there.\<close>

definition SrcSet_value :: "('v \<Rightarrow> Device) \<Rightarrow> (Device \<Rightarrow> 'v \<Rightarrow> 'v) \<Rightarrow> 'v \<Rightarrow> Device \<Rightarrow> DeviceKind option \<Rightarrow> ('v \<times> Device) res" where
  "SrcSet_value get_device to_device value stream dest =
     assertR (get_device value = stream)
      (case dest of
         None \<Rightarrow> Inr (value, stream)
       | Some kind \<Rightarrow>
           if deviceKind (get_device value) \<noteq> kind then Inr (to_device (mk_Device kind 0) value, mk_Device kind 0)
           else Inr (value, stream))"

text \<open>The end of \<open>SrcWaitUntilGetFinished\<close> and the predicate it waits for.\<close>

definition get_finished :: "string \<Rightarrow> 'v store \<Rightarrow> bool res" where
  "get_finished key s = bindR (at_map key (actualGetCountMap s)) (\<lambda>a. bindR (at_map key (targetGetCountMap s)) (\<lambda>t. Inr (a = t)))"

definition SrcWait_end :: "string \<Rightarrow> 'v store \<Rightarrow> 'v store_result res" where
  "SrcWait_end key s = bindR (get_finished key s) (\<lambda>b. assertR b (assertR (setEventStreamMap s key \<noteq> None) (Inr Unit)))"

definition SrcWaitUntilGetFinished :: "string \<Rightarrow> 'v store \<Rightarrow> ('v store, 'v store_result, store_wait) outcome" where
  "SrcWaitUntilGetFinished key s = finish
     (bindR (at_map key (actualGetCountMap s)) (\<lambda>a. bindR (at_map key (targetGetCountMap s)) (\<lambda>t.
        if a < t then Inr (Sleep s (WaitFinished key))
        else bindR (SrcWait_end key s) (\<lambda>r. Inr (Done s r False)))))"

definition DestGet_end :: "string \<Rightarrow> 'v store \<Rightarrow> 'v store_result res" where
  "DestGet_end key s = (case tensorMap s key of None \<Rightarrow> Inl Abort | Some v \<Rightarrow> Inr (Got v))"

definition DestGet :: "string \<Rightarrow> 'v store \<Rightarrow> ('v store, 'v store_result, store_wait) outcome" where
  "DestGet key s = finish
     (if tensorMap s key = None then Inr (Sleep s (WaitTensor key))
      else bindR (DestGet_end key s) (\<lambda>r. Inr (Done s r False)))"

definition DestFinishGet :: "string \<Rightarrow> 'v store \<Rightarrow> ('v store, 'v store_result, store_wait) outcome" where
  "DestFinishGet key s = finish
     (bindR (at_map key (actualGetCountMap s)) (\<lambda>a. bindR (at_map key (targetGetCountMap s)) (\<lambda>t.
        assertR (a < t) (assertR (tensorMap s key \<noteq> None)
         (Inr (Done (s\<lparr>actualGetCountMap := (actualGetCountMap s)(key \<mapsto> a + 1)\<rparr>) Unit (a + 1 = t)))))))"

text \<open>The section of \<open>Reset\<close> between its two barriers.\<close>

definition Reset_clear :: "'v store \<Rightarrow> ('v store, 'v store_result, store_wait) outcome" where
  "Reset_clear s = Done (s\<lparr>tensorMap := Map.empty, setEventStreamMap := Map.empty, targetGetCountMap := Map.empty,
     actualGetCountMap := Map.empty\<rparr>) Unit False"

definition Store_Barrier :: "'v store \<Rightarrow> ('v store, 'v store_result, store_wait) outcome" where
  "Store_Barrier s = finish (assertR (0 \<le> barrierCounts s \<and> barrierCounts s < worldSize s)
     (if barrierCounts s + 1 = worldSize s then
        Inr (Done (s\<lparr>barrierCounts := 0, barrierRound := barrierRound s + 1\<rparr>) Passed True)
      else Inr (Sleep (s\<lparr>barrierCounts := barrierCounts s + 1\<rparr>) (WaitRound (barrierRound s)))))"

fun store_enter :: "'v store_op \<Rightarrow> 'v store \<Rightarrow> ('v store, 'v store_result, store_wait) outcome" where
  "store_enter (Join n) = Store_Join n"
| "store_enter (Set key v d n) = SrcSet key v d n"
| "store_enter (WaitUntilGetFinished key) = SrcWaitUntilGetFinished key"
| "store_enter (Get key) = DestGet key"
| "store_enter (FinishGet key) = DestFinishGet key"
| "store_enter Clear = Reset_clear"
| "store_enter Barrier = Store_Barrier"

text \<open>A woken thread evaluates the predicate of its wait; a false one sends it back to sleep.\<close>

fun store_recheck :: "store_wait \<Rightarrow> 'v store \<Rightarrow> 'v store_result option res" where
  "store_recheck (WaitFinished key) s =
     bindR (get_finished key s) (\<lambda>b. if b then bindR (SrcWait_end key s) (\<lambda>r. Inr (Some r)) else Inr None)"
| "store_recheck (WaitTensor key) s =
     (if tensorMap s key = None then Inr None else bindR (DestGet_end key s) (\<lambda>r. Inr (Some r)))"
| "store_recheck (WaitRound currentRound) s = (if currentRound \<noteq> barrierRound s then Inr (Some Passed) else Inr None)"

text \<open>The compound operations of the interface, as programs.\<close>

definition Store_new :: "int \<Rightarrow> ('v store_result list \<Rightarrow> 'v store_op) list" where
  "Store_new n = [\<lambda>_. Join n, \<lambda>_. Barrier]"

definition Store_Reset :: "('v store_result list \<Rightarrow> 'v store_op) list" where
  "Store_Reset = [\<lambda>_. Barrier, \<lambda>_. Clear, \<lambda>_. Barrier]"

definition DestGetAndToDevice :: "string \<Rightarrow> ('v store_result list \<Rightarrow> 'v store_op) list" where
  "DestGetAndToDevice key = [\<lambda>_. Get key, \<lambda>_. FinishGet key]"

section \<open>The store keeps the contract of a monitor\<close>

lemma finish_simps [simp]: "finish (Inl e) = Fail e" "finish (Inr y) = y"
  by (simp_all add: finish_def)

lemma finish_guard [simp]: "finish (guardR e b x) = (if b then finish x else Fail e)"
  by (simp add: guardR_def)

lemma can_go_store [simp]:
  "can_go store_recheck (WaitFinished key) s \<longleftrightarrow>
     (\<exists>n. actualGetCountMap s key = Some n \<and> targetGetCountMap s key = Some n) \<and> setEventStreamMap s key \<noteq> None"
  "can_go store_recheck (WaitTensor key) s \<longleftrightarrow> tensorMap s key \<noteq> None"
  "can_go store_recheck (WaitRound r) s \<longleftrightarrow> r \<noteq> barrierRound s"
  by (auto simp: can_go_def get_finished_def SrcWait_end_def at_map_def DestGet_end_def guardR_def split: option.splits)

lemmas store_ops = Store_Join_def SrcSet_def SrcWaitUntilGetFinished_def DestGet_def DestFinishGet_def Reset_clear_def
  Store_Barrier_def

lemma store_enter_quiet:
  "store_enter op s = Sleep s' w \<Longrightarrow> can_go store_recheck v s' \<Longrightarrow> can_go store_recheck v s"
  "store_enter op s = Done s' r False \<Longrightarrow> can_go store_recheck v s' \<Longrightarrow> can_go store_recheck v s"
  by (cases op; cases v; auto simp: store_ops finish_def guardR_def at_map_def SrcWait_end_def get_finished_def DestGet_end_def
      split: if_splits sum.splits option.splits)+

interpretation store: monitor store_enter store_recheck
proof
  show "store_enter op s = Sleep s' w \<Longrightarrow> store_recheck w s' = Inr None" for op :: "'v store_op" and s s' w
    by (cases op) (auto simp: store_ops at_map_def SrcWait_end_def get_finished_def DestGet_end_def finish_def guardR_def
        split: if_splits sum.splits option.splits)
qed (rule store_enter_quiet; assumption)+

section \<open>The barrier\<close>

text \<open>Barriers a thread has left, whether it is inside one, and the round it waits for.\<close>

fun waits_round :: "('op, 'r, store_wait) thread \<Rightarrow> int option" where
  "waits_round (Asleep (WaitRound r) ps log) = Some r"
| "waits_round (Woken (WaitRound r) ps log) = Some r"
| "waits_round th = None"

definition barriers_left :: "('op, 'v store_result, store_wait) thread \<Rightarrow> nat" where
  "barriers_left th = length (filter (\<lambda>r. r = Passed) (results th))"

definition barriers_entered :: "('op, 'v store_result, store_wait) thread \<Rightarrow> nat" where
  "barriers_entered th = barriers_left th + (if waits_round th = None then 0 else 1)"

text \<open>
  In round \<open>R\<close> a thread has left every earlier barrier and may wait in this one, or it still has to notice that
  the previous one is over; the counter is the number of threads waiting in this round.
\<close>

definition barrier_inv :: "int \<Rightarrow> 'v store \<times> ('op, 'v store_result, store_wait) thread list \<Rightarrow> bool" where
  "barrier_inv r0 x \<longleftrightarrow> (case x of (s, ths) \<Rightarrow>
     worldSize s = int (length ths) \<and>
     barrierCounts s = int (length (filter (\<lambda>th. waits_round th = Some (barrierRound s)) ths)) \<and>
     (ths \<noteq> [] \<longrightarrow> barrierCounts s < worldSize s) \<and>
     (\<forall>th \<in> set ths. case waits_round th of
        None \<Rightarrow> int (barriers_left th) = barrierRound s - r0
      | Some r \<Rightarrow> int (barriers_left th) = r - r0 \<and> (r = barrierRound s \<or> r = barrierRound s - 1)))"

definition in_round :: "int \<Rightarrow> int \<Rightarrow> ('op, 'v store_result, store_wait) thread \<Rightarrow> bool" where
  "in_round r0 R th \<longleftrightarrow> (case waits_round th of
        None \<Rightarrow> int (barriers_left th) = R - r0
      | Some r \<Rightarrow> int (barriers_left th) = r - r0 \<and> (r = R \<or> r = R - 1))"

lemma barrier_inv_alt: "barrier_inv r0 (s, ths) \<longleftrightarrow> worldSize s = int (length ths) \<and>
     barrierCounts s = int (length (filter (\<lambda>th. waits_round th = Some (barrierRound s)) ths)) \<and>
     (ths \<noteq> [] \<longrightarrow> barrierCounts s < worldSize s) \<and> (\<forall>th \<in> set ths. in_round r0 (barrierRound s) th)"
  by (simp add: barrier_inv_def in_round_def)

lemma barrier_inv_at: "barrier_inv r0 (s, ths) \<Longrightarrow> i < length ths \<Longrightarrow> in_round r0 (barrierRound s) (ths ! i)"
  by (simp add: barrier_inv_alt)

text \<open>A step that leaves the barrier alone and keeps where one thread stands.\<close>

lemma barrier_inv_update:
  assumes "barrier_inv r0 (s, ths)" and "i < length ths" and "in_round r0 (barrierRound s) th"
    and "waits_round th = Some (barrierRound s) \<longleftrightarrow> waits_round (ths ! i) = Some (barrierRound s)"
    and "worldSize s' = worldSize s" "barrierCounts s' = barrierCounts s" "barrierRound s' = barrierRound s"
  shows "barrier_inv r0 (s', ths[i := th])"
proof -
  have "length (filter (\<lambda>th. waits_round th = Some (barrierRound s)) (ths[i := th])) =
      length (filter (\<lambda>th. waits_round th = Some (barrierRound s)) ths)"
    using length_filter_update [OF assms(2), of "\<lambda>th. waits_round th = Some (barrierRound s)" th] assms(4) by (simp split: if_splits)
  with assms show ?thesis
    by (auto simp: barrier_inv_alt dest!: set_update_subset_insert [THEN subsetD])
qed

lemma all_others:
  assumes "i < length xs" and "\<not> P (xs ! i)" and "length (filter P xs) + 1 = length xs" and "j < length xs" and "j \<noteq> i"
  shows "P (xs ! j)"
proof (rule ccontr)
  assume j: "\<not> P (xs ! j)"
  have "{k. k < length xs \<and> P (xs ! k)} \<subseteq> {..<length xs} - {i, j}" using assms(2) j by auto
  then have "card {k. k < length xs \<and> P (xs ! k)} \<le> card ({..<length xs} - {i, j})" by (rule card_mono [rotated]) simp
  moreover have "card ({..<length xs} - {i, j}) + 2 = length xs"
    using assms(1,4,5) by (subst card_Diff_subset) (auto simp: Suc_leI)
  ultimately show False using assms(3) by (simp add: length_filter_conv_card)
qed

text \<open>No other operation touches the barrier.\<close>

lemma store_enter_barrier:
  assumes "op \<noteq> Barrier" and "worldSize s = int n" and "0 < n"
  shows "store_enter op s = Done s' r nf \<Longrightarrow> worldSize s' = worldSize s \<and> barrierCounts s' = barrierCounts s \<and>
      barrierRound s' = barrierRound s \<and> r \<noteq> Passed"
    and "store_enter op s = Sleep s' w \<Longrightarrow> s' = s \<and> (\<forall>R. w \<noteq> WaitRound R)"
  using assms
  by (cases op; auto simp: store_ops finish_def guardR_def at_map_def SrcWait_end_def get_finished_def DestGet_end_def
      split: if_splits sum.splits option.splits)+

lemma waits_wake_up [simp]: "waits_round (wake_up th) = waits_round th"
  by (cases th rule: waits_round.cases) auto

lemma barriers_left_wake_up [simp]: "barriers_left (wake_up th) = barriers_left th"
  by (cases th) (auto simp: barriers_left_def)

lemma in_round_wake_up [simp]: "in_round r0 R (wake_up th) = in_round r0 R th"
  by (cases "waits_round th") (simp_all add: in_round_def)

lemma in_round_idle: "waits_round th = None \<Longrightarrow> in_round r0 R th \<longleftrightarrow> int (barriers_left th) = R - r0"
  by (simp add: in_round_def)

lemma barriers_left_simps [simp]:
  "barriers_left (Run ps (log @ [r])) = barriers_left (Run qs log) + (if r = Passed then 1 else 0)"
  "barriers_left (Notifying ps (log @ [r])) = barriers_left (Run qs log) + (if r = Passed then 1 else 0)"
  "barriers_left (Notifying ps log) = barriers_left (Run ps log)"
  "barriers_left (Asleep w ps log) = barriers_left (Run ps log)"
  "barriers_left (Woken w ps log) = barriers_left (Run ps log)"
  "barriers_left (Crashed e log) = barriers_left (Run [] log)"
  by (simp_all add: barriers_left_def)

text \<open>The last thread to arrive opens the next round.\<close>

lemma barrier_inv_last:
  assumes "barrier_inv r0 (s, ths)" and "i < length ths" and "ths ! i = Run (p # ps) log"
    and "barrierCounts s + 1 = worldSize s"
  shows "barrier_inv r0 (s\<lparr>barrierCounts := 0, barrierRound := barrierRound s + 1\<rparr>, ths[i := Notifying ps (log @ [Passed])])"
proof -
  let ?R = "barrierRound s"
  let ?P = "\<lambda>th. waits_round th = Some ?R"
  have inv: "worldSize s = int (length ths)" "barrierCounts s = int (length (filter ?P ths))"
    "\<And>th. th \<in> set ths \<Longrightarrow> in_round r0 ?R th" using assms(1) by (auto simp: barrier_inv_alt)
  have "length (filter ?P ths) + 1 = length ths" using inv(1,2) assms(4) by linarith
  then have others: "?P (ths ! j)" if "j < length ths" "j \<noteq> i" for j
    using all_others [of i ths ?P j] assms(2,3) that by simp
  have here: "int (barriers_left (Run ps log)) = ?R - r0"
    using inv(3) [OF nth_mem [OF assms(2)]] assms(3) by (simp add: in_round_def barriers_left_def)
  have all: "waits_round th \<noteq> Some (?R + 1) \<and> in_round r0 (?R + 1) th"
    if th: "th \<in> set (ths[i := Notifying ps (log @ [Passed])])" for th
  proof -
    from th obtain j where j: "j < length ths" "th = (ths[i := Notifying ps (log @ [Passed])]) ! j"
      by (auto simp: in_set_conv_nth)
    show ?thesis
    proof (cases "j = i")
      case True
      with j here show ?thesis by (simp add: in_round_idle del: barriers_left_simps(3)) (simp add: barriers_left_def)
    next
      case False
      with j others [of j] inv(3) [of "ths ! j"] show ?thesis by (auto simp: in_round_def)
    qed
  qed
  then have "filter (\<lambda>th. waits_round th = Some (?R + 1)) (ths[i := Notifying ps (log @ [Passed])]) = []"
    by (auto simp: filter_empty_conv)
  moreover have "worldSize s > 0" using inv(1) assms(2) by auto
  ultimately show ?thesis using all inv(1) by (simp add: barrier_inv_alt)
qed

text \<open>The others wait.\<close>

lemma barrier_inv_wait:
  assumes "barrier_inv r0 (s, ths)" and "i < length ths" and "ths ! i = Run (p # ps) log"
    and "barrierCounts s + 1 \<noteq> worldSize s"
  shows "barrier_inv r0 (s\<lparr>barrierCounts := barrierCounts s + 1\<rparr>, ths[i := Asleep (WaitRound (barrierRound s)) ps log])"
proof -
  let ?P = "\<lambda>th. waits_round th = Some (barrierRound s)"
  let ?th = "Asleep (WaitRound (barrierRound s)) ps log"
  have "length (filter ?P (ths[i := ?th])) = length (filter ?P ths) + 1"
    using length_filter_update [OF assms(2), of ?P ?th] assms(3) by simp
  moreover have "in_round r0 (barrierRound s) (ths ! i)" using assms(1,2) by (auto simp: barrier_inv_alt)
  then have "in_round r0 (barrierRound s) ?th" using assms(3) by (simp add: in_round_def barriers_left_def)
  ultimately show ?thesis using assms by (auto simp: barrier_inv_alt dest!: set_update_subset_insert [THEN subsetD])
qed

lemma barrier_inv_step:
  assumes "mstep sp store_enter store_recheck (s, ths) (s', ths')" and inv: "barrier_inv r0 (s, ths)"
  shows "barrier_inv r0 (s', ths')"
  using assms(1)
proof cases
  case (enter_done i p ps log r nf)
  note i = enter_done(2,3)
  show ?thesis
  proof (cases "p log = Barrier")
    case True
    with enter_done(4) have "barrierCounts s + 1 = worldSize s"
      "s' = s\<lparr>barrierCounts := 0, barrierRound := barrierRound s + 1\<rparr>" "r = Passed" nf
      by (auto simp: Store_Barrier_def finish_def guardR_def split: if_splits)
    with barrier_inv_last [OF inv i] enter_done(1) show ?thesis by simp
  next
    case False
    have n: "worldSize s = int (length ths)" "0 < length ths" using inv i(1) by (auto simp: barrier_inv_alt)
    have f: "worldSize s' = worldSize s" "barrierCounts s' = barrierCounts s" "barrierRound s' = barrierRound s" "r \<noteq> Passed"
      using store_enter_barrier(1) [OF False n enter_done(4)] by auto
    have "in_round r0 (barrierRound s) (ths ! i)" using inv i(1) by (rule barrier_inv_at)
    then have "in_round r0 (barrierRound s) (if nf then Notifying ps (log @ [r]) else Run ps (log @ [r]))"
      using i(2) f(4) by (auto simp: in_round_def barriers_left_def)
    with barrier_inv_update [OF inv i(1)] f i(2) enter_done(1) show ?thesis by auto
  qed
next
  case (enter_sleep i p ps log w)
  note i = enter_sleep(2,3)
  show ?thesis
  proof (cases "p log = Barrier")
    case True
    with enter_sleep(4) have "barrierCounts s + 1 \<noteq> worldSize s" "s' = s\<lparr>barrierCounts := barrierCounts s + 1\<rparr>"
      "w = WaitRound (barrierRound s)"
      by (auto simp: Store_Barrier_def finish_def guardR_def split: if_splits)
    with barrier_inv_wait [OF inv i] enter_sleep(1) show ?thesis by simp
  next
    case False
    have n: "worldSize s = int (length ths)" "0 < length ths" using inv i(1) by (auto simp: barrier_inv_alt)
    have f: "s' = s" "waits_round (Asleep w ps log) = None"
      using store_enter_barrier(2) [OF False n enter_sleep(4)] by (cases w; simp)+
    have "in_round r0 (barrierRound s) (ths ! i)" using inv i(1) by (rule barrier_inv_at)
    then have "in_round r0 (barrierRound s) (Asleep w ps log)"
      using i(2) f(2) by (auto simp: in_round_def barriers_left_def)
    with barrier_inv_update [OF inv i(1)] f i(2) enter_sleep(1) show ?thesis by auto
  qed
next
  case (enter_fail i p ps log e)
  have "in_round r0 (barrierRound s) (ths ! i)" using inv enter_fail(3) by (rule barrier_inv_at)
  with enter_fail have "in_round r0 (barrierRound s) (Crashed e log)"
    by (simp add: in_round_def barriers_left_def)
  with enter_fail inv show ?thesis by (auto intro!: barrier_inv_update)
next
  case (notify i ps log)
  let ?ths = "map wake_up ths"
  have "filter (\<lambda>th. waits_round th = Some (barrierRound s)) ?ths = map wake_up (filter (\<lambda>th. waits_round th = Some (barrierRound s)) ths)"
    by (simp add: filter_map comp_def)
  then have all: "barrier_inv r0 (s, ?ths)" using inv by (auto simp: barrier_inv_alt)
  have "in_round r0 (barrierRound s) (ths ! i)" using inv notify(3) by (rule barrier_inv_at)
  with notify have "in_round r0 (barrierRound s) (Run ps log)"
    by (simp add: in_round_def barriers_left_def)
  with notify all show ?thesis by (auto intro!: barrier_inv_update)
next
  case (resume i w ps log r)
  have r: "in_round r0 (barrierRound s) (ths ! i)" using inv resume(3) by (rule barrier_inv_at)
  show ?thesis
  proof (cases w)
    case (WaitRound R)
    with resume r show ?thesis
      by (auto simp: in_round_def barriers_left_def split: if_splits intro!: barrier_inv_update [OF inv])
  next
    case (WaitFinished key)
    with resume r show ?thesis
      by (auto simp: in_round_def barriers_left_def SrcWait_end_def bindR_eq_Inr guardR_eq_Inr split: if_splits intro!: barrier_inv_update [OF inv])
  next
    case (WaitTensor key)
    with resume r show ?thesis
      by (auto simp: in_round_def barriers_left_def DestGet_end_def split: if_splits option.splits intro!: barrier_inv_update [OF inv])
  qed
next
  case (resume_fail i w ps log e)
  have r: "in_round r0 (barrierRound s) (ths ! i)" using inv resume_fail(3) by (rule barrier_inv_at)
  with resume_fail show ?thesis
    by (cases w) (auto simp: in_round_def barriers_left_def split: if_splits intro!: barrier_inv_update [OF inv])
next
  case (sleep_again i w ps log)
  have r: "in_round r0 (barrierRound s) (ths ! i)" using inv sleep_again(3) by (rule barrier_inv_at)
  with sleep_again show ?thesis
    by (cases w) (auto simp: in_round_def barriers_left_def intro!: barrier_inv_update [OF inv])
next
  case (wake_spurious i w ps log)
  have r: "in_round r0 (barrierRound s) (ths ! i)" using inv wake_spurious(3) by (rule barrier_inv_at)
  with wake_spurious show ?thesis
    by (cases w) (auto simp: in_round_def barriers_left_def intro!: barrier_inv_update [OF inv])
qed

lemma barrier_inv_init:
  assumes "worldSize s = int (length progs)" and "barrierCounts s = 0"
  shows "barrier_inv (barrierRound s) (s, map (\<lambda>ps. Run ps []) progs)"
  using assms by (auto simp: barrier_inv_alt in_round_def barriers_left_def filter_empty_conv)

abbreviation start :: "(('v store_result list \<Rightarrow> 'v store_op) list) list \<Rightarrow> ('v store_op, 'v store_result, store_wait) thread list" where
  "start progs \<equiv> map (\<lambda>ps. Run ps []) progs"

text \<open>A store all participants have joined, in its first round.\<close>

definition joined_store :: "nat \<Rightarrow> 'v store" where
  "joined_store n = Store_Impl\<lparr>worldSize := int n\<rparr>"

lemma joined_store_inv: "barrier_inv 0 (joined_store (length progs), start progs)"
  using barrier_inv_init [of "joined_store (length progs)" progs] by (simp add: joined_store_def Store_Impl_def)

lemma barrier_inv_reachable:
  "mreach sp store_enter store_recheck (joined_store (length progs), start progs) x \<Longrightarrow> barrier_inv 0 x"
  by (rule mreach_invariant [where Inv = "barrier_inv 0"]) (auto intro: barrier_inv_step joined_store_inv)

text \<open>C9: The barrier of the tensor store synchronises: whatever programs the participants run on the store, in whatever
  order their critical sections come, however notifications are delayed and spurious wake-ups happen, no participant has
  left more barriers than any other participant has entered, so nobody gets past a barrier before all have reached it.\<close>

theorem barrier_synchronizes:
  assumes "mreach sp store_enter store_recheck (joined_store (length progs), start progs) (s, ths)"
    and "a \<in> set ths" and "b \<in> set ths"
  shows "barriers_left a \<le> barriers_entered b"
proof -
  have "in_round 0 (barrierRound s) a" "in_round 0 (barrierRound s) b"
    using barrier_inv_reachable [OF assms(1)] assms(2,3) by (auto simp: barrier_inv_alt)
  then show ?thesis by (auto simp: in_round_def barriers_entered_def split: option.splits)
qed

lemma two_at_the_barrier:
  "mreach False store_enter store_recheck (joined_store 2, start [[\<lambda>_. Barrier], [\<lambda>_. Barrier]])
     ((joined_store 2)\<lparr>barrierCounts := 1\<rparr>, [Asleep (WaitRound 0) [] [], Run [\<lambda>_. Barrier] ([] :: unit store_result list)])"
proof -
  let ?s = "joined_store 2 :: unit store"
  have "mstep False store_enter store_recheck (?s, start [[\<lambda>_. Barrier], [\<lambda>_. Barrier]])
     (?s\<lparr>barrierCounts := 1\<rparr>, (start [[\<lambda>_. Barrier], [\<lambda>_. Barrier]])[0 := Asleep (WaitRound 0) [] []])"
    by (rule enter_sleep [of _ _ "\<lambda>_. Barrier"]) (simp_all add: Store_Barrier_def joined_store_def Store_Impl_def)
  then show ?thesis by auto
qed

theorem barrier_synchronizes_witness:
  "barriers_left (Asleep (WaitRound 0) [] ([] :: unit store_result list) :: (unit store_op, unit store_result, store_wait) thread) \<le>
     barriers_entered (Run [\<lambda>_. Barrier] ([] :: unit store_result list) :: (unit store_op, unit store_result, store_wait) thread)"
  by (rule barrier_synchronizes [of False "[[\<lambda>_. Barrier], [\<lambda>_. Barrier]]", OF _ list.set_intros(1) list.set_intros(2)])
    (use two_at_the_barrier in \<open>auto simp: numeral_2_eq_2\<close>)

text \<open>Threads that only pass barriers.\<close>

fun todo :: "('op, 'r, 'w) thread \<Rightarrow> nat" where
  "todo (Run ps log) = length ps"
| "todo (Notifying ps log) = length ps"
| "todo (Asleep w ps log) = length ps + 1"
| "todo (Woken w ps log) = length ps + 1"
| "todo (Crashed e log) = 0"

fun program_of :: "('op, 'r, 'w) thread \<Rightarrow> ('r list \<Rightarrow> 'op) list" where
  "program_of (Run ps log) = ps"
| "program_of (Notifying ps log) = ps"
| "program_of (Asleep w ps log) = ps"
| "program_of (Woken w ps log) = ps"
| "program_of (Crashed e log) = []"

fun waits_other :: "('op, 'r, store_wait) thread \<Rightarrow> bool" where
  "waits_other (Asleep w ps log) \<longleftrightarrow> (\<forall>R. w \<noteq> WaitRound R)"
| "waits_other (Woken w ps log) \<longleftrightarrow> (\<forall>R. w \<noteq> WaitRound R)"
| "waits_other (Crashed e log) \<longleftrightarrow> True"
| "waits_other th \<longleftrightarrow> False"

definition barrier_thread :: "nat \<Rightarrow> ('v store_op, 'v store_result, store_wait) thread \<Rightarrow> bool" where
  "barrier_thread m th \<longleftrightarrow> \<not> waits_other th \<and> (\<forall>p \<in> set (program_of th). p = (\<lambda>_. Barrier)) \<and>
     todo th + length (results th) = m \<and> (\<forall>r \<in> set (results th). r = Passed)"

lemma barrier_thread_left: "barrier_thread m th \<Longrightarrow> barriers_left th = length (results th)"
  by (simp add: barrier_thread_def barriers_left_def filter_True)

lemma barrier_thread_step:
  assumes "mstep sp store_enter store_recheck (s, ths) (s', ths')" and "barrier_inv r0 (s, ths)"
    and "\<forall>th \<in> set ths. barrier_thread m th"
  shows "\<forall>th \<in> set ths'. barrier_thread m th"
proof -
  have keep: "\<forall>th \<in> set (ths[i := th']). barrier_thread m th" if "barrier_thread m th'" for i th'
    using that assms(3) by (auto dest!: set_update_subset_insert [THEN subsetD])
  have at: "barrier_thread m (ths ! i)" if "i < length ths" for i using assms(3) that by simp
  from assms(1) show ?thesis
  proof cases
    case (enter_done i p ps log r nf)
    then have "p = (\<lambda>_. Barrier)" using at [of i] by (auto simp: barrier_thread_def)
    with enter_done have "r = Passed" by (auto simp: Store_Barrier_def finish_def guardR_def split: if_splits)
    with enter_done(2,3) at [of i] show ?thesis unfolding enter_done(1) by (intro keep) (auto simp: barrier_thread_def)
  next
    case (enter_sleep i p ps log w)
    then have "p = (\<lambda>_. Barrier)" using at [of i] by (auto simp: barrier_thread_def)
    with enter_sleep have "w = WaitRound (barrierRound s)"
      by (auto simp: Store_Barrier_def finish_def guardR_def split: if_splits)
    with enter_sleep(2,3) at [of i] show ?thesis unfolding enter_sleep(1) by (intro keep) (auto simp: barrier_thread_def)
  next
    case (enter_fail i p ps log e)
    then have "p = (\<lambda>_. Barrier)" using at [of i] by (auto simp: barrier_thread_def)
    moreover have "0 \<le> barrierCounts s" "barrierCounts s < worldSize s"
      using assms(2) enter_fail(3) by (auto simp: barrier_inv_alt)
    ultimately have False using enter_fail by (auto simp: Store_Barrier_def split: if_splits)
    then show ?thesis ..
  next
    case (notify i ps log)
    have "barrier_thread m (wake_up th)" if "th \<in> set ths" for th
      using assms(3) that by (cases th) (auto simp: barrier_thread_def)
    with notify at [of i] show ?thesis
      by (auto dest!: set_update_subset_insert [THEN subsetD] simp: barrier_thread_def)
  next
    case (resume i w ps log r)
    then obtain R where "w = WaitRound R" using at [of i] by (auto simp: barrier_thread_def)
    with resume(3-5) at [of i] show ?thesis unfolding resume(2) by (intro keep) (auto simp: barrier_thread_def split: if_splits)
  next
    case (resume_fail i w ps log e)
    then obtain R where "w = WaitRound R" using at [of i] by (auto simp: barrier_thread_def)
    with resume_fail show ?thesis by (auto split: if_splits)
  next
    case (sleep_again i w ps log)
    with at [of i] show ?thesis unfolding sleep_again(2) by (intro keep) (auto simp: barrier_thread_def)
  next
    case (wake_spurious i w ps log)
    with at [of i] show ?thesis unfolding wake_spurious(2) by (intro keep) (auto simp: barrier_thread_def)
  qed
qed

lemma barriers_quiescent:
  assumes "mreach False store_enter store_recheck (joined_store n, start (replicate n (replicate m (\<lambda>_. Barrier)))) (s, ths)"
    and quiet: "\<And>y. \<not> mstep False store_enter store_recheck (s, ths) y" and th: "th \<in> set ths"
  shows "th = Run [] (replicate m Passed)"
proof -
  let ?progs = "replicate n (replicate m (\<lambda>_ :: 'a store_result list. Barrier :: 'a store_op))"
  let ?Inv = "\<lambda>x. barrier_inv 0 x \<and> (\<forall>th \<in> set (snd x). barrier_thread m th)"
  have "?Inv (joined_store n, start ?progs)"
    using joined_store_inv [of ?progs] by (auto simp: barrier_thread_def)
  moreover have "?Inv (s', ths')" if "?Inv (s, ths)" "mstep False store_enter store_recheck (s, ths) (s', ths')" for s ths s' ths'
    using that barrier_inv_step barrier_thread_step unfolding snd_conv by metis
  ultimately have "?Inv (s, ths)" by (rule mreach_invariant [where Inv = ?Inv, OF assms(1)])
  then have inv: "barrier_inv 0 (s, ths)" and bt: "\<And>th. th \<in> set ths \<Longrightarrow> barrier_thread m th" by auto
  have aw: "store.awaited (s, ths)" by (rule store.no_lost_wakeup [OF assms(1)])
  have cases: "th = Run [] (replicate m Passed) \<or> waits_round th = Some (barrierRound s)" if th: "th \<in> set ths" for th
  proof (rule store.quiescent_threads [OF aw quiet th])
    fix log assume finished: "th = Run [] log"
    then have "length log = m" "\<forall>r \<in> set log. r = Passed" using bt [OF th] by (auto simp: barrier_thread_def)
    with finished show ?thesis using replicate_length_same [of log Passed] by auto
  next
    fix e log assume "th = Crashed e log"
    with bt [OF th] show ?thesis by (simp add: barrier_thread_def)
  next
    fix w ps log assume waits: "th = Asleep w ps log"
    then obtain R where "w = WaitRound R" using bt [OF th] by (auto simp: barrier_thread_def)
    moreover assume "\<not> can_go store_recheck w s"
    ultimately show ?thesis using waits by simp
  qed
  show ?thesis
  proof (rule ccontr)
    assume "th \<noteq> Run [] (replicate m Passed)"
    with cases [OF th] have w: "waits_round th = Some (barrierRound s)" by blast
    then have "barriers_left th < m" using bt [OF th] barrier_thread_left [OF bt [OF th]]
      by (cases th rule: waits_round.cases) (auto simp: barrier_thread_def)
    moreover have "int (barriers_left th) = barrierRound s" using inv th w by (auto simp: barrier_inv_alt in_round_def)
    ultimately have behind: "barrierRound s < int m" by simp
    have "\<forall>t \<in> set ths. waits_round t = Some (barrierRound s)"
    proof
      fix t assume t: "t \<in> set ths"
      have "barrierRound s = int m" if "t = Run [] (replicate m Passed)"
        using inv t that by (auto simp: barrier_inv_alt in_round_def barriers_left_def)
      with cases [OF t] behind show "waits_round t = Some (barrierRound s)" by auto
    qed
    then have "filter (\<lambda>t. waits_round t = Some (barrierRound s)) ths = ths" by (simp add: filter_id_conv)
    moreover have "ths \<noteq> []" using th by auto
    ultimately show False using inv by (simp add: barrier_inv_alt) linarith
  qed
qed

text \<open>C10: Barriers never deadlock and never run for ever: when \<open>n\<close> participants pass \<open>m\<close> barriers each, every run is at most
  \<open>3 * n * m * (n + 1)\<close> steps long, and a run that cannot be continued has brought every participant through all its
  barriers.\<close>

theorem barriers_terminate:
  assumes "(mstep False store_enter store_recheck ^^ k)
      (joined_store n, start (replicate n (replicate m (\<lambda>_. Barrier)))) (s, ths)"
  shows "k \<le> 3 * n * m * (n + 1) \<and>
    ((\<forall>y. \<not> mstep False store_enter store_recheck (s, ths) y) \<longrightarrow> ths = replicate n (Run [] (replicate m Passed)))"
proof (intro conjI impI)
  let ?x = "(joined_store n, start (replicate n (replicate m (\<lambda>_. Barrier))))"
  have "run_measure ?x = 3 * n * m * (n + 1)"
    by (simp add: run_measure_def map_replicate_const [symmetric] sum_list_replicate comp_def)
  with run_bound [OF assms] show "k \<le> 3 * n * m * (n + 1)" by (metis add_leD1)
  have r: "mreach False store_enter store_recheck ?x (s, ths)" using assms by (rule relpowp_imp_rtranclp)
  assume "\<forall>y. \<not> mstep False store_enter store_recheck (s, ths) y"
  with barriers_quiescent [OF r] have "\<forall>th \<in> set ths. th = Run [] (replicate m Passed)" by blast
  moreover have "length ths = n" using mreach_length [OF r] by simp
  ultimately show "ths = replicate n (Run [] (replicate m Passed))" by (simp add: replicate_eqI)
qed

theorem barriers_terminate_witness:
  "\<exists>(s :: unit store) k. k \<le> 18 \<and> (mstep False store_enter store_recheck ^^ k)
     (joined_store 2, start (replicate 2 (replicate 1 (\<lambda>_. Barrier)))) (s, replicate 2 (Run [] [Passed]))"
proof -
  obtain s :: "unit store" and ths where
    r: "mreach False store_enter store_recheck (joined_store 2, start (replicate 2 (replicate 1 (\<lambda>_. Barrier)))) (s, ths)"
    and q: "\<forall>y. \<not> mstep False store_enter store_recheck (s, ths) y"
    using quiescent_reachable [of store_enter store_recheck "(joined_store 2, start (replicate 2 (replicate 1 (\<lambda>_. Barrier))))"]
    by auto
  then obtain k where k: "(mstep False store_enter store_recheck ^^ k)
      (joined_store 2, start (replicate 2 (replicate 1 (\<lambda>_. Barrier)))) (s, ths)" by (meson rtranclp_imp_relpowp)
  from barriers_terminate [OF k] q have "k \<le> 18" "ths = replicate 2 (Run [] [Passed])" by simp_all
  with k show ?thesis by blast
qed

section \<open>The exchange of a tensor\<close>

text \<open>The producer of a tensor with \<open>n\<close> consumers; a consumer is \<open>DestGetAndToDevice\<close>.\<close>

definition producer :: "string \<Rightarrow> 'v \<Rightarrow> Device \<Rightarrow> nat \<Rightarrow> ('v store_result list \<Rightarrow> 'v store_op) list" where
  "producer key v d n = [\<lambda>_. Set key v d n, \<lambda>_. WaitUntilGetFinished key]"

abbreviation exchange :: "string \<Rightarrow> 'v \<Rightarrow> Device \<Rightarrow> nat \<Rightarrow> ('v store_op, 'v store_result, store_wait) thread list" where
  "exchange key v d n \<equiv> start (producer key v d n # replicate n (DestGetAndToDevice key))"

text \<open>The stages of a consumer: before it has the tensor, with it, and done.\<close>

definition wants :: "string \<Rightarrow> ('v store_op, 'v store_result, store_wait) thread \<Rightarrow> bool" where
  "wants key c \<longleftrightarrow> c = Run [\<lambda>_. Get key, \<lambda>_. FinishGet key] [] \<or> c = Asleep (WaitTensor key) [\<lambda>_. FinishGet key] [] \<or>
     c = Woken (WaitTensor key) [\<lambda>_. FinishGet key] []"

definition has :: "string \<Rightarrow> 'v \<Rightarrow> ('v store_op, 'v store_result, store_wait) thread \<Rightarrow> bool" where
  "has key v c \<longleftrightarrow> c = Run [\<lambda>_. FinishGet key] [Got v]"

definition gave_back :: "'v \<Rightarrow> ('v store_op, 'v store_result, store_wait) thread \<Rightarrow> bool" where
  "gave_back v c \<longleftrightarrow> c = Notifying [] [Got v, Unit] \<or> c = Run [] [Got v, Unit]"

definition published :: "string \<Rightarrow> ('v store_op, 'v store_result, store_wait) thread \<Rightarrow> bool" where
  "published key p \<longleftrightarrow> p = Notifying [\<lambda>_. WaitUntilGetFinished key] [Unit] \<or> p = Run [\<lambda>_. WaitUntilGetFinished key] [Unit] \<or>
     p = Asleep (WaitFinished key) [] [Unit] \<or> p = Woken (WaitFinished key) [] [Unit]"

definition released :: "('v store_op, 'v store_result, store_wait) thread \<Rightarrow> bool" where
  "released p \<longleftrightarrow> p = Run [] [Unit, Unit]"

definition exchange_inv :: "string \<Rightarrow> 'v \<Rightarrow> Device \<Rightarrow> nat \<Rightarrow> 'v store \<times> ('v store_op, 'v store_result, store_wait) thread list \<Rightarrow> bool" where
  "exchange_inv key v d n x \<longleftrightarrow> (case x of (s, ths) \<Rightarrow> \<exists>p cs. ths = p # cs \<and> length cs = n \<and>
     (p = Run (producer key v d n) [] \<and> tensorMap s key = None \<and> (\<forall>c \<in> set cs. wants key c) \<or>
      tensorMap s key = Some v \<and> setEventStreamMap s key = Some d \<and> targetGetCountMap s key = Some n \<and>
      actualGetCountMap s key = Some (length (filter (gave_back v) cs)) \<and>
      (\<forall>c \<in> set cs. wants key c \<or> has key v c \<or> gave_back v c) \<and>
      (published key p \<or> released p \<and> (\<forall>c \<in> set cs. gave_back v c))))"

lemmas stages = wants_def has_def gave_back_def published_def released_def

lemma exchange_inv_before:
  "exchange_inv key v d n (s, p # cs)" if "length cs = n" "p = Run (producer key v d n) []" "tensorMap s key = None"
    "\<And>c. c \<in> set cs \<Longrightarrow> wants key c"
  using that by (simp add: exchange_inv_def)

lemma exchange_inv_after:
  "exchange_inv key v d n (s, p # cs)" if "length cs = n" "tensorMap s key = Some v" "setEventStreamMap s key = Some d"
    "targetGetCountMap s key = Some n" "actualGetCountMap s key = Some (length (filter (gave_back v) cs))"
    "\<And>c. c \<in> set cs \<Longrightarrow> wants key c \<or> has key v c \<or> gave_back v c"
    "published key p \<or> released p \<and> (\<forall>c \<in> set cs. gave_back v c)"
  using that by (simp add: exchange_inv_def)

lemma exchange_inv_cases [consumes 1, case_names before after]:
  assumes "exchange_inv key v d n (s, ths)"
  obtains p cs where "ths = p # cs" "length cs = n" "p = Run (producer key v d n) []" "tensorMap s key = None"
      "\<And>c. c \<in> set cs \<Longrightarrow> wants key c"
  | p cs where "ths = p # cs" "length cs = n" "tensorMap s key = Some v" "setEventStreamMap s key = Some d"
    "targetGetCountMap s key = Some n" "actualGetCountMap s key = Some (length (filter (gave_back v) cs))"
    "\<And>c. c \<in> set cs \<Longrightarrow> wants key c \<or> has key v c \<or> gave_back v c"
    "published key p \<or> released p \<and> (\<forall>c \<in> set cs. gave_back v c)"
  using assms unfolding exchange_inv_def by auto

text \<open>A consumer changes its state; the counter follows the stage.\<close>

lemma exchange_consumer:
  assumes "exchange_inv key v d n (s, p # cs)" and "tensorMap s key = Some v" and "j < length cs"
    and "wants key c \<or> has key v c \<or> gave_back v c" and "gave_back v (cs ! j) \<Longrightarrow> gave_back v c"
    and "tensorMap s' = tensorMap s" "setEventStreamMap s' = setEventStreamMap s" "targetGetCountMap s' = targetGetCountMap s"
    and "actualGetCountMap s' key = (if gave_back v c \<and> \<not> gave_back v (cs ! j) then map_option Suc (actualGetCountMap s key)
       else actualGetCountMap s key)"
  shows "exchange_inv key v d n (s', p # cs[j := c])"
  using assms(1)
proof (cases rule: exchange_inv_cases)
  case (before q cs')
  with assms(2) show ?thesis by simp
next
  case (after q cs')
  then have q: "q = p" "cs' = cs" by simp_all
  have "length (filter (gave_back v) (cs[j := c])) =
      length (filter (gave_back v) cs) + (if gave_back v c \<and> \<not> gave_back v (cs ! j) then 1 else 0)"
    using length_filter_update [OF assms(3), of "gave_back v" c] assms(5) by (auto split: if_splits)
  moreover have "x = c \<or> x \<in> set cs" if "x \<in> set (cs[j := c])" for x using that set_update_subset_insert by fastforce
  ultimately show ?thesis
    using after assms(3-) unfolding q by (intro exchange_inv_after) (auto split: if_splits)
qed

lemma exchange_counts: "length (filter (gave_back v) cs) \<le> length cs"
  by (rule length_filter_le)

lemma exchange_below:
  "j < length cs \<Longrightarrow> \<not> gave_back v (cs ! j) \<Longrightarrow> length (filter (gave_back v) cs) < length cs"
  by (metis length_filter_less nth_mem)

lemma exchange_step_before:
  assumes "mstep sp store_enter store_recheck (s, ths) (s', ths')" and before: "ths = p # cs" "length cs = n"
    "p = Run (producer key v d n) []" "tensorMap s key = None" "\<And>c. c \<in> set cs \<Longrightarrow> wants key c"
  shows "exchange_inv key v d n (s', ths')"
proof -
  have at: "wants key (cs ! j)" if "j < length cs" for j using before(5) that by simp
  have upd: "wants key c \<Longrightarrow> exchange_inv key v d n (s, p # cs[j := c])" for c j
    using before by (intro exchange_inv_before) (auto dest!: set_update_subset_insert [THEN subsetD])
  from assms(1) show ?thesis
  proof cases
    case (enter_done i q ps log r nf)
    show ?thesis
    proof (cases i)
      case 0
      have "filter (gave_back v) cs = []" using before(5) by (auto simp: filter_empty_conv stages)
      with 0 enter_done before show ?thesis
        by (auto simp: producer_def SrcSet_def stages finish_def guardR_def split: if_splits intro!: exchange_inv_after)
    next
      case (Suc j)
      with enter_done before at [of j] show ?thesis by (auto simp: stages DestGet_def finish_def split: if_splits)
    qed
  next
    case (enter_sleep i q ps log w)
    show ?thesis
    proof (cases i)
      case 0
      with enter_sleep before show ?thesis by (auto simp: producer_def SrcSet_def finish_def guardR_def split: if_splits)
    next
      case (Suc j)
      with enter_sleep before at [of j] have "q = (\<lambda>_. Get key)" "ps = [\<lambda>_. FinishGet key]" "log = []"
        by (auto simp: stages)
      with enter_sleep before(4) have "s' = s" "wants key (Asleep w ps log)"
        by (auto simp: DestGet_def finish_def guardR_def stages split: if_splits)
      with upd Suc enter_sleep(1) before(1) show ?thesis by simp
    qed
  next
    case (enter_fail i q ps log e)
    show ?thesis
    proof (cases i)
      case 0
      with enter_fail before show ?thesis by (auto simp: producer_def SrcSet_def finish_def guardR_def split: if_splits)
    next
      case (Suc j)
      with enter_fail before at [of j] show ?thesis by (auto simp: stages DestGet_def finish_def split: if_splits)
    qed
  next
    case (notify i ps log)
    with before(1-4) at [of "i - 1"] show ?thesis by (cases i) (auto simp: stages)
  next
    case (resume i w ps log r)
    with before(1-4) at [of "i - 1"] show ?thesis by (cases i) (auto simp: stages)
  next
    case (resume_fail i w ps log e)
    with before(1-4) at [of "i - 1"] show ?thesis by (cases i) (auto simp: stages)
  next
    case (sleep_again i w ps log)
    with before(1-4) at [of "i - 1"] upd show ?thesis by (cases i) (auto simp: stages)
  next
    case (wake_spurious i w ps log)
    with before(1-4) at [of "i - 1"] upd show ?thesis by (cases i) (auto simp: stages)
  qed
qed

text \<open>The producer, or a consumer that stays in its stage, moves.\<close>

lemma exchange_producer:
  assumes "exchange_inv key v d n (s, p # cs)" and "tensorMap s key = Some v"
    and "published key q \<or> released q \<and> (\<forall>c \<in> set cs. gave_back v c)"
  shows "exchange_inv key v d n (s, q # cs)"
  using assms(1) by (cases rule: exchange_inv_cases) (use assms(2,3) in \<open>auto intro!: exchange_inv_after\<close>)

lemma exchange_stays:
  assumes "exchange_inv key v d n (s, p # cs)" and "tensorMap s key = Some v" and "j < length cs"
    and "wants key c \<or> has key v c \<or> gave_back v c" and "gave_back v (cs ! j) \<longleftrightarrow> gave_back v c"
  shows "exchange_inv key v d n (s, p # cs[j := c])"
  using assms by (intro exchange_consumer [OF assms(1,2)]) auto

lemma exchange_all_back:
  "length (filter (gave_back v) cs) = length cs \<Longrightarrow> \<forall>c \<in> set cs. gave_back v c"
  by (metis length_filter_less less_irrefl)

lemma exchange_enter_done:
  assumes enter_done: "ths' = ths[i := if nf then Notifying ps (log @ [r]) else Run ps (log @ [r])]" "i < length ths"
    "ths ! i = Run (q # ps) log" "store_enter (q log) s = Done s' r nf"
  and after: "ths = p # cs" "length cs = n" "tensorMap s key = Some v" "setEventStreamMap s key = Some d"
    "targetGetCountMap s key = Some n" "actualGetCountMap s key = Some (length (filter (gave_back v) cs))"
    "\<And>c. c \<in> set cs \<Longrightarrow> wants key c \<or> has key v c \<or> gave_back v c"
    "published key p \<or> released p \<and> (\<forall>c \<in> set cs. gave_back v c)"
  shows "exchange_inv key v d n (s', ths')"
proof -
  have inv': "exchange_inv key v d n (s, p # cs)" using after by (intro exchange_inv_after) auto
  have at: "wants key (cs ! j) \<or> has key v (cs ! j) \<or> gave_back v (cs ! j)" if "j < length cs" for j using after(7) that by simp
  note prod = exchange_producer [OF inv' after(3)] and cons = exchange_stays [OF inv' after(3)]
  show ?thesis
  proof (cases i)
    case 0
    with enter_done after(1,8) have q: "q = (\<lambda>_. WaitUntilGetFinished key)" "ps = []" "log = [Unit]"
      by (auto simp: stages)
    with enter_done after have "s' = s" "r = Unit" "\<not> nf" "length (filter (gave_back v) cs) = length cs"
      using exchange_counts [of v cs]
      by (auto simp: SrcWaitUntilGetFinished_def SrcWait_end_def get_finished_def at_map_def finish_def guardR_def split: if_splits)
    moreover from this have "\<forall>c \<in> set cs. gave_back v c" by (metis length_filter_less less_irrefl)
    ultimately show ?thesis using 0 enter_done(1) after(1) q prod [of "Run [] [Unit, Unit]"] by (simp add: released_def)
  next
    case (Suc j)
    then have j: "j < length cs" "cs ! j = Run (q # ps) log" using enter_done(2,3) after(1) by auto
    from at [OF j(1)] j(2) show ?thesis
    proof (elim disjE)
      assume "wants key (cs ! j)"
      with j(2) have q: "q = (\<lambda>_. Get key)" "ps = [\<lambda>_. FinishGet key]" "log = []" by (auto simp: stages)
      with enter_done after(3) have "s' = s" "r = Got v" "\<not> nf" by (auto simp: DestGet_def DestGet_end_def finish_def)
      with cons [OF j(1), of "Run [\<lambda>_. FinishGet key] [Got v]"] q j(2) Suc enter_done(1) after(1) show ?thesis
        by (simp add: stages)
    next
      assume "has key v (cs ! j)"
      with j(2) have q: "q = (\<lambda>_. FinishGet key)" "ps = []" "log = [Got v]" by (auto simp: stages)
      with enter_done after(3,5,6) have s': "s' = s\<lparr>actualGetCountMap := (actualGetCountMap s)(key \<mapsto> Suc (length (filter (gave_back v) cs)))\<rparr>"
        "r = Unit" by (auto simp: DestFinishGet_def at_map_def finish_def guardR_def split: if_splits)
      have "gave_back v (if nf then Notifying ps (log @ [r]) else Run ps (log @ [r]))" using q s'(2) by (auto simp: stages)
      then have "exchange_inv key v d n (s', p # cs[j := if nf then Notifying ps (log @ [r]) else Run ps (log @ [r])])"
        using j q after(6) by (intro exchange_consumer [OF inv' after(3)]) (auto simp: s'(1) stages)
      with Suc enter_done(1) after(1) show ?thesis by simp
    next
      assume "gave_back v (cs ! j)"
      with j(2) show ?thesis by (auto simp: stages)
    qed
  qed
qed

lemma exchange_enter_sleep:
  assumes enter_sleep: "ths' = ths[i := Asleep w ps log]" "i < length ths"
    "ths ! i = Run (q # ps) log" "store_enter (q log) s = Sleep s' w"
  and after: "ths = p # cs" "length cs = n" "tensorMap s key = Some v" "setEventStreamMap s key = Some d"
    "targetGetCountMap s key = Some n" "actualGetCountMap s key = Some (length (filter (gave_back v) cs))"
    "\<And>c. c \<in> set cs \<Longrightarrow> wants key c \<or> has key v c \<or> gave_back v c"
    "published key p \<or> released p \<and> (\<forall>c \<in> set cs. gave_back v c)"
  shows "exchange_inv key v d n (s', ths')"
proof -
  have inv': "exchange_inv key v d n (s, p # cs)" using after by (intro exchange_inv_after) auto
  have at: "wants key (cs ! j) \<or> has key v (cs ! j) \<or> gave_back v (cs ! j)" if "j < length cs" for j using after(7) that by simp
  note prod = exchange_producer [OF inv' after(3)] and cons = exchange_stays [OF inv' after(3)]
  show ?thesis
  proof (cases i)
    case 0
    with enter_sleep after(1,8) have q: "q = (\<lambda>_. WaitUntilGetFinished key)" "ps = []" "log = [Unit]"
      by (auto simp: stages)
    with enter_sleep after(5,6) have "s' = s" "w = WaitFinished key"
      by (auto simp: SrcWaitUntilGetFinished_def SrcWait_end_def get_finished_def at_map_def finish_def guardR_def split: if_splits sum.splits)
    with 0 enter_sleep(1) after(1) q prod [of "Asleep w ps log"] show ?thesis by (simp add: published_def)
  next
    case (Suc j)
    then have j: "j < length cs" "cs ! j = Run (q # ps) log" using enter_sleep(2,3) after(1) by auto
    with at [OF j(1)] enter_sleep(4) after(3,5,6) show ?thesis
      by (auto simp: stages DestGet_def DestGet_end_def DestFinishGet_def at_map_def finish_def guardR_def split: if_splits)
  qed
qed

lemma exchange_enter_fail:
  assumes enter_fail: "s' = s" "ths' = ths[i := Crashed e log]" "i < length ths"
    "ths ! i = Run (q # ps) log" "store_enter (q log) s = Fail e"
  and after: "ths = p # cs" "length cs = n" "tensorMap s key = Some v" "setEventStreamMap s key = Some d"
    "targetGetCountMap s key = Some n" "actualGetCountMap s key = Some (length (filter (gave_back v) cs))"
    "\<And>c. c \<in> set cs \<Longrightarrow> wants key c \<or> has key v c \<or> gave_back v c"
    "published key p \<or> released p \<and> (\<forall>c \<in> set cs. gave_back v c)"
  shows "exchange_inv key v d n (s', ths')"
proof -
  have inv': "exchange_inv key v d n (s, p # cs)" using after by (intro exchange_inv_after) auto
  have at: "wants key (cs ! j) \<or> has key v (cs ! j) \<or> gave_back v (cs ! j)" if "j < length cs" for j using after(7) that by simp
  note prod = exchange_producer [OF inv' after(3)] and cons = exchange_stays [OF inv' after(3)]
  show ?thesis
  proof (cases i)
    case 0
    with enter_fail after(1,8) have q: "q = (\<lambda>_. WaitUntilGetFinished key)" by (auto simp: stages)
    with enter_fail after(2,4,5,6) exchange_counts [of v cs] show ?thesis
      by (auto simp: SrcWaitUntilGetFinished_def SrcWait_end_def get_finished_def at_map_def finish_def guardR_def split: if_splits)
  next
    case (Suc j)
    then have j: "j < length cs" "cs ! j = Run (q # ps) log" using enter_fail(3,4) after(1) by auto
    then have "\<not> gave_back v (cs ! j)" by (auto simp: stages)
    from exchange_below [OF j(1) this] j at [OF j(1)] enter_fail(5) after(2,3,5,6) show ?thesis
      by (auto simp: stages DestGet_def DestGet_end_def DestFinishGet_def at_map_def finish_def guardR_def split: if_splits)
  qed
qed

lemma exchange_notify:
  assumes notify: "s' = s" "ths' = (map wake_up ths)[i := Run ps log]" "i < length ths"
    "ths ! i = Notifying ps log"
  and after: "ths = p # cs" "length cs = n" "tensorMap s key = Some v" "setEventStreamMap s key = Some d"
    "targetGetCountMap s key = Some n" "actualGetCountMap s key = Some (length (filter (gave_back v) cs))"
    "\<And>c. c \<in> set cs \<Longrightarrow> wants key c \<or> has key v c \<or> gave_back v c"
    "published key p \<or> released p \<and> (\<forall>c \<in> set cs. gave_back v c)"
  shows "exchange_inv key v d n (s', ths')"
proof -
  have inv': "exchange_inv key v d n (s, p # cs)" using after by (intro exchange_inv_after) auto
  have at: "wants key (cs ! j) \<or> has key v (cs ! j) \<or> gave_back v (cs ! j)" if "j < length cs" for j using after(7) that by simp
  note prod = exchange_producer [OF inv' after(3)] and cons = exchange_stays [OF inv' after(3)]
  have w: "wants key (wake_up c) = wants key c" "has key v (wake_up c) = has key v c" "gave_back v (wake_up c) = gave_back v c"
    "published key (wake_up c) = published key c" "released (wake_up c) = released c"
    for c :: "('a store_op, 'a store_result, store_wait) thread"
    by (cases c; auto simp: stages)+
  have all: "exchange_inv key v d n (s, wake_up p # map wake_up cs)"
    using after by (intro exchange_inv_after) (auto simp: w filter_map comp_def dest!: after(7))
  show ?thesis
  proof (cases i)
    case 0
    with notify after(1,8) have "published key (Run ps log :: ('a store_op, 'a store_result, store_wait) thread)" by (auto simp: stages)
    then have "exchange_inv key v d n (s, Run ps log # map wake_up cs)"
      using after by (intro exchange_inv_after) (auto simp: w filter_map comp_def dest!: after(7))
    with 0 notify(1,2) after(1) show ?thesis by simp
  next
    case (Suc j)
    then have j: "j < length cs" "cs ! j = Notifying ps log" using notify(3,4) after(1) by auto
    with at [OF j(1)] have g: "gave_back v (cs ! j)" "gave_back v (Run ps log :: ('a store_op, 'a store_result, store_wait) thread)"
      by (auto simp: stages)
    have "exchange_inv key v d n (s, wake_up p # (map wake_up cs)[j := Run ps log])"
      using j g by (intro exchange_consumer [OF all after(3)]) (auto simp: w)
    with Suc notify(1,2) after(1) show ?thesis by simp
  qed
qed

lemma exchange_resume:
  assumes resume: "s' = s" "ths' = ths[i := Run ps (log @ [r])]" "i < length ths"
    "ths ! i = Woken w ps log" "store_recheck w s = Inr (Some r)"
  and after: "ths = p # cs" "length cs = n" "tensorMap s key = Some v" "setEventStreamMap s key = Some d"
    "targetGetCountMap s key = Some n" "actualGetCountMap s key = Some (length (filter (gave_back v) cs))"
    "\<And>c. c \<in> set cs \<Longrightarrow> wants key c \<or> has key v c \<or> gave_back v c"
    "published key p \<or> released p \<and> (\<forall>c \<in> set cs. gave_back v c)"
  shows "exchange_inv key v d n (s', ths')"
proof -
  have inv': "exchange_inv key v d n (s, p # cs)" using after by (intro exchange_inv_after) auto
  have at: "wants key (cs ! j) \<or> has key v (cs ! j) \<or> gave_back v (cs ! j)" if "j < length cs" for j using after(7) that by simp
  note prod = exchange_producer [OF inv' after(3)] and cons = exchange_stays [OF inv' after(3)]
  show ?thesis
  proof (cases i)
    case 0
    with resume after(1,8) have q: "w = WaitFinished key" "ps = []" "log = [Unit]" by (auto simp: stages)
    with resume after have "r = Unit" "length (filter (gave_back v) cs) = length cs"
      by (auto simp: SrcWait_end_def get_finished_def at_map_def guardR_def split: if_splits)
    moreover from this have "\<forall>c \<in> set cs. gave_back v c" by (metis length_filter_less less_irrefl)
    ultimately show ?thesis using 0 resume(1,2) after(1) q prod [of "Run [] [Unit, Unit]"] by (simp add: released_def)
  next
    case (Suc j)
    then have j: "j < length cs" "cs ! j = Woken w ps log" using resume(3,4) after(1) by auto
    with at [OF j(1)] have q: "w = WaitTensor key" "ps = [\<lambda>_. FinishGet key]" "log = []" by (auto simp: stages)
    with resume after(3) have "r = Got v" by (auto simp: DestGet_end_def)
    with cons [OF j(1), of "Run [\<lambda>_. FinishGet key] [Got v]"] q j(2) Suc resume(1,2) after(1) show ?thesis
      by (simp add: stages)
  qed
qed

lemma exchange_resume_fail:
  assumes resume_fail: "s' = s" "ths' = ths[i := Crashed e log]" "i < length ths"
    "ths ! i = Woken w ps log" "store_recheck w s = Inl e"
  and after: "ths = p # cs" "length cs = n" "tensorMap s key = Some v" "setEventStreamMap s key = Some d"
    "targetGetCountMap s key = Some n" "actualGetCountMap s key = Some (length (filter (gave_back v) cs))"
    "\<And>c. c \<in> set cs \<Longrightarrow> wants key c \<or> has key v c \<or> gave_back v c"
    "published key p \<or> released p \<and> (\<forall>c \<in> set cs. gave_back v c)"
  shows "exchange_inv key v d n (s', ths')"
proof -
  have inv': "exchange_inv key v d n (s, p # cs)" using after by (intro exchange_inv_after) auto
  have at: "wants key (cs ! j) \<or> has key v (cs ! j) \<or> gave_back v (cs ! j)" if "j < length cs" for j using after(7) that by simp
  note prod = exchange_producer [OF inv' after(3)] and cons = exchange_stays [OF inv' after(3)]
  show ?thesis
  proof (cases i)
    case 0
    with resume_fail after(1,8) have q: "w = WaitFinished key" by (auto simp: stages)
    with resume_fail after(4-6) show ?thesis
      by (auto simp: SrcWait_end_def get_finished_def at_map_def guardR_def split: if_splits)
  next
    case (Suc j)
    then have j: "j < length cs" "cs ! j = Woken w ps log" using resume_fail(3,4) after(1) by auto
    with at [OF j(1)] have "w = WaitTensor key" by (auto simp: stages)
    with resume_fail after(3) show ?thesis by (auto simp: DestGet_end_def)
  qed
qed

lemma exchange_sleep_again:
  assumes sleep_again: "s' = s" "ths' = ths[i := Asleep w ps log]" "i < length ths"
    "ths ! i = Woken w ps log" "store_recheck w s = Inr None"
  and after: "ths = p # cs" "length cs = n" "tensorMap s key = Some v" "setEventStreamMap s key = Some d"
    "targetGetCountMap s key = Some n" "actualGetCountMap s key = Some (length (filter (gave_back v) cs))"
    "\<And>c. c \<in> set cs \<Longrightarrow> wants key c \<or> has key v c \<or> gave_back v c"
    "published key p \<or> released p \<and> (\<forall>c \<in> set cs. gave_back v c)"
  shows "exchange_inv key v d n (s', ths')"
proof -
  have inv': "exchange_inv key v d n (s, p # cs)" using after by (intro exchange_inv_after) auto
  have at: "wants key (cs ! j) \<or> has key v (cs ! j) \<or> gave_back v (cs ! j)" if "j < length cs" for j using after(7) that by simp
  note prod = exchange_producer [OF inv' after(3)] and cons = exchange_stays [OF inv' after(3)]
  show ?thesis
  proof (cases i)
    case 0
    with sleep_again after(1,8) have "published key (Asleep w ps log :: ('a store_op, 'a store_result, store_wait) thread)" by (auto simp: stages)
    with 0 sleep_again(1,2) after(1) prod show ?thesis by simp
  next
    case (Suc j)
    then have j: "j < length cs" "cs ! j = Woken w ps log" using sleep_again(3,4) after(1) by auto
    with at [OF j(1)] have "wants key (cs ! j)" "wants key (Asleep w ps log :: ('a store_op, 'a store_result, store_wait) thread)"
      by (auto simp: stages)
    with cons [OF j(1), of "Asleep w ps log"] j(2) Suc sleep_again(1,2) after(1) show ?thesis by (simp add: stages)
  qed
qed

lemma exchange_spurious:
  assumes wake_spurious: "s' = s" "ths' = ths[i := Woken w ps log]" "i < length ths"
    "ths ! i = Asleep w ps log"
  and after: "ths = p # cs" "length cs = n" "tensorMap s key = Some v" "setEventStreamMap s key = Some d"
    "targetGetCountMap s key = Some n" "actualGetCountMap s key = Some (length (filter (gave_back v) cs))"
    "\<And>c. c \<in> set cs \<Longrightarrow> wants key c \<or> has key v c \<or> gave_back v c"
    "published key p \<or> released p \<and> (\<forall>c \<in> set cs. gave_back v c)"
  shows "exchange_inv key v d n (s', ths')"
proof -
  have inv': "exchange_inv key v d n (s, p # cs)" using after by (intro exchange_inv_after) auto
  have at: "wants key (cs ! j) \<or> has key v (cs ! j) \<or> gave_back v (cs ! j)" if "j < length cs" for j using after(7) that by simp
  note prod = exchange_producer [OF inv' after(3)] and cons = exchange_stays [OF inv' after(3)]
  show ?thesis
  proof (cases i)
    case 0
    with wake_spurious after(1,8) have "published key (Woken w ps log :: ('a store_op, 'a store_result, store_wait) thread)" by (auto simp: stages)
    with 0 wake_spurious(1,2) after(1) prod show ?thesis by simp
  next
    case (Suc j)
    then have j: "j < length cs" "cs ! j = Asleep w ps log" using wake_spurious(3,4) after(1) by auto
    with at [OF j(1)] have "wants key (Woken w ps log :: ('a store_op, 'a store_result, store_wait) thread)"
      by (auto simp: stages)
    with cons [OF j(1), of "Woken w ps log"] j(2) Suc wake_spurious(1,2) after(1) show ?thesis by (simp add: stages)
  qed
qed

lemma exchange_inv_step:
  assumes "mstep sp store_enter store_recheck (s, ths) (s', ths')" and inv: "exchange_inv key v d n (s, ths)"
  shows "exchange_inv key v d n (s', ths')"
  using inv
proof (cases rule: exchange_inv_cases)
  case (before p cs)
  with assms(1) show ?thesis by (rule exchange_step_before)
next
  case (after p cs)
  from assms(1) show ?thesis
  proof cases
    case (enter_done i q ps log r nf)
    from this after show ?thesis by (rule exchange_enter_done)
  next
    case (enter_sleep i q ps log w)
    from this after show ?thesis by (rule exchange_enter_sleep)
  next
    case (enter_fail i q ps log e)
    from this after show ?thesis by (rule exchange_enter_fail)
  next
    case (notify i ps log)
    from this after show ?thesis by (rule exchange_notify)
  next
    case (resume i w ps log r)
    from this after show ?thesis by (rule exchange_resume)
  next
    case (resume_fail i w ps log e)
    from this after show ?thesis by (rule exchange_resume_fail)
  next
    case (sleep_again i w ps log)
    from this after show ?thesis by (rule exchange_sleep_again)
  next
    case (wake_spurious i w ps log)
    from this(1-4) after show ?thesis by (rule exchange_spurious)
  qed
qed

lemma exchange_inv_reachable:
  assumes "mreach sp store_enter store_recheck (s0, exchange key v d n) x" and "tensorMap s0 key = None"
  shows "exchange_inv key v d n x"
proof (rule mreach_invariant [where Inv = "exchange_inv key v d n", OF assms(1)])
  show "exchange_inv key v d n (s0, exchange key v d n)"
    using assms(2) by (auto simp: wants_def DestGetAndToDevice_def intro!: exchange_inv_before)
qed (rule exchange_inv_step)

lemma stage_results:
  "wants key c \<Longrightarrow> results c = [] \<and> (\<forall>e log. c \<noteq> Crashed e log)"
  "has key v c \<Longrightarrow> results c = [Got v] \<and> (\<forall>e log. c \<noteq> Crashed e log)"
  "gave_back v c \<Longrightarrow> results c = [Got v, Unit] \<and> (\<forall>e log. c \<noteq> Crashed e log)"
  "published key c \<Longrightarrow> results c = [Unit] \<and> (\<forall>e log. c \<noteq> Crashed e log)"
  "released c \<Longrightarrow> results c = [Unit, Unit] \<and> (\<forall>e log. c \<noteq> Crashed e log)"
  by (auto simp: stages)

lemma exchange_quiescent:
  assumes inv: "exchange_inv key v d n (s, ths)" and aw: "store.awaited (s, ths)"
    and quiet: "\<And>y. \<not> mstep False store_enter store_recheck (s, ths) y"
  shows "ths = Run [] [Unit, Unit] # replicate n (Run [] [Got v, Unit])"
proof -
    have rest: "(\<exists>log. th = Run [] log) \<or> (\<exists>w ps log. th = Asleep w ps log \<and> \<not> can_go store_recheck w s) \<or> (\<exists>e log. th = Crashed e log)"
    if "th \<in> set ths" for th by (rule store.quiescent_threads [OF aw quiet that]) auto
  from inv show ?thesis
  proof (cases rule: exchange_inv_cases)
    case (before p cs)
    with rest [of p] show ?thesis by (auto simp: producer_def)
  next
    case (after p cs)
    have fin: "c = Run [] [Got v, Unit]" if c: "c \<in> set cs" for c
      using rest [of c] after(7) [OF c] after(1,3) c by (auto simp: stages)
    then have "filter (gave_back v) cs = cs" by (auto simp: gave_back_def filter_id_conv)
    with rest [of p] after have "p = Run [] [Unit, Unit]" by (auto simp: stages)
    moreover have "cs = replicate n (Run [] [Got v, Unit])" using fin after(2) by (auto intro: replicate_eqI)
    ultimately show ?thesis using after(1) by simp
  qed
qed

text \<open>C14: The exchange of a tensor is safe: a producer and \<open>n\<close> consumers of one key, on a store where the key is free, never
  abort and never see an exception, whatever the order of their sections and even with spurious wake-ups; a consumer
  only ever receives the tensor that was set, and when the producer returns from waiting every consumer has given it back.\<close>

theorem tensor_exchange_safe:
  assumes "mreach sp store_enter store_recheck (s0, exchange key v d n) (s, ths)" and "tensorMap s0 key = None"
  shows "(\<forall>th \<in> set ths. \<forall>e log. th \<noteq> Crashed e log) \<and>
    (\<forall>c \<in> set (tl ths). results c = [] \<or> results c = [Got v] \<or> results c = [Got v, Unit]) \<and>
    (results (hd ths) = [Unit, Unit] \<longrightarrow> (\<forall>c \<in> set (tl ths). results c = [Got v, Unit]))"
  using exchange_inv_reachable [OF assms]
proof (cases rule: exchange_inv_cases)
  case (before p cs)
  then have "\<forall>c \<in> set cs. results c = [] \<and> (\<forall>e log. c \<noteq> Crashed e log)" using stage_results(1) by blast
  with before(1,3) show ?thesis by simp
next
  case (after p cs)
  have "(results c = [] \<or> results c = [Got v] \<or> results c = [Got v, Unit]) \<and> (\<forall>e log. c \<noteq> Crashed e log)"
    if "c \<in> set cs" for c using after(7) [OF that] stage_results(1,3) [of _ c] stage_results(2) [of key v c] by auto
  moreover have "(results p = [Unit, Unit] \<longrightarrow> (\<forall>c \<in> set cs. results c = [Got v, Unit])) \<and> (\<forall>e log. p \<noteq> Crashed e log)"
    using after(8) stage_results(4) [of key p] stage_results(5) [of p] stage_results(3) [of v] by auto
  ultimately show ?thesis using after(1) by simp
qed

theorem tensor_exchange_safe_witness:
  "\<exists>s ths. mreach True store_enter store_recheck (Store_Impl, exchange ''x'' True (mk_Device kCpu 0) 1) (s, ths) \<and>
    tensorMap s ''x'' = Some True \<and> (\<forall>th \<in> set ths. \<forall>e log. th \<noteq> Crashed e log)"
proof -
  let ?ex = "exchange ''x'' True (mk_Device kCpu 0) 1"
  let ?s = "Store_Impl\<lparr>tensorMap := [''x'' \<mapsto> True], setEventStreamMap := [''x'' \<mapsto> mk_Device kCpu 0],
    targetGetCountMap := [''x'' \<mapsto> 1], actualGetCountMap := [''x'' \<mapsto> 0]\<rparr>"
  have "mstep True store_enter store_recheck (Store_Impl, ?ex) (?s, ?ex[0 := Notifying [\<lambda>_. WaitUntilGetFinished ''x''] ([] @ [Unit])])"
    using enter_done [of 0 ?ex "\<lambda>_. Set ''x'' True (mk_Device kCpu 0) 1" "[\<lambda>_. WaitUntilGetFinished ''x'']" "[]" store_enter
        Store_Impl ?s Unit True True store_recheck]
    by (simp add: producer_def SrcSet_def Store_Impl_def)
  then have r: "mreach True store_enter store_recheck (Store_Impl, ?ex) (?s, ?ex[0 := Notifying [\<lambda>_. WaitUntilGetFinished ''x''] ([] @ [Unit])])"
    by blast
  from tensor_exchange_safe [OF r] have "\<forall>th \<in> set (?ex[0 := Notifying [\<lambda>_. WaitUntilGetFinished ''x''] ([] @ [Unit])]).
      \<forall>e log. th \<noteq> Crashed e log" by (simp add: Store_Impl_def)
  with r show ?thesis by (intro exI conjI) auto
qed

text \<open>C15: The exchange of a tensor ends: every run of a producer and \<open>n\<close> consumers has at most \<open>6 * (n + 1) * (n + 2)\<close>
  steps, and a run that cannot be continued has finished the producer and given the tensor to every consumer, so no wake-up
  is lost and nobody waits for ever.\<close>

theorem tensor_exchange_terminates:
  assumes "(mstep False store_enter store_recheck ^^ k) (s0, exchange key v d n) (s, ths)" and "tensorMap s0 key = None"
  shows "k \<le> 6 * (n + 1) * (n + 2) \<and>
    ((\<forall>y. \<not> mstep False store_enter store_recheck (s, ths) y) \<longrightarrow>
       ths = Run [] [Unit, Unit] # replicate n (Run [] [Got v, Unit]))"
proof (intro conjI impI)
  have "run_measure (s0, exchange key v d n) = 6 * (n + 1) * (n + 2)"
    by (simp add: run_measure_def sum_list_replicate comp_def producer_def DestGetAndToDevice_def algebra_simps)
  with run_bound [OF assms(1)] show "k \<le> 6 * (n + 1) * (n + 2)" by (metis add_leD1)
  have r: "mreach False store_enter store_recheck (s0, exchange key v d n) (s, ths)" using assms(1) by (rule relpowp_imp_rtranclp)
  assume "\<forall>y. \<not> mstep False store_enter store_recheck (s, ths) y"
  then show "ths = Run [] [Unit, Unit] # replicate n (Run [] [Got v, Unit])"
    using store.no_lost_wakeup [OF r] exchange_inv_reachable [OF r assms(2)] by (intro exchange_quiescent) auto
qed

theorem tensor_exchange_terminates_witness:
  "\<exists>(s :: bool store) k. k \<le> 72 \<and> (mstep False store_enter store_recheck ^^ k) (Store_Impl, exchange ''x'' True (mk_Device kCpu 0) 2)
     (s, [Run [] [Unit, Unit], Run [] [Got True, Unit], Run [] [Got True, Unit]])"
proof -
  obtain s :: "bool store" and ths where
    r: "mreach False store_enter store_recheck (Store_Impl, exchange ''x'' True (mk_Device kCpu 0) 2) (s, ths)"
    and q: "\<forall>y. \<not> mstep False store_enter store_recheck (s, ths) y"
    using quiescent_reachable [of store_enter store_recheck "(Store_Impl, exchange ''x'' True (mk_Device kCpu 0) 2)"] by auto
  then obtain k where k: "(mstep False store_enter store_recheck ^^ k) (Store_Impl, exchange ''x'' True (mk_Device kCpu 0) 2) (s, ths)"
    by (meson rtranclp_imp_relpowp)
  from tensor_exchange_terminates [OF k] q have "k \<le> 72" "ths = [Run [] [Unit, Unit], Run [] [Got True, Unit], Run [] [Got True, Unit]]"
    by (simp_all add: Store_Impl_def numeral_2_eq_2)
  with k show ?thesis by blast
qed

end
