(* ===== verification/SystemOps.thy ===== *)
theory SystemOps
  imports ConvOps Kernels Conversions TensorStores
begin

text \<open>
  Operators without tensor inputs and the operators of the system: src/dtorch/core/operators/standard/create_op,
  convert_op, core/operators/system/ (memory_op, sync_op, nvtx_op, get_tensor_op), core/operators/fused_compile/, the
  kernels create_kernel, copy_kernel, memory_kernel, sync_kernel and view_kernel of
  core/kernel/kernel_implement/, and the memory statistics of api/cpp/memory_stats.  libtorch, the serialization of
  boost and the profiler are parameters.
\<close>

section \<open>Creation of tensors\<close>

datatype CreateKind =
  kZeros | kOnes | kFull | kEye | kEmpty | kArange | kRandInt | kRand | kRandn | kFromTorch | CreateKind_kCount

record ('g, 't) CreateParam =
  createKind :: CreateKind
  create_shape :: shape
  create_dataKind :: DataKind
  create_mesh :: DeviceMesh
  create_placements :: placement_seq
  create_generator :: "'g option option"
  doubleArg0 :: double
  doubleArg1 :: double
  doubleArg2 :: double
  torchValue :: "'t option"

definition CreateParam_new ::
    "CreateKind \<Rightarrow> shape \<Rightarrow> DataKind \<Rightarrow> DeviceMesh \<Rightarrow> placement_seq \<Rightarrow> ('g, 't) CreateParam" where
  "CreateParam_new kind shape dataKind mesh placements = \<lparr>createKind = kind, create_shape = shape, create_dataKind = dataKind,
     create_mesh = mesh, create_placements = placements, create_generator = None, doubleArg0 = Double 0,
     doubleArg1 = Double 0, doubleArg2 = Double 0, torchValue = None\<rparr>"

text \<open>
  Arithmetic on doubles.  The sign of a zero is not kept; it would only choose the sign of an infinity, whose conversion
  to an integer is undefined either way.
\<close>

fun double_minus :: "double \<Rightarrow> double \<Rightarrow> double" where
  "double_minus NaN y = NaN"
| "double_minus x NaN = NaN"
| "double_minus (Double a) (Double b) = round_double (a - b)"
| "double_minus PosInf PosInf = NaN"
| "double_minus NegInf NegInf = NaN"
| "double_minus PosInf y = PosInf"
| "double_minus NegInf y = NegInf"
| "double_minus x PosInf = NegInf"
| "double_minus x NegInf = PosInf"

fun double_div :: "double \<Rightarrow> double \<Rightarrow> double" where
  "double_div (Double a) (Double b) =
     (if b = 0 then (if a = 0 then NaN else if a > 0 then PosInf else NegInf) else round_double (a / b))"
| "double_div NaN y = NaN"
| "double_div x NaN = NaN"
| "double_div (Double a) y = Double 0"
| "double_div PosInf (Double b) = (if b \<ge> 0 then PosInf else NegInf)"
| "double_div NegInf (Double b) = (if b \<ge> 0 then NegInf else PosInf)"
| "double_div x y = NaN"

definition double_ceil :: "double \<Rightarrow> double" where
  "double_ceil x = (case x of Double a \<Rightarrow> Double (of_int \<lceil>a\<rceil>) | _ \<Rightarrow> x)"

definition ComputeShapeForArange :: "double \<Rightarrow> double \<Rightarrow> double \<Rightarrow> shape res" where
  "ComputeShapeForArange start1 end1 step =
     bindR (double_to_int64 (double_ceil (double_div (double_minus end1 start1) step))) (\<lambda>n.
       requireR (\<not> n \<le> 0) (Inr [n]))"

definition Create_shape :: "'t tensor_meta \<Rightarrow> ('g, 't) CreateParam \<Rightarrow> shape res" where
  "Create_shape M param = (case createKind param of
       kEmpty \<Rightarrow> Inr (create_shape param)
     | kFull \<Rightarrow> Inr (create_shape param)
     | kOnes \<Rightarrow> Inr (create_shape param)
     | kZeros \<Rightarrow> Inr (create_shape param)
     | kRand \<Rightarrow> Inr (create_shape param)
     | kRandn \<Rightarrow> Inr (create_shape param)
     | kRandInt \<Rightarrow> Inr (create_shape param)
     | kArange \<Rightarrow> ComputeShapeForArange (doubleArg0 param) (doubleArg1 param) (doubleArg2 param)
     | kFromTorch \<Rightarrow> (case torchValue param of
          None \<Rightarrow> Inr (create_shape param)
        | Some t \<Rightarrow> assertR (create_shape param = tm_shape M t)
            (assertR (create_dataKind param = tm_kind M t) (Inr (create_shape param))))
     | kEye \<Rightarrow> Inl Abort
     | CreateKind_kCount \<Rightarrow> Inl Abort)"

definition Create_InferOutputMetaInfo ::
    "'t tensor_meta \<Rightarrow> ('g, 't) CreateParam \<Rightarrow> operand list \<Rightarrow> operand list \<Rightarrow> operand list res" where
  "Create_InferOutputMetaInfo M param inputs outputs =
     assertR (length inputs = 0)
      (bindR (Create_shape M param) (\<lambda>outShape.
        UpdateOutput 0 (\<lambda>y. SetDeviceMeshAndPlacementSeq (create_mesh param) (create_placements param)
          (SetDataKind (create_dataKind param) (SetShapeAndStride outShape [] y))) outputs))"

definition Create_class :: "'t tensor_meta \<Rightarrow> ('g, 't) CreateParam \<Rightarrow> op_class" where
  "Create_class M param = keep_class True (\<lambda>_. Inr ()) (Create_InferOutputMetaInfo M param)"

text \<open>The factory functions of libtorch.\<close>

record ('g, 't) torch_factory =
  torch_zeros :: "shape \<Rightarrow> DataKind \<Rightarrow> Device \<Rightarrow> 't"
  torch_ones :: "shape \<Rightarrow> DataKind \<Rightarrow> Device \<Rightarrow> 't"
  torch_empty :: "shape \<Rightarrow> DataKind \<Rightarrow> Device \<Rightarrow> 't"
  torch_full :: "shape \<Rightarrow> double \<Rightarrow> DataKind \<Rightarrow> Device \<Rightarrow> 't"
  torch_arange :: "double \<Rightarrow> double \<Rightarrow> double \<Rightarrow> DataKind \<Rightarrow> Device \<Rightarrow> 't"
  torch_randint :: "double \<Rightarrow> double \<Rightarrow> shape \<Rightarrow> 'g option \<Rightarrow> DataKind \<Rightarrow> Device \<Rightarrow> 't"
  torch_rand :: "shape \<Rightarrow> 'g option \<Rightarrow> DataKind \<Rightarrow> Device \<Rightarrow> 't"
  torch_randn :: "shape \<Rightarrow> 'g option \<Rightarrow> DataKind \<Rightarrow> Device \<Rightarrow> 't"
  torch_clone :: "'t \<Rightarrow> 't"

definition CreateTensor ::
    "('g, 't) torch_factory \<Rightarrow> 't tensor_meta \<Rightarrow> ('g, 't) CreateParam \<Rightarrow> Device \<Rightarrow> shape \<Rightarrow> 't res" where
  "CreateTensor F M param device outputShape =
     (let kind = create_dataKind param; generator = Option.bind (create_generator param) (\<lambda>g. g) in
      case createKind param of
        kZeros \<Rightarrow> Inr (torch_zeros F outputShape kind device)
      | kEmpty \<Rightarrow> Inr (torch_empty F (if IsNullTensorShape outputShape then [0] else outputShape) kind device)
      | kOnes \<Rightarrow> Inr (torch_ones F outputShape kind device)
      | kArange \<Rightarrow> Inr (torch_arange F (doubleArg0 param) (doubleArg1 param) (doubleArg2 param) kind device)
      | kRandInt \<Rightarrow> Inr (torch_randint F (doubleArg0 param) (doubleArg1 param) outputShape generator kind device)
      | kRand \<Rightarrow> Inr (torch_rand F outputShape generator kind device)
      | kRandn \<Rightarrow> Inr (torch_randn F outputShape generator kind device)
      | kFull \<Rightarrow> Inr (torch_full F outputShape (doubleArg0 param) kind device)
      | kFromTorch \<Rightarrow> assertR (\<not> Mesh_IsDistributed (create_mesh param))
          (case torchValue param of None \<Rightarrow> Inl Abort | Some t \<Rightarrow>
            assertR (Mesh_ToDevice (create_mesh param) = tm_device M t) (Inr (torch_clone F t)))
      | kEye \<Rightarrow> Inl Abort
      | CreateKind_kCount \<Rightarrow> Inl Abort)"

definition CreateKernel_Compute ::
    "('g, 't) torch_factory \<Rightarrow> 't tensor_meta \<Rightarrow> ('g, 't) CreateParam \<Rightarrow> kernel \<Rightarrow> 't option list \<Rightarrow> 't list res" where
  "CreateKernel_Compute F M param k inputs =
     bindR (OperandAt (opOutputs k) 0) (\<lambda>y.
     assertR (mNumKernelForThisOp k = Mesh_Count (oDeviceMesh y))
      (assertR (length inputs = 0)
        (bindR (LocalShapeOn (mGlobalDevice k) y) (\<lambda>outputShape.
          bindR (CreateTensor F M param (mLocalDevice k) outputShape) (\<lambda>t. Inr [t])))))"

text \<open>What is documented of the factories: the requested shape, data kind and device.\<close>

definition factory_ok :: "('g, 't) torch_factory \<Rightarrow> 't tensor_meta \<Rightarrow> bool" where
  "factory_ok F M \<longleftrightarrow> (\<forall>s kind device.
     (\<forall>t \<in> {torch_zeros F s kind device, torch_ones F s kind device, torch_empty F s kind device}.
        tm_shape M t = s \<and> tm_kind M t = kind \<and> tm_device M t = device) \<and>
     (\<forall>v. tm_shape M (torch_full F s v kind device) = s \<and> tm_kind M (torch_full F s v kind device) = kind \<and>
        tm_device M (torch_full F s v kind device) = device) \<and>
     (\<forall>a b g. tm_shape M (torch_randint F a b s g kind device) = s \<and> tm_kind M (torch_randint F a b s g kind device) = kind \<and>
        tm_device M (torch_randint F a b s g kind device) = device) \<and>
     (\<forall>g. \<forall>t \<in> {torch_rand F s g kind device, torch_randn F s g kind device}.
        tm_shape M t = s \<and> tm_kind M t = kind \<and> tm_device M t = device))"

text \<open>The kinds that a kernel of every device fills on its own with a tensor of the local shape.\<close>

definition local_kind :: "CreateKind \<Rightarrow> bool" where
  "local_kind kind \<longleftrightarrow> kind \<in> {kEmpty, kFull, kOnes, kZeros, kRand, kRandn, kRandInt}"

lemma CreateTensor_local:
  assumes "factory_ok F M" and "local_kind (createKind param)" and "\<not> IsNullTensorShape s"
  shows "\<exists>t. CreateTensor F M param device s = Inr t \<and> tm_shape M t = s \<and> tm_kind M t = create_dataKind param \<and>
    tm_device M t = device"
  using assms by (auto simp: local_kind_def CreateTensor_def Let_def factory_ok_def)

lemma Create_InferOutput:
  assumes "local_kind (createKind param)"
  shows "InferOutput gpus (Create_class M param) [] [y0] = Inr [Operand_of (create_shape param) (create_dataKind param)
    (create_mesh param) (create_placements param)]"
  using assms
  by (auto simp: InferOutput_def Create_class_def keep_class_def CheckInput_def CheckInputSameDataKind_def
      CheckInputAllDistributedOrNot_def CheckInputSameDeviceMesh_def CheckInputDistributedSpec_def
      Create_InferOutputMetaInfo_def Create_shape_def local_kind_def UpdateOutput_def Operand_of_def
      SetDeviceMeshAndPlacementSeq_def SetDataKind_def SetShapeAndStride_def)

lemma Create_kernel:
  assumes F: "factory_ok F M" and kind: "local_kind (createKind param)"
    and lay: "layout_ok (create_shape param) m (create_placements param)" and mesh: "m = create_mesh param" "Mesh_IsDistributed m"
    and pos: "\<forall>n \<in> set (Mesh_Shape m). 0 < n" and r: "r < Mesh_Count m" and null: "\<not> IsNullTensorShape (create_shape param)"
    and dev: "dev = mk_Device (mDeviceKind m) (mData (mMesh m) ! r)"
    and blobs: "outB (deviceId dev) = Some c" "heap c = None"
  shows "\<exists>y k t. InferOutput gpus (Create_class M param) [] [y0] = Inr [y] \<and>
    Kernel_new [] [y] [] [outB] dev local (Mesh_Count m) = Inr k \<and>
    Kernel_Run True M (CreateKernel_Compute F M param) k heap = Inr (heap(c \<mapsto> t)) \<and>
    tm_shape M t = local_shape (Mesh_Shape m) (create_placements param) (create_shape param) (rank_coord (Mesh_Shape m) r)"
proof -
  define y where "y = Operand_of (create_shape param) (create_dataKind param) m (create_placements param)"
  let ?ls = "local_shape (Mesh_Shape m) (create_placements param) (create_shape param) (rank_coord (Mesh_Shape m) r)"
  have ysel: "oShape y = create_shape param" "oDeviceMesh y = m" "oPlacementSeq y = create_placements param"
    "oDataKind y = create_dataKind param" "cache_ok y" "Operand_IsDistributed y"
    using mesh(2) by (simp_all add: y_def Operand_of_def cache_ok_def Operand_IsDistributed_def)
  have "LocalShapeOn dev y = Inr (local_shape (Mesh_Shape m) (oPlacementSeq y) (oShape y) (rank_coord (Mesh_Shape m) r))"
    unfolding dev using ysel(2) by (intro LocalShapeOn_ok [OF ysel(5,6) _ _ pos r]) (simp_all add: ysel(1,3) lay)
  then have ly: "LocalShapeOn dev y = Inr ?ls" by (simp only: ysel(1,3))
  have "\<not> IsNullTensorShape ?ls" by (rule local_shape_not_null [OF lay null])
  from CreateTensor_local [OF F kind this] obtain t where
    t: "CreateTensor F M param local ?ls = Inr t" "tm_shape M t = ?ls" "tm_kind M t = create_dataKind param" "tm_device M t = local"
    by blast
  have wf: "Mesh_wf m" using lay by (simp add: layout_ok_def)
  have "mData (mMesh m) ! r \<in> GetDeviceIdSet m" using wf r by (auto simp: Mesh_wf_def SimpleArray_wf_def Mesh_Count_def)
  then have here: "IsContainDevice m dev" by (simp add: IsContainDevice_def dev mk_Device_def)
  let ?k = "\<lparr>opInputs = [], opOutputs = [y], mInputs = [], mOutputs = [Some c], mGlobalDevice = dev, mLocalDevice = local,
    mNumKernelForThisOp = Mesh_Count m\<rparr>"
  have "InferOutput gpus (Create_class M param) [] [y0] = Inr [y]"
    using Create_InferOutput [OF kind] mesh(1) by (simp add: y_def)
  moreover have "Kernel_new [] [y] [] [outB] dev local (Mesh_Count m) = Inr ?k"
    using here ysel(2) blobs by (simp add: Kernel_new_def Kernel_TakeOutput_def TakeBlob_def)
  moreover have "CreateKernel_Compute F M param ?k [] = Inr [t]"
    using ysel(2) ly t(1) by (simp add: CreateKernel_Compute_def OperandAt_def)
  then have "Kernel_Run True M (CreateKernel_Compute F M param) ?k heap = Inr (heap(c \<mapsto> t))"
    using here ysel blobs ly t
    by (simp add: Kernel_Run_def Kernel_WriteOutput_def ValidateTensor_eq Blob_IsEmpty_def Blob_SetTensor_def)
  ultimately show ?thesis using t(2) by blast
qed

text \<open>A range is not cut: the kernel of every device makes the whole of it, so the validated run of a sharded range aborts
  wherever the local shape is another one.\<close>

lemma Arange_sharded_aborts:
  assumes "createKind param = kArange" and "k = \<lparr>opInputs = [], opOutputs = [y], mInputs = [], mOutputs = [Some c],
      mGlobalDevice = dev, mLocalDevice = local, mNumKernelForThisOp = Mesh_Count (oDeviceMesh y)\<rparr>"
    and "IsContainDevice (oDeviceMesh y) dev" and "LocalShapeOn dev y = Inr s"
    and "tm_shape M (torch_arange F (doubleArg0 param) (doubleArg1 param) (doubleArg2 param) (create_dataKind param) local) \<noteq> s"
  shows "Kernel_Run True M (CreateKernel_Compute F M param) k heap = Inl Abort"
  using assms
  by (simp add: Kernel_Run_def CreateKernel_Compute_def OperandAt_def CreateTensor_def Let_def Kernel_WriteOutput_def
      ValidateTensor_eq)

text \<open>The tensor that stands for an absent input has the shape \<open>(-100)\<close>, its kernel makes one of shape \<open>(0)\<close>, and the
  validation of the outputs does not know the difference.\<close>

lemma NullTensor_fails_validation:
  assumes "factory_ok F M" and "createKind param = kEmpty" and "k = \<lparr>opInputs = [], opOutputs = [y], mInputs = [], mOutputs = [Some c],
      mGlobalDevice = dev, mLocalDevice = local, mNumKernelForThisOp = Mesh_Count (oDeviceMesh y)\<rparr>"
    and "IsContainDevice (oDeviceMesh y) dev" and "LocalShapeOn dev y = Inr [- 100]"
  shows "Kernel_Run True M (CreateKernel_Compute F M param) k heap = Inl Abort"
  using assms
  by (simp add: Kernel_Run_def CreateKernel_Compute_def OperandAt_def CreateTensor_def Let_def Kernel_WriteOutput_def
      ValidateTensor_eq IsNullTensorShape_def factory_ok_def)

section \<open>Conversion operators\<close>

definition Convert_InferOutputMetaInfo :: "ConvertParam \<Rightarrow> operand list \<Rightarrow> operand list \<Rightarrow> operand list res" where
  "Convert_InferOutputMetaInfo param inputs outputs =
     assertR (length inputs = 1)
      (bindR (OperandAt inputs 0) (\<lambda>x.
        UpdateOutput 0 (\<lambda>y. SetDeviceMeshAndPlacementSeq (pDeviceMesh param) (pPlacementSeq param)
          (SetDataKind (pDataKind param) (MetaDataSameAs x y))) outputs))"

definition Convert_class :: "ConvertParam \<Rightarrow> op_class" where
  "Convert_class param = keep_class True (\<lambda>_. Inr ()) (Convert_InferOutputMetaInfo param)"

section \<open>Fused operators of the Python side\<close>

text \<open>\<open>inputs[i].value()\<close> in a kernel.\<close>

definition InputValue :: "'t option list \<Rightarrow> nat \<Rightarrow> 't res" where
  "InputValue inputs i = guardR Undefined (i < length inputs) (valueR (inputs ! i))"

definition InputOptional :: "'t option list \<Rightarrow> nat \<Rightarrow> 't option res" where
  "InputOptional inputs i = guardR Undefined (i < length inputs) (Inr (inputs ! i))"

text \<open>The inference of the first two: a number of inputs, and the layout of the first.\<close>

definition Fused_InferOutputMetaInfo :: "nat \<Rightarrow> operand list \<Rightarrow> operand list \<Rightarrow> operand list res" where
  "Fused_InferOutputMetaInfo n inputs outputs = assertR (length inputs = n \<and> length outputs = 1) (SameMeta inputs outputs)"

record ApplyRotaryEmbParam =
  useReal :: bool
  useRealUnbindDim :: int

definition ApplyRotaryEmb_class :: op_class where
  "ApplyRotaryEmb_class = keep_class False (\<lambda>_. Inr ()) (Fused_InferOutputMetaInfo 3)"

definition ApplyRotaryEmb_Compute ::
    "('t \<Rightarrow> 't \<Rightarrow> 't \<Rightarrow> bool \<Rightarrow> int \<Rightarrow> 't list) \<Rightarrow> ApplyRotaryEmbParam \<Rightarrow> 't option list \<Rightarrow> 't list res" where
  "ApplyRotaryEmb_Compute compiled param inputs =
     bindR (InputValue inputs 0) (\<lambda>x. bindR (InputValue inputs 1) (\<lambda>c. bindR (InputValue inputs 2) (\<lambda>s.
       Inr (compiled x c s (useReal param) (useRealUnbindDim param)))))"

record LayerNormMulAddParam =
  lnma_normalizedShape :: shape
  lnma_epsilon :: double

definition LayerNormMulAdd_class :: op_class where
  "LayerNormMulAdd_class = keep_class True (\<lambda>_. Inr ()) (Fused_InferOutputMetaInfo 5)"

definition LayerNormMulAdd_Compute ::
    "('t \<Rightarrow> 't \<Rightarrow> 't \<Rightarrow> shape \<Rightarrow> double \<Rightarrow> 't option \<Rightarrow> 't option \<Rightarrow> 't list) \<Rightarrow> LayerNormMulAddParam \<Rightarrow> 't option list \<Rightarrow> 't list res" where
  "LayerNormMulAdd_Compute compiled param inputs =
     bindR (InputValue inputs 0) (\<lambda>x. bindR (InputValue inputs 1) (\<lambda>scale. bindR (InputValue inputs 2) (\<lambda>shift.
     bindR (InputOptional inputs 3) (\<lambda>normScale. bindR (InputOptional inputs 4) (\<lambda>normBias.
       Inr (compiled x scale shift (lnma_normalizedShape param) (lnma_epsilon param) normScale normBias))))))"

text \<open>The number of outputs is the chunk size as an unsigned number.\<close>

definition SiluLinearChunk_InferOutputSize :: "int \<Rightarrow> nat" where
  "SiluLinearChunk_InferOutputSize chunkSize = nat (as_size_t chunkSize)"

definition SiluLinearChunk_InferOutputMetaInfo :: "int \<Rightarrow> operand list \<Rightarrow> operand list \<Rightarrow> operand list res" where
  "SiluLinearChunk_InferOutputMetaInfo chunkSize inputs outputs =
     assertR (length inputs = 3)
      (foldR (\<lambda>i outputs. bindR (OperandAt inputs 0) (\<lambda>x. UpdateOutput i (MetaDataSameAs x) outputs))
        [0..<nat (as_size_t chunkSize)] outputs)"

definition SiluLinearChunk_class :: "int \<Rightarrow> op_class" where
  "SiluLinearChunk_class chunkSize = (keep_class True (\<lambda>_. Inr ()) (SiluLinearChunk_InferOutputMetaInfo chunkSize))
     \<lparr>vInferOutputSize := SiluLinearChunk_InferOutputSize chunkSize\<rparr>"

definition SiluLinearChunk_Compute :: "('t \<Rightarrow> 't \<Rightarrow> 't \<Rightarrow> int \<Rightarrow> 't list) \<Rightarrow> int \<Rightarrow> 't option list \<Rightarrow> 't list res" where
  "SiluLinearChunk_Compute compiled chunkSize inputs =
     bindR (InputValue inputs 0) (\<lambda>emb. bindR (InputValue inputs 1) (\<lambda>w. bindR (InputValue inputs 2) (\<lambda>b.
       let outputs = compiled emb w b chunkSize in
       assertR (int (length outputs) = as_size_t chunkSize) (Inr outputs))))"

lemma foldR_update_all:
  assumes "n \<le> length outputs"
  shows "foldR (\<lambda>i outputs. UpdateOutput i f outputs) [0..<n] outputs = Inr (map f (take n outputs) @ drop n outputs)"
  using assms
proof (induction n)
  case 0
  then show ?case by simp
next
  case (Suc n)
  then have "foldR (\<lambda>i outputs. UpdateOutput i f outputs) [0..<n] outputs = Inr (map f (take n outputs) @ drop n outputs)" by simp
  moreover have "UpdateOutput n f (map f (take n outputs) @ drop n outputs) = Inr (map f (take (Suc n) outputs) @ drop (Suc n) outputs)"
    using Suc.prems
    by (auto simp: UpdateOutput_def guardR_def list_update_append nth_append min_absorb2 take_Suc_conv_app_nth Cons_nth_drop_Suc [symmetric])
  ultimately show ?case by (simp add: foldR_append)
qed

text \<open>A nonnegative chunk size gives that many outputs, all laid out like the first input.\<close>

lemma SiluLinearChunk_outputs:
  assumes "0 \<le> chunkSize" and "length inputs = 3"
  shows "SiluLinearChunk_InferOutputMetaInfo chunkSize inputs (CreateOutputOperands (SiluLinearChunk_class chunkSize)) =
    Inr (replicate (nat chunkSize) (MetaDataSameAs (inputs ! 0) Operand_new))"
proof -
  have x: "OperandAt inputs 0 = Inr (inputs ! 0)" using assms(2) by (simp add: OperandAt_def)
  have out: "CreateOutputOperands (SiluLinearChunk_class chunkSize) = replicate (nat chunkSize) Operand_new"
    using assms(1) by (simp add: CreateOutputOperands_def SiluLinearChunk_class_def SiluLinearChunk_InferOutputSize_def keep_class_def
        map_replicate_const)
  show ?thesis
    using assms foldR_update_all [of "nat chunkSize" "replicate (nat chunkSize) Operand_new" "MetaDataSameAs (inputs ! 0)"]
    by (simp add: SiluLinearChunk_InferOutputMetaInfo_def x out)
qed

section \<open>Memory statistics\<close>

text \<open>src/dtorch/api/cpp/memory_stats: a map from devices; a \<open>DeviceKey\<close> is the plain copy of a \<open>Device\<close>.\<close>

record MemoryStat =
  allocated :: int
  reserved :: int
  maxAllocated :: int
  maxReserved :: int

record MemoryStats =
  memoryStats :: "Device \<rightharpoonup> MemoryStat"
  dtensorInSameDevice :: "MemoryStat option"

definition MemoryStat_new :: MemoryStat where
  "MemoryStat_new = \<lparr>allocated = 0, reserved = 0, maxAllocated = 0, maxReserved = 0\<rparr>"

definition MemoryStats_new :: MemoryStats where
  "MemoryStats_new = \<lparr>memoryStats = Map.empty, dtensorInSameDevice = None\<rparr>"

definition MemoryStats_Size :: "MemoryStats \<Rightarrow> nat" where
  "MemoryStats_Size s = card (dom (memoryStats s))"

definition MemoryStats_Insert :: "Device \<Rightarrow> MemoryStat \<Rightarrow> MemoryStats \<Rightarrow> MemoryStats" where
  "MemoryStats_Insert device v s =
     (if memoryStats s device = None then s\<lparr>memoryStats := (memoryStats s)(device \<mapsto> v)\<rparr> else s)"

definition MemoryStats_Merge :: "MemoryStats \<Rightarrow> MemoryStats \<Rightarrow> MemoryStats res" where
  "MemoryStats_Merge other s =
     assertR (dom (memoryStats other) \<inter> dom (memoryStats s) = {})
      (Inr (s\<lparr>memoryStats := memoryStats s ++ memoryStats other\<rparr>))"

definition MergeAsDTensorInSameDevice :: "MemoryStats \<Rightarrow> MemoryStats res" where
  "MergeAsDTensorInSameDevice s =
     assertR (dtensorInSameDevice s = None)
      (let sum = (\<lambda>f. \<Sum>d \<in> dom (memoryStats s). f (the (memoryStats s d))) in
       Inr (s\<lparr>dtensorInSameDevice := Some \<lparr>allocated = sum allocated, reserved = sum reserved,
         maxAllocated = sum maxAllocated, maxReserved = sum maxReserved\<rparr>\<rparr>))"

section \<open>The memory operator\<close>

datatype MemoryOperationType = kEmptyCache | kMemoryStats | MemoryOperationType_kCount

record MemoryParam =
  memoryOperationType :: MemoryOperationType
  resetPeakStats :: bool
  mem_devices :: "Device list"

definition kMemoryStatSize :: nat where
  "kMemoryStatSize = 256"

definition Memory_InferOutputSize :: "MemoryParam \<Rightarrow> nat res" where
  "Memory_InferOutputSize param = (case memoryOperationType param of
       kEmptyCache \<Rightarrow> Inr 0
     | kMemoryStats \<Rightarrow> Inr 1
     | MemoryOperationType_kCount \<Rightarrow> Inl Abort)"

definition Memory_InferOutputMetaInfo :: "MemoryParam \<Rightarrow> operand list \<Rightarrow> operand list \<Rightarrow> operand list res" where
  "Memory_InferOutputMetaInfo param inputs outputs =
     assertR (length inputs = 0)
      (let devices = mem_devices param; deviceCount = length devices in
       requireR (list_all (\<lambda>d. \<not> deviceKind d \<noteq> kGpu) devices)
        (if memoryOperationType param = kMemoryStats then
           assertR (length outputs = 1)
            (assertR (deviceCount > 0)
              (let kind = deviceKind (devices ! 0) in
               assertR (list_all (\<lambda>d. deviceKind d = kind) devices)
                (bindR (DeviceMesh_of_vec kind (map deviceId devices) []) (\<lambda>mesh.
                 bindR (Placement_of_string ''S0'') (\<lambda>p.
                   UpdateOutput 0 (\<lambda>y. SetDeviceMeshAndPlacementSeq mesh [p]
                     (SetDataKind kUInt8 (SetShapeAndStride [int deviceCount, int kMemoryStatSize] [] y))) outputs)))))
         else assertR (length outputs = 0) (Inr outputs)))"

definition Memory_class :: "MemoryParam \<Rightarrow> op_class" where
  "Memory_class param = (keep_class True (\<lambda>_. Inr ()) (Memory_InferOutputMetaInfo param))
     \<lparr>vInferOutputSize := (case Memory_InferOutputSize param of Inr n \<Rightarrow> n | Inl _ \<Rightarrow> 0)\<rparr>"

text \<open>The assignment of the operators that name their devices: memory, sync and nvtx.\<close>

definition Devices_InferOperatorAssignInfo :: "Device list \<Rightarrow> OperatorAssignInfo \<Rightarrow> OperatorAssignInfo res" where
  "Devices_InferOperatorAssignInfo devices info =
     assertR (NumKernelForThisOp info = 0)
      (Inr (foldl (\<lambda>info d. AssignInfo_Insert (KernelStreamKey_Init (deviceKind d) (deviceId d) kCompute) info) info devices))"

text \<open>The statistics of one device travel as a row of bytes.  \<open>ser\<close> and \<open>deser\<close> are the archives of boost.\<close>

record 't byte_tensor =
  bt_create :: "shape \<Rightarrow> char list \<Rightarrow> 't"
  bt_shape :: "'t \<Rightarrow> shape"
  bt_chunk :: "'t \<Rightarrow> int \<Rightarrow> int \<Rightarrow> 't list"
  bt_chars :: "'t \<Rightarrow> char list"

definition ToTorchTensor :: "'t byte_tensor \<Rightarrow> (MemoryStats \<Rightarrow> char list) \<Rightarrow> MemoryStats \<Rightarrow> 't res" where
  "ToTorchTensor B ser stats =
     assertR (MemoryStats_Size stats = 1)
      (let tmpString = ser stats in
       assertR (length tmpString < kMemoryStatSize)
        (Inr (bt_create B [1, int kMemoryStatSize] (tmpString @ replicate (kMemoryStatSize - length tmpString) CHR 0x00))))"

definition ToMemoryStats :: "'t byte_tensor \<Rightarrow> (char list \<Rightarrow> MemoryStats) \<Rightarrow> 't \<Rightarrow> MemoryStats res" where
  "ToMemoryStats B deser tensor =
     assertR (length (bt_shape B tensor) = 2)
      (assertR (bt_shape B tensor ! 1 = int kMemoryStatSize)
        (foldR (\<lambda>chunkTensor result.
            let dataBuffer = bt_chars B chunkTensor in
            assertR (length dataBuffer = kMemoryStatSize) (MemoryStats_Merge (deser dataBuffer) result))
          (bt_chunk B tensor (bt_shape B tensor ! 0) 0) MemoryStats_new))"

text \<open>The kernel: \<open>getDeviceStats\<close> may throw, then the statistics stay zero; peaks are never reset.\<close>

definition MemoryKernel_Compute ::
    "'t byte_tensor \<Rightarrow> (MemoryStats \<Rightarrow> char list) \<Rightarrow> ('t \<Rightarrow> Device \<Rightarrow> 't) \<Rightarrow> bool \<Rightarrow> (int \<Rightarrow> MemoryStat option) \<Rightarrow>
      MemoryParam \<Rightarrow> Device \<Rightarrow> Device \<Rightarrow> 't list res" where
  "MemoryKernel_Compute B ser to_device cuda_is_available getDeviceStats param globalDevice localDevice =
     assertR (deviceKind globalDevice = kGpu)
      (case memoryOperationType param of
         kEmptyCache \<Rightarrow> assertR cuda_is_available (Inr [])
       | kMemoryStats \<Rightarrow>
           let memoryStat = (case getDeviceStats (deviceId localDevice) of None \<Rightarrow> MemoryStat_new | Some v \<Rightarrow> v) in
           bindR (ToTorchTensor B ser (MemoryStats_Insert globalDevice memoryStat MemoryStats_new)) (\<lambda>tensor.
             Inr [to_device tensor localDevice])
       | MemoryOperationType_kCount \<Rightarrow> Inl Abort)"

definition stats_of :: "Device \<times> MemoryStat \<Rightarrow> MemoryStats" where
  "stats_of p = MemoryStats_Insert (fst p) (snd p) MemoryStats_new"

lemma stats_of_simps: "memoryStats (stats_of p) = [fst p \<mapsto> snd p]" "MemoryStats_Size (stats_of p) = 1"
  by (simp_all add: stats_of_def MemoryStats_Insert_def MemoryStats_new_def MemoryStats_Size_def)

lemma Merge_one:
  "MemoryStats_Merge (stats_of p) \<lparr>memoryStats = m, dtensorInSameDevice = d\<rparr> =
    (if m (fst p) = None then Inr \<lparr>memoryStats = m(fst p \<mapsto> snd p), dtensorInSameDevice = d\<rparr> else Inl Abort)"
  by (auto simp: MemoryStats_Merge_def stats_of_simps guardR_def)

lemma Merge_all:
  assumes "distinct (map fst ps)" and "\<forall>p \<in> set ps. m (fst p) = None"
  shows "foldR (\<lambda>p s. MemoryStats_Merge (stats_of p) s) ps \<lparr>memoryStats = m, dtensorInSameDevice = d\<rparr> =
    Inr \<lparr>memoryStats = m ++ map_of ps, dtensorInSameDevice = d\<rparr>"
  using assms
proof (induction ps arbitrary: m)
  case Nil
  then show ?case by simp
next
  case (Cons p ps)
  from Cons.prems have fresh: "map_of ps (fst p) = None" "\<forall>q \<in> set ps. (m(fst p \<mapsto> snd p)) (fst q) = None"
    by (simp_all add: map_of_eq_None_iff rev_image_eqI) (metis image_eqI)
  have "m(fst p \<mapsto> snd p) ++ map_of ps = m ++ map_of (p # ps)"
    using fresh(1) by (cases p) (auto simp: map_add_def fun_eq_iff split: option.splits)
  with Cons.IH [of "m(fst p \<mapsto> snd p)"] fresh(2) Cons.prems(1)
  have "foldR (\<lambda>p s. MemoryStats_Merge (stats_of p) s) ps \<lparr>memoryStats = m(fst p \<mapsto> snd p), dtensorInSameDevice = d\<rparr> =
      Inr \<lparr>memoryStats = m ++ map_of (p # ps), dtensorInSameDevice = d\<rparr>" by (simp del: map_of.simps fun_upd_apply)
  moreover have "m (fst p) = None" using Cons.prems(2) by simp
  ultimately show ?case by (simp add: Merge_one del: map_of.simps)
qed

text \<open>What the kernels of the devices send back is collected into the statistics of all devices, when the archive of one
  entry is short enough for its row and the padding behind an archive is not read.\<close>

lemma MemoryStats_collected:
  assumes devices: "distinct (map fst ps)"
    and rows: "\<And>p. p \<in> set ps \<Longrightarrow> length (ser (stats_of p)) < kMemoryStatSize \<and> (\<forall>pad. deser (ser (stats_of p) @ pad) = stats_of p)"
    and torch: "\<And>s cs. bt_chars B (bt_create B s cs) = cs"
    and tensor: "bt_shape B t = [int (length ps), int kMemoryStatSize]"
      "mapR (\<lambda>p. ToTorchTensor B ser (stats_of p)) ps = Inr (bt_chunk B t (int (length ps)) 0)"
  shows "ToMemoryStats B deser t = Inr \<lparr>memoryStats = map_of ps, dtensorInSameDevice = None\<rparr>"
proof -
  let ?row = "\<lambda>p. bt_create B [1, int kMemoryStatSize]
    (ser (stats_of p) @ replicate (kMemoryStatSize - length (ser (stats_of p))) CHR 0x00)"
  have one: "ToTorchTensor B ser (stats_of p) = Inr (?row p)" if "p \<in> set ps" for p
    using rows [OF that] by (simp add: ToTorchTensor_def stats_of_simps Let_def)
  have chunks: "bt_chunk B t (int (length ps)) 0 = map ?row ps"
  proof -
    have "mapR (\<lambda>p. ToTorchTensor B ser (stats_of p)) qs = Inr (map ?row qs)" if "set qs \<subseteq> set ps" for qs
      using that by (induction qs) (simp_all add: one)
    from this [of ps] tensor(2) show ?thesis by simp
  qed
  define collect where "collect = (\<lambda>chunkTensor result. let dataBuffer = bt_chars B chunkTensor in
    assertR (length dataBuffer = kMemoryStatSize) (MemoryStats_Merge (deser dataBuffer) result))"
  have row: "collect (?row q) s = MemoryStats_Merge (stats_of q) s" if "q \<in> set ps" for q s
    using rows [OF that] by (simp add: collect_def torch less_imp_le)
  have "foldR collect (map ?row qs) s = foldR (\<lambda>p s. MemoryStats_Merge (stats_of p) s) qs s" if "set qs \<subseteq> set ps" for qs s
  proof -
    have "foldR collect (map ?row qs) = foldR (\<lambda>p s. MemoryStats_Merge (stats_of p) s) qs"
      using that by (induction qs) (auto intro!: ext simp: row)
    then show ?thesis by simp
  qed
  from this [of ps MemoryStats_new] Merge_all [OF devices, of Map.empty None] tensor(1) chunks show ?thesis
    by (simp add: ToMemoryStats_def MemoryStats_new_def collect_def)
qed

section \<open>Synchronization\<close>

text \<open>
  A promise is kept by the parameter of the operator until a kernel moves it out; on a GPU the kernel hands it to the
  thread pool, which fulfils it after an event, on the CPU the kernel fulfils it.
\<close>

datatype 'v promise_effect = SetValue 'v | PostSetValue 'v

fun effect_value :: "'v promise_effect \<Rightarrow> 'v" where
  "effect_value (SetValue v) = v"
| "effect_value (PostSetValue v) = v"

definition SyncParam_new :: "Device list \<Rightarrow> bool list \<Rightarrow> (Device list \<times> bool list) res" where
  "SyncParam_new devices promises = assertR (length devices = length promises) (Inr (devices, promises))"

definition Sync_class :: op_class where
  "Sync_class = (keep_class True (\<lambda>_. Inr ()) (\<lambda>inputs outputs. Inr outputs))\<lparr>vInferOutputSize := 0\<rparr>"

text \<open>The index of the first device of the list that is the device of the kernel.\<close>

fun find_device :: "Device \<Rightarrow> Device list \<Rightarrow> nat \<Rightarrow> nat option" where
  "find_device d [] i = None"
| "find_device d (x # xs) i = (if Device_eq x d then Some i else find_device d xs (i + 1))"

definition SyncKernel_Compute ::
    "Device list \<Rightarrow> nat \<Rightarrow> Device \<Rightarrow> Device \<Rightarrow> bool list \<Rightarrow> (bool list \<times> nat promise_effect) res" where
  "SyncKernel_Compute syncDevices numKernelForThisOp globalDevice localDevice promises =
     assertR (length syncDevices = numKernelForThisOp)
      (case find_device globalDevice syncDevices 0 of
         None \<Rightarrow> Inl Abort
       | Some deviceIdx \<Rightarrow>
           assertR (deviceIdx < length promises)
            (assertR (promises ! deviceIdx)
              (if deviceKind localDevice = kGpu then Inr (promises[deviceIdx := False], PostSetValue deviceIdx)
               else Inr (promises, SetValue deviceIdx))))"

text \<open>\<open>functional::_Sync\<close>: the devices without duplicates, in the order \<open>enum\<close> of a hash set, and a promise for each.\<close>

definition Sync_devices :: "(Device set \<Rightarrow> Device list) \<Rightarrow> Device list \<Rightarrow> Device list option \<Rightarrow> Device list res" where
  "Sync_devices enum gpuDevices syncDevices =
     (let devices = (case syncDevices of Some ds \<Rightarrow> ds | None \<Rightarrow> gpuDevices @ [mk_Device kCpu 0]);
          devices = enum (set devices)
      in assertR (devices \<noteq> []) (Inr devices))"

text \<open>The kernels of one operator run in some order, each with its global and local device.\<close>

definition Sync_run :: "Device list \<Rightarrow> nat \<Rightarrow> (Device \<times> Device) list \<Rightarrow> bool list \<Rightarrow> (bool list \<times> nat promise_effect list) res" where
  "Sync_run devices n kernels promises =
     foldR (\<lambda>(globalDevice, localDevice) (promises, effects).
       bindR (SyncKernel_Compute devices n globalDevice localDevice promises) (\<lambda>(promises, e). Inr (promises, effects @ [e])))
       kernels (promises, [])"

lemma find_device_nth:
  assumes "distinct devices" and "i < length devices"
  shows "find_device (devices ! i) devices k = Some (k + i)"
  using assms
proof (induction devices arbitrary: i k)
  case (Cons x xs)
  have "Device_eq a b \<longleftrightarrow> a = b" for a b by (cases a; cases b) (auto simp: Device_eq_def)
  with Cons show ?case by (cases i) auto
qed simp

lemma Devices_keys:
  "Devices_InferOperatorAssignInfo devices AssignInfo_new = Inr info \<Longrightarrow>
    mStreamKeySet info = (\<lambda>d. KernelStreamKey_Init (deviceKind d) (deviceId d) kCompute) ` set devices"
proof -
  have "mStreamKeySet (foldl (\<lambda>info d. AssignInfo_Insert (f d) info) i devices) = mStreamKeySet i \<union> f ` set devices" for f i
    by (induction devices arbitrary: i) (auto simp: AssignInfo_Insert_keys)
  then show "Devices_InferOperatorAssignInfo devices AssignInfo_new = Inr info \<Longrightarrow> ?thesis"
    by (auto simp: Devices_InferOperatorAssignInfo_def guardR_eq_Inr AssignInfo_new_def)
qed

lemma mk_Device_eta [simp]: "mk_Device (deviceKind d) (deviceId d) = d"
  by (cases d) (simp add: mk_Device_def)

lemma Devices_count:
  assumes "Devices_InferOperatorAssignInfo devices AssignInfo_new = Inr info"
  shows "NumKernelForThisOp info = card (set devices)"
proof -
  have "inj (\<lambda>d :: Device. KernelStreamKey_Init (deviceKind d) (deviceId d) kCompute)"
    by (rule inj_on_inverseI [where g = key_device]) (simp add: KernelStreamKey_Init_def)
  then show ?thesis using Devices_keys [OF assms] by (simp add: NumKernelForThisOp_def card_image [OF inj_on_subset])
qed

lemma Devices_assigned:
  assumes "Devices_InferOperatorAssignInfo devices AssignInfo_new = Inr info"
  shows "KernelStreamKey_GetDevice ` mStreamKeySet info = set devices"
  by (simp add: Devices_keys [OF assms] image_image KernelStreamKey_GetDevice_def KernelStreamKey_Init_def)

lemma Devices_infer: "\<exists>info. Devices_InferOperatorAssignInfo devices AssignInfo_new = Inr info"
  by (simp add: Devices_InferOperatorAssignInfo_def AssignInfo_new_def NumKernelForThisOp_def)

text \<open>One kernel per device, in any order: each takes the promise of its own device and finds it still there.\<close>

lemma SyncKernel_step:
  assumes "distinct devices" and "i < length devices" and "length promises = length devices" and "promises ! i"
  shows "\<exists>p e. SyncKernel_Compute devices (length devices) (devices ! i) localDevice promises = Inr (p, e) \<and>
    effect_value e = i \<and> length p = length devices \<and> (\<forall>j. j \<noteq> i \<longrightarrow> p ! j = promises ! j)"
  using assms find_device_nth [OF assms(1,2), of 0] by (simp add: SyncKernel_Compute_def)

lemma Sync_run_all:
  assumes "distinct devices" and "distinct (map fst kernels)" and "fst ` set kernels \<subseteq> set devices"
    and "length promises = length devices" and "\<forall>i < length devices. devices ! i \<in> fst ` set kernels \<longrightarrow> promises ! i"
  shows "\<exists>promises' es. foldR (\<lambda>(globalDevice, localDevice) (promises, effects).
       bindR (SyncKernel_Compute devices (length devices) globalDevice localDevice promises)
         (\<lambda>(promises, e). Inr (promises, effects @ [e]))) kernels (promises, es0) = Inr (promises', es0 @ es) \<and>
     map (\<lambda>e. devices ! effect_value e) es = map fst kernels \<and> effect_value ` set es \<subseteq> {..<length devices}"
  using assms(2-)
proof (induction kernels arbitrary: promises es0)
  case Nil
  then show ?case by simp
next
  case (Cons k ks)
  then obtain i where i: "i < length devices" "devices ! i = fst k" by (auto simp: in_set_conv_nth)
  then obtain p e where step: "SyncKernel_Compute devices (length devices) (fst k) (snd k) promises = Inr (p, e)"
    "effect_value e = i" "length p = length devices" "\<forall>j. j \<noteq> i \<longrightarrow> p ! j = promises ! j"
    using SyncKernel_step [OF assms(1) i(1), of promises "snd k"] Cons.prems by auto
  have "devices ! i \<notin> fst ` set ks" using Cons.prems(1) i by simp
  then have later: "\<forall>j < length devices. devices ! j \<in> fst ` set ks \<longrightarrow> p ! j"
    using step(4) Cons.prems(4) by (metis insert_iff image_insert list.simps(15))
  have "distinct (map fst ks)" "fst ` set ks \<subseteq> set devices" "length p = length devices"
    using Cons.prems step(3) by simp_all
  from Cons.IH [OF this later, of "es0 @ [e]"]
  obtain q es where "foldR (\<lambda>(globalDevice, localDevice) (promises, effects).
       bindR (SyncKernel_Compute devices (length devices) globalDevice localDevice promises)
         (\<lambda>(promises, e). Inr (promises, effects @ [e]))) ks (p, es0 @ [e]) = Inr (q, (es0 @ [e]) @ es)"
    "map (\<lambda>e. devices ! effect_value e) es = map fst ks" "effect_value ` set es \<subseteq> {..<length devices}" by auto
  with step i show ?case by (intro exI [of _ q] exI [of _ "e # es"]) (cases k, simp)
qed

text \<open>C13: a synchronization answers for every device exactly once: whatever devices the client names, duplicates included,
  the operator is built for each of them once, and however the kernels of the devices interleave, none of them aborts and
  every promise is fulfilled, or handed to the thread pool, by exactly one of them.\<close>

theorem Sync_fulfils_each:
  assumes "Sync_devices enum gpuDevices syncDevices = Inr devices"
    and "\<forall>S. finite S \<longrightarrow> set (enum S) = S \<and> distinct (enum S)"
    and "Devices_InferOperatorAssignInfo devices AssignInfo_new = Inr info"
    and "distinct (map fst kernels)" and "fst ` set kernels = KernelStreamKey_GetDevice ` mStreamKeySet info"
  shows "\<exists>promises es. Sync_run devices (NumKernelForThisOp info) kernels (replicate (length devices) True) = Inr (promises, es) \<and>
    mset (map effect_value es) = mset [0..<length devices]"
proof -
  from assms(1,2) have dist: "distinct devices"
    by (auto simp: Sync_devices_def Let_def guardR_eq_Inr split: option.splits)
  from assms(3) have info: "NumKernelForThisOp info = length devices" "fst ` set kernels = set devices"
    using Devices_count Devices_assigned assms(5) dist by (simp_all add: distinct_card)
  from Sync_run_all [OF dist assms(4), of "replicate (length devices) True" "[]"] info(2)
  obtain promises es where run: "Sync_run devices (length devices) kernels (replicate (length devices) True) = Inr (promises, es)"
    and es: "map (\<lambda>e. devices ! effect_value e) es = map fst kernels" "effect_value ` set es \<subseteq> {..<length devices}"
    by (auto simp: Sync_run_def)
  let ?vs = "map effect_value es"
  have "map (\<lambda>v. devices ! v) ?vs = map fst kernels" using es(1) by (simp add: comp_def)
  then have dvs: "distinct ?vs" using assms(4) by (metis distinct_map)
  have "length es = length devices"
    using arg_cong [OF es(1), of length] info(2) distinct_card [OF assms(4)] distinct_card [OF dist] by simp
  then have "set ?vs = {..<length devices}"
    using es(2) distinct_card [OF dvs] by (intro card_subset_eq) simp_all
  then have "mset ?vs = mset [0..<length devices]"
    using dvs by (intro set_eq_iff_mset_eq_distinct [THEN iffD1]) (simp_all add: atLeast0LessThan)
  with run info(1) show ?thesis by auto
qed

text \<open>A parameter that names a device twice, which \<open>_Sync\<close> never makes, is refused by every kernel.\<close>

lemma Sync_duplicates_abort:
  assumes "Devices_InferOperatorAssignInfo devices AssignInfo_new = Inr info" and "\<not> distinct devices"
  shows "SyncKernel_Compute devices (NumKernelForThisOp info) g l promises = Inl Abort"
proof -
  have "length devices \<noteq> card (set devices)" using assms(2) card_distinct [of devices] by auto
  then show ?thesis by (simp add: SyncKernel_Compute_def Devices_count [OF assms(1)])
qed

text \<open>The client names GPU 1 twice; the kernels run in the other order.\<close>

theorem Sync_fulfils_each_witness:
  "\<exists>enum devices info promises es. Sync_devices enum [] (Some [mk_Device kGpu 1, mk_Device kGpu 0, mk_Device kGpu 1]) = Inr devices \<and>
    Devices_InferOperatorAssignInfo devices AssignInfo_new = Inr info \<and>
    Sync_run devices (NumKernelForThisOp info) (map (\<lambda>d. (d, d)) (rev devices)) (replicate (length devices) True) = Inr (promises, es) \<and>
    mset (map effect_value es) = {#0, 1#}"
proof -
  define enum where "enum = (\<lambda>S :: Device set. SOME xs. set xs = S \<and> distinct xs)"
  have enum: "\<forall>S. finite S \<longrightarrow> set (enum S) = S \<and> distinct (enum S)"
  proof (intro allI impI)
    fix S :: "Device set" assume "finite S"
    from finite_distinct_list [OF this] show "set (enum S) = S \<and> distinct (enum S)" unfolding enum_def by (rule someI_ex)
  qed
  define devices where "devices = enum (set [mk_Device kGpu 1, mk_Device kGpu 0, mk_Device kGpu 1])"
  have set: "set devices = {mk_Device kGpu 1, mk_Device kGpu 0}" "distinct devices"
    using enum [rule_format, of "set [mk_Device kGpu 1, mk_Device kGpu 0, mk_Device kGpu 1]"] by (auto simp: devices_def)
  have "length devices = 2" using distinct_card [OF set(2)] set(1) by (simp add: mk_Device_def)
  then have two: "[0..<length devices] = [0, 1]" by (simp add: upt_rec)
  then have sync: "Sync_devices enum [] (Some [mk_Device kGpu 1, mk_Device kGpu 0, mk_Device kGpu 1]) = Inr devices"
    by (auto simp: Sync_devices_def Let_def devices_def guardR_def)
  obtain info where info: "Devices_InferOperatorAssignInfo devices AssignInfo_new = Inr info" using Devices_infer by blast
  let ?ks = "map (\<lambda>d. (d, d)) (rev devices)"
  have "distinct (map fst ?ks)" "fst ` set ?ks = KernelStreamKey_GetDevice ` mStreamKeySet info"
    using set(2) by (simp_all add: comp_def Devices_assigned [OF info] image_image)
  from Sync_fulfils_each [OF sync enum info this] sync info show ?thesis unfolding two by (simp only: mset.simps) blast
qed

section \<open>Annotations for the profiler\<close>

datatype NvtxType = kRangePush | kRangePop | kMark | NvtxType_kCount

record NvtxParam =
  nvtxType :: NvtxType
  nvtx_message :: string
  nvtx_mesh :: DeviceMesh

datatype profiler_call = RangePush string | RangePop | Mark string

definition Nvtx_InferOutputMetaInfo :: "NvtxParam \<Rightarrow> operand list \<Rightarrow> operand list \<Rightarrow> operand list res" where
  "Nvtx_InferOutputMetaInfo param inputs outputs =
     assertR (length inputs = 0 \<and> length outputs = 0)
      (requireR (\<not> ((nvtxType param = kRangePush \<or> nvtxType param = kMark) \<and> nvtx_message param = [])) (Inr outputs))"

definition Nvtx_class :: "NvtxParam \<Rightarrow> op_class" where
  "Nvtx_class param = (keep_class True (\<lambda>_. Inr ()) (Nvtx_InferOutputMetaInfo param))\<lparr>vInferOutputSize := 0\<rparr>"

definition Nvtx_Compute :: "NvtxParam \<Rightarrow> profiler_call res" where
  "Nvtx_Compute param = (case nvtxType param of
       kRangePush \<Rightarrow> Inr (RangePush (nvtx_message param))
     | kRangePop \<Rightarrow> Inr RangePop
     | kMark \<Rightarrow> Inr (Mark (nvtx_message param))
     | NvtxType_kCount \<Rightarrow> Inl Abort)"

section \<open>Handing a tensor to the client\<close>

definition GetTensor_Compute :: "'t tensor_meta \<Rightarrow> bool \<Rightarrow> 't option list \<Rightarrow> 't list \<Rightarrow> (bool \<times> 't promise_effect) res" where
  "GetTensor_Compute M promise inputs outputs =
     assertR (length outputs = 0)
      (assertR promise
        (bindR (InputOptional inputs 0) (\<lambda>input. case input of
            None \<Rightarrow> Inl Abort
          | Some t \<Rightarrow>
              if deviceKind (tm_device M t) = kGpu then Inr (False, PostSetValue t) else Inr (promise, SetValue t))))"

section \<open>Views\<close>

record 't torch_view =
  tensor_view :: "'t \<Rightarrow> shape \<Rightarrow> 't res"
  tensor_reshape :: "'t \<Rightarrow> shape \<Rightarrow> 't res"

text \<open>\<open>Some vshape\<close> is the parameter of a view, \<open>None\<close> a reshape.\<close>

definition ViewKernel_Compute :: "'t torch_view \<Rightarrow> shape option option \<Rightarrow> kernel \<Rightarrow> 't option list \<Rightarrow> 't list res" where
  "ViewKernel_Compute V vshape k inputs =
     assertR (length inputs = 1)
      (bindR (InputValue inputs 0) (\<lambda>x.
        case vshape of
          Some None \<Rightarrow> Inr [x]
        | Some (Some _) \<Rightarrow> bindR (OperandAt (opOutputs k) 0) (\<lambda>y.
            bindR (LocalShapeOn (mGlobalDevice k) y) (\<lambda>s. bindR (tensor_view V x s) (\<lambda>t. Inr [t])))
        | None \<Rightarrow> bindR (OperandAt (opOutputs k) 0) (\<lambda>y.
            bindR (LocalShapeOn (mGlobalDevice k) y) (\<lambda>s. bindR (tensor_reshape V x s) (\<lambda>t. Inr [t])))))"

section \<open>Copying into a tensor\<close>

text \<open>A copy on one device writes its first input; between two devices the kernel is one end of an exchange
  over a tensor store, and the consumer writes what it gets.\<close>

datatype 't copy_action =
    CopyHere 't 't
  | Produce "('t store_result list \<Rightarrow> 't store_op) list"
  | ConsumeInto 't "('t store_result list \<Rightarrow> 't store_op) list"

definition GlobalDeviceInOperand :: "Device \<Rightarrow> operand \<Rightarrow> bool" where
  "GlobalDeviceInOperand device operand = IsContainDevice (oDeviceMesh operand) device"

definition CopyKernel_Compute ::
    "'t tensor_meta \<Rightarrow> (Device \<Rightarrow> 't \<Rightarrow> 't) \<Rightarrow> kernel \<Rightarrow> 't option list \<Rightarrow> 't copy_action res" where
  "CopyKernel_Compute M to_device k inputs =
     assertR (length inputs = 2)
      (bindR (OperandAt (opInputs k) 0) (\<lambda>a. bindR (OperandAt (opInputs k) 1) (\<lambda>b.
        if mNumKernelForThisOp k = Mesh_Count (oDeviceMesh a) then
          bindR (DeviceMesh_eq (oDeviceMesh a) (oDeviceMesh b)) (\<lambda>same. assertR same
            (bindR (InputValue inputs 0) (\<lambda>dst. bindR (InputValue inputs 1) (\<lambda>src. Inr (CopyHere dst src)))))
        else
          assertR (\<not> Operand_IsDistributed a \<and> \<not> Operand_IsDistributed b)
           (if \<not> GlobalDeviceInOperand (mGlobalDevice k) a then
              assertR (GlobalDeviceInOperand (mGlobalDevice k) b)
               (case inputs ! 1 of None \<Rightarrow> Inl Abort | Some v \<Rightarrow>
                  bindR (SrcSet_value (tm_device M) to_device v (mLocalDevice k) (Some (mDeviceKind (oDeviceMesh a)))) (\<lambda>(v, d).
                    Inr (Produce (producer ''tensor'' v d 1))))
            else (case inputs ! 0 of None \<Rightarrow> Inl Abort | Some dst \<Rightarrow>
                  Inr (ConsumeInto dst (DestGetAndToDevice ''tensor'')))))))"

end
