(* ===== verification/OperatorFactory.thy ===== *)
theory OperatorFactory
  imports SystemOps IndexOps ReduceOps MatmulOps MultiOps ViewOps AxisOps
begin

text \<open>
  The types and parameters of all operators and their construction: src/dtorch/core/operators/operator_param.{h,cc},
  operator_factory.{h,cc}, and the table of the kernels in core/kernel/kernel_factory.cc.  A shared pointer to an
  \<open>OpParam\<close> is a value of a sum type over the parameters of the operators, and a call of a virtual function is the
  choice of the class by that value.
\<close>

section \<open>Types of operators\<close>

datatype (plugins only: code size) OperatorType =
  kActivation | kBatchNorm | kBroadcastBinary | kConv | kConvert | kDropout | kExpand | kFlatten | kFuse |
  kLinear | kPooling | kReduce | kReshape | kBaseMath | kSqueeze | kUnsqueeze | kEmbedding | kNormalization |
  kConcat | kTranspose | kView | kContiguous | kGetItem | kSdpa | kCreate | kCopy | kChunk | kEinsum |
  kPermute | kInterpolate | kRepeat | kPad | kClamp | kNvtx | kWhere | kMaxMin | kMatmul | kSoftmax |
  kOuter | kRepeatInterleave | kApplyRotaryEmb | kSiluLinearChunk | kLayerNormMulAdd | kSubGraph | kMemory |
  kSetItem | kClone | kGetTensor | kMasked | kSync | OperatorType_kCount

fun EnumAsInteger :: "OperatorType \<Rightarrow> nat" where
  "EnumAsInteger kActivation = 0"
| "EnumAsInteger kBatchNorm = 1"
| "EnumAsInteger kBroadcastBinary = 2"
| "EnumAsInteger kConv = 3"
| "EnumAsInteger kConvert = 4"
| "EnumAsInteger kDropout = 5"
| "EnumAsInteger kExpand = 6"
| "EnumAsInteger kFlatten = 7"
| "EnumAsInteger kFuse = 8"
| "EnumAsInteger kLinear = 9"
| "EnumAsInteger kPooling = 10"
| "EnumAsInteger kReduce = 11"
| "EnumAsInteger kReshape = 12"
| "EnumAsInteger kBaseMath = 13"
| "EnumAsInteger kSqueeze = 14"
| "EnumAsInteger kUnsqueeze = 15"
| "EnumAsInteger kEmbedding = 16"
| "EnumAsInteger kNormalization = 17"
| "EnumAsInteger kConcat = 18"
| "EnumAsInteger kTranspose = 19"
| "EnumAsInteger kView = 20"
| "EnumAsInteger kContiguous = 21"
| "EnumAsInteger kGetItem = 22"
| "EnumAsInteger kSdpa = 23"
| "EnumAsInteger kCreate = 24"
| "EnumAsInteger kCopy = 25"
| "EnumAsInteger kChunk = 26"
| "EnumAsInteger kEinsum = 27"
| "EnumAsInteger kPermute = 28"
| "EnumAsInteger kInterpolate = 29"
| "EnumAsInteger kRepeat = 30"
| "EnumAsInteger kPad = 31"
| "EnumAsInteger kClamp = 32"
| "EnumAsInteger kNvtx = 33"
| "EnumAsInteger kWhere = 34"
| "EnumAsInteger kMaxMin = 35"
| "EnumAsInteger kMatmul = 36"
| "EnumAsInteger kSoftmax = 37"
| "EnumAsInteger kOuter = 38"
| "EnumAsInteger kRepeatInterleave = 39"
| "EnumAsInteger kApplyRotaryEmb = 40"
| "EnumAsInteger kSiluLinearChunk = 41"
| "EnumAsInteger kLayerNormMulAdd = 42"
| "EnumAsInteger kSubGraph = 43"
| "EnumAsInteger kMemory = 44"
| "EnumAsInteger kSetItem = 45"
| "EnumAsInteger kClone = 46"
| "EnumAsInteger kGetTensor = 47"
| "EnumAsInteger kMasked = 48"
| "EnumAsInteger kSync = 49"
| "EnumAsInteger OperatorType_kCount = 50"

definition OperatorTypes :: "OperatorType list" where
  "OperatorTypes = [
    kActivation, kBatchNorm, kBroadcastBinary, kConv, kConvert, kDropout, kExpand, kFlatten, kFuse, kLinear,
    kPooling, kReduce, kReshape, kBaseMath, kSqueeze, kUnsqueeze, kEmbedding, kNormalization, kConcat,
    kTranspose, kView, kContiguous, kGetItem, kSdpa, kCreate, kCopy, kChunk, kEinsum, kPermute, kInterpolate,
    kRepeat, kPad, kClamp, kNvtx, kWhere, kMaxMin, kMatmul, kSoftmax, kOuter, kRepeatInterleave,
    kApplyRotaryEmb, kSiluLinearChunk, kLayerNormMulAdd, kSubGraph, kMemory, kSetItem, kClone, kGetTensor,
    kMasked, kSync]"

definition OpType_names :: "string list" where
  "OpType_names = [
    ''Activation'', ''BatchNorm'', ''BroadcastBinary'', ''Conv'', ''Convert'', ''Dropout'', ''Expand'',
    ''Flatten'', ''Fuse'', ''Linear'', ''Pooling'', ''Reduce'', ''Reshape'', ''BaseMath'', ''Squeeze'',
    ''Unsqueeze'', ''Embedding'', ''Normalization'', ''Concat'', ''Transpose'', ''View'', ''Contiguous'',
    ''GetItem'', ''Sdpa'', ''Create'', ''Copy'', ''Chunk'', ''Einsum'', ''Permute'', ''Interpolate'',
    ''Repeat'', ''Pad'', ''Clamp'', ''Nvtx'', ''Where'', ''MaxMin'', ''Matmul'', ''Softmax'', ''Outer'',
    ''RepeatInterleave'', ''ApplyRotaryEmb'', ''SiluLinearChunk'', ''LayerNormMulAdd'', ''SubGraph'',
    ''Memory'', ''SetItem'', ''Clone'', ''GetTensor'', ''Masked'', ''Sync'']"

definition OpTypeToString :: "OperatorType \<Rightarrow> string res" where
  "OpTypeToString opType =
     assertR (EnumAsInteger opType < EnumAsInteger OperatorType_kCount) (at_nat OpType_names (EnumAsInteger opType))"

definition OpTypeFromString :: "string \<Rightarrow> OperatorType res" where
  "OpTypeFromString str =
     (let kStringMap = map_of (zip OpType_names OperatorTypes) in
      case kStringMap str of Some t \<Rightarrow> Inr t | None \<Rightarrow> Inl InvalidArgument)"

text \<open>The order of the enumeration.\<close>

lemma EnumAsInteger_inverse: "(OperatorTypes @ [OperatorType_kCount]) ! EnumAsInteger t = t"
  by (cases t) (simp_all add: OperatorTypes_def)

lemma EnumAsInteger_inj: "EnumAsInteger a = EnumAsInteger b \<longleftrightarrow> a = b"
  by (metis EnumAsInteger_inverse)

instantiation OperatorType :: linorder
begin

definition less_eq_OperatorType :: "OperatorType \<Rightarrow> OperatorType \<Rightarrow> bool" where
  "less_eq_OperatorType a b \<longleftrightarrow> EnumAsInteger a \<le> EnumAsInteger b"

definition less_OperatorType :: "OperatorType \<Rightarrow> OperatorType \<Rightarrow> bool" where
  "less_OperatorType a b \<longleftrightarrow> EnumAsInteger a < EnumAsInteger b"

instance
  by standard (auto simp: less_eq_OperatorType_def less_OperatorType_def EnumAsInteger_inj)

end

text \<open>Every type but the count has a name of its own, and the name is read back.\<close>

lemma OpType_roundtrip:
  assumes "OpTypeToString t = Inr s"
  shows "OpTypeFromString s = Inr t"
proof -
  have "distinct OpType_names" by (simp add: OpType_names_def)
  moreover have len: "length OpType_names = 50" "length OperatorTypes = 50" by (simp_all add: OpType_names_def OperatorTypes_def)
  moreover from assms len have i: "EnumAsInteger t < 50" "s = OpType_names ! EnumAsInteger t"
    by (auto simp: OpTypeToString_def guardR_eq_Inr at_nat_def)
  moreover have "OperatorTypes ! EnumAsInteger t = t" using EnumAsInteger_inverse [of t] i(1) len by (simp add: nth_append)
  ultimately have "map_of (zip OpType_names OperatorTypes) s = Some t"
    by (simp add: map_of_zip_nth)
  then show ?thesis by (simp add: OpTypeFromString_def)
qed

section \<open>Parameters\<close>

datatype (plugins only: size) ('d, 'g, 't) OpParam =
    Activation_param ActivationParam
  | BaseMath_param BaseMathType
  | BatchNorm_param OperatorFormat
  | BroadcastBinary_param "'d BroadcastBinaryParam"
  | Chunk_param int int
  | Clamp_param ClampParam
  | Clone_param
  | Conv_param ConvParam
  | Copy_param
  | Concat_param int
  | Contiguous_param
  | Convert_param ConvertParam
  | Create_param "('g, 't) CreateParam"
  | Dropout_param double
  | Embedding_param
  | Einsum_param string
  | Expand_param shape
  | Flatten_param int int
  | GetItem_param "'t Index list"
  | GetTensor_param bool
  | SetItem_param "'t Index list"
  | Linear_param
  | Transpose_param int int
  | Interpolate_param InterpolateParam
  | Normalization_param NormalizationParam
  | Nvtx_param NvtxParam
  | Sync_param "Device list"
  | Matmul_param
  | MaxMin_param MaxMinParam
  | Memory_param MemoryParam
  | Outer_param
  | Pad_param "int list" string
  | Permute_param "int list"
  | Pooling_param PoolingParam
  | Reduce_param ReduceParam
  | RepeatInterleave_param int "int option"
  | Reshape_param shape
  | Sdpa_param SdpaParam
  | Softmax_param int
  | Squeeze_param "int list"
  | Repeat_param "int list"
  | Unsqueeze_param int
  | View_param ViewParam
  | Where_param WhereParam
  | Masked_param MaskedType
  | ApplyRotaryEmb_param ApplyRotaryEmbParam
  | SiluLinearChunk_param int
  | LayerNormMulAdd_param LayerNormMulAddParam
  | Fuse_param OperatorType
  | SubGraph_param

fun GetOpType :: "('d, 'g, 't) OpParam \<Rightarrow> OperatorType" where
  "GetOpType (Activation_param _) = kActivation"
| "GetOpType (BaseMath_param _) = kBaseMath"
| "GetOpType (BatchNorm_param _) = kBatchNorm"
| "GetOpType (BroadcastBinary_param _) = kBroadcastBinary"
| "GetOpType (Chunk_param _ _) = kChunk"
| "GetOpType (Clamp_param _) = kClamp"
| "GetOpType Clone_param = kClone"
| "GetOpType (Conv_param _) = kConv"
| "GetOpType Copy_param = kCopy"
| "GetOpType (Concat_param _) = kConcat"
| "GetOpType Contiguous_param = kContiguous"
| "GetOpType (Convert_param _) = kConvert"
| "GetOpType (Create_param _) = kCreate"
| "GetOpType (Dropout_param _) = kDropout"
| "GetOpType Embedding_param = kEmbedding"
| "GetOpType (Einsum_param _) = kEinsum"
| "GetOpType (Expand_param _) = kExpand"
| "GetOpType (Flatten_param _ _) = kFlatten"
| "GetOpType (GetItem_param _) = kGetItem"
| "GetOpType (GetTensor_param _) = kGetTensor"
| "GetOpType (SetItem_param _) = kSetItem"
| "GetOpType Linear_param = kLinear"
| "GetOpType (Transpose_param _ _) = kTranspose"
| "GetOpType (Interpolate_param _) = kInterpolate"
| "GetOpType (Normalization_param _) = kNormalization"
| "GetOpType (Nvtx_param _) = kNvtx"
| "GetOpType (Sync_param _) = kSync"
| "GetOpType Matmul_param = kMatmul"
| "GetOpType (MaxMin_param _) = kMaxMin"
| "GetOpType (Memory_param _) = kMemory"
| "GetOpType Outer_param = kOuter"
| "GetOpType (Pad_param _ _) = kPad"
| "GetOpType (Permute_param _) = kPermute"
| "GetOpType (Pooling_param _) = kPooling"
| "GetOpType (Reduce_param _) = kReduce"
| "GetOpType (RepeatInterleave_param _ _) = kRepeatInterleave"
| "GetOpType (Reshape_param _) = kReshape"
| "GetOpType (Sdpa_param _) = kSdpa"
| "GetOpType (Softmax_param _) = kSoftmax"
| "GetOpType (Squeeze_param _) = kSqueeze"
| "GetOpType (Repeat_param _) = kRepeat"
| "GetOpType (Unsqueeze_param _) = kUnsqueeze"
| "GetOpType (View_param _) = kView"
| "GetOpType (Where_param _) = kWhere"
| "GetOpType (Masked_param _) = kMasked"
| "GetOpType (ApplyRotaryEmb_param _) = kApplyRotaryEmb"
| "GetOpType (SiluLinearChunk_param _) = kSiluLinearChunk"
| "GetOpType (LayerNormMulAdd_param _) = kLayerNormMulAdd"
| "GetOpType (Fuse_param _) = kFuse"
| "GetOpType SubGraph_param = kSubGraph"

text \<open>The operators without a record of virtual functions so far.\<close>

definition Chunk_class :: "int \<Rightarrow> int \<Rightarrow> operand list \<Rightarrow> op_class" where
  "Chunk_class chunks axis inputs = (keep_class True (\<lambda>_. Inr ()) (Chunk_InferOutputMetaInfo chunks axis))
     \<lparr>vInferOutputSize := (case Chunk_InferOutputSize chunks axis inputs of Inr n \<Rightarrow> n | Inl _ \<Rightarrow> 0)\<rparr>"

definition Squeeze_class :: "int list \<Rightarrow> op_class" where
  "Squeeze_class dims = \<lparr>vIsRequireInputSameDataKind = True, vCheckInput = (\<lambda>_. Inr ()), vInferOutputSize = 1,
     vInferOutputMetaInfo = (\<lambda>inputs outputs. bindR (Squeeze_infer dims [] inputs outputs) (\<lambda>(_, outputs). Inr outputs)),
     vSkipDistributedSpec = SkipDistributedSpecFromPlacementSignature,
     vGetPlacementSignature = (\<lambda>inputs outputs. bindR (Squeeze_infer dims [] inputs outputs) (\<lambda>(ioDimMap, _).
       Squeeze_GetPlacementSignature ioDimMap inputs outputs)),
     vKeepSubSplitCoordinates = True\<rparr>"

definition Expand_class :: "shape \<Rightarrow> op_class" where
  "Expand_class param = \<lparr>vIsRequireInputSameDataKind = True, vCheckInput = (\<lambda>_. Inr ()), vInferOutputSize = 1,
     vInferOutputMetaInfo = (\<lambda>inputs outputs. bindR (Expand_infer param inputs outputs) (\<lambda>(_, outputs). Inr outputs)),
     vSkipDistributedSpec = SkipDistributedSpecFromPlacementSignature,
     vGetPlacementSignature = Expand_GetPlacementSignature, vKeepSubSplitCoordinates = True\<rparr>"

definition no_output_class :: op_class where
  "no_output_class = (keep_class True (\<lambda>_. Inr ()) (\<lambda>inputs outputs. Inr outputs))\<lparr>vInferOutputSize := 0\<rparr>"

fun OpParam_class :: "'t tensor_meta \<Rightarrow> ('t \<Rightarrow> shape) \<Rightarrow> operand list \<Rightarrow> ('d, 'g, 't) OpParam \<Rightarrow> op_class" where
  "OpParam_class M tshape inputs (Activation_param a) = Activation_class a"
| "OpParam_class M tshape inputs (BaseMath_param a) = BaseMath_class a"
| "OpParam_class M tshape inputs (BatchNorm_param a) = BatchNorm_class a"
| "OpParam_class M tshape inputs (BroadcastBinary_param a) = BroadcastBinary_class a"
| "OpParam_class M tshape inputs (Chunk_param chunks axis) = Chunk_class chunks axis inputs"
| "OpParam_class M tshape inputs (Clamp_param a) = Clamp_class a"
| "OpParam_class M tshape inputs Clone_param = Clone_class"
| "OpParam_class M tshape inputs (Conv_param a) = Conv_class a"
| "OpParam_class M tshape inputs Copy_param = no_output_class"
| "OpParam_class M tshape inputs (Concat_param a) = Concat_class a"
| "OpParam_class M tshape inputs Contiguous_param = Contiguous_class"
| "OpParam_class M tshape inputs (Convert_param a) = Convert_class a"
| "OpParam_class M tshape inputs (Create_param p) = Create_class M p"
| "OpParam_class M tshape inputs (Dropout_param a) = Dropout_class a"
| "OpParam_class M tshape inputs Embedding_param = Embedding_class"
| "OpParam_class M tshape inputs (Einsum_param a) = Einsum_class a"
| "OpParam_class M tshape inputs (Expand_param a) = Expand_class a"
| "OpParam_class M tshape inputs (Flatten_param a b) = Flatten_class a b"
| "OpParam_class M tshape inputs (GetItem_param ix) = GetItem_class tshape ix (if inputs = [] then Operand_new else hd inputs)"
| "OpParam_class M tshape inputs (GetTensor_param p) = no_output_class"
| "OpParam_class M tshape inputs (SetItem_param ix) = SetItem_class tshape ix"
| "OpParam_class M tshape inputs Linear_param = Linear_class"
| "OpParam_class M tshape inputs (Transpose_param a b) = Transpose_class a b"
| "OpParam_class M tshape inputs (Interpolate_param a) = Interpolate_class a"
| "OpParam_class M tshape inputs (Normalization_param a) = Normalization_class a"
| "OpParam_class M tshape inputs (Nvtx_param a) = Nvtx_class a"
| "OpParam_class M tshape inputs (Sync_param devices) = Sync_class"
| "OpParam_class M tshape inputs Matmul_param = Matmul_class"
| "OpParam_class M tshape inputs (MaxMin_param a) = MaxMin_class a"
| "OpParam_class M tshape inputs (Memory_param a) = Memory_class a"
| "OpParam_class M tshape inputs Outer_param = Outer_class"
| "OpParam_class M tshape inputs (Pad_param a b) = Pad_class a b"
| "OpParam_class M tshape inputs (Permute_param a) = Permute_class a"
| "OpParam_class M tshape inputs (Pooling_param a) = Pooling_class a"
| "OpParam_class M tshape inputs (Reduce_param a) = Reduce_class a"
| "OpParam_class M tshape inputs (RepeatInterleave_param a b) = RepeatInterleave_class a b"
| "OpParam_class M tshape inputs (Reshape_param a) = Reshape_class a"
| "OpParam_class M tshape inputs (Sdpa_param p) = Sdpa_class"
| "OpParam_class M tshape inputs (Softmax_param a) = Softmax_class a"
| "OpParam_class M tshape inputs (Squeeze_param a) = Squeeze_class a"
| "OpParam_class M tshape inputs (Repeat_param a) = Repeat_class a"
| "OpParam_class M tshape inputs (Unsqueeze_param a) = Unsqueeze_class a"
| "OpParam_class M tshape inputs (View_param a) = View_class a"
| "OpParam_class M tshape inputs (Where_param a) = Where_class a"
| "OpParam_class M tshape inputs (Masked_param a) = Masked_class a"
| "OpParam_class M tshape inputs (ApplyRotaryEmb_param p) = ApplyRotaryEmb_class"
| "OpParam_class M tshape inputs (SiluLinearChunk_param a) = SiluLinearChunk_class a"
| "OpParam_class M tshape inputs (LayerNormMulAdd_param p) = LayerNormMulAdd_class"
| "OpParam_class M tshape inputs (Fuse_param t) = no_output_class"
| "OpParam_class M tshape inputs SubGraph_param = no_output_class"

section \<open>The virtual functions by parameter\<close>

fun OpParam_InferOutputSize :: "operand list \<Rightarrow> ('d, 'g, 't) OpParam \<Rightarrow> op_class \<Rightarrow> nat res" where
  "OpParam_InferOutputSize inputs (Chunk_param chunks axis) cls = Chunk_InferOutputSize chunks axis inputs"
| "OpParam_InferOutputSize inputs (Memory_param param) cls = Memory_InferOutputSize param"
| "OpParam_InferOutputSize inputs p cls = Inr (vInferOutputSize cls)"

fun OpParam_InferOutput :: "int \<Rightarrow> operand list \<Rightarrow> operand list \<Rightarrow> ('d, 'g, 't) OpParam \<Rightarrow> op_class \<Rightarrow> operand list res" where
  "OpParam_InferOutput gpus inputs outputs Copy_param cls = Copy_InferOutput gpus inputs outputs"
| "OpParam_InferOutput gpus inputs outputs (GetTensor_param promise) cls = GetTensor_InferOutput inputs outputs"
| "OpParam_InferOutput gpus inputs outputs p cls = InferOutput gpus cls inputs outputs"

fun OpParam_InferOperatorAssignInfo ::
    "operand list \<Rightarrow> operand list \<Rightarrow> ('d, 'g, 't) OpParam \<Rightarrow> OperatorAssignInfo \<Rightarrow> OperatorAssignInfo res" where
  "OpParam_InferOperatorAssignInfo inputs outputs (Memory_param param) info = Devices_InferOperatorAssignInfo (mem_devices param) info"
| "OpParam_InferOperatorAssignInfo inputs outputs (Sync_param devices) info = Devices_InferOperatorAssignInfo devices info"
| "OpParam_InferOperatorAssignInfo inputs outputs (Nvtx_param param) info =
     Devices_InferOperatorAssignInfo (Mesh_ToDeviceVec (nvtx_mesh param)) info"
| "OpParam_InferOperatorAssignInfo inputs outputs p info = InferOperatorAssignInfo inputs outputs info"

fun OpParam_GetOperatorCost :: "operand list \<Rightarrow> operand list \<Rightarrow> ('d, 'g, 't) OpParam \<Rightarrow> OperatorCost res" where
  "OpParam_GetOperatorCost inputs outputs (Conv_param param) = Conv_GetOperatorCost param inputs outputs"
| "OpParam_GetOperatorCost inputs outputs Matmul_param = Matmul_GetOperatorCost inputs"
| "OpParam_GetOperatorCost inputs outputs Linear_param = Linear_GetOperatorCost inputs"
| "OpParam_GetOperatorCost inputs outputs (Sdpa_param param) = Sdpa_GetOperatorCost inputs"
| "OpParam_GetOperatorCost inputs outputs Outer_param = Outer_GetOperatorCost inputs"
| "OpParam_GetOperatorCost inputs outputs (Nvtx_param param) = Inr Cost_none"
| "OpParam_GetOperatorCost inputs outputs (Sync_param devices) = Inr Cost_none"
| "OpParam_GetOperatorCost inputs outputs (Memory_param param) = Inr Cost_none"
| "OpParam_GetOperatorCost inputs outputs p = Cost_FromOperands inputs outputs"

definition OpParam_Infer ::
    "int \<Rightarrow> operand list \<Rightarrow> operand list \<Rightarrow> ('d, 'g, 't) OpParam \<Rightarrow> op_class \<Rightarrow> (operand list \<times> OperatorAssignInfo) res" where
  "OpParam_Infer gpus inputs outputs p cls =
     bindR (OpParam_InferOutput gpus inputs outputs p cls) (\<lambda>outputs.
     bindR (OpParam_InferOperatorAssignInfo inputs outputs p AssignInfo_new) (\<lambda>info. Inr (outputs, info)))"

section \<open>The factory\<close>

definition RegisterOpConstructor :: "OperatorType \<Rightarrow> OperatorType list \<Rightarrow> OperatorType list res" where
  "RegisterOpConstructor opType m = assertR (\<not> opType \<in> set m) (Inr (m @ [opType]))"

definition registration_order :: "OperatorType list" where
  "registration_order = [
    kActivation, kBaseMath, kBatchNorm, kBroadcastBinary, kChunk, kClamp, kClone, kConv, kCopy, kConcat,
    kContiguous, kConvert, kCreate, kDropout, kEmbedding, kEinsum, kExpand, kFlatten, kGetItem, kGetTensor,
    kSetItem, kLinear, kTranspose, kInterpolate, kNormalization, kNvtx, kSync, kMatmul, kMaxMin, kMemory,
    kOuter, kPad, kPermute, kPooling, kReduce, kRepeatInterleave, kReshape, kSdpa, kSoftmax, kSqueeze, kRepeat,
    kUnsqueeze, kView, kWhere, kMasked, kApplyRotaryEmb, kSiluLinearChunk, kLayerNormMulAdd]"

definition OperatorFactory_new :: "OperatorType list res" where
  "OperatorFactory_new = foldR RegisterOpConstructor registration_order []"

text \<open>An operator of an unknown type ends in a fatal log message, which aborts.\<close>

definition ConstructOperator :: "OperatorType list \<Rightarrow> ('d, 'g, 't) OpParam \<Rightarrow> ('d, 'g, 't) OpParam res" where
  "ConstructOperator m p = assertR (GetOpType p \<in> set m) (Inr p)"

record ('d, 'g, 't) operator =
  oprUniqueId :: "64 word"
  oprParam :: "('d, 'g, 't) OpParam"
  oprInputs :: "operand list"
  oprOutputs :: "operand list"
  oprAssignInfo :: OperatorAssignInfo

definition SetOrAssignUniqueId :: "64 word option \<Rightarrow> 64 word \<Rightarrow> (64 word \<times> 64 word) res" where
  "SetOrAssignUniqueId uniqueId acc = (case uniqueId of
       Some i \<Rightarrow> assertR (i \<noteq> kNoValue) (Inr (i, acc))
     | None \<Rightarrow> Inr (GetUniqueId acc))"

text \<open>\<open>catch (std::exception\&)\<close> turns every exception of the inference into an \<open>invalid_argument\<close>.\<close>

definition AddFailed :: "'a res \<Rightarrow> 'a res" where
  "AddFailed r = (case r of Inl e \<Rightarrow> Inl (if e = Abort \<or> e = Undefined then e else InvalidArgument) | Inr x \<Rightarrow> Inr x)"

definition NewOperatorOrThrow ::
    "int \<Rightarrow> 't tensor_meta \<Rightarrow> OperatorType list \<Rightarrow> ('d, 'g, 't) OpParam \<Rightarrow> operand list \<Rightarrow> 64 word option \<Rightarrow> 64 word \<Rightarrow>
      (('d, 'g, 't) operator \<times> 64 word) res" where
  "NewOperatorOrThrow gpus M m p inputs uniqueId acc =
     bindR (ConstructOperator m p) (\<lambda>p.
     bindR (SetOrAssignUniqueId uniqueId acc) (\<lambda>(i, acc).
     let cls = OpParam_class M (tm_shape M) inputs p in
     bindR (OpParam_InferOutputSize inputs p cls) (\<lambda>n.
     bindR (AddFailed (OpParam_Infer gpus inputs (replicate n Operand_new) p cls)) (\<lambda>(outputs, info).
       Inr (\<lparr>oprUniqueId = i, oprParam = p, oprInputs = inputs, oprOutputs = outputs, oprAssignInfo = info\<rparr>, acc)))))"

section \<open>What the factory guarantees\<close>

lemma foldR_register:
  assumes "distinct (m @ ts)"
  shows "foldR RegisterOpConstructor ts m = Inr (m @ ts)"
  using assms by (induction ts arbitrary: m) (auto simp: RegisterOpConstructor_def)

lemma distinct_registration: "distinct registration_order"
proof -
  have "distinct (map EnumAsInteger registration_order)" by (simp add: registration_order_def)
  then show ?thesis by (simp only: distinct_map)
qed

text \<open>The constructor of the factory never meets a type twice, and leaves out exactly two types.\<close>

lemma OperatorFactory_types:
  "\<exists>m. OperatorFactory_new = Inr m \<and> set m = - {kFuse, kSubGraph, OperatorType_kCount}"
proof -
  have "t \<in> set registration_order \<longleftrightarrow> t \<notin> {kFuse, kSubGraph, OperatorType_kCount}" for t
    by (cases t) (simp_all add: registration_order_def)
  then have "set registration_order = - {kFuse, kSubGraph, OperatorType_kCount}" by blast
  with foldR_register [of "[]" registration_order] distinct_registration show ?thesis by (simp add: OperatorFactory_new_def)
qed

lemma Fuse_unregistered:
  "OperatorFactory_new = Inr m \<Longrightarrow> NewOperatorOrThrow gpus M m (Fuse_param t) inputs uniqueId acc = Inl Abort"
proof -
  assume "OperatorFactory_new = Inr m"
  with OperatorFactory_types have "set m = - {kFuse, kSubGraph, OperatorType_kCount}" by (metis sum.inject(2))
  then have "kFuse \<notin> set m" by blast
  then show ?thesis unfolding NewOperatorOrThrow_def ConstructOperator_def GetOpType.simps by (simp only: guardR_False bindR_Inl)
qed



lemma AddFailed_Inr [simp]: "AddFailed r = Inr x \<longleftrightarrow> r = Inr x"
  by (cases r) (auto simp: AddFailed_def)




text \<open>The inference fills the outputs that are there.\<close>

lemma UpdateOutput_length: "UpdateOutput i f outputs = Inr outs \<Longrightarrow> length outs = length outputs"
  by (auto simp: UpdateOutput_def guardR_eq_Inr)

definition keeps_length :: "op_class \<Rightarrow> bool" where
  "keeps_length cls \<longleftrightarrow> (\<forall>inputs outputs outs. vInferOutputMetaInfo cls inputs outputs = Inr outs \<longrightarrow> length outs = length outputs)"


lemma keeps_length_same: "keeps_length (keep_class same check SameMeta)"
  by (auto simp: keeps_length_def keep_class_def SameMeta_def bindR_eq_Inr guardR_eq_Inr dest: UpdateOutput_length)


lemma keeps_length_I:
  assumes "\<And>inputs outputs outs. vInferOutputMetaInfo cls inputs outputs = Inr outs \<Longrightarrow> length outs = length outputs"
  shows "keeps_length cls"
  using assms by (auto simp: keeps_length_def)


lemma keeps_length_keep:
  "(\<And>inputs outputs outs. meta inputs outputs = Inr outs \<Longrightarrow> length outs = length outputs) \<Longrightarrow> keeps_length (keep_class same check meta)"
  by (auto simp: keeps_length_def keep_class_def)


lemma keeps_length_update [simp]:
  "keeps_length (cls\<lparr>vInferOutputSize := n\<rparr>) = keeps_length cls"
  "keeps_length (cls\<lparr>vGetPlacementSignature := sig\<rparr>) = keeps_length cls"
  "keeps_length (cls\<lparr>vKeepSubSplitCoordinates := b\<rparr>) = keeps_length cls"
  "keeps_length (cls\<lparr>vIsRequireInputSameDataKind := b\<rparr>) = keeps_length cls"
  "keeps_length (cls\<lparr>vSkipDistributedSpec := skip\<rparr>) = keeps_length cls"
  "keeps_length (cls\<lparr>vCheckInput := check\<rparr>) = keeps_length cls"
  by (simp_all add: keeps_length_def)

definition length_kept :: "(operand list \<Rightarrow> operand list \<Rightarrow> operand list res) \<Rightarrow> bool" where
  "length_kept meta \<longleftrightarrow> (\<forall>inputs outputs outs. meta inputs outputs = Inr outs \<longrightarrow> length outs = length outputs)"

lemma keeps_length_meta [simp]:
  "keeps_length (cls\<lparr>vInferOutputMetaInfo := meta\<rparr>) = length_kept meta"
  "keeps_length (keep_class same check meta) = length_kept meta"
  "keeps_length \<lparr>vIsRequireInputSameDataKind = b, vCheckInput = check, vInferOutputSize = n, vInferOutputMetaInfo = meta,
     vSkipDistributedSpec = skip, vGetPlacementSignature = sig, vKeepSubSplitCoordinates = keep\<rparr> = length_kept meta"
  by (simp_all add: keeps_length_def length_kept_def keep_class_def)
















definition writes_all :: "nat \<Rightarrow> (operand list \<Rightarrow> operand list \<Rightarrow> operand list res) \<Rightarrow> bool" where
  "writes_all n meta \<longleftrightarrow> (\<forall>inputs a b. length a = n \<longrightarrow> length b = n \<longrightarrow> meta inputs a = meta inputs b)"

definition writes_one :: "(operand list \<Rightarrow> operand list \<Rightarrow> operand list res) \<Rightarrow> bool" where
  "writes_one meta \<longleftrightarrow> (\<forall>inputs y y'. meta inputs [y] = meta inputs [y'])"

lemma writes_all_0 [simp]: "writes_all 0 meta"
  by (simp add: writes_all_def)

lemma writes_all_1: "writes_one meta \<Longrightarrow> writes_all (Suc 0) meta"
  by (auto simp: writes_all_def writes_one_def length_Suc_conv)
















lemma writes_all_meta:
  "writes_one meta \<Longrightarrow> writes_all (vInferOutputSize (keep_class same check meta)) (vInferOutputMetaInfo (keep_class same check meta))"
  "writes_one (UnaryMeta infer) \<Longrightarrow> writes_all (vInferOutputSize (unary_class infer rules)) (vInferOutputMetaInfo (unary_class infer rules))"
  by (simp_all add: keep_class_def unary_class_def writes_all_1)




section \<open>The table of the kernels\<close>

datatype kernel_class = ConvertKernel | CreateKernel | CopyKernel | ViewKernel | ReduceKernel | MemoryKernel | SyncKernel | BaseKernel

definition RegisterKernelConstructor ::
    "OperatorType \<times> kernel_class \<Rightarrow> (OperatorType \<times> kernel_class) list \<Rightarrow> (OperatorType \<times> kernel_class) list res" where
  "RegisterKernelConstructor entry m = assertR (\<not> fst entry \<in> fst ` set m) (Inr (m @ [entry]))"

definition KernelFactory_new :: "(OperatorType \<times> kernel_class) list res" where
  "KernelFactory_new = foldR RegisterKernelConstructor
     [(kConvert, ConvertKernel), (kCreate, CreateKernel), (kCopy, CopyKernel), (kView, ViewKernel), (kReshape, ViewKernel),
      (kReduce, ReduceKernel), (kMemory, MemoryKernel), (kSync, SyncKernel)] []"

definition ConstructKernel :: "(OperatorType \<times> kernel_class) list \<Rightarrow> OperatorType \<Rightarrow> kernel_class" where
  "ConstructKernel m opType = (case map_of m opType of None \<Rightarrow> BaseKernel | Some k \<Rightarrow> k)"

lemma KernelFactory_table:
  "\<exists>m. KernelFactory_new = Inr m \<and> ConstructKernel m kReshape = ViewKernel \<and> ConstructKernel m kReduce = ReduceKernel \<and>
    (\<forall>t. ConstructKernel m t = BaseKernel \<longleftrightarrow> t \<notin> {kConvert, kCreate, kCopy, kView, kReshape, kReduce, kMemory, kSync})"
  by (simp add: KernelFactory_new_def RegisterKernelConstructor_def ConstructKernel_def)

text \<open>A chunk along an axis that is out of range is refused before the outputs exist.\<close>

lemma NewOperator_bad_axis:
  "NewOperatorOrThrow 8 triple_meta registration_order (Chunk_param 2 5 :: (unit, unit, shape \<times> DataKind \<times> Device) OpParam)
     [Operand_of [4, 4] kFloat32 default_mesh [Replicate]] None 1 = Inl InvalidArgument"
  by (simp add: NewOperatorOrThrow_def ConstructOperator_def registration_order_def SetOrAssignUniqueId_def GetUniqueId_def
      fetch_add1_def kNoValue_def Chunk_InferOutputSize_def OperandAt_def GetValidDim_def Operand_of_def)

end
