(* ===== verification/FunctionalApi.thy ===== *)
theory FunctionalApi
  imports OperatorFactory
begin

text \<open>
  The functional interface of the client: src/dtorch/api/cpp/functional/ (tensor_functional.cc, neural_network.cc,
  math.cc, activation.cc, fused_compile_op.cc, system_functional.cc, implement/), the client side of
  api/cpp/tensor.cc and \<open>GraphConstructor::AddOperator\<close> of core/graph/graph_constructor.cc.  A tensor of the
  client is the graph it belongs to and an operand; a shared pointer to an operand is the number of the operator that
  produces it, in the order of submission, and the number of the output.  A function of the interface takes the state of
  the client and gives the new state with its result or the exception it throws: the operators submitted
  before a throw stay submitted.
\<close>

section \<open>The state of the client\<close>

record api_tensor =
  tGraph :: nat
  tProducer :: "nat \<times> nat"
  tOperand :: operand

record ('g, 't) submission =
  sbGraph :: nat
  sbOperator :: "(double, 'g, 't) operator"
  sbInputs :: "(nat \<times> nat) list"

record graph_settings =
  defaultDeviceMesh :: DeviceMesh
  defaultDataKind :: DataKind
  perDevicePerProcess :: "bool option"

record ('g, 't) api_client =
  clGraphs :: "nat \<Rightarrow> graph_settings"
  clIds :: "64 word"
  clSubmitted :: "('g, 't) submission list"

text \<open>
  What does not change: the GPUs of the cluster, their number and global devices, the order in which a hash set of devices is
  walked, the meta data of a torch tensor and the table of the factory.
\<close>

record 't client_env =
  envGpus :: int
  envMeta :: "'t tensor_meta"
  envTable :: "OperatorType list"
  envGpuDevices :: "Device list"
  envEnum :: "Device set \<Rightarrow> Device list"

type_synonym ('a, 'g, 't) client_m = "('g, 't) api_client \<Rightarrow> 'a res \<times> ('g, 't) api_client"

definition returnC :: "'a \<Rightarrow> ('a, 'g, 't) client_m" where
  "returnC x = (\<lambda>s. (Inr x, s))"

definition liftC :: "'a res \<Rightarrow> ('a, 'g, 't) client_m" where
  "liftC r = (\<lambda>s. (r, s))"

definition bindC :: "('a, 'g, 't) client_m \<Rightarrow> ('a \<Rightarrow> ('b, 'g, 't) client_m) \<Rightarrow> ('b, 'g, 't) client_m" where
  "bindC m f = (\<lambda>s. case m s of (Inl e, s) \<Rightarrow> (Inl e, s) | (Inr x, s) \<Rightarrow> f x s)"

definition guardC :: "err \<Rightarrow> bool \<Rightarrow> ('a, 'g, 't) client_m \<Rightarrow> ('a, 'g, 't) client_m" where
  "guardC e b m = (if b then m else (\<lambda>s. (Inl e, s)))"

abbreviation (input) assertC :: "bool \<Rightarrow> ('a, 'g, 't) client_m \<Rightarrow> ('a, 'g, 't) client_m" where
  "assertC \<equiv> guardC Abort"

abbreviation (input) requireC :: "bool \<Rightarrow> ('a, 'g, 't) client_m \<Rightarrow> ('a, 'g, 't) client_m" where
  "requireC \<equiv> guardC InvalidArgument"

definition settingsC :: "nat \<Rightarrow> (graph_settings, 'g, 't) client_m" where
  "settingsC g = (\<lambda>s. (Inr (clGraphs s g), s))"

fun foldC :: "('x \<Rightarrow> 'a \<Rightarrow> ('a, 'g, 't) client_m) \<Rightarrow> 'x list \<Rightarrow> 'a \<Rightarrow> ('a, 'g, 't) client_m" where
  "foldC f [] a = returnC a"
| "foldC f (x # xs) a = bindC (f x a) (foldC f xs)"

section \<open>Adding an operator\<close>

abbreviation tShape :: "api_tensor \<Rightarrow> shape" where
  "tShape t \<equiv> oShape (tOperand t)"

abbreviation tMesh :: "api_tensor \<Rightarrow> DeviceMesh" where
  "tMesh t \<equiv> oDeviceMesh (tOperand t)"

abbreviation tPlacements :: "api_tensor \<Rightarrow> placement_seq" where
  "tPlacements t \<equiv> oPlacementSeq (tOperand t)"

abbreviation tIsDistributed :: "api_tensor \<Rightarrow> bool" where
  "tIsDistributed t \<equiv> Operand_IsDistributed (tOperand t)"

definition CheckSupport :: "int \<Rightarrow> OperatorAssignInfo \<Rightarrow> unit res" where
  "CheckSupport totalGpuCount info = requireR (\<not> mMaxGpuId info \<ge> totalGpuCount) (Inr ())"

text \<open>The tensors of the outputs of the operator that is submitted as number \<open>n\<close>.\<close>

definition output_tensors :: "nat \<Rightarrow> nat \<Rightarrow> operand list \<Rightarrow> api_tensor list" where
  "output_tensors g n outs = map (\<lambda>k. \<lparr>tGraph = g, tProducer = (n, k), tOperand = outs ! k\<rparr>) [0..<length outs]"

definition Constructor_AddOperators ::
    "'t client_env \<Rightarrow> nat \<Rightarrow> (double, 'g, 't) OpParam \<Rightarrow> api_tensor list \<Rightarrow> (api_tensor list, 'g, 't) client_m" where
  "Constructor_AddOperators E g p inputs = (\<lambda>s.
     if list_ex (\<lambda>x. tGraph x \<noteq> g) inputs then (Inl InvalidArgument, s)
     else
       let s' = s\<lparr>clIds := snd (GetUniqueId (clIds s))\<rparr> in
       case NewOperatorOrThrow (envGpus E) (envMeta E) (envTable E) p (map tOperand inputs) None (clIds s) of
         Inl e \<Rightarrow> (Inl e, s')
       | Inr (opr, _) \<Rightarrow>
           (case CheckSupport (envGpus E) (oprAssignInfo opr) of
              Inl e \<Rightarrow> (Inl e, s')
            | Inr _ \<Rightarrow> (Inr (output_tensors g (length (clSubmitted s)) (oprOutputs opr)),
                s'\<lparr>clSubmitted := clSubmitted s @ [\<lparr>sbGraph = g, sbOperator = opr, sbInputs = map tProducer inputs\<rparr>]\<rparr>)))"

definition AddOperators ::
    "'t client_env \<Rightarrow> (double, 'g, 't) OpParam \<Rightarrow> api_tensor list \<Rightarrow> nat option \<Rightarrow> (api_tensor list, 'g, 't) client_m" where
  "AddOperators E p inputs graph = (case graph of
       Some g \<Rightarrow> Constructor_AddOperators E g p inputs
     | None \<Rightarrow> assertC (length inputs > 0) (Constructor_AddOperators E (tGraph (hd inputs)) p inputs))"

definition AddOperator ::
    "'t client_env \<Rightarrow> (double, 'g, 't) OpParam \<Rightarrow> api_tensor list \<Rightarrow> nat option \<Rightarrow> (api_tensor, 'g, 't) client_m" where
  "AddOperator E p inputs graph = bindC (AddOperators E p inputs graph) (\<lambda>ts. assertC (length ts = 1) (returnC (hd ts)))"

section \<open>Redistribution\<close>

definition tensor_layout :: "api_tensor \<Rightarrow> ConvertParam" where
  "tensor_layout t = \<lparr>pDataKind = oDataKind (tOperand t), pDeviceMesh = tMesh t, pPlacementSeq = tPlacements t\<rparr>"

definition AddConvert ::
    "'t client_env \<Rightarrow> ConvertOpImpl \<Rightarrow> ConvertParam \<Rightarrow> api_tensor \<Rightarrow> (api_tensor, 'g, 't) client_m" where
  "AddConvert E st param input =
     (if \<not> mConvertDataKind st \<and> \<not> mConvertDeviceMesh st \<and> \<not> mConvertPlacement st then returnC input
      else bindC (liftC (CheckValid (tShape input) (pDeviceMesh param) (pPlacementSeq param) (envGpus E)))
       (\<lambda>valid. requireC valid (AddOperator E (Convert_param param) [input] None)))"

text \<open>\<open>ConvertPlacementsOneByOne\<close> with its state, the tensor reached and the placements reached.\<close>

definition Convert_one_by_one ::
    "'t client_env \<Rightarrow> ConvertOpImpl \<Rightarrow> api_tensor \<Rightarrow> (ConvertOpImpl \<times> api_tensor, 'g, 't) client_m" where
  "Convert_one_by_one E st input =
     (if \<not> mConvertPlacement st \<or> \<not> mInputIsDistributed st \<or> \<not> mOutputIsDistributed st then returnC (st, input)
      else
        let src = pPlacementSeq (mSrc st); dest = pPlacementSeq (mDest st) in
        assertC (length src = length dest)
         (bindC (liftC (GetConvertOrder src dest)) (\<lambda>convertOrder.
          bindC (foldC (\<lambda>diffDim (convertPlacement, input).
              let convertPlacement = convertPlacement[diffDim := dest ! diffDim] in
              bindC (AddConvert E st ((mSrc st)\<lparr>pPlacementSeq := convertPlacement\<rparr>) input)
               (\<lambda>input. returnC (convertPlacement, input))) convertOrder (src, input)) (\<lambda>(_, input).
            returnC (st\<lparr>mSrc := (mSrc st)\<lparr>pPlacementSeq := dest\<rparr>, mConvertPlacement := False\<rparr>, input)))))"

definition Convert_RunFunc :: "'t client_env \<Rightarrow> ConvertOpImpl \<Rightarrow> api_tensor \<Rightarrow> (api_tensor, 'g, 't) client_m" where
  "Convert_RunFunc E st input =
     requireC (\<not> (mInputIsDistributed st \<and> mOutputIsDistributed st \<and>
         Mesh_NumAxis (pDeviceMesh (mSrc st)) \<noteq> Mesh_NumAxis (pDeviceMesh (mDest st))))
      (bindC (liftC (ToReplicateWhenDimSizeEqualOne (pPlacementSeq (mDest st)) (pDeviceMesh (mDest st)))) (\<lambda>ps.
       let st = st\<lparr>mDest := (mDest st)\<lparr>pPlacementSeq := ShardDimToPositiveNumber ps (tShape input)\<rparr>\<rparr> in
       bindC (Convert_one_by_one E st input) (\<lambda>(st, input). AddConvert E st (mDest st) input)))"

definition ConvertOpImpl_Call ::
    "'t client_env \<Rightarrow> api_tensor \<Rightarrow> DataKind option \<Rightarrow> DeviceMesh option \<Rightarrow> placement_seq option \<Rightarrow> (api_tensor, 'g, 't) client_m" where
  "ConvertOpImpl_Call E input dataKind deviceMesh placements =
     bindC (liftC (ConvertOpImpl_new (tShape input) (tensor_layout input) dataKind deviceMesh placements))
      (\<lambda>st. Convert_RunFunc E st input)"

definition api_Redistribute ::
    "'t client_env \<Rightarrow> api_tensor \<Rightarrow> DeviceMesh option \<Rightarrow> placement_seq option \<Rightarrow> (api_tensor, 'g, 't) client_m" where
  "api_Redistribute E input deviceMesh placementSeq = ConvertOpImpl_Call E input None deviceMesh placementSeq"

definition api_To ::
    "'t client_env \<Rightarrow> api_tensor \<Rightarrow> DeviceMesh option \<Rightarrow> DataKind option \<Rightarrow> (api_tensor, 'g, 't) client_m" where
  "api_To E input deviceMesh dtype =
     requireC (\<not> (case deviceMesh of Some m \<Rightarrow> Mesh_Shape m \<noteq> Mesh_Shape (tMesh input) | None \<Rightarrow> False))
      (ConvertOpImpl_Call E input dtype deviceMesh None)"

section \<open>Creation\<close>

text \<open>The values of these kinds depend on the rank: such a tensor is created on one device and distributed from there.\<close>

definition needRedistributeKind :: "CreateKind list" where
  "needRedistributeKind = [kArange, kRand, kRandInt, kRandn, kEye, kFromTorch]"

definition Create_placements :: "DeviceMesh \<Rightarrow> placement_seq option \<Rightarrow> placement_seq res" where
  "Create_placements mesh placements =
     (let ps = (if Mesh_IsDistributed mesh
          then (case placements of Some ps \<Rightarrow> ps | None \<Rightarrow> replicate (Mesh_NumAxis mesh) Replicate)
          else replicate (Mesh_NumAxis mesh) Replicate)
      in requireR (\<not> (case placements of Some ps \<Rightarrow> length ps \<noteq> Mesh_NumAxis mesh | None \<Rightarrow> False))
          (ToReplicateWhenDimSizeEqualOne ps mesh))"

record ('g, 't) create_args =
  caGenerator :: "'g option option"
  caDouble0 :: double
  caDouble1 :: double
  caDouble2 :: double
  caTorch :: "'t option"

definition no_args :: "('g, 't) create_args" where
  "no_args = \<lparr>caGenerator = None, caDouble0 = Double 0, caDouble1 = Double 0, caDouble2 = Double 0, caTorch = None\<rparr>"

definition CreateOpImpl ::
    "'t client_env \<Rightarrow> CreateKind \<Rightarrow> nat \<Rightarrow> shape \<Rightarrow> DataKind option \<Rightarrow> DeviceMesh option \<Rightarrow> placement_seq option \<Rightarrow>
      ('g, 't) create_args \<Rightarrow> (api_tensor, 'g, 't) client_m" where
  "CreateOpImpl E kind g shape dtype deviceMesh placements args =
     bindC (settingsC g) (\<lambda>graph.
     let mesh = (case deviceMesh of Some m \<Rightarrow> m | None \<Rightarrow> defaultDeviceMesh graph);
         dataKind = (case dtype of Some k \<Rightarrow> k | None \<Rightarrow> defaultDataKind graph) in
     bindC (liftC (Create_placements mesh placements)) (\<lambda>ps.
     let needRedistribute = (Mesh_IsDistributed mesh \<and> kind \<in> set needRedistributeKind) in
     bindC (liftC (DeviceMesh_of_Device (mk_Device (mDeviceKind mesh) 0))) (\<lambda>localMesh.
     let param = \<lparr>createKind = kind, create_shape = shape, create_dataKind = dataKind,
           create_mesh = (if needRedistribute then localMesh else mesh),
           create_placements = (if needRedistribute then [Replicate] else ps), create_generator = caGenerator args,
           doubleArg0 = caDouble0 args, doubleArg1 = caDouble1 args, doubleArg2 = caDouble2 args, torchValue = caTorch args\<rparr> in
     bindC (AddOperator E (Create_param param) [] (Some g)) (\<lambda>result.
       if needRedistribute then api_Redistribute E result (Some mesh) (Some ps) else returnC result))))"

definition api_Empty where
  "api_Empty E g shape dtype mesh ps = CreateOpImpl E kEmpty g shape dtype mesh ps no_args"

definition api_Zeros where
  "api_Zeros E g shape dtype mesh ps = CreateOpImpl E kZeros g shape dtype mesh ps no_args"

definition api_Ones where
  "api_Ones E g shape dtype mesh ps = CreateOpImpl E kOnes g shape dtype mesh ps no_args"

definition api_Rand where
  "api_Rand E g shape generator dtype mesh ps =
     CreateOpImpl E kRand g shape dtype mesh ps (no_args\<lparr>caGenerator := generator\<rparr>)"

definition api_Randn where
  "api_Randn E g shape generator dtype mesh ps =
     CreateOpImpl E kRandn g shape dtype mesh ps (no_args\<lparr>caGenerator := generator\<rparr>)"

definition api_Full where
  "api_Full E g shape fillValue dtype mesh ps =
     CreateOpImpl E kFull g shape dtype mesh ps (no_args\<lparr>caDouble0 := fillValue\<rparr>)"

definition api_ArangeImp where
  "api_ArangeImp E g dataKind arg0 arg1 arg2 dtype mesh ps =
     requireC (\<not> (arg1 = None \<and> arg2 \<noteq> None))
      (let (first, last1, stride1) = (case arg1 of
             Some e \<Rightarrow> (arg0, e, case arg2 of Some d \<Rightarrow> d | None \<Rightarrow> Double 1)
           | None \<Rightarrow> (Double 0, arg0, Double 1))
       in CreateOpImpl E kArange g [] (Some (case dtype of Some k \<Rightarrow> k | None \<Rightarrow> dataKind)) mesh ps
            (no_args\<lparr>caDouble0 := first, caDouble1 := last1, caDouble2 := stride1\<rparr>))"

definition api_Arange_int where
  "api_Arange_int E g first last1 stride1 dtype mesh ps =
     api_ArangeImp E g kInt64 (int_to_double first) (map_option int_to_double last1) (map_option int_to_double stride1) dtype mesh ps"

definition api_Arange_double where
  "api_Arange_double E g first last1 stride1 dtype mesh ps = api_ArangeImp E g kFloat32 first last1 stride1 dtype mesh ps"

definition api_Randint where
  "api_Randint E g low high shape generator dtype mesh ps =
     CreateOpImpl E kRandInt g shape (Some (case dtype of Some k \<Rightarrow> k | None \<Rightarrow> kInt64)) mesh ps
       (no_args\<lparr>caGenerator := generator, caDouble0 := int_to_double low, caDouble1 := int_to_double high\<rparr>)"

definition api_Randint_high where
  "api_Randint_high E g high shape generator dtype mesh ps = api_Randint E g 0 high shape generator dtype mesh ps"

text \<open>A tensor of the caller, on its own device unless a mesh is given; the flag says that the graph is synchronized
  afterwards.\<close>

definition api_FromTorch where
  "api_FromTorch E g t mesh ps =
     (let M = envMeta E in
      bindC (liftC (case mesh of Some m \<Rightarrow> Inr m | None \<Rightarrow> DeviceMesh_of_Device (tm_device M t))) (\<lambda>m.
      bindC (CreateOpImpl E kFromTorch g (tm_shape M t) (Some (tm_kind M t)) (Some m) ps (no_args\<lparr>caTorch := Some t\<rparr>)) (\<lambda>result.
      bindC (settingsC g) (\<lambda>graph.
        assertC (perDevicePerProcess graph \<noteq> None)
          (returnC (result, perDevicePerProcess graph = Some True \<and> deviceKind (tm_device M t) = kGpu))))))"

section \<open>Absent tensors\<close>

text \<open>A tensor of shape (-100) stands for an absent input.\<close>

definition GetNullTensorLike :: "'t client_env \<Rightarrow> api_tensor \<Rightarrow> (api_tensor, 'g, 't) client_m" where
  "GetNullTensorLike E t =
     api_Empty E (tGraph t) GetNullShape (Some (oDataKind (tOperand t))) (Some (tMesh t))
       (Some (replicate (Mesh_NumAxis (tMesh t)) Optional))"

definition TensorArrayPushOptional ::
    "'t client_env \<Rightarrow> api_tensor option \<Rightarrow> api_tensor list \<Rightarrow> (api_tensor list, 'g, 't) client_m" where
  "TensorArrayPushOptional E t array =
     assertC (length array > 0)
      (case t of
         None \<Rightarrow> bindC (GetNullTensorLike E (hd array)) (\<lambda>n. returnC (array @ [n]))
       | Some t \<Rightarrow> returnC (array @ [t]))"

definition AddWithOptionals ::
    "'t client_env \<Rightarrow> (double, 'g, 't) OpParam \<Rightarrow> api_tensor list \<Rightarrow> api_tensor option list \<Rightarrow> (api_tensor, 'g, 't) client_m" where
  "AddWithOptionals E p inputs optionals =
     bindC (foldC (TensorArrayPushOptional E) optionals inputs) (\<lambda>inputs. AddOperator E p inputs None)"

section \<open>From replicate to shard\<close>

definition R2S_placements :: "shape \<Rightarrow> shape \<Rightarrow> placement_seq \<Rightarrow> placement_seq \<Rightarrow> placement_seq res" where
  "R2S_placements inputAShape inputBShape placementsA placementsB =
     foldR (\<lambda>i placementsA.
         if IsReplicate (placementsA ! i) \<and> IsShard (placementsB ! i) then
           bindR (GetShardIndex (placementsB ! i)) (\<lambda>shardIdxInB.
           bindR (GetSubSplitCoordinates (placementsB ! i)) (\<lambda>sub.
           let shardIdxInA = shardIdxInB - int (NumAxis inputBShape) + int (NumAxis inputAShape) in
           if shardIdxInA < 0 then Inr placementsA
           else bindR (at_int inputAShape shardIdxInA) (\<lambda>n.
             if n \<le> 1 then Inr placementsA
             else assertR (shardIdxInA < int (NumAxis inputAShape)) (Inr (placementsA[i := Shard shardIdxInA sub])))))
         else Inr placementsA)
       [0..<length placementsA] placementsA"

definition PlacementR2S :: "'t client_env \<Rightarrow> api_tensor \<Rightarrow> api_tensor \<Rightarrow> (api_tensor, 'g, 't) client_m" where
  "PlacementR2S E replicateTensor shardTensor =
     (if \<not> tIsDistributed replicateTensor \<or> \<not> tIsDistributed shardTensor then returnC replicateTensor
      else requireC (\<not> length (tPlacements replicateTensor) \<noteq> length (tPlacements shardTensor))
       (bindC (liftC (R2S_placements (tShape replicateTensor) (tShape shardTensor) (tPlacements replicateTensor) (tPlacements shardTensor)))
         (\<lambda>ps. api_Redistribute E replicateTensor None (Some ps))))"

section \<open>Functions on tensors\<close>

definition api_unary :: "'t client_env \<Rightarrow> (double, 'g, 't) OpParam \<Rightarrow> api_tensor \<Rightarrow> (api_tensor, 'g, 't) client_m" where
  "api_unary E p input = AddOperator E p [input] None"

definition api_MaxMin ::
    "'t client_env \<Rightarrow> MaxMinKind \<Rightarrow> api_tensor \<Rightarrow> (int \<times> bool) option \<Rightarrow> (api_tensor list, 'g, 't) client_m" where
  "api_MaxMin E kind input od = AddOperators E (MaxMin_param
     \<lparr>maxMinKind = kind, maxMinDim = map_option fst od, maxMinKeepdim = (case od of Some (_, keepdim) \<Rightarrow> keepdim | None \<Rightarrow> False)\<rparr>) [input] None"

definition api_Max where
  "api_Max E input = api_MaxMin E kMax input"

definition api_Min where
  "api_Min E input = api_MaxMin E kMin input"

definition api_Reduce ::
    "'t client_env \<Rightarrow> ReduceKind \<Rightarrow> api_tensor \<Rightarrow> int list \<Rightarrow> bool \<Rightarrow> DataKind option \<Rightarrow> (api_tensor, 'g, 't) client_m" where
  "api_Reduce E kind input dims keepdim dtype =
     api_unary E (Reduce_param \<lparr>reduceKind = kind, reduceDim = dims, reduceKeepdim = keepdim, reduceDataKind = dtype\<rparr>) input"

definition api_Sum where
  "api_Sum E input dims keepdim dtype = api_Reduce E kSum input dims keepdim dtype"

definition api_Mean where
  "api_Mean E input dims keepdim dtype = api_Reduce E kMean input dims keepdim dtype"

definition api_Any where
  "api_Any E input dims keepdim = api_Reduce E kAny input dims keepdim None"

definition api_All where
  "api_All E input dims keepdim = api_Reduce E kAll input dims keepdim None"

definition api_Squeeze where
  "api_Squeeze E input dims = api_unary E (Squeeze_param (case dims of Some d \<Rightarrow> d | None \<Rightarrow> [])) input"

definition api_Unsqueeze where
  "api_Unsqueeze E input d = api_unary E (Unsqueeze_param d) input"

definition api_Chunk :: "'t client_env \<Rightarrow> api_tensor \<Rightarrow> int \<Rightarrow> int \<Rightarrow> (api_tensor list, 'g, 't) client_m" where
  "api_Chunk E input chunk d = AddOperators E (Chunk_param chunk d) [input] None"

definition api_Concat :: "'t client_env \<Rightarrow> api_tensor list \<Rightarrow> int \<Rightarrow> (api_tensor, 'g, 't) client_m" where
  "api_Concat E inputs d =
     assertC (length inputs > 0)
      (if length inputs = 1 then returnC (hd inputs) else AddOperator E (Concat_param d) inputs None)"

definition api_Expand where
  "api_Expand E input shape = api_unary E (Expand_param shape) input"

definition api_Transpose where
  "api_Transpose E input dim0 dim1 = api_unary E (Transpose_param dim0 dim1) input"

definition api_Permute where
  "api_Permute E input dims = api_unary E (Permute_param dims) input"

definition api_Repeat where
  "api_Repeat E input repeats = api_unary E (Repeat_param repeats) input"

definition api_RepeatInterleave where
  "api_RepeatInterleave E input repeats d = api_unary E (RepeatInterleave_param repeats d) input"

definition api_Pad :: "'t client_env \<Rightarrow> api_tensor \<Rightarrow> int list \<Rightarrow> string \<Rightarrow> (api_tensor, 'g, 't) client_m" where
  "api_Pad E input pad mode = (if length pad = 0 then returnC input else AddOperator E (Pad_param pad mode) [input] None)"

definition api_GetItem where
  "api_GetItem E input indexs = api_unary E (GetItem_param indexs) input"

definition api_SetItem :: "'t client_env \<Rightarrow> api_tensor \<Rightarrow> api_tensor \<Rightarrow> 't Index list \<Rightarrow> (api_tensor, 'g, 't) client_m" where
  "api_SetItem E input v indexs = AddOperator E (SetItem_param indexs) [input, v] None"

text \<open>The source is brought to the layout of the destination, or to one device.\<close>

definition Copy_source :: "'t client_env \<Rightarrow> api_tensor \<Rightarrow> api_tensor \<Rightarrow> (api_tensor, 'g, 't) client_m" where
  "Copy_source E input other =
     (if tIsDistributed input \<and> \<not> tIsDistributed other then
        api_Redistribute E other (Some (tMesh input)) (Some (tPlacements input))
      else if \<not> tIsDistributed input \<and> tIsDistributed other then
        bindC (liftC (DeviceMesh_of_Device (mk_Device (mDeviceKind (tMesh other)) 0))) (\<lambda>m.
          api_Redistribute E other (Some m) (Some [Replicate]))
      else if tIsDistributed input \<and> tIsDistributed other then
        api_Redistribute E other (Some (tMesh input)) (Some (tPlacements input))
      else bindC (liftC (DeviceMesh_eq (tMesh input) (tMesh other))) (\<lambda>same.
        if \<not> same then api_Redistribute E other (Some (tMesh input)) None else returnC other))"

definition api_Copy :: "'t client_env \<Rightarrow> api_tensor \<Rightarrow> api_tensor \<Rightarrow> (unit, 'g, 't) client_m" where
  "api_Copy E input other =
     bindC (Copy_source E input other) (\<lambda>formatedTensor.
     bindC (AddOperators E Copy_param [input, formatedTensor] None) (\<lambda>array.
       assertC (length array = 0) (returnC ())))"

definition api_View_shape where
  "api_View_shape E input shape = api_unary E (View_param (ViewShape shape)) input"

definition api_View_placements where
  "api_View_placements E input placements = api_unary E (View_param (ViewPlacements placements)) input"

definition api_Contiguous where
  "api_Contiguous E input = api_unary E Contiguous_param input"

definition api_Clone where
  "api_Clone E input = api_unary E Clone_param input"

definition api_Clamp_scalar where
  "api_Clamp_scalar E input lo hi = AddWithOptionals E (Clamp_param \<lparr>clamp_min = lo, clamp_max = hi\<rparr>) [input] [None, None]"

definition api_Clamp_tensor where
  "api_Clamp_tensor E input lo hi = AddWithOptionals E (Clamp_param \<lparr>clamp_min = None, clamp_max = None\<rparr>) [input] [lo, hi]"

definition Scalar_Value :: "double Scalar \<Rightarrow> double" where
  "Scalar_Value v = (case v of HAS_S s \<Rightarrow> int_to_double s | HAS_U u \<Rightarrow> int_to_double u | HAS_D d \<Rightarrow> d)"

definition api_WhereImp where
  "api_WhereImp E condition input other inputScalar otherScalar =
     AddWithOptionals E (Where_param \<lparr>where_input = inputScalar, where_other = otherScalar\<rparr>) [condition] [input, other]"

datatype branch = Branch_tensor api_tensor | Branch_scalar "double Scalar"

definition api_Where :: "'t client_env \<Rightarrow> api_tensor \<Rightarrow> branch \<Rightarrow> branch \<Rightarrow> (api_tensor, 'g, 't) client_m" where
  "api_Where E condition input other = (case (input, other) of
       (Branch_tensor x, Branch_tensor y) \<Rightarrow> api_WhereImp E condition (Some x) (Some y) None None
     | (Branch_scalar a, Branch_tensor y) \<Rightarrow> api_WhereImp E condition None (Some y) (Some (Scalar_Value a)) None
     | (Branch_tensor x, Branch_scalar b) \<Rightarrow> api_WhereImp E condition (Some x) None None (Some (Scalar_Value b))
     | (Branch_scalar a, Branch_scalar b) \<Rightarrow> api_WhereImp E condition None None (Some (Scalar_Value a)) (Some (Scalar_Value b)))"

definition api_MaskedFill :: "'t client_env \<Rightarrow> api_tensor \<Rightarrow> api_tensor \<Rightarrow> (api_tensor, 'g, 't) client_m" where
  "api_MaskedFill E input m = AddOperator E (Masked_param kMaskedFill) [input, m] None"

definition api_MaskedScatter :: "'t client_env \<Rightarrow> api_tensor \<Rightarrow> api_tensor \<Rightarrow> api_tensor \<Rightarrow> (api_tensor, 'g, 't) client_m" where
  "api_MaskedScatter E input m source = AddOperator E (Masked_param kMaskedScatter) [input, m, source] None"

text \<open>The type of the promise that carries the value to the client.\<close>

datatype PromiseType = MemoryPromise | FilePromise

definition GetTensorPromiseTypeFromOperand :: "operand \<Rightarrow> bool \<Rightarrow> PromiseType" where
  "GetTensorPromiseTypeFromOperand op perDevice =
     (if mDeviceKind (oDeviceMesh op) = kCpu then MemoryPromise else if perDevice then FilePromise else MemoryPromise)"

definition GetVoidPromiseType :: "bool \<Rightarrow> PromiseType" where
  "GetVoidPromiseType perDevice = (if perDevice then FilePromise else MemoryPromise)"

definition api_GetTensorAsync :: "'t client_env \<Rightarrow> api_tensor \<Rightarrow> (PromiseType, 'g, 't) client_m" where
  "api_GetTensorAsync E input =
     bindC (if tIsDistributed input then
         bindC (liftC (DeviceMesh_of_Device (mk_Device (mDeviceKind (tMesh input)) 0))) (\<lambda>m.
           api_Redistribute E input (Some m) None)
       else returnC input) (\<lambda>localTensor.
     bindC (settingsC (tGraph input)) (\<lambda>graph.
     let p = GetTensorPromiseTypeFromOperand (tOperand localTensor) (case perDevicePerProcess graph of Some b \<Rightarrow> b | None \<Rightarrow> False) in
     bindC (AddOperators E (GetTensor_param True) [localTensor] None) (\<lambda>_. returnC p)))"

section \<open>Neural networks\<close>

definition api_BatchNorm where
  "api_BatchNorm E input runningMean runningVar scale bias training format =
     assertC (training = False)
      (requireC (\<not> ((scale = None) \<noteq> (bias = None)))
        (requireC (\<not> (\<not> training \<and> (runningMean = None \<or> runningVar = None)))
          (AddWithOptionals E (BatchNorm_param format) [input] [runningMean, runningVar, scale, bias])))"

definition api_GroupNorm where
  "api_GroupNorm E input n scale bias =
     AddWithOptionals E (Normalization_param \<lparr>normKind = kGroupNorm, normalizedShape = [], numGroups = n\<rparr>) [input] [scale, bias]"

definition api_LayerNorm where
  "api_LayerNorm E input s scale bias =
     AddWithOptionals E (Normalization_param \<lparr>normKind = kLayerNorm, normalizedShape = s, numGroups = 0\<rparr>) [input] [scale, bias]"

definition api_RmsNorm where
  "api_RmsNorm E input s weights =
     AddWithOptionals E (Normalization_param \<lparr>normKind = kRmsNorm, normalizedShape = s, numGroups = 0\<rparr>) [input] [weights, None]"

definition GetKernelSize :: "shape \<Rightarrow> int list res" where
  "GetKernelSize weightShape = assertR (NumAxis weightShape = 4) (Inr [weightShape ! 2, weightShape ! 3])"

definition api_Conv2d where
  "api_Conv2d E input weights bias stride1 paddingType padding dilation grp format =
     bindC (liftC (GetKernelSize (tShape weights))) (\<lambda>kernelSize.
     bindC (liftC (ConvParam_new dilation grp kernelSize paddingType padding stride1 format)) (\<lambda>param.
       AddWithOptionals E (Conv_param param) [input, weights] [bias]))"

definition api_Dropout :: "'t client_env \<Rightarrow> api_tensor \<Rightarrow> bool \<Rightarrow> (api_tensor, 'g, 't) client_m" where
  "api_Dropout E input training = assertC (training = False) (returnC input)"

definition api_Flatten where
  "api_Flatten E input startDim endDim = api_unary E (Flatten_param startDim endDim) input"

definition api_Linear where
  "api_Linear E input weights bias = AddWithOptionals E Linear_param [input, weights] [bias]"

definition api_Matmul :: "'t client_env \<Rightarrow> api_tensor \<Rightarrow> api_tensor \<Rightarrow> (api_tensor, 'g, 't) client_m" where
  "api_Matmul E input other = AddOperator E Matmul_param [input, other] None"

definition api_Pooling2d where
  "api_Pooling2d E input kind dilation kernelSize stride1 paddingType padding ceil includePad format =
     bindC (liftC (PoolingParam_new kind dilation ceil kernelSize paddingType padding stride1 includePad format)) (\<lambda>param.
       api_unary E (Pooling_param param) input)"

definition api_GlobalPooling2d where
  "api_GlobalPooling2d E input kind format =
     bindC (liftC (PoolingParam_global kind True format)) (\<lambda>param. api_unary E (Pooling_param param) input)"

definition api_Reshape where
  "api_Reshape E input shape = api_unary E (Reshape_param shape) input"

definition api_Embedding :: "'t client_env \<Rightarrow> api_tensor \<Rightarrow> api_tensor \<Rightarrow> (api_tensor, 'g, 't) client_m" where
  "api_Embedding E input weights = AddOperator E Embedding_param [input, weights] None"

definition api_ScaledDotProductAttention where
  "api_ScaledDotProductAttention E query key v attnMask causal scale gqa sage =
     AddWithOptionals E (Sdpa_param \<lparr>isCausal = causal, sdpa_scale = scale, enableGqa = gqa, sageAttentionType = sage\<rparr>)
       [query, key, v] [attnMask]"

definition api_Interpolate where
  "api_Interpolate E input outSize scaleFactor mode alignCorners recompute antialias =
     api_unary E (Interpolate_param \<lparr>interp_shape = outSize, interp_scaleFactor = scaleFactor, interp_mode = mode,
       interp_alignCorners = alignCorners, interp_recomputeScaleFactor = recompute, interp_antialias = antialias\<rparr>) input"

definition api_Interpolate_scalar where
  "api_Interpolate_scalar E input outSize scaleFactor mode alignCorners recompute antialias =
     api_Interpolate E input outSize (map_option (\<lambda>x. [x]) scaleFactor) mode alignCorners recompute antialias"

definition api_Softmax where
  "api_Softmax E input d = (case d of None \<Rightarrow> liftC (Inl InvalidArgument) | Some d \<Rightarrow> api_unary E (Softmax_param d) input)"

section \<open>Arithmetic and activations\<close>

text \<open>An absent first input is a null tensor like the second; two tensors are aligned in both directions.\<close>

definition BroadcastBinaryOpImpl ::
    "'t client_env \<Rightarrow> BroadcastBinaryKind \<Rightarrow> api_tensor option \<Rightarrow> api_tensor option \<Rightarrow> double Scalar option \<Rightarrow>
      double Scalar option \<Rightarrow> double option \<Rightarrow> (api_tensor, 'g, 't) client_m" where
  "BroadcastBinaryOpImpl E kind input other a b scale =
     assertC (input \<noteq> None \<or> other \<noteq> None)
      (bindC (case input of None \<Rightarrow> GetNullTensorLike E (the other) | Some x \<Rightarrow> returnC x) (\<lambda>input0.
       bindC (TensorArrayPushOptional E other [input0]) (\<lambda>inputs.
       bindC (if input \<noteq> None \<and> other \<noteq> None then
           bindC (PlacementR2S E (inputs ! 0) (inputs ! 1)) (\<lambda>x.
           bindC (PlacementR2S E (inputs ! 1) x) (\<lambda>y. returnC [x, y]))
         else returnC inputs) (\<lambda>inputs.
         AddOperator E (BroadcastBinary_param \<lparr>binaryKind = kind, inputA = a, inputB = b, scaleB = scale\<rparr>) inputs None))))"

text \<open>The second operand of a binary function: a tensor or a number.\<close>

definition api_Binary ::
    "'t client_env \<Rightarrow> BroadcastBinaryKind \<Rightarrow> api_tensor \<Rightarrow> branch \<Rightarrow> double option \<Rightarrow> (api_tensor, 'g, 't) client_m" where
  "api_Binary E kind input other alpha = (case other of
       Branch_tensor y \<Rightarrow> BroadcastBinaryOpImpl E kind (Some input) (Some y) None None alpha
     | Branch_scalar b \<Rightarrow> BroadcastBinaryOpImpl E kind (Some input) None None (Some b) alpha)"

definition api_Add where
  "api_Add E input other alpha = api_Binary E kAdd input other (Some alpha)"

definition api_Sub where
  "api_Sub E input other alpha = api_Binary E kSub input other (Some alpha)"

definition api_Mul where
  "api_Mul E input other = api_Binary E kMul input other None"

definition api_Div where
  "api_Div E input other = api_Binary E kDiv input other None"

definition api_Equal where
  "api_Equal E input other = api_Binary E kEqual input other None"

definition api_Greater where
  "api_Greater E input other = api_Binary E kGreater input other None"

definition api_GreaterEqual where
  "api_GreaterEqual E input other = api_Binary E kGreaterEqual input other None"

definition api_Less where
  "api_Less E input other = api_Binary E kLess input other None"

definition api_LessEqual where
  "api_LessEqual E input other = api_Binary E kLessEqual input other None"

definition api_Pow where
  "api_Pow E input other = api_Binary E kPow input other None"

definition api_Pow_scalar where
  "api_Pow_scalar E self exponent = BroadcastBinaryOpImpl E kPow None (Some exponent) (Some self) None None"

definition api_Minimum where
  "api_Minimum E input other = BroadcastBinaryOpImpl E kMinimum (Some input) (Some other) None None None"

definition api_Maximum where
  "api_Maximum E input other = BroadcastBinaryOpImpl E kMaximum (Some input) (Some other) None None None"

definition api_LogicalAnd where
  "api_LogicalAnd E input other = BroadcastBinaryOpImpl E kLogicalAnd (Some input) (Some other) None None None"

definition api_LogicalOr where
  "api_LogicalOr E input other = BroadcastBinaryOpImpl E kLogicalOr (Some input) (Some other) None None None"

definition api_Einsum :: "'t client_env \<Rightarrow> string \<Rightarrow> api_tensor list \<Rightarrow> (api_tensor, 'g, 't) client_m" where
  "api_Einsum E equation operands =
     assertC (length operands > 0) (AddOperator E (Einsum_param equation) operands None)"

definition BaseMathImp where
  "BaseMathImp E input baseMathType = AddOperator E (BaseMath_param baseMathType) [input] None"

definition api_Exp where
  "api_Exp E input = BaseMathImp E input kExp"

definition api_Square where
  "api_Square E input = BaseMathImp E input kSquare"

definition api_Rsqrt where
  "api_Rsqrt E input = BaseMathImp E input kRsqrt"

definition api_Abs where
  "api_Abs E input = BaseMathImp E input kAbs"

definition api_Round where
  "api_Round E input = BaseMathImp E input kRound"

definition api_Floor where
  "api_Floor E input = BaseMathImp E input kFloor"

definition api_Cos where
  "api_Cos E input = BaseMathImp E input kCos"

definition api_Sin where
  "api_Sin E input = BaseMathImp E input kSin"

definition api_Asin where
  "api_Asin E input = BaseMathImp E input kAsin"

definition api_Tanh where
  "api_Tanh E input = BaseMathImp E input kTanh"

definition api_Neg where
  "api_Neg E input = BaseMathImp E input kNeg"

definition api_Reciprocal where
  "api_Reciprocal E input = BaseMathImp E input kReciprocal"

definition api_Log where
  "api_Log E input = BaseMathImp E input kLog"

definition api_Log2 where
  "api_Log2 E input = BaseMathImp E input kLog2"

definition api_Log10 where
  "api_Log10 E input = BaseMathImp E input kLog10"

definition api_Isinf where
  "api_Isinf E input = BaseMathImp E input kIsInf"

definition api_Isnan where
  "api_Isnan E input = BaseMathImp E input kIsNan"

definition api_Outer :: "'t client_env \<Rightarrow> api_tensor \<Rightarrow> api_tensor \<Rightarrow> (api_tensor, 'g, 't) client_m" where
  "api_Outer E input vec2 = AddOperator E Outer_param [input, vec2] None"

definition ActivationOpImpl ::
    "'t client_env \<Rightarrow> api_tensor \<Rightarrow> ActivationType \<Rightarrow> bool \<Rightarrow> double \<Rightarrow> string \<Rightarrow> (api_tensor, 'g, 't) client_m" where
  "ActivationOpImpl E input atype inplace alpha approximate = AddOperator E (Activation_param
     \<lparr>activationType = atype, act_inplace = inplace, act_alpha = alpha, act_beta = Double 0, act_approximate = approximate\<rparr>) [input] None"

definition api_Relu where
  "api_Relu E input inplace = ActivationOpImpl E input kReLU inplace (Double 0) []"

definition api_Sigmoid where
  "api_Sigmoid E input = ActivationOpImpl E input kSigmoid False (Double 0) []"

definition api_LeakyRelu where
  "api_LeakyRelu E input negativeSlope inplace = ActivationOpImpl E input kLeakyRelu inplace negativeSlope []"

definition api_Elu where
  "api_Elu E input alpha inplace = ActivationOpImpl E input kELU inplace alpha []"

definition api_Gelu where
  "api_Gelu E input approximate =
     ActivationOpImpl E input kGELU False (Double 0) (if approximate = [] then ''none'' else approximate)"

definition api_Silu where
  "api_Silu E input inplace = ActivationOpImpl E input kSiLU inplace (Double 0) []"

section \<open>Fused operators\<close>

definition api_ApplyRotaryEmb ::
    "'t client_env \<Rightarrow> api_tensor \<Rightarrow> api_tensor list \<Rightarrow> bool \<Rightarrow> int \<Rightarrow> (api_tensor, 'g, 't) client_m" where
  "api_ApplyRotaryEmb E x freqsCis re unbindDim =
     requireC (\<not> length freqsCis \<noteq> 2)
      (bindC (PlacementR2S E (freqsCis ! 0) x) (\<lambda>f0.
       bindC (PlacementR2S E (freqsCis ! 1) x) (\<lambda>f1.
         AddOperator E (ApplyRotaryEmb_param \<lparr>useReal = re, useRealUnbindDim = unbindDim\<rparr>) [x, f0, f1] None)))"

definition api_SiluLinearChunk ::
    "'t client_env \<Rightarrow> api_tensor \<Rightarrow> api_tensor \<Rightarrow> api_tensor \<Rightarrow> int \<Rightarrow> (api_tensor list, 'g, 't) client_m" where
  "api_SiluLinearChunk E emb linearWeight linearBias chunkSize =
     AddOperators E (SiluLinearChunk_param chunkSize) [emb, linearWeight, linearBias] None"

definition api_LayerNormMulAdd where
  "api_LayerNormMulAdd E x scale shift s normEps normScale normBias =
     AddWithOptionals E (LayerNormMulAdd_param \<lparr>lnma_normalizedShape = s, lnma_epsilon = normEps\<rparr>) [x, scale, shift] [normScale, normBias]"

section \<open>Functions of the system\<close>

definition NvtxOpImpl :: "'t client_env \<Rightarrow> nat \<Rightarrow> NvtxType \<Rightarrow> string \<Rightarrow> (unit, 'g, 't) client_m" where
  "NvtxOpImpl E g ntype message =
     (let meshVec = sort (map deviceId (filter (\<lambda>d. deviceKind d = kGpu) (envGpuDevices E))) in
      bindC (liftC (DeviceMesh_of_vec kGpu meshVec [])) (\<lambda>m.
      bindC (AddOperators E (Nvtx_param \<lparr>nvtxType = ntype, nvtx_message = message, nvtx_mesh = m\<rparr>) [] (Some g)) (\<lambda>array.
        assertC (length array = 0) (returnC ()))))"

definition api_NvtxRangePush where
  "api_NvtxRangePush E g message = NvtxOpImpl E g kRangePush message"

definition api_NvtxRangePop where
  "api_NvtxRangePop E g = NvtxOpImpl E g kRangePop []"

definition api_NvtxMark where
  "api_NvtxMark E g message = NvtxOpImpl E g kMark message"

definition MemoryOpImpl ::
    "'t client_env \<Rightarrow> nat \<Rightarrow> MemoryOperationType \<Rightarrow> Device list \<Rightarrow> bool \<Rightarrow> (api_tensor list, 'g, 't) client_m" where
  "MemoryOpImpl E g mtype devices resetPeak = AddOperators E
     (Memory_param \<lparr>memoryOperationType = mtype, resetPeakStats = resetPeak, mem_devices = devices\<rparr>) [] (Some g)"

definition api_EmptyCache :: "'t client_env \<Rightarrow> nat \<Rightarrow> (unit, 'g, 't) client_m" where
  "api_EmptyCache E g = bindC (MemoryOpImpl E g kEmptyCache (envGpuDevices E) False) (\<lambda>_. returnC ())"

text \<open>The tensor with the statistics; what is read from it is the matter of \<open>ToMemoryStats\<close>.\<close>

definition api_GetMemoryStats :: "'t client_env \<Rightarrow> nat \<Rightarrow> DeviceMesh option \<Rightarrow> bool \<Rightarrow> (api_tensor, 'g, 't) client_m" where
  "api_GetMemoryStats E g mesh resetPeak =
     requireC (\<not> (case mesh of Some m \<Rightarrow> mDeviceKind m \<noteq> kGpu | None \<Rightarrow> False))
      (let devices = (case mesh of Some m \<Rightarrow> Mesh_ToDeviceVec m | None \<Rightarrow> envGpuDevices E) in
       bindC (MemoryOpImpl E g kMemoryStats devices resetPeak) (\<lambda>array.
         assertC (length array = 1) (returnC (hd array))))"

text \<open>One promise per device, all of one type.\<close>

definition api_Sync :: "'t client_env \<Rightarrow> nat \<Rightarrow> Device list option \<Rightarrow> (PromiseType list, 'g, 't) client_m" where
  "api_Sync E g syncDevices =
     bindC (liftC (Sync_devices (envEnum E) (envGpuDevices E) syncDevices)) (\<lambda>devices.
     bindC (settingsC g) (\<lambda>graph.
     let p = GetVoidPromiseType (case perDevicePerProcess graph of Some b \<Rightarrow> b | None \<Rightarrow> False) in
     bindC (AddOperators E (Sync_param devices) [] (Some g)) (\<lambda>_. returnC (replicate (length devices) p))))"

section \<open>Running a sequence of calls\<close>

lemma returnC_run: "returnC x s = (Inr x, s)"
  by (simp add: returnC_def)

lemma liftC_run: "liftC r s = (r, s)"
  by (simp add: liftC_def)

lemma settingsC_run: "settingsC g s = (Inr (clGraphs s g), s)"
  by (simp add: settingsC_def)

lemmas run_simps = returnC_run liftC_run settingsC_run

lemma bindC_eq_Inr: "bindC m f s = (Inr y, s'') \<longleftrightarrow> (\<exists>x s'. m s = (Inr x, s') \<and> f x s' = (Inr y, s''))"
  by (cases "m s"; cases "fst (m s)") (auto simp: bindC_def)

lemma guardC_eq_Inr: "guardC e b m s = (Inr y, s') \<longleftrightarrow> b \<and> m s = (Inr y, s')"
  by (auto simp: guardC_def)

text \<open>A tensor names an output that was produced, and every operator reads outputs of earlier operators of its own graph.\<close>

definition output_at :: "('g, 't) submission list \<Rightarrow> nat \<Rightarrow> nat \<times> nat \<Rightarrow> operand \<Rightarrow> bool" where
  "output_at sub g p x \<longleftrightarrow> fst p < length sub \<and> sbGraph (sub ! fst p) = g \<and>
     snd p < length (oprOutputs (sbOperator (sub ! fst p))) \<and> oprOutputs (sbOperator (sub ! fst p)) ! snd p = x"

definition handle_ok :: "('g, 't) api_client \<Rightarrow> api_tensor \<Rightarrow> bool" where
  "handle_ok s t \<longleftrightarrow> output_at (clSubmitted s) (tGraph t) (tProducer t) (tOperand t)"

definition submitted_in_order :: "int \<Rightarrow> ('g, 't) api_client \<Rightarrow> bool" where
  "submitted_in_order gpus s \<longleftrightarrow> (\<forall>j < length (clSubmitted s). let b = clSubmitted s ! j in
     list_all2 (output_at (take j (clSubmitted s)) (sbGraph b)) (sbInputs b) (oprInputs (sbOperator b)) \<and>
     mMaxGpuId (oprAssignInfo (sbOperator b)) < gpus)"

lemma output_at_append: "output_at sub g p x \<Longrightarrow> output_at (sub @ new) g p x"
  by (auto simp: output_at_def nth_append)

text \<open>A computation is safe for graphs \<open>G\<close> and tensors \<open>T\<close> of them: it keeps the order, only appends operators of these
  graphs, also when it throws, and returns tensors of these graphs.\<close>

definition safe_step ::
    "int \<Rightarrow> nat set \<Rightarrow> ('g, 't) api_client \<Rightarrow> ('g, 't) api_client \<Rightarrow> api_tensor set \<Rightarrow> bool" where
  "safe_step gpus G s s' out \<longleftrightarrow> submitted_in_order gpus s' \<and> clGraphs s' = clGraphs s \<and>
     (\<exists>new. clSubmitted s' = clSubmitted s @ new \<and> sbGraph ` set new \<subseteq> G) \<and> (\<forall>t \<in> out. handle_ok s' t \<and> tGraph t \<in> G)"

definition safe ::
    "int \<Rightarrow> nat set \<Rightarrow> api_tensor set \<Rightarrow> ('a, 'g, 't) client_m \<Rightarrow> ('a \<Rightarrow> api_tensor set) \<Rightarrow> bool" where
  "safe gpus G T m result \<longleftrightarrow> (\<forall>s. submitted_in_order gpus s \<longrightarrow> (\<forall>t \<in> T. handle_ok s t \<and> tGraph t \<in> G) \<longrightarrow>
     (case m s of (Inl e, s') \<Rightarrow> safe_step gpus G s s' {} | (Inr x, s') \<Rightarrow> safe_step gpus G s s' (result x)))"

lemma safeD:
  "safe gpus G T m result \<Longrightarrow> submitted_in_order gpus s \<Longrightarrow> \<forall>t \<in> T. handle_ok s t \<and> tGraph t \<in> G \<Longrightarrow>
     (case m s of (Inl e, s') \<Rightarrow> safe_step gpus G s s' {} | (Inr x, s') \<Rightarrow> safe_step gpus G s s' (result x))"
  by (simp add: safe_def)

lemma handle_ok_extend: "clSubmitted s' = clSubmitted s @ new \<Longrightarrow> handle_ok s t \<Longrightarrow> handle_ok s' t"
  by (simp add: handle_ok_def output_at_append)

lemma safe_step_refl: "submitted_in_order gpus s \<Longrightarrow> \<forall>t \<in> out. handle_ok s t \<and> tGraph t \<in> G \<Longrightarrow> safe_step gpus G s s out"
  by (simp add: safe_step_def)

lemma safe_step_trans:
  assumes "safe_step gpus G s s1 out" and "safe_step gpus G s1 s2 out'"
  shows "safe_step gpus G s s2 out'"
proof -
  from assms obtain new new' where "clSubmitted s1 = clSubmitted s @ new" "sbGraph ` set new \<subseteq> G"
    "clSubmitted s2 = clSubmitted s1 @ new'" "sbGraph ` set new' \<subseteq> G"
    by (auto simp: safe_step_def)
  then have "clSubmitted s2 = clSubmitted s @ (new @ new') \<and> sbGraph ` set (new @ new') \<subseteq> G" by auto
  with assms show ?thesis unfolding safe_step_def by metis
qed

lemma safe_return: "result x \<subseteq> T \<Longrightarrow> safe gpus G T (returnC x) result"
  by (auto simp: safe_def returnC_def intro!: safe_step_refl)

lemma safe_lift: "(\<And>x. result x = {}) \<Longrightarrow> safe gpus G T (liftC r) result"
  by (cases r) (auto simp: safe_def liftC_def intro!: safe_step_refl)

lemma safe_throw: "safe gpus G T (liftC (Inl e)) result"
  by (auto simp: safe_def liftC_def intro!: safe_step_refl)

lemma safe_settings: "(\<And>x. result x = {}) \<Longrightarrow> safe gpus G T (settingsC g) result"
  by (auto simp: safe_def settingsC_def intro!: safe_step_refl)

lemma safe_guard: "(b \<Longrightarrow> safe gpus G T m result) \<Longrightarrow> safe gpus G T (guardC e b m) result"
  by (auto simp: safe_def guardC_def intro!: safe_step_refl)

lemma safe_if: "(b \<Longrightarrow> safe gpus G T m result) \<Longrightarrow> (\<not> b \<Longrightarrow> safe gpus G T m' result) \<Longrightarrow> safe gpus G T (if b then m else m') result"
  by simp

lemma safe_bind:
  fixes m :: "('a, 'g, 't) client_m" and f :: "'a \<Rightarrow> ('b, 'g, 't) client_m"
  assumes m: "safe gpus G T m mid" and f: "\<And>x. safe gpus G (T \<union> mid x) (f x) result"
  shows "safe gpus G T (bindC m f) result"
  unfolding safe_def
proof (intro allI impI)
  fix s :: "('g, 't) api_client"
  assume ok: "submitted_in_order gpus s" "\<forall>t \<in> T. handle_ok s t \<and> tGraph t \<in> G"
  obtain r s1 where run: "m s = (r, s1)" by (cases "m s")
  show "case bindC m f s of (Inl e, s') \<Rightarrow> safe_step gpus G s s' {} | (Inr x, s') \<Rightarrow> safe_step gpus G s s' (result x)"
  proof (cases r)
    case (Inl e)
    with m ok run show ?thesis by (auto simp: bindC_def safe_def)
  next
    case (Inr x)
    from m ok run Inr have s1: "safe_step gpus G s s1 (mid x)" by (auto simp: safe_def)
    then obtain new where "clSubmitted s1 = clSubmitted s @ new" "\<forall>t \<in> mid x. handle_ok s1 t \<and> tGraph t \<in> G"
      by (auto simp: safe_step_def)
    with ok(2) have "\<forall>t \<in> T \<union> mid x. handle_ok s1 t \<and> tGraph t \<in> G" using handle_ok_extend by blast
    moreover have "submitted_in_order gpus s1" using s1 by (simp add: safe_step_def)
    ultimately have "case f x s1 of (Inl e, s') \<Rightarrow> safe_step gpus G s1 s' {} | (Inr x, s') \<Rightarrow> safe_step gpus G s1 s' (result x)"
      by (intro safeD [OF f])
    moreover have "bindC m f s = f x s1" using run Inr by (simp add: bindC_def)
    ultimately show ?thesis using safe_step_trans [OF s1] by (auto split: prod.splits sum.splits)
  qed
qed

lemma safe_fold:
  assumes "\<And>x a T. S \<subseteq> T \<Longrightarrow> part a \<subseteq> T \<Longrightarrow> x \<in> set xs \<Longrightarrow> safe gpus G T (f x a) part"
    and "S \<subseteq> T" and "part a \<subseteq> T"
  shows "safe gpus G T (foldC f xs a) part"
  using assms
proof (induction xs arbitrary: a T)
  case Nil
  then show ?case by (simp add: safe_return)
next
  case (Cons x xs)
  have "safe gpus G T (f x a) part" using Cons.prems by simp
  moreover have "safe gpus G (T \<union> part b) (foldC f xs b) part" for b
    by (rule Cons.IH) (use Cons.prems in auto)
  ultimately show ?case by (simp add: safe_bind)
qed

lemma safe_weaken:
  fixes m :: "('a, 'g, 't) client_m"
  assumes "safe gpus G T m result" and "T \<subseteq> T'" and "\<And>x. result' x \<subseteq> result x"
  shows "safe gpus G T' m result'"
  unfolding safe_def
proof (intro allI impI)
  fix s :: "('g, 't) api_client"
  assume "submitted_in_order gpus s" "\<forall>t \<in> T'. handle_ok s t \<and> tGraph t \<in> G"
  with assms(2) have "case m s of (Inl e, s') \<Rightarrow> safe_step gpus G s s' {} | (Inr x, s') \<Rightarrow> safe_step gpus G s s' (result x)"
    by (intro safeD [OF assms(1)]) auto
  then show "case m s of (Inl e, s') \<Rightarrow> safe_step gpus G s s' {} | (Inr x, s') \<Rightarrow> safe_step gpus G s s' (result' x)"
    using assms(3) by (auto simp: safe_step_def split: prod.splits sum.splits)
qed

lemma NewOperator_parts:
  assumes "NewOperatorOrThrow gpus M m p inputs uniqueId acc = Inr (opr, acc')"
  shows "oprInputs opr = inputs" "oprParam opr = p"
    "\<exists>n. OpParam_InferOutputSize inputs p (OpParam_class M (tm_shape M) inputs p) = Inr n \<and>
      OpParam_Infer gpus inputs (replicate n Operand_new) p (OpParam_class M (tm_shape M) inputs p) = Inr (oprOutputs opr, oprAssignInfo opr)"
proof -
  from assms obtain i acc1 n outs info where parts:
    "ConstructOperator m p = Inr p" "SetOrAssignUniqueId uniqueId acc = Inr (i, acc1)"
    "OpParam_InferOutputSize inputs p (OpParam_class M (tm_shape M) inputs p) = Inr n"
    "AddFailed (OpParam_Infer gpus inputs (replicate n Operand_new) p (OpParam_class M (tm_shape M) inputs p)) = Inr (outs, info)"
    "opr = \<lparr>oprUniqueId = i, oprParam = p, oprInputs = inputs, oprOutputs = outs, oprAssignInfo = info\<rparr>"
    by (auto simp only: NewOperatorOrThrow_def ConstructOperator_def Let_def bindR_eq_Inr guardR_eq_Inr prod.case split_paired_Ex sum.inject prod.inject)
  then show "oprInputs opr = inputs" "oprParam opr = p"
    "\<exists>n. OpParam_InferOutputSize inputs p (OpParam_class M (tm_shape M) inputs p) = Inr n \<and>
      OpParam_Infer gpus inputs (replicate n Operand_new) p (OpParam_class M (tm_shape M) inputs p) = Inr (oprOutputs opr, oprAssignInfo opr)"
    by simp_all
qed

lemma client_ok_snoc:
  assumes "submitted_in_order gpus s" and "clSubmitted s' = clSubmitted s @ [b]"
    and "list_all2 (output_at (clSubmitted s) (sbGraph b)) (sbInputs b) (oprInputs (sbOperator b))"
    and "mMaxGpuId (oprAssignInfo (sbOperator b)) < gpus"
  shows "submitted_in_order gpus s'"
  unfolding submitted_in_order_def Let_def
proof (intro allI impI)
  fix j
  assume j: "j < length (clSubmitted s')"
  show "list_all2 (output_at (take j (clSubmitted s')) (sbGraph (clSubmitted s' ! j))) (sbInputs (clSubmitted s' ! j))
      (oprInputs (sbOperator (clSubmitted s' ! j))) \<and> mMaxGpuId (oprAssignInfo (sbOperator (clSubmitted s' ! j))) < gpus"
    using assms j by (cases "j = length (clSubmitted s)") (simp_all add: submitted_in_order_def Let_def nth_append)
qed

text \<open>The only place where operators are submitted.\<close>

lemma safe_constructor:
  assumes "set inputs \<subseteq> T" and "g \<in> G" and env: "envGpus E = gpus"
  shows "safe gpus G T (Constructor_AddOperators E g p inputs) set"
  unfolding safe_def
proof (intro allI impI)
  fix s :: "('b, 'a) api_client"
  assume ok: "submitted_in_order gpus s" "\<forall>t \<in> T. handle_ok s t \<and> tGraph t \<in> G"
  let ?r = "Constructor_AddOperators E g p inputs s"
  let ?s' = "s\<lparr>clIds := snd (GetUniqueId (clIds s))\<rparr>"
  have same: "safe_step gpus G s s {}" "safe_step gpus G s ?s' {}"
    using ok(1) by (auto simp: safe_step_def submitted_in_order_def)
  show "case ?r of (Inl e, s') \<Rightarrow> safe_step gpus G s s' {} | (Inr x, s') \<Rightarrow> safe_step gpus G s s' (set x)"
  proof (cases "list_ex (\<lambda>x. tGraph x \<noteq> g) inputs")
    case True
    then show ?thesis using same(1) by (simp add: Constructor_AddOperators_def)
  next
    case False
    note here = this
    let ?n = "NewOperatorOrThrow (envGpus E) (envMeta E) (envTable E) p (map tOperand inputs) None (clIds s)"
    show ?thesis
    proof (cases ?n)
      case (Inl e)
      then show ?thesis using same(2) here by (simp add: Constructor_AddOperators_def Let_def)
    next
      case (Inr oa)
      then obtain opr acc where n: "?n = Inr (opr, acc)" by (cases oa) simp
      note parts = NewOperator_parts [OF n]
      show ?thesis
      proof (cases "CheckSupport (envGpus E) (oprAssignInfo opr)")
        case (Inl e)
        then show ?thesis using same(2) here n by (simp add: Constructor_AddOperators_def Let_def)
      next
        case (Inr u)
        let ?b = "\<lparr>sbGraph = g, sbOperator = opr, sbInputs = map tProducer inputs\<rparr>"
        let ?s1 = "?s'\<lparr>clSubmitted := clSubmitted s @ [?b]\<rparr>"
        let ?out = "output_tensors g (length (clSubmitted s)) (oprOutputs opr)"
        have run: "?r = (Inr ?out, ?s1)" using here n Inr by (simp add: Constructor_AddOperators_def Let_def)
        have gpu: "mMaxGpuId (oprAssignInfo opr) < gpus" using Inr env by (simp add: CheckSupport_def guardR_eq_Inr)
        have "\<forall>x \<in> set inputs. output_at (clSubmitted s) g (tProducer x) (tOperand x)"
          using ok(2) assms(1) here by (auto simp: handle_ok_def list_ex_iff)
        then have "list_all2 (output_at (clSubmitted s) g) (map tProducer inputs) (map tOperand inputs)"
          by (simp add: list_all2_conv_all_nth)
        with gpu have "submitted_in_order gpus ?s1" by (intro client_ok_snoc [OF ok(1), where b = ?b]) (simp_all add: parts(1))
        moreover have "\<forall>t \<in> set ?out. handle_ok ?s1 t \<and> tGraph t \<in> G"
          using assms(2) by (auto simp: output_tensors_def handle_ok_def output_at_def nth_append)
        ultimately have "safe_step gpus G s ?s1 (set ?out)" using assms(2) by (auto simp: safe_step_def)
        with run show ?thesis by simp
      qed
    qed
  qed
qed

named_theorems safe_rules "safety of the computations of the client"

abbreviation no_result :: "'a \<Rightarrow> api_tensor set" where
  "no_result \<equiv> (\<lambda>_. {})"

abbreviation one_tensor :: "api_tensor \<Rightarrow> api_tensor set" where
  "one_tensor \<equiv> (\<lambda>t. {t})"

lemma safe_lift_none [safe_rules]: "safe gpus G T (liftC r) no_result"
  by (rule safe_lift) simp

lemma safe_settings_none [safe_rules]: "safe gpus G T (settingsC g) no_result"
  by (rule safe_settings) simp

lemma safe_graph: "(tGraph t \<in> G \<Longrightarrow> safe gpus G T m result) \<Longrightarrow> t \<in> T \<Longrightarrow> safe gpus G T m result"
  by (cases "tGraph t \<in> G") (auto simp: safe_def)

lemma safe_AddOperators:
  assumes "set inputs \<subseteq> T" and "case graph of Some g \<Rightarrow> g \<in> G | None \<Rightarrow> True" and "envGpus E = gpus"
  shows "safe gpus G T (AddOperators E p inputs graph) set"
proof (cases graph)
  case None
  show ?thesis
  proof (cases inputs)
    case Nil
    then show ?thesis using None by (simp add: AddOperators_def safe_guard)
  next
    case (Cons x xs)
    then have x: "x \<in> T" using assms(1) by simp
    have "safe gpus G T (Constructor_AddOperators E (tGraph x) p inputs) set"
      by (rule safe_graph [OF _ x]) (rule safe_constructor [OF assms(1) _ assms(3)])
    then show ?thesis using None Cons by (simp add: AddOperators_def safe_guard)
  qed
next
  case (Some g)
  with assms show ?thesis by (simp add: AddOperators_def safe_constructor)
qed

lemma safe_AddOperator:
  assumes "set inputs \<subseteq> T" and "case graph of Some g \<Rightarrow> g \<in> G | None \<Rightarrow> True" and "envGpus E = gpus"
  shows "safe gpus G T (AddOperator E p inputs graph) one_tensor"
  unfolding AddOperator_def
proof (rule safe_bind [OF safe_AddOperators [OF assms]])
  fix ts :: "api_tensor list"
  show "safe gpus G (T \<union> set ts) (guardC Abort (length ts = 1) (returnC (hd ts))) one_tensor"
    by (cases ts) (auto intro!: safe_guard safe_return)
qed

lemma safe_AddConvert:
  assumes "x \<in> T" and "envGpus E = gpus"
  shows "safe gpus G T (AddConvert E st param x) one_tensor"
  unfolding AddConvert_def using assms
  by (auto intro!: safe_if safe_bind [OF safe_lift_none] safe_guard safe_return safe_AddOperator)

lemma safe_Convert_one_by_one:
  assumes "x \<in> T" and env: "envGpus E = gpus"
  shows "safe gpus G T (Convert_one_by_one E st x) (\<lambda>(_, t). {t})"
proof -
  have step: "safe gpus G T (case a of (ps, y) \<Rightarrow> let ps' = f ps in
      bindC (AddConvert E st (g ps') y) (\<lambda>y. returnC (ps', y))) (\<lambda>(_, t). {t})"
    if "(\<lambda>(_, t). {t}) a \<subseteq> T" for T a and f :: "placement_seq \<Rightarrow> placement_seq" and g
  proof (cases a)
    case (Pair ps y)
    with that have "safe gpus G T (AddConvert E st (g (f ps)) y) one_tensor" by (intro safe_AddConvert env) simp
    then show ?thesis using Pair by (auto simp: Let_def intro!: safe_bind safe_return)
  qed
  have "safe gpus G T (foldC (\<lambda>diffDim (convertPlacement, input).
              let convertPlacement = convertPlacement[diffDim := dest ! diffDim] in
              bindC (AddConvert E st ((mSrc st)\<lparr>pPlacementSeq := convertPlacement\<rparr>) input)
               (\<lambda>input. returnC (convertPlacement, input))) order (src, x)) (\<lambda>(_, t). {t})" if "x \<in> T" for T order src dest
    using that by (intro safe_fold [where S = "{}"] step) auto
  with assms show ?thesis
    unfolding Convert_one_by_one_def Let_def
    by (auto intro!: safe_if safe_return safe_guard safe_bind [OF safe_lift_none] safe_bind)
qed

lemma safe_Redistribute:
  assumes "x \<in> T" and env: "envGpus E = gpus"
  shows "safe gpus G T (ConvertOpImpl_Call E x dk m ps) one_tensor"
proof -
  have "safe gpus G T (Convert_RunFunc E st x) one_tensor" if "x \<in> T" for T st
    unfolding Convert_RunFunc_def Let_def
    by (auto intro!: safe_guard safe_bind [OF safe_lift_none] safe_bind [OF safe_Convert_one_by_one] safe_AddConvert that env)
  then show ?thesis using assms unfolding ConvertOpImpl_Call_def by (auto intro!: safe_bind [OF safe_lift_none])
qed

lemma safe_Create:
  assumes "g \<in> G" and env: "envGpus E = gpus"
  shows "safe gpus G T (CreateOpImpl E kind g shape dtype mesh ps args) one_tensor"
  unfolding CreateOpImpl_def Let_def api_Redistribute_def
  using assms
  by (auto intro!: safe_bind [OF safe_settings_none] safe_bind [OF safe_lift_none] safe_bind [OF safe_AddOperator] safe_if
      safe_return safe_Redistribute)

lemma safe_null:
  assumes "x \<in> T" and env: "envGpus E = gpus"
  shows "safe gpus G T (GetNullTensorLike E x) one_tensor"
  unfolding GetNullTensorLike_def api_Empty_def by (rule safe_graph [OF _ assms(1)]) (rule safe_Create [OF _ env])

text \<open>The tensors an optional argument brings in.\<close>

definition given :: "api_tensor option list \<Rightarrow> api_tensor set" where
  "given optionals = {x. Some x \<in> set optionals}"

lemma given_simps [simp]: "given [] = {}" "given (Some x # xs) = insert x (given xs)" "given (None # xs) = given xs"
  "given (t # None # xs) = given (t # xs)"
  by (auto simp: given_def)

lemma safe_push:
  assumes "set array \<subseteq> T" and "given [t] \<subseteq> T" and env: "envGpus E = gpus"
  shows "safe gpus G T (TensorArrayPushOptional E t array) set"
proof (cases array)
  case Nil
  then show ?thesis by (simp add: TensorArrayPushOptional_def safe_guard)
next
  case (Cons x xs)
  with assms have "x \<in> T" by simp
  then show ?thesis
    unfolding TensorArrayPushOptional_def using assms Cons
    by (cases t) (auto intro!: safe_guard safe_return safe_bind [OF safe_null])
qed

lemma safe_optionals:
  assumes "set inputs \<subseteq> T" and "given optionals \<subseteq> T" and env: "envGpus E = gpus"
  shows "safe gpus G T (AddWithOptionals E p inputs optionals) one_tensor"
proof -
  have "safe gpus G T (foldC (TensorArrayPushOptional E) optionals inputs) set"
    by (rule safe_fold [where S = "given optionals"])
      (use assms in \<open>auto simp: given_def intro!: safe_push\<close>)
  then show ?thesis unfolding AddWithOptionals_def by (auto intro!: safe_bind safe_AddOperator simp: env)
qed

lemma safe_R2S:
  assumes "x \<in> T" and env: "envGpus E = gpus"
  shows "safe gpus G T (PlacementR2S E x y) one_tensor"
  unfolding PlacementR2S_def api_Redistribute_def using assms
  by (auto intro!: safe_if safe_return safe_guard safe_bind [OF safe_lift_none] safe_Redistribute)

lemma bindC_return [simp]: "bindC (returnC x) f = f x"
  by (simp add: bindC_def returnC_def)

lemma bindC_assoc: "bindC (bindC m f) k = bindC m (\<lambda>x. bindC (f x) k)"
  by (auto simp: bindC_def split: prod.splits sum.splits intro!: ext)

lemma guardC_True [simp]: "guardC e True m = m"
  by (simp add: guardC_def)

text \<open>The three uses of a binary operator.\<close>

lemma Broadcast_tensors:
  "BroadcastBinaryOpImpl E kind (Some x) (Some y) a b scale =
     bindC (PlacementR2S E x y) (\<lambda>x. bindC (PlacementR2S E y x) (\<lambda>y.
       AddOperator E (BroadcastBinary_param \<lparr>binaryKind = kind, inputA = a, inputB = b, scaleB = scale\<rparr>) [x, y] None))"
  by (simp add: BroadcastBinaryOpImpl_def TensorArrayPushOptional_def bindC_assoc)

lemma Broadcast_right_absent:
  "BroadcastBinaryOpImpl E kind (Some x) None a b scale = bindC (GetNullTensorLike E x) (\<lambda>n.
     AddOperator E (BroadcastBinary_param \<lparr>binaryKind = kind, inputA = a, inputB = b, scaleB = scale\<rparr>) [x, n] None)"
  by (simp add: BroadcastBinaryOpImpl_def TensorArrayPushOptional_def bindC_assoc)

lemma Broadcast_left_absent:
  "BroadcastBinaryOpImpl E kind None (Some y) a b scale = bindC (GetNullTensorLike E y) (\<lambda>n.
     AddOperator E (BroadcastBinary_param \<lparr>binaryKind = kind, inputA = a, inputB = b, scaleB = scale\<rparr>) [n, y] None)"
  by (simp add: BroadcastBinaryOpImpl_def TensorArrayPushOptional_def bindC_assoc)

lemma safe_Broadcast:
  assumes "given [input, other] \<subseteq> T" and env: "envGpus E = gpus"
  shows "safe gpus G T (BroadcastBinaryOpImpl E kind input other a b scale) one_tensor"
proof (cases input)
  case None
  show ?thesis
  proof (cases other)
    case None
    then show ?thesis using \<open>input = None\<close> by (simp add: BroadcastBinaryOpImpl_def safe_guard)
  next
    case (Some y)
    then show ?thesis using None assms
      by (auto simp: Broadcast_left_absent intro!: safe_bind [OF safe_null] safe_AddOperator)
  qed
next
  case (Some x)
  then show ?thesis using assms
    by (cases other) (auto simp: Broadcast_tensors Broadcast_right_absent intro!: safe_bind [OF safe_null] safe_bind [OF safe_R2S] safe_AddOperator)
qed

section \<open>Everything a client can call\<close>

definition with_one :: "(api_tensor, 'g, 't) client_m \<Rightarrow> (api_tensor list, 'g, 't) client_m" where
  "with_one m = bindC m (\<lambda>t. returnC [t])"

definition with_none :: "('a, 'g, 't) client_m \<Rightarrow> (api_tensor list, 'g, 't) client_m" where
  "with_none m = bindC m (\<lambda>_. returnC [])"

definition present :: "api_tensor option list \<Rightarrow> api_tensor list" where
  "present optionals = concat (map (\<lambda>t. case t of None \<Rightarrow> [] | Some t \<Rightarrow> [t]) optionals)"

definition branches :: "branch list \<Rightarrow> api_tensor list" where
  "branches bs = concat (map (\<lambda>b. case b of Branch_tensor t \<Rightarrow> [t] | Branch_scalar _ \<Rightarrow> []) bs)"

text \<open>The tensors and the graphs a call mentions, and what it does; one rule per function of the interface.\<close>

inductive api_function ::
    "'t client_env \<Rightarrow> api_tensor list \<Rightarrow> nat list \<Rightarrow> (api_tensor list, 'g, 't) client_m \<Rightarrow> bool" for E where
  Empty: "api_function E [] [g] (with_one (api_Empty E g s k m ps))"
| Zeros: "api_function E [] [g] (with_one (api_Zeros E g s k m ps))"
| Ones: "api_function E [] [g] (with_one (api_Ones E g s k m ps))"
| Rand: "api_function E [] [g] (with_one (api_Rand E g s gen k m ps))"
| Randn: "api_function E [] [g] (with_one (api_Randn E g s gen k m ps))"
| Full: "api_function E [] [g] (with_one (api_Full E g s v k m ps))"
| Arange_int: "api_function E [] [g] (with_one (api_Arange_int E g i j l k m ps))"
| Arange_double: "api_function E [] [g] (with_one (api_Arange_double E g u v w k m ps))"
| Randint: "api_function E [] [g] (with_one (api_Randint E g i h s gen k m ps))"
| Randint_high: "api_function E [] [g] (with_one (api_Randint_high E g h s gen k m ps))"
| FromTorch: "api_function E [] [g] (with_one (bindC (api_FromTorch E g t m ps) (\<lambda>(t, _). returnC t)))"
| Max: "api_function E [x] [] (api_Max E x od)"
| Min: "api_function E [x] [] (api_Min E x od)"
| Chunk: "api_function E [x] [] (api_Chunk E x c d)"
| Sum: "api_function E [x] [] (with_one (api_Sum E x ds b k))"
| Mean: "api_function E [x] [] (with_one (api_Mean E x ds b k))"
| Any: "api_function E [x] [] (with_one (api_Any E x ds b))"
| All: "api_function E [x] [] (with_one (api_All E x ds b))"
| Squeeze: "api_function E [x] [] (with_one (api_Squeeze E x os))"
| Unsqueeze: "api_function E [x] [] (with_one (api_Unsqueeze E x d))"
| Expand: "api_function E [x] [] (with_one (api_Expand E x s))"
| Transpose: "api_function E [x] [] (with_one (api_Transpose E x d e))"
| Permute: "api_function E [x] [] (with_one (api_Permute E x ds))"
| Repeat: "api_function E [x] [] (with_one (api_Repeat E x ds))"
| RepeatInterleave: "api_function E [x] [] (with_one (api_RepeatInterleave E x d od))"
| Pad: "api_function E [x] [] (with_one (api_Pad E x ds md))"
| GetItem: "api_function E [x] [] (with_one (api_GetItem E x ix))"
| View_shape: "api_function E [x] [] (with_one (api_View_shape E x s))"
| View_placements: "api_function E [x] [] (with_one (api_View_placements E x qs))"
| Contiguous: "api_function E [x] [] (with_one (api_Contiguous E x))"
| Clone: "api_function E [x] [] (with_one (api_Clone E x))"
| Clamp_scalar: "api_function E [x] [] (with_one (api_Clamp_scalar E x lo hi))"
| To: "api_function E [x] [] (with_one (api_To E x om k))"
| Redistribute: "api_function E [x] [] (with_one (api_Redistribute E x om ops))"
| Dropout: "api_function E [x] [] (with_one (api_Dropout E x b))"
| Flatten: "api_function E [x] [] (with_one (api_Flatten E x d e))"
| GlobalPooling2d: "api_function E [x] [] (with_one (api_GlobalPooling2d E x pk f))"
| Pooling2d: "api_function E [x] [] (with_one (api_Pooling2d E x pk ds ks ss pt pp b c f))"
| Reshape: "api_function E [x] [] (with_one (api_Reshape E x s))"
| Interpolate: "api_function E [x] [] (with_one (api_Interpolate E x os fs md p q w))"
| Interpolate_scalar: "api_function E [x] [] (with_one (api_Interpolate_scalar E x os fs md p q w))"
| Softmax: "api_function E [x] [] (with_one (api_Softmax E x od))"
| Relu: "api_function E [x] [] (with_one (api_Relu E x b))"
| Sigmoid: "api_function E [x] [] (with_one (api_Sigmoid E x))"
| LeakyRelu: "api_function E [x] [] (with_one (api_LeakyRelu E x v b))"
| Elu: "api_function E [x] [] (with_one (api_Elu E x v b))"
| Gelu: "api_function E [x] [] (with_one (api_Gelu E x md))"
| Silu: "api_function E [x] [] (with_one (api_Silu E x b))"
| Exp: "api_function E [x] [] (with_one (api_Exp E x))"
| Square: "api_function E [x] [] (with_one (api_Square E x))"
| Rsqrt: "api_function E [x] [] (with_one (api_Rsqrt E x))"
| Abs: "api_function E [x] [] (with_one (api_Abs E x))"
| Round: "api_function E [x] [] (with_one (api_Round E x))"
| Floor: "api_function E [x] [] (with_one (api_Floor E x))"
| Cos: "api_function E [x] [] (with_one (api_Cos E x))"
| Sin: "api_function E [x] [] (with_one (api_Sin E x))"
| Asin: "api_function E [x] [] (with_one (api_Asin E x))"
| Tanh: "api_function E [x] [] (with_one (api_Tanh E x))"
| Neg: "api_function E [x] [] (with_one (api_Neg E x))"
| Reciprocal: "api_function E [x] [] (with_one (api_Reciprocal E x))"
| Log: "api_function E [x] [] (with_one (api_Log E x))"
| Log2: "api_function E [x] [] (with_one (api_Log2 E x))"
| Log10: "api_function E [x] [] (with_one (api_Log10 E x))"
| Isinf: "api_function E [x] [] (with_one (api_Isinf E x))"
| Isnan: "api_function E [x] [] (with_one (api_Isnan E x))"
| SetItem: "api_function E [x, y] [] (with_one (api_SetItem E x y ix))"
| MaskedFill: "api_function E [x, y] [] (with_one (api_MaskedFill E x y))"
| Matmul: "api_function E [x, y] [] (with_one (api_Matmul E x y))"
| Embedding: "api_function E [x, y] [] (with_one (api_Embedding E x y))"
| Outer: "api_function E [x, y] [] (with_one (api_Outer E x y))"
| Minimum: "api_function E [x, y] [] (with_one (api_Minimum E x y))"
| Maximum: "api_function E [x, y] [] (with_one (api_Maximum E x y))"
| LogicalAnd: "api_function E [x, y] [] (with_one (api_LogicalAnd E x y))"
| LogicalOr: "api_function E [x, y] [] (with_one (api_LogicalOr E x y))"
| MaskedScatter: "api_function E [x, y, z] [] (with_one (api_MaskedScatter E x y z))"
| Concat: "api_function E xs [] (with_one (api_Concat E xs d))"
| Einsum: "api_function E xs [] (with_one (api_Einsum E eqn xs))"
| Copy: "api_function E [x, y] [] (with_none (api_Copy E x y))"
| Clamp_tensor: "api_function E (x # present [ox, oy]) [] (with_one (api_Clamp_tensor E x ox oy))"
| Where: "api_function E (x # branches [bx, c]) [] (with_one (api_Where E x bx c))"
| Add: "api_function E (x # branches [c]) [] (with_one (api_Add E x c v))"
| Sub: "api_function E (x # branches [c]) [] (with_one (api_Sub E x c v))"
| Mul: "api_function E (x # branches [c]) [] (with_one (api_Mul E x c))"
| Div: "api_function E (x # branches [c]) [] (with_one (api_Div E x c))"
| Equal: "api_function E (x # branches [c]) [] (with_one (api_Equal E x c))"
| Greater: "api_function E (x # branches [c]) [] (with_one (api_Greater E x c))"
| GreaterEqual: "api_function E (x # branches [c]) [] (with_one (api_GreaterEqual E x c))"
| Less: "api_function E (x # branches [c]) [] (with_one (api_Less E x c))"
| LessEqual: "api_function E (x # branches [c]) [] (with_one (api_LessEqual E x c))"
| Pow: "api_function E (x # branches [c]) [] (with_one (api_Pow E x c))"
| Pow_scalar: "api_function E [y] [] (with_one (api_Pow_scalar E sc y))"
| BatchNorm: "api_function E (x # present [o1, o2, o3, o4]) [] (with_one (api_BatchNorm E x o1 o2 o3 o4 b f))"
| GroupNorm: "api_function E (x # present [o1, o2]) [] (with_one (api_GroupNorm E x n o1 o2))"
| LayerNorm: "api_function E (x # present [o1, o2]) [] (with_one (api_LayerNorm E x s o1 o2))"
| RmsNorm: "api_function E (x # present [o1]) [] (with_one (api_RmsNorm E x s o1))"
| Conv2d: "api_function E (x # y # present [o1]) [] (with_one (api_Conv2d E x y o1 ss pt pp ds grp f))"
| Linear: "api_function E (x # y # present [o1]) [] (with_one (api_Linear E x y o1))"
| Sdpa: "api_function E (x # y # z # present [o1]) [] (with_one (api_ScaledDotProductAttention E x y z o1 b os c sage))"
| ApplyRotaryEmb: "api_function E (x # xs) [] (with_one (api_ApplyRotaryEmb E x xs b d))"
| SiluLinearChunk: "api_function E [x, y, z] [] (api_SiluLinearChunk E x y z d)"
| LayerNormMulAdd: "api_function E (x # y # z # present [o1, o2]) [] (with_one (api_LayerNormMulAdd E x y z s v o1 o2))"
| GetTensorAsync: "api_function E [x] [] (with_none (api_GetTensorAsync E x))"
| NvtxRangePush: "api_function E [] [g] (with_none (api_NvtxRangePush E g md))"
| NvtxRangePop: "api_function E [] [g] (with_none (api_NvtxRangePop E g))"
| NvtxMark: "api_function E [] [g] (with_none (api_NvtxMark E g md))"
| EmptyCache: "api_function E [] [g] (with_none (api_EmptyCache E g))"
| GetMemoryStats: "api_function E [] [g] (with_one (api_GetMemoryStats E g om b))"
| Sync: "api_function E [] [g] (with_none (api_Sync E g ods))"

lemmas unary_defs = api_Exp_def api_Square_def api_Rsqrt_def api_Abs_def api_Round_def api_Floor_def api_Cos_def
  api_Sin_def api_Asin_def api_Tanh_def api_Neg_def api_Reciprocal_def api_Log_def api_Log2_def api_Log10_def
  api_Isinf_def api_Isnan_def api_unary_def api_Reduce_def BaseMathImp_def ActivationOpImpl_def api_Sum_def api_Mean_def
  api_Any_def api_All_def api_Squeeze_def api_Unsqueeze_def api_Expand_def api_Transpose_def api_Permute_def
  api_Repeat_def api_RepeatInterleave_def api_GetItem_def api_View_shape_def api_View_placements_def api_Contiguous_def
  api_Clone_def api_Flatten_def api_Reshape_def api_Interpolate_def api_Interpolate_scalar_def api_Relu_def
  api_Sigmoid_def api_LeakyRelu_def api_Elu_def api_Gelu_def api_Silu_def api_SetItem_def api_MaskedFill_def
  api_MaskedScatter_def api_Matmul_def api_Embedding_def api_Outer_def

lemmas optional_defs = api_WhereImp_def api_Clamp_scalar_def api_Clamp_tensor_def api_GroupNorm_def api_LayerNorm_def
  api_RmsNorm_def api_Linear_def api_ScaledDotProductAttention_def api_LayerNormMulAdd_def

lemmas create_defs = api_Empty_def api_Zeros_def api_Ones_def api_Rand_def api_Randn_def api_Full_def api_ArangeImp_def
  api_Arange_int_def api_Arange_double_def api_Randint_def api_Randint_high_def

lemmas binary_defs = api_Binary_def api_Add_def api_Sub_def api_Mul_def api_Div_def api_Equal_def api_Greater_def
  api_GreaterEqual_def api_Less_def api_LessEqual_def api_Pow_def api_Pow_scalar_def api_Minimum_def api_Maximum_def
  api_LogicalAnd_def api_LogicalOr_def

lemmas several_defs = api_MaxMin_def api_Max_def api_Min_def api_Chunk_def api_SiluLinearChunk_def MemoryOpImpl_def

lemma safe_with_one: "safe gpus G T m one_tensor \<Longrightarrow> safe gpus G T (with_one m) set"
  unfolding with_one_def by (rule safe_bind) (auto intro: safe_return)

lemma safe_with_none: "safe gpus G T m mid \<Longrightarrow> safe gpus G T (with_none m) set"
  unfolding with_none_def by (rule safe_bind) (auto intro: safe_return)

lemma set_present [simp]: "set (present os) = given os"
  by (induction os) (auto simp: present_def given_def split: option.splits)

lemma safe_FromTorch:
  assumes "g \<in> G" and env: "envGpus E = gpus"
  shows "safe gpus G T (bindC (api_FromTorch E g t m ps) (\<lambda>(t, _). returnC t)) one_tensor"
  unfolding api_FromTorch_def Let_def bindC_assoc using assms
  by (auto intro!: safe_bind [OF safe_lift_none] safe_bind [OF safe_Create] safe_bind [OF safe_settings_none] safe_return
      safe_bind [OF safe_guard [OF safe_return], where mid = "\<lambda>(t, _). {t}"])

lemma safe_Copy:
  assumes "{x, y} \<subseteq> T" and env: "envGpus E = gpus"
  shows "safe gpus G T (api_Copy E x y) no_result"
proof -
  have "safe gpus G T (Copy_source E x y) one_tensor"
    unfolding Copy_source_def api_Redistribute_def using assms
    by (auto intro!: safe_if safe_bind [OF safe_lift_none] safe_Redistribute safe_return)
  then show ?thesis unfolding api_Copy_def using assms
    by (auto intro!: safe_bind [of _ _ _ "Copy_source E x y"] safe_bind [OF safe_AddOperators] safe_guard safe_return)
qed

lemma safe_GetTensorAsync:
  assumes "x \<in> T" and env: "envGpus E = gpus"
  shows "safe gpus G T (api_GetTensorAsync E x) no_result"
proof -
  have "safe gpus G T (if tIsDistributed x then
         bindC (liftC (DeviceMesh_of_Device (mk_Device (mDeviceKind (tMesh x)) 0))) (\<lambda>m. api_Redistribute E x (Some m) None)
       else returnC x) one_tensor"
    unfolding api_Redistribute_def using assms
    by (auto intro!: safe_if safe_bind [OF safe_lift_none] safe_Redistribute safe_return)
  then show ?thesis unfolding api_GetTensorAsync_def Let_def
    by (rule safe_bind) (auto intro!: safe_bind [OF safe_settings_none] safe_bind [OF safe_AddOperators] safe_return simp: env)
qed

lemma safe_hd: "length xs = n \<Longrightarrow> n > 0 \<Longrightarrow> set xs \<subseteq> T \<Longrightarrow> safe gpus G T (returnC (hd xs)) one_tensor"
  by (cases xs) (auto intro: safe_return)

lemma safe_lists:
  assumes "set xs \<subseteq> T" and env: "envGpus E = gpus"
  shows "safe gpus G T (api_Concat E xs d) one_tensor" "safe gpus G T (api_Einsum E eqn xs) one_tensor"
    "x \<in> T \<Longrightarrow> safe gpus G T (api_ApplyRotaryEmb E x xs b d) one_tensor"
proof -
  show "safe gpus G T (api_Concat E xs d) one_tensor"
    unfolding api_Concat_def by (rule safe_guard, rule safe_if) (use assms in \<open>auto intro!: safe_hd [of _ 1] safe_AddOperator\<close>)
  show "safe gpus G T (api_Einsum E eqn xs) one_tensor"
    unfolding api_Einsum_def using assms by (auto intro!: safe_guard safe_AddOperator)
  assume x: "x \<in> T"
  show "safe gpus G T (api_ApplyRotaryEmb E x xs b d) one_tensor"
    unfolding api_ApplyRotaryEmb_def
  proof (rule safe_guard)
    assume "\<not> length xs \<noteq> 2"
    then have "xs ! 0 \<in> T" "xs ! 1 \<in> T" using assms(1) by (auto simp: numeral_2_eq_2 length_Suc_conv)
    with x env show "safe gpus G T (bindC (PlacementR2S E (xs ! 0) x) (\<lambda>f0. bindC (PlacementR2S E (xs ! 1) x) (\<lambda>f1.
         AddOperator E (ApplyRotaryEmb_param \<lparr>useReal = b, useRealUnbindDim = d\<rparr>) [x, f0, f1] None))) one_tensor"
      by (auto intro!: safe_bind [OF safe_R2S] safe_AddOperator)
  qed
qed

lemma safe_shortcuts:
  assumes "x \<in> T" and env: "envGpus E = gpus"
  shows "safe gpus G T (api_Pad E x ds md) one_tensor" "safe gpus G T (api_Dropout E x b) one_tensor"
    "safe gpus G T (api_To E x om k) one_tensor" "safe gpus G T (api_Redistribute E x om ops) one_tensor"
  using assms by (auto simp: api_Pad_def api_Dropout_def api_To_def api_Redistribute_def
      intro!: safe_if safe_guard safe_return safe_AddOperator safe_Redistribute)

lemma safe_checked:
  assumes "x \<in> T" and env: "envGpus E = gpus"
  shows "safe gpus G T (api_GlobalPooling2d E x pk f) one_tensor"
    "safe gpus G T (api_Pooling2d E x pk ds ks ss pt pp b c f) one_tensor"
    "safe gpus G T (api_Softmax E x od) one_tensor"
  using assms by (auto simp: api_GlobalPooling2d_def api_Pooling2d_def api_Softmax_def api_unary_def
      intro!: safe_bind [OF safe_lift_none] safe_AddOperator safe_throw split: option.splits)

lemma safe_checked_optionals:
  assumes env: "envGpus E = gpus"
  shows "given [Some x, o1, o2, o3, o4] \<subseteq> T \<Longrightarrow> safe gpus G T (api_BatchNorm E x o1 o2 o3 o4 b f) one_tensor"
    "given [Some x, Some y, o1] \<subseteq> T \<Longrightarrow> safe gpus G T (api_Conv2d E x y o1 ss pt pp ds grp f) one_tensor"
  unfolding api_BatchNorm_def api_Conv2d_def using env
  by (auto intro!: safe_guard safe_optionals safe_bind [OF safe_lift_none])

lemma safe_system:
  assumes env: "envGpus E = gpus" and "g \<in> G"
  shows "safe gpus G T (NvtxOpImpl E g nt md) no_result" "safe gpus G T (api_EmptyCache E g) no_result"
    "safe gpus G T (api_GetMemoryStats E g om b) one_tensor" "safe gpus G T (api_Sync E g ods) no_result"
  unfolding NvtxOpImpl_def api_EmptyCache_def api_GetMemoryStats_def api_Sync_def MemoryOpImpl_def Let_def AddOperator_def [symmetric]
  using assms
  by (auto intro!: safe_bind [OF safe_lift_none] safe_bind [OF safe_settings_none] safe_bind [OF safe_AddOperators] safe_guard
      safe_return safe_AddOperator)

lemma safe_creates:
  assumes "g \<in> G" and "envGpus E = gpus"
  shows "safe gpus G T (api_Empty E g s k m ps) one_tensor" "safe gpus G T (api_Zeros E g s k m ps) one_tensor"
    "safe gpus G T (api_Ones E g s k m ps) one_tensor" "safe gpus G T (api_Rand E g s gen k m ps) one_tensor"
    "safe gpus G T (api_Randn E g s gen k m ps) one_tensor" "safe gpus G T (api_Full E g s v k m ps) one_tensor"
    "safe gpus G T (api_Arange_int E g i j l k m ps) one_tensor" "safe gpus G T (api_Arange_double E g u u1 u2 k m ps) one_tensor"
    "safe gpus G T (api_Randint E g i h s gen k m ps) one_tensor" "safe gpus G T (api_Randint_high E g h s gen k m ps) one_tensor"
  using assms by (auto simp: create_defs Let_def case_prod_beta intro!: safe_Create safe_guard)

lemma safe_function:
  assumes "api_function E ts gs m" and env: "envGpus E = gpus" and T: "set ts \<subseteq> T" and G: "set gs \<subseteq> G"
  shows "safe gpus G T m set"
  using assms(1)
proof cases
qed (use T G in \<open>auto simp: several_defs unary_defs optional_defs binary_defs branches_def api_Where_def
    api_NvtxRangePush_def api_NvtxRangePop_def api_NvtxMark_def
    intro!: safe_with_one safe_with_none env safe_AddOperators safe_AddOperator safe_FromTorch safe_optionals safe_Broadcast
    safe_lists safe_shortcuts safe_checked safe_checked_optionals safe_system safe_Copy safe_GetTensorAsync safe_creates
    split: branch.splits\<close>)

section \<open>Every state a client can reach\<close>

lemma bindC_Inr: "m s = (Inr x, s') \<Longrightarrow> bindC m f s = f x s'"
  by (simp add: bindC_def)

lemma AddOperator_run:
  assumes "NewOperatorOrThrow (envGpus E) (envMeta E) (envTable E) p (map tOperand inputs) None (clIds s) = Inr (opr, acc)"
    and "oprOutputs opr = [y]" and "mMaxGpuId (oprAssignInfo opr) < envGpus E" and "\<forall>x \<in> set inputs. tGraph x = g"
  shows "AddOperator E p inputs (Some g) s = (Inr \<lparr>tGraph = g, tProducer = (length (clSubmitted s), 0), tOperand = y\<rparr>,
    s\<lparr>clIds := snd (GetUniqueId (clIds s)),
      clSubmitted := clSubmitted s @ [\<lparr>sbGraph = g, sbOperator = opr, sbInputs = map tProducer inputs\<rparr>]\<rparr>)"
proof -
  have "\<not> list_ex (\<lambda>x. tGraph x \<noteq> g) inputs" using assms(4) by (auto simp: list_ex_iff)
  with assms(1-3) have "Constructor_AddOperators E g p inputs s = (Inr [\<lparr>tGraph = g, tProducer = (length (clSubmitted s), 0), tOperand = y\<rparr>],
    s\<lparr>clIds := snd (GetUniqueId (clIds s)),
      clSubmitted := clSubmitted s @ [\<lparr>sbGraph = g, sbOperator = opr, sbInputs = map tProducer inputs\<rparr>]\<rparr>)"
    by (simp add: Constructor_AddOperators_def Let_def CheckSupport_def output_tensors_def)
  then show ?thesis by (simp add: AddOperator_def AddOperators_def bindC_Inr returnC_def)
qed

text \<open>The client with the tensors it has been given; a call may mention any of them and any graph.\<close>

type_synonym ('g, 't) session = "('g, 't) api_client \<times> api_tensor list"

inductive client_step :: "'t client_env \<Rightarrow> ('g, 't) session \<Rightarrow> ('g, 't) session \<Rightarrow> bool" for E where
  returns: "api_function E ts gs m \<Longrightarrow> set ts \<subseteq> set held \<Longrightarrow> m s = (Inr new, s') \<Longrightarrow> client_step E (s, held) (s', held @ new)"
| throws: "api_function E ts gs m \<Longrightarrow> set ts \<subseteq> set held \<Longrightarrow> m s = (Inl e, s') \<Longrightarrow> client_step E (s, held) (s', held)"

definition client_start :: "(nat \<Rightarrow> graph_settings) \<Rightarrow> 64 word \<Rightarrow> ('g, 't) session" where
  "client_start graphs i = (\<lparr>clGraphs = graphs, clIds = i, clSubmitted = []\<rparr>, [])"

definition session_ok :: "int \<Rightarrow> ('g, 't) session \<Rightarrow> bool" where
  "session_ok gpus q \<longleftrightarrow> submitted_in_order gpus (fst q) \<and> (\<forall>t \<in> set (snd q). handle_ok (fst q) t)"

lemma session_step:
  assumes "client_step E (s, held) q" and "session_ok (envGpus E) (s, held)"
  shows "session_ok (envGpus E) q"
  using assms(1)
proof cases
  case (returns ts gs m new s')
  have "safe (envGpus E) (UNIV :: nat set) (set held) m set" by (rule safe_function [OF returns(2)]) (use returns in simp_all)
  from safeD [OF this, of s] assms(2) returns have "safe_step (envGpus E) UNIV s s' (set new)" by (simp add: session_ok_def)
  then show ?thesis using assms(2) returns(1) handle_ok_extend unfolding session_ok_def safe_step_def by fastforce
next
  case (throws ts gs m e s')
  have "safe (envGpus E) (UNIV :: nat set) (set held) m set" by (rule safe_function [OF throws(2)]) (use throws in simp_all)
  from safeD [OF this, of s] assms(2) throws have "safe_step (envGpus E) UNIV s s' {}" by (simp add: session_ok_def)
  then show ?thesis using assms(2) throws(1) handle_ok_extend unfolding session_ok_def safe_step_def by fastforce
qed

text \<open>C8: whatever a client calls, in any order and with any tensors it holds, of any graphs, calls that throw included:
  every operator submitted to a graph reads only outputs of operators submitted to the same graph before it, uses only
  GPUs of the cluster, and every tensor in the hands of the client is an output of a submitted operator of its graph.\<close>

theorem client_keeps_order:
  assumes "(client_step E)\<^sup>*\<^sup>* (client_start graphs i) (s, held)"
  shows "submitted_in_order (envGpus E) s \<and> (\<forall>t \<in> set held. handle_ok s t)"
proof -
  have "session_ok (envGpus E) (client_start graphs i :: ('a, 'b) session)"
    by (simp add: session_ok_def submitted_in_order_def client_start_def)
  with assms have "session_ok (envGpus E) (s, held)"
    by (induction rule: rtranclp_induct) (auto intro: session_step)
  then show ?thesis by (simp add: session_ok_def)
qed

text \<open>A client with two graphs on a machine without GPUs.\<close>

definition sample_env :: "(shape \<times> DataKind \<times> Device) client_env" where
  "sample_env = \<lparr>envGpus = 0, envMeta = triple_meta, envTable = registration_order, envGpuDevices = [], envEnum = (\<lambda>_. [])\<rparr>"

definition sample_graphs :: "nat \<Rightarrow> graph_settings" where
  "sample_graphs = (\<lambda>_. \<lparr>defaultDeviceMesh = default_mesh, defaultDataKind = kFloat32, perDevicePerProcess = Some False\<rparr>)"

definition sample_start :: "(unit, shape \<times> DataKind \<times> Device) api_client" where
  "sample_start = \<lparr>clGraphs = sample_graphs, clIds = 1, clSubmitted = []\<rparr>"

lemma sample_settings: "clGraphs sample_start g = \<lparr>defaultDeviceMesh = default_mesh, defaultDataKind = kFloat32, perDevicePerProcess = Some False\<rparr>"
  by (simp add: sample_start_def sample_graphs_def)

lemma sample_create:
  "\<exists>t s. api_Ones sample_env 0 [2, 3] None None None sample_start = (Inr t, s) \<and> tShape t = [2, 3] \<and> tGraph t = 0"
proof -
  have mesh: "DeviceMesh_of_Device (mk_Device kCpu 0) = Inr default_mesh" by code_simp
  have ps: "Create_placements default_mesh None = Inr [Replicate]" by code_simp
  have dist: "\<not> Mesh_IsDistributed default_mesh" "mDeviceKind default_mesh = kCpu" by code_simp+
  let ?p = "\<lparr>createKind = kOnes, create_shape = [2, 3], create_dataKind = kFloat32, create_mesh = default_mesh,
    create_placements = [Replicate], create_generator = None, doubleArg0 = Double 0, doubleArg1 = Double 0, doubleArg2 = Double 0,
    torchValue = None\<rparr> :: (unit, shape \<times> DataKind \<times> Device) CreateParam"
  have op: "\<exists>opr. NewOperatorOrThrow 0 triple_meta registration_order (Create_param ?p :: (double, unit, shape \<times> DataKind \<times> Device) OpParam)
      [] None 1 = Inr (opr, 2) \<and> oprOutputs opr = [Operand_of [2, 3] kFloat32 default_mesh [Replicate]] \<and>
      mMaxGpuId (oprAssignInfo opr) = - 1"
  proof -
    let ?y = "Operand_of [2, 3] kFloat32 default_mesh [Replicate]"
    have id: "SetOrAssignUniqueId None 1 = Inr (1, 2)" by (simp add: SetOrAssignUniqueId_def GetUniqueId_def fetch_add1_def kNoValue_def)
    have c: "ConstructOperator registration_order (Create_param ?p :: (double, unit, shape \<times> DataKind \<times> Device) OpParam) = Inr (Create_param ?p)"
      by (simp add: ConstructOperator_def registration_order_def)
    have infer: "InferOutput 0 (Create_class triple_meta ?p) [] [Operand_new] = Inr [?y]"
      using Create_InferOutput [of ?p 0 triple_meta Operand_new] by (simp add: local_kind_def)
    have "case InferOperatorAssignInfo [] [?y] AssignInfo_new of Inr info \<Rightarrow> mMaxGpuId info = - 1 | Inl _ \<Rightarrow> False" by code_simp
    then obtain info where info: "InferOperatorAssignInfo [] [?y] AssignInfo_new = Inr info" "mMaxGpuId info = - 1"
      by (auto split: sum.splits)
    show ?thesis
      by (simp only: NewOperatorOrThrow_def c id bindR_Inr prod.case Let_def OpParam_InferOutputSize.simps OpParam_class.simps
          Create_class_def [of triple_meta ?p, unfolded keep_class_def] op_class.simps)
        (use infer info in \<open>simp add: OpParam_Infer_def AddFailed_def Create_class_def keep_class_def\<close>)
  qed
  from op obtain opr where opr: "NewOperatorOrThrow 0 triple_meta registration_order
      (Create_param ?p :: (double, unit, shape \<times> DataKind \<times> Device) OpParam) [] None 1 = Inr (opr, 2)"
    "oprOutputs opr = [Operand_of [2, 3] kFloat32 default_mesh [Replicate]]" "mMaxGpuId (oprAssignInfo opr) = - 1" by blast
  have "\<exists>s. AddOperator sample_env (Create_param ?p) [] (Some 0) sample_start =
      (Inr \<lparr>tGraph = 0, tProducer = (0, 0), tOperand = Operand_of [2, 3] kFloat32 default_mesh [Replicate]\<rparr>, s)"
    using AddOperator_run [of sample_env "Create_param ?p" "[]" sample_start opr 2] opr by (simp add: sample_env_def sample_start_def)
  then obtain s where s: "AddOperator sample_env (Create_param ?p) [] (Some 0) sample_start =
      (Inr \<lparr>tGraph = 0, tProducer = (0, 0), tOperand = Operand_of [2, 3] kFloat32 default_mesh [Replicate]\<rparr>, s)" by blast
  have "api_Ones sample_env 0 [2, 3] None None None sample_start =
      (Inr \<lparr>tGraph = 0, tProducer = (0, 0), tOperand = Operand_of [2, 3] kFloat32 default_mesh [Replicate]\<rparr>, s)"
    using ps mesh dist s
    by (simp add: api_Ones_def CreateOpImpl_def bindC_def [of "settingsC _"] bindC_def [of "liftC _"] bindC_def [of "AddOperator _ _ _ _"]
        run_simps sample_settings Let_def needRedistributeKind_def no_args_def)
  then show ?thesis by (simp add: Operand_of_def)
qed

text \<open>A tensor of ones, then a softmax without an axis, which throws.\<close>

theorem client_keeps_order_witness:
  "\<exists>s t. (client_step sample_env)\<^sup>*\<^sup>* (client_start sample_graphs 1) (s :: (unit, shape \<times> DataKind \<times> Device) api_client, [t]) \<and>
    tShape t = [2, 3] \<and> submitted_in_order 0 s \<and> handle_ok s t"
proof -
  from sample_create obtain t s where run: "api_Ones sample_env 0 [2, 3] None None None sample_start = (Inr t, s)"
    "tShape t = [2, 3]" by blast
  have "with_one (api_Ones sample_env 0 [2, 3] None None None) sample_start = (Inr [t], s)"
    using run(1) by (simp add: with_one_def bindC_def run_simps)
  from client_step.returns [OF api_function.Ones _ this, of "[]"]
  have "client_step sample_env (sample_start, []) (s, [t])" by simp
  moreover have "with_one (api_Softmax sample_env t None) s = (Inl InvalidArgument, s)"
    by (simp add: with_one_def api_Softmax_def bindC_def run_simps)
  from client_step.throws [OF api_function.Softmax _ this, of "[t]"] have "client_step sample_env (s, [t]) (s, [t])" by simp
  ultimately have "(client_step sample_env)\<^sup>*\<^sup>* (sample_start, []) (s, [t])" by (meson rtranclp.simps)
  then have reach: "(client_step sample_env)\<^sup>*\<^sup>* (client_start sample_graphs 1) (s, [t])"
    by (simp add: client_start_def sample_start_def)
  from client_keeps_order [OF reach] reach run(2) show ?thesis by (auto simp: sample_env_def)
qed

section \<open>A redistribution submits its plan\<close>

text \<open>The operators of a plan, each reading the output of the one before.\<close>

fun plan_submitted ::
    "nat \<Rightarrow> nat \<Rightarrow> api_tensor \<Rightarrow> ConvertParam list \<Rightarrow> ('g, 't) submission list \<Rightarrow> api_tensor \<Rightarrow> bool" where
  "plan_submitted g n x [] new t \<longleftrightarrow> new = [] \<and> t = x"
| "plan_submitted g n x (c # cs) new t \<longleftrightarrow> (\<exists>b bs y. new = b # bs \<and> sbGraph b = g \<and> oprParam (sbOperator b) = Convert_param c \<and>
     sbInputs b = [tProducer x] \<and> oprInputs (sbOperator b) = [tOperand x] \<and> oprOutputs (sbOperator b) = [tOperand y] \<and>
     tProducer y = (n, 0) \<and> tGraph y = g \<and> tShape y = tShape x \<and> tensor_layout y = c \<and> plan_submitted g (Suc n) y cs bs t)"

lemma Convert_output:
  assumes "OpParam_Infer gpus [x] [Operand_new] (Convert_param c) (OpParam_class M (tm_shape M) [x] (Convert_param c)) = Inr (outs, info)"
  shows "\<exists>y. outs = [y] \<and> oShape y = oShape x \<and> oDataKind y = pDataKind c \<and> oDeviceMesh y = pDeviceMesh c \<and>
    oPlacementSeq y = pPlacementSeq c"
proof -
  from assms have "InferOutput gpus (Convert_class c) [x] [Operand_new] = Inr outs"
    by (auto simp: OpParam_Infer_def bindR_eq_Inr)
  then have "Convert_InferOutputMetaInfo c [x] [Operand_new] = Inr outs"
    by (auto simp: InferOutput_def Convert_class_def keep_class_def bindR_eq_Inr guardR_eq_Inr)
  then show ?thesis
    by (auto simp: Convert_InferOutputMetaInfo_def OperandAt_def UpdateOutput_def bindR_eq_Inr guardR_eq_Inr
      SetDeviceMeshAndPlacementSeq_def SetDataKind_def MetaDataSameAs_def)
qed

lemma AddConvert_run:
  fixes s s' :: "('g, 't) api_client"
  assumes "AddOperator E (Convert_param c) [x] None s = (Inr t, s')"
  shows "\<exists>b. clSubmitted s' = clSubmitted s @ [b] \<and> plan_submitted (tGraph x) (length (clSubmitted s)) x [c] [b] t"
proof -
  let ?n = "NewOperatorOrThrow (envGpus E) (envMeta E) (envTable E) (Convert_param c :: (double, 'g, 't) OpParam) [tOperand x] None (clIds s)"
  from assms obtain ts where run: "Constructor_AddOperators E (tGraph x) (Convert_param c) [x] s = (Inr ts, s')" "length ts = 1" "t = hd ts"
    by (auto simp: AddOperator_def AddOperators_def bindC_eq_Inr guardC_eq_Inr returnC_def)
  then obtain opr acc where n: "?n = Inr (opr, acc)" "ts = output_tensors (tGraph x) (length (clSubmitted s)) (oprOutputs opr)"
    "clSubmitted s' = clSubmitted s @ [\<lparr>sbGraph = tGraph x, sbOperator = opr, sbInputs = [tProducer x]\<rparr>]"
    by (cases ?n) (auto simp: Constructor_AddOperators_def Let_def split: sum.splits)
  note parts = NewOperator_parts [OF n(1)]
  from parts(3) have "OpParam_Infer (envGpus E) [tOperand x] [Operand_new] (Convert_param c :: (double, 'g, 't) OpParam)
      (OpParam_class (envMeta E) (tm_shape (envMeta E)) [tOperand x] (Convert_param c :: (double, 'g, 't) OpParam)) = Inr (oprOutputs opr, oprAssignInfo opr)"
    by (simp add: Convert_class_def keep_class_def)
  from Convert_output [OF this] obtain y where y: "oprOutputs opr = [y]" "oShape y = tShape x" "oDataKind y = pDataKind c"
    "oDeviceMesh y = pDeviceMesh c" "oPlacementSeq y = pPlacementSeq c" by blast
  have "t = \<lparr>tGraph = tGraph x, tProducer = (length (clSubmitted s), 0), tOperand = y\<rparr>"
    using run(3) n(2) y(1) by (simp add: output_tensors_def)
  with n(3) parts(1,2) y show ?thesis by (auto simp: tensor_layout_def)
qed

lemma AddConvert_plan:
  assumes "AddConvert E st c x s = (Inr y, s')" and "tShape x = mInputShape st"
  shows "\<exists>cs new. AddIntoGraphConstructor (envGpus E) st c ops = Inr (ops @ cs) \<and> clSubmitted s' = clSubmitted s @ new \<and>
    plan_submitted (tGraph x) (length (clSubmitted s)) x cs new y \<and> tShape y = mInputShape st \<and> tGraph y = tGraph x"
proof (cases "\<not> mConvertDataKind st \<and> \<not> mConvertDeviceMesh st \<and> \<not> mConvertPlacement st")
  case True
  then have "y = x" "s' = s" using assms(1) by (simp_all add: AddConvert_def returnC_def)
  then show ?thesis using True assms(2) by (intro exI [of _ "[]"]) (simp add: AddIntoGraphConstructor_def)
next
  case False
  with assms(1) have run: "CheckValid (tShape x) (pDeviceMesh c) (pPlacementSeq c) (envGpus E) = Inr True"
    "AddOperator E (Convert_param c) [x] None s = (Inr y, s')"
    by (auto simp: AddConvert_def bindC_eq_Inr guardC_eq_Inr liftC_def)
  from AddConvert_run [OF run(2)] obtain b where b: "clSubmitted s' = clSubmitted s @ [b]"
    "plan_submitted (tGraph x) (length (clSubmitted s)) x [c] [b] y" by blast
  moreover have "AddIntoGraphConstructor (envGpus E) st c ops = Inr (ops @ [c])"
    using False run(1) assms(2) by (simp add: AddIntoGraphConstructor_def)
  moreover have "tShape y = mInputShape st" "tGraph y = tGraph x" using b(2) assms(2) by auto
  ultimately show ?thesis by blast
qed

lemma plan_submitted_append:
  "plan_submitted g n x cs new t \<Longrightarrow> plan_submitted g (n + length new) t ds new' y \<Longrightarrow> plan_submitted g n x (cs @ ds) (new @ new') y"
proof (induction cs arbitrary: n x new)
  case Nil
  then show ?case by simp
next
  case (Cons d cs)
  from Cons.prems(1) obtain b1 bs y1 where head: "new = b1 # bs" "sbGraph b1 = g" "oprParam (sbOperator b1) = Convert_param d"
    "sbInputs b1 = [tProducer x]" "oprInputs (sbOperator b1) = [tOperand x]" "oprOutputs (sbOperator b1) = [tOperand y1]"
    "tProducer y1 = (n, 0)" "tGraph y1 = g" "tShape y1 = tShape x" "tensor_layout y1 = d" "plan_submitted g (Suc n) y1 cs bs t"
    by (simp only: plan_submitted.simps) (elim exE conjE, rule that; assumption)
  with Cons.IH [OF head(11)] Cons.prems(2) show ?case by auto
qed

text \<open>The loop over the axes, from any point of it.\<close>

lemma Convert_loop_plan:
  assumes "foldC (\<lambda>d (ps, x). let ps = ps[d := dest ! d] in
      bindC (AddConvert E st ((mSrc st)\<lparr>pPlacementSeq := ps\<rparr>) x) (\<lambda>x. returnC (ps, x))) order (ps, x) s = (Inr (ps', y), s')"
    and "tShape x = mInputShape st"
  shows "\<exists>cs new. foldR (\<lambda>d (ps, ops). let ps = ps[d := dest ! d] in
      bindR (AddIntoGraphConstructor (envGpus E) st ((mSrc st)\<lparr>pPlacementSeq := ps\<rparr>) ops) (\<lambda>ops. Inr (ps, ops))) order (ps, ops) =
        Inr (ps', ops @ cs) \<and> clSubmitted s' = clSubmitted s @ new \<and>
      plan_submitted (tGraph x) (length (clSubmitted s)) x cs new y \<and> tShape y = mInputShape st \<and> tGraph y = tGraph x"
  using assms
proof (induction order arbitrary: ps x s ops)
  case Nil
  then show ?case by (simp add: returnC_def)
next
  case (Cons d order)
  let ?ps = "ps[d := dest ! d]"
  from Cons.prems(1) obtain x1 s1 where step: "AddConvert E st ((mSrc st)\<lparr>pPlacementSeq := ?ps\<rparr>) x s = (Inr x1, s1)"
    and rest: "foldC (\<lambda>d (ps, x). let ps = ps[d := dest ! d] in
      bindC (AddConvert E st ((mSrc st)\<lparr>pPlacementSeq := ps\<rparr>) x) (\<lambda>x. returnC (ps, x))) order (?ps, x1) s1 = (Inr (ps', y), s')"
    by (auto simp: bindC_eq_Inr Let_def returnC_def)
  from AddConvert_plan [OF step Cons.prems(2), of ops] obtain cs new where one:
    "AddIntoGraphConstructor (envGpus E) st ((mSrc st)\<lparr>pPlacementSeq := ?ps\<rparr>) ops = Inr (ops @ cs)"
    "clSubmitted s1 = clSubmitted s @ new" "plan_submitted (tGraph x) (length (clSubmitted s)) x cs new x1"
    "tShape x1 = mInputShape st" "tGraph x1 = tGraph x" by blast
  from Cons.IH [OF rest one(4), of "ops @ cs"] obtain cs' new' where more:
    "foldR (\<lambda>d (ps, ops). let ps = ps[d := dest ! d] in
      bindR (AddIntoGraphConstructor (envGpus E) st ((mSrc st)\<lparr>pPlacementSeq := ps\<rparr>) ops) (\<lambda>ops. Inr (ps, ops))) order (?ps, ops @ cs) =
        Inr (ps', (ops @ cs) @ cs')" "clSubmitted s' = clSubmitted s1 @ new'"
    "plan_submitted (tGraph x1) (length (clSubmitted s1)) x1 cs' new' y" "tShape y = mInputShape st" "tGraph y = tGraph x1" by blast
  have "plan_submitted (tGraph x) (length (clSubmitted s)) x (cs @ cs') (new @ new') y"
    by (rule plan_submitted_append [OF one(3)]) (use more(3) one(2,5) in simp)
  with one more show ?case by (intro exI [of _ "cs @ cs'"] exI [of _ "new @ new'"]) (simp add: Let_def)
qed

lemma One_by_one_plan:
  assumes "Convert_one_by_one E st x s = (Inr (st', y), s')" and "tShape x = mInputShape st"
  shows "\<exists>cs new. ConvertPlacementsOneByOne (envGpus E) st = Inr (st', cs) \<and> clSubmitted s' = clSubmitted s @ new \<and>
    plan_submitted (tGraph x) (length (clSubmitted s)) x cs new y \<and> tShape y = mInputShape st' \<and> tGraph y = tGraph x \<and> mDest st' = mDest st"
proof (cases "\<not> mConvertPlacement st \<or> \<not> mInputIsDistributed st \<or> \<not> mOutputIsDistributed st")
  case True
  then have "ConvertPlacementsOneByOne (envGpus E) st = Inr (st, [])" by (simp add: ConvertPlacementsOneByOne_def)
  moreover have "st' = st" "y = x" "s' = s" using assms(1) True by (simp_all add: Convert_one_by_one_def returnC_def)
  ultimately show ?thesis using assms(2) by auto
next
  case False
  let ?src = "pPlacementSeq (mSrc st)" and ?dest = "pPlacementSeq (mDest st)"
  from assms(1) False obtain order ps where run: "length ?src = length ?dest" "GetConvertOrder ?src ?dest = Inr order"
    "foldC (\<lambda>d (ps, x). let ps = ps[d := ?dest ! d] in
      bindC (AddConvert E st ((mSrc st)\<lparr>pPlacementSeq := ps\<rparr>) x) (\<lambda>x. returnC (ps, x))) order (?src, x) s = (Inr (ps, y), s')"
    "st' = st\<lparr>mSrc := (mSrc st)\<lparr>pPlacementSeq := ?dest\<rparr>, mConvertPlacement := False\<rparr>"
    by (auto simp: Convert_one_by_one_def bindC_eq_Inr guardC_eq_Inr run_simps Let_def)
  from Convert_loop_plan [OF run(3) assms(2), of "[]"] obtain cs new where plan:
    "foldR (\<lambda>d (ps, ops). let ps = ps[d := ?dest ! d] in
      bindR (AddIntoGraphConstructor (envGpus E) st ((mSrc st)\<lparr>pPlacementSeq := ps\<rparr>) ops) (\<lambda>ops. Inr (ps, ops))) order (?src, []) =
        Inr (ps, cs)" "clSubmitted s' = clSubmitted s @ new"
    "plan_submitted (tGraph x) (length (clSubmitted s)) x cs new y" "tShape y = mInputShape st" "tGraph y = tGraph x" by auto
  have "ConvertPlacementsOneByOne (envGpus E) st = Inr (st', cs)"
    using False run(1,2,4) plan(1) by (simp add: ConvertPlacementsOneByOne_def Let_def)
  then show ?thesis using plan(2-5) run(4) by auto
qed

lemma Call_submits_plan:
  assumes "ConvertOpImpl_Call E x dataKind mesh placements s = (Inr t, s')"
  shows "\<exists>st ops new. ConvertOpImpl_new (tShape x) (tensor_layout x) dataKind mesh placements = Inr st \<and>
    ConvertOpImpl_RunFunc (envGpus E) st = Inr ops \<and> clSubmitted s' = clSubmitted s @ new \<and>
    plan_submitted (tGraph x) (length (clSubmitted s)) x ops new t"
proof -
  from assms obtain st where st: "ConvertOpImpl_new (tShape x) (tensor_layout x) dataKind mesh placements = Inr st"
    and run: "Convert_RunFunc E st x s = (Inr t, s')"
    by (auto simp: ConvertOpImpl_Call_def bindC_eq_Inr liftC_def)
  from st have shape: "mInputShape st = tShape x" by (auto simp: ConvertOpImpl_new_def Let_def bindR_eq_Inr)
  from run obtain ps st' y s1 where parts:
    "\<not> (mInputIsDistributed st \<and> mOutputIsDistributed st \<and> Mesh_NumAxis (pDeviceMesh (mSrc st)) \<noteq> Mesh_NumAxis (pDeviceMesh (mDest st)))"
    "ToReplicateWhenDimSizeEqualOne (pPlacementSeq (mDest st)) (pDeviceMesh (mDest st)) = Inr ps"
    "Convert_one_by_one E (st\<lparr>mDest := (mDest st)\<lparr>pPlacementSeq := ShardDimToPositiveNumber ps (tShape x)\<rparr>\<rparr>) x s = (Inr (st', y), s1)"
    "AddConvert E st' (mDest st') y s1 = (Inr t, s')"
    by (auto simp: Convert_RunFunc_def bindC_eq_Inr guardC_eq_Inr liftC_def Let_def)
  from One_by_one_plan [OF parts(3)] shape obtain cs new where one:
    "ConvertPlacementsOneByOne (envGpus E) (st\<lparr>mDest := (mDest st)\<lparr>pPlacementSeq := ShardDimToPositiveNumber ps (mInputShape st)\<rparr>\<rparr>) = Inr (st', cs)"
    "clSubmitted s1 = clSubmitted s @ new" "plan_submitted (tGraph x) (length (clSubmitted s)) x cs new y"
    "tShape y = mInputShape st'" "tGraph y = tGraph x" by auto
  from AddConvert_plan [OF parts(4) one(4), of cs] obtain cs' new' where two:
    "AddIntoGraphConstructor (envGpus E) st' (mDest st') cs = Inr (cs @ cs')" "clSubmitted s' = clSubmitted s1 @ new'"
    "plan_submitted (tGraph y) (length (clSubmitted s1)) y cs' new' t" by blast
  have "plan_submitted (tGraph x) (length (clSubmitted s)) x (cs @ cs') (new @ new') t"
    by (rule plan_submitted_append [OF one(3)]) (use two(3) one(2,5) in simp)
  moreover have "ConvertOpImpl_RunFunc (envGpus E) st = Inr (cs @ cs')"
    using parts(1,2) one(1) two(1) by (simp add: ConvertOpImpl_RunFunc_def Let_def)
  ultimately show ?thesis using st one(2) two(2) by auto
qed

text \<open>C20: a redistribution of the client does exactly what its plan says: a call that returns has submitted, for every step of
  the plan and in that order, one convert operator on the graph of the tensor, each reading the output of the one before,
  with the layouts of the plan, and returns the last output.\<close>

theorem Redistribute_submits_plan:
  assumes "ConvertOpImpl_Call E x dataKind mesh placements s = (Inr t, s')"
  shows "\<exists>st ops new. ConvertOpImpl_new (tShape x) (tensor_layout x) dataKind mesh placements = Inr st \<and>
    ConvertOpImpl_RunFunc (envGpus E) st = Inr ops \<and> clSubmitted s' = clSubmitted s @ new \<and>
    plan_submitted (tGraph x) (length (clSubmitted s)) x ops new t"
  by (rule Call_submits_plan [OF assms])

text \<open>A tensor of the CPU becomes one of integers: one step.\<close>

definition sample_cpu_tensor :: api_tensor where
  "sample_cpu_tensor = \<lparr>tGraph = 0, tProducer = (0, 0), tOperand = Operand_of [2, 3] kFloat32 default_mesh [Replicate]\<rparr>"

definition int_layout :: ConvertParam where
  "int_layout = \<lparr>pDataKind = kInt64, pDeviceMesh = default_mesh, pPlacementSeq = [Replicate]\<rparr>"

lemma sample_convert:
  "\<exists>opr. NewOperatorOrThrow 0 triple_meta registration_order (Convert_param int_layout :: (double, unit, shape \<times> DataKind \<times> Device) OpParam)
      [tOperand sample_cpu_tensor] None 1 = Inr (opr, 2) \<and> oprOutputs opr = [Operand_of [2, 3] kInt64 default_mesh [Replicate]] \<and>
      mMaxGpuId (oprAssignInfo opr) = - 1"
proof -
  let ?x = "tOperand sample_cpu_tensor"
  let ?y = "Operand_of [2, 3] kInt64 default_mesh [Replicate]"
  have id: "SetOrAssignUniqueId None 1 = Inr (1, 2)" by (simp add: SetOrAssignUniqueId_def GetUniqueId_def fetch_add1_def kNoValue_def)
  have c: "ConstructOperator registration_order (Convert_param int_layout :: (double, unit, shape \<times> DataKind \<times> Device) OpParam) =
      Inr (Convert_param int_layout)"
    by (simp add: ConstructOperator_def registration_order_def)
  have "case InferOutput 0 (Convert_class int_layout) [?x] [Operand_new] of
      Inr outs \<Rightarrow> map oShape outs = [[2, 3]] \<and> map oDataKind outs = [kInt64] | Inl _ \<Rightarrow> False" by code_simp
  then obtain outs where o: "InferOutput 0 (Convert_class int_layout) [?x] [Operand_new] = Inr outs" by (auto split: sum.splits)
  then have "Convert_InferOutputMetaInfo int_layout [?x] [Operand_new] = Inr outs"
    by (auto simp: InferOutput_def Convert_class_def keep_class_def bindR_eq_Inr guardR_eq_Inr)
  then have "outs = [?y]"
    by (auto simp: Convert_InferOutputMetaInfo_def OperandAt_def UpdateOutput_def bindR_eq_Inr guardR_eq_Inr sample_cpu_tensor_def
      SetDeviceMeshAndPlacementSeq_def SetDataKind_def MetaDataSameAs_def int_layout_def Operand_of_def Operand_new_def)
  with o have infer: "InferOutput 0 (Convert_class int_layout) [?x] [Operand_new] = Inr [?y]" by simp
  have "case InferOperatorAssignInfo [?x] [?y] AssignInfo_new of Inr info \<Rightarrow> mMaxGpuId info = - 1 | Inl _ \<Rightarrow> False" by code_simp
  then obtain info where info: "InferOperatorAssignInfo [?x] [?y] AssignInfo_new = Inr info" "mMaxGpuId info = - 1"
    by (auto split: sum.splits)
  show ?thesis
    by (simp only: NewOperatorOrThrow_def c id bindR_Inr prod.case Let_def OpParam_InferOutputSize.simps OpParam_class.simps
        Convert_class_def [of int_layout, unfolded keep_class_def] op_class.simps)
      (use infer info in \<open>simp add: OpParam_Infer_def AddFailed_def Convert_class_def keep_class_def\<close>)
qed

lemma AddOperator_None: "AddOperator E p (x # xs) None = AddOperator E p (x # xs) (Some (tGraph x))"
  by (simp add: AddOperator_def AddOperators_def)

theorem Redistribute_submits_plan_witness:
  "\<exists>t s ops. ConvertOpImpl_Call sample_env sample_cpu_tensor (Some kInt64) None None sample_start = (Inr t, s) \<and>
    plan_submitted 0 0 sample_cpu_tensor ops (clSubmitted s) t \<and> ops = [int_layout]"
proof -
  have new: "ConvertOpImpl_new (tShape sample_cpu_tensor) (tensor_layout sample_cpu_tensor) (Some kInt64) None None =
      Inr \<lparr>mInputShape = [2, 3], mSrc = tensor_layout sample_cpu_tensor, mDest = int_layout, mInputIsDistributed = False,
        mOutputIsDistributed = False, mConvertDataKind = True, mConvertDeviceMesh = False, mConvertPlacement = True\<rparr>"
    by code_simp
  have facts: "ToReplicateWhenDimSizeEqualOne (pPlacementSeq int_layout) (pDeviceMesh int_layout) = Inr [Replicate]"
    "ShardDimToPositiveNumber [Replicate] (tShape sample_cpu_tensor) = [Replicate]"
    "CheckValid (tShape sample_cpu_tensor) (pDeviceMesh int_layout) (pPlacementSeq int_layout) 0 = Inr True" by code_simp+
  from sample_convert obtain opr where opr: "NewOperatorOrThrow 0 triple_meta registration_order
      (Convert_param int_layout :: (double, unit, shape \<times> DataKind \<times> Device) OpParam) [tOperand sample_cpu_tensor] None 1 = Inr (opr, 2)"
    "oprOutputs opr = [Operand_of [2, 3] kInt64 default_mesh [Replicate]]" "mMaxGpuId (oprAssignInfo opr) = - 1" by blast
  have add: "\<exists>t s. AddOperator sample_env (Convert_param int_layout) [sample_cpu_tensor] None sample_start = (Inr t, s)"
    using AddOperator_run [of sample_env "Convert_param int_layout" "[sample_cpu_tensor]" sample_start opr 2 _ 0] opr
    by (simp add: sample_env_def sample_start_def sample_cpu_tensor_def AddOperator_None)
  have upd: "int_layout\<lparr>pPlacementSeq := [Replicate]\<rparr> = int_layout" by (simp add: int_layout_def)
  from add obtain t s where ts: "AddOperator sample_env (Convert_param int_layout) [sample_cpu_tensor] None sample_start = (Inr t, s)" by blast
  then have run: "ConvertOpImpl_Call sample_env sample_cpu_tensor (Some kInt64) None None sample_start = (Inr t, s)"
    using facts
    by (simp add: ConvertOpImpl_Call_def new Convert_RunFunc_def bindC_def [of "liftC _"] run_simps Let_def upd Convert_one_by_one_def
        AddConvert_def sample_env_def)
  have "bindR (ConvertOpImpl_new (tShape sample_cpu_tensor) (tensor_layout sample_cpu_tensor) (Some kInt64) None None)
      (ConvertOpImpl_RunFunc (envGpus sample_env)) = Inr [int_layout]" by code_simp
  with Redistribute_submits_plan [OF run] show ?thesis using run
    by (auto simp: sample_start_def sample_cpu_tensor_def)
qed

section \<open>What a creation gives\<close>

lemma AddOperator_parts:
  fixes p :: "(double, 'g, 't) OpParam"
  assumes "AddOperator E p inputs (Some g) s = (Inr t, s')"
  shows "\<exists>opr y n. OpParam_InferOutputSize (map tOperand inputs) p (OpParam_class (envMeta E) (tm_shape (envMeta E)) (map tOperand inputs) p) = Inr n \<and>
    OpParam_Infer (envGpus E) (map tOperand inputs) (replicate n Operand_new) p
      (OpParam_class (envMeta E) (tm_shape (envMeta E)) (map tOperand inputs) p) = Inr ([y], oprAssignInfo opr) \<and>
    oprParam opr = p \<and> tOperand t = y \<and> tGraph t = g \<and>
    clSubmitted s' = clSubmitted s @ [\<lparr>sbGraph = g, sbOperator = opr, sbInputs = map tProducer inputs\<rparr>]"
proof -
  let ?n = "NewOperatorOrThrow (envGpus E) (envMeta E) (envTable E) p (map tOperand inputs) None (clIds s)"
  from assms obtain ts where run: "Constructor_AddOperators E g p inputs s = (Inr ts, s')" "length ts = 1" "t = hd ts"
    by (auto simp: AddOperator_def AddOperators_def bindC_eq_Inr guardC_eq_Inr returnC_def)
  then obtain opr acc where n: "?n = Inr (opr, acc)" "ts = output_tensors g (length (clSubmitted s)) (oprOutputs opr)"
    "clSubmitted s' = clSubmitted s @ [\<lparr>sbGraph = g, sbOperator = opr, sbInputs = map tProducer inputs\<rparr>]"
    by (cases ?n) (auto simp: Constructor_AddOperators_def Let_def split: sum.splits if_splits)
  note parts = NewOperator_parts [OF n(1)]
  from n(2) run(2) obtain y where y: "oprOutputs opr = [y]" by (auto simp: output_tensors_def length_Suc_conv)
  have "t = \<lparr>tGraph = g, tProducer = (length (clSubmitted s), 0), tOperand = y\<rparr>"
    using run(3) n(2) y by (simp add: output_tensors_def)
  with parts(2,3) n(3) y show ?thesis by auto
qed

lemma Create_added:
  fixes p :: "('g, 't) CreateParam"
  assumes "AddOperator E (Create_param p) [] (Some g) s = (Inr t, s')"
  shows "tGraph t = g \<and> Create_shape (envMeta E) p = Inr (tShape t) \<and> tensor_layout t =
      \<lparr>pDataKind = create_dataKind p, pDeviceMesh = create_mesh p, pPlacementSeq = create_placements p\<rparr> \<and>
    (\<exists>b. clSubmitted s' = clSubmitted s @ [b] \<and> oprParam (sbOperator b) = Create_param p)"
proof -
  from AddOperator_parts [OF assms] obtain opr y n where parts:
    "OpParam_InferOutputSize [] (Create_param p :: (double, 'g, 't) OpParam) (Create_class (envMeta E) p) = Inr n"
    "OpParam_Infer (envGpus E) [] (replicate n Operand_new) (Create_param p :: (double, 'g, 't) OpParam) (Create_class (envMeta E) p) = Inr ([y], oprAssignInfo opr)"
    "oprParam opr = Create_param p" "tOperand t = y" "tGraph t = g"
    "clSubmitted s' = clSubmitted s @ [\<lparr>sbGraph = g, sbOperator = opr, sbInputs = []\<rparr>]" by auto
  from parts(2) have "InferOutput (envGpus E) (Create_class (envMeta E) p) [] (replicate n Operand_new) = Inr [y]"
    by (auto simp: OpParam_Infer_def bindR_eq_Inr)
  then have "Create_InferOutputMetaInfo (envMeta E) p [] (replicate n Operand_new) = Inr [y]"
    by (auto simp: InferOutput_def Create_class_def keep_class_def bindR_eq_Inr guardR_eq_Inr)
  moreover from parts(1) have "n = 1" by (simp add: Create_class_def keep_class_def)
  ultimately obtain x where "Create_shape (envMeta E) p = Inr x" "y = SetDeviceMeshAndPlacementSeq (create_mesh p) (create_placements p)
      (SetDataKind (create_dataKind p) (SetShapeAndStride x [] Operand_new))"
    by (auto simp: Create_InferOutputMetaInfo_def UpdateOutput_def bindR_eq_Inr guardR_eq_Inr)
  then show ?thesis using parts
    by (simp add: tensor_layout_def SetDeviceMeshAndPlacementSeq_def SetDataKind_def SetShapeAndStride_def)
qed

lemma Create_placements_stable:
  assumes "Create_placements m ps = Inr qs"
  shows "ToReplicateWhenDimSizeEqualOne qs m = Inr qs \<and> length qs = Mesh_NumAxis m"
proof -
  from assms obtain ps' where "ToReplicateWhenDimSizeEqualOne ps' m = Inr qs"
    by (auto simp: Create_placements_def Let_def guardR_eq_Inr)
  moreover from this have "length ps' = Mesh_NumAxis m" by (simp add: ToReplicateWhenDimSizeEqualOne_def guardR_eq_Inr)
  ultimately show ?thesis by (auto simp: ToReplicateWhenDimSizeEqualOne_eq intro!: nth_equalityI)
qed

text \<open>The placement that was asked for on an axis of the mesh: axes of one device and meshes of one device are replicated.\<close>

definition asked_placement :: "DeviceMesh \<Rightarrow> placement_seq option \<Rightarrow> nat \<Rightarrow> Placement" where
  "asked_placement m ps i = (case ps of None \<Rightarrow> Replicate
     | Some qs \<Rightarrow> if Mesh_IsDistributed m \<and> Mesh_Shape m ! i \<noteq> 1 then qs ! i else Replicate)"

text \<open>A negative shard axis counts from the end.\<close>

definition from_front :: "nat \<Rightarrow> Placement \<Rightarrow> Placement" where
  "from_front n p = (if IsShard p \<and> - int n \<le> mShardIndex p \<and> mShardIndex p < 0 then Shard (mShardIndex p + int n) (- 1) else p)"

lemma Create_placements_asked:
  assumes "Create_placements m ps = Inr qs"
  shows "qs = map (asked_placement m ps) [0..<Mesh_NumAxis m]"
    and "ShardDimToPositiveNumber qs shape = map (\<lambda>i. from_front (length shape) (asked_placement m ps i)) [0..<Mesh_NumAxis m]"
proof -
  show q: "qs = map (asked_placement m ps) [0..<Mesh_NumAxis m]"
    using assms by (cases ps; cases "Mesh_IsDistributed m")
      (auto simp: Create_placements_def Let_def guardR_eq_Inr ToReplicateWhenDimSizeEqualOne_eq asked_placement_def intro!: nth_equalityI)
  show "ShardDimToPositiveNumber qs shape = map (\<lambda>i. from_front (length shape) (asked_placement m ps i)) [0..<Mesh_NumAxis m]"
    by (auto simp: q ShardDimToPositiveNumber_def from_front_def)
qed

lemma local_mesh: "DeviceMesh_of_Device d = Inr m \<Longrightarrow> \<not> Mesh_IsDistributed m \<and> mDeviceKind m = deviceKind d"
  by (auto simp: DeviceMesh_of_Device_def DeviceMesh_of_vec_def SimpleArray_of_vec_def SimpleArray_new_def bindR_eq_Inr guardR_eq_Inr
      Mesh_IsDistributed_def Mesh_Count_def)

text \<open>From one device to several the plan has one step.\<close>

lemma Spread_added:
  assumes "api_Redistribute E x (Some m) (Some qs) s = (Inr t, s')" and "\<not> Mesh_IsDistributed (tMesh x)"
    and "tPlacements x \<noteq> []" and "ToReplicateWhenDimSizeEqualOne qs m = Inr qs"
  shows "tGraph t = tGraph x \<and> tShape t = tShape x \<and>
    tensor_layout t = \<lparr>pDataKind = oDataKind (tOperand x), pDeviceMesh = m, pPlacementSeq = ShardDimToPositiveNumber qs (tShape x)\<rparr> \<and>
    (\<exists>b c. clSubmitted s' = clSubmitted s @ [b] \<and> oprParam (sbOperator b) = Convert_param c)"
proof -
  from Call_submits_plan [OF assms(1) [unfolded api_Redistribute_def]] obtain st ops new where plan:
    "ConvertOpImpl_new (tShape x) (tensor_layout x) None (Some m) (Some qs) = Inr st"
    "ConvertOpImpl_RunFunc (envGpus E) st = Inr ops" "clSubmitted s' = clSubmitted s @ new"
    "plan_submitted (tGraph x) (length (clSubmitted s)) x ops new t" by blast
  from plan(1) assms(2,3) have st: "mInputShape st = tShape x" "mDest st =
      \<lparr>pDataKind = oDataKind (tOperand x), pDeviceMesh = m, pPlacementSeq = qs\<rparr>" "\<not> mInputIsDistributed st" "mConvertPlacement st"
    by (auto simp: ConvertOpImpl_new_def Let_def bindR_eq_Inr tensor_layout_def PlacementSeq_eq_def)
  let ?c = "(mDest st)\<lparr>pPlacementSeq := ShardDimToPositiveNumber qs (tShape x)\<rparr>"
  from plan(2) have "ops = [?c]"
    using st assms(4)
    by (auto simp: ConvertOpImpl_RunFunc_def guardR_eq_Inr ConvertPlacementsOneByOne_def AddIntoGraphConstructor_def bindR_eq_Inr Let_def)
  with plan(3,4) st show ?thesis by auto
qed

text \<open>C32: a creation gives what was asked for: the tensor is on the requested graph, with the requested or default data kind and
  mesh, on every axis of the mesh the placement that was asked for (replicated when none was asked for, the mesh has one device or
  the axis has one), and its shape; and no operator that makes values which differ between ranks is ever submitted for a
  distributed mesh.  Such a tensor is made on one device and spread, which also counts negative shard axes from the front.\<close>

theorem Create_layout:
  assumes "CreateOpImpl E kind g shape dtype mesh ps args s = (Inr t, s')"
  shows "\<exists>m new. m = (case mesh of Some m \<Rightarrow> m | None \<Rightarrow> defaultDeviceMesh (clGraphs s g)) \<and>
    tGraph t = g \<and> (kind \<noteq> kArange \<longrightarrow> tShape t = shape) \<and>
    tensor_layout t = \<lparr>pDataKind = (case dtype of Some k \<Rightarrow> k | None \<Rightarrow> defaultDataKind (clGraphs s g)), pDeviceMesh = m,
      pPlacementSeq = map (\<lambda>i. if Mesh_IsDistributed m \<and> kind \<in> {kArange, kRand, kRandInt, kRandn, kEye, kFromTorch}
        then from_front (length (tShape t)) (asked_placement m ps i) else asked_placement m ps i) [0..<Mesh_NumAxis m]\<rparr> \<and>
    clSubmitted s' = clSubmitted s @ new \<and>
    (\<forall>b \<in> set new. \<forall>p. oprParam (sbOperator b) = Create_param p \<longrightarrow>
      createKind p = kind \<and> (kind \<in> {kArange, kRand, kRandInt, kRandn, kEye, kFromTorch} \<longrightarrow>
        \<not> Mesh_IsDistributed (create_mesh p)))"
proof -
  let ?m = "case mesh of Some m \<Rightarrow> m | None \<Rightarrow> defaultDeviceMesh (clGraphs s g)"
  let ?k = "case dtype of Some k \<Rightarrow> k | None \<Rightarrow> defaultDataKind (clGraphs s g)"
  let ?need = "Mesh_IsDistributed ?m \<and> kind \<in> set needRedistributeKind"
  define P where "P qs lm = \<lparr>createKind = kind, create_shape = shape, create_dataKind = ?k,
    create_mesh = (if ?need then lm else ?m), create_placements = (if ?need then [Replicate] else qs),
    create_generator = caGenerator args, doubleArg0 = caDouble0 args, doubleArg1 = caDouble1 args, doubleArg2 = caDouble2 args,
    torchValue = caTorch args\<rparr>" for qs lm
  from assms obtain qs lm r s1 where run: "Create_placements ?m ps = Inr qs" "DeviceMesh_of_Device (mk_Device (mDeviceKind ?m) 0) = Inr lm"
    "AddOperator E (Create_param (P qs lm)) [] (Some g) s = (Inr r, s1)"
    "(if ?need then api_Redistribute E r (Some ?m) (Some qs) else returnC r) s1 = (Inr t, s')"
    by (auto simp: CreateOpImpl_def Let_def bindC_eq_Inr run_simps P_def)
  then obtain p where parts: "Create_placements ?m ps = Inr qs" "DeviceMesh_of_Device (mk_Device (mDeviceKind ?m) 0) = Inr lm"
    "createKind p = kind" "create_shape p = shape" "create_dataKind p = ?k" "create_mesh p = (if ?need then lm else ?m)"
    "create_placements p = (if ?need then [Replicate] else qs)" "AddOperator E (Create_param p) [] (Some g) s = (Inr r, s1)"
    "(if ?need then api_Redistribute E r (Some ?m) (Some qs) else returnC r) s1 = (Inr t, s')"
    using P_def by (intro that [of "P qs lm"]) simp_all
  from Create_added [OF parts(8)] obtain b where r: "tGraph r = g" "Create_shape (envMeta E) p = Inr (tShape r)"
    "tensor_layout r = \<lparr>pDataKind = ?k, pDeviceMesh = create_mesh p, pPlacementSeq = create_placements p\<rparr>"
    "clSubmitted s1 = clSubmitted s @ [b]" "oprParam (sbOperator b) = Create_param p" using parts(5) by auto
  have shape: "kind \<noteq> kArange \<longrightarrow> tShape r = shape"
    using r(2) parts(3,4) by (cases kind) (auto simp: Create_shape_def guardR_eq_Inr split: option.splits)
  show ?thesis
  proof (cases ?need)
    case True
    from r(3) True parts(6,7) local_mesh [OF parts(2)] have "\<not> Mesh_IsDistributed (tMesh r)" "tPlacements r \<noteq> []"
      by (auto simp: tensor_layout_def)
    have red: "api_Redistribute E r (Some ?m) (Some qs) s1 = (Inr t, s')" using parts(9) True by simp
    have stable: "ToReplicateWhenDimSizeEqualOne qs ?m = Inr qs" using Create_placements_stable [OF parts(1)] by blast
    have kind: "oDataKind (tOperand r) = ?k" using r(3) by (simp add: tensor_layout_def)
    from Spread_added [OF red \<open>\<not> Mesh_IsDistributed (tMesh r)\<close> \<open>tPlacements r \<noteq> []\<close> stable] r(1) kind obtain b' c where t:
      "tGraph t = g" "tShape t = tShape r" "tensor_layout t = \<lparr>pDataKind = ?k, pDeviceMesh = ?m,
         pPlacementSeq = ShardDimToPositiveNumber qs (tShape r)\<rparr>"
      "clSubmitted s' = clSubmitted s1 @ [b']" "oprParam (sbOperator b') = Convert_param c"
      by metis
    show ?thesis
      using parts(3,6) True t r(4,5) shape local_mesh [OF parts(2)] Create_placements_asked(2) [OF parts(1), of "tShape r"]
      by (intro exI [of _ ?m] exI [of _ "[b, b']"]) (auto simp: needRedistributeKind_def)
  next
    case False
    with parts(9) have "t = r" "s' = s1" by (auto simp: returnC_def split: if_splits)
    with parts(3,6,7) False r shape Create_placements_asked(1) [OF parts(1)] show ?thesis
      by (intro exI [of _ ?m] exI [of _ "[b]"]) (auto simp: needRedistributeKind_def)
  qed
qed

text \<open>A client on eight GPUs asks for random numbers that are spread over the grid of the last four.\<close>

definition grid_env :: "(shape \<times> DataKind \<times> Device) client_env" where
  "grid_env = sample_env\<lparr>envGpus := 8\<rparr>"

definition first_gpu :: DeviceMesh where
  "first_gpu = \<lparr>mDeviceKind = kGpu, mMesh = \<lparr>mShape = [1], mDimensionNamesMap = [], mData = [0], mDataSet = {0}\<rparr>\<rparr>"

definition rand_param :: "(unit, shape \<times> DataKind \<times> Device) CreateParam" where
  "rand_param = \<lparr>createKind = kRand, create_shape = [4, 6], create_dataKind = kFloat32, create_mesh = first_gpu,
     create_placements = [Replicate], create_generator = None, doubleArg0 = Double 0, doubleArg1 = Double 0, doubleArg2 = Double 0,
     torchValue = None\<rparr>"

definition spread_layout :: ConvertParam where
  "spread_layout = \<lparr>pDataKind = kFloat32, pDeviceMesh = gpu_grid, pPlacementSeq = [Shard 1 (- 1), Replicate]\<rparr>"

abbreviation rand_local :: operand where
  "rand_local \<equiv> Operand_of [4, 6] kFloat32 first_gpu [Replicate]"

abbreviation rand_spread :: operand where
  "rand_spread \<equiv> Operand_of [4, 6] kFloat32 gpu_grid [Shard 1 (- 1), Replicate]"

definition rand_tensor :: api_tensor where
  "rand_tensor = \<lparr>tGraph = 0, tProducer = (0, 0), tOperand = rand_local\<rparr>"

lemma rand_create:
  "\<exists>opr. NewOperatorOrThrow 8 triple_meta registration_order (Create_param rand_param :: (double, unit, shape \<times> DataKind \<times> Device) OpParam)
      [] None 1 = Inr (opr, 2) \<and> oprOutputs opr = [rand_local] \<and> mMaxGpuId (oprAssignInfo opr) = 0"
proof -
  have id: "SetOrAssignUniqueId None 1 = Inr (1, 2)" by (simp add: SetOrAssignUniqueId_def GetUniqueId_def fetch_add1_def kNoValue_def)
  have c: "ConstructOperator registration_order (Create_param rand_param :: (double, unit, shape \<times> DataKind \<times> Device) OpParam) =
      Inr (Create_param rand_param)"
    by (simp add: ConstructOperator_def registration_order_def)
  have infer: "InferOutput 8 (Create_class triple_meta rand_param) [] [Operand_new] = Inr [rand_local]"
    using Create_InferOutput [of rand_param 8 triple_meta Operand_new] by (simp add: local_kind_def rand_param_def)
  have "case InferOperatorAssignInfo [] [rand_local] AssignInfo_new of Inr info \<Rightarrow> mMaxGpuId info = 0 | Inl _ \<Rightarrow> False" by code_simp
  then obtain info where info: "InferOperatorAssignInfo [] [rand_local] AssignInfo_new = Inr info" "mMaxGpuId info = 0"
    by (auto split: sum.splits)
  show ?thesis
    by (simp only: NewOperatorOrThrow_def c id bindR_Inr prod.case Let_def OpParam_InferOutputSize.simps OpParam_class.simps
        Create_class_def [of triple_meta rand_param, unfolded keep_class_def] op_class.simps)
      (use infer info in \<open>simp add: OpParam_Infer_def AddFailed_def Create_class_def keep_class_def\<close>)
qed

lemma rand_convert:
  "\<exists>opr. NewOperatorOrThrow 8 triple_meta registration_order (Convert_param spread_layout :: (double, unit, shape \<times> DataKind \<times> Device) OpParam)
      [rand_local] None 2 = Inr (opr, 3) \<and> oprOutputs opr = [rand_spread] \<and> mMaxGpuId (oprAssignInfo opr) = 7"
proof -
  have id: "SetOrAssignUniqueId None 2 = Inr (2, 3)" by (simp add: SetOrAssignUniqueId_def GetUniqueId_def fetch_add1_def kNoValue_def)
  have c: "ConstructOperator registration_order (Convert_param spread_layout :: (double, unit, shape \<times> DataKind \<times> Device) OpParam) =
      Inr (Convert_param spread_layout)"
    by (simp add: ConstructOperator_def registration_order_def)
  have "case InferOutput 8 (Convert_class spread_layout) [rand_local] [Operand_new] of
      Inr outs \<Rightarrow> map oShape outs = [[4, 6]] | Inl _ \<Rightarrow> False" by code_simp
  then obtain outs where o: "InferOutput 8 (Convert_class spread_layout) [rand_local] [Operand_new] = Inr outs" by (auto split: sum.splits)
  then have "Convert_InferOutputMetaInfo spread_layout [rand_local] [Operand_new] = Inr outs"
    by (auto simp: InferOutput_def Convert_class_def keep_class_def bindR_eq_Inr guardR_eq_Inr)
  then have "outs = [rand_spread]"
    by (auto simp: Convert_InferOutputMetaInfo_def OperandAt_def UpdateOutput_def bindR_eq_Inr guardR_eq_Inr
      SetDeviceMeshAndPlacementSeq_def SetDataKind_def MetaDataSameAs_def spread_layout_def Operand_of_def Operand_new_def)
  with o have infer: "InferOutput 8 (Convert_class spread_layout) [rand_local] [Operand_new] = Inr [rand_spread]" by simp
  have "case InferOperatorAssignInfo [rand_local] [rand_spread] AssignInfo_new of Inr info \<Rightarrow> mMaxGpuId info = 7 | Inl _ \<Rightarrow> False" by code_simp
  then obtain info where info: "InferOperatorAssignInfo [rand_local] [rand_spread] AssignInfo_new = Inr info" "mMaxGpuId info = 7"
    by (auto split: sum.splits)
  show ?thesis
    by (simp only: NewOperatorOrThrow_def c id bindR_Inr prod.case Let_def OpParam_InferOutputSize.simps OpParam_class.simps
        Convert_class_def [of spread_layout, unfolded keep_class_def] op_class.simps)
      (use infer info in \<open>simp add: OpParam_Infer_def AddFailed_def Convert_class_def keep_class_def\<close>)
qed

lemma rand_runs:
  "\<exists>t s. api_Rand grid_env 0 [4, 6] None None (Some gpu_grid) (Some [Shard (- 1) (- 1), Replicate]) sample_start = (Inr t, s) \<and>
    tOperand t = rand_spread"
proof -
  from rand_create obtain opr where opr: "NewOperatorOrThrow 8 triple_meta registration_order
      (Create_param rand_param :: (double, unit, shape \<times> DataKind \<times> Device) OpParam) [] None 1 = Inr (opr, 2)"
    "oprOutputs opr = [rand_local]" "mMaxGpuId (oprAssignInfo opr) = 0" by blast
  have next1: "snd (GetUniqueId 1) = 2" by (simp add: GetUniqueId_def fetch_add1_def kNoValue_def)
  obtain s1 where s1: "AddOperator grid_env (Create_param rand_param) [] (Some 0) sample_start = (Inr rand_tensor, s1)" "clIds s1 = 2"
    using AddOperator_run [of grid_env "Create_param rand_param" "[]" sample_start opr 2 rand_local 0] opr next1
    by (simp add: grid_env_def sample_env_def sample_start_def rand_tensor_def)
  from rand_convert obtain opr2 where opr2: "NewOperatorOrThrow 8 triple_meta registration_order
      (Convert_param spread_layout :: (double, unit, shape \<times> DataKind \<times> Device) OpParam) [rand_local] None 2 = Inr (opr2, 3)"
    "oprOutputs opr2 = [rand_spread]" "mMaxGpuId (oprAssignInfo opr2) = 7" by blast
  have "\<exists>t s. AddOperator grid_env (Convert_param spread_layout) [rand_tensor] None s1 = (Inr t, s) \<and> tOperand t = rand_spread"
    using AddOperator_run [of grid_env "Convert_param spread_layout" "[rand_tensor]" s1 opr2 3 rand_spread 0] opr2 s1(2)
    by (simp add: grid_env_def sample_env_def AddOperator_None rand_tensor_def)
  then obtain t s2 where s2: "AddOperator grid_env (Convert_param spread_layout) [rand_tensor] None s1 = (Inr t, s2)" "tOperand t = rand_spread"
    by blast
  let ?d = "spread_layout\<lparr>pPlacementSeq := [Shard (- 1) (- 1), Replicate]\<rparr>"
  have new: "ConvertOpImpl_new (tShape rand_tensor) (tensor_layout rand_tensor) None (Some gpu_grid) (Some [Shard (- 1) (- 1), Replicate]) =
      Inr \<lparr>mInputShape = [4, 6], mSrc = tensor_layout rand_tensor, mDest = ?d, mInputIsDistributed = False,
        mOutputIsDistributed = True, mConvertDataKind = False, mConvertDeviceMesh = True, mConvertPlacement = True\<rparr>"
    by code_simp
  have facts: "ToReplicateWhenDimSizeEqualOne [Shard (- 1) (- 1), Replicate] gpu_grid = Inr [Shard (- 1) (- 1), Replicate]"
    "ShardDimToPositiveNumber [Shard (- 1) (- 1), Replicate] (tShape rand_tensor) = [Shard 1 (- 1), Replicate]"
    "CheckValid (tShape rand_tensor) (pDeviceMesh spread_layout) (pPlacementSeq spread_layout) 8 = Inr True" by code_simp+
  have sel: "pPlacementSeq ?d = [Shard (- 1) (- 1), Replicate]" "pDeviceMesh ?d = gpu_grid"
    "?d\<lparr>pPlacementSeq := [Shard 1 (- 1), Replicate]\<rparr> = spread_layout" by (simp_all add: spread_layout_def)
  have convert: "api_Redistribute grid_env rand_tensor (Some gpu_grid) (Some [Shard (- 1) (- 1), Replicate]) s1 = (Inr t, s2)"
    using facts s2(1)
    by (simp add: api_Redistribute_def ConvertOpImpl_Call_def new Convert_RunFunc_def bindC_def [of "liftC _"] run_simps Let_def sel
        Convert_one_by_one_def AddConvert_def) (simp add: grid_env_def sel)
  have mesh: "DeviceMesh_of_Device (mk_Device kGpu 0) = Inr first_gpu" by code_simp
  have ps: "Create_placements gpu_grid (Some [Shard (- 1) (- 1), Replicate]) = Inr [Shard (- 1) (- 1), Replicate]" by code_simp
  have dist: "Mesh_IsDistributed gpu_grid" by (simp add: Mesh_IsDistributed_def)
  have "api_Rand grid_env 0 [4, 6] None None (Some gpu_grid) (Some [Shard (- 1) (- 1), Replicate]) sample_start = (Inr t, s2)"
    using s1(1) convert
    by (simp add: api_Rand_def CreateOpImpl_def bindC_def [of "settingsC _"] bindC_def [of "liftC _"] bindC_def [of "AddOperator _ _ _ _"]
        run_simps sample_settings Let_def needRedistributeKind_def no_args_def ps mesh dist rand_param_def)
  with s2(2) show ?thesis by blast
qed

theorem Create_layout_witness:
  "\<exists>t s. api_Rand grid_env 0 [4, 6] None None (Some gpu_grid) (Some [Shard (- 1) (- 1), Replicate]) sample_start = (Inr t, s) \<and>
    tShape t = [4, 6] \<and> tMesh t = gpu_grid \<and> tPlacements t = [Shard 1 (- 1), Replicate]"
proof -
  from rand_runs obtain t s where run: "api_Rand grid_env 0 [4, 6] None None (Some gpu_grid) (Some [Shard (- 1) (- 1), Replicate])
      sample_start = (Inr t, s)" by blast
  have asked: "asked_placement gpu_grid (Some [Shard (- 1) (- 1), Replicate]) 0 = Shard (- 1) (- 1)"
    "asked_placement gpu_grid (Some [Shard (- 1) (- 1), Replicate]) (Suc 0) = Replicate"
    by (simp_all add: asked_placement_def Mesh_IsDistributed_def)
  have "tShape t = [4, 6] \<and> tensor_layout t = \<lparr>pDataKind = kFloat32, pDeviceMesh = gpu_grid, pPlacementSeq = [Shard 1 (- 1), Replicate]\<rparr>"
    using Create_layout [OF run [unfolded api_Rand_def]]
    by (auto simp: sample_settings Mesh_IsDistributed_def asked from_front_def upt_rec)
  with run show ?thesis by (auto simp: tensor_layout_def)
qed

end
