(* ===== verification/Runners.thy ===== *)
theory Runners
  imports Operators
begin

text \<open>
  The devices of the cluster and the runner of one node: NodeInfo and ClusterInfo
  (src/dtorch/core/distributed/cluster_info.h, .cc), RunnerSupportedDevices
  (src/dtorch/core/runner/runner_supported_devices.h, .cc) and NaiveRunner
  (src/dtorch/core/runner/naive_runner.h, .cc).  A \<open>DeviceKey\<close> is its device.  Operators and operands are
  named by their pointers, which are natural numbers; a blob is created empty and only its existence is
  modelled.  The kernels and streams themselves belong to libtorch: a launched kernel is an entry of the
  queue of its stream.
\<close>

section \<open>Supported devices\<close>

record DevicePair =
  globalDevice :: Device
  localDevice :: Device

record RunnerSupportedDevices =
  mSupportCpu :: bool
  mDevices :: "DevicePair list"
  mGlobalToLocalMap :: "Device \<rightharpoonup> nat"

definition RunnerSupportedDevices_new :: "DevicePair list \<Rightarrow> bool \<Rightarrow> RunnerSupportedDevices res" where
  "RunnerSupportedDevices_new devices supportCpu =
     bindR (foldR (\<lambda>i m.
         assertR (\<not> (deviceKind (globalDevice (devices ! i)) = kCpu \<or> deviceKind (localDevice (devices ! i)) = kCpu))
          (assertR (m (globalDevice (devices ! i)) = None) (Inr (m(globalDevice (devices ! i) \<mapsto> i)))))
       [0..<length devices] Map.empty) (\<lambda>m.
     assertR (card (dom m) = length devices)
      (Inr \<lparr>mSupportCpu = supportCpu, mDevices = devices, mGlobalToLocalMap = m\<rparr>))"

definition AllDeviceList :: "RunnerSupportedDevices \<Rightarrow> Device list" where
  "AllDeviceList r = map globalDevice (mDevices r)"

definition IsSupported :: "RunnerSupportedDevices \<Rightarrow> Device set \<Rightarrow> bool" where
  "IsSupported r deviceKeySet \<longleftrightarrow>
     (\<exists>device \<in> deviceKeySet. mGlobalToLocalMap r device \<noteq> None \<or> (mSupportCpu r \<and> deviceKind device = kCpu))"

definition GetSupported :: "RunnerSupportedDevices \<Rightarrow> KernelStreamKey set \<Rightarrow> KernelStreamKey set" where
  "GetSupported r streamKeySet =
     {streamKey \<in> streamKeySet. mGlobalToLocalMap r (key_device streamKey) \<noteq> None \<or>
        (mSupportCpu r \<and> deviceKind (key_device streamKey) = kCpu)}"

definition GlobalToLocal :: "RunnerSupportedDevices \<Rightarrow> Device \<Rightarrow> Device res" where
  "GlobalToLocal r device =
     (if deviceKind device = kCpu then assertR (mSupportCpu r) (Inr (mk_Device kCpu 0))
      else case mGlobalToLocalMap r device of
        None \<Rightarrow> Inl Abort
      | Some idx \<Rightarrow> assertR (length (mDevices r) > idx) (Inr (localDevice (mDevices r ! idx))))"

text \<open>The map of a constructed value sends every listed global device to its position.\<close>

definition all_gpu :: "DevicePair list \<Rightarrow> bool" where
  "all_gpu ds \<longleftrightarrow> list_all (\<lambda>p. deviceKind (globalDevice p) = kGpu \<and> deviceKind (localDevice p) = kGpu) ds"

lemma RunnerSupportedDevices_fold:
  assumes "k \<le> length devices" and "all_gpu devices" and "distinct (map globalDevice devices)"
  shows "foldR (\<lambda>i m.
         assertR (\<not> (deviceKind (globalDevice (devices ! i)) = kCpu \<or> deviceKind (localDevice (devices ! i)) = kCpu))
          (assertR (m (globalDevice (devices ! i)) = None) (Inr (m(globalDevice (devices ! i) \<mapsto> i)))))
       [0..<k] Map.empty =
     Inr (\<lambda>d. List.find (\<lambda>i. globalDevice (devices ! i) = d) [0..<k])"
  using assms(1)
proof (induction k)
  case 0
  then show ?case by simp
next
  case (Suc k)
  let ?m = "\<lambda>k d. List.find (\<lambda>i. globalDevice (devices ! i) = d) [0..<k]"
  have gpu: "deviceKind (globalDevice (devices ! k)) \<noteq> kCpu" "deviceKind (localDevice (devices ! k)) \<noteq> kCpu"
    using assms(2) Suc.prems by (auto simp: all_gpu_def list_all_length)
  have new: "?m k (globalDevice (devices ! k)) = None"
    using assms(3) Suc.prems by (auto simp: find_None_iff distinct_conv_nth)
  have find_snoc: "List.find P (xs @ [x]) = (case List.find P xs of None \<Rightarrow> if P x then Some x else None | Some y \<Rightarrow> Some y)"
    for P :: "nat \<Rightarrow> bool" and xs x by (induction xs) auto
  have upd: "(?m k)(globalDevice (devices ! k) \<mapsto> k) = ?m (Suc k)"
    using new by (intro ext) (auto simp: find_snoc split: option.splits)
  show ?case
    unfolding upt_Suc_append [OF le0] foldR_append Suc.IH [OF Suc_leD [OF Suc.prems]] bindR_Inr foldR.simps
    using gpu new upd by (simp add: fun_upd_def fun_eq_iff)
qed

lemma find_position:
  assumes "distinct (map f xs)" and "i < length xs"
  shows "List.find (\<lambda>j. f (xs ! j) = f (xs ! i)) [0..<length xs] = Some i"
proof -
  have "List.find (\<lambda>j. f (xs ! j) = f (xs ! i)) [0..<length xs] \<noteq> None" using assms(2) by (auto simp: find_None_iff)
  then obtain j where j: "List.find (\<lambda>j. f (xs ! j) = f (xs ! i)) [0..<length xs] = Some j" by blast
  then have "j < length xs" "f (xs ! j) = f (xs ! i)" by (auto simp: find_Some_iff)
  with assms have "j = i" by (simp add: distinct_conv_nth) (metis nth_map)
  with j show ?thesis by simp
qed

lemma RunnerSupportedDevices_new_eq:
  assumes "all_gpu devices" and "distinct (map globalDevice devices)"
  shows "RunnerSupportedDevices_new devices cpu = Inr \<lparr>mSupportCpu = cpu, mDevices = devices,
     mGlobalToLocalMap = (\<lambda>d. List.find (\<lambda>i. globalDevice (devices ! i) = d) [0..<length devices])\<rparr>"
proof -
  let ?m = "\<lambda>d. List.find (\<lambda>i. globalDevice (devices ! i) = d) [0..<length devices]"
  have "dom ?m = set (map globalDevice devices)"
    by (force simp: dom_def in_set_conv_nth find_None_iff not_None_eq [symmetric] simp del: not_None_eq)
  then have "card (dom ?m) = length devices" using assms(2) by (metis distinct_card length_map)
  with RunnerSupportedDevices_fold [OF order_refl assms] show ?thesis
    by (simp add: RunnerSupportedDevices_new_def)
qed

lemma GlobalToLocal_listed:
  assumes "all_gpu devices" and "distinct (map globalDevice devices)" and "RunnerSupportedDevices_new devices cpu = Inr r"
    and "p \<in> set devices"
  shows "GlobalToLocal r (globalDevice p) = Inr (localDevice p)"
proof -
  from assms(4) obtain i where i: "i < length devices" "devices ! i = p" by (auto simp: in_set_conv_nth)
  have "deviceKind (globalDevice p) = kGpu" using assms(1,4) by (auto simp: all_gpu_def list_all_iff)
  moreover have "mGlobalToLocalMap r (globalDevice p) = Some i" "mDevices r = devices"
    using find_position [OF assms(2) i(1)] i(2) assms(3) RunnerSupportedDevices_new_eq [OF assms(1,2), of cpu] by auto
  ultimately show ?thesis using i by (simp add: GlobalToLocal_def)
qed

section \<open>Cluster\<close>

record NodeInfo =
  nodeType :: NodeType
  node_rank :: int
  gpuCount :: int

record ClusterInfo =
  mMainNodeRpcAddress :: string
  mTotalGpuCount :: int
  mNodeInfoVec :: "NodeInfo list"
  mDTensorInSameDevice :: bool

definition GetMainNodeInfo :: "int \<Rightarrow> NodeInfo" where
  "GetMainNodeInfo cudaDeviceCount = \<lparr>nodeType = kMain, node_rank = 0, gpuCount = cudaDeviceCount\<rparr>"

definition GetWorkerNodeInfo :: "int \<Rightarrow> NodeInfo" where
  "GetWorkerNodeInfo n = \<lparr>nodeType = kWorker, node_rank = - 1, gpuCount = n\<rparr>"

definition Cluster_PushBack :: "NodeInfo \<Rightarrow> ClusterInfo \<Rightarrow> ClusterInfo res" where
  "Cluster_PushBack node c =
     assertR (gpuCount node \<ge> 0)
      (Inr (c\<lparr>mNodeInfoVec := mNodeInfoVec c @ [node], mTotalGpuCount := mTotalGpuCount c + gpuCount node\<rparr>))"

text \<open>The number of CUDA devices and the two global options are parameters.\<close>

definition ClusterInfo_new :: "int \<Rightarrow> bool \<Rightarrow> int \<Rightarrow> string \<Rightarrow> ClusterInfo res" where
  "ClusterInfo_new cudaDeviceCount sameDevice numGpu mainNodeRpcAddress =
     bindR (Cluster_PushBack (GetMainNodeInfo cudaDeviceCount)
       \<lparr>mMainNodeRpcAddress = mainNodeRpcAddress, mTotalGpuCount = 0, mNodeInfoVec = [], mDTensorInSameDevice = False\<rparr>) (\<lambda>c.
     if sameDevice then
       let c = c\<lparr>mDTensorInSameDevice := True\<rparr> in
       if mTotalGpuCount c > 0 then
         assertR (numGpu > 0)
          (Inr (c\<lparr>mNodeInfoVec := (mNodeInfoVec c)[0 := (mNodeInfoVec c ! 0)\<lparr>gpuCount := numGpu\<rparr>], mTotalGpuCount := numGpu\<rparr>))
       else Inr c
     else Inr c)"

definition NodePairs :: "bool \<Rightarrow> int \<Rightarrow> int \<Rightarrow> DevicePair list" where
  "NodePairs sameDevice counter n =
     map (\<lambda>gpuIdx. \<lparr>globalDevice = mk_Device kGpu (counter + gpuIdx),
       localDevice = (if sameDevice then mk_Device kGpu 0 else mk_Device kGpu gpuIdx)\<rparr>) [0..n - 1]"

definition GetRunnerSupportedDevicesForNode :: "ClusterInfo \<Rightarrow> RunnerSupportedDevices list res" where
  "GetRunnerSupportedDevicesForNode c =
     bindR (foldR (\<lambda>i (result, counter).
         let n = gpuCount (mNodeInfoVec c ! i) in
         bindR (RunnerSupportedDevices_new (NodePairs (mDTensorInSameDevice c) counter n) (i = 0)) (\<lambda>r.
           Inr (result @ [r], if 0 \<le> n then counter + n else counter)))
       [0..<length (mNodeInfoVec c)] ([], 0)) (\<lambda>(result, counter). Inr result)"

definition Cluster_GetGpuDevices :: "ClusterInfo \<Rightarrow> Device list" where
  "Cluster_GetGpuDevices c = map (\<lambda>i. mk_Device kGpu i) [0..mTotalGpuCount c - 1]"

definition Cluster_GetAllDevices :: "ClusterInfo \<Rightarrow> Device list" where
  "Cluster_GetAllDevices c = mk_Device kCpu 0 # Cluster_GetGpuDevices c"

definition Cluster_wf :: "ClusterInfo \<Rightarrow> bool" where
  "Cluster_wf c \<longleftrightarrow> mNodeInfoVec c \<noteq> [] \<and> (\<forall>n \<in> set (mNodeInfoVec c). 0 \<le> gpuCount n) \<and>
     mTotalGpuCount c = sum_list (map gpuCount (mNodeInfoVec c))"

lemma NodePairs_ok: "all_gpu (NodePairs b m n)" "distinct (map globalDevice (NodePairs b m n))"
  by (auto simp: all_gpu_def NodePairs_def list_all_iff mk_Device_def distinct_map inj_on_def comp_def)

lemma Cluster_PushBack_wf: "Cluster_wf c \<Longrightarrow> Cluster_PushBack node c = Inr c' \<Longrightarrow> Cluster_wf c'"
  by (auto simp: Cluster_wf_def Cluster_PushBack_def guardR_eq_Inr)

lemma ClusterInfo_new_wf: "ClusterInfo_new n b k a = Inr c \<Longrightarrow> Cluster_wf c"
  by (auto simp: ClusterInfo_new_def Cluster_PushBack_def GetMainNodeInfo_def Cluster_wf_def guardR_eq_Inr bindR_eq_Inr Let_def
      split: if_splits)

text \<open>The global number of the first GPU of a node.\<close>

definition gpu_offset :: "ClusterInfo \<Rightarrow> nat \<Rightarrow> int" where
  "gpu_offset c i = sum_list (map gpuCount (take i (mNodeInfoVec c)))"

definition node_devices :: "ClusterInfo \<Rightarrow> nat \<Rightarrow> RunnerSupportedDevices" where
  "node_devices c i = projr (RunnerSupportedDevices_new
     (NodePairs (mDTensorInSameDevice c) (gpu_offset c i) (gpuCount (mNodeInfoVec c ! i))) (i = 0))"

lemma node_devices_new:
  "RunnerSupportedDevices_new (NodePairs (mDTensorInSameDevice c) (gpu_offset c i) (gpuCount (mNodeInfoVec c ! i))) (i = 0)
    = Inr (node_devices c i)"
  unfolding node_devices_def RunnerSupportedDevices_new_eq [OF NodePairs_ok] by simp

lemma node_devices_sel:
  "mDevices (node_devices c i) = NodePairs (mDTensorInSameDevice c) (gpu_offset c i) (gpuCount (mNodeInfoVec c ! i))"
  "mSupportCpu (node_devices c i) \<longleftrightarrow> i = 0"
  unfolding node_devices_def RunnerSupportedDevices_new_eq [OF NodePairs_ok] by simp_all

lemma GetRunnerSupportedDevicesForNode_eq:
  assumes "Cluster_wf c"
  shows "GetRunnerSupportedDevicesForNode c = Inr (map (node_devices c) [0..<length (mNodeInfoVec c)])"
proof -
  let ?F = "\<lambda>i (result, counter).
         let n = gpuCount (mNodeInfoVec c ! i) in
         bindR (RunnerSupportedDevices_new (NodePairs (mDTensorInSameDevice c) counter n) (i = 0)) (\<lambda>r.
           Inr (result @ [r], if 0 \<le> n then counter + n else counter))"
  have "foldR ?F [0..<k] ([], 0) = Inr (map (node_devices c) [0..<k], gpu_offset c k)" if "k \<le> length (mNodeInfoVec c)" for k
    using that
  proof (induction k)
    case 0
    then show ?case by (simp add: gpu_offset_def)
  next
    case (Suc k)
    then have "0 \<le> gpuCount (mNodeInfoVec c ! k)" using assms by (auto simp: Cluster_wf_def)
    moreover have "gpu_offset c (Suc k) = gpu_offset c k + gpuCount (mNodeInfoVec c ! k)"
      using Suc.prems by (simp add: gpu_offset_def take_Suc_conv_app_nth)
    ultimately show ?case using Suc by (simp add: foldR_append node_devices_new Let_def)
  qed
  then show ?thesis by (simp add: GetRunnerSupportedDevicesForNode_def)
qed

lemma upto_shift: "map (\<lambda>i. a + i) [0..n - 1] = [a..a + n - 1]" for a n :: int
  by (rule nth_equalityI) auto

lemma AllDeviceList_node:
  "AllDeviceList (node_devices c i) = map (mk_Device kGpu) [gpu_offset c i..gpu_offset c i + gpuCount (mNodeInfoVec c ! i) - 1]"
  unfolding upto_shift [symmetric] by (simp add: AllDeviceList_def node_devices_sel NodePairs_def)

lemma upto_concat:
  assumes "\<forall>n \<in> set ns. (0::int) \<le> n"
  shows "k \<le> length ns \<Longrightarrow> concat (map (\<lambda>i. [sum_list (take i ns)..sum_list (take i ns) + ns ! i - 1]) [0..<k]) =
    [0..sum_list (take k ns) - 1]"
proof (induction k)
  case 0
  then show ?case by simp
next
  case (Suc k)
  then have k: "0 \<le> ns ! k" "sum_list (take (Suc k) ns) = sum_list (take k ns) + ns ! k"
    using assms by (auto simp: take_Suc_conv_app_nth)
  have "0 \<le> sum_list (take k ns)" using assms by (intro sum_list_nonneg) (auto dest: in_set_takeD)
  then have "[0..sum_list (take k ns) - 1] @ [sum_list (take k ns)..sum_list (take k ns) + ns ! k - 1] =
      [0..sum_list (take k ns) + ns ! k - 1]"
    using k(1) upto_split2 [of 0 "sum_list (take k ns) - 1" "sum_list (take k ns) + ns ! k - 1"]
    by (cases "sum_list (take k ns) = 0") auto
  with Suc k(2) show ?case by simp
qed

text \<open>C38: The GPUs of the cluster are numbered node after node: in a well-formed cluster every node gets its devices,
  their global numbers together are exactly the GPUs of the cluster, each once and in order, only the main node
  computes on the CPU, and a node finds the local device of every GPU it has.\<close>

theorem Cluster_devices_partition:
  assumes "Cluster_wf c"
  shows "\<exists>rs. GetRunnerSupportedDevicesForNode c = Inr rs \<and> length rs = length (mNodeInfoVec c) \<and>
    concat (map AllDeviceList rs) = Cluster_GetGpuDevices c \<and> distinct (Cluster_GetGpuDevices c) \<and>
    (\<forall>i < length rs. mSupportCpu (rs ! i) = (i = 0)) \<and>
    (\<forall>i < length rs. \<forall>j. 0 \<le> j \<and> j < gpuCount (mNodeInfoVec c ! i) \<longrightarrow>
      GlobalToLocal (rs ! i) (mk_Device kGpu (gpu_offset c i + j)) =
        Inr (mk_Device kGpu (if mDTensorInSameDevice c then 0 else j)))"
proof -
  let ?ns = "map gpuCount (mNodeInfoVec c)"
  let ?rs = "map (node_devices c) [0..<length (mNodeInfoVec c)]"
  have f: "map AllDeviceList ?rs = map (map (mk_Device kGpu))
      (map (\<lambda>i. [sum_list (take i ?ns)..sum_list (take i ?ns) + ?ns ! i - 1]) [0..<length ?ns])"
    by (auto simp: AllDeviceList_node gpu_offset_def take_map)
  then have all: "concat (map AllDeviceList ?rs) = map (mk_Device kGpu) [0..sum_list ?ns - 1]"
    unfolding f map_concat [symmetric] using assms upto_concat [of ?ns "length ?ns"] by (simp add: Cluster_wf_def)
  have "GlobalToLocal (node_devices c i) (mk_Device kGpu (gpu_offset c i + j)) =
        Inr (mk_Device kGpu (if mDTensorInSameDevice c then 0 else j))"
    if "0 \<le> j" "j < gpuCount (mNodeInfoVec c ! i)" for i j
  proof -
    let ?p = "\<lparr>globalDevice = mk_Device kGpu (gpu_offset c i + j),
      localDevice = (if mDTensorInSameDevice c then mk_Device kGpu 0 else mk_Device kGpu j)\<rparr>"
    have "?p \<in> set (NodePairs (mDTensorInSameDevice c) (gpu_offset c i) (gpuCount (mNodeInfoVec c ! i)))"
      using that by (auto simp: NodePairs_def)
    from GlobalToLocal_listed [OF NodePairs_ok node_devices_new this] show ?thesis by simp
  qed
  with all assms show ?thesis
    by (intro exI [of _ ?rs])
      (auto simp: GetRunnerSupportedDevicesForNode_eq Cluster_GetGpuDevices_def Cluster_wf_def node_devices_sel
        distinct_map inj_on_def mk_Device_def)
qed

theorem Cluster_devices_partition_witness:
  "\<exists>c rs. ClusterInfo_new 2 False 0 ''10.0.0.1:80'' = Inr c \<and> (\<exists>c'. Cluster_PushBack (GetWorkerNodeInfo 3) c = Inr c' \<and>
    GetRunnerSupportedDevicesForNode c' = Inr rs \<and> concat (map AllDeviceList rs) = map (mk_Device kGpu) [0, 1, 2, 3, 4])"
proof -
  obtain c where c: "ClusterInfo_new 2 False 0 ''10.0.0.1:80'' = Inr c" "mTotalGpuCount c = 2"
    by (simp add: ClusterInfo_new_def Cluster_PushBack_def GetMainNodeInfo_def)
  then obtain c' where c': "Cluster_PushBack (GetWorkerNodeInfo 3) c = Inr c'" "mTotalGpuCount c' = 5"
    by (simp add: Cluster_PushBack_def GetWorkerNodeInfo_def)
  from Cluster_devices_partition [OF Cluster_PushBack_wf [OF ClusterInfo_new_wf [OF c(1)] c'(1)]]
  obtain rs where "GetRunnerSupportedDevicesForNode c' = Inr rs" "concat (map AllDeviceList rs) = Cluster_GetGpuDevices c'"
    by blast
  with c c' show ?thesis by (auto simp: Cluster_GetGpuDevices_def upto_rec1 upto.simps)
qed

section \<open>NaiveRunner\<close>

text \<open>What the runner reads of an operator, and its state: the blobs of every operand by device, and the queue of
  every stream it has created.\<close>

record runner_op =
  roPtr :: nat
  roInputs :: "nat list"
  roOutputs :: "(nat \<times> int set) list"
  roStreamKeys :: "KernelStreamKey set"
  roMaxGpuId :: int

record naive_runner =
  mSupportedDevices :: RunnerSupportedDevices
  mOperandToBlobs :: "nat \<rightharpoonup> int set"
  mLaunched :: "KernelStreamKey \<Rightarrow> nat list"

definition NewBlobs :: "nat \<times> int set \<Rightarrow> (nat \<rightharpoonup> int set) \<Rightarrow> (nat \<rightharpoonup> int set) res" where
  "NewBlobs out blobs = assertR (\<not> blobs (fst out) \<noteq> None) (Inr (blobs(fst out \<mapsto> snd out)))"

definition CreateKernelForOperator :: "runner_op \<Rightarrow> naive_runner \<Rightarrow> (naive_runner \<times> KernelStreamKey set) res" where
  "CreateKernelForOperator rop r =
     assertR (card (roStreamKeys rop) > 0)
      (assertR (\<forall>i \<in> set (roInputs rop). mOperandToBlobs r i \<noteq> None)
       (bindR (foldR NewBlobs (roOutputs rop) (mOperandToBlobs r)) (\<lambda>blobs.
         Inr (r\<lparr>mOperandToBlobs := blobs\<rparr>, GetSupported (mSupportedDevices r) (roStreamKeys rop)))))"

definition Runner_DeleteOperand :: "nat \<Rightarrow> naive_runner \<Rightarrow> naive_runner res" where
  "Runner_DeleteOperand x r =
     assertR (mOperandToBlobs r x \<noteq> None) (Inr (r\<lparr>mOperandToBlobs := (mOperandToBlobs r)(x := None)\<rparr>))"

definition LaunchKernels :: "(runner_op \<times> KernelStreamKey set) list \<Rightarrow> naive_runner \<Rightarrow> naive_runner" where
  "LaunchKernels kernels r =
     r\<lparr>mLaunched := fold (\<lambda>(rop, ks) l k. if k \<in> ks then l k @ [roPtr rop] else l k) kernels (mLaunched r)\<rparr>"

definition Runner_Execute :: "runner_op list \<Rightarrow> nat list \<Rightarrow> naive_runner \<Rightarrow> naive_runner res" where
  "Runner_Execute ops noHoldOperands r =
     assertR (length ops + length noHoldOperands > 0)
      (bindR (foldR (\<lambda>rop (r, kernels). bindR (CreateKernelForOperator rop r) (\<lambda>(r, ks). Inr (r, kernels @ [(rop, ks)])))
         ops (r, [])) (\<lambda>(r, kernels).
       bindR (foldR Runner_DeleteOperand noHoldOperands r) (\<lambda>r.
         Inr (LaunchKernels kernels r))))"

end
