(* ===== verification/GraphExecution.thy ===== *)
theory GraphExecution
  imports Runners
begin

text \<open>
  The eager graph: LogicalGraph, GraphTraversalSequence, EGEMessageQueue, EagerGraphExecutor and
  GraphConstructor (src/dtorch/core/graph/).  The API thread owns the constructor and appends messages to
  the queue; the asynchronous thread takes messages in batches, builds the graph and hands the new
  operators and the released operands to the runner of the node.  Processing a message touches
  nothing of the API thread but the queue, so a batch is one step, taken when its last message is dequeued.
\<close>

section \<open>LogicalGraph and GraphTraversalSequence\<close>

record logical_graph =
  lgName :: string
  lgOperators :: "nat \<rightharpoonup> runner_op"
  lgOperands :: "nat \<rightharpoonup> string"

definition Graph_AddOperator :: "runner_op \<Rightarrow> logical_graph \<Rightarrow> logical_graph res" where
  "Graph_AddOperator rop g =
     assertR (lgOperators g (roPtr rop) = None) (Inr (g\<lparr>lgOperators := (lgOperators g)(roPtr rop \<mapsto> rop)\<rparr>))"

definition Graph_AddOperand :: "nat \<times> int set \<Rightarrow> logical_graph \<Rightarrow> logical_graph res" where
  "Graph_AddOperand out g =
     assertR (lgOperands g (fst out) = None) (Inr (g\<lparr>lgOperands := (lgOperands g)(fst out \<mapsto> '''')\<rparr>))"

definition Graph_DeleteOperator :: "nat \<Rightarrow> logical_graph \<Rightarrow> logical_graph res" where
  "Graph_DeleteOperator p g =
     assertR (lgOperators g p \<noteq> None) (Inr (g\<lparr>lgOperators := (lgOperators g)(p := None)\<rparr>))"

definition Graph_DeleteOperand :: "nat \<Rightarrow> logical_graph \<Rightarrow> logical_graph res" where
  "Graph_DeleteOperand x g =
     assertR (lgOperands g x \<noteq> None) (Inr (g\<lparr>lgOperands := (lgOperands g)(x := None)\<rparr>))"

definition Graph_GetOperator :: "nat \<Rightarrow> logical_graph \<Rightarrow> runner_op res" where
  "Graph_GetOperator p g = (case lgOperators g p of None \<Rightarrow> Inl Abort | Some rop \<Rightarrow> Inr rop)"

text \<open>
  An iterator of the list is the element it points to, \<open>None\<close> is the end; the map from operators to
  iterators is the set of its keys.
\<close>

record traversal =
  mTraversalSeq :: "nat list"
  mNodeMap :: "nat set"

definition Traversal_begin :: "traversal \<Rightarrow> nat option" where
  "Traversal_begin t = (case mTraversalSeq t of [] \<Rightarrow> None | x # xs \<Rightarrow> Some x)"

fun insert_after :: "nat \<Rightarrow> nat \<Rightarrow> nat list \<Rightarrow> nat list" where
  "insert_after p x [] = []"
| "insert_after p x (y # ys) = (if y = p then y # x # ys else y # insert_after p x ys)"

definition InsertAfter :: "nat option \<Rightarrow> nat \<Rightarrow> traversal \<Rightarrow> (traversal \<times> nat option) res" where
  "InsertAfter pos p t =
     assertR (p \<notin> mNodeMap t)
      (let seq = (case pos of None \<Rightarrow> mTraversalSeq t @ [p] | Some q \<Rightarrow> insert_after q p (mTraversalSeq t)) in
       Inr (t\<lparr>mTraversalSeq := seq, mNodeMap := insert p (mNodeMap t)\<rparr>, Some p))"

definition Traversal_Erase :: "nat \<Rightarrow> traversal \<Rightarrow> traversal" where
  "Traversal_Erase p t = t\<lparr>mTraversalSeq := remove1 p (mTraversalSeq t), mNodeMap := mNodeMap t - {p}\<rparr>"

definition FromVec :: "nat list \<Rightarrow> traversal res" where
  "FromVec sequences =
     (let t = \<lparr>mTraversalSeq = [], mNodeMap = {}\<rparr> in
      bindR (foldR (\<lambda>p (t, lastIter). InsertAfter lastIter p t) sequences (t, Traversal_begin t)) (\<lambda>(t, lastIter). Inr t))"

lemma insert_after_last: "p \<notin> set xs \<Longrightarrow> insert_after p x (xs @ [p]) = xs @ [p, x]"
  by (induction xs) auto

text \<open>The sequence keeps the order of the vector, and a repeated operator aborts.\<close>

lemma FromVec_eq: "FromVec ps = (if distinct ps then Inr \<lparr>mTraversalSeq = ps, mNodeMap = set ps\<rparr> else Inl Abort)"
proof -
  have run: "foldR (\<lambda>p (t, lastIter). InsertAfter lastIter p t) ps
        (\<lparr>mTraversalSeq = qs, mNodeMap = set qs\<rparr>, if qs = [] then None else Some (last qs)) =
      (if distinct (qs @ ps) then Inr (\<lparr>mTraversalSeq = qs @ ps, mNodeMap = set (qs @ ps)\<rparr>,
         if qs @ ps = [] then None else Some (last (qs @ ps))) else Inl Abort)" if "distinct qs" for qs
    using that
  proof (induction ps arbitrary: qs)
    case Nil
    then show ?case by simp
  next
    case (Cons p ps)
    have "insert_after (last qs) p qs = qs @ [p]" if "qs \<noteq> []"
      using insert_after_last [of "last qs" "butlast qs" p] that Cons.prems
      by (metis append_butlast_last_id distinct_butlast not_distinct_conv_prefix append_assoc append_Cons append_Nil)
    with Cons.IH [of "qs @ [p]"] Cons.prems show ?case
      by (auto simp: InsertAfter_def guardR_def insert_commute)
  qed
  show ?thesis using run [of "[]"] by (auto simp: FromVec_def Traversal_begin_def)
qed

section \<open>Messages and the executor\<close>

datatype EGEMessage =
    AddOperatorEEMsg runner_op
  | ApiTensorNoHoldEEMsg nat
  | SetOperandNameEEMsg nat string
  | SetGraphNameEEMsg string

text \<open>The queue holds pointers to messages; \<open>Destroy\<close> enqueues a null pointer.\<close>

record executor =
  exGetDestroySignal :: bool
  exQueueDestroySignal :: bool
  mMessageQueue :: "EGEMessage option list"
  mNewAddOperatorSequence :: "nat list"
  mNewAddNoHoldOperand :: "nat list"
  mLogicalGraph :: logical_graph
  mNodeRunner :: naive_runner

definition Executor_AddOperator :: "runner_op \<Rightarrow> executor \<Rightarrow> executor res" where
  "Executor_AddOperator rop ex =
     bindR (foldR Graph_AddOperand (roOutputs rop) (mLogicalGraph ex)) (\<lambda>g.
     bindR (Graph_AddOperator rop g) (\<lambda>g.
       Inr (ex\<lparr>mNewAddOperatorSequence := mNewAddOperatorSequence ex @ [roPtr rop], mLogicalGraph := g\<rparr>)))"

definition AddApiTensorNoHoldOperand :: "nat \<Rightarrow> executor \<Rightarrow> executor" where
  "AddApiTensorNoHoldOperand x ex = ex\<lparr>mNewAddNoHoldOperand := mNewAddNoHoldOperand ex @ [x]\<rparr>"

definition Executor_SetGraphName :: "string \<Rightarrow> executor \<Rightarrow> executor" where
  "Executor_SetGraphName name ex = ex\<lparr>mLogicalGraph := (mLogicalGraph ex)\<lparr>lgName := name\<rparr>\<rparr>"

definition Executor_SetOperandName :: "nat \<Rightarrow> string \<Rightarrow> executor \<Rightarrow> executor res" where
  "Executor_SetOperandName x name ex =
     assertR (lgOperands (mLogicalGraph ex) x \<noteq> None)
      (Inr (ex\<lparr>mLogicalGraph := (mLogicalGraph ex)\<lparr>lgOperands := (lgOperands (mLogicalGraph ex))(x \<mapsto> name)\<rparr>\<rparr>))"

definition ProcessEGEMessage :: "EGEMessage \<Rightarrow> executor \<Rightarrow> executor res" where
  "ProcessEGEMessage m ex =
     (case m of
        AddOperatorEEMsg rop \<Rightarrow> Executor_AddOperator rop ex
      | ApiTensorNoHoldEEMsg x \<Rightarrow> Inr (AddApiTensorNoHoldOperand x ex)
      | SetOperandNameEEMsg x name \<Rightarrow> Executor_SetOperandName x name ex
      | SetGraphNameEEMsg name \<Rightarrow> Inr (Executor_SetGraphName name ex))"

text \<open>
  Processing up to \<open>requireSize\<close> messages.  With nothing processed yet and an empty queue the thread
  blocks, which is \<open>Inr None\<close>; \<open>first\<close> says that nothing has been processed.
\<close>

fun ProcessMessages :: "nat \<Rightarrow> bool \<Rightarrow> executor \<Rightarrow> executor option res" where
  "ProcessMessages 0 first ex = Inr (Some ex)"
| "ProcessMessages (Suc n) first ex =
     (case mMessageQueue ex of
        [] \<Rightarrow> if first then Inr None else Inr (Some ex)
      | m # q \<Rightarrow>
          let ex = ex\<lparr>mMessageQueue := q\<rparr> in
          if exQueueDestroySignal ex then Inr (Some ex)
          else case m of
            None \<Rightarrow> Inl Abort
          | Some m \<Rightarrow> bindR (ProcessEGEMessage m ex) (ProcessMessages n False))"

definition ExecuteOperatorsAndNoHoldOperands :: "nat list \<Rightarrow> nat list \<Rightarrow> executor \<Rightarrow> executor res" where
  "ExecuteOperatorsAndNoHoldOperands traversalSeq noHoldOperands ex =
     (if length traversalSeq + length noHoldOperands = 0 then Inr ex
      else bindR (foldR (\<lambda>p (g, ops). bindR (Graph_GetOperator p g) (\<lambda>rop. bindR (Graph_DeleteOperator p g) (\<lambda>g. Inr (g, ops @ [rop]))))
             traversalSeq (mLogicalGraph ex, [])) (\<lambda>(g, ops).
           bindR (Runner_Execute ops noHoldOperands (mNodeRunner ex)) (\<lambda>r.
           bindR (foldR Graph_DeleteOperand noHoldOperands g) (\<lambda>g.
             Inr (ex\<lparr>mLogicalGraph := g, mNodeRunner := r\<rparr>)))))"

text \<open>One round of the loop of the asynchronous thread; \<open>None\<close> while it blocks, and the flag says that it ends.\<close>

definition AsyncMain_round :: "executor \<Rightarrow> (executor \<times> bool) option res" where
  "AsyncMain_round ex =
     bindR (ProcessMessages 100 True ex) (\<lambda>r. case r of
       None \<Rightarrow> Inr None
     | Some ex \<Rightarrow>
         if exGetDestroySignal ex then Inr (Some (ex, True))
         else
           bindR (FromVec (mNewAddOperatorSequence ex)) (\<lambda>t.
           let ex = ex\<lparr>mNewAddOperatorSequence := []\<rparr> in
           bindR (ExecuteOperatorsAndNoHoldOperands (mTraversalSeq t) (mNewAddNoHoldOperand ex) ex) (\<lambda>ex.
             Inr (Some (ex\<lparr>mNewAddNoHoldOperand := []\<rparr>, False)))))"

definition PushMessage :: "EGEMessage \<Rightarrow> executor \<Rightarrow> executor" where
  "PushMessage m ex = ex\<lparr>mMessageQueue := mMessageQueue ex @ [Some m]\<rparr>"

definition Executor_Destroy :: "executor \<Rightarrow> executor res" where
  "Executor_Destroy ex =
     assertR (\<not> exGetDestroySignal ex)
      (let ex = ex\<lparr>exGetDestroySignal := True\<rparr> in
       assertR (\<not> exQueueDestroySignal ex)
        (Inr (ex\<lparr>exQueueDestroySignal := True, mMessageQueue := mMessageQueue ex @ [None]\<rparr>)))"

definition CheckSupportOrThrow :: "int \<Rightarrow> runner_op \<Rightarrow> unit res" where
  "CheckSupportOrThrow totalGpuCount rop = requireR (\<not> roMaxGpuId rop \<ge> totalGpuCount) (Inr ())"

section \<open>GraphConstructor\<close>

record operand_cache =
  ocName :: string
  apiTensorRefCount :: int

record graph_constructor =
  mOperandCaches :: "nat \<rightharpoonup> operand_cache"
  gcGraphName :: string

text \<open>The methods change the constructor and the queue of the executor it owns.\<close>

type_synonym graph_state = "graph_constructor \<times> executor"

definition CountOperand :: "nat \<Rightarrow> graph_constructor \<Rightarrow> bool" where
  "CountOperand x gc \<longleftrightarrow> mOperandCaches gc x \<noteq> None"

definition InitOperandCache :: "nat \<times> int set \<Rightarrow> graph_constructor \<Rightarrow> graph_constructor res" where
  "InitOperandCache out gc =
     assertR (mOperandCaches gc (fst out) = None)
      (Inr (gc\<lparr>mOperandCaches := (mOperandCaches gc)(fst out \<mapsto> \<lparr>ocName = '''', apiTensorRefCount = 0\<rparr>)\<rparr>))"

definition SendOperatorToExecutor :: "runner_op \<Rightarrow> graph_state \<Rightarrow> graph_state res" where
  "SendOperatorToExecutor rop = (\<lambda>(gc, ex).
     bindR (foldR InitOperandCache (roOutputs rop) gc) (\<lambda>gc. Inr (gc, PushMessage (AddOperatorEEMsg rop) ex)))"

definition ApiTensorRefCountIncrease :: "nat \<Rightarrow> graph_state \<Rightarrow> graph_state res" where
  "ApiTensorRefCountIncrease x = (\<lambda>(gc, ex).
     case mOperandCaches gc x of
       None \<Rightarrow> Inl Abort
     | Some c \<Rightarrow> Inr (gc\<lparr>mOperandCaches := (mOperandCaches gc)(x \<mapsto> c\<lparr>apiTensorRefCount := apiTensorRefCount c + 1\<rparr>)\<rparr>, ex))"

definition ApiTensorRefCountDecrease :: "nat \<Rightarrow> graph_state \<Rightarrow> graph_state res" where
  "ApiTensorRefCountDecrease x = (\<lambda>(gc, ex).
     case mOperandCaches gc x of
       None \<Rightarrow> Inl Abort
     | Some c \<Rightarrow> assertR (apiTensorRefCount c \<ge> 1)
         (if apiTensorRefCount c = 1 then
            Inr (gc\<lparr>mOperandCaches := (mOperandCaches gc)(x := None)\<rparr>, PushMessage (ApiTensorNoHoldEEMsg x) ex)
          else
            Inr (gc\<lparr>mOperandCaches := (mOperandCaches gc)(x \<mapsto> c\<lparr>apiTensorRefCount := apiTensorRefCount c - 1\<rparr>)\<rparr>, ex)))"

definition Constructor_SetGraphName :: "string \<Rightarrow> graph_state \<Rightarrow> graph_state" where
  "Constructor_SetGraphName name = (\<lambda>(gc, ex). (gc\<lparr>gcGraphName := name\<rparr>, PushMessage (SetGraphNameEEMsg name) ex))"

definition Constructor_SetOperandName :: "nat \<Rightarrow> string \<Rightarrow> graph_state \<Rightarrow> graph_state res" where
  "Constructor_SetOperandName x name = (\<lambda>(gc, ex).
     case mOperandCaches gc x of
       None \<Rightarrow> Inl Abort
     | Some c \<Rightarrow> Inr (gc\<lparr>mOperandCaches := (mOperandCaches gc)(x \<mapsto> c\<lparr>ocName := name\<rparr>)\<rparr>,
         PushMessage (SetOperandNameEEMsg x name) ex))"

definition GetOperandName :: "nat \<Rightarrow> graph_constructor \<Rightarrow> string res" where
  "GetOperandName x gc = (case mOperandCaches gc x of None \<Rightarrow> Inl Abort | Some c \<Rightarrow> Inr (ocName c))"

text \<open>Adding an operator: support check, message, and one API tensor for every output.\<close>

definition Constructor_AddOperator :: "int \<Rightarrow> runner_op \<Rightarrow> graph_state \<Rightarrow> graph_state res" where
  "Constructor_AddOperator totalGpuCount rop st =
     bindR (CheckSupportOrThrow totalGpuCount rop) (\<lambda>_.
     bindR (SendOperatorToExecutor rop st) (\<lambda>st.
       foldR (\<lambda>out st. assertR (CountOperand (fst out) (fst st)) (ApiTensorRefCountIncrease (fst out) st)) (roOutputs rop) st))"

section \<open>The messages in the queue\<close>

fun queue_ops :: "EGEMessage list \<Rightarrow> runner_op list" where
  "queue_ops [] = []"
| "queue_ops (AddOperatorEEMsg rop # q) = rop # queue_ops q"
| "queue_ops (m # q) = queue_ops q"

fun queue_noholds :: "EGEMessage list \<Rightarrow> nat list" where
  "queue_noholds [] = []"
| "queue_noholds (ApiTensorNoHoldEEMsg x # q) = x # queue_noholds q"
| "queue_noholds (m # q) = queue_noholds q"

definition outs :: "runner_op \<Rightarrow> nat set" where
  "outs rop = fst ` set (roOutputs rop)"

definition queue_outs :: "EGEMessage list \<Rightarrow> nat set" where
  "queue_outs q = \<Union> (outs ` set (queue_ops q))"

text \<open>
  A queue that can be processed: \<open>A\<close> are the operands of the graph, \<open>H\<close> those released but not yet deleted.
\<close>

fun queue_ok :: "nat set \<Rightarrow> nat set \<Rightarrow> EGEMessage list \<Rightarrow> bool" where
  "queue_ok A H [] \<longleftrightarrow> True"
| "queue_ok A H (AddOperatorEEMsg rop # q) \<longleftrightarrow> distinct (map fst (roOutputs rop)) \<and> outs rop \<inter> A = {} \<and>
     set (roInputs rop) \<subseteq> A - H \<and> 0 < card (roStreamKeys rop) \<and> queue_ok (A \<union> outs rop) H q"
| "queue_ok A H (ApiTensorNoHoldEEMsg x # q) \<longleftrightarrow> x \<in> A - H \<and> queue_ok A (insert x H) q"
| "queue_ok A H (SetOperandNameEEMsg x n # q) \<longleftrightarrow> x \<in> A - H \<and> queue_ok A H q"
| "queue_ok A H (SetGraphNameEEMsg n # q) \<longleftrightarrow> queue_ok A H q"

lemma queue_append [simp]:
  "queue_ops (q @ q') = queue_ops q @ queue_ops q'" "queue_noholds (q @ q') = queue_noholds q @ queue_noholds q'"
  by (induction q rule: queue_ops.induct) auto

lemma queue_outs_simps [simp]:
  "queue_outs [] = {}" "queue_outs (AddOperatorEEMsg rop # q) = outs rop \<union> queue_outs q"
  "queue_outs (ApiTensorNoHoldEEMsg x # q) = queue_outs q" "queue_outs (SetOperandNameEEMsg x n # q) = queue_outs q"
  "queue_outs (SetGraphNameEEMsg n # q) = queue_outs q" "queue_outs (q @ q') = queue_outs q \<union> queue_outs q'"
  by (auto simp: queue_outs_def)

lemma queue_ok_append:
  "queue_ok A H (q @ q') \<longleftrightarrow> queue_ok A H q \<and> queue_ok (A \<union> queue_outs q) (H \<union> set (queue_noholds q)) q'"
  by (induction A H q rule: queue_ok.induct) (auto simp: Un_assoc)

lemma queue_ok_released: "queue_ok A H q \<Longrightarrow> H \<subseteq> A \<Longrightarrow> R \<subseteq> H \<Longrightarrow> queue_ok (A - R) (H - R) q"
proof (induction A H q rule: queue_ok.induct)
  case (2 A H rop q)
  then have "A \<union> outs rop - R = A - R \<union> outs rop" "queue_ok (A \<union> outs rop - R) (H - R) q" by auto
  with 2 show ?case by auto
next
  case (3 A H x q)
  then have "insert x H - R = insert x (H - R)" "queue_ok (A - R) (insert x H - R) q" by auto
  with 3 show ?case by auto
qed auto

lemma queue_ok_noholds:
  assumes "queue_ok A H q" and "H \<subseteq> A"
  shows "distinct (queue_noholds q)" and "set (queue_noholds q) \<subseteq> A \<union> queue_outs q - H"
  using assms by (induction A H q rule: queue_ok.induct) auto

section \<open>Processing a batch\<close>

definition op_map :: "runner_op list \<Rightarrow> nat \<rightharpoonup> runner_op" where
  "op_map ops = map_of (map (\<lambda>rop. (roPtr rop, rop)) ops)"

lemma op_map_simps [simp]: "op_map [] = Map.empty" "op_map (rop # ops) = (op_map ops)(roPtr rop \<mapsto> rop)"
  by (simp_all add: op_map_def)

lemma op_map_None: "op_map ops p = None \<longleftrightarrow> p \<notin> roPtr ` set ops"
  by (auto simp: op_map_def map_of_eq_None_iff image_image)

lemma op_map_snoc: "roPtr rop \<notin> roPtr ` set ops \<Longrightarrow> op_map (ops @ [rop]) = (op_map ops)(roPtr rop \<mapsto> rop)"
  by (induction ops) (auto simp: fun_upd_twist)

text \<open>Folds that add or remove keys one after the other; \<open>R\<close> is what they leave alone.\<close>

lemma foldR_insert:
  assumes step: "\<And>x s. k x \<notin> D s \<Longrightarrow> \<exists>s'. f x s = Inr s' \<and> D s' = insert (k x) (D s) \<and> R s' = R s"
    and "distinct (map k xs)" and "k ` set xs \<inter> D s = {}"
  shows "\<exists>s'. foldR f xs s = Inr s' \<and> D s' = D s \<union> k ` set xs \<and> R s' = R s"
  using assms(2-)
proof (induction xs arbitrary: s)
  case (Cons x xs)
  then obtain s' where s': "f x s = Inr s'" "D s' = insert (k x) (D s)" "R s' = R s" using step [of x s] by auto
  have "k x \<notin> k ` set xs" using Cons.prems(1) by (simp add: image_image)
  then have "k ` set xs \<inter> D s' = {}" using Cons.prems(2) s'(2) by (simp add: Int_insert_right)
  with Cons.IH [of s'] Cons.prems(1) s' show ?case by auto
qed simp

lemma foldR_remove:
  assumes step: "\<And>x s. x \<in> D s \<Longrightarrow> \<exists>s'. f x s = Inr s' \<and> D s' = D s - {x} \<and> R s' = R s"
    and "distinct xs" and "set xs \<subseteq> D s"
  shows "\<exists>s'. foldR f xs s = Inr s' \<and> D s' = D s - set xs \<and> R s' = R s"
  using assms(2-)
proof (induction xs arbitrary: s)
  case (Cons x xs)
  then obtain s' where s': "f x s = Inr s'" "D s' = D s - {x}" "R s' = R s" using step [of x s] by auto
  moreover have "D s - {x} - set xs = D s - set (x # xs)" by auto
  ultimately show ?case using Cons.prems Cons.IH [of s'] by auto
qed simp

lemma AddOperands_run:
  assumes "distinct (map fst os)" and "fst ` set os \<inter> dom (lgOperands g) = {}"
  shows "\<exists>g'. foldR Graph_AddOperand os g = Inr g' \<and> dom (lgOperands g') = dom (lgOperands g) \<union> fst ` set os \<and>
    lgOperators g' = lgOperators g"
  using assms by (intro foldR_insert) (auto simp: Graph_AddOperand_def guardR_def domIff)

text \<open>The executor in the middle of a batch, having taken over the operators \<open>ops\<close> and the releases \<open>rel\<close>.\<close>

definition in_batch :: "executor \<Rightarrow> runner_op list \<Rightarrow> nat list \<Rightarrow> bool" where
  "in_batch ex ops rel \<longleftrightarrow> \<not> exQueueDestroySignal ex \<and> \<not> exGetDestroySignal ex \<and> lgOperators (mLogicalGraph ex) = op_map ops \<and>
     mNewAddOperatorSequence ex = map roPtr ops \<and> distinct (map roPtr ops) \<and> mNewAddNoHoldOperand ex = rel"

lemma ProcessEGEMessage_run:
  assumes "in_batch ex ops rel" and "queue_ok (dom (lgOperands (mLogicalGraph ex))) (set rel) [m]"
    and "distinct (map roPtr (ops @ queue_ops [m]))"
  shows "\<exists>ex'. ProcessEGEMessage m ex = Inr ex' \<and> in_batch ex' (ops @ queue_ops [m]) (rel @ queue_noholds [m]) \<and>
    dom (lgOperands (mLogicalGraph ex')) = dom (lgOperands (mLogicalGraph ex)) \<union> queue_outs [m] \<and>
    mMessageQueue ex' = mMessageQueue ex \<and> mNodeRunner ex' = mNodeRunner ex"
proof (cases m)
  case (AddOperatorEEMsg rop)
  with assms(2) obtain g where g: "foldR Graph_AddOperand (roOutputs rop) (mLogicalGraph ex) = Inr g"
    "dom (lgOperands g) = dom (lgOperands (mLogicalGraph ex)) \<union> fst ` set (roOutputs rop)"
    "lgOperators g = lgOperators (mLogicalGraph ex)"
    using AddOperands_run [of "roOutputs rop" "mLogicalGraph ex"] by (auto simp: outs_def)
  have "lgOperators g (roPtr rop) = None"
    using assms(1,3) g(3) AddOperatorEEMsg by (auto simp: in_batch_def op_map_None)
  then show ?thesis
    using assms(1,3) g AddOperatorEEMsg
    by (auto simp: ProcessEGEMessage_def Executor_AddOperator_def Graph_AddOperator_def in_batch_def op_map_snoc outs_def)
next
  case (ApiTensorNoHoldEEMsg x)
  with assms(1) show ?thesis by (simp add: ProcessEGEMessage_def AddApiTensorNoHoldOperand_def in_batch_def)
next
  case (SetOperandNameEEMsg x n)
  with assms(1,2) show ?thesis
    by (auto simp: ProcessEGEMessage_def Executor_SetOperandName_def in_batch_def guardR_def)
next
  case (SetGraphNameEEMsg n)
  with assms(1) show ?thesis by (simp add: ProcessEGEMessage_def Executor_SetGraphName_def in_batch_def)
qed

lemma in_batch_queue [simp]: "in_batch (ex\<lparr>mMessageQueue := q\<rparr>) ops rel \<longleftrightarrow> in_batch ex ops rel"
  by (simp add: in_batch_def)

lemma ProcessMessages_run:
  assumes "in_batch ex ops rel" and "mMessageQueue ex = map Some q" and "first \<longrightarrow> q \<noteq> []"
    and "queue_ok (dom (lgOperands (mLogicalGraph ex))) (set rel) q" and "distinct (map roPtr (ops @ queue_ops q))"
  shows "\<exists>ex'. ProcessMessages n first ex = Inr (Some ex') \<and>
    in_batch ex' (ops @ queue_ops (take n q)) (rel @ queue_noholds (take n q)) \<and>
    dom (lgOperands (mLogicalGraph ex')) = dom (lgOperands (mLogicalGraph ex)) \<union> queue_outs (take n q) \<and>
    mMessageQueue ex' = map Some (drop n q) \<and> mNodeRunner ex' = mNodeRunner ex"
  using assms
proof (induction n arbitrary: first ex ops rel q)
  case 0
  then show ?case by simp
next
  case (Suc n)
  show ?case
  proof (cases q)
    case Nil
    with Suc.prems show ?thesis by auto
  next
    case (Cons m q')
    let ?ex = "ex\<lparr>mMessageQueue := map Some q'\<rparr>"
    have ok: "queue_ok (dom (lgOperands (mLogicalGraph ex))) (set rel) ([m] @ q')" using Suc.prems(4) Cons by simp
    have ops: "queue_ops ([m] @ q') = queue_ops [m] @ queue_ops q'" by (rule queue_append)
    from Suc.prems Cons ok ops have "\<exists>ex'. ProcessEGEMessage m ?ex = Inr ex' \<and>
        in_batch ex' (ops @ queue_ops [m]) (rel @ queue_noholds [m]) \<and>
        dom (lgOperands (mLogicalGraph ex')) = dom (lgOperands (mLogicalGraph ?ex)) \<union> queue_outs [m] \<and>
        mMessageQueue ex' = mMessageQueue ?ex \<and> mNodeRunner ex' = mNodeRunner ?ex"
      unfolding queue_ok_append by (intro ProcessEGEMessage_run) auto
    then obtain ex1 where ex1: "ProcessEGEMessage m ?ex = Inr ex1"
      "in_batch ex1 (ops @ queue_ops [m]) (rel @ queue_noholds [m])"
      "dom (lgOperands (mLogicalGraph ex1)) = dom (lgOperands (mLogicalGraph ex)) \<union> queue_outs [m]"
      "mMessageQueue ex1 = map Some q'" "mNodeRunner ex1 = mNodeRunner ex" by auto
    have "\<exists>ex'. ProcessMessages n False ex1 = Inr (Some ex') \<and>
        in_batch ex' ((ops @ queue_ops [m]) @ queue_ops (take n q')) ((rel @ queue_noholds [m]) @ queue_noholds (take n q')) \<and>
        dom (lgOperands (mLogicalGraph ex')) = dom (lgOperands (mLogicalGraph ex1)) \<union> queue_outs (take n q') \<and>
        mMessageQueue ex' = map Some (drop n q') \<and> mNodeRunner ex' = mNodeRunner ex1"
      using ok ops Suc.prems(5) Cons unfolding queue_ok_append
      by (intro Suc.IH ex1) (auto simp: ex1(3))
    moreover have "take (Suc n) q = [m] @ take n q'" using Cons by simp
    moreover have "ProcessMessages (Suc n) first ex = ProcessMessages n False ex1"
      using Suc.prems(1,2) Cons ex1(1) by (simp add: in_batch_def)
    ultimately show ?thesis using Cons ex1(3,5) by (auto simp: Un_assoc simp del: take_Suc_Cons append_Cons)
  qed
qed


section \<open>Executing a batch\<close>

fun ops_ok :: "nat set \<Rightarrow> runner_op list \<Rightarrow> bool" where
  "ops_ok B [] \<longleftrightarrow> True"
| "ops_ok B (rop # ops) \<longleftrightarrow> distinct (map fst (roOutputs rop)) \<and> outs rop \<inter> B = {} \<and> set (roInputs rop) \<subseteq> B \<and>
     0 < card (roStreamKeys rop) \<and> ops_ok (B \<union> outs rop) ops"

lemma queue_ok_ops: "queue_ok A H q \<Longrightarrow> ops_ok A (queue_ops q)"
  by (induction A H q rule: queue_ok.induct) auto

lemma queue_ok_outs: "queue_ok A H q \<Longrightarrow> queue_outs q \<inter> A = {}"
  by (induction A H q rule: queue_ok.induct) auto

lemma take_operators:
  assumes "lgOperators g = op_map ops" and "distinct (map roPtr ops)"
  shows "foldR (\<lambda>p (g, ops). bindR (Graph_GetOperator p g) (\<lambda>rop. bindR (Graph_DeleteOperator p g) (\<lambda>g. Inr (g, ops @ [rop]))))
      (map roPtr ops) (g, acc) = Inr (g\<lparr>lgOperators := Map.empty\<rparr>, acc @ ops)"
  using assms
proof (induction ops arbitrary: g acc)
  case Nil
  then show ?case by (cases g) simp
next
  case (Cons rop ops)
  let ?g = "g\<lparr>lgOperators := op_map ops\<rparr>"
  have "op_map ops (roPtr rop) = None" using Cons.prems(2) by (simp add: op_map_None)
  then have "(lgOperators g)(roPtr rop := None) = op_map ops" using Cons.prems(1) by (auto simp: fun_eq_iff)
  then have "Graph_DeleteOperator (roPtr rop) g = Inr ?g" "Graph_GetOperator (roPtr rop) g = Inr rop"
    using Cons.prems(1) by (simp_all add: Graph_GetOperator_def Graph_DeleteOperator_def)
  with Cons.IH [of ?g "acc @ [rop]"] Cons.prems(2) show ?case by simp
qed

lemma NewBlobs_run:
  assumes "distinct (map fst os)" and "fst ` set os \<inter> dom blobs = {}"
  shows "\<exists>blobs'. foldR NewBlobs os blobs = Inr blobs' \<and> dom blobs' = dom blobs \<union> fst ` set os"
  using foldR_insert [of fst dom NewBlobs "\<lambda>_. ()" os blobs] assms
  by (auto simp: NewBlobs_def guardR_def domIff)

definition op_kernels :: "RunnerSupportedDevices \<Rightarrow> runner_op \<Rightarrow> runner_op \<times> KernelStreamKey set" where
  "op_kernels sd rop = (rop, GetSupported sd (roStreamKeys rop))"

lemma CreateKernels_run:
  assumes "ops_ok (dom (mOperandToBlobs r)) ops"
  shows "\<exists>r'. foldR (\<lambda>rop (r, kernels). bindR (CreateKernelForOperator rop r) (\<lambda>(r, ks). Inr (r, kernels @ [(rop, ks)])))
      ops (r, acc) = Inr (r', acc @ map (op_kernels (mSupportedDevices r)) ops) \<and>
    dom (mOperandToBlobs r') = dom (mOperandToBlobs r) \<union> \<Union> (outs ` set ops) \<and>
    mLaunched r' = mLaunched r \<and> mSupportedDevices r' = mSupportedDevices r"
  using assms
proof (induction ops arbitrary: r acc)
  case Nil
  then show ?case by simp
next
  case (Cons rop ops)
  obtain b where b: "foldR NewBlobs (roOutputs rop) (mOperandToBlobs r) = Inr b"
    "dom b = dom (mOperandToBlobs r) \<union> outs rop"
    using NewBlobs_run [of "roOutputs rop" "mOperandToBlobs r"] Cons.prems by (auto simp: outs_def)
  let ?r = "r\<lparr>mOperandToBlobs := b\<rparr>"
  have c: "CreateKernelForOperator rop r = Inr (?r, GetSupported (mSupportedDevices r) (roStreamKeys rop))"
    using Cons.prems b(1) by (auto simp: CreateKernelForOperator_def guardR_def)
  have "ops_ok (dom (mOperandToBlobs ?r)) ops" using Cons.prems b(2) by simp
  from Cons.IH [OF this, of "acc @ [op_kernels (mSupportedDevices r) rop]"] c b(2) show ?case
    by (auto simp: op_kernels_def Un_assoc)
qed

lemma DeleteOperands_run:
  assumes "distinct xs" and "set xs \<subseteq> dom (mOperandToBlobs r)"
  shows "\<exists>r'. foldR Runner_DeleteOperand xs r = Inr r' \<and> dom (mOperandToBlobs r') = dom (mOperandToBlobs r) - set xs \<and>
    mLaunched r' = mLaunched r \<and> mSupportedDevices r' = mSupportedDevices r"
proof -
  have "\<exists>r'. foldR Runner_DeleteOperand xs r = Inr r' \<and> dom (mOperandToBlobs r') = dom (mOperandToBlobs r) - set xs \<and>
    (mLaunched r', mSupportedDevices r') = (mLaunched r, mSupportedDevices r)"
    using assms by (intro foldR_remove) (auto simp: Runner_DeleteOperand_def guardR_def)
  then show ?thesis by auto
qed

lemma DeleteGraphOperands_run:
  assumes "distinct xs" and "set xs \<subseteq> dom (lgOperands g)"
  shows "\<exists>g'. foldR Graph_DeleteOperand xs g = Inr g' \<and> dom (lgOperands g') = dom (lgOperands g) - set xs \<and>
    lgOperators g' = lgOperators g"
  using assms by (intro foldR_remove) (auto simp: Graph_DeleteOperand_def guardR_def)

text \<open>The operators of a stream, in the order in which they are given.\<close>

definition stream_ops :: "RunnerSupportedDevices \<Rightarrow> KernelStreamKey \<Rightarrow> runner_op list \<Rightarrow> nat list" where
  "stream_ops sd k ops = map roPtr (filter (\<lambda>rop. k \<in> GetSupported sd (roStreamKeys rop)) ops)"

lemma stream_ops_simps [simp]: "stream_ops sd k [] = []"
  "stream_ops sd k (a @ b) = stream_ops sd k a @ stream_ops sd k b"
  by (simp_all add: stream_ops_def)

lemma mLaunched_LaunchKernels:
  "mLaunched (LaunchKernels (map (op_kernels sd) ops) r) k = mLaunched r k @ stream_ops sd k ops"
proof -
  have "fold (\<lambda>(rop, ks) l k. if k \<in> ks then l k @ [roPtr rop] else l k) (map (op_kernels sd) ops) l k = l k @ stream_ops sd k ops"
    for l by (induction ops arbitrary: l) (auto simp: op_kernels_def stream_ops_def)
  then show ?thesis by (simp add: LaunchKernels_def)
qed

lemma Runner_Execute_run:
  assumes "ops_ok (dom (mOperandToBlobs r)) ops" and "distinct xs"
    and "set xs \<subseteq> dom (mOperandToBlobs r) \<union> \<Union> (outs ` set ops)" and "0 < length ops + length xs"
  shows "\<exists>r'. Runner_Execute ops xs r = Inr r' \<and>
    dom (mOperandToBlobs r') = dom (mOperandToBlobs r) \<union> \<Union> (outs ` set ops) - set xs \<and>
    (\<forall>k. mLaunched r' k = mLaunched r k @ stream_ops (mSupportedDevices r) k ops) \<and> mSupportedDevices r' = mSupportedDevices r"
proof -
  from CreateKernels_run [OF assms(1), of "[]"] obtain r1 where
    r1: "foldR (\<lambda>rop (r, kernels). bindR (CreateKernelForOperator rop r) (\<lambda>(r, ks). Inr (r, kernels @ [(rop, ks)])))
      ops (r, []) = Inr (r1, map (op_kernels (mSupportedDevices r)) ops)"
    "dom (mOperandToBlobs r1) = dom (mOperandToBlobs r) \<union> \<Union> (outs ` set ops)"
    "mLaunched r1 = mLaunched r" "mSupportedDevices r1 = mSupportedDevices r" by auto
  with DeleteOperands_run [OF assms(2), of r1] assms(3) obtain r2 where
    r2: "foldR Runner_DeleteOperand xs r1 = Inr r2" "dom (mOperandToBlobs r2) = dom (mOperandToBlobs r1) - set xs"
    "mLaunched r2 = mLaunched r1" "mSupportedDevices r2 = mSupportedDevices r1" by auto
  show ?thesis
  proof (intro exI conjI allI)
    show "Runner_Execute ops xs r = Inr (LaunchKernels (map (op_kernels (mSupportedDevices r)) ops) r2)"
      unfolding Runner_Execute_def using assms(4) r1(1) r2(1) by simp
    show "mLaunched (LaunchKernels (map (op_kernels (mSupportedDevices r)) ops) r2) k =
      mLaunched r k @ stream_ops (mSupportedDevices r) k ops" for k
      by (simp add: mLaunched_LaunchKernels r1 r2)
  qed (auto simp: LaunchKernels_def r1 r2)
qed

section \<open>One round of the asynchronous thread\<close>

text \<open>Between two rounds the graph holds no operator, and the runner has a blob for every operand of the graph.\<close>

abbreviation live :: "executor \<Rightarrow> nat set" where
  "live ex \<equiv> dom (mOperandToBlobs (mNodeRunner ex))"

definition idle :: "executor \<Rightarrow> EGEMessage list \<Rightarrow> bool" where
  "idle ex q \<longleftrightarrow> in_batch ex [] [] \<and> mMessageQueue ex = map Some q \<and> dom (lgOperands (mLogicalGraph ex)) = live ex \<and>
     queue_ok (live ex) {} q \<and> distinct (map roPtr (queue_ops q))"

lemma Execute_run:
  assumes "lgOperators (mLogicalGraph ex) = op_map ops" and "distinct (map roPtr ops)"
    and "ops_ok (live ex) ops" and "distinct rel" and "set rel \<subseteq> live ex \<union> \<Union> (outs ` set ops)"
    and "dom (lgOperands (mLogicalGraph ex)) = live ex \<union> \<Union> (outs ` set ops)"
  shows "\<exists>g r. ExecuteOperatorsAndNoHoldOperands (map roPtr ops) rel ex = Inr (ex\<lparr>mLogicalGraph := g, mNodeRunner := r\<rparr>) \<and>
    lgOperators g = Map.empty \<and> dom (lgOperands g) = dom (mOperandToBlobs r) \<and>
    dom (mOperandToBlobs r) = live ex \<union> \<Union> (outs ` set ops) - set rel \<and>
    (\<forall>k. mLaunched r k = mLaunched (mNodeRunner ex) k @ stream_ops (mSupportedDevices (mNodeRunner ex)) k ops) \<and>
    mSupportedDevices r = mSupportedDevices (mNodeRunner ex)"
proof (cases "length ops + length rel = 0")
  case True
  with assms(1,6) show ?thesis
    by (intro exI [of _ "mLogicalGraph ex"] exI [of _ "mNodeRunner ex"])
      (simp add: ExecuteOperatorsAndNoHoldOperands_def)
next
  case False
  obtain r where r: "Runner_Execute ops rel (mNodeRunner ex) = Inr r"
    "dom (mOperandToBlobs r) = live ex \<union> \<Union> (outs ` set ops) - set rel"
    "\<And>k. mLaunched r k = mLaunched (mNodeRunner ex) k @ stream_ops (mSupportedDevices (mNodeRunner ex)) k ops"
    "mSupportedDevices r = mSupportedDevices (mNodeRunner ex)"
    using Runner_Execute_run [OF assms(3-5)] False by auto
  let ?g = "(mLogicalGraph ex)\<lparr>lgOperators := Map.empty\<rparr>"
  obtain g where g: "foldR Graph_DeleteOperand rel ?g = Inr g" "dom (lgOperands g) = dom (lgOperands ?g) - set rel"
    "lgOperators g = Map.empty"
    using DeleteGraphOperands_run [OF assms(4), of ?g] assms(5,6) by auto
  have "foldR (\<lambda>p (g, ops). bindR (Graph_GetOperator p g) (\<lambda>rop. bindR (Graph_DeleteOperator p g) (\<lambda>g. Inr (g, ops @ [rop]))))
      (map roPtr ops) (mLogicalGraph ex, []) = Inr (?g, ops)"
    using take_operators [OF assms(1,2), of "[]"] by simp
  then have "ExecuteOperatorsAndNoHoldOperands (map roPtr ops) rel ex = Inr (ex\<lparr>mLogicalGraph := g, mNodeRunner := r\<rparr>)"
    unfolding ExecuteOperatorsAndNoHoldOperands_def length_map if_not_P [OF False] using r(1) g(1) by simp
  with r g assms(6) show ?thesis by (intro exI [of _ g] exI [of _ r]) auto
qed

lemma AsyncMain_round_run:
  assumes "idle ex q" and "q \<noteq> []"
  shows "\<exists>ex'. AsyncMain_round ex = Inr (Some (ex', False)) \<and> idle ex' (drop 100 q) \<and>
    live ex' = live ex \<union> queue_outs (take 100 q) - set (queue_noholds (take 100 q)) \<and>
    (\<forall>k. mLaunched (mNodeRunner ex') k =
       mLaunched (mNodeRunner ex) k @ stream_ops (mSupportedDevices (mNodeRunner ex)) k (queue_ops (take 100 q))) \<and>
    mSupportedDevices (mNodeRunner ex') = mSupportedDevices (mNodeRunner ex)"
proof -
  define t d where "t = take 100 q" and "d = drop 100 q"
  have q: "q = t @ d" by (simp add: t_def d_def)
  have ok: "queue_ok (live ex) {} t" "queue_ok (live ex \<union> queue_outs t) (set (queue_noholds t)) d"
    and ptrs: "distinct (map roPtr (queue_ops t))" "distinct (map roPtr (queue_ops d))"
    using assms(1) by (auto simp: idle_def q queue_ok_append)
  note nh = queue_ok_noholds [OF ok(1)]
  have "\<exists>ex'. ProcessMessages 100 True ex = Inr (Some ex') \<and> in_batch ex' ([] @ queue_ops t) ([] @ queue_noholds t) \<and>
    dom (lgOperands (mLogicalGraph ex')) = dom (lgOperands (mLogicalGraph ex)) \<union> queue_outs t \<and>
    mMessageQueue ex' = map Some d \<and> mNodeRunner ex' = mNodeRunner ex"
    unfolding t_def d_def using assms by (intro ProcessMessages_run) (auto simp: idle_def)
  then obtain ex1 where ex1: "ProcessMessages 100 True ex = Inr (Some ex1)" "in_batch ex1 (queue_ops t) (queue_noholds t)"
    "dom (lgOperands (mLogicalGraph ex1)) = live ex \<union> queue_outs t" "mMessageQueue ex1 = map Some d"
    "mNodeRunner ex1 = mNodeRunner ex"
    using assms(1) by (auto simp: idle_def)
  let ?ex = "ex1\<lparr>mNewAddOperatorSequence := []\<rparr>"
  have "\<exists>g r. ExecuteOperatorsAndNoHoldOperands (map roPtr (queue_ops t)) (queue_noholds t) ?ex =
      Inr (?ex\<lparr>mLogicalGraph := g, mNodeRunner := r\<rparr>) \<and>
    lgOperators g = Map.empty \<and> dom (lgOperands g) = dom (mOperandToBlobs r) \<and>
    dom (mOperandToBlobs r) = live ?ex \<union> \<Union> (outs ` set (queue_ops t)) - set (queue_noholds t) \<and>
    (\<forall>k. mLaunched r k = mLaunched (mNodeRunner ?ex) k @ stream_ops (mSupportedDevices (mNodeRunner ?ex)) k (queue_ops t)) \<and>
    mSupportedDevices r = mSupportedDevices (mNodeRunner ?ex)"
    using ex1 ptrs(1) queue_ok_ops [OF ok(1)] nh by (intro Execute_run) (auto simp: queue_outs_def in_batch_def)
  then obtain g r where gr: "ExecuteOperatorsAndNoHoldOperands (map roPtr (queue_ops t)) (queue_noholds t) ?ex =
      Inr (?ex\<lparr>mLogicalGraph := g, mNodeRunner := r\<rparr>)"
    "lgOperators g = Map.empty" "dom (lgOperands g) = dom (mOperandToBlobs r)"
    "dom (mOperandToBlobs r) = live ex \<union> queue_outs t - set (queue_noholds t)"
    "\<And>k. mLaunched r k = mLaunched (mNodeRunner ex) k @ stream_ops (mSupportedDevices (mNodeRunner ex)) k (queue_ops t)"
    "mSupportedDevices r = mSupportedDevices (mNodeRunner ex)"
    by (auto simp: ex1(5) queue_outs_def)
  have seq: "FromVec (mNewAddOperatorSequence ex1) = Inr \<lparr>mTraversalSeq = map roPtr (queue_ops t), mNodeMap = roPtr ` set (queue_ops t)\<rparr>"
    using ex1(2) by (simp add: FromVec_eq in_batch_def)
  have new: "queue_ok (dom (mOperandToBlobs r)) {} d"
    using queue_ok_released [OF ok(2), of "set (queue_noholds t)"] nh(2) by (auto simp: gr(4))
  let ?ex' = "?ex\<lparr>mLogicalGraph := g, mNodeRunner := r, mNewAddNoHoldOperand := []\<rparr>"
  have "AsyncMain_round ex = Inr (Some (?ex', False))"
    unfolding AsyncMain_round_def ex1(1) bindR_Inr option.case seq Let_def traversal.select_convs
    using ex1(2) gr(1) by (simp add: in_batch_def)
  moreover have "idle ?ex' d"
    using ex1(2,4) gr(2,3) new ptrs(2) by (simp add: idle_def in_batch_def)
  ultimately show ?thesis unfolding t_def [symmetric] d_def [symmetric] using gr(4-6) by (intro exI [of _ ?ex']) simp
qed

lemma AsyncMain_round_blocks: "idle ex [] \<Longrightarrow> AsyncMain_round ex = Inr None"
  by (simp add: AsyncMain_round_def idle_def numeral_eq_Suc)

section \<open>The API thread and the asynchronous thread together\<close>

text \<open>What a client may call; \<open>total\<close> GPUs are in the cluster.\<close>

datatype api_call =
    AddOp runner_op
  | Hold nat
  | Release nat
  | NameOperand nat string
  | NameGraph string

definition run_api :: "int \<Rightarrow> api_call \<Rightarrow> graph_state \<Rightarrow> graph_state res" where
  "run_api gpus c st =
     (case c of
        AddOp rop \<Rightarrow> Constructor_AddOperator gpus rop st
      | Hold x \<Rightarrow> ApiTensorRefCountIncrease x st
      | Release x \<Rightarrow> ApiTensorRefCountDecrease x st
      | NameOperand x name \<Rightarrow> Constructor_SetOperandName x name st
      | NameGraph name \<Rightarrow> Inr (Constructor_SetGraphName name st))"

text \<open>
  The messages still in the queue, and the calls a client can make: a new operator has a new pointer and
  new outputs, reads operands held by API tensors, and has a stream; every other call is about an operand that
  an API tensor holds.
\<close>

definition pending :: "executor \<Rightarrow> EGEMessage list" where
  "pending ex = map the (mMessageQueue ex)"

definition held :: "graph_state \<Rightarrow> nat set" where
  "held st = dom (mOperandCaches (fst st))"

definition allowed :: "int \<Rightarrow> api_call \<Rightarrow> graph_state \<Rightarrow> bool" where
  "allowed gpus c st =
     (case c of
        AddOp rop \<Rightarrow> roPtr rop \<notin> roPtr ` set (queue_ops (pending (snd st))) \<and> distinct (map fst (roOutputs rop)) \<and>
          outs rop \<inter> (live (snd st) \<union> queue_outs (pending (snd st))) = {} \<and> set (roInputs rop) \<subseteq> held st \<and>
          0 < card (roStreamKeys rop) \<and> roMaxGpuId rop < gpus
      | Hold x \<Rightarrow> x \<in> held st
      | Release x \<Rightarrow> x \<in> held st
      | NameOperand x name \<Rightarrow> x \<in> held st
      | NameGraph name \<Rightarrow> True)"

text \<open>The system with the operators submitted so far, newest last.\<close>

type_synonym system = "graph_state \<times> runner_op list"

definition submitted_by :: "api_call \<Rightarrow> runner_op list" where
  "submitted_by c = (case c of AddOp rop \<Rightarrow> [rop] | _ \<Rightarrow> [])"

inductive graph_step :: "int \<Rightarrow> system \<Rightarrow> system \<Rightarrow> bool" for gpus where
  api: "allowed gpus c st \<Longrightarrow> run_api gpus c st = Inr st' \<Longrightarrow> graph_step gpus (st, sent) (st', sent @ submitted_by c)"
| round: "AsyncMain_round ex = Inr (Some (ex', False)) \<Longrightarrow> graph_step gpus ((gc, ex), sent) ((gc, ex'), sent)"

inductive_cases graph_stepE: "graph_step gpus s s'"

text \<open>A new executor on a new runner.\<close>

definition graph_init :: "RunnerSupportedDevices \<Rightarrow> system" where
  "graph_init sd =
     ((\<lparr>mOperandCaches = Map.empty, gcGraphName = ''''\<rparr>,
       \<lparr>exGetDestroySignal = False, exQueueDestroySignal = False, mMessageQueue = [], mNewAddOperatorSequence = [],
        mNewAddNoHoldOperand = [], mLogicalGraph = \<lparr>lgName = '''', lgOperators = Map.empty, lgOperands = Map.empty\<rparr>,
        mNodeRunner = \<lparr>mSupportedDevices = sd, mOperandToBlobs = Map.empty, mLaunched = (\<lambda>k. [])\<rparr>\<rparr>), [])"

definition graph_reachable :: "RunnerSupportedDevices \<Rightarrow> int \<Rightarrow> system \<Rightarrow> bool" where
  "graph_reachable sd gpus s \<longleftrightarrow> (graph_step gpus)\<^sup>*\<^sup>* (graph_init sd) s"

text \<open>
  The invariant.  An operand is held by an API tensor exactly when it is in the graph or announced and its
  release has not been sent; every stream has been given the operators submitted but not pending.
\<close>

definition graph_inv :: "RunnerSupportedDevices \<Rightarrow> system \<Rightarrow> bool" where
  "graph_inv sd s \<longleftrightarrow> (case s of ((gc, ex), sent) \<Rightarrow>
     (\<exists>q. idle ex q \<and> held (gc, ex) = live ex \<union> queue_outs q - set (queue_noholds q) \<and>
       (\<forall>x c. mOperandCaches gc x = Some c \<longrightarrow> 1 \<le> apiTensorRefCount c) \<and>
       (\<exists>done_ops. sent = done_ops @ queue_ops q \<and> (\<forall>k. mLaunched (mNodeRunner ex) k = stream_ops sd k done_ops)) \<and>
       mSupportedDevices (mNodeRunner ex) = sd))"

lemma InitOperandCaches_run:
  assumes "distinct (map fst os)" and "fst ` set os \<inter> dom (mOperandCaches gc) = {}"
  shows "\<exists>gc'. foldR InitOperandCache os gc = Inr gc' \<and> dom (mOperandCaches gc') = dom (mOperandCaches gc) \<union> fst ` set os \<and>
    (\<forall>x. x \<notin> fst ` set os \<longrightarrow> mOperandCaches gc' x = mOperandCaches gc x) \<and>
    (\<forall>x c. x \<in> fst ` set os \<longrightarrow> mOperandCaches gc' x = Some c \<longrightarrow> apiTensorRefCount c = 0)"
  using assms
proof (induction os arbitrary: gc)
  case Nil
  then show ?case by simp
next
  case (Cons out os)
  let ?gc = "gc\<lparr>mOperandCaches := (mOperandCaches gc)(fst out \<mapsto> \<lparr>ocName = '''', apiTensorRefCount = 0\<rparr>)\<rparr>"
  have "InitOperandCache out gc = Inr ?gc" using Cons.prems(2) by (auto simp: InitOperandCache_def guardR_def domIff)
  moreover have new: "fst out \<notin> fst ` set os" using Cons.prems(1) by (simp add: image_image)
  moreover from new have "fst ` set os \<inter> dom (mOperandCaches ?gc) = {}" using Cons.prems(2) by (simp add: Int_insert_right)
  ultimately obtain gc' where gc': "foldR InitOperandCache os ?gc = Inr gc'"
    "dom (mOperandCaches gc') = dom (mOperandCaches ?gc) \<union> fst ` set os"
    "\<And>x. x \<notin> fst ` set os \<Longrightarrow> mOperandCaches gc' x = mOperandCaches ?gc x"
    "\<And>x c. x \<in> fst ` set os \<Longrightarrow> mOperandCaches gc' x = Some c \<Longrightarrow> apiTensorRefCount c = 0"
    "InitOperandCache out gc = Inr ?gc"
    using Cons.IH [of ?gc] Cons.prems(1) by fastforce
  show ?case
  proof (intro exI [of _ gc'] conjI allI impI)
    show "apiTensorRefCount c = 0" if "x \<in> fst ` set (out # os)" "mOperandCaches gc' x = Some c" for x c
      using that gc'(3) [OF new] gc'(4) [of x c] by (cases "x \<in> fst ` set os") auto
  qed (use gc' in auto)
qed

lemma CountOutputs_run:
  assumes "fst ` set os \<subseteq> dom (mOperandCaches gc)"
  shows "\<exists>gc'. foldR (\<lambda>out st. assertR (CountOperand (fst out) (fst st)) (ApiTensorRefCountIncrease (fst out) st)) os (gc, ex) =
      Inr (gc', ex) \<and> dom (mOperandCaches gc') = dom (mOperandCaches gc) \<and>
    (\<forall>x c c'. mOperandCaches gc x = Some c \<longrightarrow> mOperandCaches gc' x = Some c' \<longrightarrow>
       apiTensorRefCount c' = apiTensorRefCount c + int (count_list (map fst os) x))"
  using assms
proof (induction os arbitrary: gc)
  case Nil
  then show ?case by simp
next
  case (Cons out os)
  then obtain c where c: "mOperandCaches gc (fst out) = Some c" by auto
  let ?gc = "gc\<lparr>mOperandCaches := (mOperandCaches gc)(fst out \<mapsto> c\<lparr>apiTensorRefCount := apiTensorRefCount c + 1\<rparr>)\<rparr>"
  from Cons.prems have "fst ` set os \<subseteq> dom (mOperandCaches ?gc)" by auto
  then obtain gc' where gc': "foldR (\<lambda>out st. assertR (CountOperand (fst out) (fst st)) (ApiTensorRefCountIncrease (fst out) st))
      os (?gc, ex) = Inr (gc', ex)" "dom (mOperandCaches gc') = dom (mOperandCaches ?gc)"
    "\<And>x c c'. mOperandCaches ?gc x = Some c \<Longrightarrow> mOperandCaches gc' x = Some c' \<Longrightarrow>
       apiTensorRefCount c' = apiTensorRefCount c + int (count_list (map fst os) x)"
    using Cons.IH [of ?gc] by blast
  show ?case
  proof (intro exI [of _ gc'] conjI allI impI)
    show "foldR (\<lambda>out st. assertR (CountOperand (fst out) (fst st)) (ApiTensorRefCountIncrease (fst out) st))
      (out # os) (gc, ex) = Inr (gc', ex)" using c gc'(1) by (simp add: CountOperand_def ApiTensorRefCountIncrease_def)
    show "dom (mOperandCaches gc') = dom (mOperandCaches gc)" using gc'(2) c by auto
    fix x d d' assume "mOperandCaches gc x = Some d" "mOperandCaches gc' x = Some d'"
    then show "apiTensorRefCount d' = apiTensorRefCount d + int (count_list (map fst (out # os)) x)"
      using c gc'(3) [of x _ d'] by (cases "x = fst out") auto
  qed
qed

section \<open>The invariant\<close>

lemma pending_idle: "idle ex q \<Longrightarrow> pending ex = q"
  by (simp add: idle_def pending_def comp_def)

lemma graph_invI:
  assumes "idle ex q" and "held (gc, ex) = live ex \<union> queue_outs q - set (queue_noholds q)"
    and "\<And>x c. mOperandCaches gc x = Some c \<Longrightarrow> 1 \<le> apiTensorRefCount c" and "sent = done_ops @ queue_ops q"
    and "\<And>k. mLaunched (mNodeRunner ex) k = stream_ops sd k done_ops" and "mSupportedDevices (mNodeRunner ex) = sd"
  shows "graph_inv sd ((gc, ex), sent)"
  using assms unfolding graph_inv_def by blast

lemma graph_invE:
  assumes "graph_inv sd ((gc, ex), sent)"
  obtains q done_ops where "idle ex q" "held (gc, ex) = live ex \<union> queue_outs q - set (queue_noholds q)"
    "\<And>x c. mOperandCaches gc x = Some c \<Longrightarrow> 1 \<le> apiTensorRefCount c" "sent = done_ops @ queue_ops q"
    "\<And>k. mLaunched (mNodeRunner ex) k = stream_ops sd k done_ops" "mSupportedDevices (mNodeRunner ex) = sd"
  using assms unfolding graph_inv_def by blast

lemma PushMessage_sel [simp]: "mNodeRunner (PushMessage m ex) = mNodeRunner ex"
  by (simp add: PushMessage_def)

lemma idle_push:
  assumes "idle ex q" and "queue_ok (live ex \<union> queue_outs q) (set (queue_noholds q)) [m]"
    and "distinct (map roPtr (queue_ops q @ queue_ops [m]))"
  shows "idle (PushMessage m ex) (q @ [m])"
  using assms by (simp add: idle_def PushMessage_def in_batch_def queue_ok_append)

text \<open>The releases and the names: a message about a held operand, and the new caches.\<close>

lemma graph_inv_push:
  assumes "graph_inv sd ((gc, ex), sent)" and "queue_ops [m] = []"
    and "queue_ok (held (gc, ex)) {} [m]" and "queue_noholds [m] = xs" and "dom (mOperandCaches gc') = held (gc, ex) - set xs"
    and "\<And>x c. mOperandCaches gc' x = Some c \<Longrightarrow> 1 \<le> apiTensorRefCount c"
  shows "graph_inv sd ((gc', PushMessage m ex), sent)"
  using assms(1)
proof (rule graph_invE)
  fix q done_ops
  assume inv: "idle ex q" "held (gc, ex) = live ex \<union> queue_outs q - set (queue_noholds q)" "sent = done_ops @ queue_ops q"
    "\<And>k. mLaunched (mNodeRunner ex) k = stream_ops sd k done_ops" "mSupportedDevices (mNodeRunner ex) = sd"
  have "queue_ok (live ex \<union> queue_outs q) (set (queue_noholds q)) [m]"
    using assms(2,3) inv(2) by (cases m) auto
  moreover have "distinct (map roPtr (queue_ops q))" using inv(1) by (simp add: idle_def)
  ultimately have "idle (PushMessage m ex) (q @ [m])" using inv(1) assms(2) by (intro idle_push) auto
  then show ?thesis
  proof (rule graph_invI)
    show "held (gc', PushMessage m ex) = live (PushMessage m ex) \<union> queue_outs (q @ [m]) - set (queue_noholds (q @ [m]))"
      using assms(2,4,5) inv(2) by (auto simp: held_def queue_outs_def)
    show "sent = done_ops @ queue_ops (q @ [m])" using inv(3) assms(2) by simp
  qed (use assms(6) inv in auto)
qed

lemma graph_inv_caches:
  assumes "graph_inv sd ((gc, ex), sent)" and "dom (mOperandCaches gc') = held (gc, ex)"
    and "\<And>x c. mOperandCaches gc' x = Some c \<Longrightarrow> 1 \<le> apiTensorRefCount c"
  shows "graph_inv sd ((gc', ex), sent)"
  using assms(1)
proof (rule graph_invE)
  fix q done_ops
  assume "idle ex q" "held (gc, ex) = live ex \<union> queue_outs q - set (queue_noholds q)" "sent = done_ops @ queue_ops q"
    "\<And>k. mLaunched (mNodeRunner ex) k = stream_ops sd k done_ops" "mSupportedDevices (mNodeRunner ex) = sd"
  with assms(2,3) show ?thesis by (intro graph_invI [of ex q gc' sent done_ops sd]) (simp_all add: held_def)
qed

lemma graph_inv_add:
  assumes "graph_inv sd ((gc, ex), sent)" and "allowed gpus (AddOp rop) (gc, ex)"
  shows "\<exists>st'. Constructor_AddOperator gpus rop (gc, ex) = Inr st' \<and> graph_inv sd (st', sent @ [rop])"
  using assms(1)
proof (rule graph_invE)
  fix q done_ops
  assume inv: "idle ex q" "held (gc, ex) = live ex \<union> queue_outs q - set (queue_noholds q)"
    "\<And>x c. mOperandCaches gc x = Some c \<Longrightarrow> 1 \<le> apiTensorRefCount c" "sent = done_ops @ queue_ops q"
    "\<And>k. mLaunched (mNodeRunner ex) k = stream_ops sd k done_ops" "mSupportedDevices (mNodeRunner ex) = sd"
  have al: "roPtr rop \<notin> roPtr ` set (queue_ops q)" "distinct (map fst (roOutputs rop))"
    "outs rop \<inter> (live ex \<union> queue_outs q) = {}" "set (roInputs rop) \<subseteq> held (gc, ex)" "0 < card (roStreamKeys rop)"
    "\<not> roMaxGpuId rop \<ge> gpus"
    using assms(2) by (auto simp: allowed_def pending_idle [OF inv(1)])
  have "dom (mOperandCaches gc) \<subseteq> live ex \<union> queue_outs q" using inv(2) unfolding held_def fst_conv by blast
  with al(3) have "fst ` set (roOutputs rop) \<inter> dom (mOperandCaches gc) = {}" unfolding outs_def [symmetric] by blast
  from InitOperandCaches_run [OF al(2) this, folded outs_def] obtain gc1 where gc1: "foldR InitOperandCache (roOutputs rop) gc = Inr gc1"
    "dom (mOperandCaches gc1) = dom (mOperandCaches gc) \<union> outs rop"
    "\<And>x. x \<notin> outs rop \<Longrightarrow> mOperandCaches gc1 x = mOperandCaches gc x"
    "\<And>x c. x \<in> outs rop \<Longrightarrow> mOperandCaches gc1 x = Some c \<Longrightarrow> apiTensorRefCount c = 0"
    by (elim exE conjE) simp
  let ?ex = "PushMessage (AddOperatorEEMsg rop) ex"
  have "fst ` set (roOutputs rop) \<subseteq> dom (mOperandCaches gc1)" using gc1(2) by (auto simp: outs_def)
  from CountOutputs_run [OF this, of ?ex] obtain gc2 where gc2: "foldR (\<lambda>out st. assertR (CountOperand (fst out) (fst st)) (ApiTensorRefCountIncrease (fst out) st))
      (roOutputs rop) (gc1, ?ex) = Inr (gc2, ?ex)" "dom (mOperandCaches gc2) = dom (mOperandCaches gc1)"
    "\<And>x c c'. mOperandCaches gc1 x = Some c \<Longrightarrow> mOperandCaches gc2 x = Some c' \<Longrightarrow>
       apiTensorRefCount c' = apiTensorRefCount c + int (count_list (map fst (roOutputs rop)) x)"
    by (elim exE conjE) simp
  have run: "Constructor_AddOperator gpus rop (gc, ex) = Inr (gc2, ?ex)"
    using al(6) gc1(1) gc2(1) by (simp add: Constructor_AddOperator_def CheckSupportOrThrow_def SendOperatorToExecutor_def)
  have counted: "1 \<le> apiTensorRefCount c" if c: "mOperandCaches gc2 x = Some c" for x c
  proof -
    from c gc2(2) obtain c1 where c1: "mOperandCaches gc1 x = Some c1" by (metis domD domI)
    show ?thesis
    proof (cases "x \<in> outs rop")
      case True
      then have "0 < count_list (map fst (roOutputs rop)) x"
        by (metis count_list_0_iff gr0I image_set outs_def)
      with gc2(3) [OF c1 c] gc1(4) [OF True c1] show ?thesis by simp
    next
      case False
      then have "1 \<le> apiTensorRefCount c1" using gc1(3) inv(3) c1 by simp
      with gc2(3) [OF c1 c] show ?thesis by simp
    qed
  qed
  have "idle ?ex (q @ [AddOperatorEEMsg rop])"
    using al inv(1,2) by (intro idle_push) (auto simp: idle_def)
  then have "graph_inv sd ((gc2, ?ex), sent @ [rop])"
  proof (rule graph_invI)
    have "set (queue_noholds q) \<subseteq> live ex \<union> queue_outs q"
      using queue_ok_noholds(2) [of "live ex" "{}" q] inv(1) by (auto simp: idle_def)
    then show "held (gc2, ?ex) = live ?ex \<union> queue_outs (q @ [AddOperatorEEMsg rop]) - set (queue_noholds (q @ [AddOperatorEEMsg rop]))"
      unfolding held_def fst_conv gc2(2) gc1(2) queue_outs_simps queue_append queue_noholds.simps append_Nil2 PushMessage_sel
      using inv(2) al(3) by (simp add: held_def Un_assoc) blast
    show "sent @ [rop] = done_ops @ queue_ops (q @ [AddOperatorEEMsg rop])" using inv(4) by simp
  qed (use counted inv in auto)
  with run show ?thesis by blast
qed

lemma graph_inv_api:
  assumes "graph_inv sd (st, sent)" and "allowed gpus c st"
  shows "\<exists>st'. run_api gpus c st = Inr st' \<and> graph_inv sd (st', sent @ submitted_by c)"
proof -
  obtain gc ex where st: "st = (gc, ex)" by (cases st) auto
  note inv = assms(1) [unfolded st]
  have pos: "1 \<le> apiTensorRefCount c" if "mOperandCaches gc x = Some c" for x c
    using inv that unfolding graph_inv_def by auto
  show ?thesis
  proof (cases c)
    case (AddOp rop)
    with graph_inv_add [OF inv] assms(2) show ?thesis by (simp add: st run_api_def submitted_by_def)
  next
    case (Hold x)
    then obtain d where d: "mOperandCaches gc x = Some d" using assms(2) by (auto simp: st allowed_def held_def)
    let ?gc = "gc\<lparr>mOperandCaches := (mOperandCaches gc)(x \<mapsto> d\<lparr>apiTensorRefCount := apiTensorRefCount d + 1\<rparr>)\<rparr>"
    have "graph_inv sd ((?gc, ex), sent)"
    proof (rule graph_inv_caches [OF inv])
      show "1 \<le> apiTensorRefCount e" if "mOperandCaches ?gc y = Some e" for y e
        using that pos [OF d] pos [of y e] by (auto split: if_splits)
    qed (use d in \<open>auto simp: held_def\<close>)
    with Hold d show ?thesis by (simp add: st run_api_def submitted_by_def ApiTensorRefCountIncrease_def)
  next
    case (Release x)
    then obtain d where d: "mOperandCaches gc x = Some d" using assms(2) by (auto simp: st allowed_def held_def)
    show ?thesis
    proof (cases "apiTensorRefCount d = 1")
      case True
      have "graph_inv sd ((gc\<lparr>mOperandCaches := (mOperandCaches gc)(x := None)\<rparr>, PushMessage (ApiTensorNoHoldEEMsg x) ex), sent)"
        using inv d pos by (intro graph_inv_push) (auto simp: held_def split: if_splits)
      with Release d True show ?thesis
        by (simp add: st run_api_def submitted_by_def ApiTensorRefCountDecrease_def)
    next
      case False
      let ?gc = "gc\<lparr>mOperandCaches := (mOperandCaches gc)(x \<mapsto> d\<lparr>apiTensorRefCount := apiTensorRefCount d - 1\<rparr>)\<rparr>"
      have "graph_inv sd ((?gc, ex), sent)"
      proof (rule graph_inv_caches [OF inv])
        show "1 \<le> apiTensorRefCount e" if "mOperandCaches ?gc y = Some e" for y e
          using that False pos [OF d] pos [of y e] by (auto split: if_splits)
      qed (use d in \<open>auto simp: held_def\<close>)
      moreover have "apiTensorRefCount d \<ge> 1" by (rule pos [OF d])
      ultimately show ?thesis using Release d False
        by (simp add: st run_api_def submitted_by_def ApiTensorRefCountDecrease_def)
    qed
  next
    case (NameOperand x name)
    then obtain d where d: "mOperandCaches gc x = Some d" using assms(2) by (auto simp: st allowed_def held_def)
    have "graph_inv sd ((gc\<lparr>mOperandCaches := (mOperandCaches gc)(x \<mapsto> d\<lparr>ocName := name\<rparr>)\<rparr>,
        PushMessage (SetOperandNameEEMsg x name) ex), sent)"
      using inv d pos by (intro graph_inv_push [where gc = gc and xs = "[]"]) (auto simp: held_def split: if_splits)
    with NameOperand d show ?thesis by (simp add: st run_api_def submitted_by_def Constructor_SetOperandName_def)
  next
    case (NameGraph name)
    have "graph_inv sd ((gc\<lparr>gcGraphName := name\<rparr>, PushMessage (SetGraphNameEEMsg name) ex), sent)"
      using inv pos by (intro graph_inv_push [where gc = gc and xs = "[]"]) (auto simp: held_def)
    with NameGraph show ?thesis by (simp add: st run_api_def submitted_by_def Constructor_SetGraphName_def)
  qed
qed

lemma graph_inv_round:
  assumes "graph_inv sd ((gc, ex), sent)" and "pending ex \<noteq> []"
  shows "\<exists>ex'. AsyncMain_round ex = Inr (Some (ex', False)) \<and> graph_inv sd ((gc, ex'), sent) \<and> pending ex' = drop 100 (pending ex)"
  using assms(1)
proof (rule graph_invE)
  fix q done_ops
  assume inv: "idle ex q" "held (gc, ex) = live ex \<union> queue_outs q - set (queue_noholds q)"
    "\<And>x c. mOperandCaches gc x = Some c \<Longrightarrow> 1 \<le> apiTensorRefCount c" "sent = done_ops @ queue_ops q"
    "\<And>k. mLaunched (mNodeRunner ex) k = stream_ops sd k done_ops" "mSupportedDevices (mNodeRunner ex) = sd"
  define t d where "t = take 100 q" and "d = drop 100 q"
  have q: "q = t @ d" by (simp add: t_def d_def)
  have ne: "q \<noteq> []" using assms(2) pending_idle [OF inv(1)] by simp
  obtain ex' where ex': "AsyncMain_round ex = Inr (Some (ex', False))" "idle ex' d"
    "live ex' = live ex \<union> queue_outs t - set (queue_noholds t)"
    "\<And>k. mLaunched (mNodeRunner ex') k = mLaunched (mNodeRunner ex) k @ stream_ops (mSupportedDevices (mNodeRunner ex)) k (queue_ops t)"
    "mSupportedDevices (mNodeRunner ex') = mSupportedDevices (mNodeRunner ex)"
    using AsyncMain_round_run [OF inv(1) ne] unfolding t_def d_def by blast
  have ok: "queue_ok (live ex) {} t" "queue_ok (live ex \<union> queue_outs t) (set (queue_noholds t)) d"
    using inv(1) by (auto simp: idle_def q queue_ok_append)
  from ex'(2) have "graph_inv sd ((gc, ex'), sent)"
  proof (rule graph_invI)
    show "held (gc, ex') = live ex' \<union> queue_outs d - set (queue_noholds d)"
      using queue_ok_noholds(2) [OF ok(1)] queue_ok_outs [OF ok(2)] inv(2) unfolding ex'(3) q held_def by auto
    show "sent = (done_ops @ queue_ops t) @ queue_ops d" using inv(4) by (simp add: q)
  qed (use inv ex'(4,5) in auto)
  with ex'(1,2) show ?thesis using pending_idle [OF inv(1)] pending_idle [OF ex'(2)] by (simp add: d_def)
qed

lemma graph_inv_blocked:
  assumes "graph_inv sd ((gc, ex), sent)" and "pending ex = []"
  shows "AsyncMain_round ex = Inr None" "live ex = held (gc, ex)" "mLaunched (mNodeRunner ex) k = stream_ops sd k sent"
proof -
  from assms(1) obtain q done_ops where q: "idle ex q" "held (gc, ex) = live ex \<union> queue_outs q - set (queue_noholds q)"
    "sent = done_ops @ queue_ops q" "\<And>k. mLaunched (mNodeRunner ex) k = stream_ops sd k done_ops"
    by (rule graph_invE) blast
  with assms(2) have "q = []" using pending_idle by metis
  with q AsyncMain_round_blocks show "AsyncMain_round ex = Inr None" "live ex = held (gc, ex)"
    "mLaunched (mNodeRunner ex) k = stream_ops sd k sent" by auto
qed

lemma graph_inv_init: "graph_inv sd (graph_init sd)"
  unfolding graph_init_def
  by (rule graph_invI [of _ "[]" _ _ "[]"]) (auto simp: idle_def in_batch_def held_def)

lemma graph_inv_step: "graph_step gpus s s' \<Longrightarrow> graph_inv sd s \<Longrightarrow> graph_inv sd s'"
proof (induction rule: graph_step.induct)
  case (api c st st' sent)
  with graph_inv_api [of sd st sent gpus c] show ?case by auto
next
  case (round ex ex' gc sent)
  then have "pending ex \<noteq> []" using graph_inv_blocked(1) by fastforce
  with round graph_inv_round show ?case by fastforce
qed

lemma graph_reachable_inv: "graph_reachable sd gpus s \<Longrightarrow> graph_inv sd s"
  unfolding graph_reachable_def by (induction rule: rtranclp_induct) (auto intro: graph_inv_init graph_inv_step)

text \<open>The loop of the asynchronous thread, as far as \<open>n\<close> rounds go before it blocks or ends.\<close>

fun AsyncMain :: "nat \<Rightarrow> executor \<Rightarrow> executor res" where
  "AsyncMain 0 ex = Inr ex"
| "AsyncMain (Suc n) ex =
     bindR (AsyncMain_round ex) (\<lambda>r. case r of
       None \<Rightarrow> Inr ex
     | Some (ex', stop) \<Rightarrow> if stop then Inr ex' else AsyncMain n ex')"

lemma AsyncMain_run:
  assumes "graph_inv sd ((gc, ex), sent)" and "length (pending ex) \<le> 100 * n"
  shows "\<exists>ex'. AsyncMain n ex = Inr ex' \<and> graph_inv sd ((gc, ex'), sent) \<and> pending ex' = []"
  using assms
proof (induction n arbitrary: ex)
  case 0
  then show ?case by simp
next
  case (Suc n)
  show ?case
  proof (cases "pending ex = []")
    case True
    with Suc.prems graph_inv_blocked(1) show ?thesis by auto
  next
    case False
    with graph_inv_round [OF Suc.prems(1)] obtain ex' where "AsyncMain_round ex = Inr (Some (ex', False))"
      "graph_inv sd ((gc, ex'), sent)" "pending ex' = drop 100 (pending ex)" by auto
    with Suc.IH [of ex'] Suc.prems(2) show ?thesis by simp
  qed
qed

text \<open>A run for the examples: an operator with one output on the CPU, whose API tensor is dropped again.\<close>

definition cpu_only :: RunnerSupportedDevices where
  "cpu_only = \<lparr>mSupportCpu = True, mDevices = [], mGlobalToLocalMap = Map.empty\<rparr>"

definition cpu_stream :: KernelStreamKey where
  "cpu_stream = KernelStreamKey_Init kCpu 0 kCompute"

definition sample_op :: runner_op where
  "sample_op = \<lparr>roPtr = 1, roInputs = [], roOutputs = [(7, {0})], roStreamKeys = {cpu_stream}, roMaxGpuId = - 1\<rparr>"

definition sample_state :: graph_state where
  "sample_state = (fst (fst (graph_init cpu_only)),
     PushMessage (ApiTensorNoHoldEEMsg 7) (PushMessage (AddOperatorEEMsg sample_op) (snd (fst (graph_init cpu_only)))))"

lemma sample_reachable: "graph_reachable cpu_only 0 (sample_state, [sample_op])"
proof -
  let ?st = "fst (graph_init cpu_only)"
  let ?gc = "(fst ?st)\<lparr>mOperandCaches := [7 \<mapsto> \<lparr>ocName = '''', apiTensorRefCount = 1\<rparr>]\<rparr>"
  let ?ex = "PushMessage (AddOperatorEEMsg sample_op) (snd ?st)"
  have "allowed 0 (AddOp sample_op) ?st"
    by (simp add: allowed_def graph_init_def sample_op_def pending_def outs_def)
  moreover have "run_api 0 (AddOp sample_op) ?st = Inr (?gc, ?ex)"
    by (simp add: run_api_def Constructor_AddOperator_def CheckSupportOrThrow_def SendOperatorToExecutor_def sample_op_def
        InitOperandCache_def graph_init_def CountOperand_def ApiTensorRefCountIncrease_def)
  ultimately have "graph_step 0 (?st, []) ((?gc, ?ex), [] @ submitted_by (AddOp sample_op))" by (rule graph_step.api)
  moreover have "allowed 0 (Release 7) (?gc, ?ex)" by (simp add: allowed_def held_def)
  moreover have "run_api 0 (Release 7) (?gc, ?ex) = Inr sample_state"
    by (simp add: run_api_def ApiTensorRefCountDecrease_def sample_state_def graph_init_def)
  ultimately have "(graph_step 0)\<^sup>*\<^sup>* (?st, []) (sample_state, [sample_op] @ submitted_by (Release 7))"
    by (auto simp: submitted_by_def intro: rtranclp.rtrancl_into_rtrancl graph_step.api r_into_rtranclp
        dest: graph_step.api [where sent = "[sample_op]"])
  then show ?thesis by (simp add: graph_reachable_def submitted_by_def graph_init_def)
qed

lemma sample_pending: "pending (snd sample_state) = [AddOperatorEEMsg sample_op, ApiTensorNoHoldEEMsg 7]"
  by (simp add: sample_state_def pending_def PushMessage_def graph_init_def)

text \<open>C5: The eager graph never aborts: whatever operators a client has added and however it has held, released and named
  their outputs, and however the asynchronous thread was interleaved, every call the client is allowed to make
  succeeds, every round of the asynchronous thread succeeds, and every operand an API tensor holds has its blobs on the
  node or is announced in the queue.\<close>

theorem graph_never_aborts:
  assumes "graph_reachable sd gpus ((gc, ex), sent)"
  shows "(\<forall>c. allowed gpus c (gc, ex) \<longrightarrow> (\<exists>st'. run_api gpus c (gc, ex) = Inr st')) \<and>
    (\<exists>r. AsyncMain_round ex = Inr r) \<and> held (gc, ex) \<subseteq> live ex \<union> queue_outs (pending ex)"
proof (intro conjI allI impI)
  note inv = graph_reachable_inv [OF assms]
  show "\<exists>st'. run_api gpus c (gc, ex) = Inr st'" if "allowed gpus c (gc, ex)" for c
    using graph_inv_api [OF inv that] by blast
  show "\<exists>r. AsyncMain_round ex = Inr r"
    using graph_inv_blocked(1) [OF inv] graph_inv_round [OF inv] by (cases "pending ex = []") auto
  show "held (gc, ex) \<subseteq> live ex \<union> queue_outs (pending ex)"
    using inv by (rule graph_invE) (auto simp: pending_idle)
qed

theorem graph_never_aborts_witness:
  "\<exists>r. AsyncMain_round (snd sample_state) = Inr r"
  using graph_never_aborts [of cpu_only 0 "fst sample_state" "snd sample_state" "[sample_op]"] sample_reachable by simp

text \<open>C7: The asynchronous thread keeps the client's order: at every moment the operators submitted so far are those already
  executed followed by those still in the queue, and every stream of the node has been given exactly the executed
  operators that it runs, in the order in which the client added them.\<close>

theorem streams_keep_submission_order:
  assumes "graph_reachable sd gpus ((gc, ex), sent)"
  shows "\<exists>executed. sent = executed @ queue_ops (pending ex) \<and>
    (\<forall>k. mLaunched (mNodeRunner ex) k = map roPtr (filter (\<lambda>rop. k \<in> GetSupported sd (roStreamKeys rop)) executed))"
  using graph_reachable_inv [OF assms] by (rule graph_invE) (auto simp: pending_idle stream_ops_def)

theorem streams_keep_submission_order_witness:
  "\<exists>executed. [sample_op] = executed @ queue_ops (pending (snd sample_state)) \<and>
    mLaunched (mNodeRunner (snd sample_state)) cpu_stream = map roPtr (filter (\<lambda>rop. cpu_stream \<in> GetSupported cpu_only (roStreamKeys rop)) executed)"
  using streams_keep_submission_order [of cpu_only 0 "fst sample_state" "snd sample_state" "[sample_op]"] sample_reachable by auto

text \<open>C6: The asynchronous thread catches up: from every reachable state, once it has had one round for every hundred
  messages that are pending, the queue is empty, every stream has been given all the operators submitted for it, and
  the operands with blobs on the node are exactly those an API tensor still holds.\<close>

theorem graph_drains:
  assumes "graph_reachable sd gpus ((gc, ex), sent)" and "length (pending ex) \<le> 100 * n"
  shows "\<exists>ex'. AsyncMain n ex = Inr ex' \<and> pending ex' = [] \<and> AsyncMain_round ex' = Inr None \<and> live ex' = held (gc, ex) \<and>
    (\<forall>k. mLaunched (mNodeRunner ex') k = map roPtr (filter (\<lambda>rop. k \<in> GetSupported sd (roStreamKeys rop)) sent))"
proof -
  from AsyncMain_run [OF graph_reachable_inv [OF assms(1)] assms(2)] obtain ex' where
    "AsyncMain n ex = Inr ex'" "graph_inv sd ((gc, ex'), sent)" "pending ex' = []" by blast
  with graph_inv_blocked [OF this(2,3)] show ?thesis by (auto simp: stream_ops_def held_def)
qed

theorem graph_drains_witness:
  "\<exists>ex'. AsyncMain 1 (snd sample_state) = Inr ex' \<and> live ex' = {} \<and> mLaunched (mNodeRunner ex') cpu_stream = [1]"
proof -
  have "held sample_state = {}" by (simp add: held_def sample_state_def graph_init_def)
  moreover have "cpu_stream \<in> GetSupported cpu_only (roStreamKeys sample_op)"
    by (simp add: GetSupported_def cpu_only_def sample_op_def cpu_stream_def KernelStreamKey_Init_def mk_Device_def)
  ultimately show ?thesis
    using graph_drains [of cpu_only 0 "fst sample_state" "snd sample_state" "[sample_op]" 1] sample_reachable
    by (auto simp: sample_pending) (simp add: sample_op_def)
qed

text \<open>
  Destroying the executor ends its thread in the next round, whatever is queued: messages that were not taken
  before are dropped.
\<close>

lemma Destroy_drops_messages:
  assumes "Executor_Destroy ex = Inr ex'"
  shows "\<exists>ex''. AsyncMain_round ex' = Inr (Some (ex'', True)) \<and> mNodeRunner ex'' = mNodeRunner ex"
proof -
  from assms have f: "exGetDestroySignal ex'" "exQueueDestroySignal ex'" "mMessageQueue ex' = mMessageQueue ex @ [None]"
    "mNodeRunner ex' = mNodeRunner ex" by (auto simp: Executor_Destroy_def Let_def guardR_eq_Inr)
  then obtain m q where mq: "mMessageQueue ex' = m # q" by (metis append_is_Nil_conv list.distinct(1) neq_Nil_conv)
  have "ProcessMessages 100 True ex' = ProcessMessages (Suc 99) True ex'" by simp
  also have "\<dots> = Inr (Some (ex'\<lparr>mMessageQueue := q\<rparr>))" unfolding ProcessMessages.simps using f(2) mq by simp
  finally have "ProcessMessages 100 True ex' = Inr (Some (ex'\<lparr>mMessageQueue := q\<rparr>))" .
  with f show ?thesis by (simp add: AsyncMain_round_def)
qed

end
