(* ===== verification/ReduceKernels.thy ===== *)
theory ReduceKernels
  imports ReduceOps Collectives Complex_Main
begin

text \<open>
  The kernel of the reductions, src/dtorch/core/kernel/kernel_implement/reduce_kernel.{h,cc}: the local reduction
  of libtorch, and the combination of the results of the devices between which a reduced axis is cut.  As in
  \<open>Collectives\<close> the operations of a group act on the list of the tensors of its ranks.
\<close>

record 't torch_reduce =
  r_sum :: "'t \<Rightarrow> int list \<Rightarrow> bool \<Rightarrow> DataKind option \<Rightarrow> 't"
  r_mean :: "'t \<Rightarrow> int list \<Rightarrow> bool \<Rightarrow> DataKind option \<Rightarrow> 't"
  r_any_dims :: "'t \<Rightarrow> int list \<Rightarrow> bool \<Rightarrow> 't"
  r_any :: "'t \<Rightarrow> 't"
  r_all_dims :: "'t \<Rightarrow> int list \<Rightarrow> bool \<Rightarrow> 't"
  r_all :: "'t \<Rightarrow> 't"
  r_add :: "'t \<Rightarrow> 't \<Rightarrow> 't"
  r_and :: "'t \<Rightarrow> 't \<Rightarrow> 't"
  r_or :: "'t \<Rightarrow> 't \<Rightarrow> 't"
  r_div :: "'t \<Rightarrow> int \<Rightarrow> 't"

definition ComputeLocalResult :: "'t torch_reduce \<Rightarrow> ReduceParam \<Rightarrow> 't \<Rightarrow> 't res" where
  "ComputeLocalResult R param input =
     (let dim = reduceDim param; keepdim = reduceKeepdim param in
      case reduceKind param of
        kSum \<Rightarrow> Inr (r_sum R input dim keepdim (reduceDataKind param))
      | kMean \<Rightarrow> Inr (r_mean R input dim keepdim (reduceDataKind param))
      | kAny \<Rightarrow> Inr (if length dim > 0 then r_any_dims R input dim keepdim else r_any R input)
      | kAll \<Rightarrow> Inr (if length dim > 0 then r_all_dims R input dim keepdim else r_all R input)
      | _ \<Rightarrow> Inl Abort)"

definition CommDims :: "placement_seq \<Rightarrow> nat set \<Rightarrow> nat list" where
  "CommDims placements dimSet =
     filter (\<lambda>i. IsShard (placements ! i) \<and> 0 \<le> mShardIndex (placements ! i) \<and> nat (mShardIndex (placements ! i)) \<in> dimSet)
       [0..<length placements]"

definition Reduce_combine :: "'t torch_reduce \<Rightarrow> ReduceKind \<Rightarrow> 't \<Rightarrow> 't \<Rightarrow> 't res" where
  "Reduce_combine R kind a b =
     (if kind = kSum \<or> kind = kMean then Inr (r_add R a b)
      else if kind = kAll then Inr (r_and R a b)
      else if kind = kAny then Inr (r_or R a b)
      else Inl Abort)"

text \<open>What one rank does with the gathered results.\<close>

definition Reduce_finish :: "'t torch_reduce \<Rightarrow> ReduceKind \<Rightarrow> 't list \<Rightarrow> 't res" where
  "Reduce_finish R kind allGatherResult =
     guardR Undefined (allGatherResult \<noteq> [])
      (bindR (foldR (\<lambda>i acc. Reduce_combine R kind acc (allGatherResult ! i)) [1..<length allGatherResult] (allGatherResult ! 0)) (\<lambda>r.
         Inr (if kind = kMean then r_div R r (int (length allGatherResult)) else r)))"

text \<open>The inputs of the ranks of the line of devices along the communication axis, if there is one.\<close>

definition ReduceKernel_Compute :: "'t torch_reduce \<Rightarrow> 't backend \<Rightarrow> ReduceParam \<Rightarrow> shape \<Rightarrow> placement_seq \<Rightarrow> 't list \<Rightarrow> 't list res" where
  "ReduceKernel_Compute R B param inShape placements inputs =
     bindR (mapR (ComputeLocalResult R param) inputs) (\<lambda>outputs.
     bindR (GetDimSet param inShape) (\<lambda>dimSet.
       let commDim = CommDims placements dimSet in
       if length commDim = 0 then Inr outputs
       else assertR (\<not> length commDim > 1)
        (bindR (AllGatherIntoVec B outputs) (mapR (Reduce_finish R (reduceKind param))))))"















text \<open>Vectors of rationals.\<close>

definition vec_reduce :: "rat list torch_reduce" where
  "vec_reduce = \<lparr>r_sum = (\<lambda>x _ _ _. [sum_list x]), r_mean = (\<lambda>x _ _ _. [sum_list x / of_nat (length x)]),
     r_any_dims = (\<lambda>x _ _. [if \<exists>v \<in> set x. v \<noteq> 0 then 1 else 0]), r_any = (\<lambda>x. [if \<exists>v \<in> set x. v \<noteq> 0 then 1 else 0]),
     r_all_dims = (\<lambda>x _ _. [if \<forall>v \<in> set x. v \<noteq> 0 then 1 else 0]), r_all = (\<lambda>x. [if \<forall>v \<in> set x. v \<noteq> 0 then 1 else 0]),
     r_add = map2 (+), r_and = map2 (\<lambda>a b. if a \<noteq> 0 \<and> b \<noteq> 0 then 1 else 0), r_or = map2 (\<lambda>a b. if a \<noteq> 0 \<or> b \<noteq> 0 then 1 else 0),
     r_div = (\<lambda>x n. map (\<lambda>v. v / of_int n) x)\<rparr>"

definition sum_param :: ReduceParam where
  "sum_param = \<lparr>reduceKind = kSum, reduceDim = [0], reduceKeepdim = True, reduceDataKind = None\<rparr>"












text \<open>The mean averages the local means without their weights, which is wrong for pieces of different size.\<close>

lemma ReduceKernel_mean_unweighted:
  defines "param \<equiv> sum_param\<lparr>reduceKind := kMean\<rparr>"
  shows "ReduceKernel_Compute vec_reduce (same_device T) param [3] [Shard 0 (- 1)] [[0, 0], [6]] = Inr [[3], [3]]"
    and "ComputeLocalResult vec_reduce param [0, 0, 6] = Inr [2]"
  by (simp_all add: param_def ReduceKernel_Compute_def ComputeLocalResult_def vec_reduce_def sum_param_def GetDimSet_def GetValidDim_def
      CommDims_def AllGatherIntoVec_def same.allgather Reduce_finish_def Reduce_combine_def upt_rec numeral_2_eq_2)

text \<open>A reduction over an axis that two axes of the mesh cut is accepted by the inference, but aborts in the kernel.\<close>

lemma ReduceKernel_two_axes:
  assumes "mapR (ComputeLocalResult R param) inputs = Inr ys" and "GetDimSet param inShape = Inr dimSet"
    and "1 < length (CommDims placements dimSet)"
  shows "ReduceKernel_Compute R B param inShape placements inputs = Inl Abort"
  using assms by (cases "CommDims placements dimSet") (simp_all add: ReduceKernel_Compute_def Let_def)

lemma Reduce_two_axes_accepted:
  "map_sum id (map oPlacementSeq) (InferOutput 8 (Reduce_class sum_rows) [Operand_of [6, 4, 2] kFloat32 gpu_grid [Shard 0 (- 1), Shard 2 (- 1)]]
     [Operand_new]) = Inr [[Replicate, Replicate]]"
  by code_simp

end
