(* ===== verification/KernelStreams.thy ===== *)
theory KernelStreams
  imports ApiTypes "HOL-Library.Sublist"
begin

text \<open>
  src/dtorch/core/kernel_stream/kernel_stream.{h,cc} and kernel_stream_manager.{h,cc}: the thread that runs the kernels
  of one device in the order in which they were launched, and the client threads that launch kernels, wait for them
  (\<open>Sync\<close>) and destroy the stream.  The mutex makes a critical section one step; \<open>wait\<close> releases it, so a waiting thread
  has a phase for being asleep and one for being woken but not yet back.  A kernel is a number.

  The queue is third-party code (\<open>moodycamel::BlockingReaderWriterQueue\<close>, used through common/thread_safe_queue.h).  Its
  documentation promises a sequence to one producing and one consuming thread, and nothing beyond that.  The consuming
  thread is the thread of the stream; \<open>mProducer\<close> is the thread that has begun to produce, and no other thread has a
  step that enqueues.  What happens when a second thread does it (\<open>Sync\<close> is called from other threads than the one that
  launches, kernel_stream.cc:60) is therefore not described here.  The priority of the thread and the CUDA calls are not
  modelled.  \<open>launched\<close> is a ghost: all kernels enqueued so far.
\<close>

section \<open>The threads of a stream\<close>

datatype message = Kernel_message nat | Null_message

datatype async_phase = Dequeuing | Dequeued message | Notifying_all | Stopped | Assert_failed

datatype stream_call = LaunchKernel nat | Sync | Destroy

text \<open>A client is ready for its next call, or inside \<open>Sync\<close>: waiting for the synchronisation of another thread, or for
  its own, with the number of kernels launched when it asked (the flag says that it has been woken), or inside
  \<open>Destroy\<close>: before the empty message, or waiting for the thread of the stream to end.\<close>

datatype client_phase = Ready | Turn bool | Own nat bool | Destroying | Joining

type_synonym client = "stream_call list \<times> client_phase"

record stream =
  mKernelQueue :: "message list"
  mSync :: bool
  mDestroy :: bool
  mProducer :: "nat option"
  asyncPhase :: async_phase
  executed :: "nat list"
  launched :: "nat list"

definition KernelStream_new :: stream where
  "KernelStream_new = \<lparr>mKernelQueue = [], mSync = False, mDestroy = False, mProducer = None, asyncPhase = Dequeuing,
     executed = [], launched = []\<rparr>"

text \<open>The contract of the queue: it has one producing thread.\<close>

definition may_produce :: "nat \<Rightarrow> stream \<Rightarrow> bool" where
  "may_produce i s \<longleftrightarrow> mProducer s = None \<or> mProducer s = Some i"

definition Enqueue :: "nat \<Rightarrow> message \<Rightarrow> stream \<Rightarrow> stream" where
  "Enqueue i m s = s\<lparr>mKernelQueue := mKernelQueue s @ [m], mProducer := Some i,
     launched := launched s @ (case m of Kernel_message k \<Rightarrow> [k] | Null_message \<Rightarrow> [])\<rparr>"

text \<open>\<open>Sync\<close> under the mutex when no other synchronisation is on its way: raise the flag, send the empty message, wait.\<close>

definition Sync_begin :: "nat \<Rightarrow> stream \<Rightarrow> stream" where
  "Sync_begin i s = Enqueue i Null_message (s\<lparr>mSync := True\<rparr>)"

fun wake_client :: "client \<Rightarrow> client" where
  "wake_client (cs, Turn b) = (cs, Turn True)"
| "wake_client (cs, Own n b) = (cs, Own n True)"
| "wake_client (cs, p) = (cs, p)"

text \<open>What the thread of the stream does with a message.\<close>

definition Process :: "message \<Rightarrow> stream \<Rightarrow> stream" where
  "Process m s =
     (if mDestroy s then s\<lparr>asyncPhase := Stopped\<rparr>
      else case m of
        Null_message \<Rightarrow> if mSync s then s\<lparr>mSync := False, asyncPhase := Notifying_all\<rparr> else s\<lparr>asyncPhase := Assert_failed\<rparr>
      | Kernel_message k \<Rightarrow> s\<lparr>executed := executed s @ [k], asyncPhase := Dequeuing\<rparr>)"

text \<open>The steps; \<open>spurious\<close> lets a sleeping thread wake on its own.  \<open>Destroy\<close> does nothing when the thread of the stream
  has been joined already.\<close>

inductive stream_step :: "bool \<Rightarrow> stream \<times> client list \<Rightarrow> stream \<times> client list \<Rightarrow> bool"
  for spurious where
  launch: "i < length cs \<Longrightarrow> cs ! i = (LaunchKernel k # ps, Ready) \<Longrightarrow> may_produce i s \<Longrightarrow>
    stream_step spurious (s, cs) (Enqueue i (Kernel_message k) s, cs[i := (ps, Ready)])"
| turn_sleep: "i < length cs \<Longrightarrow> cs ! i = (Sync # ps, p) \<Longrightarrow> p = Ready \<or> p = Turn True \<Longrightarrow> mSync s \<Longrightarrow>
    stream_step spurious (s, cs) (s, cs[i := (Sync # ps, Turn False)])"
| sync_begin: "i < length cs \<Longrightarrow> cs ! i = (Sync # ps, p) \<Longrightarrow> p = Ready \<or> p = Turn True \<Longrightarrow> \<not> mSync s \<Longrightarrow> may_produce i s \<Longrightarrow>
    stream_step spurious (s, cs) (Sync_begin i s, cs[i := (Sync # ps, Own (length (launched s)) False)])"
| sync_sleep: "i < length cs \<Longrightarrow> cs ! i = (Sync # ps, Own n True) \<Longrightarrow> mSync s \<Longrightarrow>
    stream_step spurious (s, cs) (s, cs[i := (Sync # ps, Own n False)])"
| sync_return: "i < length cs \<Longrightarrow> cs ! i = (Sync # ps, Own n True) \<Longrightarrow> \<not> mSync s \<Longrightarrow>
    stream_step spurious (s, cs) (s, cs[i := (ps, Ready)])"
| dequeue: "asyncPhase s = Dequeuing \<Longrightarrow> mKernelQueue s = m # q \<Longrightarrow>
    stream_step spurious (s, cs) (s\<lparr>mKernelQueue := q, asyncPhase := Dequeued m\<rparr>, cs)"
| process: "asyncPhase s = Dequeued m \<Longrightarrow> stream_step spurious (s, cs) (Process m s, cs)"
| notify_all: "asyncPhase s = Notifying_all \<Longrightarrow>
    stream_step spurious (s, cs) (s\<lparr>asyncPhase := Dequeuing\<rparr>, map wake_client cs)"
| wake_spurious: "i < length cs \<Longrightarrow> spurious \<Longrightarrow>
    stream_step spurious (s, cs) (s, cs[i := wake_client (cs ! i)])"
| destroy_flag: "i < length cs \<Longrightarrow> cs ! i = (Destroy # ps, Ready) \<Longrightarrow> asyncPhase s \<noteq> Stopped \<Longrightarrow>
    stream_step spurious (s, cs) (s\<lparr>mDestroy := True\<rparr>, cs[i := (Destroy # ps, Destroying)])"
| destroy_send: "i < length cs \<Longrightarrow> cs ! i = (Destroy # ps, Destroying) \<Longrightarrow> may_produce i s \<Longrightarrow>
    stream_step spurious (s, cs) (Enqueue i Null_message s, cs[i := (Destroy # ps, Joining)])"
| destroy_join: "i < length cs \<Longrightarrow> cs ! i = (Destroy # ps, p) \<Longrightarrow> p = Joining \<or> p = Ready \<Longrightarrow> asyncPhase s = Stopped \<Longrightarrow>
    stream_step spurious (s, cs) (s, cs[i := (ps, Ready)])"

inductive_cases stream_stepE: "stream_step spurious (s, cs) y"

abbreviation stream_reach :: "bool \<Rightarrow> stream \<times> client list \<Rightarrow> stream \<times> client list \<Rightarrow> bool" where
  "stream_reach spurious \<equiv> (stream_step spurious)\<^sup>*\<^sup>*"

definition started :: "stream_call list list \<Rightarrow> stream \<times> client list" where
  "started programs = (KernelStream_new, map (\<lambda>ps. (ps, Ready)) programs)"

section \<open>The invariant\<close>

text \<open>Messages that are still to be processed, the kernels among them, and those before the first empty message.\<close>

definition pending :: "stream \<Rightarrow> message list" where
  "pending s = (case asyncPhase s of Dequeued m \<Rightarrow> m # mKernelQueue s | _ \<Rightarrow> mKernelQueue s)"

fun kernels_of :: "message list \<Rightarrow> nat list" where
  "kernels_of [] = []"
| "kernels_of (Kernel_message k # ms) = k # kernels_of ms"
| "kernels_of (Null_message # ms) = kernels_of ms"

definition is_kernel :: "message \<Rightarrow> bool" where
  "is_kernel m \<longleftrightarrow> m \<noteq> Null_message"

definition ahead :: "stream \<Rightarrow> nat" where
  "ahead s = length (takeWhile is_kernel (pending s))"

definition nulls :: "stream \<Rightarrow> nat" where
  "nulls s = length (filter (\<lambda>m. m = Null_message) (pending s))"

definition stream_ok :: "stream \<Rightarrow> bool" where
  "stream_ok s \<longleftrightarrow> asyncPhase s \<noteq> Assert_failed \<and> prefix (executed s) (launched s) \<and>
     (asyncPhase s = Stopped \<longrightarrow> mDestroy s) \<and>
     (\<not> mDestroy s \<longrightarrow> launched s = executed s @ kernels_of (pending s) \<and> nulls s = (if mSync s then 1 else 0))"

definition client_ok :: "stream \<Rightarrow> client \<Rightarrow> bool" where
  "client_ok s c \<longleftrightarrow> (case snd c of
     Ready \<Rightarrow> True
   | Turn b \<Rightarrow> \<exists>ps. fst c = Sync # ps
   | Own n b \<Rightarrow> (\<exists>ps. fst c = Sync # ps) \<and> n \<le> length (launched s) \<and>
       (n \<le> length (executed s) \<or> mSync s \<and> (mDestroy s \<or> n \<le> length (executed s) + ahead s))
   | Destroying \<Rightarrow> (\<exists>ps. fst c = Destroy # ps) \<and> mDestroy s
   | Joining \<Rightarrow> (\<exists>ps. fst c = Destroy # ps) \<and> mDestroy s \<and> (asyncPhase s = Stopped \<or> pending s \<noteq> []))"

definition asleep :: "client \<Rightarrow> bool" where
  "asleep c \<longleftrightarrow> (\<exists>n. snd c = Turn False \<or> snd c = Own n False)"

text \<open>A thread sleeps only while a synchronisation is on its way or about to be announced.\<close>

definition sleepers_ok :: "stream \<Rightarrow> client list \<Rightarrow> bool" where
  "sleepers_ok s cs \<longleftrightarrow> (\<exists>c \<in> set cs. asleep c) \<longrightarrow> mSync s \<or> asyncPhase s = Notifying_all"

lemma kernels_of_append [simp]: "kernels_of (a @ b) = kernels_of a @ kernels_of b"
  by (induction a rule: kernels_of.induct) auto

lemma kernels_takeWhile: "length (takeWhile is_kernel ms) \<le> length (kernels_of ms)"
  by (induction ms rule: kernels_of.induct) (auto simp: is_kernel_def)

lemma no_nulls: "filter (\<lambda>m. m = Null_message) ms = [] \<Longrightarrow> length (takeWhile is_kernel (ms @ ms')) = length (kernels_of ms) + length (takeWhile is_kernel ms')"
  by (induction ms rule: kernels_of.induct) (auto simp: is_kernel_def)

lemma pending_Enqueue [simp]: "pending (Enqueue i m s) = pending s @ [m]"
  by (auto simp: pending_def Enqueue_def split: async_phase.splits)

lemma Enqueue_sel [simp]:
  "mSync (Enqueue i m s) = mSync s" "mDestroy (Enqueue i m s) = mDestroy s" "asyncPhase (Enqueue i m s) = asyncPhase s"
  "executed (Enqueue i m s) = executed s" "launched (Enqueue i m s) = launched s @ kernels_of [m]"
  by (auto simp: Enqueue_def split: message.splits)

lemma Enqueue_kernel_ok: "stream_ok s \<Longrightarrow> stream_ok (Enqueue i (Kernel_message k) s)"
  by (auto simp: stream_ok_def nulls_def)

lemma Sync_begin_ok:
  assumes "stream_ok s" and "\<not> mSync s"
  shows "stream_ok (Sync_begin i s)" and "mDestroy s \<or> length (launched s) = length (executed s) + ahead (Sync_begin i s)"
proof -
  have p: "pending (s\<lparr>mSync := True\<rparr>) = pending s" by (cases "asyncPhase s") (simp_all add: pending_def)
  show "stream_ok (Sync_begin i s)" using assms by (auto simp: stream_ok_def Sync_begin_def nulls_def p)
  have "length (takeWhile is_kernel (pending s @ [Null_message])) = length (kernels_of (pending s))" if "\<not> mDestroy s"
    using assms that no_nulls [of "pending s" "[Null_message]"] by (simp add: stream_ok_def nulls_def is_kernel_def)
  then show "mDestroy s \<or> length (launched s) = length (executed s) + ahead (Sync_begin i s)"
    using assms(1) by (cases "mDestroy s") (simp_all add: stream_ok_def ahead_def Sync_begin_def p)
qed

lemma ahead_Enqueue: "ahead s \<le> ahead (Enqueue i m s)"
  by (simp add: ahead_def takeWhile_append length_takeWhile_le le_SucI)

lemma dequeue_pending: "asyncPhase s = Dequeuing \<Longrightarrow> mKernelQueue s = m # q \<Longrightarrow>
  pending (s\<lparr>mKernelQueue := q, asyncPhase := Dequeued m\<rparr>) = pending s"
  by (simp add: pending_def)

lemma Process_ok:
  assumes "stream_ok s" and "asyncPhase s = Dequeued m"
  shows "stream_ok (Process m s)"
proof -
  have p: "pending s = m # mKernelQueue s" using assms(2) by (simp add: pending_def)
  show ?thesis
    using assms(1) p
    by (cases m) (auto simp: stream_ok_def Process_def nulls_def pending_def split: if_splits)
qed

lemma Process_client_ok:
  assumes "stream_ok s" and "asyncPhase s = Dequeued m" and "client_ok s c"
  shows "client_ok (Process m s) c"
proof (cases "snd c")
  case (Own n b)
  have p: "pending s = m # mKernelQueue s" using assms(2) by (simp add: pending_def)
  have "n \<le> length (executed s)" if "\<not> mDestroy s" "m = Null_message"
    using assms(3) Own that p by (auto simp: client_ok_def ahead_def is_kernel_def)
  moreover have "n \<le> Suc (length (executed s)) + length (takeWhile is_kernel (mKernelQueue s)) \<and> (n \<le> length (executed s) \<or> mSync s)"
    if "\<not> mDestroy s" "m = Kernel_message k" for k
    using assms(3) Own that p by (auto simp: client_ok_def ahead_def is_kernel_def)
  ultimately show ?thesis
    using assms(3) Own
    by (cases m) (auto simp: client_ok_def Process_def ahead_def pending_def)
qed (use assms(3) in \<open>auto simp: client_ok_def Process_def\<close>)

lemma wake_client_ok [simp]: "client_ok s (wake_client c) \<longleftrightarrow> client_ok s c"
  by (cases c; cases "snd c") (auto simp: client_ok_def)

lemma not_asleep_wake [simp]: "\<not> asleep (wake_client c)"
  by (cases c; cases "snd c") (auto simp: asleep_def)

lemma client_ok_Enqueue: "client_ok s c \<Longrightarrow> client_ok (Enqueue i m s) c"
  using ahead_Enqueue [of s i m] by (auto simp: client_ok_def split: client_phase.splits)

lemma client_ok_Ready [simp]: "client_ok s (ps, Ready)"
  by (simp add: client_ok_def)

lemma client_ok_frame:
  assumes "client_ok s c" and "executed s' = executed s" and "launched s' = launched s" and "mSync s' = mSync s"
    and "mDestroy s \<Longrightarrow> mDestroy s'" and "pending s' = pending s"
    and "asyncPhase s = Stopped \<Longrightarrow> asyncPhase s' = Stopped"
  shows "client_ok s' c"
  using assms by (auto simp: client_ok_def ahead_def split: client_phase.splits)

definition system_ok :: "stream \<times> client list \<Rightarrow> bool" where
  "system_ok x \<longleftrightarrow> stream_ok (fst x) \<and> (\<forall>c \<in> set (snd x). client_ok (fst x) c) \<and> sleepers_ok (fst x) (snd x)"

lemma ball_update: "(\<forall>c \<in> set cs. P c) \<Longrightarrow> P c' \<Longrightarrow> \<forall>c \<in> set (cs[i := c']). P c"
  using set_update_subset_insert by fastforce

lemma bex_update: "\<exists>c \<in> set (cs[i := c']). P c \<Longrightarrow> (\<exists>c \<in> set cs. P c) \<or> P c'"
  using set_update_subset_insert by fastforce

lemma pending_simps [simp]:
  "pending (s\<lparr>mSync := b\<rparr>) = pending s" "pending (s\<lparr>mDestroy := b\<rparr>) = pending s"
  by (cases "asyncPhase s"; simp add: pending_def)+

lemma stream_step_ok:
  assumes "system_ok (s, cs)" and "stream_step spurious (s, cs) (s', cs')"
  shows "system_ok (s', cs')"
proof -
  from assms(1) have ok: "stream_ok s" and cl: "\<forall>c \<in> set cs. client_ok s c" and sl: "sleepers_ok s cs"
    by (simp_all add: system_ok_def)
  from assms(2) show ?thesis
  proof (cases rule: stream_step.cases)
    case (launch i k ps)
    have "sleepers_ok s' cs'"
      using sl launch bex_update [of cs i "(ps, Ready)" asleep] by (auto simp: sleepers_ok_def asleep_def)
    moreover have "\<forall>c \<in> set cs. client_ok s' c" using cl client_ok_Enqueue launch by blast
    then have "\<forall>c \<in> set (cs[i := (ps, Ready)]). client_ok s' c" by (rule ball_update) simp
    ultimately show ?thesis using launch ok by (simp add: system_ok_def Enqueue_kernel_ok)
  next
    case (turn_sleep i ps p)
    then have "client_ok s (Sync # ps, Turn False)" by (simp add: client_ok_def)
    with turn_sleep ok ball_update [OF cl] show ?thesis by (simp add: system_ok_def sleepers_ok_def)
  next
    case (sync_begin i ps p)
    have new: "client_ok s' (Sync # ps, Own (length (launched s)) False)"
      using Sync_begin_ok [OF ok, of i] sync_begin by (auto simp: client_ok_def Sync_begin_def)
    have "client_ok (Sync_begin i s) c" if "client_ok s c" for c
    proof -
      have "client_ok (s\<lparr>mSync := True\<rparr>) c" using that sync_begin by (auto simp: client_ok_def ahead_def split: client_phase.splits)
      then show ?thesis unfolding Sync_begin_def by (rule client_ok_Enqueue)
    qed
    with cl have "\<forall>c \<in> set cs. client_ok s' c" using sync_begin by simp
    from ball_update [OF this new] sync_begin Sync_begin_ok [OF ok] show ?thesis
      by (simp add: system_ok_def sleepers_ok_def Sync_begin_def)
  next
    case (sync_sleep i ps n)
    then have "client_ok s (Sync # ps, Own n True)" using cl nth_mem by fastforce
    then have "client_ok s (Sync # ps, Own n False)" by (simp add: client_ok_def)
    with sync_sleep ok ball_update [OF cl] show ?thesis by (simp add: system_ok_def sleepers_ok_def)
  next
    case (sync_return i ps n)
    have "sleepers_ok s' cs'"
      using sl sync_return bex_update [of cs i "(ps, Ready)" asleep] by (auto simp: sleepers_ok_def asleep_def)
    moreover have "\<forall>c \<in> set (cs[i := (ps, Ready)]). client_ok s c" using cl by (rule ball_update) simp
    ultimately show ?thesis using sync_return ok by (simp add: system_ok_def)
  next
    case (dequeue m q)
    then have p: "pending s' = pending s" by (simp add: dequeue_pending)
    have "stream_ok s'" using ok dequeue p by (auto simp: stream_ok_def nulls_def)
    moreover have "client_ok s' c" if "client_ok s c" for c by (rule client_ok_frame [OF that]) (use dequeue p in auto)
    ultimately show ?thesis using cl sl dequeue by (simp add: system_ok_def sleepers_ok_def)
  next
    case (process m)
    have "client_ok s' c" if "client_ok s c" for c using Process_client_ok [OF ok process(3) that] process by simp
    moreover have "sleepers_ok s' cs'" using sl process ok by (auto simp: sleepers_ok_def Process_def stream_ok_def split: message.splits)
    ultimately show ?thesis using cl Process_ok [OF ok] process by (simp add: system_ok_def)
  next
    case notify_all
    then have p: "pending s' = pending s" by (simp add: pending_def)
    have "client_ok s' c" if "client_ok s c" for c by (rule client_ok_frame [OF that]) (use notify_all p in auto)
    with notify_all ok cl p show ?thesis by (auto simp: system_ok_def sleepers_ok_def stream_ok_def nulls_def)
  next
    case (wake_spurious i)
    have "client_ok s (wake_client (cs ! i))" using cl wake_spurious by simp
    moreover have "sleepers_ok s' cs'" using sl wake_spurious bex_update [of cs i "wake_client (cs ! i)" asleep]
      by (auto simp: sleepers_ok_def)
    moreover have "\<forall>c \<in> set (cs[i := wake_client (cs ! i)]). client_ok s c"
      using cl by (rule ball_update) (use cl wake_spurious in simp)
    ultimately show ?thesis using ok wake_spurious by (simp add: system_ok_def)
  next
    case (destroy_flag i ps)
    have "client_ok s' c" if "client_ok s c" for c by (rule client_ok_frame [OF that]) (use destroy_flag in auto)
    with cl have "\<forall>c \<in> set cs. client_ok s' c" by blast
    moreover have "client_ok s' (Destroy # ps, Destroying)" using destroy_flag by (simp add: client_ok_def)
    ultimately have "\<forall>c \<in> set (cs[i := (Destroy # ps, Destroying)]). client_ok s' c" by (rule ball_update)
    moreover have "sleepers_ok s' cs'"
      using sl destroy_flag bex_update [of cs i "(Destroy # ps, Destroying)" asleep] by (auto simp: sleepers_ok_def asleep_def)
    ultimately show ?thesis using destroy_flag ok by (auto simp: system_ok_def stream_ok_def)
  next
    case (destroy_send i ps)
    have "client_ok s (Destroy # ps, Destroying)" using cl destroy_send nth_mem by fastforce
    then have d: "mDestroy s" by (simp add: client_ok_def)
    have "\<forall>c \<in> set cs. client_ok s' c" using cl client_ok_Enqueue destroy_send by blast
    moreover have "client_ok s' (Destroy # ps, Joining)" using destroy_send d by (simp add: client_ok_def)
    ultimately have "\<forall>c \<in> set (cs[i := (Destroy # ps, Joining)]). client_ok s' c" by (rule ball_update)
    moreover have "sleepers_ok s' cs'"
      using sl destroy_send bex_update [of cs i "(Destroy # ps, Joining)" asleep] by (auto simp: sleepers_ok_def asleep_def)
    ultimately show ?thesis using destroy_send ok d by (auto simp: system_ok_def stream_ok_def)
  next
    case (destroy_join i ps p)
    have "sleepers_ok s' cs'"
      using sl destroy_join bex_update [of cs i "(ps, Ready)" asleep] by (auto simp: sleepers_ok_def asleep_def)
    moreover have "\<forall>c \<in> set (cs[i := (ps, Ready)]). client_ok s c" using cl by (rule ball_update) simp
    ultimately show ?thesis using destroy_join ok by (simp add: system_ok_def)
  qed
qed

lemma started_ok: "system_ok (started programs)"
  by (auto simp: system_ok_def started_def KernelStream_new_def stream_ok_def nulls_def pending_def client_ok_def sleepers_ok_def asleep_def)

lemma stream_reach_ok: "stream_reach spurious (started programs) x \<Longrightarrow> system_ok x"
  by (induction rule: rtranclp_induct) (use started_ok stream_step_ok in \<open>auto split: prod.splits\<close>)

section \<open>What Sync promises\<close>

text \<open>A thread inside its own \<open>Sync\<close> is the producer, so nothing has been launched since it asked.\<close>

definition owners_ok :: "stream \<Rightarrow> client list \<Rightarrow> bool" where
  "owners_ok s cs \<longleftrightarrow> (\<forall>i < length cs. \<forall>n b. snd (cs ! i) = Own n b \<longrightarrow> mProducer s = Some i \<and> n = length (launched s))"

lemma snd_wake_client: "snd (wake_client c) = Own n b \<Longrightarrow> \<exists>b. snd c = Own n b"
  by (cases c; cases "snd c") auto

lemma owners_ok_update:
  assumes "owners_ok s cs" and "mProducer s' = mProducer s" and "launched s' = launched s"
    and "\<And>n b. snd c = Own n b \<Longrightarrow> \<exists>b. snd (cs ! i) = Own n b"
  shows "owners_ok s' (cs[i := c])"
  unfolding owners_ok_def
proof (intro allI impI)
  fix j n b
  assume j: "j < length (cs[i := c])" and own: "snd (cs[i := c] ! j) = Own n b"
  then have "\<exists>b. snd (cs ! j) = Own n b" using assms(4) by (cases "j = i") auto
  with j assms(1-3) show "mProducer s' = Some j \<and> n = length (launched s')" by (auto simp: owners_ok_def)
qed

lemma owners_ok_Enqueue:
  assumes "owners_ok s cs" and "may_produce i s" and "snd (cs ! i) \<in> {Ready, Turn True, Destroying}"
    and "\<And>n b. snd c = Own n b \<Longrightarrow> n = length (launched s) \<and> m = Null_message"
  shows "owners_ok (Enqueue i m s) (cs[i := c])"
  unfolding owners_ok_def
proof (intro allI impI)
  fix j n b
  assume j: "j < length (cs[i := c])" and own: "snd (cs[i := c] ! j) = Own n b"
  show "mProducer (Enqueue i m s) = Some j \<and> n = length (launched (Enqueue i m s))"
  proof (cases "j = i")
    case True
    with j own assms(4) show ?thesis by (auto simp: Enqueue_def)
  next
    case False
    with j own have "mProducer s = Some j" using assms(1) by (auto simp: owners_ok_def)
    with assms(2) False show ?thesis by (simp add: may_produce_def)
  qed
qed

lemma stream_step_owners:
  assumes "owners_ok s cs" and "stream_step spurious (s, cs) (s', cs')"
  shows "owners_ok s' cs'"
  using assms(2)
proof (cases rule: stream_step.cases)
  case (launch i k ps)
  with assms(1) show ?thesis by (auto intro!: owners_ok_Enqueue)
next
  case (turn_sleep i ps p)
  with assms(1) show ?thesis by (auto intro!: owners_ok_update [of s])
next
  case (sync_begin i ps p)
  have "owners_ok (s\<lparr>mSync := True\<rparr>) cs" using assms(1) by (simp add: owners_ok_def)
  with sync_begin show ?thesis by (auto simp: Sync_begin_def may_produce_def intro!: owners_ok_Enqueue)
next
  case (sync_sleep i ps n)
  with assms(1) show ?thesis by (auto intro!: owners_ok_update [of s])
next
  case (sync_return i ps n)
  with assms(1) show ?thesis by (auto intro!: owners_ok_update [of s])
next
  case (process m)
  with assms(1) show ?thesis by (auto simp: owners_ok_def Process_def split: message.splits)
next
  case notify_all
  with assms(1) show ?thesis by (auto simp: owners_ok_def dest!: snd_wake_client)
next
  case (wake_spurious i)
  with assms(1) show ?thesis by (auto intro!: owners_ok_update [of s] dest!: snd_wake_client)
next
  case (destroy_flag i ps)
  with assms(1) show ?thesis by (auto intro!: owners_ok_update [of s])
next
  case (destroy_send i ps)
  with assms(1) show ?thesis by (auto intro!: owners_ok_Enqueue)
next
  case (destroy_join i ps p)
  with assms(1) show ?thesis by (auto intro!: owners_ok_update [of s])
qed (use assms(1) in \<open>simp add: owners_ok_def\<close>)

lemma stream_reach_owners: "stream_reach spurious (started programs) (s, cs) \<Longrightarrow> owners_ok s cs"
  by (induction "(s, cs)" arbitrary: s cs rule: rtranclp_induct)
    (auto simp: started_def owners_ok_def [of KernelStream_new] intro: stream_step_owners)

text \<open>C11: \<open>KernelStream::Sync\<close> returns only when every kernel that has been launched has run, and the kernels have run
  in the order of their launches.  The queue has one producing thread, as its documentation demands: the thread that
  launches the kernels is the one whose \<open>Sync\<close> is considered.  Other threads may wait for their turn meanwhile, set the
  flag of the destructor, and wake up spuriously.\<close>

theorem Sync_waits:
  assumes "stream_reach spurious (started programs) (s, cs)"
    and "i < length cs" and "cs ! i = (Sync # ps, Own n True)"
    and "stream_step spurious (s, cs) (s', cs')" and "cs' ! i = (ps, Ready)"
  shows "executed s' = launched s'"
proof -
  from stream_reach_ok [OF assms(1)] have ok: "stream_ok s" "client_ok s (Sync # ps, Own n True)"
    using assms(2,3) by (auto simp: system_ok_def) (metis nth_mem)
  have n: "n = length (launched s)" 
    using stream_reach_owners [OF assms(1)] assms(2,3) unfolding owners_ok_def by (metis snd_conv)
  have ret: "s' = s \<and> \<not> mSync s"
    using assms(4)
  proof (cases rule: stream_step.cases)
    case (launch j k qs)
    with assms(2,3,5) show ?thesis by (cases "i = j") auto
  next
    case (sync_begin j qs p)
    with assms(2,3,5) show ?thesis by (cases "i = j") auto
  next
    case (turn_sleep j qs p)
    with assms(2,3,5) show ?thesis by (cases "i = j") auto
  next
    case (sync_sleep j qs m)
    with assms(2,3,5) show ?thesis by (cases "i = j") auto
  next
    case (wake_spurious j)
    with assms(2,3,5) show ?thesis by (cases "i = j") auto
  next
    case (destroy_flag j qs)
    with assms(2,3,5) show ?thesis by (cases "i = j") auto
  next
    case (destroy_send j qs)
    with assms(2,3,5) show ?thesis by (cases "i = j") auto
  next
    case (destroy_join j qs p)
    with assms(2,3,5) show ?thesis by (cases "i = j") auto
  qed (use assms(2,3,5) in auto)
  with ok(2) have "n \<le> length (executed s)" by (auto simp: client_ok_def)
  moreover from ok(1) have "prefix (executed s) (launched s)" by (simp add: stream_ok_def)
  ultimately show ?thesis using n ret by (auto simp: prefix_def)
qed

text \<open>The ghost only grows, and \<open>Sync\<close> records its length when it begins.\<close>

lemma launched_grows: "stream_step spurious (s, cs) (s', cs') \<Longrightarrow> prefix (launched s) (launched s')"
  by (erule stream_stepE) (auto simp: Sync_begin_def Process_def split: message.splits)

section \<open>Every run ends\<close>

fun call_weight :: "stream_call \<Rightarrow> nat" where
  "call_weight (LaunchKernel k) = 4"
| "call_weight Sync = 7"
| "call_weight Destroy = 8"

fun message_weight :: "message \<Rightarrow> nat" where
  "message_weight (Kernel_message k) = 3"
| "message_weight Null_message = 5"

fun async_weight :: "async_phase \<Rightarrow> nat" where
  "async_weight (Dequeued m) = message_weight m - 1"
| "async_weight Notifying_all = 1"
| "async_weight p = 0"

text \<open>A call to \<open>Sync\<close> or \<open>Destroy\<close> that has sent its message only has to return.\<close>

fun client_weight :: "client \<Rightarrow> nat" where
  "client_weight (Sync # cs, Own n b) = 1 + sum_list (map call_weight cs)"
| "client_weight (Destroy # cs, Destroying) = 7 + sum_list (map call_weight cs)"
| "client_weight (Destroy # cs, Joining) = 1 + sum_list (map call_weight cs)"
| "client_weight (cs, p) = sum_list (map call_weight cs)"

fun phase_weight :: "client \<Rightarrow> nat" where
  "phase_weight (cs, Ready) = 1"
| "phase_weight (cs, Turn b) = (if b then 1 else 0)"
| "phase_weight (cs, Own n b) = (if b then 1 else 0)"
| "phase_weight (cs, p) = 1"

definition work :: "stream \<times> client list \<Rightarrow> nat" where
  "work x = sum_list (map client_weight (snd x)) + sum_list (map message_weight (mKernelQueue (fst x))) +
     async_weight (asyncPhase (fst x))"

definition restless :: "stream \<times> client list \<Rightarrow> nat" where
  "restless x = sum_list (map phase_weight (snd x))"

lemma sum_list_map_update:
  "i < length xs \<Longrightarrow> sum_list (map f (xs[i := x])) + f (xs ! i) = sum_list (map f xs) + (f x :: nat)"
  using elem_le_sum_list [of i "map f xs"] sum_list_update [of i "map f xs" "f x"] by (simp add: map_update)

lemma client_weight_Turn [simp]: "client_weight (cs, Turn b) = sum_list (map call_weight cs)"
  "client_weight (cs, Ready) = sum_list (map call_weight cs)"
  by (cases cs; simp)+

lemma client_weight_wake [simp]: "client_weight (wake_client c) = client_weight c"
proof (cases c)
  case (Pair cs p)
  then show ?thesis
  proof (cases p)
    case (Own n b)
    with Pair show ?thesis
    proof (cases cs)
      case (Cons call ps)
      with Pair Own show ?thesis by (cases call) simp_all
    qed simp
  qed simp_all
qed

lemma message_weight_pos: "0 < message_weight m"
  by (cases m) auto

lemma Enqueue_work: "mKernelQueue (Enqueue i m s) = mKernelQueue s @ [m]" "mProducer (Enqueue i m s) = Some i"
  by (simp_all add: Enqueue_def)

lemma stream_step_decreases:
  assumes "stream_step False x y"
  shows "work y < work x \<or> work y = work x \<and> restless y < restless x"
  using assms
proof cases
  case (launch i cs k ps s)
  then show ?thesis
    using sum_list_map_update [of i cs client_weight "(ps, Ready)"] by (simp add: work_def Enqueue_work)
next
  case (turn_sleep i cs ps p s)
  then have "client_weight (cs ! i) = client_weight (Sync # ps, Turn False)" "phase_weight (cs ! i) = 1" by auto
  with turn_sleep show ?thesis
    using sum_list_map_update [of i cs client_weight "(Sync # ps, Turn False)"]
      sum_list_map_update [of i cs phase_weight "(Sync # ps, Turn False)"] by (simp add: work_def restless_def)
next
  case (sync_begin i cs ps p s)
  then have "client_weight (cs ! i) = 7 + sum_list (map call_weight ps)" by auto
  with sync_begin show ?thesis
    using sum_list_map_update [of i cs client_weight "(Sync # ps, Own (length (launched s)) False)"]
    by (simp add: work_def Sync_begin_def Enqueue_work)
next
  case (sync_sleep i cs ps n s)
  then show ?thesis
    using sum_list_map_update [of i cs client_weight "(Sync # ps, Own n False)"]
      sum_list_map_update [of i cs phase_weight "(Sync # ps, Own n False)"] by (simp add: work_def restless_def)
next
  case (sync_return i cs ps n s)
  then show ?thesis
    using sum_list_map_update [of i cs client_weight "(ps, Ready)"] by (simp add: work_def)
next
  case (dequeue s m q cs)
  then show ?thesis using message_weight_pos [of m] by (simp add: work_def) linarith
next
  case (process s m cs)
  then show ?thesis by (cases m) (auto simp: work_def Process_def)
next
  case (notify_all s cs)
  then show ?thesis by (simp add: work_def comp_def)
next
  case (destroy_flag i cs ps s)
  then show ?thesis
    using sum_list_map_update [of i cs client_weight "(Destroy # ps, Destroying)"] by (simp add: work_def)
next
  case (destroy_send i cs ps s)
  then show ?thesis
    using sum_list_map_update [of i cs client_weight "(Destroy # ps, Joining)"] by (simp add: work_def Enqueue_work)
next
  case (destroy_join i cs ps p s)
  then have "client_weight (cs ! i) > sum_list (map call_weight ps)" by auto
  with destroy_join show ?thesis
    using sum_list_map_update [of i cs client_weight "(ps, Ready)"] by (simp add: work_def)
qed simp_all

lemma stream_runs_end: "wfP (\<lambda>y x. stream_step False x y)"
proof -
  have "wf (inv_image (less_than <*lex*> less_than) (\<lambda>x. (work x, restless x)))" by (intro wf_inv_image wf_lex_prod wf_less_than)
  then show ?thesis
    unfolding wfp_def by (rule wf_subset) (auto dest: stream_step_decreases)
qed

text \<open>The kernels of a program, in order, and the runs in which the thread \<open>p\<close> is the only one with calls.\<close>

fun launches :: "stream_call list \<Rightarrow> nat list" where
  "launches [] = []"
| "launches (LaunchKernel k # ps) = k # launches ps"
| "launches (call # ps) = launches ps"

definition alone :: "nat \<Rightarrow> stream_call list \<Rightarrow> stream \<times> client list \<Rightarrow> bool" where
  "alone p program x \<longleftrightarrow> (case x of (s, cs) \<Rightarrow> p < length cs \<and> (\<forall>i < length cs. i \<noteq> p \<longrightarrow> cs ! i = ([], Ready)) \<and>
     mProducer s \<in> {None, Some p} \<and> launched s @ launches (fst (cs ! p)) = launches program \<and>
     Destroy \<notin> set (butlast (fst (cs ! p))) \<and>
     (mDestroy s \<longrightarrow> cs ! p \<in> {([Destroy], Destroying), ([Destroy], Joining), ([], Ready)}) \<and>
     (Destroy \<notin> set program \<longrightarrow> \<not> mDestroy s \<and> Destroy \<notin> set (fst (cs ! p))))"

lemma fst_wake_client [simp]: "fst (wake_client c) = fst c"
  by (cases c; cases "snd c") auto

lemma alone_step:
  assumes "alone p program x" and "stream_step False x y"
  shows "alone p program y"
  using assms(2)
proof (cases rule: stream_step.cases)
  case (launch i cs k ps s)
  with assms(1) have "i = p" by (auto simp: alone_def)
  with launch assms(1) show ?thesis by (auto simp: alone_def Enqueue_work split: if_splits)
next
  case (turn_sleep i cs ps q s)
  with assms(1) have "i = p" by (auto simp: alone_def)
  with turn_sleep assms(1) show ?thesis by (auto simp: alone_def)
next
  case (sync_begin i cs ps q s)
  with assms(1) have "i = p" by (auto simp: alone_def)
  with sync_begin assms(1) show ?thesis by (auto simp: alone_def Sync_begin_def Enqueue_work)
next
  case (sync_sleep i cs ps n s)
  with assms(1) have "i = p" by (auto simp: alone_def)
  with sync_sleep assms(1) show ?thesis by (auto simp: alone_def)
next
  case (sync_return i cs ps n s)
  with assms(1) have "i = p" by (auto simp: alone_def)
  with sync_return assms(1) show ?thesis by (auto simp: alone_def split: if_splits)
next
  case (process s m cs)
  with assms(1) show ?thesis by (cases m) (auto simp: alone_def Process_def)
next
  case (notify_all s cs)
  with assms(1) show ?thesis by (auto simp: alone_def)
next
  case (destroy_flag i cs ps s)
  with assms(1) have "i = p" by (auto simp: alone_def)
  moreover from this destroy_flag assms(1) have "ps = []" by (cases ps) (auto simp: alone_def)
  ultimately show ?thesis using destroy_flag assms(1) by (auto simp: alone_def)
next
  case (destroy_send i cs ps s)
  with assms(1) have "i = p" by (auto simp: alone_def)
  moreover from this destroy_send assms(1) have "ps = []" by (cases ps) (auto simp: alone_def)
  ultimately show ?thesis using destroy_send assms(1) by (auto simp: alone_def Enqueue_work)
next
  case (destroy_join i cs ps q s)
  with assms(1) have "i = p" by (auto simp: alone_def)
  moreover from this destroy_join assms(1) have "ps = []" by (cases ps) (auto simp: alone_def)
  ultimately show ?thesis using destroy_join assms(1) by (auto simp: alone_def)
qed (use assms(1) in \<open>auto simp: alone_def\<close>)

lemma alone_started:
  assumes "p < length programs" and "\<forall>i < length programs. i \<noteq> p \<longrightarrow> programs ! i = []"
    and "Destroy \<notin> set (butlast (programs ! p))"
  shows "alone p (programs ! p) (started programs)"
  using assms by (simp add: alone_def started_def KernelStream_new_def)

lemma alone_reach: "stream_reach False x y \<Longrightarrow> alone p program x \<Longrightarrow> alone p program y"
  by (induction rule: rtranclp_induct) (auto intro: alone_step)

text \<open>A state in which no thread can take a step is one in which all are done.\<close>

lemma stuck_async:
  assumes "stream_ok s" and "\<And>y. \<not> stream_step False (s, cs) y"
  shows "asyncPhase s = Dequeuing \<and> mKernelQueue s = [] \<or> asyncPhase s = Stopped"
proof (cases "asyncPhase s")
  case Dequeuing
  with assms(2) show ?thesis using dequeue [of s _ _ False cs] by (cases "mKernelQueue s") auto
next
  case (Dequeued m)
  with assms(2) show ?thesis using process by blast
next
  case Notifying_all
  with assms(2) show ?thesis using notify_all by blast
qed (use assms(1) in \<open>auto simp: stream_ok_def\<close>)

lemma stuck_client:
  assumes ok: "system_ok (s, cs)" and al: "alone p program (s, cs)" and stuck: "\<And>y. \<not> stream_step False (s, cs) y"
  shows "cs ! p = ([], Ready)"
proof -
  obtain calls ph where c: "cs ! p = (calls, ph)" by fastforce
  have p: "p < length cs" "may_produce p s" using al by (auto simp: alone_def may_produce_def)
  have c_ok: "client_ok s (calls, ph)" using ok p c by (auto simp: system_ok_def) (metis nth_mem)
  have s_ok: "stream_ok s" using ok by (simp add: system_ok_def)
  show ?thesis
  proof (cases "mDestroy s")
    case True
    with al c consider "calls = [Destroy]" "ph = Destroying" | "calls = [Destroy]" "ph = Joining" | "calls = []" "ph = Ready"
      by (auto simp: alone_def)
    then show ?thesis
    proof cases
      case 1
      with stuck destroy_send [OF p(1) _ p(2)] c show ?thesis by blast
    next
      case 2
      with c_ok stuck_async [OF s_ok stuck] have "asyncPhase s = Stopped" by (auto simp: client_ok_def pending_def)
      with stuck destroy_join [OF p(1), of "[]" Joining] c 2 show ?thesis by blast
    qed (use c in simp)
  next
    case False
    with s_ok stuck_async [OF s_ok stuck] have async: "asyncPhase s = Dequeuing" and queue: "mKernelQueue s = []"
      by (auto simp: stream_ok_def)
    have sync: "\<not> mSync s" using s_ok async queue False by (auto simp: stream_ok_def nulls_def pending_def)
    then have awake: "\<not> asleep (calls, ph)"
      using ok async p(1) c by (auto simp: system_ok_def sleepers_ok_def) (metis nth_mem)
    consider (ready) "ph = Ready" | (turn) ps where "ph = Turn True" "calls = Sync # ps" | (own) n ps where "ph = Own n True" "calls = Sync # ps"
      using awake c_ok False by (cases ph) (auto simp: client_ok_def asleep_def)
    then show ?thesis
    proof cases
      case ready
      show ?thesis
      proof (cases calls)
        case (Cons call ps)
        then show ?thesis
          using stuck launch [OF p(1) _ p(2), of _ ps] sync_begin [OF p(1) _ _ sync p(2), of ps Ready] destroy_flag [OF p(1), of ps s] async c ready
          by (cases call) auto
      qed (use c ready in simp)
    next
      case turn
      then show ?thesis using stuck sync_begin [OF p(1) _ _ sync p(2), of ps "Turn True"] c by blast
    next
      case own
      then show ?thesis using stuck sync_return [OF p(1), of ps n s] sync c by blast
    qed
  qed
qed

lemma stuck_done:
  assumes ok: "system_ok (s, cs)" and al: "alone p program (s, cs)" and stuck: "\<And>y. \<not> stream_step False (s, cs) y"
  shows "(\<forall>c \<in> set cs. c = ([], Ready)) \<and> launched s = launches program \<and> prefix (executed s) (launched s) \<and>
    (Destroy \<notin> set program \<longrightarrow> mKernelQueue s = [] \<and> executed s = launched s)"
proof (intro conjI impI)
  have c: "cs ! p = ([], Ready)" by (rule stuck_client [OF assms])
  have "cs ! i = ([], Ready)" if "i < length cs" for i
    using al c that by (cases "i = p") (simp_all add: alone_def)
  then show "\<forall>c \<in> set cs. c = ([], Ready)" by (metis in_set_conv_nth)
  from c al show "launched s = launches program" by (simp add: alone_def)
  have s_ok: "stream_ok s" using ok by (simp add: system_ok_def)
  then show "prefix (executed s) (launched s)" by (simp add: stream_ok_def)
  assume "Destroy \<notin> set program"
  with al have d: "\<not> mDestroy s" by (simp add: alone_def)
  with s_ok stuck_async [OF s_ok stuck] have a: "asyncPhase s = Dequeuing" and q: "mKernelQueue s = []"
    by (auto simp: stream_ok_def)
  show "mKernelQueue s = []" by (fact q)
  show "executed s = launched s" using s_ok a q d by (simp add: stream_ok_def pending_def)
qed

text \<open>C12: one thread launches kernels, synchronises as often as it likes and destroys the stream at the end, if it does
  (one producing thread is what the documentation of the queue demands).  Without spurious wake-ups neither this thread nor
  the thread of the stream deadlocks or runs for ever: every run ends, where it ends all calls have returned, and exactly
  the kernels of the program have been launched, in order.  If the stream has not been destroyed they have all run, in that
  order; if it has, the first of them have.\<close>

theorem stream_drains:
  assumes "p < length programs" and "\<forall>i < length programs. i \<noteq> p \<longrightarrow> programs ! i = []"
    and "Destroy \<notin> set (butlast (programs ! p))"
  shows "wfP (\<lambda>y x. stream_step False x y) \<and>
   (\<forall>s cs. stream_reach False (started programs) (s, cs) \<longrightarrow> (\<forall>y. \<not> stream_step False (s, cs) y) \<longrightarrow>
     (\<forall>c \<in> set cs. c = ([], Ready)) \<and> launched s = launches (programs ! p) \<and> prefix (executed s) (launched s) \<and>
     (Destroy \<notin> set (programs ! p) \<longrightarrow> mKernelQueue s = [] \<and> executed s = launched s))"
proof (intro conjI stream_runs_end allI impI)
  fix s cs
  assume r: "stream_reach False (started programs) (s, cs)" and st: "\<forall>y. \<not> stream_step False (s, cs) y"
  note d = stuck_done [OF stream_reach_ok [OF r] alone_reach [OF r alone_started [OF assms]]]
  show "\<forall>c \<in> set cs. c = ([], Ready)" and "launched s = launches (programs ! p)" and "prefix (executed s) (launched s)"
    using d st by blast+
  show "mKernelQueue s = []" "executed s = launched s" if "Destroy \<notin> set (programs ! p)" using d st that by blast+
qed

subsection \<open>An example\<close>

text \<open>One client launches the kernel 7 and synchronises.\<close>

definition example_stream :: "async_phase \<Rightarrow> bool \<Rightarrow> message list \<Rightarrow> nat list \<Rightarrow> stream" where
  "example_stream p b q ks = \<lparr>mKernelQueue = q, mSync = b, mDestroy = False, mProducer = Some 0, asyncPhase = p,
     executed = ks, launched = [7]\<rparr>"

lemma example_stream_reach:
  "stream_reach False (started [[LaunchKernel 7, Sync]]) (example_stream Dequeuing False [] [7], [([Sync], Own 1 True)])"
proof -
  let ?K = "Kernel_message 7" and ?N = Null_message and ?reach = "stream_reach False"
  have "?reach (started [[LaunchKernel 7, Sync]]) (example_stream Dequeuing False [?K] [], [([Sync], Ready)])"
    by (rule r_into_rtranclp) (use launch [of 0 "[([LaunchKernel 7, Sync], Ready)]" 7 "[Sync]" KernelStream_new False] in \<open>simp add: may_produce_def started_def KernelStream_new_def Enqueue_def example_stream_def\<close>)
  also have "?reach \<dots> (example_stream Dequeuing True [?K, ?N] [], [([Sync], Own 1 False)])"
    by (rule r_into_rtranclp) (use sync_begin [of 0 "[([Sync], Ready)]" "[]" Ready "example_stream Dequeuing False [?K] []" False] in \<open>simp add: may_produce_def Sync_begin_def Enqueue_def example_stream_def\<close>)
  also have "?reach \<dots> (example_stream (Dequeued ?K) True [?N] [], [([Sync], Own 1 False)])"
    by (rule r_into_rtranclp) (use dequeue [of "example_stream Dequeuing True [?K, ?N] []" ?K "[?N]" False] in \<open>simp add: example_stream_def\<close>)
  also have "?reach \<dots> (example_stream Dequeuing True [?N] [7], [([Sync], Own 1 False)])"
    by (rule r_into_rtranclp) (use process [of "example_stream (Dequeued ?K) True [?N] []" ?K False] in \<open>simp add: example_stream_def Process_def\<close>)
  also have "?reach \<dots> (example_stream (Dequeued ?N) True [] [7], [([Sync], Own 1 False)])"
    by (rule r_into_rtranclp) (use dequeue [of "example_stream Dequeuing True [?N] [7]" ?N "[]" False] in \<open>simp add: example_stream_def\<close>)
  also have "?reach \<dots> (example_stream Notifying_all False [] [7], [([Sync], Own 1 False)])"
    by (rule r_into_rtranclp) (use process [of "example_stream (Dequeued ?N) True [] [7]" ?N False] in \<open>simp add: example_stream_def Process_def\<close>)
  also have "?reach \<dots> (example_stream Dequeuing False [] [7], [([Sync], Own 1 True)])"
    by (rule r_into_rtranclp) (use notify_all [of "example_stream Notifying_all False [] [7]" False "[([Sync], Own 1 False)]"] in \<open>simp add: example_stream_def\<close>)
  finally show ?thesis by simp
qed

lemma example_stream_return:
  "stream_step False (example_stream Dequeuing False [] [7], [([Sync], Own 1 True)]) (example_stream Dequeuing False [] [7], [([], Ready)])"
  using sync_return [of 0 "[([Sync], Own 1 True)]" "[]" 1 "example_stream Dequeuing False [] [7]" False] by (simp add: example_stream_def)

theorem Sync_waits_witness:
  "\<exists>s cs. stream_reach False (started [[LaunchKernel 7, Sync]]) (s, cs) \<and> cs ! 0 = ([Sync], Own 1 True) \<and> executed s = [7]"
  using example_stream_reach Sync_waits [OF example_stream_reach _ _ example_stream_return, of 0 "[]" 1]
  by (force simp: example_stream_def)

theorem stream_drains_witness:
  "executed (example_stream Dequeuing False [] [7]) = launches [LaunchKernel 7, Sync]"
proof -
  let ?e = "example_stream Dequeuing False [] [7]" and ?P = "[[LaunchKernel 7, Sync]]"
  have reach: "stream_reach False (started ?P) (?e, [([], Ready)])"
    using example_stream_reach example_stream_return by (rule rtranclp.rtrancl_into_rtrancl)
  have stuck: "\<forall>y. \<not> stream_step False (?e, [([], Ready)]) y"
    by (intro allI notI, erule stream_step.cases) (auto simp: example_stream_def)
  have "0 < length ?P" and "\<forall>i < length ?P. i \<noteq> 0 \<longrightarrow> ?P ! i = []" and "Destroy \<notin> set (butlast (?P ! 0))"
    by simp_all
  from stream_drains [of 0 ?P, OF this, THEN conjunct2, THEN spec, THEN spec, THEN mp, OF reach, THEN mp, OF stuck]
  show ?thesis by simp
qed

section \<open>Destruction\<close>

text \<open>The thread looks at the flag of the destructor after every message, so kernels that are still in the queue are dropped.\<close>

lemma destroy_drops_kernels:
  "\<exists>s. stream_reach False (started [[LaunchKernel 7, Destroy]]) (s, [([Destroy], Destroying)]) \<and>
    asyncPhase s = Stopped \<and> launched s = [7] \<and> executed s = []"
proof -
  let ?K = "Kernel_message 7" and ?reach = "stream_reach False" and ?cs = "[([Destroy], Destroying)]"
  let ?s = "example_stream Dequeuing False [?K] []"
  have "?reach (started [[LaunchKernel 7, Destroy]]) (?s, [([Destroy], Ready)])"
    by (rule r_into_rtranclp) (use launch [of 0 "[([LaunchKernel 7, Destroy], Ready)]" 7 "[Destroy]" KernelStream_new False] in
      \<open>simp add: may_produce_def started_def KernelStream_new_def Enqueue_def example_stream_def\<close>)
  also have "?reach \<dots> (?s\<lparr>mDestroy := True\<rparr>, ?cs)"
    by (rule r_into_rtranclp) (use destroy_flag [of 0 "[([Destroy], Ready)]" "[]" ?s False] in \<open>simp add: example_stream_def\<close>)
  also have "?reach \<dots> (?s\<lparr>mDestroy := True, mKernelQueue := [], asyncPhase := Dequeued ?K\<rparr>, ?cs)"
    by (rule r_into_rtranclp) (use dequeue [of "?s\<lparr>mDestroy := True\<rparr>" ?K "[]" False ?cs] in \<open>simp add: example_stream_def\<close>)
  also have "?reach \<dots> (?s\<lparr>mDestroy := True, mKernelQueue := [], asyncPhase := Stopped\<rparr>, ?cs)"
    by (rule r_into_rtranclp) (use process [of "?s\<lparr>mDestroy := True, mKernelQueue := [], asyncPhase := Dequeued ?K\<rparr>" ?K False ?cs] in
      \<open>simp add: example_stream_def Process_def\<close>)
  finally show ?thesis by (intro exI conjI) (auto simp: example_stream_def)
qed

section \<open>The streams of a process\<close>

text \<open>A stream is named by the key it was created with, its local device.  The number of CUDA devices is a parameter.\<close>

record KernelStreamManager =
  mStreamMap :: "KernelStreamKey \<rightharpoonup> KernelStreamKey"
  mStreamLocalDeviceMap :: "KernelStreamKey \<rightharpoonup> Device"

definition KernelStreamManager_new :: KernelStreamManager where
  "KernelStreamManager_new = \<lparr>mStreamMap = Map.empty, mStreamLocalDeviceMap = Map.empty\<rparr>"

definition NewStream :: "int \<Rightarrow> KernelStreamKey \<Rightarrow> KernelStreamKey res" where
  "NewStream cudaDeviceCount key =
     (case deviceKind (key_device key) of
        kCpu \<Rightarrow> Inr key
      | kGpu \<Rightarrow> assertR (deviceId (key_device key) \<ge> 0 \<and> deviceId (key_device key) < cudaDeviceCount) (Inr key)
      | DeviceKind_kCount \<Rightarrow> Inl Abort)"

definition Manager_GetStream ::
    "int \<Rightarrow> Device \<Rightarrow> Device \<Rightarrow> KernelStreamType \<Rightarrow> KernelStreamManager \<Rightarrow> (KernelStreamKey \<times> KernelStreamManager) res" where
  "Manager_GetStream cudaDeviceCount global local st m =
     (let searchStreamKey = \<lparr>key_device = global, streamType = st\<rparr> in
      case mStreamMap m searchStreamKey of
        None \<Rightarrow>
          let createStreamKey = \<lparr>key_device = local, streamType = st\<rparr> in
          assertR (mStreamLocalDeviceMap m searchStreamKey = None)
           (bindR (NewStream cudaDeviceCount createStreamKey) (\<lambda>stream.
             Inr (stream, m\<lparr>mStreamMap := (mStreamMap m)(searchStreamKey \<mapsto> stream),
               mStreamLocalDeviceMap := (mStreamLocalDeviceMap m)(searchStreamKey \<mapsto> local)\<rparr>)))
      | Some stream \<Rightarrow> assertR (mStreamLocalDeviceMap m searchStreamKey = Some local) (Inr (stream, m)))"

text \<open>Both maps have the same keys, and a stream of a key lives on the local device recorded for it.\<close>

definition Manager_ok :: "KernelStreamManager \<Rightarrow> bool" where
  "Manager_ok m \<longleftrightarrow> (\<forall>key. map_option key_device (mStreamMap m key) = mStreamLocalDeviceMap m key)"

lemma NewStream_Inr: "NewStream n key = Inr stream \<Longrightarrow> stream = key"
  by (auto simp: NewStream_def guardR_eq_Inr split: DeviceKind.splits)

lemma Manager_GetStream_ok:
  assumes "Manager_ok m" and "Manager_GetStream n global local st m = Inr (stream, m')"
  shows "Manager_ok m' \<and> key_device stream = local \<and> Manager_GetStream n global local st m' = Inr (stream, m')"
  using assms
  by (auto simp: Manager_GetStream_def Manager_ok_def Let_def guardR_eq_Inr bindR_eq_Inr dest!: NewStream_Inr
      split: option.splits) (metis option.inject option.simps(9))

end
